(* ===== verification/RetaBase.thy ===== *)
theory RetaBase
  imports Main "HOL-Library.Word" "HOL-Library.Monad_Syntax"
begin

text \<open>
  The prelude of the RetaOS development: the machine types of the i386 code, the error numbers of
  \<^verbatim>\<open>libc/include/errno.h\<close>, the pieces of C that several components use (byte buffers with
  checked reads and writes, little-endian fields, the conversion of a 32-bit result to a signed
  value) and the lemmas and lemma collections the component proofs share.

  Conventions.  \<open>None\<close> is the result of a C operation that does not return a value: it reads or
  writes outside an object, dereferences a null or dangling pointer, divides by zero, or does not
  terminate.  A value of the source's \<^verbatim>\<open>int\<close>, \<^verbatim>\<open>ssize_t\<close> or \<^verbatim>\<open>off_t\<close> is an \<open>int\<close>; where such a value
  comes out of unsigned 32-bit arithmetic it is read back with \<open>sint\<close>.
\<close>

unbundle bit_operations_syntax

subsection \<open>Machine types\<close>

type_synonym u8 = "8 word"
type_synonym u16 = "16 word"
type_synonym u32 = "32 word"

text \<open>An address of the 32-bit kernel; 0 is the null pointer.\<close>

type_synonym addr = u32

text \<open>The contents of a C string, without its terminating NUL.\<close>

type_synonym cstr = "u8 list"

definition asc :: "string \<Rightarrow> cstr" where
  "asc s = map of_char s"

text \<open>A list of bytes holds the contents of a C string when no byte of it is NUL.\<close>

definition cstr_ok :: "cstr \<Rightarrow> bool" where
  "cstr_ok s \<longleftrightarrow> 0 \<notin> set s"

subsection \<open>Error numbers\<close>

abbreviation (input) EPERM :: int where "EPERM \<equiv> 1"
abbreviation (input) ENOENT :: int where "ENOENT \<equiv> 2"
abbreviation (input) EIO :: int where "EIO \<equiv> 5"
abbreviation (input) EBADF :: int where "EBADF \<equiv> 9"
abbreviation (input) ENOMEM :: int where "ENOMEM \<equiv> 12"
abbreviation (input) EACCES :: int where "EACCES \<equiv> 13"
abbreviation (input) EEXIST :: int where "EEXIST \<equiv> 17"
abbreviation (input) ENOTDIR :: int where "ENOTDIR \<equiv> 20"
abbreviation (input) EISDIR :: int where "EISDIR \<equiv> 21"
abbreviation (input) EINVAL :: int where "EINVAL \<equiv> 22"
abbreviation (input) EMFILE :: int where "EMFILE \<equiv> 24"
abbreviation (input) EROFS :: int where "EROFS \<equiv> 30"
abbreviation (input) ENAMETOOLONG :: int where "ENAMETOOLONG \<equiv> 36"
abbreviation (input) ENOSYS :: int where "ENOSYS \<equiv> 38"
abbreviation (input) ENOTEMPTY :: int where "ENOTEMPTY \<equiv> 39"

subsection \<open>Lemma collections\<close>

named_theorems heap_simps \<open>facts about the kernel heap that the file-system layer uses\<close>
named_theorems dev_simps \<open>unfolding rules of the disk and block layer\<close>
named_theorems node_simps \<open>unfolding rules of the node store\<close>

subsection \<open>Checked access to byte buffers\<close>

text \<open>\<open>buf_read b i n\<close> is what \<^verbatim>\<open>memcpy(dst, b + i, n)\<close> reads; \<open>None\<close> when it leaves the object.\<close>

definition buf_read :: "'a list \<Rightarrow> nat \<Rightarrow> nat \<Rightarrow> 'a list option" where
  "buf_read b i n = (if i + n \<le> length b then Some (take n (drop i b)) else None)"

text \<open>\<open>buf_write b i xs\<close> is the object after \<^verbatim>\<open>memcpy(b + i, xs, length xs)\<close>.\<close>

definition buf_write :: "'a list \<Rightarrow> nat \<Rightarrow> 'a list \<Rightarrow> 'a list option" where
  "buf_write b i xs =
     (if i + length xs \<le> length b then Some (take i b @ xs @ drop (i + length xs) b) else None)"

lemma buf_read_Some:
  "buf_read b i n = Some xs \<Longrightarrow> length xs = n \<and> i + n \<le> length b \<and> xs = take n (drop i b)"
  by (auto simp: buf_read_def split: if_splits)

lemma buf_write_length: "buf_write b i xs = Some b' \<Longrightarrow> length b' = length b"
  by (auto simp: buf_write_def split: if_splits)

lemma buf_read_write:
  assumes "buf_write b i xs = Some b'"
  shows "buf_read b' i (length xs) = Some xs"
  using assms by (auto simp: buf_write_def buf_read_def split: if_splits)

subsection \<open>Little-endian fields\<close>

definition byte_at :: "u8 list \<Rightarrow> nat \<Rightarrow> u8" where
  "byte_at b i = (if i < length b then b ! i else 0)"

definition le16 :: "u8 list \<Rightarrow> nat \<Rightarrow> u16" where
  "le16 b i = ucast (byte_at b i) OR push_bit 8 (ucast (byte_at b (i + 1)))"

definition le32 :: "u8 list \<Rightarrow> nat \<Rightarrow> u32" where
  "le32 b i = ucast (byte_at b i) OR push_bit 8 (ucast (byte_at b (i + 1)))
     OR push_bit 16 (ucast (byte_at b (i + 2))) OR push_bit 24 (ucast (byte_at b (i + 3)))"

text \<open>The bytes of a 32-bit value in memory order.\<close>

definition bytes_of_u32 :: "u32 \<Rightarrow> u8 list" where
  "bytes_of_u32 w = [ucast w, ucast (drop_bit 8 w), ucast (drop_bit 16 w), ucast (drop_bit 24 w)]"

lemma u32_of_bytes:
  "(ucast (ucast w :: u8) :: u32) OR push_bit 8 (ucast (ucast (drop_bit 8 w) :: u8))
     OR push_bit 16 (ucast (ucast (drop_bit 16 w) :: u8))
     OR push_bit 24 (ucast (ucast (drop_bit 24 w) :: u8)) = w" (is "?l = w")
proof (rule bit_word_eqI)
  fix n assume "n < LENGTH(32)"
  then consider "n < 8" | "8 \<le> n" "n < 16" | "16 \<le> n" "n < 24" | "24 \<le> n" "n < 32"
    by fastforce
  then show "bit ?l n = bit w n"
    by cases (simp_all only: bit_or_iff bit_push_bit_iff bit_unsigned_iff bit_drop_bit_eq comp_def,
        auto)
qed

lemma le32_bytes_of_u32 [simp]: "le32 (bytes_of_u32 w @ rest) 0 = w"
  using u32_of_bytes [of w] by (simp add: le32_def bytes_of_u32_def byte_at_def)

subsection \<open>Input and output ports\<close>

text \<open>
  The port instructions of \<^verbatim>\<open>include/arch/x86/io.h\<close>.  What is behind the ports is hardware, so a driver
  is modelled over an arbitrary implementation of the instructions on a device state \<open>'d\<close>.
\<close>

record 'd ports =
  p_in :: "u16 \<Rightarrow> 'd \<Rightarrow> u8 \<times> 'd"
  p_out :: "u16 \<Rightarrow> u8 \<Rightarrow> 'd \<Rightarrow> 'd"
  p_insw :: "u16 \<Rightarrow> nat \<Rightarrow> 'd \<Rightarrow> u8 list \<times> 'd"

subsection \<open>Small casts\<close>

lemma unat_ucast_u8: "unat (ucast (n :: u32) :: u8) = unat n mod 256"
  unfolding unsigned_ucast_eq by (simp add: take_bit_eq_mod)

lemma unat_ucast_up8: "unat (ucast (b :: u8) :: u32) = unat b"
proof -
  have "unat b < 2 ^ 8" using unsigned_less [of b] by simp
  then show ?thesis unfolding unsigned_ucast_eq by (simp add: take_bit_nat_eq_self)
qed

lemma unat_ucast_up16: "unat (ucast (b :: u16) :: u32) = unat b"
proof -
  have "unat b < 2 ^ 16" using unsigned_less [of b] by simp
  then show ?thesis unfolding unsigned_ucast_eq by (simp add: take_bit_nat_eq_self)
qed

lemma ucast_u8_u32: "unat (n :: u32) < 256 \<Longrightarrow> (ucast (ucast n :: u8) :: u32) = n"
proof -
  assume "unat n < 256"
  then have "unat (ucast (ucast n :: u8) :: u32) = unat n" by (simp only: unat_ucast_up8 unat_ucast_u8 mod_less)
  then show ?thesis by (rule unsigned_word_eqI)
qed

lemma sint_small: "n < 2 ^ 31 \<Longrightarrow> sint (word_of_nat n :: u32) = int n"
proof -
  assume n: "n < 2 ^ 31"
  have "sint (word_of_nat n :: u32) = signed_take_bit 31 (int n)" unfolding signed_of_nat by simp
  also have "\<dots> = int n" using n by (intro signed_take_bit_int_eq_self) simp_all
  finally show ?thesis by simp
qed

subsection \<open>Shared list lemmas\<close>

lemma takeWhile_cstr: "0 \<notin> set s \<Longrightarrow> takeWhile (\<lambda>c. c \<noteq> 0) (s @ 0 # r) = (s :: u8 list)"
  by (induction s) auto

lemma dropWhile_cstr: "0 \<notin> set s \<Longrightarrow> dropWhile (\<lambda>c. c \<noteq> 0) (s @ 0 # r) = (0 :: u8) # r"
  by (induction s) auto

text \<open>A piece of a list and the next one.\<close>

lemma take_pieces:
  "take n (drop x xs) @ take m (drop (x + length (take n (drop x xs))) xs) = take (n + m) (drop x xs)"
proof (cases "n \<le> length (drop x xs)")
  case True
  then have "length (take n (drop x xs)) = n" by simp
  then have "drop (x + length (take n (drop x xs))) xs = drop n (drop x xs)" by (simp add: add.commute)
  then show ?thesis by (simp only: take_add)
qed simp

subsection \<open>Tables of slots\<close>

text \<open>
  Two components hand out descriptors from a table of fixed length (\<^verbatim>\<open>kernel/fs.c\<close> and
  \<^verbatim>\<open>kernel/vfs.c\<close>).  What they share: \<open>pick\<close> finds the lowest vacant slot or is negative, \<open>put\<close> stores
  into one slot.
\<close>

locale slot_table =
  fixes slots :: "'s \<Rightarrow> 'a list" and vacant :: "'a \<Rightarrow> bool"
    and pick :: "'s \<Rightarrow> int" and put :: "nat \<Rightarrow> 'a \<Rightarrow> 's \<Rightarrow> 's"
  assumes pick_slot: "pick s = int i \<Longrightarrow> i < length (slots s) \<and> vacant (slots s ! i)"
    and pick_least: "pick s = int i \<Longrightarrow> j < i \<Longrightarrow> \<not> vacant (slots s ! j)"
    and pick_full: "pick s < 0 \<longleftrightarrow> (\<forall>x\<in>set (slots s). \<not> vacant x)"
    and slots_put: "i < length (slots s) \<Longrightarrow> slots (put i x s) = (slots s)[i := x]"
begin

lemma pick_nat: "\<not> pick s < 0 \<Longrightarrow> \<exists>i. pick s = int i"
  using zero_le_imp_eq_int [of "pick s"] by auto

lemma pick_eqI:
  assumes i: "i < length (slots s)" "vacant (slots s ! i)" and least: "\<And>j. j < i \<Longrightarrow> \<not> vacant (slots s ! j)"
  shows "pick s = int i"
proof -
  have "\<not> pick s < 0" unfolding pick_full using i nth_mem by blast
  then obtain k where k: "pick s = int k" using pick_nat by blast
  have "\<not> k < i" using pick_slot [OF k] least by blast
  moreover have "\<not> i < k" using pick_least [OF k] i(2) by blast
  ultimately show ?thesis using k by simp
qed

text \<open>A slot that is vacated is the next one picked unless a lower one is vacant.\<close>

lemma pick_vacated:
  assumes j: "j < length (slots s)" and v: "vacant y"
  shows "pick (put j y s) = (if pick s < 0 then int j else min (int j) (pick s))"
proof (cases "pick s < 0")
  case True
  then have "\<forall>k<length (slots s). \<not> vacant (slots s ! k)" unfolding pick_full using nth_mem by blast
  then have "pick (put j y s) = int j"
    using j v by (intro pick_eqI) (simp_all add: slots_put)
  then show ?thesis using True by simp
next
  case False
  then obtain i where i: "pick s = int i" using pick_nat by blast
  have "pick (put j y s) = int (min j i)"
    using j v pick_slot [OF i] pick_least [OF i]
    by (intro pick_eqI) (auto simp: slots_put nth_list_update min_def split: if_splits)
  then show ?thesis using i False by simp
qed

text \<open>Filling the slot that was picked.\<close>

lemma pick_filled:
  assumes i: "pick s = int i" and x: "\<not> vacant x" and k: "pick (put i x s) = int k"
  shows "i < k \<and> \<not> vacant (slots (put i x s) ! i)"
proof -
  have l: "i < length (slots s)" using pick_slot [OF i] by simp
  have "\<not> k < i"
    using pick_slot [OF k] pick_least [OF i] by (auto simp: slots_put [OF l] nth_list_update)
  moreover have "k \<noteq> i" using pick_slot [OF k] x l by (auto simp: slots_put)
  ultimately show ?thesis using x l by (simp add: slots_put)
qed

end

text \<open>Signed values survive the conversion to 32 bits.\<close>

lemma sint_int32: "- (2 ^ 31) \<le> i \<Longrightarrow> i < 2 ^ 31 \<Longrightarrow> sint (word_of_int i :: u32) = i"
  by (simp add: sint_sbintrunc' signed_take_bit_int_eq_self)

end
