(* ===== verification/CStrings.thy ===== *)
theory CStrings
  imports RetaBase "HOL-Library.List_Lexorder"
begin

text \<open>
  The string and memory functions the kernel and the C library carry themselves:
  \<^verbatim>\<open>kernel/string.c\<close>, \<^verbatim>\<open>kernel/kutils.c\<close>, \<^verbatim>\<open>libc/src/string.c\<close>, \<^verbatim>\<open>libc/src/ctype.c\<close> and
  \<^verbatim>\<open>strtok_r\<close> of \<^verbatim>\<open>kernel/vfs.c\<close>.

  A pointer into an object is the list of the bytes from it to the end of the object, so reading
  or writing past the object is the missing case and yields \<open>None\<close>.  A C string is
  \<open>s @ 0 # rest\<close> with no NUL in \<open>s\<close>.  Functions that write into a buffer return the buffer.

  The lemmas relate the loops to the functions on \<open>cstr\<close> that they compute.  The locale
  \<open>string_eq\<close> is what the lookup loops of the kernel and of the shells rely on; it is interpreted
  on both implementations of \<^verbatim>\<open>strcmp\<close>.
\<close>

subsection \<open>Comparing\<close>

fun k_strcmp :: "u8 list \<Rightarrow> u8 list \<Rightarrow> int option" where
  "k_strcmp (a # s) (b # t) = (if a \<noteq> 0 \<and> a = b then k_strcmp s t else Some (uint a - uint b))"
| "k_strcmp _ _ = None"

text \<open>With \<open>n\<close> exhausted nothing is read.\<close>

fun k_strncmp :: "u8 list \<Rightarrow> u8 list \<Rightarrow> nat \<Rightarrow> int option" where
  "k_strncmp s t 0 = Some 0"
| "k_strncmp (a # s) (b # t) (Suc n) =
     (if a \<noteq> 0 \<and> a = b then k_strncmp s t n else Some (uint a - uint b))"
| "k_strncmp _ _ (Suc n) = None"

fun lc_strcmp :: "u8 list \<Rightarrow> u8 list \<Rightarrow> int option" where
  "lc_strcmp (a # s) (b # t) = (if a \<noteq> 0 \<and> a = b then lc_strcmp s t else Some (uint a - uint b))"
| "lc_strcmp _ _ = None"

text \<open>
  \<^verbatim>\<open>strncmp\<close> of the C library decrements the counter in the loop condition and recognises the end
  of the count by its wrap to \<^verbatim>\<open>(size_t)-1\<close>; the loop returns the counter and both pointers.
\<close>

function lc_strncmp_loop :: "u8 list \<Rightarrow> u8 list \<Rightarrow> u32 \<Rightarrow> (u8 list \<times> u8 list \<times> u32) option" where
  "lc_strncmp_loop s t n =
     (if n = 0 then Some (s, t, n - 1)
      else case (s, t) of
        (a # s', b # t') \<Rightarrow> if a \<noteq> 0 \<and> a = b then lc_strncmp_loop s' t' (n - 1) else Some (s, t, n - 1)
      | _ \<Rightarrow> None)"
  by pat_completeness auto
termination by (relation "measure (\<lambda>(s, _). length s)") auto

declare lc_strncmp_loop.simps [simp del]

definition lc_strncmp :: "u8 list \<Rightarrow> u8 list \<Rightarrow> u32 \<Rightarrow> int option" where
  "lc_strncmp s t n = (case lc_strncmp_loop s t n of
       None \<Rightarrow> None
     | Some (s', t', n') \<Rightarrow>
         if n' + 1 = 0 then Some 0
         else (case (s', t') of (a # _, b # _) \<Rightarrow> Some (uint a - uint b) | _ \<Rightarrow> None))"

fun lc_memcmp :: "u8 list \<Rightarrow> u8 list \<Rightarrow> nat \<Rightarrow> int option" where
  "lc_memcmp p q 0 = Some 0"
| "lc_memcmp (a # p) (b # q) (Suc n) = (if a \<noteq> b then Some (uint a - uint b) else lc_memcmp p q n)"
| "lc_memcmp _ _ (Suc n) = None"

subsection \<open>Measuring and searching\<close>

fun k_strlen :: "u8 list \<Rightarrow> nat option" where
  "k_strlen [] = None"
| "k_strlen (c # s) = (if c = 0 then Some 0 else map_option Suc (k_strlen s))"

fun lc_strlen :: "u8 list \<Rightarrow> nat option" where
  "lc_strlen [] = None"
| "lc_strlen (c # s) = (if c = 0 then Some 0 else map_option Suc (lc_strlen s))"

text \<open>
  \<^verbatim>\<open>strrchr\<close>: the position of the last match as a \<open>nat option\<close>, carried in \<open>lst\<close>; the byte is
  compared as a signed \<^verbatim>\<open>char\<close>.
\<close>

fun k_strrchr_loop :: "u8 list \<Rightarrow> int \<Rightarrow> nat \<Rightarrow> nat option \<Rightarrow> nat option option" where
  "k_strrchr_loop [] c i lst = None"
| "k_strrchr_loop (x # s) c i lst =
     (if x = 0 then Some lst
      else k_strrchr_loop s c (Suc i) (if sint x = c then Some i else lst))"

definition k_strrchr :: "u8 list \<Rightarrow> int \<Rightarrow> nat option option" where
  "k_strrchr s c = k_strrchr_loop s c 0 None"

text \<open>The inner loop over \<^verbatim>\<open>accept\<close>: does \<open>c\<close> occur before its NUL?\<close>

fun in_accept :: "u8 \<Rightarrow> u8 list \<Rightarrow> bool option" where
  "in_accept c [] = None"
| "in_accept c (a # as) = (if a = 0 then Some False else if c = a then Some True else in_accept c as)"

fun k_strpbrk :: "u8 list \<Rightarrow> u8 list \<Rightarrow> nat option option" where
  "k_strpbrk [] accept = None"
| "k_strpbrk (c # s) accept =
     (if c = 0 then Some None
      else do {
        f \<leftarrow> in_accept c accept;
        if f then Some (Some 0) else do { r \<leftarrow> k_strpbrk s accept; Some (map_option Suc r) }
      })"

fun k_strspn :: "u8 list \<Rightarrow> u8 list \<Rightarrow> nat option" where
  "k_strspn [] accept = None"
| "k_strspn (c # s) accept =
     (if c = 0 then Some 0
      else do {
        f \<leftarrow> in_accept c accept;
        if f then do { n \<leftarrow> k_strspn s accept; Some (Suc n) } else Some 0
      })"

subsection \<open>Character classes\<close>

definition k_tolower :: "int \<Rightarrow> int" where
  "k_tolower c = (if 65 \<le> c \<and> c \<le> 90 then c + (97 - 65) else c)"

definition k_toupper :: "int \<Rightarrow> int" where
  "k_toupper c = (if 97 \<le> c \<and> c \<le> 122 then c - (97 - 65) else c)"

definition lc_isdigit :: "int \<Rightarrow> bool" where
  "lc_isdigit c \<longleftrightarrow> 48 \<le> c \<and> c \<le> 57"

definition lc_isalpha :: "int \<Rightarrow> bool" where
  "lc_isalpha c \<longleftrightarrow> (65 \<le> c \<and> c \<le> 90) \<or> (97 \<le> c \<and> c \<le> 122)"

definition lc_isalnum :: "int \<Rightarrow> bool" where
  "lc_isalnum c \<longleftrightarrow> lc_isalpha c \<or> lc_isdigit c"

definition lc_isspace :: "int \<Rightarrow> bool" where
  "lc_isspace c \<longleftrightarrow> c = 32 \<or> (9 \<le> c \<and> c \<le> 13)"

subsection \<open>Copying\<close>

text \<open>The second loop of \<^verbatim>\<open>strncpy\<close> and the loops of \<^verbatim>\<open>memset\<close>.\<close>

fun mem_fill :: "u8 \<Rightarrow> u8 list \<Rightarrow> nat \<Rightarrow> u8 list option" where
  "mem_fill c d 0 = Some d"
| "mem_fill c (x # d) (Suc n) = map_option ((#) c) (mem_fill c d n)"
| "mem_fill c [] (Suc n) = None"

text \<open>
  The terminating NUL of the source is written by the condition of the first loop without
  advancing; the padding loop then starts on that byte.
\<close>

fun k_strncpy :: "u8 list \<Rightarrow> u8 list \<Rightarrow> nat \<Rightarrow> u8 list option" where
  "k_strncpy d s 0 = Some d"
| "k_strncpy (x # d) (c # s) (Suc n) =
     (if c \<noteq> 0 then map_option ((#) c) (k_strncpy d s n) else mem_fill 0 (0 # d) (Suc n))"
| "k_strncpy _ _ (Suc n) = None"

fun k_strcpy :: "u8 list \<Rightarrow> u8 list \<Rightarrow> u8 list option" where
  "k_strcpy (x # d) (c # s) = (if c \<noteq> 0 then map_option ((#) c) (k_strcpy d s) else Some (0 # d))"
| "k_strcpy _ _ = None"

fun lc_strcpy :: "u8 list \<Rightarrow> u8 list \<Rightarrow> u8 list option" where
  "lc_strcpy (x # d) (c # s) = (if c \<noteq> 0 then map_option ((#) c) (lc_strcpy d s) else Some (0 # d))"
| "lc_strcpy _ _ = None"

text \<open>\<^verbatim>\<open>strcat\<close> and \<^verbatim>\<open>strncat\<close>: the copying starts on the NUL of the destination.\<close>

definition lc_strcat :: "u8 list \<Rightarrow> u8 list \<Rightarrow> u8 list option" where
  "lc_strcat d s = do { k \<leftarrow> lc_strlen d; r \<leftarrow> lc_strcpy (drop k d) s; Some (take k d @ r) }"

fun strncat_loop :: "u8 list \<Rightarrow> u8 list \<Rightarrow> nat \<Rightarrow> u8 list option" where
  "strncat_loop [] s n = None"
| "strncat_loop (x # d) s 0 = Some (0 # d)"
| "strncat_loop (x # d) [] (Suc n) = None"
| "strncat_loop (x # d) (c # s) (Suc n) =
     (if c \<noteq> 0 then map_option ((#) c) (strncat_loop d s n) else Some (0 # d))"

definition lc_strncat :: "u8 list \<Rightarrow> u8 list \<Rightarrow> nat \<Rightarrow> u8 list option" where
  "lc_strncat d s n = do { k \<leftarrow> lc_strlen d; r \<leftarrow> strncat_loop (drop k d) s n; Some (take k d @ r) }"

text \<open>\<^verbatim>\<open>memcpy\<close> between two objects, and \<^verbatim>\<open>memset\<close>, whose value is cut to a byte.\<close>

fun k_memcpy :: "u8 list \<Rightarrow> u8 list \<Rightarrow> nat \<Rightarrow> u8 list option" where
  "k_memcpy d s 0 = Some d"
| "k_memcpy (x # d) (c # s) (Suc n) = map_option ((#) c) (k_memcpy d s n)"
| "k_memcpy _ _ (Suc n) = None"

definition k_memset :: "u8 list \<Rightarrow> int \<Rightarrow> nat \<Rightarrow> u8 list option" where
  "k_memset d c n = mem_fill (word_of_int c) d n"

fun lc_memcpy :: "u8 list \<Rightarrow> u8 list \<Rightarrow> nat \<Rightarrow> u8 list option" where
  "lc_memcpy d s 0 = Some d"
| "lc_memcpy (x # d) (c # s) (Suc n) = map_option ((#) c) (lc_memcpy d s n)"
| "lc_memcpy _ _ (Suc n) = None"

definition lc_memset :: "u8 list \<Rightarrow> int \<Rightarrow> nat \<Rightarrow> u8 list option" where
  "lc_memset d c n = mem_fill (word_of_int c) d n"

subsection \<open>Splitting\<close>

text \<open>
  \<^verbatim>\<open>strtok_r\<close>: \<open>buf\<close> is the object \<open>str\<close> and \<open>*saveptr\<close> point into, positions are offsets.  The
  result is the object, the token's offset or \<open>None\<close> for a null pointer, and the new \<open>*saveptr\<close>.
\<close>

definition strtok_r :: "u8 list \<Rightarrow> nat option \<Rightarrow> u8 list \<Rightarrow> nat \<Rightarrow> (u8 list \<times> nat option \<times> nat) option" where
  "strtok_r buf str delim save = do {
     let p0 = (case str of None \<Rightarrow> save | Some p \<Rightarrow> p);
     k \<leftarrow> k_strspn (drop p0 buf) delim;
     let p = p0 + k;
     if buf ! p = 0 then Some (buf, None, p)
     else do {
       e \<leftarrow> k_strpbrk (drop p buf) delim;
       case e of
         None \<Rightarrow> do { l \<leftarrow> k_strlen (drop p buf); Some (buf, Some p, p + l) }
       | Some i \<Rightarrow> Some (buf[p + i := 0], Some p, p + i + 1)
     }
   }"

text \<open>The string a pointer shows.\<close>

definition cstr_at :: "u8 list \<Rightarrow> cstr" where
  "cstr_at b = takeWhile (\<lambda>c. c \<noteq> 0) b"

text \<open>
  The loop \<^verbatim>\<open>for (token = strtok_r(s, delim, &save); token; token = strtok_r(NULL, delim, &save))\<close>
  that the callers run, collecting the tokens; the fuel bounds their number.
\<close>

fun strtok_all :: "nat \<Rightarrow> u8 list \<Rightarrow> nat option \<Rightarrow> u8 list \<Rightarrow> nat \<Rightarrow> cstr list option" where
  "strtok_all 0 buf str delim save = None"
| "strtok_all (Suc f) buf str delim save =
     (case strtok_r buf str delim save of
        None \<Rightarrow> None
      | Some (buf', None, save') \<Rightarrow> Some []
      | Some (buf', Some p, save') \<Rightarrow>
          map_option ((#) (cstr_at (drop p buf'))) (strtok_all f buf' None delim save'))"

text \<open>
  \<^verbatim>\<open>strtok\<close> of the C library: the static \<open>save\<close> is part of the state, \<open>None\<close> its null pointer.
\<close>

fun skip_delims :: "u8 list \<Rightarrow> u8 list \<Rightarrow> nat option" where
  "skip_delims [] delim = None"
| "skip_delims (c # s) delim =
     (if c = 0 then Some 0
      else do { f \<leftarrow> in_accept c delim; if f then map_option Suc (skip_delims s delim) else Some 0 })"

text \<open>The scan for the end of the token: its length and whether a delimiter ended it.\<close>

fun scan_token :: "u8 list \<Rightarrow> u8 list \<Rightarrow> (nat \<times> bool) option" where
  "scan_token [] delim = None"
| "scan_token (c # s) delim =
     (if c = 0 then Some (0, False)
      else do {
        f \<leftarrow> in_accept c delim;
        if f then Some (0, True) else map_option (\<lambda>(n, b). (Suc n, b)) (scan_token s delim)
      })"

definition lc_strtok :: "u8 list \<Rightarrow> nat option \<Rightarrow> u8 list \<Rightarrow> nat option
    \<Rightarrow> (u8 list \<times> nat option \<times> nat option) option" where
  "lc_strtok buf str delim save =
     (case (case str of Some p \<Rightarrow> Some p | None \<Rightarrow> save) of
        None \<Rightarrow> Some (buf, None, save)
      | Some p0 \<Rightarrow> do {
          k \<leftarrow> skip_delims (drop p0 buf) delim;
          let p = p0 + k;
          if buf ! p = 0 then Some (buf, None, None)
          else do {
            (n, hit) \<leftarrow> scan_token (drop p buf) delim;
            let buf' = (if hit then buf[p + n := 0] else buf);
            let s = (if hit then p + n + 1 else p + n);
            if s < length buf' then Some (buf', Some p, if buf' ! s \<noteq> 0 then Some s else None) else None
          }
        })"

subsection \<open>What the loops compute\<close>

lemma cstr_okE [simp]: "cstr_ok [] " "cstr_ok (c # s) \<longleftrightarrow> c \<noteq> 0 \<and> cstr_ok s"
  by (auto simp: cstr_ok_def)

lemma cstr_ok_append [simp]: "cstr_ok (s @ t) \<longleftrightarrow> cstr_ok s \<and> cstr_ok t"
  by (auto simp: cstr_ok_def)

lemma cstr_at_terminated [simp]: "cstr_ok s \<Longrightarrow> cstr_at (s @ 0 # r) = s"
  by (simp add: cstr_at_def cstr_ok_def takeWhile_cstr)

lemma lc_strcmp_eq: "lc_strcmp s t = k_strcmp s t"
  by (induction s t rule: k_strcmp.induct) auto

lemma uint_diff [simp]:
  "uint a - uint b = 0 \<longleftrightarrow> a = (b :: u8)" "uint a - uint b < 0 \<longleftrightarrow> a < b"
  by (simp_all add: word_less_def word_uint_eq_iff)

lemma uint_cmp [simp]:
  "uint a = uint b \<longleftrightarrow> a = (b :: u8)" "uint a < uint b \<longleftrightarrow> a < b"
  by (simp_all add: word_less_def word_uint_eq_iff)

lemma k_strcmp_spec:
  "cstr_ok a \<Longrightarrow> cstr_ok b \<Longrightarrow>
   \<exists>v. k_strcmp (a @ 0 # r) (b @ 0 # t) = Some v \<and> (v = 0 \<longleftrightarrow> a = b) \<and> (v < 0 \<longleftrightarrow> a < b)"
proof (induction a arbitrary: b)
  case Nil
  show ?case
  proof (cases b)
    case (Cons d b')
    then have "k_strcmp ([] @ 0 # r) (b @ 0 # t) = Some (uint (0 :: u8) - uint d)" by simp
    moreover have "0 < d" using Cons Nil.prems by (simp add: word_gt_0)
    ultimately show ?thesis
      using Cons Nil.prems uint_diff(1) [of 0 d] uint_diff(2) [of 0 d] by (metis Nil_less_Cons list.distinct(1) cstr_okE(2))
  qed simp
next
  case (Cons c a)
  show ?case
  proof (cases b)
    case Nil
    then have "k_strcmp ((c # a) @ 0 # r) (b @ 0 # t) = Some (uint c - uint (0 :: u8))"
      using Cons.prems by simp
    then show ?thesis
      using Nil Cons.prems uint_diff(1) [of c 0] uint_diff(2) [of c 0] 
      by (metis not_less_Nil list.distinct(1) cstr_okE(2) word_not_simps(1))
  next
    case (Cons d b')
    then show ?thesis using Cons.IH [of b'] Cons.prems by auto
  qed
qed

lemma k_strncmp_spec:
  "cstr_ok a \<Longrightarrow> cstr_ok b \<Longrightarrow>
   \<exists>v. k_strncmp (a @ 0 # r) (b @ 0 # t) n = Some v \<and> (v = 0 \<longleftrightarrow> take n a = take n b)"
proof (induction n arbitrary: a b)
  case (Suc n)
  show ?case
  proof (cases a)
    case Nil
    then show ?thesis
    proof (cases b)
      case (Cons d b')
      then have "k_strncmp (a @ 0 # r) (b @ 0 # t) (Suc n) = Some (uint (0 :: u8) - uint d)"
        using Nil by simp
      with Cons Nil Suc.prems uint_diff(1) [of 0 d] show ?thesis by (metis list.distinct(1) cstr_okE(2) take_Suc_Cons take_Nil)
    qed simp
  next
    case (Cons c a')
    show ?thesis
    proof (cases b)
      case Nil
      then have "k_strncmp (a @ 0 # r) (b @ 0 # t) (Suc n) = Some (uint c - uint (0 :: u8))"
        using Cons Suc.prems by simp
      with Cons Nil Suc.prems uint_diff(1) [of c 0] show ?thesis by (metis list.distinct(1) cstr_okE(2) take_Suc_Cons take_Nil)
    next
      case (Cons d b')
      then show ?thesis using Suc.IH [of a' b'] Suc.prems \<open>a = c # a'\<close> by auto
    qed
  qed
qed simp

lemma lc_strncmp_loop_eq:
  "n < 2 ^ 32 \<Longrightarrow>
   (case lc_strncmp_loop s t (word_of_nat n) of
       None \<Rightarrow> None
     | Some (s', t', n') \<Rightarrow> if n' + 1 = 0 then Some 0
         else (case (s', t') of (a # _, b # _) \<Rightarrow> Some (uint a - uint b) | _ \<Rightarrow> None))
   = k_strncmp s t n"
proof (induction n arbitrary: s t)
  case (Suc n)
  have nz: "(word_of_nat (Suc n) :: u32) \<noteq> 0"
  proof
    assume "(word_of_nat (Suc n) :: u32) = 0"
    then have "unat (word_of_nat (Suc n) :: u32) = 0" by (simp only: unat_0)
    moreover have "unat (word_of_nat (Suc n) :: u32) = Suc n mod 2 ^ 32"
      by (simp only: unat_of_nat) simp
    ultimately show False using Suc.prems by (simp add: mod_less)
  qed
  have "(word_of_nat (Suc n) :: u32) - 1 + 1 \<noteq> 0" using nz by (simp only: diff_add_cancel) simp
  moreover have "(word_of_nat (Suc n) :: u32) - 1 = word_of_nat n" by simp
  ultimately show ?case
    using Suc nz by (subst lc_strncmp_loop.simps) (auto split: list.splits simp del: of_nat_Suc)
qed (simp add: lc_strncmp_loop.simps)

lemma k_strlen_spec [simp]: "cstr_ok s \<Longrightarrow> k_strlen (s @ 0 # r) = Some (length s)"
  by (induction s) auto

lemma lc_strlen_eq: "lc_strlen s = k_strlen s"
  by (induction s) auto

lemma mem_fill_spec:
  "mem_fill c d n = (if n \<le> length d then Some (replicate n c @ drop n d) else None)"
  by (induction c d n rule: mem_fill.induct) auto

lemma k_memcpy_spec:
  "k_memcpy d s n = (if n \<le> length d \<and> n \<le> length s then Some (take n s @ drop n d) else None)"
  by (induction d s n rule: k_memcpy.induct) auto

lemma lc_memcpy_eq: "lc_memcpy d s n = k_memcpy d s n"
  by (induction d s n rule: k_memcpy.induct) auto

lemma k_strncpy_spec:
  "cstr_ok s \<Longrightarrow> n \<le> length d \<Longrightarrow>
   k_strncpy d (s @ 0 # r) n = Some (take n (s @ replicate n 0) @ drop n d)"
proof (induction n arbitrary: d s)
  case (Suc n)
  then obtain x d' where d: "d = x # d'" by (cases d) auto
  show ?case
  proof (cases s)
    case Nil
    then show ?thesis using Suc.prems d by (simp add: mem_fill_spec)
  next
    case (Cons c s')
    have "take n (replicate (Suc n) 0 :: u8 list) = replicate n 0" for n by (induction n) auto
    then have "take (n - length s') (replicate (Suc n) 0 :: u8 list) = take (n - length s') (replicate n 0)"
      by (metis take_replicate min.absorb1 diff_le_self le_SucI)
    then show ?thesis using Suc Cons d by (simp del: replicate.simps)
  qed
qed simp

lemma k_strcpy_spec:
  "cstr_ok s \<Longrightarrow>
   k_strcpy d (s @ 0 # r) = (if length s < length d then Some (s @ 0 # drop (Suc (length s)) d) else None)"
proof (induction s arbitrary: d)
  case Nil
  then show ?case by (cases d) auto
next
  case (Cons c s)
  then show ?case by (cases d) auto
qed

lemma lc_strcpy_eq: "lc_strcpy d s = k_strcpy d s"
  by (induction d s rule: k_strcpy.induct) auto

lemma lc_strcat_spec:
  assumes "cstr_ok a" "cstr_ok s"
  shows "lc_strcat (a @ 0 # d) (s @ 0 # r)
    = (if length s \<le> length d then Some (a @ s @ 0 # drop (length s) d) else None)"
  using assms by (simp add: lc_strcat_def lc_strlen_eq lc_strcpy_eq k_strcpy_spec)

lemma strncat_loop_spec:
  "cstr_ok s \<Longrightarrow> min n (length s) < length d \<Longrightarrow>
   strncat_loop d (s @ 0 # r) n = Some (take n s @ 0 # drop (Suc (min n (length s))) d)"
proof (induction n arbitrary: d s)
  case 0
  then show ?case by (cases d) auto
next
  case (Suc n)
  obtain x d' where d: "d = x # d'" using Suc.prems by (cases d) auto
  with Suc show ?case by (cases s) auto
qed

lemma in_accept_spec [simp]: "cstr_ok d \<Longrightarrow> in_accept c (d @ 0 # r) = Some (c \<in> set d)"
  by (induction d) auto

lemma k_strspn_spec:
  "cstr_ok s \<Longrightarrow> cstr_ok d \<Longrightarrow>
   k_strspn (s @ 0 # r) (d @ 0 # t) = Some (length (takeWhile (\<lambda>c. c \<in> set d) s))"
  by (induction s) auto

lemma k_strpbrk_spec:
  "cstr_ok s \<Longrightarrow> cstr_ok d \<Longrightarrow>
   k_strpbrk (s @ 0 # r) (d @ 0 # t) =
     Some (if \<exists>c\<in>set s. c \<in> set d then Some (length (takeWhile (\<lambda>c. c \<notin> set d) s)) else None)"
  by (induction s) auto

lemma k_strrchr_loop_spec:
  "cstr_ok s \<Longrightarrow> k_strrchr_loop (s @ 0 # r) c i lst = Some (case rev (filter (\<lambda>j. sint (s ! j) = c) [0..<length s]) of
      [] \<Rightarrow> lst | j # _ \<Rightarrow> Some (i + j))"
proof (induction s arbitrary: i lst)
  case (Cons x s)
  have "filter (\<lambda>j. sint ((x # s) ! j) = c) [0..<length (x # s)]
      = (if sint x = c then [0] else []) @ map Suc (filter (\<lambda>j. sint (s ! j) = c) [0..<length s])"
    by (simp add: upt_conv_Cons map_Suc_upt [symmetric] filter_map o_def del: upt_Suc)
  then show ?case using Cons
    by (auto split: list.splits simp: rev_map)
qed simp


subsection \<open>Tokens\<close>

text \<open>The maximal runs of non-delimiters.\<close>

function parts :: "(u8 \<Rightarrow> bool) \<Rightarrow> cstr \<Rightarrow> cstr list" where
  "parts D s = (let u = dropWhile D s in
     if u = [] then [] else takeWhile (\<lambda>c. \<not> D c) u # parts D (dropWhile (\<lambda>c. \<not> D c) u))"
  by pat_completeness auto
termination
proof (relation "measure (length \<circ> snd)")
  fix D :: "u8 \<Rightarrow> bool" and s u :: cstr
  assume u: "u = dropWhile D s" "u \<noteq> []"
  then have "\<not> D (hd u)" by (metis hd_dropWhile)
  with u(2) have "length (dropWhile (\<lambda>c. \<not> D c) u) < length u"
    by (cases u) (auto simp: less_Suc_eq_le length_dropWhile_le)
  then show "((D, dropWhile (\<lambda>c. \<not> D c) u), D, s) \<in> measure (length \<circ> snd)"
    using u(1) length_dropWhile_le [of D s] by simp
qed simp

declare parts.simps [simp del]

lemma parts_Nil [simp]: "parts D [] = []" by (subst parts.simps) simp

lemma parts_delim: "D c \<Longrightarrow> parts D (c # s) = parts D s"
  by (subst parts.simps, subst (2) parts.simps) (simp add: Let_def)

lemma parts_cases:
  obtains "parts D a = []" "\<forall>c\<in>set a. D c"
  | t w v where "a = t @ w @ v" "\<forall>c\<in>set t. D c" "w \<noteq> []" "\<forall>c\<in>set w. \<not> D c" "v = [] \<or> D (hd v)"
      "parts D a = w # parts D (tl v)" "takeWhile D a = t" "takeWhile (\<lambda>c. \<not> D c) (w @ v) = w"
proof (cases "dropWhile D a = []")
  case True
  then show thesis using that(1) by (simp add: parts.simps)
next
  case False
  let ?u = "dropWhile D a"
  let ?w = "takeWhile (\<lambda>c. \<not> D c) ?u" and ?v = "dropWhile (\<lambda>c. \<not> D c) ?u"
  have u: "?u = ?w @ ?v" and a: "a = takeWhile D a @ ?u" by simp_all
  have "\<not> D (hd ?u)" using False by (metis hd_dropWhile)
  then have "?w \<noteq> []" using False by (cases ?u) auto
  moreover have v: "?v = [] \<or> D (hd ?v)" using hd_dropWhile by blast
  moreover have "parts D ?v = parts D (tl ?v)"
    using v by (metis list.collapse list.sel(2) parts_delim)
  then have "parts D a = ?w # parts D (tl ?v)"
    using False by (subst parts.simps) (simp add: Let_def)
  ultimately show thesis
    using a u by (intro that(2) [of "takeWhile D a" ?w ?v]) (auto dest: set_takeWhileD simp del: takeWhile_dropWhile_id)
qed

lemma strtok_r_step:
  assumes b: "drop p0 buf = a @ 0 # r" and p0: "p0 = (case str of None \<Rightarrow> save | Some p \<Rightarrow> p)"
    and ok: "cstr_ok a" "cstr_ok d" "delim = d @ 0 # dr" and D: "D = (\<lambda>c. c \<in> set d)"
  shows "case parts D a of
      [] \<Rightarrow> strtok_r buf str delim save = Some (buf, None, p0 + length a)
    | w # ws \<Rightarrow> \<exists>buf' p save' a'. strtok_r buf str delim save = Some (buf', Some p, save')
        \<and> length buf' = length buf \<and> cstr_at (drop p buf') = w
        \<and> drop save' buf' = a' @ 0 # r \<and> cstr_ok a' \<and> parts D a' = ws \<and> length a' < length a"
proof (cases rule: parts_cases [of D a])
  case 1
  have tw: "takeWhile (\<lambda>c. c \<in> set d) a = a" using 1 D by (simp add: takeWhile_eq_all_conv)
  have "p0 + length a < length buf"
    using b by (metis length_drop length_append length_Cons add_Suc_right less_add_Suc1 less_diff_conv add.commute)
  then have "buf ! (p0 + length a) = 0"
    using b by (metis nth_drop nth_append_length less_imp_le_nat le_add1 order_trans)
  moreover have "k_strspn (drop p0 buf) delim = Some (length a)"
    unfolding b ok(3) using k_strspn_spec [OF ok(1,2)] by (simp only: tw)
  ultimately show ?thesis
    using 1(1) by (simp add: strtok_r_def p0 [symmetric] Let_def)
next
  case (2 t w v)
  have tw: "takeWhile (\<lambda>c. c \<in> set d) a = t" using 2(7) D by simp
  let ?p = "p0 + length t"
  have dp: "drop ?p buf = w @ v @ 0 # r"
    using b 2(1) by (simp add: add.commute [of p0] flip: drop_drop)
  then have lp: "length buf = ?p + length w + length v + 1 + length r" 
  proof -
    have "length (drop ?p buf) = length (w @ v @ 0 # r)" by (simp only: dp)
    then show ?thesis by simp
  qed
  have "buf ! ?p = hd (drop ?p buf)" using lp by (simp add: hd_drop_conv_nth)
  then have nz: "buf ! ?p \<noteq> 0" using dp 2(1,3) ok(1) by (cases w) auto
  have okw: "cstr_ok w" "cstr_ok v" using ok(1) 2(1) by auto
  have pb: "k_strpbrk (w @ v @ 0 # r) delim = Some (if v = [] then None else Some (length w))"
  proof (cases v)
    case Nil
    then show ?thesis using k_strpbrk_spec [of "w @ v" d r dr] okw ok 2(4) D by auto
  next
    case (Cons c v')
    then have "D c" using 2(5) by simp
    moreover have "takeWhile (\<lambda>c. c \<notin> set d) (w @ v) = w" using 2(8) D by simp
    ultimately show ?thesis using k_strpbrk_spec [of "w @ v" d r dr] okw ok Cons D by auto
  qed
  show ?thesis
  proof (cases v)
    case Nil
    have "strtok_r buf str delim save = Some (buf, Some ?p, ?p + length w)"
      using b ok tw nz pb Nil dp okw by (simp add: strtok_r_def p0 [symmetric] k_strspn_spec Let_def)
    moreover have "cstr_at (drop ?p buf) = w" using dp Nil okw by simp
    moreover have "drop (?p + length w) buf = 0 # r"
      using dp Nil by (simp add: add.commute [of ?p] flip: drop_drop)
    ultimately show ?thesis using 2 Nil by fastforce
  next
    case (Cons c v')
    let ?b = "buf[?p + length w := 0]"
    have "strtok_r buf str delim save = Some (?b, Some ?p, ?p + length w + 1)"
      using b ok tw nz pb Cons dp okw by (simp add: strtok_r_def p0 [symmetric] k_strspn_spec Let_def)
    moreover have db: "drop ?p ?b = w @ 0 # v' @ 0 # r"
      using dp Cons by (simp add: drop_update_swap list_update_append)
    then have "cstr_at (drop ?p ?b) = w" using okw by simp
    moreover have "drop (?p + length w + 1) ?b = drop (length w + 1) (drop ?p ?b)"
      by (simp add: ac_simps)
    then have "drop (?p + length w + 1) ?b = v' @ 0 # r" unfolding db by simp
    ultimately show ?thesis using 2 Cons okw by (simp; blast?)
  qed
qed

lemma strtok_all_spec:
  assumes "drop p0 buf = a @ 0 # r" "p0 = (case str of None \<Rightarrow> save | Some p \<Rightarrow> p)" "cstr_ok a" "cstr_ok d"
    "length a < f"
  shows "strtok_all f buf str (d @ 0 # dr) save = Some (parts (\<lambda>c. c \<in> set d) a)"
  using assms
proof (induction f arbitrary: buf str save p0 a)
  case (Suc f)
  show ?case
  proof (cases "parts (\<lambda>c. c \<in> set d) a")
    case Nil
    with strtok_r_step [OF Suc.prems(1-4) refl refl] show ?thesis by simp
  next
    case (Cons w ws)
    note st = strtok_r_step [OF Suc.prems(1-4) refl refl, of dr, unfolded Cons list.case]
    from st obtain buf' p save' a'
      where t: "strtok_r buf str (d @ 0 # dr) save = Some (buf', Some p, save')"
        "cstr_at (drop p buf') = w" "drop save' buf' = a' @ 0 # r" "cstr_ok a'"
        "parts (\<lambda>c. c \<in> set d) a' = ws" "length a' < length a" by blast
    then show ?thesis using Suc.IH [OF t(3), where str = None and save = save'] Suc.prems Cons by simp
  qed
qed simp


subsection \<open>String equality as an interface\<close>

text \<open>
  The lookup loops of the kernel (\<^verbatim>\<open>blk_find\<close>, the directory walks of \<^verbatim>\<open>vfs.c\<close>) and the command
  dispatch of the shells go through a table and compare each name with a key.  All they need from
  the comparison is that it decides equality of terminated strings.
\<close>

locale string_eq =
  fixes eqs :: "u8 list \<Rightarrow> u8 list \<Rightarrow> bool option"
  assumes eqs: "cstr_ok a \<Longrightarrow> cstr_ok b \<Longrightarrow> eqs (a @ 0 # r) (b @ 0 # t) = Some (a = b)"

fun table_find :: "(u8 list \<Rightarrow> u8 list \<Rightarrow> bool option) \<Rightarrow> u8 list list \<Rightarrow> u8 list \<Rightarrow> nat option option" where
  "table_find eqs [] key = Some None"
| "table_find eqs (n # ns) key =
     (case eqs n key of
        None \<Rightarrow> None
      | Some True \<Rightarrow> Some (Some 0)
      | Some False \<Rightarrow> map_option (map_option Suc) (table_find eqs ns key))"

definition cstring :: "u8 list \<Rightarrow> bool" where
  "cstring b \<longleftrightarrow> 0 \<in> set b"

lemma cstringE: "cstring b \<Longrightarrow> \<exists>r. b = cstr_at b @ 0 # r \<and> cstr_ok (cstr_at b)"
proof -
  assume "cstring b"
  then have "dropWhile (\<lambda>c. c \<noteq> 0) b \<noteq> []" by (auto simp: cstring_def)
  then obtain r where "dropWhile (\<lambda>c. c \<noteq> 0) b = 0 # r"
    using hd_dropWhile [of "\<lambda>c. c \<noteq> 0" b] by (cases "dropWhile (\<lambda>c. c \<noteq> 0) b") auto
  then have "b = cstr_at b @ 0 # r" unfolding cstr_at_def by (metis takeWhile_dropWhile_id)
  moreover have "cstr_ok (cstr_at b)" by (auto simp: cstr_ok_def cstr_at_def dest: set_takeWhileD)
  ultimately show ?thesis by blast
qed

lemma cstring_term [simp]: "cstring (s @ 0 # r)"
  by (simp add: cstring_def)

context string_eq begin

lemma eqs_cstring: "cstring a \<Longrightarrow> cstring b \<Longrightarrow> eqs a b = Some (cstr_at a = cstr_at b)"
  using cstringE [of a] cstringE [of b] eqs by metis

lemma table_find_first:
  "\<forall>n\<in>set ns. cstring n \<Longrightarrow> cstring key \<Longrightarrow>
   table_find eqs ns key = Some (if cstr_at key \<in> cstr_at ` set ns
     then Some (length (takeWhile (\<lambda>n. cstr_at n \<noteq> cstr_at key) ns)) else None)"
  by (induction ns) (auto simp: eqs_cstring)

end

definition strcmp_eq :: "u8 list \<Rightarrow> u8 list \<Rightarrow> bool option" where
  "strcmp_eq s t = map_option (\<lambda>v. v = 0) (k_strcmp s t)"

interpretation kstr: string_eq strcmp_eq
proof
  fix a b r t assume "cstr_ok a" "cstr_ok b"
  from k_strcmp_spec [OF this, of r t]
  show "strcmp_eq (a @ 0 # r) (b @ 0 # t) = Some (a = b)" by (auto simp: strcmp_eq_def)
qed

interpretation lcstr: string_eq "\<lambda>s t. map_option (\<lambda>v. v = 0) (lc_strcmp s t)"
proof
  fix a b r t assume "cstr_ok a" "cstr_ok b"
  from k_strcmp_spec [OF this, of r t]
  show "map_option (\<lambda>v. v = 0) (lc_strcmp (a @ 0 # r) (b @ 0 # t)) = Some (a = b)"
    by (auto simp: lc_strcmp_eq)
qed

subsection \<open>Properties\<close>

text \<open>C9.  Running \<^verbatim>\<open>strtok_r\<close> to the end over a path, as the lookup in \<^verbatim>\<open>vfs.c\<close> does, yields exactly
  the non-empty components of the path, in order, whatever follows its NUL.\<close>

theorem strtok_r_components:
  assumes "cstr_ok path" and "length path < fuel"
  shows "strtok_all fuel (path @ 0 # r) (Some 0) (asc ''/'' @ [0]) save = Some (parts (\<lambda>c. c = 0x2F) path)"
proof -
  have "(\<lambda>c. c \<in> set (asc ''/'')) = (\<lambda>c. c = (0x2F :: u8))" by (simp add: asc_def)
  then show ?thesis
    using strtok_all_spec [of 0 "path @ 0 # r" path r save "Some 0" "asc ''/''" fuel "[]"] assms
    by (simp add: asc_def)
qed

lemma strtok_r_components_witness:
  "strtok_all 16 (asc ''//bin/./sh/'' @ [0, 7]) (Some 0) (asc ''/'' @ [0]) 0
     = Some [asc ''bin'', asc ''.'', asc ''sh'']"
  using strtok_r_components [of "asc ''//bin/./sh/''" 16 "[7]" 0]
  by (simp add: asc_def parts.simps)

text \<open>On terminated strings \<^verbatim>\<open>strcmp\<close> returns, and the sign of its result is the lexicographic
  order of the contents as unsigned bytes.\<close>

theorem strcmp_order:
  assumes "cstr_ok a" and "cstr_ok b"
  shows "\<exists>v. k_strcmp (a @ 0 # r) (b @ 0 # t) = Some v \<and> (v = 0 \<longleftrightarrow> a = b) \<and> (v < 0 \<longleftrightarrow> a < b)"
  using k_strcmp_spec [OF assms] .

lemma strcmp_order_witness:
  "\<exists>v. k_strcmp (asc ''bin'' @ [0]) (asc ''boot'' @ [0]) = Some v \<and> v < 0"
  using strcmp_order [of "asc ''bin''" "asc ''boot''" "[]" "[]"]
  by (simp add: asc_def)

text \<open>The two versions of \<^verbatim>\<open>strncmp\<close> agree on every pair of objects and every count of 32 bits,
  although the one of the C library recognises the exhausted count by its wrap-around.\<close>

theorem strncmp_versions_agree:
  assumes "n < 2 ^ 32"
  shows "lc_strncmp s t (word_of_nat n) = k_strncmp s t n"
  unfolding lc_strncmp_def using lc_strncmp_loop_eq [OF assms] .

lemma strncmp_versions_agree_witness:
  "lc_strncmp (asc ''hda1'') (asc ''hda2'') 3 = Some 0"
  using strncmp_versions_agree [of 3 "asc ''hda1''" "asc ''hda2''"] by (simp add: asc_def numeral_3_eq_3)

text \<open>\<^verbatim>\<open>strncpy\<close> writes exactly the first \<open>n\<close> bytes of the destination, and leaves them without a
  terminating NUL exactly when the source has \<open>n\<close> characters or more.\<close>

theorem strncpy_bounded:
  assumes "cstr_ok s" and "n \<le> length d"
  shows "\<exists>d'. k_strncpy d (s @ 0 # r) n = Some d' \<and> length d' = length d \<and> drop n d' = drop n d
    \<and> take (min n (length s)) d' = take n s \<and> (0 \<notin> set (take n d') \<longleftrightarrow> n \<le> length s)"
proof -
  let ?d = "take n (s @ replicate n 0) @ drop n d"
  have "length (take n (s @ replicate n (0::u8))) = n" by simp
  moreover have "0 \<notin> set (take n s)" using assms(1) by (auto simp: cstr_ok_def dest: in_set_takeD)
  ultimately show ?thesis
    using k_strncpy_spec [OF assms, of r] assms(2) by (auto simp: min_def)
qed

lemma strncpy_bounded_witness:
  "\<exists>d'. k_strncpy [1, 1, 1] (asc ''hda'' @ [0]) 2 = Some d' \<and> 0 \<notin> set (take 2 d')"
  using strncpy_bounded [of "asc ''hda''" 2 "[1, 1, 1]" "[]"] by (auto simp: asc_def)

end
