(* ===== verification/LibcFmt.thy ===== *)
theory LibcFmt
  imports CStrings
begin

text \<open>
  The formatted output of the C library (\<^verbatim>\<open>libc/src/stdio.c\<close>) and of the kernel console
  (\<^verbatim>\<open>kernel/console_utils.c\<close>), number parsing and the allocator of \<^verbatim>\<open>libc/src/stdlib.c\<close>, and the
  line input of \<^verbatim>\<open>fgets\<close>.

  A \<^verbatim>\<open>va_list\<close> is the list of its arguments; fetching one that is not there or has another type
  is \<open>None\<close>, and so is negating the least \<^verbatim>\<open>int\<close>.  Output buffers are written byte by byte through
  \<open>emit\<close>, which fails outside the buffer, so the theorems about \<^verbatim>\<open>vsnprintf\<close> and \<^verbatim>\<open>vprintf\<close> are about
  the bounds checks of the code.
\<close>

subsection \<open>Arguments and output\<close>

datatype farg = FInt u32 | FStr "u8 list" | FNull

fun va_int :: "farg list \<Rightarrow> (u32 \<times> farg list) option" where
  "va_int (FInt w # as) = Some (w, as)"
| "va_int _ = None"

text \<open>A \<^verbatim>\<open>char*\<close> argument: \<open>None\<close> inside is the null pointer.\<close>

fun va_str :: "farg list \<Rightarrow> (u8 list option \<times> farg list) option" where
  "va_str (FStr s # as) = Some (Some s, as)"
| "va_str (FNull # as) = Some (None, as)"
| "va_str _ = None"

text \<open>\<^verbatim>\<open>buf[pos++] = c\<close>.\<close>

type_synonym obuf = "u8 list \<times> nat"

definition emit :: "u8 \<Rightarrow> obuf \<Rightarrow> obuf option" where
  "emit c bp = (case bp of (b, p) \<Rightarrow> if p < length b then Some (b[p := c], p + 1) else None)"

fun emits :: "u8 list \<Rightarrow> obuf \<Rightarrow> obuf option" where
  "emits [] bp = Some bp"
| "emits (c # cs) bp = do { bp' \<leftarrow> emit c bp; emits cs bp' }"

text \<open>
  The digits of a number, least significant first, as the \<^verbatim>\<open>do ... while\<close> loops produce them; \<open>cap\<close>
  bounds their number as the size of the scratch array does.
\<close>

fun digits_rev :: "(nat \<Rightarrow> u8) \<Rightarrow> nat \<Rightarrow> nat \<Rightarrow> nat \<Rightarrow> u8 list" where
  "digits_rev dig base 0 v = []"
| "digits_rev dig base (Suc cap) v =
     dig (v mod base) # (if v div base \<noteq> 0 then digits_rev dig base cap (v div base) else [])"

definition dec_digit :: "nat \<Rightarrow> u8" where
  "dec_digit d = 48 + of_nat d"

definition hex_digit :: "u8 \<Rightarrow> nat \<Rightarrow> u8" where
  "hex_digit ten d = (if d < 10 then 48 + of_nat d else ten + of_nat (d - 10))"

text \<open>\<^verbatim>\<open>if (num < 0) num = -num;\<close> the absolute value and whether a sign is printed.\<close>

definition abs_int :: "u32 \<Rightarrow> (bool \<times> nat) option" where
  "abs_int w = (let v = sint w in
     if v = - 2147483648 then None else if v < 0 then Some (True, nat (- v)) else Some (False, nat v))"

subsection \<open>vsnprintf\<close>

text \<open>The guarded loops \<^verbatim>\<open>while (... && pos + 1 < size) buf[pos++] = ...\<close>.\<close>

fun emit_while :: "nat \<Rightarrow> u8 list \<Rightarrow> obuf \<Rightarrow> obuf option" where
  "emit_while sz [] bp = Some bp"
| "emit_while sz (c # cs) bp =
     (if snd bp + 1 < sz then do { bp' \<leftarrow> emit c bp; emit_while sz cs bp' } else Some bp)"

text \<open>The same loop over a C string, which is read before the bound is tested.\<close>

fun emit_cstr :: "nat \<Rightarrow> u8 list \<Rightarrow> obuf \<Rightarrow> obuf option" where
  "emit_cstr sz [] bp = None"
| "emit_cstr sz (c # cs) bp =
     (if c \<noteq> 0 \<and> snd bp + 1 < sz then do { bp' \<leftarrow> emit c bp; emit_cstr sz cs bp' } else Some bp)"

definition vsn_conv :: "nat \<Rightarrow> u8 \<Rightarrow> farg list \<Rightarrow> obuf \<Rightarrow> (farg list \<times> obuf) option" where
  "vsn_conv sz k args bp =
     (if k = 0x73 then do {
        (s, as) \<leftarrow> va_str args;
        bp' \<leftarrow> emit_cstr sz (case s of Some s \<Rightarrow> s | None \<Rightarrow> asc ''(null)'' @ [0]) bp;
        Some (as, bp') }
      else if k = 0x64 then do {
        (w, as) \<leftarrow> va_int args;
        (neg, v) \<leftarrow> abs_int w;
        bp1 \<leftarrow> (if neg \<and> snd bp + 1 < sz then emit 0x2D bp else Some bp);
        bp' \<leftarrow> emit_while sz (rev (digits_rev dec_digit 10 32 v)) bp1;
        Some (as, bp') }
      else if k = 0x78 then do {
        (w, as) \<leftarrow> va_int args;
        bp' \<leftarrow> emit_while sz (rev (digits_rev (hex_digit 0x61) 16 32 (unat w))) bp;
        Some (as, bp') }
      else if k = 0x63 then do {
        (w, as) \<leftarrow> va_int args; bp' \<leftarrow> emit (ucast w) bp; Some (as, bp') }
      else if k = 0x25 then do { bp' \<leftarrow> emit 0x25 bp; Some (args, bp') }
      else do {
        bp1 \<leftarrow> emit 0x25 bp;
        bp' \<leftarrow> (if snd bp1 + 1 < sz then emit k bp1 else Some bp1);
        Some (args, bp') })"

text \<open>The format is read one byte at a time; a \<open>%\<close> also consumes the byte after it.\<close>

function vsn_loop :: "nat \<Rightarrow> u8 list \<Rightarrow> farg list \<Rightarrow> obuf \<Rightarrow> obuf option" where
  "vsn_loop sz [] args bp = None"
| "vsn_loop sz (c # f) args bp =
     (if c = 0 \<or> \<not> snd bp + 1 < sz then Some bp
      else if c \<noteq> 0x25 then do { bp' \<leftarrow> emit c bp; vsn_loop sz f args bp' }
      else (case f of [] \<Rightarrow> None
            | k # f' \<Rightarrow> if k = 0 then Some bp
                else do { (as, bp') \<leftarrow> vsn_conv sz k args bp; vsn_loop sz f' as bp' }))"
  by pat_completeness auto
termination by (relation "measure (\<lambda>(sz, f, _). length f)") auto

text \<open>\<^verbatim>\<open>buf\<close> is the object the destination points into; the result is its new contents and the count.\<close>

definition vsnprintf :: "u8 list \<Rightarrow> nat \<Rightarrow> u8 list \<Rightarrow> farg list \<Rightarrow> (u8 list \<times> nat) option" where
  "vsnprintf buf sz fmt args =
     (if sz = 0 then Some (buf, 0)
      else do {
        (b, pos) \<leftarrow> vsn_loop sz fmt args (buf, 0);
        (b', _) \<leftarrow> emit 0 (b, pos);
        Some (b', pos) })"

subsection \<open>vprintf\<close>

text \<open>The loop of \<^verbatim>\<open>%x\<close>: \<open>k\<close> nibbles remain, \<^verbatim>\<open>shift\<close> is \<open>4 * (k - 1)\<close>.\<close>

fun vp_hex :: "nat \<Rightarrow> u32 \<Rightarrow> obuf \<Rightarrow> obuf option" where
  "vp_hex 0 w bp = Some bp"
| "vp_hex (Suc k) w bp =
     (let nibble = unat (drop_bit (4 * k) w AND 0xF) in do {
        bp' \<leftarrow> (if nibble \<noteq> 0 \<or> k = 0 \<or> (4 * k < 28 \<and> 2 < snd bp)
                then emit (hex_digit 0x41 nibble) bp else Some bp);
        vp_hex k w bp' })"

definition vp_conv :: "u8 \<Rightarrow> farg list \<Rightarrow> obuf \<Rightarrow> (farg list \<times> obuf) option" where
  "vp_conv k args bp =
     (if k = 0x64 \<or> k = 0x69 then do {
        (w, as) \<leftarrow> va_int args;
        (neg, v) \<leftarrow> abs_int w;
        bp1 \<leftarrow> (if neg then emit 0x2D bp else Some bp);
        bp' \<leftarrow> emits (rev (digits_rev dec_digit 10 16 v)) bp1;
        Some (as, bp') }
      else if k = 0x73 then do {
        (s, as) \<leftarrow> va_str args;
        str \<leftarrow> s;
        bp' \<leftarrow> emit_cstr 256 str bp;
        Some (as, bp') }
      else if k = 0x63 then do {
        (w, as) \<leftarrow> va_int args; bp' \<leftarrow> emit (ucast w) bp; Some (as, bp') }
      else if k = 0x78 \<or> k = 0x58 then do {
        (w, as) \<leftarrow> va_int args;
        bp1 \<leftarrow> emits [0x30, 0x78] bp;
        bp' \<leftarrow> vp_hex 8 w bp1;
        Some (as, bp') }
      else if k = 0x25 then do { bp' \<leftarrow> emit 0x25 bp; Some (args, bp') }
      else do { bp' \<leftarrow> emits [0x25, k] bp; Some (args, bp') })"

text \<open>A \<open>%\<close> at the end of the format takes the default branch with the NUL and reads on behind it.\<close>

function vp_loop :: "u8 list \<Rightarrow> farg list \<Rightarrow> obuf \<Rightarrow> obuf option" where
  "vp_loop [] args bp = None"
| "vp_loop (c # f) args bp =
     (if c = 0 \<or> \<not> snd bp < 255 then Some bp
      else if c = 0x25 then
        (case f of [] \<Rightarrow> None
         | k # f' \<Rightarrow> do { (as, bp') \<leftarrow> vp_conv k args bp; vp_loop f' as bp' })
      else do { bp' \<leftarrow> emit c bp; vp_loop f args bp' })"
  by pat_completeness auto
termination by (relation "measure (\<lambda>(f, _). length f)") auto

text \<open>The bytes passed to \<^verbatim>\<open>write\<close>; \<open>b0\<close> is the initial contents of the 256-byte stack buffer.\<close>

definition vprintf :: "u8 list \<Rightarrow> u8 list \<Rightarrow> farg list \<Rightarrow> u8 list option" where
  "vprintf b0 fmt args = do {
     (b, pos) \<leftarrow> vp_loop fmt args (b0, 0);
     (b', _) \<leftarrow> emit 0 (b, pos);
     Some (take pos b') }"

subsection \<open>Console output\<close>

definition con_conv :: "u8 \<Rightarrow> farg list \<Rightarrow> (farg list \<times> u8 list) option" where
  "con_conv k args =
     (if k = 0x64 \<or> k = 0x69 then do {
        (w, as) \<leftarrow> va_int args;
        (neg, v) \<leftarrow> abs_int w;
        Some (as, (if neg then [0x2D] else []) @ rev (digits_rev dec_digit 10 30 v)) }
      else if k = 0x75 then do {
        (w, as) \<leftarrow> va_int args; Some (as, rev (digits_rev dec_digit 10 30 (unat w))) }
      else if k = 0x78 \<or> k = 0x58 then do {
        (w, as) \<leftarrow> va_int args;
        let ds = digits_rev (hex_digit 0x61) 16 30 (unat w);
        Some (as, rev (take 8 (ds @ replicate (8 - length ds) 0x30))) }
      else if k = 0x63 then do { (w, as) \<leftarrow> va_int args; Some (as, [ucast w]) }
      else if k = 0x73 then do {
        (s, as) \<leftarrow> va_str args; str \<leftarrow> s; if cstring str then Some (as, cstr_at str) else None }
      else if k = 0x25 then Some (args, [0x25])
      else Some (args, [0x25, k]))"

text \<open>The bytes given to \<^verbatim>\<open>console_putc\<close>.\<close>

function console_vprintf :: "u8 list \<Rightarrow> farg list \<Rightarrow> u8 list option" where
  "console_vprintf [] args = None"
| "console_vprintf (c # f) args =
     (if c = 0 then Some []
      else if c = 0x25 then
        (case f of [] \<Rightarrow> None
         | k # f' \<Rightarrow> do { (as, out) \<leftarrow> con_conv k args; r \<leftarrow> console_vprintf f' as; Some (out @ r) })
      else do { r \<leftarrow> console_vprintf f args; Some (c # r) })"
  by pat_completeness auto
termination by (relation "measure (\<lambda>(f, _). length f)") auto

subsection \<open>Input\<close>

text \<open>
  \<^verbatim>\<open>getchar\<close> over the results of its \<^verbatim>\<open>SYS_READ\<close> calls, each the returned count and the byte; the
  exhausted list is end of file.  The result \<open>-1\<close> is \<^verbatim>\<open>EOF\<close>.
\<close>

fun getchar :: "(int \<times> u8) list \<Rightarrow> int \<times> (int \<times> u8) list" where
  "getchar [] = (-1, [])"
| "getchar ((r, ch) # inp) = (if r \<le> 0 then (-1, inp) else (uint ch, inp))"

text \<open>The loop of \<^verbatim>\<open>fgets\<close>: \<open>k\<close> is \<^verbatim>\<open>size - 1 - i\<close>.\<close>

fun fgets_loop :: "nat \<Rightarrow> obuf \<Rightarrow> (int \<times> u8) list \<Rightarrow> (obuf \<times> (int \<times> u8) list) option" where
  "fgets_loop 0 bp inp = Some (bp, inp)"
| "fgets_loop (Suc k) bp inp =
     (case getchar inp of (c, inp') \<Rightarrow>
        if c = -1 then Some (bp, inp')
        else do {
          bp' \<leftarrow> emit (word_of_int c) bp;
          if c = 10 then Some (bp', inp') else fgets_loop k bp' inp' })"

text \<open>The result is the buffer, whether the returned pointer is non-null, and the rest of the input.\<close>

definition fgets :: "u8 list \<Rightarrow> int \<Rightarrow> (int \<times> u8) list \<Rightarrow> (u8 list \<times> bool \<times> (int \<times> u8) list) option" where
  "fgets s sz inp =
     (if sz \<le> 1 then Some (s, False, inp)
      else do {
        ((b, i), inp') \<leftarrow> fgets_loop (nat (sz - 1)) (s, 0) inp;
        (b', _) \<leftarrow> emit 0 (b, i);
        Some (b', i \<noteq> 0, inp') })"

subsection \<open>Numbers\<close>

fun atoi_digits :: "u8 list \<Rightarrow> int \<Rightarrow> int option" where
  "atoi_digits [] res = None"
| "atoi_digits (c # s) res =
     (if 48 \<le> c \<and> c \<le> 57 then
        let res' = res * 10 + (uint c - 48) in
        if 2147483647 < res' then None else atoi_digits s res'
      else Some res)"

fun skip_spaces :: "u8 list \<Rightarrow> u8 list" where
  "skip_spaces [] = []"
| "skip_spaces (c # s) = (if c = 32 then skip_spaces s else c # s)"

definition atoi :: "u8 list \<Rightarrow> int option" where
  "atoi nptr = (case skip_spaces nptr of
       [] \<Rightarrow> None
     | c # s \<Rightarrow>
         if c = 0x2D then map_option (\<lambda>r. - r) (atoi_digits s 0)
         else if c = 0x2B then atoi_digits s 0
         else atoi_digits (c # s) 0)"

subsection \<open>The allocator of the C library\<close>

text \<open>
  Every block comes from \<^verbatim>\<open>_sbrk\<close>; nothing is ever reused.  \<open>sbrk\<close> is the system call, which
  returns the old break and changes the kernel's state \<open>'k\<close>; the block headers are the map
  \<open>lm_blocks\<close> from the payload address to size and free flag.
\<close>

record 'k lmem =
  lm_blocks :: "addr \<rightharpoonup> (u32 \<times> bool)"
  lm_kernel :: 'k

definition META :: u32 where "META = 12"

definition lc_malloc :: "(u32 \<Rightarrow> 'k \<Rightarrow> addr \<times> 'k) \<Rightarrow> u32 \<Rightarrow> 'k lmem \<Rightarrow> addr \<times> 'k lmem" where
  "lc_malloc sbrk sz m =
     (if sz = 0 then (0, m)
      else (case sbrk (sz + META) (lm_kernel m) of (req, k) \<Rightarrow>
        if req = - 1 then (0, m\<lparr>lm_kernel := k\<rparr>)
        else (req + META, m\<lparr>lm_blocks := (lm_blocks m)(req + META \<mapsto> (sz, False)), lm_kernel := k\<rparr>)))"

definition lc_free :: "addr \<Rightarrow> 'k lmem \<Rightarrow> 'k lmem option" where
  "lc_free p m =
     (if p = 0 then Some m
      else map_option (\<lambda>(n, _). m\<lparr>lm_blocks := (lm_blocks m)(p \<mapsto> (n, True))\<rparr>) (lm_blocks m p))"

text \<open>\<^verbatim>\<open>calloc\<close> also returns how many bytes it clears, \<^verbatim>\<open>realloc\<close> how many it copies.\<close>

definition lc_calloc :: "(u32 \<Rightarrow> 'k \<Rightarrow> addr \<times> 'k) \<Rightarrow> u32 \<Rightarrow> u32 \<Rightarrow> 'k lmem \<Rightarrow> addr \<times> u32 \<times> 'k lmem" where
  "lc_calloc sbrk n sz m =
     (case lc_malloc sbrk (n * sz) m of (p, m') \<Rightarrow> (p, (if p \<noteq> 0 then n * sz else 0), m'))"

definition lc_realloc :: "(u32 \<Rightarrow> 'k \<Rightarrow> addr \<times> 'k) \<Rightarrow> addr \<Rightarrow> u32 \<Rightarrow> 'k lmem \<Rightarrow> (addr \<times> u32 \<times> 'k lmem) option" where
  "lc_realloc sbrk p sz m =
     (if p = 0 then (case lc_malloc sbrk sz m of (q, m') \<Rightarrow> Some (q, 0, m'))
      else if sz = 0 then map_option (\<lambda>m'. (0, 0, m')) (lc_free p m)
      else do {
        (n, _) \<leftarrow> lm_blocks m p;
        if sz \<le> n then Some (p, 0, m)
        else (case lc_malloc sbrk sz m of (q, m1) \<Rightarrow>
          if q = 0 then Some (0, 0, m1)
          else do { (n1, _) \<leftarrow> lm_blocks m1 p; m2 \<leftarrow> lc_free p m1; Some (q, n1, m2) })
      })"

subsection \<open>Writes stay inside the buffer\<close>

text \<open>\<open>bp'\<close> comes from \<open>bp\<close> by writes below \<open>sz\<close> only, and leaves room for the NUL.\<close>

definition within :: "nat \<Rightarrow> obuf \<Rightarrow> obuf \<Rightarrow> bool" where
  "within sz bp bp' \<longleftrightarrow> length (fst bp') = length (fst bp) \<and> drop sz (fst bp') = drop sz (fst bp) \<and> snd bp' < sz"

lemma within_refl [simp]: "within sz bp bp \<longleftrightarrow> snd bp < sz"
  by (simp add: within_def)

lemma within_trans: "within sz a b \<Longrightarrow> within sz b c \<Longrightarrow> within sz a c"
  by (simp add: within_def)

lemma emit_within:
  assumes "sz \<le> length (fst bp)" "snd bp + 1 < sz"
  shows "\<exists>bp'. emit c bp = Some bp' \<and> within sz bp bp' \<and> snd bp' = snd bp + 1"
  using assms by (cases bp) (auto simp: emit_def within_def)

lemma emit_guarded:
  assumes "sz \<le> length (fst bp)" "snd bp < sz"
  shows "\<exists>bp'. (if g \<and> snd bp + 1 < sz then emit c bp else Some bp) = Some bp' \<and> within sz bp bp'"
proof (cases "g \<and> snd bp + 1 < sz")
  case True
  with emit_within [OF assms(1), of c] show ?thesis by (simp; blast)
next
  case False
  with assms(2) show ?thesis by (intro exI [of _ bp]) auto
qed

lemma emit_while_within:
  "sz \<le> length (fst bp) \<Longrightarrow> snd bp < sz \<Longrightarrow> \<exists>bp'. emit_while sz cs bp = Some bp' \<and> within sz bp bp'"
proof (induction cs arbitrary: bp)
  case (Cons c cs)
  show ?case
  proof (cases "snd bp + 1 < sz")
    case True
    then obtain b1 where b1: "emit c bp = Some b1" "within sz bp b1"
      using emit_within [OF Cons.prems(1)] by blast
    have "sz \<le> length (fst b1)" "snd b1 < sz" using b1(2) Cons.prems by (simp_all add: within_def)
    from Cons.IH [OF this] obtain b2 where b2: "emit_while sz cs b1 = Some b2" "within sz b1 b2" by blast
    have "emit_while sz (c # cs) bp = Some b2" using True b1(1) b2(1) by simp
    then show ?thesis using b1(2) b2(2) within_trans by blast
  qed (use Cons.prems in simp)
qed simp

lemma emit_cstr_eq:
  "cstr_ok s \<Longrightarrow> emit_cstr sz (s @ 0 # r) bp = emit_while sz s bp"
proof (induction s arbitrary: bp)
  case (Cons c s)
  then show ?case by (cases "emit c bp") auto
qed simp

lemma emit_cstr_cstring: "cstring s \<Longrightarrow> emit_cstr sz s bp = emit_while sz (cstr_at s) bp"
  using cstringE [of s] emit_cstr_eq by metis

text \<open>The argument list fits the format.\<close>

definition fmt_arg :: "u8 \<Rightarrow> farg list \<Rightarrow> farg list option" where
  "fmt_arg k args =
     (if k = 0x73 then
        (case args of FStr s # as \<Rightarrow> if cstring s then Some as else None | FNull # as \<Rightarrow> Some as | _ \<Rightarrow> None)
      else if k = 0x64 then
        (case args of FInt w # as \<Rightarrow> if w \<noteq> 0x80000000 then Some as else None | _ \<Rightarrow> None)
      else if k = 0x78 \<or> k = 0x63 then (case args of FInt w # as \<Rightarrow> Some as | _ \<Rightarrow> None)
      else Some args)"

function fmt_ok :: "u8 list \<Rightarrow> farg list \<Rightarrow> bool" where
  "fmt_ok [] args \<longleftrightarrow> False"
| "fmt_ok (c # f) args \<longleftrightarrow>
     (if c = 0 then True
      else if c \<noteq> 0x25 then fmt_ok f args
      else (case f of
          [] \<Rightarrow> False
        | k # f' \<Rightarrow> k = 0 \<or> (case fmt_arg k args of None \<Rightarrow> False | Some as \<Rightarrow> fmt_ok f' as)))"
  by pat_completeness auto
termination by (relation "measure (\<lambda>(f, _). length f)") auto

lemma abs_int_total: "w \<noteq> 0x80000000 \<Longrightarrow> \<exists>n v. abs_int w = Some (n, v)"
proof -
  assume "w \<noteq> 0x80000000"
  then have "sint w \<noteq> sint (0x80000000 :: u32)" by (metis signed_word_eqI)
  then show ?thesis by (auto simp: abs_int_def Let_def)
qed


lemma vsn_str_within:
  assumes "sz \<le> length (fst bp)" "snd bp < sz" "cstring s"
  shows "\<exists>bp'. emit_cstr sz s bp = Some bp' \<and> within sz bp bp'"
  using emit_while_within [OF assms(1,2)] emit_cstr_cstring [OF assms(3)] by metis

lemma vsn_conv_within:
  assumes len: "sz \<le> length (fst bp)" and p: "snd bp + 1 < sz" and ok: "fmt_arg k args = Some as"
  shows "\<exists>bp'. vsn_conv sz k args bp = Some (as, bp') \<and> within sz bp bp'"
proof -
  have p': "snd bp < sz" using p by simp
  have nul: "cstring (asc ''(null)'' @ [0])" by simp
  show ?thesis
  proof (cases "k = 0x73")
    case s: True
    from ok consider (str) t where "args = FStr t # as" "cstring t" | (null) "args = FNull # as"
      unfolding s fmt_arg_def by (auto split: list.splits farg.splits if_splits)
    then show ?thesis
    proof cases
      case str
      with vsn_str_within [OF len p' str(2)] show ?thesis unfolding s vsn_conv_def by auto
    next
      case null
      with vsn_str_within [OF len p' nul] show ?thesis unfolding s vsn_conv_def by auto
    qed
  next
    case ns: False
    show ?thesis
    proof (cases "k = 0x64")
      case d: True
      then obtain w where a: "args = FInt w # as" "w \<noteq> 0x80000000"
        using ok unfolding d fmt_arg_def by (auto split: list.splits farg.splits if_splits)
      obtain n v where v: "abs_int w = Some (n, v)" using abs_int_total [OF a(2)] by blast
      obtain b1 where b1: "(if n \<and> snd bp + 1 < sz then emit 0x2D bp else Some bp) = Some b1" "within sz bp b1"
        using emit_guarded [OF len p'] by blast
      from b1(2) have "sz \<le> length (fst b1)" "snd b1 < sz" using len by (simp_all add: within_def)
      then obtain b2 where b2: "emit_while sz (rev (digits_rev dec_digit 10 32 v)) b1 = Some b2" "within sz b1 b2"
        using emit_while_within by blast
      have "vsn_conv sz k args bp = Some (as, b2)"
        unfolding d vsn_conv_def using a v b1(1) b2(1) by simp
      then show ?thesis using b1(2) b2(2) within_trans by blast
    next
      case nd: False
      show ?thesis
      proof (cases "k = 0x78 \<or> k = 0x63")
        case xc: True
        then obtain w where a: "args = FInt w # as"
          using ok ns nd unfolding fmt_arg_def by (auto split: list.splits farg.splits)
        show ?thesis
        proof (cases "k = 0x78")
          case True
          obtain b2 where "emit_while sz (rev (digits_rev (hex_digit 0x61) 16 32 (unat w))) bp = Some b2" "within sz bp b2"
            using emit_while_within [OF len p'] by blast
          then show ?thesis using a ns nd True unfolding vsn_conv_def by simp
        next
          case False
          with a xc emit_within [OF len p, of "ucast w"] show ?thesis unfolding vsn_conv_def by auto
        qed
      next
        case other: False
        then have as: "as = args" using ok ns nd by (simp add: fmt_arg_def)
        show ?thesis
        proof (cases "k = 0x25")
          case True
          with as emit_within [OF len p, of "0x25"] show ?thesis unfolding vsn_conv_def by auto
        next
          case False
          obtain b1 where b1: "emit 0x25 bp = Some b1" "within sz bp b1" using emit_within [OF len p] by blast
          obtain b2 where "(if snd b1 + 1 < sz then emit k b1 else Some b1) = Some b2" "within sz b1 b2"
            using emit_guarded [of sz b1 True k] b1(2) len by (auto simp: within_def)
          then have "vsn_conv sz k args bp = Some (as, b2)" "within sz b1 b2"
            unfolding vsn_conv_def using False other ns nd as b1(1) by auto
          then show ?thesis using b1(2) within_trans by blast
        qed
      qed
    qed
  qed
qed

lemma vsn_loop_within:
  "fmt_ok f args \<Longrightarrow> sz \<le> length (fst bp) \<Longrightarrow> snd bp < sz \<Longrightarrow>
   \<exists>bp'. vsn_loop sz f args bp = Some bp' \<and> within sz bp bp'"
proof (induction sz f args bp rule: vsn_loop.induct)
  case (2 sz c f args bp)
  consider (stop) "c = 0 \<or> \<not> snd bp + 1 < sz" | (lit) "c \<noteq> 0" "snd bp + 1 < sz" "c \<noteq> 0x25"
    | (conv) "c = 0x25" "snd bp + 1 < sz" by blast
  then show ?case
  proof cases
    case stop
    then show ?thesis using 2(5) by auto
  next
    case lit
    then obtain b1 where b1: "emit c bp = Some b1" "within sz bp b1"
      using emit_within [OF 2(4)] by blast
    have "fmt_ok f args" using lit 2(3) by simp
    moreover have "sz \<le> length (fst b1)" "snd b1 < sz" using b1(2) 2(4) by (simp_all add: within_def)
    ultimately obtain b2 where b2: "vsn_loop sz f args b1 = Some b2" "within sz b1 b2"
      using 2(1) [of b1] lit b1(1) by blast
    have "vsn_loop sz (c # f) args bp = Some b2" using lit b1(1) b2(1) by simp
    then show ?thesis using b1(2) b2(2) within_trans by blast
  next
    case conv
    then obtain k f' where f: "f = k # f'" using 2(3) by (cases f) auto
    show ?thesis
    proof (cases "k = 0")
      case True
      then show ?thesis using conv f 2(5) by simp
    next
      case False
      obtain as where as: "fmt_arg k args = Some as" "fmt_ok f' as"
        using 2(3) conv f False by (auto split: option.splits)
      then obtain b1 where b1: "vsn_conv sz k args bp = Some (as, b1)" "within sz bp b1"
        using vsn_conv_within [OF 2(4) conv(2)] by blast
      have "sz \<le> length (fst b1)" "snd b1 < sz" using b1(2) 2(4) by (simp_all add: within_def)
      moreover have c: "\<not> (c = 0 \<or> \<not> snd bp + 1 < sz)" "\<not> c \<noteq> 0x25" using conv by simp_all
      ultimately obtain b2 where b2: "vsn_loop sz f' as b1 = Some b2" "within sz b1 b2"
        using 2(2) [OF c f False, of "(as, b1)" as b1] as(2) b1(1) by blast
      have "vsn_loop sz (c # f) args bp = Some b2" using conv f False b1(1) b2(1) by simp
      then show ?thesis using b1(2) b2(2) within_trans by blast
    qed
  qed
qed simp

subsection \<open>Decimal numbers\<close>

lemma dec_digit_uint: "d < 10 \<Longrightarrow> uint (dec_digit d) = 48 + int d"
proof -
  assume "d < 10"
  then have "d \<in> {0, 1, 2, 3, 4, 5, 6, 7, 8, 9}" by auto
  then show ?thesis by (auto simp: dec_digit_def)
qed

lemma atoi_digits_rev:
  "v < 10 ^ cap \<Longrightarrow> 0 \<le> res \<Longrightarrow> res * 10 ^ length (digits_rev dec_digit 10 cap v) + int v \<le> 2147483647 \<Longrightarrow>
   atoi_digits (rev (digits_rev dec_digit 10 cap v) @ t) res
     = atoi_digits t (res * 10 ^ length (digits_rev dec_digit 10 cap v) + int v)"
proof (induction cap arbitrary: v t)
  case (Suc cap)
  let ?d = "dec_digit (v mod 10)"
  have u: "uint ?d = 48 + int (v mod 10)" by (simp add: dec_digit_uint)
  then have dg: "48 \<le> ?d" "?d \<le> 57"
    by (simp_all add: word_le_def)
  have dm: "int v = int (v div 10) * 10 + int (v mod 10)" by (metis div_mult_mod_eq of_nat_add of_nat_mult of_nat_numeral)
  show ?case
  proof (cases "v div 10 = 0")
    case True
    then have "int v = int (v mod 10)" using dm by simp
    then show ?thesis using True u dg Suc.prems by (simp add: Let_def)
  next
    case False
    let ?ds = "digits_rev dec_digit 10 cap (v div 10)"
    have b: "(res * 10 ^ length ?ds + int (v div 10)) * 10 + int (v mod 10) \<le> 2147483647"
      using Suc.prems(3) False dm by (simp add: algebra_simps)
    moreover have nn: "0 \<le> res * 10 ^ length ?ds + int (v div 10)" using Suc.prems(2) by simp
    moreover have "x * 10 + y \<le> 2147483647 \<Longrightarrow> 0 \<le> x \<Longrightarrow> 0 \<le> y \<Longrightarrow> x \<le> 2147483647" for x y :: int by simp
    ultimately have "res * 10 ^ length ?ds + int (v div 10) \<le> 2147483647" using of_nat_0_le_iff by blast
    then have IH: "atoi_digits (rev ?ds @ ?d # t) res = atoi_digits (?d # t) (res * 10 ^ length ?ds + int (v div 10))"
      using Suc.IH [of "v div 10" "?d # t"] Suc.prems by simp
    have "atoi_digits (?d # t) (res * 10 ^ length ?ds + int (v div 10))
        = atoi_digits t ((res * 10 ^ length ?ds + int (v div 10)) * 10 + int (v mod 10))"
      using b u dg by (simp add: Let_def)
    also have "(res * 10 ^ length ?ds + int (v div 10)) * 10 + int (v mod 10) = res * 10 ^ Suc (length ?ds) + int v"
      using dm by (simp add: algebra_simps)
    finally show ?thesis using False IH by simp
  qed
qed simp

lemma digits_rev_length: "0 < v \<Longrightarrow> v < 10 ^ n \<Longrightarrow> length (digits_rev dig 10 cap v) \<le> n"
proof (induction cap arbitrary: v n)
  case (Suc cap)
  then obtain n' where n: "n = Suc n'" by (cases n) auto
  then show ?case using Suc.IH [of "v div 10" n'] Suc.prems by (auto simp: less_mult_imp_div_less mult.commute)
qed simp


lemma digits_rev_nonempty [simp]:
  "cap \<noteq> 0 \<Longrightarrow> digits_rev dig base cap v \<noteq> []" "cap \<noteq> 0 \<Longrightarrow> digits_rev dig base cap 0 = [dig 0]"
  by (cases cap; simp)+

lemma digits_rev_range: "set (digits_rev dig base cap v) \<subseteq> range (\<lambda>d. dig (d mod base))"
  by (induction cap arbitrary: v) auto

lemma emit_while_all:
  "p + length cs < sz \<Longrightarrow> sz \<le> length b \<Longrightarrow>
   emit_while sz cs (b, p) = Some (take p b @ cs @ drop (p + length cs) b, p + length cs)"
proof (induction cs arbitrary: b p)
  case (Cons c cs)
  have "take (Suc p) (b[p := c]) = take p b @ [c]"
    using Cons.prems by (simp add: take_Suc_conv_app_nth)
  then show ?case using Cons.IH [of "Suc p" "b[p := c]"] Cons.prems by (simp add: emit_def)
qed simp

lemma emits_all:
  "p + length cs \<le> length b \<Longrightarrow>
   emits cs (b, p) = Some (take p b @ cs @ drop (p + length cs) b, p + length cs)"
proof (induction cs arbitrary: b p)
  case (Cons c cs)
  have "take (Suc p) (b[p := c]) = take p b @ [c]"
    using Cons.prems by (simp add: take_Suc_conv_app_nth)
  then show ?case using Cons.IH [of "Suc p" "b[p := c]"] Cons.prems by (simp add: emit_def)
qed simp

lemma emit_append:
  "length xs < length b \<Longrightarrow>
   emit c (xs @ drop (length xs) b, length xs) = Some (xs @ c # drop (Suc (length xs)) b, Suc (length xs))"
  by (simp add: emit_def list_update_append Cons_nth_drop_Suc [symmetric])

text \<open>Literal text of the format is copied.\<close>

lemma vp_loop_literal:
  "0x25 \<notin> set s \<Longrightarrow> 0 \<notin> set s \<Longrightarrow> p + length s \<le> 255 \<Longrightarrow> length b = 256 \<Longrightarrow>
   vp_loop (s @ f) args (b, p) = vp_loop f args (take p b @ s @ drop (p + length s) b, p + length s)"
proof (induction s arbitrary: b p)
  case (Cons c s)
  have "take (Suc p) (b[p := c]) = take p b @ [c]"
    using Cons.prems by (simp add: take_Suc_conv_app_nth)
  then show ?case using Cons.IH [of "Suc p" "b[p := c]"] Cons.prems by (simp add: emit_def)
qed simp

subsection \<open>Properties\<close>

text \<open>C10.  When the arguments fit the format, \<^verbatim>\<open>vsnprintf\<close> returns; it writes only the first \<open>size\<close>
  bytes of the destination, and puts a NUL at the returned position, which is below \<open>size\<close>.\<close>

theorem vsnprintf_bounded:
  assumes "fmt_ok fmt args" and "0 < sz" and "sz \<le> length buf"
  shows "\<exists>b n. vsnprintf buf sz fmt args = Some (b, n) \<and> n < sz \<and> b ! n = 0
    \<and> length b = length buf \<and> drop sz b = drop sz buf"
proof -
  obtain b n where l: "vsn_loop sz fmt args (buf, 0) = Some (b, n)" "within sz (buf, 0) (b, n)"
    using vsn_loop_within [OF assms(1), of sz "(buf, 0)"] assms by auto
  then have "emit 0 (b, n) = Some (b[n := 0], n + 1)"
    using assms(3) by (simp add: emit_def within_def)
  with l show ?thesis using assms(2,3) by (auto simp: vsnprintf_def within_def)
qed

lemma vsnprintf_bounded_witness:
  "\<exists>b n. vsnprintf [1, 1, 1, 1, 9] 4 (asc ''n=%d'' @ [0]) [FInt 12345] = Some (b, n) \<and> n < 4 \<and> b ! n = 0"
  using vsnprintf_bounded [of "asc ''n=%d'' @ [0]" "[FInt 12345]" 4 "[1, 1, 1, 1, 9]"]
  by (auto simp: asc_def fmt_arg_def)

text \<open>\<^verbatim>\<open>vprintf\<close> checks the room only before each format byte: after 254 literal characters the
  conversion \<open>%x\<close> runs past the end of its 256-byte stack buffer, for every argument.\<close>

theorem vprintf_overflows:
  assumes "length b0 = 256" and "length s = 254" and "0x25 \<notin> set s" and "0 \<notin> set s"
  shows "vprintf b0 (s @ asc ''%x'' @ [0]) [FInt w] = None"
proof -
  let ?b = "s @ drop 254 b0"
  have len: "length ?b = 256" using assms by simp
  have "vp_loop (s @ asc ''%x'' @ [0]) [FInt w] (b0, 0) = vp_loop (asc ''%x'' @ [0]) [FInt w] (?b, 254)"
    using vp_loop_literal [OF assms(3,4), of 0 b0] assms(1,2) by simp
  moreover have "vp_conv 0x78 [FInt w] (?b, 254) = None"
  proof -
    obtain b' where b': "emits [0x30, 0x78] (?b, 254) = Some (b', 256)" "length b' = 256"
      using emits_all [of 254 "[0x30, 0x78]" ?b] len by simp
    have e: "emit c (b', 256) = None" for c using b'(2) by (simp add: emit_def)
    have "vp_hex (Suc k) w (b', 256) = None" for k
    proof (induction k)
      case (Suc k)
      then show ?case by (subst vp_hex.simps) (simp add: e Let_def del: vp_hex.simps)
    qed (simp add: e)
    then have "vp_hex 8 w (b', 256) = None" by (metis numeral_eq_Suc)
    then show ?thesis using b'(1) by (simp add: vp_conv_def)
  qed
  ultimately show ?thesis by (simp add: vprintf_def asc_def)
qed

lemma vprintf_overflows_witness:
  "vprintf (replicate 256 0) (replicate 254 0x61 @ asc ''%x'' @ [0]) [FInt 0] = None"
  using vprintf_overflows [of "replicate 256 0" "replicate 254 0x61" 0] by simp

text \<open>The text of a number, its sign and digits, and what the two functions do with it.\<close>

definition int_text :: "bool \<Rightarrow> nat \<Rightarrow> u8 list" where
  "int_text neg v = (if neg then [0x2D] else []) @ rev (digits_rev dec_digit 10 32 v)"

lemma int_text_length:
  assumes "v \<le> 2147483647"
  shows "length (int_text neg v) \<le> 11"
proof (cases "v = 0")
  case False
  then have "length (digits_rev dec_digit 10 32 v) \<le> 10" using digits_rev_length [of v 10 dec_digit 32] assms by simp
  then show ?thesis by (simp add: int_text_def)
qed (simp add: int_text_def)

lemma vsnprintf_int:
  assumes "12 \<le> sz" and "sz \<le> length buf" and v: "abs_int w = Some (neg, v)" "v \<le> 2147483647"
  shows "vsnprintf buf sz (asc ''%d'' @ [0]) [FInt w]
    = Some (int_text neg v @ 0 # drop (Suc (length (int_text neg v))) buf, length (int_text neg v))"
proof -
  let ?ds = "rev (digits_rev dec_digit 10 32 v)" and ?sg = "if neg then [0x2D] else [] :: u8 list"
  have t: "int_text neg v = ?sg @ ?ds" by (simp add: int_text_def)
  have len: "length (?sg @ ?ds) \<le> 11" using int_text_length [OF v(2), of neg] unfolding t .
  have l1: "(if neg \<and> snd (buf, 0) + 1 < sz then emit 0x2D (buf, 0) else Some (buf, 0 :: nat))
      = Some (?sg @ drop (length ?sg) buf, length ?sg)"
    using assms(1,2) by (cases buf) (auto simp: emit_def)
  have l2: "emit_while sz ?ds (?sg @ drop (length ?sg) buf, length ?sg)
      = Some (?sg @ ?ds @ drop (length ?sg + length ?ds) buf, length ?sg + length ?ds)"
    using len assms(1,2) by (subst emit_while_all) (auto split: if_splits)
  have "vsn_loop sz (asc ''%d'' @ [0]) [FInt w] (buf, 0)
      = Some (?sg @ ?ds @ drop (length ?sg + length ?ds) buf, length ?sg + length ?ds)"
    using assms(1) v l1 l2 by (simp add: asc_def vsn_conv_def)
  moreover have "length (?sg @ ?ds) < length buf" using len assms(1,2) by linarith
  then have "emit 0 (?sg @ ?ds @ drop (length ?sg + length ?ds) buf, length ?sg + length ?ds)
      = Some (?sg @ ?ds @ 0 # drop (Suc (length ?sg + length ?ds)) buf, Suc (length ?sg + length ?ds))"
    using emit_append [of "?sg @ ?ds" buf 0] by (simp only: length_append append_assoc)
  ultimately show ?thesis unfolding t using assms(1) by (simp add: vsnprintf_def)
qed

lemma atoi_int_text:
  assumes "v \<le> 2147483647"
  shows "atoi (int_text neg v @ 0 # r) = Some (if neg then - int v else int v)"
proof -
  let ?ds = "rev (digits_rev dec_digit 10 32 v)"
  have at: "atoi_digits (?ds @ 0 # r) 0 = Some (int v)"
    using atoi_digits_rev [of v 32 0 "0 # r"] assms by simp
  show ?thesis
  proof (cases neg)
    case True
    then show ?thesis using at by (simp add: atoi_def int_text_def)
  next
    case False
    obtain c cs where cs: "?ds @ 0 # r = c # cs" by (cases "?ds @ 0 # r") auto
    have "?ds \<noteq> []" by simp
    then have "c \<in> set ?ds" using cs by (cases ?ds) auto
    then have "c \<in> range (\<lambda>d. dec_digit (d mod 10))" using digits_rev_range by force
    then have "48 \<le> c" using dec_digit_uint by (auto simp: word_le_def)
    then have "c \<noteq> 32" "c \<noteq> 0x2D" "c \<noteq> 0x2B" by (auto simp: word_le_def)
    then show ?thesis using False at cs by (simp add: atoi_def int_text_def)
  qed
qed

text \<open>Printing an \<^verbatim>\<open>int\<close> with \<open>%d\<close> and reading it back with \<^verbatim>\<open>atoi\<close> returns the number.\<close>

theorem print_parse_int:
  assumes "w \<noteq> 0x80000000" and "12 \<le> sz" and "sz \<le> length buf"
  shows "\<exists>b n. vsnprintf buf sz (asc ''%d'' @ [0]) [FInt w] = Some (b, n) \<and> atoi b = Some (sint w)"
proof -
  obtain neg v where v: "abs_int w = Some (neg, v)" using abs_int_total [OF assms(1)] by blast
  have "- 2147483648 \<le> sint w" "sint w < 2147483648" using sint_ge [of w] sint_lt [of w] by simp_all
  then have sv: "sint w = (if neg then - int v else int v)" "v \<le> 2147483647"
    using v by (auto simp: abs_int_def Let_def split: if_splits)
  show ?thesis using vsnprintf_int [OF assms(2,3) v sv(2)] atoi_int_text [OF sv(2)] sv(1) by simp
qed

lemma print_parse_int_witness:
  "\<exists>b n. vsnprintf (replicate 16 7) 16 (asc ''%d'' @ [0]) [FInt (- 42)] = Some (b, n) \<and> atoi b = Some (- 42)"
  using print_parse_int [of "- 42" 16 "replicate 16 7"] by simp

end
