(* ===== verification/Serial.thy ===== *)
theory Serial
  imports LibcFmt
begin

text \<open>
  The serial port of \<^verbatim>\<open>drivers/serial/serial.c\<close>, the kernel's log.

  The device is the lists of values its registers will return: the line status for every read of port
  0x3FD, the received bytes for every read of port 0x3F8, and the scratch register, which keeps what is
  written to it if there is a port at all.  Every write goes to the trace \<open>se_out\<close>.  A list that ends
  is a machine that gets no further, so that a transmitter that never becomes empty is \<open>None\<close>.
\<close>

subsection \<open>State\<close>

definition COM1 :: u16 where "COM1 = 0x3F8"

record serial =
  se_ready :: bool
  se_present :: bool
  se_status :: "u8 list"
  se_in :: "u8 list"
  se_out :: "(u16 \<times> u8) list"

definition se_outb :: "u16 \<Rightarrow> u8 \<Rightarrow> serial \<Rightarrow> serial" where
  "se_outb port v s = s\<lparr>se_out := se_out s @ [(port, v)]\<rparr>"

fun se_outbs :: "(u16 \<times> u8) list \<Rightarrow> serial \<Rightarrow> serial" where
  "se_outbs [] s = s"
| "se_outbs ((p, v) # w) s = se_outbs w (se_outb p v s)"

subsection \<open>Operations\<close>

definition serial_init :: "serial \<Rightarrow> serial" where
  "serial_init s =
     (let s1 = se_outbs [(COM1 + 1, 0x00), (COM1 + 3, 0x80), (COM1 + 0, 0x01), (COM1 + 1, 0x00), (COM1 + 3, 0x03),
            (COM1 + 2, 0xC7), (COM1 + 4, 0x0B), (COM1 + 7, 0xAE)] s in
      if \<not> se_present s1 then s1
      else (se_outbs [(COM1, 83), (COM1, 69), (COM1, 82), (COM1, 73), (COM1, 65), (COM1, 76), (COM1, 13), (COM1, 10)] s1)
        \<lparr>se_ready := True\<rparr>)"

definition read_status :: "serial \<Rightarrow> (u8 \<times> serial) option" where
  "read_status s = (case se_status s of [] \<Rightarrow> None | v # vs \<Rightarrow> Some (v, s\<lparr>se_status := vs\<rparr>))"

definition is_transmit_empty :: "serial \<Rightarrow> (bool \<times> serial) option" where
  "is_transmit_empty s = map_option (\<lambda>(v, t). (v AND 0x20 \<noteq> 0, t)) (read_status s)"

definition serial_data_ready :: "serial \<Rightarrow> (bool \<times> serial) option" where
  "serial_data_ready s = map_option (\<lambda>(v, t). (v AND 0x01 \<noteq> 0, t)) (read_status s)"

function wait_transmit :: "serial \<Rightarrow> serial option" where
  "wait_transmit s = (case is_transmit_empty s of None \<Rightarrow> None | Some (e, t) \<Rightarrow> if e then Some t else wait_transmit t)"
  by auto
termination
  by (relation "measure (\<lambda>s. length (se_status s))")
    (auto simp: is_transmit_empty_def read_status_def split: list.splits)

declare wait_transmit.simps [simp del]

definition serial_putc :: "u8 \<Rightarrow> serial \<Rightarrow> serial option" where
  "serial_putc ch s = (if \<not> se_ready s then Some s else map_option (se_outb COM1 ch) (wait_transmit s))"

fun serial_putcs :: "u8 list \<Rightarrow> serial \<Rightarrow> serial option" where
  "serial_putcs [] s = Some s"
| "serial_putcs (c # cs) s = do { t \<leftarrow> serial_putc c s; serial_putcs cs t }"

definition serial_write :: "cstr \<Rightarrow> serial \<Rightarrow> serial option" where
  "serial_write cs s = (if \<not> se_ready s then Some s else serial_putcs cs s)"

definition serial_write_hex :: "u32 \<Rightarrow> serial \<Rightarrow> serial option" where
  "serial_write_hex v s = do {
     t \<leftarrow> serial_write (asc ''0x'') s;
     serial_putcs (map (\<lambda>i. hex_digit 0x41 (unat (drop_bit (i * 4) v AND 0xF))) [7, 6, 5, 4, 3, 2, 1, 0]) t }"

definition serial_write_dec :: "u32 \<Rightarrow> serial \<Rightarrow> serial option" where
  "serial_write_dec v s =
     (if v = 0 then serial_putc 48 s else serial_putcs (rev (digits_rev dec_digit 10 15 (unat v))) s)"

definition serial_getchar_nonblock :: "serial \<Rightarrow> (int \<times> serial) option" where
  "serial_getchar_nonblock s =
     (if \<not> se_ready s then Some (-1, s)
      else do {
        (r, t) \<leftarrow> serial_data_ready s;
        if \<not> r then Some (-1, t)
        else (case se_in t of [] \<Rightarrow> None | b # bs \<Rightarrow> Some (uint b, t\<lparr>se_in := bs\<rparr>)) })"

subsection \<open>What goes over the line\<close>

text \<open>How often the line status will show an empty transmitter.\<close>

definition empties :: "serial \<Rightarrow> nat" where
  "empties s = length (filter (\<lambda>v. v AND 0x20 \<noteq> 0) (se_status s))"

lemma wait_transmit_empties:
  "(case wait_transmit s of None \<Rightarrow> empties s = 0
    | Some t \<Rightarrow> empties s = Suc (empties t) \<and> se_out t = se_out s \<and> se_ready t = se_ready s \<and> se_in t = se_in s)"
proof (induction s rule: wait_transmit.induct)
  case (1 s)
  show ?case
  proof (cases "se_status s")
    case Nil
    then show ?thesis by (simp add: wait_transmit.simps [of s] is_transmit_empty_def read_status_def empties_def)
  next
    case (Cons v vs)
    let ?t = "s\<lparr>se_status := vs\<rparr>"
    have e: "is_transmit_empty s = Some (v AND 0x20 \<noteq> 0, ?t)" using Cons by (simp add: is_transmit_empty_def read_status_def)
    show ?thesis
    proof (cases "v AND 0x20 = 0")
      case True
      have "wait_transmit s = wait_transmit ?t" using e True by (simp add: wait_transmit.simps [of s])
      moreover have "empties s = empties ?t" using Cons True by (simp add: empties_def)
      ultimately show ?thesis using "1.IH" [OF e, of False ?t] True by (simp split: option.splits)
    next
      case False
      then have "wait_transmit s = Some ?t" using e by (simp add: wait_transmit.simps [of s])
      then show ?thesis using Cons False by (simp add: empties_def)
    qed
  qed
qed

lemma serial_putcs_sends:
  assumes "se_ready s"
  shows "case serial_putcs cs s of None \<Rightarrow> empties s < length cs
    | Some t \<Rightarrow> empties s = length cs + empties t \<and> se_out t = se_out s @ map (Pair COM1) cs \<and> se_ready t \<and> se_in t = se_in s"
  using assms
proof (induction cs arbitrary: s)
  case (Cons c cs)
  show ?case
  proof (cases "wait_transmit s")
    case None
    then show ?thesis using Cons.prems wait_transmit_empties [of s] by (simp add: serial_putc_def)
  next
    case (Some u)
    let ?v = "se_outb COM1 c u"
    have u: "empties s = Suc (empties u)" "se_out u = se_out s" "se_ready u" "se_in u = se_in s"
      using wait_transmit_empties [of s] Some Cons.prems by simp_all
    have v: "empties ?v = empties u" "se_out ?v = se_out s @ [(COM1, c)]" "se_ready ?v" "se_in ?v = se_in s"
      using u by (simp_all add: se_outb_def empties_def)
    have "serial_putcs (c # cs) s = serial_putcs cs ?v" using Some Cons.prems by (simp add: serial_putc_def)
    then show ?thesis using Cons.IH [OF v(3)] u(1) v by (auto split: option.splits)
  qed
qed simp

lemma serial_putcs_enough:
  assumes "se_ready s" and "length cs \<le> empties s"
  obtains t where "serial_putcs cs s = Some t" "se_out t = se_out s @ map (Pair COM1) cs" "se_ready t"
    "empties t = empties s - length cs"
  using serial_putcs_sends [OF assms(1), of cs] assms(2) by (auto split: option.splits)

lemma serial_not_ready:
  "\<not> se_ready s \<Longrightarrow> serial_putcs cs s = Some s" "\<not> se_ready s \<Longrightarrow> serial_write cs s = Some s"
  by (induction cs) (simp_all add: serial_putc_def serial_write_def)

lemma serial_dec_putcs:
  "serial_write_dec v s = serial_putcs (rev (digits_rev dec_digit 10 15 (unat v))) s"
  by (cases "serial_putc 48 s") (auto simp: serial_write_dec_def dec_digit_def)

subsection \<open>Numbers in text\<close>

definition digit_value :: "u8 \<Rightarrow> nat" where
  "digit_value d = (if d < 65 then unat d - 48 else unat d - 55)"

fun number_value :: "nat \<Rightarrow> nat \<Rightarrow> u8 list \<Rightarrow> nat" where
  "number_value b a [] = a"
| "number_value b a (d # ds) = number_value b (a * b + digit_value d) ds"

lemma number_value_append: "number_value b a (xs @ ys) = number_value b (number_value b a xs) ys"
  by (induction xs arbitrary: a) auto

lemma digit_values: "d < 10 \<Longrightarrow> digit_value (dec_digit d) = d" "d < 16 \<Longrightarrow> digit_value (hex_digit 0x41 d) = d"
proof -
  have "\<forall>d\<in>set [0..<10]. digit_value (dec_digit d) = d" "\<forall>d\<in>set [0..<16]. digit_value (hex_digit 0x41 d) = d"
    by code_simp+
  then show "d < 10 \<Longrightarrow> digit_value (dec_digit d) = d" "d < 16 \<Longrightarrow> digit_value (hex_digit 0x41 d) = d" by simp_all
qed

lemma digits_rev_value:
  "v < 10 ^ cap \<Longrightarrow> number_value 10 0 (rev (digits_rev dec_digit 10 cap v)) = v"
proof (induction cap arbitrary: v)
  case (Suc cap)
  show ?case
  proof (cases "v div 10 = 0")
    case True
    then have "v mod 10 = v" by simp
    then show ?thesis using True by (simp add: digit_values)
  next
    case False
    then show ?thesis using Suc by (simp add: number_value_append digit_values less_mult_imp_div_less mult.commute)
  qed
qed simp

lemma nibbles_value:
  "number_value 16 a (map (\<lambda>i. hex_digit 0x41 (m div 16 ^ i mod 16)) (rev [0..<n])) = a * 16 ^ n + m mod 16 ^ n"
proof (induction n arbitrary: a)
  case (Suc n)
  have "m mod 16 ^ Suc n = (m div 16 ^ n mod 16) * 16 ^ n + m mod 16 ^ n"
    using mod_mult2_eq [of m "16 ^ n" 16] by (simp add: mult.commute)
  then show ?case using Suc by (simp add: digit_values algebra_simps)
qed simp

lemma nibble_unat: "unat (drop_bit (i * 4) (v :: u32) AND 0xF) = unat v div 16 ^ i mod 16"
proof -
  have p: "(2 :: nat) ^ (i * 4) = 16 ^ i" by (simp add: mult.commute [of i] power_mult)
  have m: "drop_bit (i * 4) v AND 0xF = take_bit 4 (drop_bit (i * 4) v)" by (simp add: take_bit_eq_mask mask_eq_exp_minus_1)
  have u: "unat v mod 4294967296 = unat v" using unsigned_less [of v, where ?'a = nat] by simp
  show ?thesis
    unfolding m by (simp add: unsigned_take_bit_eq unsigned_drop_bit_eq) (simp only: drop_bit_eq_div take_bit_eq_mod p, simp add: u)
qed

lemma hex_text_value:
  "number_value 16 0 (map (\<lambda>i. hex_digit 0x41 (unat (drop_bit (i * 4) (v :: u32) AND 0xF))) [7, 6, 5, 4, 3, 2, 1, 0]) = unat v"
proof -
  have l: "[7, 6, 5, 4, 3, 2, 1, 0 :: nat] = rev [0..<8]" by (simp add: upt_rec)
  have "unat v < 16 ^ 8" using unsigned_less [of v, where ?'a = nat] by simp
  then show ?thesis unfolding nibble_unat l nibbles_value by simp
qed

lemma serial_putcs_append: "serial_putcs (xs @ ys) s = do { t \<leftarrow> serial_putcs xs s; serial_putcs ys t }"
  by (induction xs arbitrary: s) (auto split: bind_splits)

lemma serial_putcs_ready: "se_ready s \<Longrightarrow> serial_putcs cs s = Some t \<Longrightarrow> se_ready t"
  using serial_putcs_sends [of s cs] by simp

lemma dec_digit_range: "set (digits_rev dec_digit 10 cap v) \<subseteq> {48..57}"
proof -
  have d: "\<forall>d\<in>set [0..<10]. dec_digit d \<in> {48..57}" unfolding Ball_set [symmetric] by code_simp
  have "range (\<lambda>d. dec_digit (d mod 10)) \<subseteq> {48..57}" using d by auto
  then show ?thesis using digits_rev_range by fast
qed

text \<open>A number written to the log can be read back: \<^verbatim>\<open>serial_write_dec\<close> and \<^verbatim>\<open>serial_write_hex\<close> send the digits of
  the number's value and nothing else, unless the transmitter becomes empty fewer times than there are
  characters: then they never return.
\<close>

theorem serial_numbers:
  assumes "se_ready s"
  shows "(\<exists>ds. number_value 10 0 ds = unat v \<and> set ds \<subseteq> {48..57} \<and> length ds \<le> 10 \<and> (case serial_write_dec v s of
        None \<Rightarrow> empties s < length ds | Some t \<Rightarrow> se_out t = se_out s @ map (Pair COM1) ds))
    \<and> (\<exists>ds. number_value 16 0 ds = unat v \<and> length ds = 8 \<and> (case serial_write_hex v s of
        None \<Rightarrow> empties s < 10 | Some t \<Rightarrow> se_out t = se_out s @ map (Pair COM1) (asc ''0x'' @ ds)))"
proof
  let ?ds = "rev (digits_rev dec_digit 10 15 (unat v))"
  have v: "unat v < 2 ^ 32" using unsigned_less [of v, where ?'a = nat] by simp
  have "length ?ds \<le> 10"
    by (cases "unat v = 0") (use v in \<open>simp_all add: digits_rev_length\<close>)
  moreover have "number_value 10 0 ?ds = unat v" by (rule digits_rev_value) (use v in simp)
  moreover have "case serial_write_dec v s of None \<Rightarrow> empties s < length ?ds | Some t \<Rightarrow> se_out t = se_out s @ map (Pair COM1) ?ds"
    using serial_putcs_sends [OF assms, of ?ds] unfolding serial_dec_putcs by (auto split: option.splits)
  ultimately show "\<exists>ds. number_value 10 0 ds = unat v \<and> set ds \<subseteq> {48..57} \<and> length ds \<le> 10 \<and> (case serial_write_dec v s of
      None \<Rightarrow> empties s < length ds | Some t \<Rightarrow> se_out t = se_out s @ map (Pair COM1) ds)"
    using dec_digit_range [of 15 "unat v"] by (intro exI [of _ ?ds]) simp
next
  let ?ds = "map (\<lambda>i. hex_digit 0x41 (unat (drop_bit (i * 4) v AND 0xF))) [7, 6, 5, 4, 3, 2, 1, 0]"
  have "serial_write_hex v s = serial_putcs (asc ''0x'' @ ?ds) s"
    unfolding serial_putcs_append by (simp only: serial_write_hex_def serial_write_def assms not_True_eq_False if_False)
  moreover have "length (asc ''0x'' @ ?ds) = 10" by (simp add: asc_def)
  ultimately have "case serial_write_hex v s of None \<Rightarrow> empties s < 10
      | Some t \<Rightarrow> se_out t = se_out s @ map (Pair COM1) (asc ''0x'' @ ?ds)"
    using serial_putcs_sends [OF assms, of "asc ''0x'' @ ?ds"] by (simp only:) (auto split: option.splits)
  then show "\<exists>ds. number_value 16 0 ds = unat v \<and> length ds = 8 \<and> (case serial_write_hex v s of
      None \<Rightarrow> empties s < 10 | Some t \<Rightarrow> se_out t = se_out s @ map (Pair COM1) (asc ''0x'' @ ds))"
    using hex_text_value [of v] by (intro exI [of _ ?ds]) simp
qed

text \<open>A port found by \<^verbatim>\<open>serial_init\<close> whose transmitter is busy every other time.\<close>

definition demo_port :: serial where
  "demo_port = serial_init \<lparr>se_ready = False, se_present = True, se_status = concat (replicate 12 [0x40, 0x60]),
     se_in = [], se_out = []\<rparr>"

lemma serial_numbers_witness:
  "se_ready demo_port \<and> (\<exists>ds t. serial_write_dec 4096 demo_port = Some t \<and> se_out t = se_out demo_port @ map (Pair COM1) ds
    \<and> number_value 10 0 ds = 4096)"
proof -
  have r: "se_ready demo_port" by (simp add: demo_port_def serial_init_def se_outb_def)
  have "empties demo_port = 12" by code_simp
  then show ?thesis using serial_numbers [OF r, of 4096] r by (fastforce split: option.splits)
qed

end
