(* ===== verification/KHeap.thy ===== *)
theory KHeap
  imports RetaBase
begin

text \<open>
  The kernel heap, \<^verbatim>\<open>kernel/kheap.c\<close> and \<^verbatim>\<open>include/kernel/kheap.h\<close>: a first-fit allocator over a
  singly linked list of block headers.  The list in memory is represented by the HOL list of its
  headers in \<open>next\<close> order, each with the address it stands at; \<open>first_block\<close> is the head.  The
  globals \<open>kheap_start\<close>, \<open>kheap_end\<close>, \<open>kheap_max\<close> and \<open>kheap_inited\<close> are fields of the state.
  \<open>heap_area\<close> is the part of \<^verbatim>\<open>kheap_init\<close> that concerns the heap; the function also calls \<^verbatim>\<open>pmm_init()\<close>, and the whole of
  it, on the heap and the frame allocator together, is \<open>kheap_init\<close> in the theory \<open>FrameBitmap\<close>.

  The lemmas show that the blocks tile the heap area, that allocation returns a block of its own
  inside it, that freeing coalesces so that no two free neighbours remain, and that freeing what
  was just allocated restores the heap exactly.
\<close>

subsection \<open>State\<close>

record hblock =
  hb_addr :: addr    \<comment> \<open>where the header stands\<close>
  hb_size :: u32     \<comment> \<open>payload size\<close>
  hb_used :: bool

record kheap =
  kh_blocks :: "hblock list"
  kh_start :: u32
  kh_end :: u32
  kh_max :: u32
  kh_inited :: bool

definition KHEAP_START :: u32 where "KHEAP_START = 0xC0000000"
definition KHEAP_INITIAL_SIZE :: u32 where "KHEAP_INITIAL_SIZE = 0x100000"
definition KHEAP_ALIGN :: u32 where "KHEAP_ALIGN = 0x1000"

text \<open>\<^verbatim>\<open>sizeof(heap_block_t)\<close>: a pointer, a size and a byte, padded to the alignment of 4.\<close>

definition HDR :: u32 where "HDR = 12"

text \<open>The static initialisers of the file's globals.\<close>

definition kheap_boot :: kheap where
  "kheap_boot = \<lparr>kh_blocks = [], kh_start = 0, kh_end = 0, kh_max = 0, kh_inited = False\<rparr>"

subsection \<open>Operations\<close>

definition align_up :: "u32 \<Rightarrow> u32 \<Rightarrow> u32" where
  "align_up a al = (a + al - 1) AND NOT (al - 1)"

text \<open>What \<^verbatim>\<open>kheap_init\<close> does to the heap, and what a \<^verbatim>\<open>kmalloc\<close> of a heap that was not initialised finds.\<close>

definition heap_area :: "kheap \<Rightarrow> kheap" where
  "heap_area h =
     (if kh_inited h then h
      else let st = KHEAP_START; en = st + KHEAP_INITIAL_SIZE in
        \<lparr>kh_blocks = [\<lparr>hb_addr = st, hb_size = en - st - HDR, hb_used = False\<rparr>],
         kh_start = st, kh_end = en, kh_max = st + 0xFFFFF, kh_inited = True\<rparr>)"

text \<open>
  The search loop of \<^verbatim>\<open>kmalloc\<close>: the first free block that is large enough is taken, and split
  when the rest can hold a header and more than four bytes.
\<close>

fun heap_fit :: "u32 \<Rightarrow> hblock list \<Rightarrow> (addr \<times> hblock list) option" where
  "heap_fit sz [] = None"
| "heap_fit sz (b # bs) =
     (if \<not> hb_used b \<and> sz \<le> hb_size b then
        (if sz + HDR + 4 < hb_size b then
           Some (hb_addr b + HDR,
             b\<lparr>hb_size := sz, hb_used := True\<rparr>
             # \<lparr>hb_addr = hb_addr b + HDR + sz, hb_size = hb_size b - sz - HDR, hb_used = False\<rparr>
             # bs)
         else Some (hb_addr b + HDR, b\<lparr>hb_used := True\<rparr> # bs))
      else map_option (\<lambda>(p, bs'). (p, b # bs')) (heap_fit sz bs))"

definition kmalloc :: "u32 \<Rightarrow> kheap \<Rightarrow> addr \<times> kheap" where
  "kmalloc size0 h0 =
     (let h = (if kh_inited h0 then h0 else heap_area h0);
          sz = (if size0 < 4 then 4 else size0)
      in case heap_fit sz (kh_blocks h) of
           Some (p, bs) \<Rightarrow> (p, h\<lparr>kh_blocks := bs\<rparr>)
         | None \<Rightarrow>
             let new_size = align_up (sz + HDR) KHEAP_ALIGN in
             if kh_max h < kh_end h + new_size then (0, h)
             else (kh_end h + HDR,
                   h\<lparr>kh_blocks := kh_blocks h @ [\<lparr>hb_addr = kh_end h, hb_size = sz, hb_used = True\<rparr>],
                     kh_end := kh_end h + new_size\<rparr>))"

text \<open>The merge loop of \<^verbatim>\<open>kfree\<close>: one pass that joins a free block with its free successors.\<close>

fun heap_merge :: "hblock list \<Rightarrow> hblock list" where
  "heap_merge (a # b # bs) =
     (if \<not> hb_used a \<and> \<not> hb_used b
      then heap_merge (a\<lparr>hb_size := hb_size a + (hb_size b + HDR)\<rparr> # bs)
      else a # heap_merge (b # bs))"
| "heap_merge bs = bs"

definition heap_release :: "addr \<Rightarrow> hblock list \<Rightarrow> hblock list" where
  "heap_release a bs = map (\<lambda>b. if hb_addr b = a then b\<lparr>hb_used := False\<rparr> else b) bs"

text \<open>
  A pointer inside the heap that is not the payload of a block makes \<^verbatim>\<open>kfree\<close> clear a byte of some
  other object: \<open>None\<close>.
\<close>

definition kfree :: "addr \<Rightarrow> kheap \<Rightarrow> kheap option" where
  "kfree p h =
     (if p = 0 \<or> p < kh_start h \<or> kh_end h \<le> p then Some h
      else if p - HDR \<in> hb_addr ` set (kh_blocks h)
        then Some (h\<lparr>kh_blocks := heap_merge (heap_release (p - HDR) (kh_blocks h))\<rparr>)
        else None)"

text \<open>
  \<^verbatim>\<open>krealloc\<close> returns the new pointer and the number of bytes its \<^verbatim>\<open>memcpy\<close> moves from the old
  block.
\<close>

definition heap_block_at :: "addr \<Rightarrow> kheap \<Rightarrow> hblock option" where
  "heap_block_at p h = find (\<lambda>b. hb_addr b = p - HDR) (kh_blocks h)"

definition krealloc :: "addr \<Rightarrow> u32 \<Rightarrow> kheap \<Rightarrow> (addr \<times> u32 \<times> kheap) option" where
  "krealloc p sz h =
     (if p = 0 then (case kmalloc sz h of (q, h1) \<Rightarrow> Some (q, 0, h1))
      else if sz = 0 then map_option (\<lambda>h1. (0, 0, h1)) (kfree p h)
      else do {
        blk \<leftarrow> heap_block_at p h;
        if sz \<le> hb_size blk then Some (p, 0, h)
        else (case kmalloc sz h of (q, h1) \<Rightarrow>
          if q = 0 then Some (0, 0, h1)
          else do {
            blk1 \<leftarrow> heap_block_at p h1;
            h2 \<leftarrow> kfree p h1;
            Some (q, hb_size blk1, h2)
          })
      })"

text \<open>\<^verbatim>\<open>kcalloc\<close> returns the pointer and how many bytes it clears.\<close>

definition kcalloc :: "u32 \<Rightarrow> u32 \<Rightarrow> kheap \<Rightarrow> addr \<times> u32 \<times> kheap" where
  "kcalloc num sz h =
     (let total = num * sz in
      case kmalloc total h of (p, h1) \<Rightarrow> (p, (if p \<noteq> 0 then total else 0), h1))"

definition kmalloc_a :: "u32 \<Rightarrow> kheap \<Rightarrow> addr \<times> kheap" where
  "kmalloc_a sz h = kmalloc (align_up sz KHEAP_ALIGN) h"

text \<open>\<^verbatim>\<open>kmalloc_ap\<close> with a non-null \<^verbatim>\<open>phys\<close>: the pointer and what is stored in \<^verbatim>\<open>*phys\<close>.\<close>

definition kmalloc_ap :: "u32 \<Rightarrow> kheap \<Rightarrow> addr \<times> u32 \<times> kheap" where
  "kmalloc_ap sz h = (case kmalloc_a sz h of (p, h1) \<Rightarrow> (p, p - 0xC0000000, h1))"

subsection \<open>Well-formed heaps\<close>

text \<open>The blocks, of at least four bytes each, lie one after the other from \<open>a\<close> to \<open>e\<close>.\<close>

fun tiles :: "nat \<Rightarrow> hblock list \<Rightarrow> nat \<Rightarrow> bool" where
  "tiles a [] e \<longleftrightarrow> a = e"
| "tiles a (b # bs) e \<longleftrightarrow> unat (hb_addr b) = a \<and> 4 \<le> unat (hb_size b) \<and> tiles (a + 12 + unat (hb_size b)) bs e"

fun no_adjacent_free :: "hblock list \<Rightarrow> bool" where
  "no_adjacent_free (a # b # bs) \<longleftrightarrow> (hb_used a \<or> hb_used b) \<and> no_adjacent_free (b # bs)"
| "no_adjacent_free bs \<longleftrightarrow> True"

definition kheap_inv :: "kheap \<Rightarrow> bool" where
  "kheap_inv h \<longleftrightarrow> kh_inited h \<and> kh_start h = KHEAP_START
     \<and> kh_end h = KHEAP_START + KHEAP_INITIAL_SIZE \<and> kh_max h = KHEAP_START + 0xFFFFF
     \<and> tiles (unat KHEAP_START) (kh_blocks h) (unat (KHEAP_START + KHEAP_INITIAL_SIZE))
     \<and> no_adjacent_free (kh_blocks h)"

text \<open>The payload addresses of the blocks in use, with their sizes.\<close>

definition extents :: "kheap \<Rightarrow> (addr \<times> u32) set" where
  "extents h = (\<lambda>b. (hb_addr b + HDR, hb_size b)) ` {b \<in> set (kh_blocks h). hb_used b}"

definition live :: "kheap \<Rightarrow> addr set" where
  "live h = fst ` extents h"

text \<open>
  Requests below this bound cannot wrap the 32-bit sum that \<^verbatim>\<open>kmalloc\<close> compares with \<^verbatim>\<open>kheap_max\<close>.
\<close>

definition kmalloc_ok :: "u32 \<Rightarrow> bool" where
  "kmalloc_ok sz \<longleftrightarrow> sz \<le> 0x3FEFEFF4"

lemmas heap_consts = KHEAP_START_def KHEAP_INITIAL_SIZE_def KHEAP_ALIGN_def HDR_def

subsection \<open>Tiling\<close>

lemma tiles_le: "tiles a bs e \<Longrightarrow> a \<le> e"
  by (induction a bs e rule: tiles.induct) auto

lemma tiles_append: "tiles a (xs @ ys) e \<longleftrightarrow> (\<exists>m. tiles a xs m \<and> tiles m ys e)"
  by (induction xs arbitrary: a) auto

lemma tiles_addr_bounds:
  "tiles a bs e \<Longrightarrow> b \<in> set bs \<Longrightarrow> a \<le> unat (hb_addr b) \<and> unat (hb_addr b) + 12 + unat (hb_size b) \<le> e
   \<and> 4 \<le> unat (hb_size b)"
proof (induction a bs e rule: tiles.induct)
  case (2 a b bs e)
  then show ?case using tiles_le [of "a + 12 + unat (hb_size b)" bs e] by auto
qed simp

lemma tiles_addr_gt: "tiles (Suc a) bs e \<Longrightarrow> b \<in> set bs \<Longrightarrow> a < unat (hb_addr b)"
  by (drule (1) tiles_addr_bounds) simp

lemma tiles_distinct: "tiles a bs e \<Longrightarrow> distinct (map hb_addr bs)"
proof (induction a bs e rule: tiles.induct)
  case (2 a b bs e)
  then have "\<forall>c\<in>set bs. hb_addr c \<noteq> hb_addr b"
    by (force dest: tiles_addr_bounds)
  with 2 show ?case by auto
qed simp

lemma tiles_release [simp]: "tiles a (heap_release p bs) e \<longleftrightarrow> tiles a bs e"
  by (induction bs arbitrary: a) (auto simp: heap_release_def)

text \<open>Adding a small constant to the address of a header does not wrap inside the heap area.\<close>

lemma unat_add_small: "unat a + unat b < 2 ^ 32 \<Longrightarrow> unat (a + b :: u32) = unat a + unat b"
  by (simp add: unat_word_ariths)

lemma tiles_merge:
  "tiles a bs e \<Longrightarrow> e < 2 ^ 32 \<Longrightarrow> tiles a (heap_merge bs) e"
proof (induction bs arbitrary: a rule: heap_merge.induct)
  case (1 x y bs)
  show ?case
  proof (cases "\<not> hb_used x \<and> \<not> hb_used y")
    case True
    have "a + 12 + unat (hb_size x) + 12 + unat (hb_size y) \<le> e"
      using 1(3) tiles_le by fastforce
    then have "unat (hb_size x + (hb_size y + HDR)) = unat (hb_size x) + (unat (hb_size y) + 12)"
      using 1(4) by (simp add: unat_add_small HDR_def)
    then have "tiles a (x\<lparr>hb_size := hb_size x + (hb_size y + HDR)\<rparr> # bs) e"
      using 1(3) by (simp add: algebra_simps)
    with True 1(1) [OF True _ 1(4)] show ?thesis by simp
  next
    case False
    with 1 show ?thesis by auto
  qed
qed auto

lemma used_merge [simp]: "filter hb_used (heap_merge bs) = filter hb_used bs"
  by (induction bs rule: heap_merge.induct) auto

lemma merge_head:
  "heap_merge (b # bs) = c # cs \<Longrightarrow> hb_used c = hb_used b"
proof (induction "b # bs" arbitrary: b bs rule: heap_merge.induct)
  case (1 a b bs)
  then show ?case by (auto split: if_splits)
qed auto

lemma merge_nonempty: "heap_merge (b # bs) \<noteq> []"
  by (induction "b # bs" arbitrary: b bs rule: heap_merge.induct) auto

lemma no_adjacent_Cons:
  "no_adjacent_free (a # bs) \<longleftrightarrow> (bs = [] \<or> hb_used a \<or> hb_used (hd bs)) \<and> no_adjacent_free bs"
  by (cases bs) auto

lemma no_adjacent_merge: "no_adjacent_free (heap_merge bs)"
proof (induction bs rule: heap_merge.induct)
  case (1 a b bs)
  obtain c cs where m: "heap_merge (b # bs) = c # cs"
    using merge_nonempty [of b bs] by (cases "heap_merge (b # bs)") auto
  with 1 merge_head [OF m] show ?case by auto
qed auto

lemma merge_id: "no_adjacent_free bs \<Longrightarrow> heap_merge bs = bs"
  by (induction bs rule: heap_merge.induct) auto

lemma merge_Cons_id:
  assumes "hb_used a \<or> bs = [] \<or> hb_used (hd bs)"
  shows "heap_merge (a # bs) = a # heap_merge bs"
  using assms by (cases bs) auto

subsection \<open>The search loop\<close>

lemma heap_fit_no_adjacent:
  "heap_fit sz bs = Some (p, bs') \<Longrightarrow> no_adjacent_free bs \<Longrightarrow>
   no_adjacent_free bs' \<and> bs' \<noteq> [] \<and> (hb_used (hd bs) \<longrightarrow> hb_used (hd bs'))"
proof (induction sz bs arbitrary: p bs' rule: heap_fit.induct)
  case (2 sz b bs)
  then show ?case by (auto simp: no_adjacent_Cons split: if_splits)
qed simp

lemma heap_fit_tiles:
  "heap_fit sz bs = Some (p, bs') \<Longrightarrow> tiles a bs e \<Longrightarrow> 4 \<le> a \<Longrightarrow> 4 \<le> unat sz \<Longrightarrow>
   e < 2 ^ 32 \<Longrightarrow> tiles a bs' e"
proof (induction sz bs arbitrary: p bs' a rule: heap_fit.induct)
  case (2 sz b bs)
  have e: "a + 12 + unat (hb_size b) \<le> e" and a: "unat (hb_addr b) = a"
    using 2(3) tiles_le by fastforce+
  show ?case
  proof (cases "\<not> hb_used b \<and> sz \<le> hb_size b")
    case fit: True
    then have le: "unat sz \<le> unat (hb_size b)" by (simp add: word_le_nat_alt)
    show ?thesis
    proof (cases "sz + HDR + 4 < hb_size b")
      case True
      have sp: "unat (sz + HDR + 4) = unat sz + 16"
        using le e 2(4,5,6) by (simp add: unat_add_small HDR_def unat_word_ariths)
      with True have lt: "unat sz + 16 < unat (hb_size b)" by (simp add: word_less_nat_alt)
      have "unat (hb_addr b + HDR + sz) = a + 12 + unat sz"
        using lt e 2(4,5,6) a by (simp add: unat_add_small HDR_def unat_word_ariths)
      moreover have "unat (hb_size b - sz - HDR) = unat (hb_size b) - unat sz - 12"
        using lt by (simp add: HDR_def unat_sub_if' word_less_nat_alt word_le_nat_alt)
      ultimately show ?thesis using fit True 2 lt by (auto simp: ac_simps)
    qed (use fit 2 in auto)
  next
    case False
    with 2 show ?thesis by (auto split: if_splits)
  qed
qed simp

lemma heap_fit_None: "heap_fit sz bs = None \<longleftrightarrow> (\<forall>b\<in>set bs. hb_used b \<or> hb_size b < sz)"
  by (induction sz bs rule: heap_fit.induct) auto


text \<open>A successful search turns exactly one block into a used one, at the returned address.\<close>

definition payloads :: "hblock list \<Rightarrow> (addr \<times> u32) set" where
  "payloads bs = (\<lambda>b. (hb_addr b + HDR, hb_size b)) ` {b \<in> set bs. hb_used b}"

lemma payloads_simps [simp]:
  "payloads [] = {}"
  "payloads (b # bs) = (if hb_used b then insert (hb_addr b + HDR, hb_size b) (payloads bs) else payloads bs)"
  by (auto simp: payloads_def)

lemma payloads_append [simp]: "payloads (xs @ ys) = payloads xs \<union> payloads ys"
  by (auto simp: payloads_def)

lemma payloads_merge [simp]: "payloads (heap_merge bs) = payloads bs"
proof -
  have "payloads bs = (\<lambda>b. (hb_addr b + HDR, hb_size b)) ` set (filter hb_used bs)" for bs
    by (auto simp: payloads_def)
  then show ?thesis by (simp only: used_merge)
qed

lemma heap_fit_payloads:
  "heap_fit sz bs = Some (p, bs') \<Longrightarrow>
   \<exists>n. sz \<le> n \<and> payloads bs' = insert (p, n) (payloads bs) \<and> p - HDR \<in> hb_addr ` {b \<in> set bs. \<not> hb_used b}"
proof (induction sz bs arbitrary: p bs' rule: heap_fit.induct)
  case (2 sz b bs)
  show ?case
  proof (cases "\<not> hb_used b \<and> sz \<le> hb_size b")
    case True
    with 2(2) show ?thesis by (auto split: if_splits)
  next
    case False
    with 2(2) obtain bs'' where bs'': "heap_fit sz bs = Some (p, bs'')" "bs' = b # bs''" by auto
    from 2(1) [OF False bs''(1)] bs''(2) show ?thesis by auto
  qed
qed simp

text \<open>Releasing the block the search returned and merging restores the list.\<close>

lemma release_notin: "p \<notin> hb_addr ` set bs \<Longrightarrow> heap_release p bs = bs"
  by (induction bs) (auto simp: heap_release_def)

lemma hd_release_used: "bs \<noteq> [] \<Longrightarrow> hb_used (hd bs) \<Longrightarrow> hb_addr (hd bs) \<noteq> p \<Longrightarrow> hb_used (hd (heap_release p bs))"
  by (cases bs) (auto simp: heap_release_def)

lemma heap_release_Cons:
  "heap_release p (b # bs) = (if hb_addr b = p then b\<lparr>hb_used := False\<rparr> else b) # heap_release p bs"
  by (simp add: heap_release_def)

lemma heap_release_Nil [simp]: "heap_release p bs = [] \<longleftrightarrow> bs = []" "heap_release p [] = []"
  by (simp_all add: heap_release_def)

lemma heap_fit_hd:
  "heap_fit sz bs = Some (p, bs') \<Longrightarrow> bs \<noteq> [] \<and> bs' \<noteq> [] \<and> (hb_used (hd bs) \<longrightarrow> hd bs' = hd bs)"
  by (cases bs) (auto split: if_splits)

lemma heap_fit_release:
  assumes "heap_fit sz bs = Some (p, bs')" "tiles a bs e" "4 \<le> a" "e < 2 ^ 32" "no_adjacent_free bs"
  shows "heap_merge (heap_release (p - HDR) bs') = bs"
  using assms
proof (induction sz bs arbitrary: p bs' a rule: heap_fit.induct)
  case (2 sz b bs)
  have dist: "hb_addr b \<notin> hb_addr ` set bs"
    using tiles_distinct [OF 2(3)] by auto
  have e: "a + 12 + unat (hb_size b) \<le> e" and a: "unat (hb_addr b) = a"
    using 2(3) tiles_le by fastforce+
  show ?case
  proof (cases "\<not> hb_used b \<and> sz \<le> hb_size b")
    case fit: True
    then have free: "\<not> hb_used b" by simp
    have nx: "bs = [] \<or> hb_used (hd bs)" and na: "no_adjacent_free bs"
      using 2(6) free by (auto simp: no_adjacent_Cons)
    have idb: "heap_merge (b # bs) = b # bs"
      using 2(6) by (rule merge_id)
    have bu: "b\<lparr>hb_used := False\<rparr> = b" using free by simp
    show ?thesis
    proof (cases "sz + HDR + 4 < hb_size b")
      case True
      let ?r = "\<lparr>hb_addr = hb_addr b + HDR + sz, hb_size = hb_size b - sz - HDR, hb_used = False\<rparr>"
      have "heap_merge (heap_release (p - HDR) bs') = heap_merge (b\<lparr>hb_used := False\<rparr> # bs)"
        using 2(2) fit True dist by (auto simp: heap_release_Cons release_notin)
      then show ?thesis by (simp only: bu idb)
    next
      case False
      then have "heap_merge (heap_release (p - HDR) bs') = heap_merge (b\<lparr>hb_used := False\<rparr> # bs)"
        using 2(2) fit dist by (auto simp: heap_release_Cons release_notin)
      then show ?thesis by (simp only: bu idb)
    qed
  next
    case False
    then obtain bs'' where bs'': "heap_fit sz bs = Some (p, bs'')" "bs' = b # bs''"
      using 2(2) by auto
    have pa: "p - HDR \<in> hb_addr ` set bs"
      using heap_fit_payloads [OF bs''(1)] by auto
    then have ne: "hb_addr b \<noteq> p - HDR" using dist by auto
    have IH: "heap_merge (heap_release (p - HDR) bs'') = bs"
      using 2(1) [OF False bs''(1), of "a + 12 + unat (hb_size b)"] 2(3-6)
      by (auto simp: no_adjacent_Cons)
    have "hb_used b \<or> hb_used (hd (heap_release (p - HDR) bs''))"
    proof (cases "hb_used b")
      case False
      then have u: "hb_used (hd bs)" and nb: "bs \<noteq> []"
        using 2(6) heap_fit_hd [OF bs''(1)] by (auto simp: no_adjacent_Cons)
      have hd: "hd bs'' = hd bs" "bs'' \<noteq> []" using heap_fit_hd [OF bs''(1)] u by auto
      from heap_fit_payloads [OF bs''(1)] have "p - HDR \<in> hb_addr ` {b \<in> set bs. \<not> hb_used b}" by auto
      moreover have "distinct (map hb_addr bs)" using tiles_distinct [OF 2(3)] by simp
      ultimately have "hb_addr (hd bs) \<noteq> p - HDR"
        using u nb by (cases bs) auto
      then show ?thesis using hd_release_used [of bs'' "p - HDR"] hd u by auto
    qed simp
    then show ?thesis
      using bs''(2) ne IH by (auto simp: heap_release_Cons merge_Cons_id)
  qed
qed simp


subsection \<open>The operations keep the heap well formed\<close>

lemma heap_area_inv: "kheap_inv (heap_area kheap_boot)"
  by (simp add: kheap_inv_def heap_area_def kheap_boot_def heap_consts)

lemma align_up_bound:
  assumes "sz \<le> 0x3FEFF000"
  shows "align_up sz KHEAP_ALIGN \<le> 0x3FEFFFFF"
proof -
  have "sz + 0xFFF \<le> 0x3FEFFFFF"
    using assms by (simp add: word_le_nat_alt unat_word_ariths)
  then show ?thesis
    unfolding align_up_def heap_consts
    by (intro order_trans [OF word_and_le2]) (simp add: algebra_simps)
qed

lemma kheap_no_growth:
  assumes "kheap_inv h" "kmalloc_ok sz"
  shows "kh_max h < kh_end h + align_up ((if sz < 4 then 4 else sz) + HDR) KHEAP_ALIGN"
proof -
  let ?sz = "if sz < 4 then 4 else sz"
  have "?sz + HDR \<le> 0x3FEFF000"
    using assms(2) by (auto simp: kmalloc_ok_def HDR_def word_le_nat_alt unat_word_ariths)
  then have le: "unat (align_up (?sz + HDR) KHEAP_ALIGN) \<le> 0x3FEFFFFF"
    using align_up_bound by (simp add: word_le_nat_alt)
  then have "unat (0xC0100000 + align_up (?sz + HDR) KHEAP_ALIGN)
      = 0xC0100000 + unat (align_up (?sz + HDR) KHEAP_ALIGN)"
    by (subst unat_add_small) simp_all
  then show ?thesis
    using assms(1) by (simp add: kheap_inv_def heap_consts word_less_nat_alt)
qed

lemma kmalloc_cases [consumes 2, case_names fail fit]:
  assumes inv: "kheap_inv h" and ok: "kmalloc_ok sz"
  obtains (fail) "kmalloc sz h = (0, h)" "heap_fit (if sz < 4 then 4 else sz) (kh_blocks h) = None"
  | (fit) p bs where "kmalloc sz h = (p, h\<lparr>kh_blocks := bs\<rparr>)"
      "heap_fit (if sz < 4 then 4 else sz) (kh_blocks h) = Some (p, bs)"
proof -
  have "kh_inited h" using inv by (simp add: kheap_inv_def)
  then show thesis
    using that kheap_no_growth [OF inv ok]
    by (cases "heap_fit (if sz < 4 then 4 else sz) (kh_blocks h)")
      (auto simp: kmalloc_def Let_def simp del: heap_fit.simps)
qed

lemma kmalloc_inv:
  assumes "kheap_inv h" "kmalloc_ok sz"
  shows "kheap_inv (snd (kmalloc sz h))"
  using assms
proof (cases rule: kmalloc_cases)
  case (fit p bs)
  have "tiles (unat KHEAP_START) bs (unat (KHEAP_START + KHEAP_INITIAL_SIZE))"
    using assms(1) by (intro heap_fit_tiles [OF fit(2)])
      (auto simp: kheap_inv_def heap_consts word_less_nat_alt)
  then show ?thesis
    using assms(1) fit(1) heap_fit_no_adjacent [OF fit(2)] by (simp add: kheap_inv_def)
qed (use assms in simp)

lemma extents_payloads: "extents h = payloads (kh_blocks h)"
  by (simp add: extents_def payloads_def)

lemma block_bounds:
  assumes "kheap_inv h" "b \<in> set (kh_blocks h)"
  shows "unat (hb_addr b + HDR) = unat (hb_addr b) + 12"
    and "0xC000000C \<le> unat (hb_addr b + HDR)" and "unat (hb_addr b + HDR) + unat (hb_size b) \<le> 0xC0100000"
    and "hb_addr b + HDR \<noteq> 0" and "4 \<le> unat (hb_size b)"
proof -
  have t: "0xC0000000 \<le> unat (hb_addr b) \<and> unat (hb_addr b) + 12 + unat (hb_size b) \<le> 0xC0100000
    \<and> 4 \<le> unat (hb_size b)"
    using tiles_addr_bounds [OF _ assms(2)] assms(1) by (fastforce simp: kheap_inv_def heap_consts)
  then show u: "unat (hb_addr b + HDR) = unat (hb_addr b) + 12"
    by (simp add: unat_add_small HDR_def)
  from t u show "0xC000000C \<le> unat (hb_addr b + HDR)"
    "unat (hb_addr b + HDR) + unat (hb_size b) \<le> 0xC0100000" "4 \<le> unat (hb_size b)" by simp_all
  from t u show "hb_addr b + HDR \<noteq> 0" by (metis add_is_0 unat_0 zero_neq_numeral)
qed


lemma extents_live: "live h = fst ` payloads (kh_blocks h)"
  by (simp add: live_def extents_payloads)

lemma live_nonzero: "kheap_inv h \<Longrightarrow> p \<in> live h \<Longrightarrow> p \<noteq> 0"
  using block_bounds(4) by (auto simp: extents_live payloads_def)

text \<open>Two blocks in use never overlap.\<close>

lemma tiles_disjoint:
  assumes "tiles a bs e" "b \<in> set bs" "c \<in> set bs" "hb_addr b \<noteq> hb_addr c"
  shows "unat (hb_addr b) + 12 + unat (hb_size b) \<le> unat (hb_addr c)
       \<or> unat (hb_addr c) + 12 + unat (hb_size c) \<le> unat (hb_addr b)"
  using assms
proof (induction a bs e rule: tiles.induct)
  case (2 a x bs e)
  then show ?case by (auto dest: tiles_addr_bounds)
qed simp

lemma kmalloc_fit_fresh:
  assumes inv: "kheap_inv h" and f: "heap_fit sz (kh_blocks h) = Some (p, bs)"
  shows "p \<noteq> 0" "p \<notin> live h"
proof -
  obtain b where b: "b \<in> set (kh_blocks h)" "\<not> hb_used b" "p = hb_addr b + HDR"
    using heap_fit_payloads [OF f] by (force simp: algebra_simps)
  then show "p \<noteq> 0" using block_bounds(4) [OF inv] by simp
  show "p \<notin> live h"
  proof
    assume "p \<in> live h"
    then obtain c where c: "c \<in> set (kh_blocks h)" "hb_used c" "hb_addr c = hb_addr b"
      using b(3) by (auto simp: extents_live payloads_def)
    have "distinct (map hb_addr (kh_blocks h))"
      using inv tiles_distinct by (auto simp: kheap_inv_def)
    then have "c = b" using b(1) c(1,3) by (auto dest: distinct_map [THEN iffD1] inj_onD)
    with b(2) c(2) show False by simp
  qed
qed

lemma kmalloc_extents:
  assumes "kheap_inv h" "kmalloc_ok sz" "fst (kmalloc sz h) \<noteq> 0"
  shows "\<exists>n. sz \<le> n \<and> extents (snd (kmalloc sz h)) = insert (fst (kmalloc sz h), n) (extents h)
     \<and> fst (kmalloc sz h) \<notin> live h"
  using assms(1,2)
proof (cases rule: kmalloc_cases)
  case (fit p bs)
  obtain n where n: "(if sz < 4 then 4 else sz) \<le> n" "payloads bs = insert (p, n) (payloads (kh_blocks h))"
    using heap_fit_payloads [OF fit(2)] by blast
  have "sz \<le> n" using n(1) by (auto split: if_splits)
  then show ?thesis
    using n(2) fit(1) kmalloc_fit_fresh [OF assms(1) fit(2)] by (auto simp: extents_payloads)
qed (use assms in simp)

lemma kmalloc_fail:
  assumes "kheap_inv h" "kmalloc_ok sz" "fst (kmalloc sz h) = 0"
  shows "snd (kmalloc sz h) = h"
  using assms(1,2)
proof (cases rule: kmalloc_cases)
  case (fit p bs)
  then show ?thesis using kmalloc_fit_fresh(1) [OF assms(1) fit(2)] assms(3) by simp
qed simp

lemma kfree_live:
  assumes inv: "kheap_inv h" and p: "p \<in> live h"
  shows "kfree p h = Some (h\<lparr>kh_blocks := heap_merge (heap_release (p - HDR) (kh_blocks h))\<rparr>)"
proof -
  obtain b where b: "b \<in> set (kh_blocks h)" "p = hb_addr b + HDR"
    using p by (auto simp: extents_live payloads_def)
  have r: "kh_start h = 0xC0000000" "kh_end h = 0xC0100000"
    using inv by (simp_all add: kheap_inv_def heap_consts)
  have "0xC000000C \<le> unat p" "unat p < 0xC0100000" "p \<noteq> 0"
    using block_bounds [OF inv b(1)] b(2) by simp_all
  then have "\<not> p < kh_start h" "\<not> kh_end h \<le> p" "p \<noteq> 0"
    by (simp_all add: r word_less_nat_alt word_le_nat_alt)
  moreover have "p - HDR \<in> hb_addr ` set (kh_blocks h)" using b by auto
  ultimately show ?thesis by (simp add: kfree_def)
qed

lemma payloads_release:
  "distinct (map hb_addr bs) \<Longrightarrow>
   payloads (heap_release a bs) = {x \<in> payloads bs. fst x \<noteq> a + HDR}"
  by (induction bs) (auto simp: heap_release_Cons release_notin payloads_def)

lemma kfree_correct:
  assumes inv: "kheap_inv h" and p: "p \<in> live h"
  shows "\<exists>h'. kfree p h = Some h' \<and> kheap_inv h' \<and> extents h' = {x \<in> extents h. fst x \<noteq> p}"
proof -
  let ?h = "h\<lparr>kh_blocks := heap_merge (heap_release (p - HDR) (kh_blocks h))\<rparr>"
  have t: "tiles (unat KHEAP_START) (kh_blocks h) (unat (KHEAP_START + KHEAP_INITIAL_SIZE))"
    using inv by (simp add: kheap_inv_def)
  have "kheap_inv ?h"
    using inv tiles_merge [of _ "heap_release (p - HDR) (kh_blocks h)"]
    by (simp add: kheap_inv_def no_adjacent_merge heap_consts)
  moreover have "extents ?h = {x \<in> extents h. fst x \<noteq> p}"
    using payloads_release [OF tiles_distinct [OF t], of "p - HDR"] by (simp add: extents_payloads)
  ultimately show ?thesis using kfree_live [OF assms] by blast
qed

lemma kmalloc_kfree_restore:
  assumes inv: "kheap_inv h" and ok: "kmalloc_ok sz" and p: "fst (kmalloc sz h) \<noteq> 0"
  shows "kfree (fst (kmalloc sz h)) (snd (kmalloc sz h)) = Some h"
  using inv ok
proof (cases rule: kmalloc_cases)
  case (fit q bs)
  have "q \<in> live (h\<lparr>kh_blocks := bs\<rparr>)"
    using heap_fit_payloads [OF fit(2)] by (auto simp: extents_live)
  moreover have "kheap_inv (h\<lparr>kh_blocks := bs\<rparr>)"
    using kmalloc_inv [OF inv ok] fit(1) by simp
  moreover have "heap_merge (heap_release (q - HDR) bs) = kh_blocks h"
    using inv by (intro heap_fit_release [OF fit(2)]) (auto simp: kheap_inv_def heap_consts)
  ultimately show ?thesis using fit(1) kfree_live by simp
qed (use p in simp)

text \<open>Allocation fails exactly when no free block is large enough.\<close>

lemma kmalloc_null_iff:
  assumes "kheap_inv h" "kmalloc_ok sz"
  shows "fst (kmalloc sz h) = 0 \<longleftrightarrow>
    (\<forall>b\<in>set (kh_blocks h). hb_used b \<or> hb_size b < (if sz < 4 then 4 else sz))"
  using assms
proof (cases rule: kmalloc_cases)
  case fail
  then show ?thesis using heap_fit_None by auto
next
  case (fit p bs)
  then have "\<not> (\<forall>b\<in>set (kh_blocks h). hb_used b \<or> hb_size b < (if sz < 4 then 4 else sz))"
    using heap_fit_None [of "if sz < 4 then 4 else sz" "kh_blocks h"] by (metis option.distinct(1))
  with fit kmalloc_fit_fresh(1) [OF assms(1) fit(2)] show ?thesis by simp
qed

text \<open>The live extents lie inside the heap and are pairwise disjoint.\<close>

lemma extents_bounds:
  assumes "kheap_inv h" "(p, n) \<in> extents h"
  shows "0xC000000C \<le> unat p \<and> unat p + unat n \<le> 0xC0100000"
  using assms block_bounds(2,3) by (fastforce simp: extents_payloads payloads_def)

lemma extents_disjoint:
  assumes inv: "kheap_inv h" and "(p, n) \<in> extents h" "(q, m) \<in> extents h" "p \<noteq> q"
  shows "unat p + unat n \<le> unat q \<or> unat q + unat m \<le> unat p"
proof -
  obtain b c where bc: "b \<in> set (kh_blocks h)" "c \<in> set (kh_blocks h)"
    "p = hb_addr b + HDR" "n = hb_size b" "q = hb_addr c + HDR" "m = hb_size c"
    using assms by (auto simp: extents_payloads payloads_def)
  have "tiles (unat KHEAP_START) (kh_blocks h) (unat (KHEAP_START + KHEAP_INITIAL_SIZE))"
    using inv by (simp add: kheap_inv_def)
  from tiles_disjoint [OF this bc(1,2)] assms(4) show ?thesis
    using bc block_bounds(1) [OF inv bc(1)] block_bounds(1) [OF inv bc(2)] by auto
qed


subsection \<open>The allocator interface\<close>

text \<open>
  What the rest of the kernel relies on: an allocation that succeeds returns a non-null address
  that no live object has, one that fails changes nothing, and a live address can be freed.
\<close>

locale allocator =
  fixes alloc :: "'n \<Rightarrow> 'h \<Rightarrow> addr \<times> 'h"
    and free :: "addr \<Rightarrow> 'h \<Rightarrow> 'h option"
    and inv :: "'h \<Rightarrow> bool"
    and alive :: "'h \<Rightarrow> addr set"
    and request :: "'n \<Rightarrow> bool"
  assumes alloc_inv: "inv h \<Longrightarrow> request n \<Longrightarrow> inv (snd (alloc n h))"
    and alloc_fresh: "inv h \<Longrightarrow> request n \<Longrightarrow> fst (alloc n h) \<noteq> 0 \<Longrightarrow>
      fst (alloc n h) \<notin> alive h \<and> alive (snd (alloc n h)) = insert (fst (alloc n h)) (alive h)"
    and alloc_fail: "inv h \<Longrightarrow> request n \<Longrightarrow> fst (alloc n h) = 0 \<Longrightarrow> snd (alloc n h) = h"
    and free_alive: "inv h \<Longrightarrow> p \<in> alive h \<Longrightarrow>
      \<exists>h'. free p h = Some h' \<and> inv h' \<and> alive h' = alive h - {p}"

fun alloc_run :: "('n \<Rightarrow> 'h \<Rightarrow> addr \<times> 'h) \<Rightarrow> 'n list \<Rightarrow> 'h \<Rightarrow> addr list \<times> 'h" where
  "alloc_run alloc [] h = ([], h)"
| "alloc_run alloc (n # ns) h =
     (case alloc n h of (p, h1) \<Rightarrow> (case alloc_run alloc ns h1 of (ps, h2) \<Rightarrow> (p # ps, h2)))"

fun free_run :: "(addr \<Rightarrow> 'h \<Rightarrow> 'h option) \<Rightarrow> addr list \<Rightarrow> 'h \<Rightarrow> 'h option" where
  "free_run free [] h = Some h"
| "free_run free (p # ps) h = Option.bind (free p h) (free_run free ps)"

context allocator begin

lemma alive_mono: "inv h \<Longrightarrow> request n \<Longrightarrow> alive h \<subseteq> alive (snd (alloc n h))"
  using alloc_fresh alloc_fail by (cases "fst (alloc n h) = 0") auto

lemma run_inv:
  "inv h \<Longrightarrow> \<forall>n\<in>set ns. request n \<Longrightarrow>
   inv (snd (alloc_run alloc ns h))
   \<and> alive (snd (alloc_run alloc ns h)) = alive h \<union> (set (fst (alloc_run alloc ns h)) - {0})
   \<and> distinct (filter (\<lambda>p. p \<noteq> 0) (fst (alloc_run alloc ns h)))
   \<and> alive h \<inter> (set (fst (alloc_run alloc ns h)) - {0}) = {}"
proof (induction ns arbitrary: h)
  case (Cons n ns)
  obtain p h1 where a: "alloc n h = (p, h1)" by fastforce
  obtain ps h2 where r: "alloc_run alloc ns h1 = (ps, h2)" by fastforce
  have i1: "inv h1" using alloc_inv [of h n] Cons.prems a by simp
  have IH: "inv h2" "alive h2 = alive h1 \<union> (set ps - {0})" "distinct (filter (\<lambda>p. p \<noteq> 0) ps)"
    "alive h1 \<inter> (set ps - {0}) = {}"
    using Cons.IH [OF i1] Cons.prems r by auto
  show ?case
  proof (cases "p = 0")
    case True
    then have "h1 = h" using alloc_fail [of h n] Cons.prems a by simp
    with True IH a r show ?thesis by auto
  next
    case False
    then have "p \<notin> alive h" "alive h1 = insert p (alive h)"
      using alloc_fresh [of h n] Cons.prems a by auto
    with False IH a r show ?thesis by auto
  qed
qed simp

lemma run_free_all:
  "inv h \<Longrightarrow> distinct ps \<Longrightarrow> set ps \<subseteq> alive h \<Longrightarrow>
   \<exists>h'. free_run free ps h = Some h' \<and> inv h' \<and> alive h' = alive h - set ps"
proof (induction ps arbitrary: h)
  case (Cons p ps)
  then obtain h1 where h1: "free p h = Some h1" "inv h1" "alive h1 = alive h - {p}"
    using free_alive [of h p] by auto
  moreover obtain h' where "free_run free ps h1 = Some h'" "inv h'" "alive h' = alive h1 - set ps"
    using Cons.IH [of h1] Cons.prems h1 by auto
  ultimately show ?case by auto
qed simp

end

interpretation kh: allocator kmalloc kfree kheap_inv live kmalloc_ok
proof
  fix h :: kheap and n assume i: "kheap_inv h" "kmalloc_ok n"
  show "kheap_inv (snd (kmalloc n h))" using i by (rule kmalloc_inv)
  { assume "fst (kmalloc n h) \<noteq> 0"
    from kmalloc_extents [OF i this] show "fst (kmalloc n h) \<notin> live h \<and>
        live (snd (kmalloc n h)) = insert (fst (kmalloc n h)) (live h)"
      by (auto simp: live_def) }
  { assume "fst (kmalloc n h) = 0"
    with i show "snd (kmalloc n h) = h" by (rule kmalloc_fail) }
next
  fix h :: kheap and p assume "kheap_inv h" "p \<in> live h"
  from kfree_correct [OF this] show "\<exists>h'. kfree p h = Some h' \<and> kheap_inv h' \<and> live h' = live h - {p}"
    by (fastforce simp: live_def)
qed

text \<open>Rounding up to the heap alignment.\<close>

lemma and_not_mask: "(a :: u32) AND NOT (mask n) = push_bit n (drop_bit n a)"
  by (rule bit_word_eqI) (auto simp: bit_and_iff bit_not_iff bit_mask_iff bit_push_bit_iff bit_drop_bit_eq)

lemma unat_align_up:
  assumes "unat a + 0xFFF < 2 ^ 32"
  shows "unat (align_up a KHEAP_ALIGN) = (unat a + 0xFFF) div 4096 * 4096"
proof -
  have m: "(0x1000 - 1 :: u32) = mask 12" by (simp add: mask_eq_exp_minus_1)
  have s: "unat (a + 0x1000 - 1) = unat a + 0xFFF"
    using assms by (simp add: unat_word_ariths)
  have "unat (push_bit 12 (drop_bit 12 (a + 0x1000 - 1))) = (unat a + 0xFFF) div 4096 * 4096"
  proof -
    have "unat (drop_bit 12 (a + 0x1000 - 1)) = (unat a + 0xFFF) div 4096"
      unfolding unat_drop_bit_eq s by (simp add: drop_bit_eq_div)
    moreover have "(unat a + 0xFFF) div 4096 * 4096 < 2 ^ 32" using assms by linarith
    ultimately show ?thesis
      by (simp add: push_bit_eq_mult unat_word_ariths)
  qed
  then show ?thesis unfolding align_up_def KHEAP_ALIGN_def m and_not_mask .
qed

lemma kmalloc_wraps:
  assumes inv: "kheap_inv h" and sz: "0x3FEFEFF4 < sz" "sz \<le> 0xFFFFEFF4"
  shows "fst (kmalloc sz h) = 0xC010000C" "kh_end (snd (kmalloc sz h)) < kh_end h"
proof -
  have big: "\<not> sz < 4" using sz(1) by (simp add: word_less_nat_alt)
  have szn: "0x3FEFEFF5 \<le> unat sz" "unat sz \<le> 0xFFFFEFF4"
    using sz by (simp_all add: word_less_nat_alt word_le_nat_alt)
  have "heap_fit sz (kh_blocks h) = None"
    unfolding heap_fit_None
  proof
    fix b assume "b \<in> set (kh_blocks h)"
    from block_bounds(2,3) [OF inv this] have "unat (hb_size b) < unat sz" using szn by simp
    then show "hb_used b \<or> hb_size b < sz" by (simp add: word_less_nat_alt)
  qed
  moreover have r: "kh_start h = 0xC0000000" "kh_end h = 0xC0100000" "kh_max h = 0xC00FFFFF" "kh_inited h"
    using inv by (simp_all add: kheap_inv_def heap_consts)
  moreover have n: "unat (sz + HDR) = unat sz + 12"
    using szn by (simp add: unat_add_small HDR_def)
  moreover have al: "unat (align_up (sz + HDR) KHEAP_ALIGN) = (unat sz + 12 + 0xFFF) div 4096 * 4096"
    using n szn by (subst unat_align_up) simp_all
  moreover have "unat (0xC0100000 + align_up (sz + HDR) KHEAP_ALIGN) \<le> 0xC00FF000"
  proof -
    let ?q = "(unat sz + 12 + 0xFFF) div 4096"
    have q: "0x3FF00 \<le> ?q" "?q \<le> 0xFFFFF" using szn by linarith+
    have "unat (0xC0100000 + align_up (sz + HDR) KHEAP_ALIGN) = (0xC0100000 + ?q * 4096) mod 2 ^ 32"
      by (simp only: unat_word_ariths al) simp
    also have "\<dots> = 0xC0100000 + ?q * 4096 - 2 ^ 32"
      using q by (subst mod_if) simp
    finally show ?thesis using q by simp
  qed
  ultimately show "fst (kmalloc sz h) = 0xC010000C" "kh_end (snd (kmalloc sz h)) < kh_end h"
    using big by (simp_all add: kmalloc_def HDR_def word_less_nat_alt)
qed


subsection \<open>Properties\<close>

text \<open>C1.  An allocation that returns a pointer leaves the heap well formed, adds exactly one live
  extent, at least as large as the request, at an address that was not live before, inside the
  heap area and disjoint from every other live extent.\<close>

theorem kmalloc_safe:
  assumes "kheap_inv h" and "kmalloc_ok sz" and "kmalloc sz h = (p, h')" and "p \<noteq> 0"
  shows "kheap_inv h' \<and>
    (\<exists>n. sz \<le> n \<and> extents h' = insert (p, n) (extents h) \<and> p \<notin> live h
       \<and> 0xC000000C \<le> unat p \<and> unat p + unat n \<le> 0xC0100000
       \<and> (\<forall>(q, m) \<in> extents h. unat p + unat n \<le> unat q \<or> unat q + unat m \<le> unat p))"
proof -
  obtain n where n: "sz \<le> n" "extents h' = insert (p, n) (extents h)" "p \<notin> live h"
    using kmalloc_extents [OF assms(1,2)] assms(3,4) by auto
  have i: "kheap_inv h'" using kmalloc_inv [OF assms(1,2)] assms(3) by simp
  have pn: "(p, n) \<in> extents h'" using n(2) by simp
  have "\<forall>(q, m) \<in> extents h. unat p + unat n \<le> unat q \<or> unat q + unat m \<le> unat p"
    using extents_disjoint [OF i pn] n(2,3) by (force simp: live_def)
  with i n extents_bounds [OF i pn] show ?thesis by blast
qed

lemma booted_alloc: "kmalloc 100 (heap_area kheap_boot) = (0xC000000C,
   \<lparr>kh_blocks = [\<lparr>hb_addr = 0xC0000000, hb_size = 100, hb_used = True\<rparr>,
      \<lparr>hb_addr = 0xC0000070, hb_size = 0xFFF84, hb_used = False\<rparr>],
    kh_start = 0xC0000000, kh_end = 0xC0100000, kh_max = 0xC00FFFFF, kh_inited = True\<rparr>)"
  by (simp add: kmalloc_def heap_area_def kheap_boot_def heap_consts)

lemma kmalloc_safe_witness:
  "\<exists>h'. kmalloc 100 (heap_area kheap_boot) = (0xC000000C, h') \<and> kheap_inv h'"
  using kmalloc_safe [OF heap_area_inv _ booted_alloc] booted_alloc by (simp add: kmalloc_ok_def)

text \<open>Freeing what was just allocated undoes the split and the marking: the heap is restored
  block for block.\<close>

theorem kfree_undoes_kmalloc:
  assumes "kheap_inv h" and "kmalloc_ok sz" and "kmalloc sz h = (p, h')" and "p \<noteq> 0"
  shows "kfree p h' = Some h"
  using kmalloc_kfree_restore [OF assms(1,2)] assms(3,4) by simp

lemma kfree_undoes_kmalloc_witness:
  "kfree 0xC000000C (snd (kmalloc 100 (heap_area kheap_boot))) = Some (heap_area kheap_boot)"
  using kfree_undoes_kmalloc [OF heap_area_inv _ booted_alloc] booted_alloc by (simp add: kmalloc_ok_def)

text \<open>C8.  Any sequence of allocation requests from a well-formed heap returns, apart from null
  pointers, pairwise distinct addresses that were not live before, and freeing them in the order
  they were returned succeeds and leaves exactly the originally live addresses live.\<close>

theorem alloc_then_free_all:
  assumes "kheap_inv h" and "\<forall>n\<in>set ns. kmalloc_ok n" and "alloc_run kmalloc ns h = (ps, h1)"
  shows "distinct (filter (\<lambda>p. p \<noteq> 0) ps) \<and> live h \<inter> (set ps - {0}) = {}
    \<and> (\<exists>h2. free_run kfree (filter (\<lambda>p. p \<noteq> 0) ps) h1 = Some h2 \<and> kheap_inv h2 \<and> live h2 = live h)"
proof -
  have r: "kheap_inv h1" "live h1 = live h \<union> (set ps - {0})" "distinct (filter (\<lambda>p. p \<noteq> 0) ps)"
    "live h \<inter> (set ps - {0}) = {}"
    using kh.run_inv [OF assms(1,2)] assms(3) by auto
  have "\<exists>h2. free_run kfree (filter (\<lambda>p. p \<noteq> 0) ps) h1 = Some h2 \<and> kheap_inv h2
      \<and> live h2 = live h1 - set (filter (\<lambda>p. p \<noteq> 0) ps)"
    using r by (intro kh.run_free_all) auto
  moreover have "live h1 - set (filter (\<lambda>p. p \<noteq> 0) ps) = live h" using r(2,4) by auto
  ultimately show ?thesis using r by auto
qed

lemma alloc_then_free_all_witness:
  "fst (alloc_run kmalloc [100, 200] (heap_area kheap_boot)) = [0xC000000C, 0xC000007C] \<and>
   (\<exists>h2. free_run kfree [0xC000000C, 0xC000007C] (snd (alloc_run kmalloc [100, 200] (heap_area kheap_boot)))
      = Some h2 \<and> live h2 = live (heap_area kheap_boot))"
proof -
  let ?r = "alloc_run kmalloc [100, 200] (heap_area kheap_boot)"
  have e: "fst ?r = [0xC000000C, 0xC000007C]"
    by (simp add: kmalloc_def heap_area_def kheap_boot_def heap_consts)
  have "alloc_run kmalloc [100, 200] (heap_area kheap_boot) = (fst ?r, snd ?r)" by simp
  from alloc_then_free_all [OF heap_area_inv _ this] show ?thesis
    unfolding e by (auto simp: kmalloc_ok_def)
qed

text \<open>Requests above the bound defeat the limit check of the growth path: the 32-bit sum
  wraps, the request is granted just behind the heap area, and the recorded end of the heap moves
  backwards.\<close>

theorem kmalloc_limit_wraps:
  assumes "kheap_inv h" and "\<not> kmalloc_ok sz" and "sz \<le> 0xFFFFEFF4"
  shows "fst (kmalloc sz h) = 0xC010000C \<and> kh_end (snd (kmalloc sz h)) < kh_end h"
  using kmalloc_wraps [OF assms(1) _ assms(3)] assms(2) by (simp add: kmalloc_ok_def)

lemma kmalloc_limit_wraps_witness:
  "fst (kmalloc 0x40000000 (heap_area kheap_boot)) = 0xC010000C"
  using kmalloc_limit_wraps [of "heap_area kheap_boot" "0x40000000", OF heap_area_inv] by (simp add: kmalloc_ok_def)

text \<open>A request within the bound is refused exactly when no free block is large enough, and
  then the heap is unchanged.\<close>

theorem kmalloc_refused:
  assumes "kheap_inv h" and "kmalloc_ok sz"
  shows "(fst (kmalloc sz h) = 0 \<longleftrightarrow>
      (\<forall>b\<in>set (kh_blocks h). hb_used b \<or> hb_size b < (if sz < 4 then 4 else sz)))
    \<and> (fst (kmalloc sz h) = 0 \<longrightarrow> snd (kmalloc sz h) = h)"
  using kmalloc_null_iff [OF assms] kmalloc_fail [OF assms] by blast

lemma kmalloc_refused_witness:
  "fst (kmalloc 0x100000 (heap_area kheap_boot)) = 0"
  using kmalloc_refused [of "heap_area kheap_boot" "0x100000", OF heap_area_inv]
  by (simp add: kmalloc_ok_def heap_area_def kheap_boot_def heap_consts)

text \<open>\<^verbatim>\<open>kmalloc_a\<close> rounds the size, not the address, so its first block is not aligned.\<close>

lemma kmalloc_a_unaligned:
  "fst (kmalloc_a 1 (heap_area kheap_boot)) AND 0xFFF = 0xC"
  by (simp add: kmalloc_a_def kmalloc_def align_up_def heap_area_def kheap_boot_def heap_consts)

text \<open>\<^verbatim>\<open>kcalloc\<close> clears no more than the block it got, but the block is sized by the wrapped
  product.\<close>

lemma kcalloc_wraps:
  "kcalloc 0x10000 0x10001 (heap_area kheap_boot) = (0xC000000C, 0x10000, snd (kmalloc 0x10000 (heap_area kheap_boot)))"
  by (simp add: kcalloc_def kmalloc_def heap_area_def kheap_boot_def heap_consts)

lemma krealloc_shrinks_in_place:
  assumes "p \<noteq> 0" "sz \<noteq> 0" "heap_block_at p h = Some b" "sz \<le> hb_size b"
  shows "krealloc p sz h = Some (p, 0, h)"
  using assms by (simp add: krealloc_def)

end
