(* ===== verification/FrameBitmap.thy ===== *)
theory FrameBitmap
  imports KHeap
begin

text \<open>
  The two physical memory managers, \<^verbatim>\<open>memory/pmm.c\<close> (which \<^verbatim>\<open>kernel_init.c\<close> starts) and
  \<^verbatim>\<open>kernel/pmm.c\<close>: bitmaps of 4 KiB frames, a set bit meaning a frame in use.  The bitmap is a list
  of 32-bit words; touching a word outside it is \<open>None\<close>.  Loop counters are counted down from the
  number of iterations.

  The laws of a bitmap are the locale \<open>frame_bits\<close>, interpreted on the bit operations of both files;
  the frame allocator of \<^verbatim>\<open>memory/pmm.c\<close> is a second instance of the interface \<open>allocator\<close>.  The first
  \<^verbatim>\<open>kmalloc\<close>, which initialises the heap and these frames with it, is here too.  The
  Multiboot structure is the byte string at \<^verbatim>\<open>mbi\<close>.
\<close>

subsection \<open>memory/pmm.c\<close>

definition FRAME_SIZE :: u32 where "FRAME_SIZE = 4096"
definition MAX_FRAMES :: u32 where "MAX_FRAMES = 32768"

record pmm =
  pm_total :: u32
  pm_used :: u32
  pm_highest :: u32
  pm_bitmap :: "u32 list"

definition pmm_boot :: pmm where
  "pmm_boot = \<lparr>pm_total = MAX_FRAMES, pm_used = 0, pm_highest = 0, pm_bitmap = replicate 1024 0\<rparr>"

definition set_frame :: "u32 \<Rightarrow> u32 list \<Rightarrow> u32 list option" where
  "set_frame f b = (let w = unat (drop_bit 5 f) in
     if w < length b then Some (b[w := b ! w OR push_bit (unat (f AND 31)) 1]) else None)"

definition clear_frame :: "u32 \<Rightarrow> u32 list \<Rightarrow> u32 list option" where
  "clear_frame f b = (let w = unat (drop_bit 5 f) in
     if w < length b then Some (b[w := b ! w AND NOT (push_bit (unat (f AND 31)) 1)]) else None)"

definition test_frame :: "u32 \<Rightarrow> u32 list \<Rightarrow> bool option" where
  "test_frame f b = (let w = unat (drop_bit 5 f) in
     if w < length b then Some (b ! w AND push_bit (unat (f AND 31)) 1 \<noteq> 0) else None)"

text \<open>The loop of \<^verbatim>\<open>reserve_range\<close> and \<^verbatim>\<open>pmm_mark_used_region\<close> over \<open>k\<close> frames from \<open>f\<close> on.\<close>

fun mark_loop :: "nat \<Rightarrow> u32 \<Rightarrow> pmm \<Rightarrow> pmm option" where
  "mark_loop 0 f p = Some p"
| "mark_loop (Suc k) f p = do {
     t \<leftarrow> test_frame f (pm_bitmap p);
     if \<not> t then do {
       b \<leftarrow> set_frame f (pm_bitmap p);
       mark_loop k (f + 1) (p\<lparr>pm_bitmap := b, pm_used := pm_used p + 1\<rparr>) }
     else mark_loop k (f + 1) p }"

fun clear_loop :: "nat \<Rightarrow> u32 \<Rightarrow> pmm \<Rightarrow> pmm option" where
  "clear_loop 0 f p = Some p"
| "clear_loop (Suc k) f p = do {
     b \<leftarrow> clear_frame f (pm_bitmap p); clear_loop k (f + 1) (p\<lparr>pm_bitmap := b\<rparr>) }"

definition reserve_range :: "u32 \<Rightarrow> u32 \<Rightarrow> pmm \<Rightarrow> pmm option" where
  "reserve_range start_addr end_addr p =
     (if end_addr \<le> start_addr then Some p
      else let s = start_addr div FRAME_SIZE; e = (end_addr + FRAME_SIZE - 1) div FRAME_SIZE in
        mark_loop (unat e - unat s) s p)"

definition pmm_mark_used_region :: "u32 \<Rightarrow> u32 \<Rightarrow> pmm \<Rightarrow> pmm option" where
  "pmm_mark_used_region base sz p =
     (if sz = 0 then Some p
      else let s = base div FRAME_SIZE; e = (base + sz + FRAME_SIZE - 1) div FRAME_SIZE in
        mark_loop (unat e - unat s) s p)"

subsection \<open>The Multiboot memory map\<close>

definition rd32 :: "u8 list \<Rightarrow> nat \<Rightarrow> u32 option" where
  "rd32 b i = (if i + 4 \<le> length b then Some (le32 b i) else None)"

definition rd64 :: "u8 list \<Rightarrow> nat \<Rightarrow> 64 word option" where
  "rd64 b i = do { lo \<leftarrow> rd32 b i; hi \<leftarrow> rd32 b (i + 4); Some (ucast lo OR push_bit 32 (ucast hi)) }"

text \<open>The body of the loop over the entries: address, length and type of one entry.\<close>

definition pmm_mmap_entry :: "64 word \<Rightarrow> 64 word \<Rightarrow> u32 \<Rightarrow> pmm \<Rightarrow> pmm option" where
  "pmm_mmap_entry addr len ty p =
     (if ty = 1 then
        let rend = addr + len;
            end32 = (if 0xFFFFFFFF < rend then 0xFFFFFFFF else ucast rend) :: u32;
            start32 = (if 0xFFFFFFFF < addr then 0xFFFFFFFF else ucast addr) :: u32
        in if start32 < end32 then
             let ef = end32 div FRAME_SIZE; sf = start32 div FRAME_SIZE in
             clear_loop (unat ef - unat sf) sf
               (if pm_highest p < ef then p\<lparr>pm_highest := ef\<rparr> else p)
           else Some p
      else Some p)"

text \<open>\<^verbatim>\<open>entry[i]\<close> is at 24 bytes per entry, whatever \<^verbatim>\<open>entry_size\<close> says; \<open>k\<close> entries remain at \<open>pos\<close>.\<close>

fun pmm_mmap_loop :: "u8 list \<Rightarrow> nat \<Rightarrow> nat \<Rightarrow> pmm \<Rightarrow> pmm option" where
  "pmm_mmap_loop mb 0 pos p = Some p"
| "pmm_mmap_loop mb (Suc k) pos p = do {
     ty \<leftarrow> rd32 mb (pos + 16);
     a \<leftarrow> rd64 mb pos;
     l \<leftarrow> rd64 mb (pos + 8);
     p' \<leftarrow> pmm_mmap_entry a l ty p;
     pmm_mmap_loop mb k (pos + 24) p' }"

text \<open>The walk over the tags from \<open>pos\<close>; a tag of size 0 makes it spin.\<close>

partial_function (option) pmm_tag_walk :: "u8 list \<Rightarrow> nat \<Rightarrow> pmm \<Rightarrow> pmm option" where
  "pmm_tag_walk mb pos p = do {
     ty \<leftarrow> rd32 mb pos;
     if ty = 0 then Some p
     else do {
       sz \<leftarrow> rd32 mb (pos + 4);
       if ty = 6 then do {
         es \<leftarrow> rd32 mb (pos + 8);
         if es = 0 then None
         else pmm_mmap_loop mb (unat ((sz - 16) div es)) (pos + 16) p }
       else pmm_tag_walk mb (pos + unat ((sz + 7) AND NOT 7)) p } }"

definition MBI_SIZE :: nat where "MBI_SIZE = 88"

definition pmm_init :: "u32 \<Rightarrow> u32 \<Rightarrow> u32 \<Rightarrow> u8 list \<Rightarrow> pmm \<Rightarrow> pmm option" where
  "pmm_init mem_upper_kb kernel_start kernel_end mbi p0 = do {
     let p1 = p0\<lparr>pm_bitmap := replicate (length (pm_bitmap p0)) 0xFFFFFFFF, pm_highest := 0\<rparr>;
     flags \<leftarrow> rd32 mbi 0;
     p2 \<leftarrow> (if flags AND 0x40 \<noteq> 0 then pmm_tag_walk mbi MBI_SIZE p1
            else let total_bytes = (1024 + mem_upper_kb) * 1024; hi = total_bytes div FRAME_SIZE in
              clear_loop (min (unat hi) (unat MAX_FRAMES)) 0 (p1\<lparr>pm_highest := hi\<rparr>));
     let p3 = (if MAX_FRAMES < pm_highest p2 then p2\<lparr>pm_highest := MAX_FRAMES\<rparr> else p2);
     p4 \<leftarrow> reserve_range 0 0x100000 (p3\<lparr>pm_total := pm_highest p3\<rparr>);
     pmm_mark_used_region kernel_start (kernel_end - kernel_start) p4 }"

text \<open>\<^verbatim>\<open>pmm_init_basic\<close> declares a local \<^verbatim>\<open>total_frames\<close>; the file's variable keeps its value.\<close>

definition pmm_init_basic :: "u32 \<Rightarrow> u32 \<Rightarrow> u32 \<Rightarrow> pmm \<Rightarrow> pmm option" where
  "pmm_init_basic mem_upper_kb kernel_start kernel_end p0 = do {
     let p1 = p0\<lparr>pm_bitmap := replicate (length (pm_bitmap p0)) 0xFFFFFFFF\<rparr>;
     let total_mem_kb = 1024 + mem_upper_kb;
     let t = (total_mem_kb * 1024) div FRAME_SIZE;
     p2 \<leftarrow> clear_loop (unat (if MAX_FRAMES < t then MAX_FRAMES else t)) 0 p1;
     p3 \<leftarrow> pmm_mark_used_region 0 0x100000 p2;
     pmm_mark_used_region kernel_start (kernel_end - kernel_start) p3 }"

definition pmm_init_default :: "u32 \<Rightarrow> pmm \<Rightarrow> pmm option" where
  "pmm_init_default mem_upper_kb p =
     pmm_init_basic (if mem_upper_kb = 0 then 63 * 1024 else mem_upper_kb) 0 0 p"

subsection \<open>The initialisation of the heap\<close>

text \<open>
  \<^verbatim>\<open>kheap_init\<close> of \<^verbatim>\<open>kernel/kheap.c\<close>, which the first \<^verbatim>\<open>kmalloc\<close> calls.  It calls \<^verbatim>\<open>pmm_init()\<close>, declared without parameters in
  \<^verbatim>\<open>kernel/pmm.h\<close>; the only function of that name is the one of \<^verbatim>\<open>memory/pmm.c\<close> above, with four parameters.  It takes them
  from the four words that happen to be on the stack where a caller puts arguments: \<open>stray\<close> holds the first three, and
  the memory from where the fourth points to, up to the end of what is mapped (empty for an address that is not).  That
  memory is taken not to be the bitmap itself.
\<close>

type_synonym stray = "u32 \<times> u32 \<times> u32 \<times> u8 list"

definition kheap_init :: "stray \<Rightarrow> kheap \<times> pmm \<Rightarrow> (kheap \<times> pmm) option" where
  "kheap_init stack s =
     (let (h, p) = s in
      if kh_inited h then Some (h, p)
      else let (w1, w2, w3, mem) = stack in do {
        q \<leftarrow> pmm_init w1 w2 w3 mem p;
        Some (heap_area h, q) })"

text \<open>\<^verbatim>\<open>kmalloc\<close> with both states.\<close>

definition kmalloc_init :: "stray \<Rightarrow> u32 \<Rightarrow> kheap \<times> pmm \<Rightarrow> (addr \<times> kheap \<times> pmm) option" where
  "kmalloc_init stack sz s = do {
     (h, p) \<leftarrow> (if kh_inited (fst s) then Some s else kheap_init stack s);
     let (a, h1) = kmalloc sz h;
     Some (a, h1, p) }"

lemma kmalloc_inits: "kh_inited (snd (kmalloc sz h))"
  by (auto simp: kmalloc_def heap_area_def Let_def split: option.splits)

text \<open>The heap is that of \<open>kmalloc\<close>, the frames are those of \<^verbatim>\<open>pmm_init\<close> once, and untouched ever after.\<close>

lemma kmalloc_init_split:
  "kmalloc_init (w1, w2, w3, mem) sz (h, p)
     = map_option (\<lambda>q. (fst (kmalloc sz h), snd (kmalloc sz h), q)) (if kh_inited h then Some p else pmm_init w1 w2 w3 mem p)"
proof (cases "kh_inited h")
  case False
  then have "kmalloc sz (heap_area h) = kmalloc sz h" by (simp add: kmalloc_def heap_area_def)
  with False show ?thesis by (cases "pmm_init w1 w2 w3 mem p") (simp_all add: kmalloc_init_def kheap_init_def split_beta)
qed (simp add: kmalloc_init_def split_beta)

subsection \<open>Allocating frames\<close>

fun pmm_search :: "nat \<Rightarrow> u32 \<Rightarrow> pmm \<Rightarrow> (u32 \<times> pmm) option" where
  "pmm_search 0 f p = Some (0, p)"
| "pmm_search (Suc k) f p = do {
     t \<leftarrow> test_frame f (pm_bitmap p);
     if \<not> t then do {
       b \<leftarrow> set_frame f (pm_bitmap p);
       Some (f * FRAME_SIZE, p\<lparr>pm_bitmap := b, pm_used := pm_used p + 1\<rparr>) }
     else pmm_search k (f + 1) p }"

definition pmm_alloc_frame :: "pmm \<Rightarrow> (u32 \<times> pmm) option" where
  "pmm_alloc_frame p = pmm_search (unat (pm_total p)) 0 p"

definition pmm_free_frame :: "u32 \<Rightarrow> pmm \<Rightarrow> pmm option" where
  "pmm_free_frame frame_addr p =
     (let f = frame_addr div FRAME_SIZE in
      if f < pm_total p then do {
        t \<leftarrow> test_frame f (pm_bitmap p);
        if t then do {
          b \<leftarrow> clear_frame f (pm_bitmap p);
          Some (p\<lparr>pm_bitmap := b, pm_used := pm_used p - 1\<rparr>) }
        else Some p }
      else Some p)"

subsection \<open>kernel/pmm.c\<close>

record kpmm =
  kp_bitmap :: "u32 list"
  kp_bitmap_size :: u32
  kp_max_blocks :: u32
  kp_used_blocks :: u32
  kp_total_memory :: u32

text \<open>No function of the file assigns these variables but the allocator itself.\<close>

definition kpmm_boot :: kpmm where
  "kpmm_boot = \<lparr>kp_bitmap = [], kp_bitmap_size = 0, kp_max_blocks = 0, kp_used_blocks = 0, kp_total_memory = 0\<rparr>"

definition pmm_set_bit :: "u32 \<Rightarrow> u32 list \<Rightarrow> u32 list option" where
  "pmm_set_bit i b = (let w = unat (i div 32) in
     if w < length b then Some (b[w := b ! w OR push_bit (unat (i mod 32)) 1]) else None)"

definition pmm_clear_bit :: "u32 \<Rightarrow> u32 list \<Rightarrow> u32 list option" where
  "pmm_clear_bit i b = (let w = unat (i div 32) in
     if w < length b then Some (b[w := b ! w AND NOT (push_bit (unat (i mod 32)) 1)]) else None)"

definition pmm_test_bit :: "u32 \<Rightarrow> u32 list \<Rightarrow> bool option" where
  "pmm_test_bit i b = (let w = unat (i div 32) in
     if w < length b then Some (b ! w AND push_bit (unat (i mod 32)) 1 \<noteq> 0) else None)"

text \<open>The inner loop over the bits \<open>j\<close>, \<open>k\<close> of them remaining.\<close>

fun low_clear :: "nat \<Rightarrow> nat \<Rightarrow> u32 \<Rightarrow> nat option" where
  "low_clear 0 j w = None"
| "low_clear (Suc k) j w = (if w AND push_bit j 1 = 0 then Some j else low_clear k (Suc j) w)"

fun kpmm_search :: "nat \<Rightarrow> nat \<Rightarrow> kpmm \<Rightarrow> (addr \<times> kpmm) option" where
  "kpmm_search 0 i p = Some (0, p)"
| "kpmm_search (Suc k) i p =
     (if i < length (kp_bitmap p) then
        (let w = kp_bitmap p ! i in
         if w \<noteq> 0xFFFFFFFF then
           (case low_clear 32 0 w of
              Some j \<Rightarrow> Some ((of_nat i * 32 + of_nat j) * 0x1000,
                 p\<lparr>kp_bitmap := (kp_bitmap p)[i := w OR push_bit j 1], kp_used_blocks := kp_used_blocks p + 1\<rparr>)
            | None \<Rightarrow> kpmm_search k (Suc i) p)
         else kpmm_search k (Suc i) p)
      else None)"

definition kpmm_alloc :: "kpmm \<Rightarrow> (addr \<times> kpmm) option" where
  "kpmm_alloc p =
     (if kp_max_blocks p \<le> kp_used_blocks p then Some (0, p)
      else kpmm_search (unat (kp_bitmap_size p)) 0 p)"

definition kpmm_free :: "addr \<Rightarrow> kpmm \<Rightarrow> kpmm option" where
  "kpmm_free a p =
     (let i = a div 0x1000 in
      if kp_max_blocks p \<le> i then Some p
      else do {
        t \<leftarrow> pmm_test_bit i (kp_bitmap p);
        if \<not> t then Some p
        else do {
          b \<leftarrow> pmm_clear_bit i (kp_bitmap p);
          Some (p\<lparr>kp_bitmap := b, kp_used_blocks := kp_used_blocks p - 1\<rparr>) } })"

definition pmm_get_free_memory :: "kpmm \<Rightarrow> u32" where
  "pmm_get_free_memory p = (kp_max_blocks p - kp_used_blocks p) * 0x1000"

definition pmm_get_used_memory :: "kpmm \<Rightarrow> u32" where
  "pmm_get_used_memory p = kp_used_blocks p * 0x1000"

definition pmm_get_total_memory :: "kpmm \<Rightarrow> u32" where
  "pmm_get_total_memory p = kp_total_memory p"

subsection \<open>The laws of a frame bitmap\<close>

locale frame_bits =
  fixes setb clearb :: "u32 \<Rightarrow> 'b \<Rightarrow> 'b option"
    and testb :: "u32 \<Rightarrow> 'b \<Rightarrow> bool option"
    and cap :: "'b \<Rightarrow> nat"
  assumes test_dom: "testb f b = None \<longleftrightarrow> cap b \<le> unat f"
    and set_law: "unat f < cap b \<Longrightarrow> \<exists>b'. setb f b = Some b' \<and> cap b' = cap b
      \<and> testb f b' = Some True \<and> (\<forall>g. g \<noteq> f \<longrightarrow> testb g b' = testb g b)"
    and clear_law: "unat f < cap b \<Longrightarrow> \<exists>b'. clearb f b = Some b' \<and> cap b' = cap b
      \<and> testb f b' = Some False \<and> (\<forall>g. g \<noteq> f \<longrightarrow> testb g b' = testb g b)"
begin

definition used :: "'b \<Rightarrow> u32 set" where
  "used b = {f. testb f b = Some True}"

lemma used_set:
  assumes "unat f < cap b" shows "\<exists>b'. setb f b = Some b' \<and> cap b' = cap b \<and> used b' = insert f (used b)"
proof -
  obtain b' where b': "setb f b = Some b'" "cap b' = cap b" "testb f b' = Some True" "\<forall>g. g \<noteq> f \<longrightarrow> testb g b' = testb g b"
    using set_law [OF assms] by blast
  then have "g \<in> used b' \<longleftrightarrow> g \<in> insert f (used b)" for g by (cases "g = f") (auto simp: used_def)
  with b' show ?thesis by blast
qed

lemma used_clear:
  assumes "unat f < cap b" shows "\<exists>b'. clearb f b = Some b' \<and> cap b' = cap b \<and> used b' = used b - {f}"
proof -
  obtain b' where b': "clearb f b = Some b'" "cap b' = cap b" "testb f b' = Some False" "\<forall>g. g \<noteq> f \<longrightarrow> testb g b' = testb g b"
    using clear_law [OF assms] by blast
  then have "g \<in> used b' \<longleftrightarrow> g \<in> used b - {f}" for g by (cases "g = f") (auto simp: used_def)
  with b' show ?thesis by blast
qed

lemma test_used: "unat f < cap b \<Longrightarrow> testb f b = Some (f \<in> used b)"
  using test_dom [of f b] by (cases "testb f b") (auto simp: used_def)

end

lemma index_word: "unat (drop_bit 5 (f :: u32)) = unat f div 32" "unat (f AND 31) = unat f mod 32"
proof -
  show "unat (drop_bit 5 f) = unat f div 32" unfolding unat_drop_bit_eq by (simp add: drop_bit_eq_div)
  have "f AND 31 = take_bit 5 f" by (simp add: take_bit_eq_mask mask_eq_exp_minus_1)
  then have "unat (f AND 31) = take_bit 5 (unat f)" by (simp only: unsigned_take_bit_eq)
  then show "unat (f AND 31) = unat f mod 32" by (simp add: take_bit_eq_mod)
qed

lemma frame_test:
  "test_frame f b = (if unat f < 32 * length b then Some (bit (b ! (unat f div 32)) (unat f mod 32)) else None)"
proof -
  have "unat f div 32 < length b \<longleftrightarrow> unat f < 32 * length b" by linarith
  then show ?thesis
    unfolding test_frame_def index_word Let_def by (simp only: bit_iff_and_push_bit_not_eq_0)
qed

lemma frame_set:
  "set_frame f b = (if unat f < 32 * length b
     then Some (b[unat f div 32 := b ! (unat f div 32) OR push_bit (unat f mod 32) 1]) else None)"
  by (auto simp: set_frame_def index_word Let_def)

lemma frame_clear:
  "clear_frame f b = (if unat f < 32 * length b
     then Some (b[unat f div 32 := b ! (unat f div 32) AND NOT (push_bit (unat f mod 32) 1)]) else None)"
  by (auto simp: clear_frame_def index_word Let_def)

lemma frame_index_eq:
  "(g :: u32) \<noteq> f \<Longrightarrow> unat g div 32 = unat f div 32 \<Longrightarrow> unat g mod 32 \<noteq> unat f mod 32"
  by (metis div_mult_mod_eq unsigned_word_eqI)

lemma bit_one_shift: "bit (2 ^ k :: u32) n \<longleftrightarrow> k = n \<and> n < 32"
  by (auto simp: bit_exp_iff)

interpretation fb: frame_bits set_frame clear_frame test_frame "\<lambda>b. 32 * length b"
proof
  fix f :: u32 and b :: "u32 list"
  show "test_frame f b = None \<longleftrightarrow> 32 * length b \<le> unat f" by (simp add: frame_test)
  assume f: "unat f < 32 * length b"
  then have w: "unat f div 32 < length b" by linarith
  let ?s = "b[unat f div 32 := b ! (unat f div 32) OR push_bit (unat f mod 32) 1]"
  let ?c = "b[unat f div 32 := b ! (unat f div 32) AND NOT (push_bit (unat f mod 32) 1)]"
  have "test_frame g ?s = test_frame g b \<and> test_frame g ?c = test_frame g b" if "g \<noteq> f" for g
    using frame_index_eq [OF that] w
    by (cases "unat g div 32 = unat f div 32")
      (auto simp: frame_test bit_or_iff bit_and_iff bit_not_iff bit_one_shift)
  moreover have "test_frame f ?s = Some True" "test_frame f ?c = Some False"
    using f w by (simp_all add: frame_test bit_or_iff bit_and_iff bit_not_iff bit_one_shift)
  ultimately show "\<exists>b'. set_frame f b = Some b' \<and> 32 * length b' = 32 * length b \<and> test_frame f b' = Some True
      \<and> (\<forall>g. g \<noteq> f \<longrightarrow> test_frame g b' = test_frame g b)"
    "\<exists>b'. clear_frame f b = Some b' \<and> 32 * length b' = 32 * length b \<and> test_frame f b' = Some False
      \<and> (\<forall>g. g \<noteq> f \<longrightarrow> test_frame g b' = test_frame g b)"
    using f by (simp_all add: frame_set frame_clear)
qed

lemma kernel_bits_eq:
  "pmm_set_bit = set_frame" "pmm_clear_bit = clear_frame" "pmm_test_bit = test_frame"
proof -
  have "unat (i div 32) = unat i div 32" "unat (i mod 32) = unat i mod 32" for i :: u32
    by (simp_all add: unat_div unat_mod)
  then show "pmm_set_bit = set_frame" "pmm_clear_bit = clear_frame" "pmm_test_bit = test_frame"
    by (auto simp: fun_eq_iff Let_def pmm_set_bit_def set_frame_def pmm_clear_bit_def clear_frame_def
        pmm_test_bit_def test_frame_def index_word)
qed

interpretation kb: frame_bits pmm_set_bit pmm_clear_bit pmm_test_bit "\<lambda>b. 32 * length b"
  unfolding kernel_bits_eq by (rule fb.frame_bits_axioms)

text \<open>Clearing a bit that was clear before it was set restores the bitmap.\<close>

lemma set_clear_restore:
  assumes "test_frame f b = Some False" "set_frame f b = Some b1"
  shows "clear_frame f b1 = Some b"
proof -
  have f: "unat f < 32 * length b" using assms(1) by (auto simp: frame_test split: if_splits)
  then have w: "unat f div 32 < length b" by linarith
  have "(x OR push_bit k 1) AND NOT (push_bit k 1) = x" if "\<not> bit x k" "k < 32" for x :: u32 and k
    using that by (intro bit_word_eqI) (auto simp: bit_or_iff bit_and_iff bit_not_iff bit_one_shift)
  then show ?thesis
    using assms f w by (auto simp: frame_test frame_set frame_clear)
qed

subsection \<open>The allocator\<close>

definition pmm_inv :: "pmm \<Rightarrow> bool" where
  "pmm_inv p \<longleftrightarrow> length (pm_bitmap p) = 1024 \<and> unat (pm_total p) \<le> 32768
     \<and> test_frame 0 (pm_bitmap p) = Some True"

abbreviation frame_free :: "pmm \<Rightarrow> u32 \<Rightarrow> bool" where
  "frame_free p f \<equiv> f < pm_total p \<and> test_frame f (pm_bitmap p) = Some False"

lemma unat_Suc_bound: "unat f + Suc k \<le> n \<Longrightarrow> n \<le> 32768 \<Longrightarrow> unat (f + 1 :: u32) = Suc (unat f)"
  using unat_add_small [of f 1] by simp

lemma pmm_search_spec:
  assumes "length (pm_bitmap p) = 1024"
  shows "unat f + k \<le> 32768 \<Longrightarrow>
    (case pmm_search k f p of
       None \<Rightarrow> False
     | Some (a, p') \<Rightarrow>
        (a = 0 \<and> p' = p \<and> (\<forall>g. f \<le> g \<and> unat g < unat f + k \<longrightarrow> test_frame g (pm_bitmap p) = Some True))
      \<or> (\<exists>g b. f \<le> g \<and> unat g < unat f + k \<and> test_frame g (pm_bitmap p) = Some False
           \<and> (\<forall>h. f \<le> h \<and> h < g \<longrightarrow> test_frame h (pm_bitmap p) = Some True)
           \<and> set_frame g (pm_bitmap p) = Some b
           \<and> a = g * FRAME_SIZE \<and> p' = p\<lparr>pm_bitmap := b, pm_used := pm_used p + 1\<rparr>))"
proof (induction k arbitrary: f)
  case 0
  then show ?case by (auto simp: word_le_nat_alt)
next
  case (Suc k)
  have f: "unat f < 32 * length (pm_bitmap p)" using Suc.prems assms by simp
  obtain t where t: "test_frame f (pm_bitmap p) = Some t" using f by (simp add: frame_test)
  obtain b where b: "set_frame f (pm_bitmap p) = Some b" using f by (simp add: frame_set)
  show ?case
  proof (cases t)
    case False
    have "\<forall>h. f \<le> h \<and> h < f \<longrightarrow> test_frame h (pm_bitmap p) = Some True" by auto
    then show ?thesis using False t b by auto
  next
    case True
    have s: "unat (f + 1) = Suc (unat f)" using unat_Suc_bound [OF Suc.prems] by simp
    have le: "f \<le> h \<longleftrightarrow> h = f \<or> f + 1 \<le> h" for h
      using s by (auto simp: word_le_nat_alt) (metis le_antisym not_less_eq_eq unsigned_word_eqI)
    have IH: "unat (f + 1) + k \<le> 32768" using s Suc.prems by simp
    show ?thesis
      using Suc.IH [OF IH] True t s unfolding le by (auto split: option.splits)
  qed
qed


lemma frame_addr_div:
  assumes "unat g < 32768" shows "(g * FRAME_SIZE) div FRAME_SIZE = g" "g \<noteq> 0 \<Longrightarrow> g * FRAME_SIZE \<noteq> 0"
proof -
  have m: "unat (g * FRAME_SIZE) = unat g * 4096"
    using assms by (simp add: FRAME_SIZE_def unat_word_ariths)
  then have "unat (g * FRAME_SIZE div FRAME_SIZE) = unat g" by (simp add: unat_div FRAME_SIZE_def)
  then show "(g * FRAME_SIZE) div FRAME_SIZE = g" by (metis unsigned_word_eqI)
  show "g \<noteq> 0 \<Longrightarrow> g * FRAME_SIZE \<noteq> 0"
  proof
    assume "g \<noteq> 0" "g * FRAME_SIZE = 0"
    then have "unat g * 4096 = 0" using m by (metis unat_0)
    then show False using \<open>g \<noteq> 0\<close> by (simp add: unat_eq_zero)
  qed
qed

lemma pmm_alloc_cases [consumes 1, case_names full found]:
  assumes inv: "pmm_inv p"
  obtains (full) "pmm_alloc_frame p = Some (0, p)" "\<forall>g. \<not> frame_free p g"
  | (found) g b where "frame_free p g" "\<forall>h<g. \<not> frame_free p h" "g \<noteq> 0" "unat g < 32768"
      "set_frame g (pm_bitmap p) = Some b"
      "pmm_alloc_frame p = Some (g * FRAME_SIZE, p\<lparr>pm_bitmap := b, pm_used := pm_used p + 1\<rparr>)"
proof -
  have i: "length (pm_bitmap p) = 1024" "unat (pm_total p) \<le> 32768" "test_frame 0 (pm_bitmap p) = Some True"
    using inv by (simp_all add: pmm_inv_def)
  obtain a p' where r: "pmm_alloc_frame p = Some (a, p')"
    and c: "(a = 0 \<and> p' = p \<and> (\<forall>g. 0 \<le> g \<and> unat g < unat (0::u32) + unat (pm_total p) \<longrightarrow> test_frame g (pm_bitmap p) = Some True))
      \<or> (\<exists>g b. 0 \<le> g \<and> unat g < unat (0::u32) + unat (pm_total p) \<and> test_frame g (pm_bitmap p) = Some False
           \<and> (\<forall>h. 0 \<le> h \<and> h < g \<longrightarrow> test_frame h (pm_bitmap p) = Some True)
           \<and> set_frame g (pm_bitmap p) = Some b
           \<and> a = g * FRAME_SIZE \<and> p' = p\<lparr>pm_bitmap := b, pm_used := pm_used p + 1\<rparr>)"
    using pmm_search_spec [OF i(1), of 0 "unat (pm_total p)"] i(2)
    unfolding pmm_alloc_frame_def by (auto split: option.splits)
  from c show thesis
  proof
    assume "a = 0 \<and> p' = p \<and> (\<forall>g. 0 \<le> g \<and> unat g < unat (0::u32) + unat (pm_total p) \<longrightarrow> test_frame g (pm_bitmap p) = Some True)"
    then show thesis using full r by (auto simp: word_less_nat_alt)
  next
    assume "\<exists>g b. 0 \<le> g \<and> unat g < unat (0::u32) + unat (pm_total p) \<and> test_frame g (pm_bitmap p) = Some False
           \<and> (\<forall>h. 0 \<le> h \<and> h < g \<longrightarrow> test_frame h (pm_bitmap p) = Some True)
           \<and> set_frame g (pm_bitmap p) = Some b
           \<and> a = g * FRAME_SIZE \<and> p' = p\<lparr>pm_bitmap := b, pm_used := pm_used p + 1\<rparr>"
    then obtain g b where g: "unat g < unat (pm_total p)" "test_frame g (pm_bitmap p) = Some False"
        "\<forall>h<g. test_frame h (pm_bitmap p) = Some True" "set_frame g (pm_bitmap p) = Some b"
        "a = g * FRAME_SIZE" "p' = p\<lparr>pm_bitmap := b, pm_used := pm_used p + 1\<rparr>" by auto
    have "g \<noteq> 0" using g(2) i(3) by auto
    with g i(2) r show thesis by (intro found [of g b]) (auto simp: word_less_nat_alt)
  qed
qed

text \<open>The addresses handed out: frame 0 is never one of them.\<close>

definition pmm_alive :: "pmm \<Rightarrow> addr set" where
  "pmm_alive p = (\<lambda>g. g * FRAME_SIZE) ` {g. g \<noteq> 0 \<and> g < pm_total p \<and> test_frame g (pm_bitmap p) = Some True}"

lemma pmm_alive_used:
  "pmm_alive p = (\<lambda>g. g * FRAME_SIZE) ` {g \<in> fb.used (pm_bitmap p). g \<noteq> 0 \<and> g < pm_total p}"
  by (auto simp: pmm_alive_def fb.used_def)

lemma frame_addr_inj: "unat g < 32768 \<Longrightarrow> unat h < 32768 \<Longrightarrow> g * FRAME_SIZE = h * FRAME_SIZE \<longleftrightarrow> g = h"
  using frame_addr_div(1) by metis

lemma pmm_alloc_new:
  assumes inv: "pmm_inv p" and r: "pmm_alloc_frame p = Some (a, p')" and a: "a \<noteq> 0"
  shows "a \<notin> pmm_alive p \<and> pmm_alive p' = insert a (pmm_alive p) \<and> pmm_inv p'"
  using inv
proof (cases rule: pmm_alloc_cases)
  case (found g b)
  have gc: "unat g < 32 * length (pm_bitmap p)" using inv found by (simp add: pmm_inv_def)
  obtain b' where b': "set_frame g (pm_bitmap p) = Some b'" "32 * length b' = 32 * length (pm_bitmap p)"
      "fb.used b' = insert g (fb.used (pm_bitmap p))"
    using fb.used_set [OF gc] by blast
  then have b: "fb.used b = insert g (fb.used (pm_bitmap p))" "length b = length (pm_bitmap p)"
    using found(5) by auto
  have p': "p' = p\<lparr>pm_bitmap := b, pm_used := pm_used p + 1\<rparr>" "a = g * FRAME_SIZE" using found(6) r by auto
  have bound: "unat h < 32768" if "h < pm_total p" for h
    using that inv by (simp add: pmm_inv_def word_less_nat_alt)
  have "g \<notin> fb.used (pm_bitmap p)" using found(1) by (simp add: fb.used_def)
  then have "a \<notin> pmm_alive p"
    using bound found(4) frame_addr_inj p'(2) unfolding pmm_alive_used by auto
  moreover have "pmm_alive p' = insert a (pmm_alive p)"
    unfolding pmm_alive_used p' using b(1) found(1,3) by auto
  moreover have "0 \<in> fb.used b" using inv b(1) by (simp add: pmm_inv_def fb.used_def)
  then have "pmm_inv p'" using inv b(2) by (simp add: pmm_inv_def p' fb.used_def)
  ultimately show ?thesis by blast
qed (use r a in auto)

lemma pmm_alloc_fresh:
  assumes "pmm_inv p" and "pmm_alloc_frame p = Some (a, p')" and "a \<noteq> 0"
  shows "a \<notin> pmm_alive p" "pmm_alive p' = insert a (pmm_alive p)" "pmm_inv p'"
  using pmm_alloc_new [OF assms] by blast+

lemma pmm_free_alive:
  assumes inv: "pmm_inv p" and a: "a \<in> pmm_alive p"
  shows "\<exists>p'. pmm_free_frame a p = Some p' \<and> pmm_inv p' \<and> pmm_alive p' = pmm_alive p - {a}"
proof -
  obtain g where g: "a = g * FRAME_SIZE" "g \<noteq> 0" "g < pm_total p" "test_frame g (pm_bitmap p) = Some True"
    using a by (auto simp: pmm_alive_def)
  have bound: "unat h < 32768" if "h < pm_total p" for h
    using that inv by (simp add: pmm_inv_def word_less_nat_alt)
  have gc: "unat g < 32 * length (pm_bitmap p)" using bound [OF g(3)] inv by (simp add: pmm_inv_def)
  obtain b where b: "clear_frame g (pm_bitmap p) = Some b" "32 * length b = 32 * length (pm_bitmap p)"
      "fb.used b = fb.used (pm_bitmap p) - {g}"
    using fb.used_clear [OF gc] by blast
  let ?p = "p\<lparr>pm_bitmap := b, pm_used := pm_used p - 1\<rparr>"
  have "pmm_free_frame a p = Some ?p"
    using g b(1) frame_addr_div(1) [OF bound [OF g(3)]] by (simp add: pmm_free_frame_def Let_def)
  moreover have "0 \<in> fb.used b" using inv b(3) g(2) by (simp add: pmm_inv_def fb.used_def)
  then have "pmm_inv ?p" using inv b(2) by (simp add: pmm_inv_def fb.used_def)
  moreover have "pmm_alive ?p = pmm_alive p - {a}"
    unfolding pmm_alive_used g(1) using b(3) bound frame_addr_inj g(3) by auto
  ultimately show ?thesis by blast
qed

interpretation fa: allocator "\<lambda>(_ :: unit) p. the (pmm_alloc_frame p)" pmm_free_frame pmm_inv pmm_alive "\<lambda>_. True"
proof
  fix p assume inv: "pmm_inv p"
  obtain a p' where r: "pmm_alloc_frame p = Some (a, p')" using inv by (cases rule: pmm_alloc_cases) auto
  show "pmm_inv (snd (the (pmm_alloc_frame p)))"
    using inv
  proof (cases rule: pmm_alloc_cases)
    case (found g b)
    then show ?thesis using pmm_alloc_fresh(3) [OF inv found(6)] frame_addr_div(2) [OF found(4,3)] by simp
  qed (use inv in simp)
  show "fst (the (pmm_alloc_frame p)) \<noteq> 0 \<Longrightarrow> fst (the (pmm_alloc_frame p)) \<notin> pmm_alive p
      \<and> pmm_alive (snd (the (pmm_alloc_frame p))) = insert (fst (the (pmm_alloc_frame p))) (pmm_alive p)"
    using pmm_alloc_fresh [OF inv r] r by simp
  { assume z: "fst (the (pmm_alloc_frame p)) = 0"
    from inv show "snd (the (pmm_alloc_frame p)) = p"
    proof (cases rule: pmm_alloc_cases)
      case (found g b)
      then show ?thesis using frame_addr_div(2) [OF found(4,3)] z by simp
    qed simp }
next
  fix p a assume "pmm_inv p" "a \<in> pmm_alive p"
  then show "\<exists>p'. pmm_free_frame a p = Some p' \<and> pmm_inv p' \<and> pmm_alive p' = pmm_alive p - {a}"
    by (rule pmm_free_alive)
qed


subsection \<open>Marking and clearing ranges\<close>

definition frames :: "u32 \<Rightarrow> nat \<Rightarrow> u32 set" where
  "frames f k = {g. unat f \<le> unat g \<and> unat g < unat f + k}"

lemma frames_0 [simp]: "frames f 0 = {}"
  by (auto simp: frames_def)

lemma frames_Suc:
  "unat f + Suc k \<le> 32768 \<Longrightarrow> frames f (Suc k) = insert f (frames (f + 1) k)"
proof -
  assume "unat f + Suc k \<le> 32768"
  then have s: "unat (f + 1) = Suc (unat f)" using unat_Suc_bound [of f k 32768] by simp
  show ?thesis
    unfolding frames_def s by (auto simp: Suc_le_eq order_le_less) (metis unsigned_word_eqI)
qed

lemma clear_loop_spec:
  assumes "unat f + k \<le> 32 * length (pm_bitmap p)" "length (pm_bitmap p) \<le> 1024"
  shows "\<exists>b. clear_loop k f p = Some (p\<lparr>pm_bitmap := b\<rparr>) \<and> length b = length (pm_bitmap p)
    \<and> fb.used b = fb.used (pm_bitmap p) - frames f k"
  using assms
proof (induction k arbitrary: f p)
  case 0
  then show ?case by (intro exI [of _ "pm_bitmap p"]) simp
next
  case (Suc k)
  then have lt: "unat f < 32 * length (pm_bitmap p)" and le: "unat f + Suc k \<le> 32768" by simp_all
  obtain b where b: "clear_frame f (pm_bitmap p) = Some b" "32 * length b = 32 * length (pm_bitmap p)"
    "fb.used b = fb.used (pm_bitmap p) - {f}"
    using fb.used_clear [OF lt] by blast
  have s: "unat (f + 1) = Suc (unat f)" using unat_Suc_bound [OF le] by simp
  have "\<exists>b'. clear_loop k (f + 1) (p\<lparr>pm_bitmap := b\<rparr>) = Some ((p\<lparr>pm_bitmap := b\<rparr>)\<lparr>pm_bitmap := b'\<rparr>)
      \<and> length b' = length b \<and> fb.used b' = fb.used b - frames (f + 1) k"
    using Suc.IH [of "f + 1" "p\<lparr>pm_bitmap := b\<rparr>"] Suc.prems b(2) s by simp
  then show ?case using b frames_Suc [OF le] by auto
qed

lemma clear_loop_fault:
  assumes "32 * length (pm_bitmap p) < unat f + k" "unat f + k < 2 ^ 32" "unat f \<le> 32 * length (pm_bitmap p)"
  shows "clear_loop k f p = None"
  using assms
proof (induction k arbitrary: f p)
  case (Suc k)
  show ?case
  proof (cases "clear_frame f (pm_bitmap p)")
    case (Some b)
    then have lt: "unat f < 32 * length (pm_bitmap p)" and l: "length b = length (pm_bitmap p)"
      by (auto simp: frame_clear split: if_splits)
    have "unat (f + 1) = Suc (unat f)" using Suc.prems unat_add_small [of f 1] by simp
    then show ?thesis using Suc.IH [of "p\<lparr>pm_bitmap := b\<rparr>" "f + 1"] Suc.prems lt l Some by simp
  qed simp
qed simp

lemma mark_loop_spec:
  assumes "unat f + k \<le> 32 * length (pm_bitmap p)" "length (pm_bitmap p) \<le> 1024"
  shows "\<exists>b u. mark_loop k f p = Some (p\<lparr>pm_bitmap := b, pm_used := u\<rparr>) \<and> length b = length (pm_bitmap p)
    \<and> fb.used b = fb.used (pm_bitmap p) \<union> frames f k"
  using assms
proof (induction k arbitrary: f p)
  case 0
  then show ?case by (intro exI [of _ "pm_bitmap p"] exI [of _ "pm_used p"]) simp
next
  case (Suc k)
  then have lt: "unat f < 32 * length (pm_bitmap p)" and le: "unat f + Suc k \<le> 32768" by simp_all
  have s: "unat (f + 1) = Suc (unat f)" using unat_Suc_bound [OF le] by simp
  have t: "test_frame f (pm_bitmap p) = Some (f \<in> fb.used (pm_bitmap p))" using fb.test_used [OF lt] .
  show ?case
  proof (cases "f \<in> fb.used (pm_bitmap p)")
    case True
    then show ?thesis using Suc.IH [of "f + 1" p] Suc.prems s t frames_Suc [OF le] by auto
  next
    case False
    obtain b where b: "set_frame f (pm_bitmap p) = Some b" "32 * length b = 32 * length (pm_bitmap p)"
      "fb.used b = insert f (fb.used (pm_bitmap p))"
      using fb.used_set [OF lt] by blast
    let ?p = "p\<lparr>pm_bitmap := b, pm_used := pm_used p + 1\<rparr>"
    have "\<exists>b' u. mark_loop k (f + 1) ?p = Some (?p\<lparr>pm_bitmap := b', pm_used := u\<rparr>)
      \<and> length b' = length b \<and> fb.used b' = fb.used b \<union> frames (f + 1) k"
      using Suc.IH [of "f + 1" ?p] Suc.prems b(2) s by simp
    then show ?thesis using b t False frames_Suc [OF le] by auto
  qed
qed


lemma replicate_used: "fb.used (replicate n 0xFFFFFFFF) = {f. unat f < 32 * n}"
proof -
  have m: "(0xFFFFFFFF :: u32) = mask 32" by (simp add: mask_eq_exp_minus_1)
  show ?thesis by (auto simp: fb.used_def frame_test m bit_mask_iff)
qed

lemma frames_to: "unat s \<le> e \<Longrightarrow> frames s (e - unat s) = {g. unat s \<le> unat g \<and> unat g < e}"
  by (auto simp: frames_def)

lemma reserve_spec:
  assumes "length (pm_bitmap p) = 1024" "e \<le> 0x8000000" "s < e"
  shows "\<exists>b u. mark_loop (unat ((e + FRAME_SIZE - 1) div FRAME_SIZE) - unat (s div FRAME_SIZE)) (s div FRAME_SIZE) p
      = Some (p\<lparr>pm_bitmap := b, pm_used := u\<rparr>) \<and> length b = 1024
    \<and> fb.used b = fb.used (pm_bitmap p) \<union> {f. unat s div 4096 \<le> unat f \<and> unat f < (unat e + 4095) div 4096}"
proof -
  have e: "unat e \<le> 0x8000000" and se: "unat s < unat e" using assms by (simp_all add: word_le_nat_alt word_less_nat_alt)
  have "unat (e + FRAME_SIZE - 1) = unat e + 4095"
    using e by (simp add: FRAME_SIZE_def unat_word_ariths)
  then have ef: "unat ((e + FRAME_SIZE - 1) div FRAME_SIZE) = (unat e + 4095) div 4096"
    by (simp add: unat_div FRAME_SIZE_def)
  have sf: "unat (s div FRAME_SIZE) = unat s div 4096" by (simp add: unat_div FRAME_SIZE_def)
  have le: "unat s div 4096 \<le> (unat e + 4095) div 4096" "(unat e + 4095) div 4096 \<le> 32768"
    using se e by (auto intro: div_le_mono)
  have "unat (s div FRAME_SIZE) + ((unat e + 4095) div 4096 - unat (s div FRAME_SIZE)) \<le> 32 * length (pm_bitmap p)"
    using le assms(1) sf by simp
  from mark_loop_spec [OF this] show ?thesis
    using assms(1) frames_to [of "s div FRAME_SIZE" "(unat e + 4095) div 4096"] le sf by (simp add: ef)
qed

subsection \<open>Properties\<close>

text \<open>C12.  \<^verbatim>\<open>pmm_alloc_frame\<close> takes the lowest free frame, returns its address and marks it, and returns 0
  without a change exactly when no frame below the total is free; freeing the frame again restores
  bitmap and counter.\<close>

theorem pmm_alloc_lowest:
  assumes "pmm_inv p"
  shows "(pmm_alloc_frame p = Some (0, p) \<and> (\<forall>g. \<not> frame_free p g))
    \<or> (\<exists>g p'. frame_free p g \<and> (\<forall>h<g. \<not> frame_free p h)
         \<and> pmm_alloc_frame p = Some (g * FRAME_SIZE, p') \<and> g * FRAME_SIZE \<noteq> 0
         \<and> (\<forall>h. frame_free p' h \<longleftrightarrow> frame_free p h \<and> h \<noteq> g)
         \<and> pmm_free_frame (g * FRAME_SIZE) p' = Some p)"
  using assms
proof (cases rule: pmm_alloc_cases)
  case (found g b)
  let ?p = "p\<lparr>pm_bitmap := b, pm_used := pm_used p + 1\<rparr>"
  have gc: "unat g < 32 * length (pm_bitmap p)" using assms found by (simp add: pmm_inv_def)
  obtain b' where "set_frame g (pm_bitmap p) = Some b'" "test_frame g b' = Some True"
      "\<forall>h. h \<noteq> g \<longrightarrow> test_frame h b' = test_frame h (pm_bitmap p)"
    using fb.set_law [OF gc] by blast
  then have b: "test_frame g b = Some True" "\<forall>h. h \<noteq> g \<longrightarrow> test_frame h b = test_frame h (pm_bitmap p)"
    using found(5) by auto
  have "frame_free ?p h \<longleftrightarrow> frame_free p h \<and> h \<noteq> g" for h using b by (cases "h = g") auto
  moreover have "clear_frame g b = Some (pm_bitmap p)"
    using set_clear_restore found(1,5) by blast
  then have "pmm_free_frame (g * FRAME_SIZE) ?p = Some p"
    using found(1) b(1) frame_addr_div(1) [OF found(4)] by (simp add: pmm_free_frame_def Let_def)
  ultimately show ?thesis
    using found(1,2,6) frame_addr_div(2) [OF found(4,3)] by blast
qed blast

lemma pmm_alloc_lowest_witness:
  "\<exists>g p'. pmm_alloc_frame \<lparr>pm_total = 3, pm_used = 1, pm_highest = 3, pm_bitmap = 1 # replicate 1023 0\<rparr>
      = Some (g * FRAME_SIZE, p') \<and> g * FRAME_SIZE \<noteq> 0
    \<and> pmm_free_frame (g * FRAME_SIZE) p'
      = Some \<lparr>pm_total = 3, pm_used = 1, pm_highest = 3, pm_bitmap = 1 # replicate 1023 0\<rparr>"
proof -
  let ?p = "\<lparr>pm_total = 3, pm_used = 1, pm_highest = 3, pm_bitmap = 1 # replicate 1023 0\<rparr>"
  have "pmm_inv ?p" by (simp add: pmm_inv_def frame_test)
  moreover have "frame_free ?p 1" by (simp add: frame_test bit_1_iff)
  ultimately show ?thesis using pmm_alloc_lowest [of ?p] by metis
qed

text \<open>The loop over the memory map clears the bits of a region without comparing its end with the
  bitmap: a usable region that reaches past 128 MiB makes it write behind the bitmap.\<close>

theorem pmm_mmap_overflow:
  assumes "length (pm_bitmap p) = 1024" and "addr \<le> 0x8000000" and "0x8001000 \<le> addr + len"
    and "addr + len \<le> 0xFFFFFFFF"
  shows "pmm_mmap_entry addr len 1 p = None"
proof -
  let ?r = "addr + len"
  have a: "unat (ucast addr :: u32) = unat addr" "unat (ucast ?r :: u32) = unat ?r"
    "unat addr \<le> 0x8000000" "0x8001000 \<le> unat ?r" "unat ?r \<le> 0xFFFFFFFF"
    using assms(2-4) by (simp_all add: word_le_nat_alt unsigned_ucast_eq take_bit_nat_eq_self)
  have lt: "(ucast addr :: u32) < ucast ?r" using a by (simp add: word_less_nat_alt)
  have f: "unat ((ucast ?r :: u32) div FRAME_SIZE) = unat ?r div 4096" "unat ((ucast addr :: u32) div FRAME_SIZE) = unat addr div 4096"
    using a by (simp_all add: unat_div FRAME_SIZE_def)
  have b: "unat addr div 4096 \<le> 32768" "32769 \<le> unat ?r div 4096" "unat ?r div 4096 \<le> 0xFFFFFFFF div 4096"
    using a by (linarith, linarith, intro div_le_mono)
  have "clear_loop (unat ?r div 4096 - unat addr div 4096) (ucast addr div FRAME_SIZE) q = None"
    if "length (pm_bitmap q) = 1024" for q
    using that b by (intro clear_loop_fault) (simp_all add: f)
  moreover have "\<not> 0xFFFFFFFF < addr" "\<not> 0xFFFFFFFF < ?r" using a by (simp_all add: word_less_nat_alt)
  ultimately show ?thesis
    using assms(1) lt unfolding pmm_mmap_entry_def Let_def by (simp add: f)
qed

lemma pmm_mmap_overflow_witness:
  "pmm_mmap_entry 0x100000 0xFF00000 1 pmm_boot = None"
  using pmm_mmap_overflow [of pmm_boot "0x100000" "0xFF00000"] by (simp add: pmm_boot_def)

text \<open>The two reservations at the end of \<^verbatim>\<open>pmm_init\<close>: the first megabyte and the kernel image.\<close>

lemma reserve_boot:
  assumes "length (pm_bitmap q) = 1024" and "kernel_start < kernel_end" and "kernel_end \<le> 0x8000000"
  shows "\<exists>b u. (do { p4 \<leftarrow> reserve_range 0 0x100000 q; pmm_mark_used_region kernel_start (kernel_end - kernel_start) p4 })
      = Some (q\<lparr>pm_bitmap := b, pm_used := u\<rparr>) \<and> length b = 1024
    \<and> fb.used b = fb.used (pm_bitmap q) \<union> {f. unat f < 256}
        \<union> {f. unat kernel_start div 4096 \<le> unat f \<and> unat f < (unat kernel_end + 4095) div 4096}"
proof -
  obtain b4 u4 where b4: "reserve_range 0 0x100000 q = Some (q\<lparr>pm_bitmap := b4, pm_used := u4\<rparr>)"
    "length b4 = 1024" "fb.used b4 = fb.used (pm_bitmap q) \<union> {f. unat f < 256}"
    using reserve_spec [of q "0x100000" 0] assms(1) by (auto simp: reserve_range_def Let_def)
  obtain p4 where p4: "p4 = q\<lparr>pm_bitmap := b4, pm_used := u4\<rparr>" by blast
  have ne: "kernel_end - kernel_start \<noteq> 0" using assms(2) by simp
  obtain b5 u5 where b5: "pmm_mark_used_region kernel_start (kernel_end - kernel_start) p4
      = Some (p4\<lparr>pm_bitmap := b5, pm_used := u5\<rparr>)" "length b5 = 1024"
    "fb.used b5 = fb.used b4 \<union> {f. unat kernel_start div 4096 \<le> unat f \<and> unat f < (unat kernel_end + 4095) div 4096}"
    using reserve_spec [of p4 kernel_end kernel_start] b4(2) assms(2,3) ne
    by (auto simp: pmm_mark_used_region_def Let_def p4)
  show ?thesis using b4(1,3) b5 p4 by (intro exI [of _ b5] exI [of _ u5]) simp
qed

text \<open>Without a memory map, and with sizes that fit 32 bits, \<^verbatim>\<open>pmm_init\<close> succeeds; afterwards a frame
  below the total is in use exactly when it belongs to the first megabyte or to the kernel image.\<close>

theorem pmm_init_fallback:
  assumes "length (pm_bitmap p) = 1024" and "rd32 mbi 0 = Some flags" and "flags AND 0x40 = 0"
    and "mem_upper_kb \<le> 0x3FFBFF" and "kernel_start < kernel_end" and "kernel_end \<le> 0x8000000"
  shows "\<exists>p'. pmm_init mem_upper_kb kernel_start kernel_end mbi p = Some p'
    \<and> unat (pm_total p') = min ((1024 + unat mem_upper_kb) div 4) 32768
    \<and> (\<forall>f < pm_total p'. test_frame f (pm_bitmap p') = Some (unat f < 256
         \<or> (unat kernel_start div 4096 \<le> unat f \<and> unat f < (unat kernel_end + 4095) div 4096)))"
proof -
  obtain hi where hid: "((1024 + mem_upper_kb) * 1024) div FRAME_SIZE = hi" by blast
  let ?p1 = "p\<lparr>pm_bitmap := replicate 1024 0xFFFFFFFF, pm_highest := 0\<rparr>"
  have m: "unat mem_upper_kb \<le> 0x3FFBFF" using assms(4) by (simp add: word_le_nat_alt)
  have "unat ((1024 + mem_upper_kb) * 1024) = (1024 + unat mem_upper_kb) * 1024"
    using m by (simp add: unat_word_ariths)
  then have hi: "unat hi = (1024 + unat mem_upper_kb) div 4" unfolding hid [symmetric] by (simp add: unat_div FRAME_SIZE_def)
  let ?n = "min (unat hi) (unat MAX_FRAMES)"
  have n: "?n \<le> 32768" by (simp add: MAX_FRAMES_def)
  obtain b2 where b2: "clear_loop ?n 0 (?p1\<lparr>pm_highest := hi\<rparr>) = Some (?p1\<lparr>pm_highest := hi, pm_bitmap := b2\<rparr>)"
    "length b2 = 1024" "fb.used b2 = fb.used (replicate 1024 0xFFFFFFFF) - frames 0 ?n"
    using clear_loop_spec [of 0 ?n "?p1\<lparr>pm_highest := hi\<rparr>"] n by auto
  let ?tot = "if MAX_FRAMES < hi then MAX_FRAMES else hi"
  have tot: "unat ?tot = ?n" by (simp add: MAX_FRAMES_def word_less_nat_alt min_def)
  let ?p2 = "?p1\<lparr>pm_highest := hi, pm_bitmap := b2\<rparr>"
  obtain p3 where p3: "p3 = (let q = (if MAX_FRAMES < pm_highest ?p2 then ?p2\<lparr>pm_highest := MAX_FRAMES\<rparr> else ?p2)
      in q\<lparr>pm_total := pm_highest q\<rparr>)" by blast
  then have p3s: "pm_bitmap p3 = b2" "pm_total p3 = ?tot" by (simp_all add: Let_def)
  obtain b5 u5 where b5: "(do { p4 \<leftarrow> reserve_range 0 0x100000 p3; pmm_mark_used_region kernel_start (kernel_end - kernel_start) p4 })
      = Some (p3\<lparr>pm_bitmap := b5, pm_used := u5\<rparr>)" "length b5 = 1024"
    "fb.used b5 = fb.used b2 \<union> {f. unat f < 256}
        \<union> {f. unat kernel_start div 4096 \<le> unat f \<and> unat f < (unat kernel_end + 4095) div 4096}"
    using reserve_boot [of p3 kernel_start kernel_end] b2(2) p3s(1) assms(5,6) by auto
  have "pmm_init mem_upper_kb kernel_start kernel_end mbi p =
      (do { p4 \<leftarrow> reserve_range 0 0x100000 p3; pmm_mark_used_region kernel_start (kernel_end - kernel_start) p4 })"
    using assms(1,2,3) b2(1) unfolding pmm_init_def Let_def hid p3 by simp
  then have r: "pmm_init mem_upper_kb kernel_start kernel_end mbi p = Some (p3\<lparr>pm_bitmap := b5, pm_used := u5\<rparr>)"
    unfolding b5(1) .
  have "test_frame f b5 = Some (unat f < 256
         \<or> (unat kernel_start div 4096 \<le> unat f \<and> unat f < (unat kernel_end + 4095) div 4096))"
    if "f < ?tot" for f
  proof -
    have fn: "unat f < ?n" using that tot by (simp only: word_less_nat_alt)
    then have "unat f < 32 * length b5" using n b5(2) by linarith
    then have "test_frame f b5 = Some (f \<in> fb.used b5)" by (rule fb.test_used)
    moreover have "f \<notin> fb.used b2" using fn b2(3) by (simp add: frames_def)
    ultimately show ?thesis using b5(3) by simp
  qed
  then show ?thesis
    using r tot hi p3s(2)
    by (intro exI [of _ "p3\<lparr>pm_bitmap := b5, pm_used := u5\<rparr>"]) (simp add: MAX_FRAMES_def)
qed


lemma pmm_init_fallback_witness:
  "\<exists>p'. pmm_init 0x1FC00 0x100000 0x180000 (replicate 88 0) pmm_boot = Some p' \<and> unat (pm_total p') = 32768"
proof -
  have f: "rd32 (replicate 88 0) 0 = Some 0" by (simp add: rd32_def le32_def byte_at_def)
  show ?thesis
    using pmm_init_fallback [OF _ f, of pmm_boot "0x1FC00" "0x100000" "0x180000"] by (auto simp: pmm_boot_def)
qed

end
