(* ===== verification/Acpi.thy ===== *)
theory Acpi
  imports Serial FrameBitmap
begin

text \<open>
  The ACPI tables, \<^verbatim>\<open>arch/x86/x86/acpi.c\<close>: the search for the root pointer below 1 MiB and for the MADT and
  the HPET table in the lists of tables.

  \<open>ac_mem\<close> is the memory the tables are read from by bytes, \<open>None\<close> where an access faults; the pointers of
  the file are addresses, 0 for NULL.  The packed structures are read at the offsets of their members.
\<close>

subsection \<open>Memory and state\<close>

type_synonym memory = "addr \<Rightarrow> u8 option"

record acpi =
  ac_mem :: memory
  ac_rsdp :: addr
  ac_rsdt :: addr
  ac_xsdt :: addr
  ac_madt :: addr
  ac_hpet :: addr
  ac_log :: serial

definition mb16 :: "memory \<Rightarrow> addr \<Rightarrow> u16 option" where
  "mb16 m a = do { b0 \<leftarrow> m a; b1 \<leftarrow> m (a + 1); Some (ucast b0 OR push_bit 8 (ucast b1)) }"

definition mb32 :: "memory \<Rightarrow> addr \<Rightarrow> u32 option" where
  "mb32 m a = do { b0 \<leftarrow> m a; b1 \<leftarrow> m (a + 1); b2 \<leftarrow> m (a + 2); b3 \<leftarrow> m (a + 3);
     Some (ucast b0 OR push_bit 8 (ucast b1) OR push_bit 16 (ucast b2) OR push_bit 24 (ucast b3)) }"

definition mb64 :: "memory \<Rightarrow> addr \<Rightarrow> 64 word option" where
  "mb64 m a = do { lo \<leftarrow> mb32 m a; hi \<leftarrow> mb32 m (a + 4); Some (ucast lo OR push_bit 32 (ucast hi)) }"

definition ac_say :: "cstr \<Rightarrow> acpi \<Rightarrow> acpi option" where
  "ac_say t s = map_option (\<lambda>p. s\<lparr>ac_log := p\<rparr>) (serial_write t (ac_log s))"

definition ac_hex :: "u32 \<Rightarrow> acpi \<Rightarrow> acpi option" where
  "ac_hex v s = map_option (\<lambda>p. s\<lparr>ac_log := p\<rparr>) (serial_write_hex v (ac_log s))"

definition ac_dec :: "u32 \<Rightarrow> acpi \<Rightarrow> acpi option" where
  "ac_dec v s = map_option (\<lambda>p. s\<lparr>ac_log := p\<rparr>) (serial_write_dec v (ac_log s))"

subsection \<open>Signatures and checksums\<close>

text \<open>The second argument of the comparison is always a constant.\<close>

fun memcmp_mem :: "memory \<Rightarrow> addr \<Rightarrow> u8 list \<Rightarrow> int option" where
  "memcmp_mem m a [] = Some 0"
| "memcmp_mem m a (c # cs) = do { b \<leftarrow> m a; if b \<noteq> c then Some (uint b - uint c) else memcmp_mem m (a + 1) cs }"

fun sum_bytes :: "memory \<Rightarrow> addr \<Rightarrow> nat \<Rightarrow> u32 \<Rightarrow> u32 option" where
  "sum_bytes m p 0 acc = Some acc"
| "sum_bytes m p (Suc n) acc = do { b \<leftarrow> m p; sum_bytes m (p + 1) n (acc + ucast b) }"

definition checksum8 :: "memory \<Rightarrow> addr \<Rightarrow> u32 \<Rightarrow> u8 option" where
  "checksum8 m p len = map_option (\<lambda>v. ucast (v AND 0xFF)) (sum_bytes m p (unat len) 0)"

definition acpi_table_checksum_ok :: "memory \<Rightarrow> addr \<Rightarrow> u32 \<Rightarrow> bool option" where
  "acpi_table_checksum_ok m p len = map_option (\<lambda>c. c = 0) (checksum8 m p len)"

subsection \<open>The root pointer\<close>

definition RSD_PTR :: "u8 list" where "RSD_PTR = asc ''RSD PTR ''"

text \<open>One round of the scan: whether the structure at \<open>p\<close> is accepted.\<close>

definition rsdp_at :: "memory \<Rightarrow> addr \<Rightarrow> bool option" where
  "rsdp_at m p = do {
     c \<leftarrow> memcmp_mem m p RSD_PTR;
     if c \<noteq> 0 then Some False
     else do {
       rev \<leftarrow> m (p + 15);
       k \<leftarrow> checksum8 m p 20;
       if rev = 0 then Some (k = 0)
       else if k \<noteq> 0 then Some False
       else do { len \<leftarrow> mb32 m (p + 20); k2 \<leftarrow> checksum8 m p len; Some (k2 = 0) } } }"

partial_function (option) scan_rsdp_area :: "memory \<Rightarrow> addr \<Rightarrow> addr \<Rightarrow> addr option" where
  "scan_rsdp_area m p end_addr =
     (if p < end_addr then do {
        ok \<leftarrow> rsdp_at m p;
        if ok then Some p else scan_rsdp_area m (p + 16) end_addr }
      else Some 0)"

definition find_rsdp :: "memory \<Rightarrow> addr option" where
  "find_rsdp m = do {
     seg \<leftarrow> mb16 m 0x40E;
     let ebda = (push_bit 4 (ucast seg) :: addr);
     r \<leftarrow> (if ebda \<noteq> 0 then scan_rsdp_area m ebda (ebda + 0x4000) else Some 0);
     if r \<noteq> 0 then Some r else scan_rsdp_area m 0xE0000 0x100000 }"

subsection \<open>The lists of tables\<close>

text \<open>A pointer to a table whose checksum is bad is dropped; \<open>t\<close> is the message.\<close>

definition checked_sdt :: "addr \<Rightarrow> string \<Rightarrow> acpi \<Rightarrow> (addr \<times> acpi) option" where
  "checked_sdt p t s =
     (if p = 0 then Some (0, s)
      else do {
        len \<leftarrow> mb32 (ac_mem s) (p + 4);
        ok \<leftarrow> acpi_table_checksum_ok (ac_mem s) p len;
        if ok then Some (p, s) else do { s1 \<leftarrow> ac_say (asc t @ [10]) s; Some (0, s1) } })"

definition discover_sdt_pointers :: "acpi \<Rightarrow> acpi option" where
  "discover_sdt_pointers s =
     (if ac_rsdp s = 0 then Some s
      else do {
        rev \<leftarrow> ac_mem s (ac_rsdp s + 15);
        s1 \<leftarrow> (if 2 \<le> rev then do {
            x \<leftarrow> mb64 (ac_mem s) (ac_rsdp s + 24);
            if x \<noteq> 0 then do {
              (p, t) \<leftarrow> checked_sdt (ucast x) ''[ACPI] XSDT checksum bad, ignoring.'' s;
              Some (t\<lparr>ac_xsdt := p\<rparr>) }
            else Some s }
          else Some s);
        if ac_xsdt s1 = 0 then do {
          r \<leftarrow> mb32 (ac_mem s) (ac_rsdp s + 16);
          (p, t) \<leftarrow> checked_sdt r ''[ACPI] RSDT checksum bad, ignoring.'' s1;
          Some (t\<lparr>ac_rsdt := p\<rparr>) }
        else Some s1 })"

definition SDT_HEADER :: u32 where "SDT_HEADER = 36"

definition table_at :: "memory \<Rightarrow> u8 list \<Rightarrow> addr \<Rightarrow> bool option" where
  "table_at m sig h =
     (if h = 0 then Some False
      else do {
        c \<leftarrow> memcmp_mem m h sig;
        if c \<noteq> 0 then Some False
        else do { len \<leftarrow> mb32 m (h + 4); acpi_table_checksum_ok m h len } })"

text \<open>The entries from \<open>e\<close> on, \<open>k\<close> of them; \<open>entry\<close> reads one and \<open>w\<close> is its width.\<close>

fun find_entry :: "memory \<Rightarrow> (addr \<Rightarrow> addr option) \<Rightarrow> u32 \<Rightarrow> u8 list \<Rightarrow> nat \<Rightarrow> addr \<Rightarrow> addr option" where
  "find_entry m entry w sig 0 e = Some 0"
| "find_entry m entry w sig (Suc k) e = do {
     h \<leftarrow> entry e;
     ok \<leftarrow> table_at m sig h;
     if ok then Some h else find_entry m entry w sig k (e + w) }"

definition find_table_in_rsdt :: "acpi \<Rightarrow> u8 list \<Rightarrow> addr option" where
  "find_table_in_rsdt s sig =
     (if ac_rsdt s = 0 then Some 0
      else do {
        len \<leftarrow> mb32 (ac_mem s) (ac_rsdt s + 4);
        find_entry (ac_mem s) (mb32 (ac_mem s)) 4 sig (unat ((len - SDT_HEADER) div 4)) (ac_rsdt s + SDT_HEADER) })"

definition find_table_in_xsdt :: "acpi \<Rightarrow> u8 list \<Rightarrow> addr option" where
  "find_table_in_xsdt s sig =
     (if ac_xsdt s = 0 then Some 0
      else do {
        len \<leftarrow> mb32 (ac_mem s) (ac_xsdt s + 4);
        find_entry (ac_mem s) (\<lambda>e. map_option ucast (mb64 (ac_mem s) e)) 8 sig (unat ((len - SDT_HEADER) div 8)) (ac_xsdt s + SDT_HEADER) })"

definition locate_madt_hpet :: "acpi \<Rightarrow> acpi option" where
  "locate_madt_hpet s = do {
     (a1, h1) \<leftarrow> (if ac_xsdt s \<noteq> 0 then do {
         a \<leftarrow> find_table_in_xsdt s (asc ''APIC''); h \<leftarrow> find_table_in_xsdt s (asc ''HPET''); Some (a, h) }
       else Some (0, 0));
     (a2, h2) \<leftarrow> (if (a1 = 0 \<or> h1 = 0) \<and> ac_rsdt s \<noteq> 0 then do {
         a \<leftarrow> (if a1 = 0 then find_table_in_rsdt s (asc ''APIC'') else Some a1);
         h \<leftarrow> (if h1 = 0 then find_table_in_rsdt s (asc ''HPET'') else Some h1);
         Some (a, h) }
       else Some (a1, h1));
     Some (s\<lparr>ac_madt := a2, ac_hpet := h2\<rparr>) }"

subsection \<open>Initialisation\<close>

fun oem_text :: "memory \<Rightarrow> addr \<Rightarrow> nat \<Rightarrow> cstr option" where
  "oem_text m a 0 = Some []"
| "oem_text m a (Suc n) = do { c \<leftarrow> m a; cs \<leftarrow> oem_text m (a + 1) n; Some ((if c = 0 then 32 else c) # cs) }"

definition say_table :: "string \<Rightarrow> addr \<Rightarrow> acpi \<Rightarrow> acpi option" where
  "say_table t p s = (if p = 0 then Some s
     else do { s1 \<leftarrow> ac_say (asc t) s; s2 \<leftarrow> ac_hex p s1; ac_say [10] s2 })"

text \<open>The local APIC is at offset 36 of the MADT, the address of the HPET at offset 44 of its table.\<close>

definition acpi_init :: "acpi \<Rightarrow> acpi option" where
  "acpi_init s0 = do {
     r \<leftarrow> find_rsdp (ac_mem s0);
     let s = s0\<lparr>ac_rsdp := r\<rparr>;
     if r = 0 then ac_say (asc ''[ACPI] RSDP not found.'' @ [10]) s
     else do {
       s1 \<leftarrow> ac_say (asc ''[ACPI] RSDP found. Rev='') s;
       rev \<leftarrow> ac_mem s (r + 15);
       s2 \<leftarrow> ac_dec (ucast rev) s1;
       s3 \<leftarrow> ac_say (asc '' OEM='') s2;
       oem \<leftarrow> oem_text (ac_mem s) (r + 9) 6;
       s4 \<leftarrow> ac_say oem s3;
       s5 \<leftarrow> ac_say [10] s4;
       s6 \<leftarrow> discover_sdt_pointers s5;
       s7 \<leftarrow> say_table ''[ACPI] XSDT at '' (ac_xsdt s6) s6;
       s8 \<leftarrow> say_table ''[ACPI] RSDT at '' (ac_rsdt s7) s7;
       s9 \<leftarrow> locate_madt_hpet s8;
       s10 \<leftarrow> (if ac_madt s9 \<noteq> 0 then do {
           t1 \<leftarrow> ac_say (asc ''[ACPI] MADT at '') s9;
           t2 \<leftarrow> ac_hex (ac_madt s9) t1;
           t3 \<leftarrow> ac_say (asc '' LAPIC@ '') t2;
           a \<leftarrow> mb32 (ac_mem s9) (ac_madt s9 + 36);
           t4 \<leftarrow> ac_hex a t3;
           ac_say [10] t4 }
         else ac_say (asc ''[ACPI] MADT not found.'' @ [10]) s9);
       if ac_hpet s10 \<noteq> 0 then do {
         t1 \<leftarrow> ac_say (asc ''[ACPI] HPET at '') s10;
         t2 \<leftarrow> ac_hex (ac_hpet s10) t1;
         t3 \<leftarrow> ac_say (asc '' MMIO@ '') t2;
         a \<leftarrow> mb64 (ac_mem s10) (ac_hpet s10 + 44);
         t4 \<leftarrow> ac_hex (ucast a) t3;
         ac_say [10] t4 }
       else ac_say (asc ''[ACPI] HPET not found.'' @ [10]) s10 } }"

definition acpi_get_rsdp :: "acpi \<Rightarrow> addr" where "acpi_get_rsdp s = ac_rsdp s"
definition acpi_get_rsdt :: "acpi \<Rightarrow> addr" where "acpi_get_rsdt s = ac_rsdt s"
definition acpi_get_xsdt :: "acpi \<Rightarrow> addr" where "acpi_get_xsdt s = ac_xsdt s"
definition acpi_find_madt :: "acpi \<Rightarrow> addr" where "acpi_find_madt s = ac_madt s"
definition acpi_find_hpet :: "acpi \<Rightarrow> addr" where "acpi_find_hpet s = ac_hpet s"

subsection \<open>What the tests mean\<close>

fun chunk :: "memory \<Rightarrow> addr \<Rightarrow> nat \<Rightarrow> u8 list option" where
  "chunk m a 0 = Some []"
| "chunk m a (Suc n) = do { b \<leftarrow> m a; bs \<leftarrow> chunk m (a + 1) n; Some (b # bs) }"

definition byte_sum :: "u8 list \<Rightarrow> nat" where "byte_sum bs = sum_list (map unat bs)"

text \<open>The bytes of the structure at \<open>a\<close> add up to a multiple of 256.\<close>

definition sums_to_0 :: "memory \<Rightarrow> addr \<Rightarrow> u32 \<Rightarrow> bool" where
  "sums_to_0 m a len \<longleftrightarrow> (case chunk m a (unat len) of None \<Rightarrow> False | Some bs \<Rightarrow> 256 dvd byte_sum bs)"

definition rsdp_good :: "memory \<Rightarrow> addr \<Rightarrow> bool" where
  "rsdp_good m p \<longleftrightarrow> chunk m p 8 = Some RSD_PTR \<and> sums_to_0 m p 20
     \<and> (m (p + 15) = Some 0 \<or> (case mb32 m (p + 20) of None \<Rightarrow> False | Some len \<Rightarrow> sums_to_0 m p len))"

definition table_good :: "memory \<Rightarrow> u8 list \<Rightarrow> addr \<Rightarrow> bool" where
  "table_good m sig h \<longleftrightarrow> h \<noteq> 0 \<and> chunk m h (length sig) = Some sig
     \<and> (case mb32 m (h + 4) of None \<Rightarrow> False | Some len \<Rightarrow> sums_to_0 m h len)"

definition readable :: "memory \<Rightarrow> bool" where "readable m \<longleftrightarrow> (\<forall>a. m a \<noteq> None)"

lemma readable_byte: "readable m \<Longrightarrow> \<exists>b. m a = Some b"
  by (auto simp: readable_def)

lemma readable_words:
  assumes "readable m"
  shows "\<exists>v. mb16 m a = Some v" "\<exists>v. mb32 m a = Some v" "\<exists>v. mb64 m a = Some v"
proof -
  have 32: "\<exists>v. mb32 m a = Some v" for a
    using readable_byte [OF assms, of a] readable_byte [OF assms, of "a + 1"] readable_byte [OF assms, of "a + 2"]
      readable_byte [OF assms, of "a + 3"] by (auto simp: mb32_def)
  then show "\<exists>v. mb32 m a = Some v" .
  show "\<exists>v. mb16 m a = Some v" using readable_byte [OF assms, of a] readable_byte [OF assms, of "a + 1"] by (auto simp: mb16_def)
  show "\<exists>v. mb64 m a = Some v" using 32 [of a] 32 [of "a + 4"] by (auto simp: mb64_def)
qed

lemma readable_chunk: "readable m \<Longrightarrow> \<exists>bs. chunk m a n = Some bs"
proof (induction n arbitrary: a)
  case (Suc n)
  obtain b bs where "m a = Some b" "chunk m (a + 1) n = Some bs" using readable_byte [OF Suc.prems] Suc.IH [OF Suc.prems] by metis
  then show ?case by simp
qed simp

lemma sum_bytes_chunk: "sum_bytes m p n acc = map_option (\<lambda>bs. acc + of_nat (byte_sum bs)) (chunk m p n)"
proof (induction n arbitrary: p acc)
  case (Suc n)
  show ?case by (cases "m p"; cases "chunk m (p + 1) n") (simp_all add: Suc.IH byte_sum_def add.assoc unsigned_ucast_eq take_bit_eq_mod)
qed (simp add: byte_sum_def)

lemma checksum_zero: "checksum8 m p len = Some 0 \<longleftrightarrow> sums_to_0 m p len" "readable m \<Longrightarrow> checksum8 m p len \<noteq> None"
proof -
  have "(ucast (0 + of_nat n AND 0xFF :: u32) :: u8) = 0 \<longleftrightarrow> 256 dvd n" for n
  proof -
    have "unat (ucast (0 + of_nat n AND 0xFF :: u32) :: u8) = n mod 256"
    proof -
      have "(of_nat n AND 0xFF :: u32) = take_bit 8 (of_nat n)" by (simp add: take_bit_eq_mask mask_eq_exp_minus_1)
      then show ?thesis by (simp add: unsigned_ucast_eq unat_of_nat take_bit_eq_mod unat_mod mod_mod_cancel)
    qed
    then show ?thesis by (metis dvd_eq_mod_eq_0 unsigned_0 unsigned_eq_0_iff)
  qed
  then show "checksum8 m p len = Some 0 \<longleftrightarrow> sums_to_0 m p len"
    by (simp add: checksum8_def sum_bytes_chunk sums_to_0_def split: option.split)
  show "readable m \<Longrightarrow> checksum8 m p len \<noteq> None" using readable_chunk [of m p "unat len"] by (auto simp: checksum8_def sum_bytes_chunk)
qed

lemma memcmp_chunk: "memcmp_mem m a cs = Some 0 \<longleftrightarrow> chunk m a (length cs) = Some cs" "readable m \<Longrightarrow> memcmp_mem m a cs \<noteq> None"
proof -
  show "memcmp_mem m a cs = Some 0 \<longleftrightarrow> chunk m a (length cs) = Some cs"
    by (induction cs arbitrary: a) (auto split: bind_splits)
  show "readable m \<Longrightarrow> memcmp_mem m a cs \<noteq> None"
  proof (induction cs arbitrary: a)
    case (Cons c cs)
    then show ?case using readable_byte [OF Cons.prems, of a] by auto
  qed simp
qed

text \<open>In memory that can be read the tests decide the predicates.\<close>

lemma rsdp_at_good:
  assumes "readable m"
  shows "rsdp_at m p = Some (rsdp_good m p)"
proof -
  obtain rev len where v: "m (p + 15) = Some rev" "mb32 m (p + 20) = Some len"
    using readable_byte [OF assms] readable_words(2) [OF assms] by metis
  obtain c where c: "memcmp_mem m p RSD_PTR = Some c" using memcmp_chunk(2) [OF assms] by blast
  have l: "length RSD_PTR = 8" by (simp add: RSD_PTR_def asc_def)
  have c0: "c = 0 \<longleftrightarrow> chunk m p 8 = Some RSD_PTR" using memcmp_chunk(1) [of m p RSD_PTR] c l by simp
  obtain k k2 where k: "checksum8 m p 20 = Some k" "checksum8 m p len = Some k2" using checksum_zero(2) [OF assms] by blast
  have "k = 0 \<longleftrightarrow> sums_to_0 m p 20" "k2 = 0 \<longleftrightarrow> sums_to_0 m p len"
    using checksum_zero(1) [of m p 20] checksum_zero(1) [of m p len] k by simp_all
  then show ?thesis using v c k c0 by (auto simp: rsdp_at_def rsdp_good_def)
qed

lemma table_at_good:
  assumes "readable m"
  shows "table_at m sig h = Some (table_good m sig h)"
proof -
  obtain len where v: "mb32 m (h + 4) = Some len" using readable_words(2) [OF assms] by blast
  obtain c k where c: "memcmp_mem m h sig = Some c" "checksum8 m h len = Some k"
    using memcmp_chunk(2) [OF assms] checksum_zero(2) [OF assms] by blast
  have "c = 0 \<longleftrightarrow> chunk m h (length sig) = Some sig" "k = 0 \<longleftrightarrow> sums_to_0 m h len"
    using memcmp_chunk(1) [of m h sig] checksum_zero(1) [of m h len] c by simp_all
  then show ?thesis using v c by (auto simp: table_at_def table_good_def acpi_table_checksum_ok_def)
qed

subsection \<open>The searches\<close>

definition first_or_0 :: "(addr \<Rightarrow> bool) \<Rightarrow> addr list \<Rightarrow> addr" where
  "first_or_0 P xs = (case List.find P xs of None \<Rightarrow> 0 | Some x \<Rightarrow> x)"

lemma first_or_0_simps [simp]:
  "first_or_0 P [] = 0" "first_or_0 P (x # xs) = (if P x then x else first_or_0 P xs)"
  by (simp_all add: first_or_0_def)

lemma first_or_0_append: "0 \<notin> set xs \<Longrightarrow> first_or_0 P (xs @ ys) = (if first_or_0 P xs \<noteq> 0 then first_or_0 P xs else first_or_0 P ys)"
  by (induction xs) auto

text \<open>The multiples of 16 from \<open>p\<close> on, below \<open>e\<close>.\<close>

definition candidates :: "addr \<Rightarrow> addr \<Rightarrow> addr list" where
  "candidates p e = map (\<lambda>k. p + 16 * of_nat k) [0..<(unat e - unat p + 15) div 16]"

lemma map_upt_Suc: "map f [0..<Suc n] = f 0 # map (\<lambda>k. f (Suc k)) [0..<n]"
  by (simp add: upt_conv_Cons map_Suc_upt [symmetric] comp_def del: upt_Suc)

lemma candidates_Cons:
  assumes "p < e" and "unat e + 16 \<le> 2 ^ 32"
  shows "candidates p e = p # candidates (p + 16) e" "unat (p + 16) = unat p + 16"
proof -
  have l: "unat p < unat e" using assms(1) by (simp add: word_less_nat_alt)
  then show u: "unat (p + 16) = unat p + 16" using assms(2) by (simp add: unat_word_ariths)
  have n: "(unat e - unat p + 15) div 16 = Suc ((unat e - unat (p + 16) + 15) div 16)"
    unfolding u using l by (cases "unat e < unat p + 16") auto
  show "candidates p e = p # candidates (p + 16) e"
    unfolding candidates_def n map_upt_Suc by (simp add: algebra_simps)
qed

lemma scan_first:
  assumes "readable m" and "unat e + 16 \<le> 2 ^ 32"
  shows "scan_rsdp_area m p e = Some (first_or_0 (rsdp_good m) (candidates p e))"
proof (induction "unat e - unat p" arbitrary: p rule: less_induct)
  case less
  show ?case
  proof (cases "p < e")
    case True
    note c = candidates_Cons [OF True assms(2)]
    have "unat e - unat (p + 16) < unat e - unat p" using True c(2) by (simp add: word_less_nat_alt)
    from less [OF this] show ?thesis
      using True by (subst scan_rsdp_area.simps) (simp add: rsdp_at_good [OF assms(1)] c(1))
  next
    case False
    then have "unat e - unat p = 0" by (simp add: word_less_nat_alt)
    then have "candidates p e = []" by (simp add: candidates_def)
    then show ?thesis using False by (subst scan_rsdp_area.simps) simp
  qed
qed

definition ebda_area :: "memory \<Rightarrow> addr list" where
  "ebda_area m = (let e = push_bit 4 (ucast (the (mb16 m 0x40E))) :: addr in if e = 0 then [] else candidates e (e + 0x4000))"

lemma find_rsdp_first:
  assumes "readable m"
  shows "find_rsdp m = Some (first_or_0 (rsdp_good m) (ebda_area m @ candidates 0xE0000 0x100000))"
proof -
  obtain seg where seg: "mb16 m 0x40E = Some seg" using readable_words(1) [OF assms] by blast
  obtain e where e: "e = (push_bit 4 (ucast seg) :: addr)" by blast
  have "unat seg < 65536" using unsigned_less [of seg, where ?'a = nat] by simp
  then have u: "unat e \<le> 1048560" unfolding e by (simp add: push_bit_eq_mult unat_word_ariths unsigned_ucast_eq take_bit_eq_mod)
  then have u2: "unat (e + 0x4000) = unat e + 16384" by (simp add: unat_word_ariths)
  have nz: "0 \<notin> set (ebda_area m)"
  proof
    assume "0 \<in> set (ebda_area m)"
    then have ne: "e \<noteq> 0" and "0 \<in> set (candidates e (e + 0x4000))" by (auto simp: ebda_area_def seg e Let_def split: if_splits)
    then obtain k where k: "e + 16 * of_nat k = 0" "k < (16384 + 15) div 16" by (auto simp: candidates_def u2)
    then have "unat (16 * of_nat k :: addr) = 16 * k" by (simp add: unat_word_ariths unat_of_nat)
    then have "unat (e + 16 * of_nat k) = unat e + 16 * k" using u k(2) by (simp add: unat_word_ariths)
    then show False using k(1) ne by (simp add: word_unat_eq_iff)
  qed
  have sc: "scan_rsdp_area m e (e + 0x4000) = Some (first_or_0 (rsdp_good m) (candidates e (e + 0x4000)))"
    by (rule scan_first [OF assms]) (use u u2 in simp)
  have sb: "scan_rsdp_area m 0xE0000 0x100000 = Some (first_or_0 (rsdp_good m) (candidates 0xE0000 0x100000))"
    by (rule scan_first [OF assms]) simp
  have "(if e \<noteq> 0 then scan_rsdp_area m e (e + 0x4000) else Some 0) = Some (first_or_0 (rsdp_good m) (ebda_area m))"
    using sc by (simp add: ebda_area_def seg flip: e)
  then show ?thesis unfolding find_rsdp_def seg
    by (simp add: sb first_or_0_append [OF nz] flip: e)
qed

lemma find_entry_first:
  assumes "readable m" and "\<And>a. entry a = Some (f a)"
  shows "find_entry m entry w sig k e = Some (first_or_0 (table_good m sig) (map (\<lambda>j. f (e + w * of_nat j)) [0..<k]))"
proof (induction k arbitrary: e)
  case (Suc k)
  show ?case
    unfolding map_upt_Suc find_entry.simps Suc.IH by (simp add: assms(2) table_at_good [OF assms(1)] algebra_simps)
qed simp

subsection \<open>Finding the tables\<close>

text \<open>A table of tables whose checksum holds.\<close>

definition sound_sdt :: "memory \<Rightarrow> addr \<Rightarrow> addr" where
  "sound_sdt m p = (if p \<noteq> 0 \<and> sums_to_0 m p (the (mb32 m (p + 4))) then p else 0)"

text \<open>The tables the root tables list: those of the XSDT if there is one.\<close>

definition tables_listed :: "memory \<Rightarrow> addr \<Rightarrow> addr \<Rightarrow> addr list" where
  "tables_listed m xsdt rsdt =
     (if xsdt \<noteq> 0 then map (\<lambda>k. ucast (the (mb64 m (xsdt + 36 + 8 * of_nat k)))) [0..<unat ((the (mb32 m (xsdt + 4)) - 36) div 8)]
      else if rsdt \<noteq> 0 then map (\<lambda>k. the (mb32 m (rsdt + 36 + 4 * of_nat k))) [0..<unat ((the (mb32 m (rsdt + 4)) - 36) div 4)]
      else [])"

definition quiet :: "acpi \<Rightarrow> bool" where "quiet s \<longleftrightarrow> \<not> se_ready (ac_log s)"

lemma quiet_say [simp]:
  assumes "quiet s"
  shows "ac_say t s = Some s" "ac_hex v s = Some s" "ac_dec v s = Some s"
  using assms
  by (simp_all add: quiet_def ac_say_def ac_hex_def ac_dec_def serial_not_ready serial_dec_putcs serial_write_hex_def del: list.map upt.simps asc_def)

lemma quiet_upd [simp]:
  "quiet (s\<lparr>ac_rsdp := a\<rparr>) = quiet s" "quiet (s\<lparr>ac_rsdt := a\<rparr>) = quiet s" "quiet (s\<lparr>ac_xsdt := a\<rparr>) = quiet s"
  "quiet (s\<lparr>ac_madt := a\<rparr>) = quiet s" "quiet (s\<lparr>ac_hpet := a\<rparr>) = quiet s"
  by (simp_all add: quiet_def)

lemma checked_sdt_sound:
  assumes "readable (ac_mem s)" and "quiet s"
  shows "checked_sdt p t s = Some (sound_sdt (ac_mem s) p, s)"
proof (cases "p = 0")
  case False
  obtain len k where l: "mb32 (ac_mem s) (p + 4) = Some len" "checksum8 (ac_mem s) p len = Some k"
    using readable_words(2) [OF assms(1)] checksum_zero(2) [OF assms(1)] by blast
  have "k = 0 \<longleftrightarrow> sums_to_0 (ac_mem s) p len" using checksum_zero(1) [of "ac_mem s" p len] l by simp
  then show ?thesis using False l assms(2) by (simp add: checked_sdt_def sound_sdt_def acpi_table_checksum_ok_def)
qed (simp add: checked_sdt_def sound_sdt_def)

lemma discover_sound:
  assumes "readable (ac_mem s)" and "quiet s" and "ac_rsdp s \<noteq> 0" and "ac_xsdt s = 0" and "ac_rsdt s = 0"
    and "ac_mem s (ac_rsdp s + 15) = Some rv" and "mb64 (ac_mem s) (ac_rsdp s + 24) = Some x" and "mb32 (ac_mem s) (ac_rsdp s + 16) = Some r"
    and "xs = (if 2 \<le> rv then sound_sdt (ac_mem s) (ucast x) else 0)" and "rs = (if xs = 0 then sound_sdt (ac_mem s) r else 0)"
  shows "discover_sdt_pointers s = Some (s\<lparr>ac_xsdt := xs, ac_rsdt := rs\<rparr>)"
proof -
  have z: "s\<lparr>ac_xsdt := 0\<rparr> = s" "s\<lparr>ac_rsdt := 0\<rparr> = s" "s\<lparr>ac_xsdt := y, ac_rsdt := 0\<rparr> = s\<lparr>ac_xsdt := y\<rparr>" for y
    using assms(4,5) by (cases s; simp)+
  have c: "checked_sdt p t s = Some (sound_sdt (ac_mem s) p, s)" for p t using checked_sdt_sound [OF assms(1,2)] .
  have c2: "checked_sdt p t (s\<lparr>ac_xsdt := y\<rparr>) = Some (sound_sdt (ac_mem s) p, s\<lparr>ac_xsdt := y\<rparr>)" for p t y
    using checked_sdt_sound [of "s\<lparr>ac_xsdt := y\<rparr>"] assms(1,2) by simp
  have e: "(if 2 \<le> rv then do {
            x \<leftarrow> mb64 (ac_mem s) (ac_rsdp s + 24);
            if x \<noteq> 0 then do {
              (p, t) \<leftarrow> checked_sdt (ucast x) ''[ACPI] XSDT checksum bad, ignoring.'' s;
              Some (t\<lparr>ac_xsdt := p\<rparr>) }
            else Some s }
          else Some s) = Some (s\<lparr>ac_xsdt := xs\<rparr>)"
    using assms(7,9) z(1) by (cases "2 \<le> rv"; cases "x = 0") (simp_all add: c sound_sdt_def)
  show ?thesis
    unfolding discover_sdt_pointers_def using assms(3,6) by (simp only: if_False Option.bind_lunit e)
      (use assms(8,10) z in \<open>auto simp: c c2\<close>)
qed

lemma locate_first:
  assumes "readable (ac_mem s)" and "ac_xsdt s = 0 \<or> ac_rsdt s = 0"
  shows "locate_madt_hpet s = Some (s\<lparr>ac_madt := first_or_0 (table_good (ac_mem s) (asc ''APIC'')) (tables_listed (ac_mem s) (ac_xsdt s) (ac_rsdt s)),
    ac_hpet := first_or_0 (table_good (ac_mem s) (asc ''HPET'')) (tables_listed (ac_mem s) (ac_xsdt s) (ac_rsdt s))\<rparr>)"
proof -
  let ?m = "ac_mem s"
  have 32: "mb32 ?m a = Some (the (mb32 ?m a))" for a using readable_words(2) [OF assms(1), of a] by auto
  have 64: "map_option ucast (mb64 ?m a) = Some (ucast (the (mb64 ?m a)))" for a using readable_words(3) [OF assms(1), of a] by auto
  have r: "find_table_in_rsdt s sig = Some (first_or_0 (table_good ?m sig) (tables_listed ?m 0 (ac_rsdt s)))" for sig
  proof (cases "ac_rsdt s = 0")
    case False
    obtain len where "mb32 ?m (ac_rsdt s + 4) = Some len" using 32 by blast
    then show ?thesis
      using False find_entry_first [OF assms(1) 32, where w = 4 and sig = sig]
      by (simp add: find_table_in_rsdt_def tables_listed_def SDT_HEADER_def)
  qed (simp add: find_table_in_rsdt_def tables_listed_def)
  have x: "find_table_in_xsdt s sig = Some (first_or_0 (table_good ?m sig) (tables_listed ?m (ac_xsdt s) (ac_rsdt s)))" if "ac_xsdt s \<noteq> 0" for sig
  proof -
    obtain len where "mb32 ?m (ac_xsdt s + 4) = Some len" using 32 by blast
    then show ?thesis
      using that find_entry_first [OF assms(1) 64, where w = 8 and sig = sig]
      by (simp add: find_table_in_xsdt_def tables_listed_def SDT_HEADER_def)
  qed
  show ?thesis
  proof (cases "ac_xsdt s = 0")
    case True
    then show ?thesis by (cases "ac_rsdt s = 0") (simp_all add: locate_madt_hpet_def r tables_listed_def)
  next
    case False
    then show ?thesis using assms(2) by (simp add: locate_madt_hpet_def x)
  qed
qed

lemma quiet_table: "quiet s \<Longrightarrow> say_table t p s = Some s"
  by (simp add: say_table_def)

lemma readable_oem: "readable m \<Longrightarrow> \<exists>cs. oem_text m a n = Some cs"
proof (induction n arbitrary: a)
  case (Suc n)
  obtain b cs where "m a = Some b" "oem_text m (a + 1) n = Some cs" using readable_byte [OF Suc.prems] Suc.IH [OF Suc.prems] by metis
  then show ?case by simp
qed simp

text \<open>C36.  On a machine whose serial log is off (\<open>quiet\<close>: no port, so that no line of the log waits for one), in memory that can be
  read, \<^verbatim>\<open>acpi_init\<close> takes the first valid root pointer at a multiple of 16 in the first 16 KiB
  of the extended BIOS data area, then in the BIOS area; from revision 2 on it prefers the XSDT, takes the RSDT only when there
  is no sound XSDT, and the MADT and HPET it reports are the first tables of that one list with the signature and a
  checksum of 0.
\<close>

theorem acpi_init_finds:
  assumes "readable m" and "ac_mem s = m" and "quiet s" and "ac_rsdt s = 0" and "ac_xsdt s = 0" and "ac_madt s = 0" and "ac_hpet s = 0"
  shows "\<exists>t. acpi_init s = Some t
    \<and> ac_rsdp t = first_or_0 (rsdp_good m) (ebda_area m @ candidates 0xE0000 0x100000)
    \<and> (if ac_rsdp t = 0 then ac_xsdt t = 0 \<and> ac_rsdt t = 0
       else ac_xsdt t = (if 2 \<le> the (m (ac_rsdp t + 15)) then sound_sdt m (ucast (the (mb64 m (ac_rsdp t + 24)))) else 0)
         \<and> ac_rsdt t = (if ac_xsdt t = 0 then sound_sdt m (the (mb32 m (ac_rsdp t + 16))) else 0))
    \<and> ac_madt t = first_or_0 (table_good m (asc ''APIC'')) (tables_listed m (ac_xsdt t) (ac_rsdt t))
    \<and> ac_hpet t = first_or_0 (table_good m (asc ''HPET'')) (tables_listed m (ac_xsdt t) (ac_rsdt t))"
proof -
  obtain r where r: "r = first_or_0 (rsdp_good m) (ebda_area m @ candidates 0xE0000 0x100000)" by blast
  then have f: "find_rsdp (ac_mem s) = Some r" using find_rsdp_first [OF assms(1)] assms(2) by simp
  show ?thesis
  proof (cases "r = 0")
    case True
    then have "acpi_init s = Some (s\<lparr>ac_rsdp := 0\<rparr>)" using f assms(3) by (simp add: acpi_init_def)
    then show ?thesis using r True assms by (intro exI [of _ "s\<lparr>ac_rsdp := 0\<rparr>"]) (simp add: tables_listed_def)
  next
    case False
    let ?s = "s\<lparr>ac_rsdp := r\<rparr>"
    obtain rv x l where v: "m (r + 15) = Some rv" "mb64 m (r + 24) = Some x" "mb32 m (r + 16) = Some l"
      using readable_byte [OF assms(1)] readable_words [OF assms(1)] by metis
    obtain xs where xs: "xs = (if 2 \<le> rv then sound_sdt m (ucast x) else 0)" by blast
    obtain rs where rs: "rs = (if xs = 0 then sound_sdt m l else 0)" by blast
    have d: "discover_sdt_pointers ?s = Some (?s\<lparr>ac_xsdt := xs, ac_rsdt := rs\<rparr>)"
      using discover_sound [of ?s rv x l xs rs] v assms False xs rs by simp
    let ?a = "first_or_0 (table_good m (asc ''APIC'')) (tables_listed m xs rs)" and ?h = "first_or_0 (table_good m (asc ''HPET'')) (tables_listed m xs rs)"
    let ?t = "?s\<lparr>ac_xsdt := xs, ac_rsdt := rs, ac_madt := ?a, ac_hpet := ?h\<rparr>"
    have l: "locate_madt_hpet (?s\<lparr>ac_xsdt := xs, ac_rsdt := rs\<rparr>) = Some ?t"
      using locate_first [of "?s\<lparr>ac_xsdt := xs, ac_rsdt := rs\<rparr>"] assms(1,2) rs by simp
    obtain oem where oem: "oem_text m (r + 9) 6 = Some oem"
      using readable_oem [OF assms(1)] by blast
    obtain a b where ab: "mb32 m (?a + 36) = Some a" "mb64 m (?h + 44) = Some b" using readable_words [OF assms(1)] by metis
    have "acpi_init s = Some ?t"
      using f False v(1) assms(2,3) oem ab d l by (simp add: acpi_init_def quiet_table Let_def del: asc_def)
    then show ?thesis using r False v xs rs by (intro exI [of _ ?t]) simp
  qed
qed

text \<open>A root pointer of revision 0 at 0xE0000, an RSDT at 0xE0020 and a MADT at 0xE0050; the rest is 0.\<close>

definition demo_tables :: "u8 list" where
  "demo_tables = [82, 83, 68, 32, 80, 84, 82, 32, 229, 82, 69, 84, 65, 79, 83, 0, 32, 0, 14, 0,
     0, 0, 0, 0, 0, 0, 0, 0, 0, 0, 0, 0, 82, 83, 68, 84, 40, 0, 0, 0,
     1, 60, 0, 0, 0, 0, 0, 0, 0, 0, 0, 0, 0, 0, 0, 0, 0, 0, 0, 0,
     0, 0, 0, 0, 0, 0, 0, 0, 80, 0, 14, 0, 0, 0, 0, 0, 0, 0, 0, 0,
     65, 80, 73, 67, 44, 0, 0, 0, 3, 214, 0, 0, 0, 0, 0, 0, 0, 0, 0, 0,
     0, 0, 0, 0, 0, 0, 0, 0, 0, 0, 0, 0, 0, 0, 0, 0, 0, 0, 224, 254,
     0, 0, 0, 0]"

definition demo_acpi :: acpi where
  "demo_acpi = \<lparr>ac_mem = (\<lambda>a. Some (if 0xE0000 \<le> a \<and> a < 0xE007C then demo_tables ! unat (a - 0xE0000) else 0)),
     ac_rsdp = 0, ac_rsdt = 0, ac_xsdt = 0, ac_madt = 0, ac_hpet = 0,
     ac_log = \<lparr>se_ready = False, se_present = False, se_status = [], se_in = [], se_out = []\<rparr>\<rparr>"

lemma chunk_list:
  "(\<And>i. i < n \<Longrightarrow> m (a + of_nat i) = Some (xs ! (k + i))) \<Longrightarrow> k + n \<le> length xs \<Longrightarrow> chunk m a n = Some (take n (drop k xs))"
proof (induction n arbitrary: a k)
  case (Suc n)
  have "chunk m (a + 1) n = Some (take n (drop (Suc k) xs))"
    by (rule Suc.IH) (use Suc.prems(1) [of "Suc _"] Suc.prems(2) in \<open>auto simp: algebra_simps\<close>)
  moreover have "m a = Some (xs ! k)" using Suc.prems(1) [of 0] by simp
  moreover have "drop k xs = xs ! k # drop (Suc k) xs" using Suc.prems(2) by (simp add: Cons_nth_drop_Suc)
  ultimately show ?case by simp
qed simp

lemma demo_chunk:
  assumes "k + n \<le> 124"
  shows "chunk (ac_mem demo_acpi) (0xE0000 + of_nat k) n = Some (take n (drop k demo_tables))"
proof (rule chunk_list)
  fix i assume i: "i < n"
  have u: "unat (0xE0000 + of_nat (k + i) :: addr) = 0xE0000 + (k + i)" using i assms by (simp add: unat_word_ariths unat_of_nat)
  then have "0xE0000 \<le> (0xE0000 + of_nat (k + i) :: addr)" "0xE0000 + of_nat (k + i) < (0xE007C :: addr)"
    using i assms by (simp_all add: word_le_nat_alt word_less_nat_alt del: of_nat_add)
  moreover have "unat (0xE0000 + of_nat (k + i) - 0xE0000 :: addr) = k + i" using i assms by (simp add: unat_of_nat del: of_nat_add)
  ultimately show "ac_mem demo_acpi (0xE0000 + of_nat k + of_nat i) = Some (demo_tables ! (k + i))"
    by (simp add: demo_acpi_def add.assoc)
next
  show "k + n \<le> length demo_tables" using assms by (simp add: demo_tables_def)
qed

lemma acpi_init_finds_witness:
  "\<exists>t. acpi_init demo_acpi = Some t \<and> ac_rsdp t = 0xE0000 \<and> ac_madt t = 0xE0050 \<and> ac_hpet t = 0"
proof -
  let ?m = "ac_mem demo_acpi"
  have r: "readable ?m" by (simp add: readable_def demo_acpi_def)
  have c: "chunk ?m 0xE0000 8 = Some RSD_PTR" "chunk ?m 0xE0000 20 = Some (take 20 demo_tables)"
    "chunk ?m 0xE0020 40 = Some (take 40 (drop 32 demo_tables))" "chunk ?m 0xE0050 4 = Some (asc ''APIC'')"
    "chunk ?m 0xE0050 44 = Some (take 44 (drop 80 demo_tables))"
    using demo_chunk [of 0 8] demo_chunk [of 0 20] demo_chunk [of 32 40] demo_chunk [of 80 4] demo_chunk [of 80 44]
    by (simp_all add: RSD_PTR_def asc_def demo_tables_def)
  have w: "mb16 ?m 0x40E = Some 0" "mb32 ?m 0xE0010 = Some 0xE0020" "mb32 ?m 0xE0024 = Some 40" "mb32 ?m 0xE0044 = Some 0xE0050"
    "mb32 ?m 0xE0054 = Some 44" "?m 0xE000F = Some 0"
    by (simp_all add: mb16_def mb32_def demo_acpi_def demo_tables_def)
  have s: "sums_to_0 ?m 0xE0000 20" "sums_to_0 ?m 0xE0020 40" "sums_to_0 ?m 0xE0050 44"
    by (simp_all add: sums_to_0_def c byte_sum_def demo_tables_def)
  have len: "length (asc ''APIC'') = 4" "length (asc ''HPET'') = 4" "asc ''APIC'' \<noteq> asc ''HPET''" by (simp_all add: asc_def)
  have g: "rsdp_good ?m 0xE0000" "table_good ?m (asc ''APIC'') 0xE0050" "\<not> table_good ?m (asc ''HPET'') 0xE0050"
    using c(1,4) w s len by (simp_all add: rsdp_good_def table_good_def del: asc_def chunk.simps)
  have cand: "candidates 0xE0000 0x100000 = 0xE0000 # candidates 0xE0010 0x100000" using candidates_Cons(1) [of "0xE0000" "0x100000"] by simp
  obtain t where t: "acpi_init demo_acpi = Some t"
    "ac_rsdp t = first_or_0 (rsdp_good ?m) (ebda_area ?m @ candidates 0xE0000 0x100000)"
    "if ac_rsdp t = 0 then ac_xsdt t = 0 \<and> ac_rsdt t = 0
       else ac_xsdt t = (if 2 \<le> the (?m (ac_rsdp t + 15)) then sound_sdt ?m (ucast (the (mb64 ?m (ac_rsdp t + 24)))) else 0)
         \<and> ac_rsdt t = (if ac_xsdt t = 0 then sound_sdt ?m (the (mb32 ?m (ac_rsdp t + 16))) else 0)"
    "ac_madt t = first_or_0 (table_good ?m (asc ''APIC'')) (tables_listed ?m (ac_xsdt t) (ac_rsdt t))"
    "ac_hpet t = first_or_0 (table_good ?m (asc ''HPET'')) (tables_listed ?m (ac_xsdt t) (ac_rsdt t))"
    using acpi_init_finds [OF r refl, of] by (auto simp: quiet_def demo_acpi_def)
  have "ac_rsdp t = 0xE0000" using t(2) w(1) g(1) cand by (simp add: ebda_area_def)
  moreover from this have "ac_xsdt t = 0" "ac_rsdt t = 0xE0020" using t(3) w s(2) by (simp_all add: sound_sdt_def)
  moreover from this have "tables_listed ?m (ac_xsdt t) (ac_rsdt t) = [0xE0050]" using w by (simp add: tables_listed_def)
  ultimately show ?thesis using t(1,4,5) g by simp
qed

end
