(* ===== verification/BlockDev.thy ===== *)
theory BlockDev
  imports CStrings
begin

text \<open>
  The block device registry \<^verbatim>\<open>kernel/block.c\<close> with \<^verbatim>\<open>include/kernel/block.h\<close>.  The state a driver's
  read callback works on has type \<open>'d\<close>; the callback returns its status, the bytes it has stored
  into the buffer and the new device state.  A null name or callback is \<open>None\<close>.

  The comparison loop of \<^verbatim>\<open>blk_find\<close> is one more string equality, so the lemmas about table lookup
  apply to it.  The last section is the sector-level disk that the file-system theories read from
  through this registry.
\<close>

record 'd block_dev =
  bd_name :: "u8 list option"
  bd_sector_size :: u32
  bd_sectors :: u32
  bd_read :: "(u32 \<Rightarrow> u32 \<Rightarrow> 'd \<Rightarrow> int \<times> u8 list \<times> 'd) option"

definition MAX_BLK_DEVS :: nat where "MAX_BLK_DEVS = 8"

text \<open>\<^verbatim>\<open>g_blk_devs[0 .. g_blk_cnt)\<close>.\<close>

type_synonym 'd blk_reg = "'d block_dev list"

definition blk_register :: "'d block_dev option \<Rightarrow> 'd blk_reg \<Rightarrow> int \<times> 'd blk_reg" where
  "blk_register dev devs =
     (case dev of
        None \<Rightarrow> (-1, devs)
      | Some d \<Rightarrow>
          if bd_read d = None \<or> bd_name d = None then (-1, devs)
          else if MAX_BLK_DEVS \<le> length devs then (-2, devs)
          else (0, devs @ [d]))"

definition blk_count :: "'d blk_reg \<Rightarrow> int" where
  "blk_count devs = int (length devs)"

definition blk_get :: "int \<Rightarrow> 'd blk_reg \<Rightarrow> 'd block_dev option" where
  "blk_get i devs = (if i < 0 \<or> int (length devs) \<le> i then None else Some (devs ! nat i))"

text \<open>The inner loop of \<^verbatim>\<open>blk_find\<close> and the test behind it.\<close>

fun blk_name_eq :: "u8 list \<Rightarrow> u8 list \<Rightarrow> bool option" where
  "blk_name_eq (a # s) (b # t) =
     (if a \<noteq> 0 \<and> b \<noteq> 0 \<and> a = b then blk_name_eq s t else Some (a = 0 \<and> b = 0))"
| "blk_name_eq _ _ = None"

fun blk_find_loop :: "u8 list \<Rightarrow> 'd blk_reg \<Rightarrow> 'd block_dev option option" where
  "blk_find_loop name [] = Some None"
| "blk_find_loop name (d # ds) =
     (case bd_name d of
        None \<Rightarrow> blk_find_loop name ds
      | Some a \<Rightarrow> do { e \<leftarrow> blk_name_eq a name; if e then Some (Some d) else blk_find_loop name ds })"

definition blk_find :: "u8 list option \<Rightarrow> 'd blk_reg \<Rightarrow> 'd block_dev option option" where
  "blk_find name devs = (case name of None \<Rightarrow> Some None | Some n \<Rightarrow> blk_find_loop n devs)"

text \<open>\<^verbatim>\<open>buf\<close> is \<open>True\<close> when the destination pointer is not null.\<close>

definition blk_read :: "'d block_dev option \<Rightarrow> u32 \<Rightarrow> u32 \<Rightarrow> bool \<Rightarrow> 'd \<Rightarrow> int \<times> u8 list \<times> 'd" where
  "blk_read dev lba count buf s =
     (case dev of
        None \<Rightarrow> (-1, [], s)
      | Some d \<Rightarrow> (case bd_read d of
            None \<Rightarrow> (-1, [], s)
          | Some rd \<Rightarrow> if \<not> buf \<or> count = 0 then (-1, [], s) else rd lba count s))"

definition blk_read_byname :: "u8 list option \<Rightarrow> u32 \<Rightarrow> u32 \<Rightarrow> bool \<Rightarrow> 'd blk_reg \<Rightarrow> 'd
    \<Rightarrow> (int \<times> u8 list \<times> 'd) option" where
  "blk_read_byname name lba count buf devs s = do {
     d \<leftarrow> blk_find name devs;
     (case d of None \<Rightarrow> Some (-1, [], s) | Some dv \<Rightarrow> Some (blk_read (Some dv) lba count buf s)) }"

subsection \<open>The sector-level disk\<close>

text \<open>Reading a sector fails with a negative status or yields its 512 bytes.\<close>

type_synonym disk = "u32 \<Rightarrow> int + u8 list"

fun disk_sectors :: "disk \<Rightarrow> u32 \<Rightarrow> nat \<Rightarrow> int \<times> u8 list" where
  "disk_sectors D l 0 = (0, [])"
| "disk_sectors D l (Suc n) =
     (case D l of
        Inl rc \<Rightarrow> (rc, [])
      | Inr b \<Rightarrow> (case disk_sectors D (l + 1) n of (rc, bs) \<Rightarrow> (rc, b @ bs)))"

definition disk_dev :: "disk block_dev" where
  "disk_dev = \<lparr>bd_name = Some (asc ''hda'' @ [0]), bd_sector_size = 512, bd_sectors = 0,
     bd_read = Some (\<lambda>lba count D. case disk_sectors D lba (unat count) of (rc, bs) \<Rightarrow> (rc, bs, D))\<rparr>"

definition disk_ok :: "disk \<Rightarrow> bool" where
  "disk_ok D \<longleftrightarrow> (\<forall>l. case D l of Inl rc \<Rightarrow> rc < 0 | Inr b \<Rightarrow> length b = 512)"

subsection \<open>Lookup\<close>

lemma blk_name_eq_spec:
  "cstr_ok a \<Longrightarrow> cstr_ok b \<Longrightarrow> blk_name_eq (a @ 0 # r) (b @ 0 # t) = Some (a = b)"
proof (induction a arbitrary: b)
  case Nil
  then show ?case by (cases b) auto
next
  case (Cons c a)
  then show ?case by (cases b) auto
qed

interpretation bn: string_eq blk_name_eq
  by unfold_locales (rule blk_name_eq_spec)

text \<open>A registry whose devices all have a name: what \<^verbatim>\<open>blk_register\<close> accepts.\<close>

definition blk_reg_ok :: "'d blk_reg \<Rightarrow> bool" where
  "blk_reg_ok devs \<longleftrightarrow> length devs \<le> MAX_BLK_DEVS
     \<and> (\<forall>d\<in>set devs. bd_read d \<noteq> None \<and> (\<exists>n. bd_name d = Some n \<and> cstring n))"

lemma blk_find_loop_table:
  "\<forall>d\<in>set devs. bd_name d \<noteq> None \<Longrightarrow>
   blk_find_loop key devs = map_option (map_option (\<lambda>i. devs ! i)) (table_find blk_name_eq (map (the \<circ> bd_name) devs) key)"
proof (induction devs)
  case (Cons d ds)
  then obtain n where n: "bd_name d = Some n" by auto
  then show ?case
    using Cons by (auto simp: option.map_comp o_def split: option.splits bool.splits)
qed simp

lemma blk_find_first:
  assumes ok: "blk_reg_ok devs" and key: "cstring key"
  shows "blk_find (Some key) devs = Some (find (\<lambda>d. cstr_at (the (bd_name d)) = cstr_at key) devs)"
proof -
  let ?nm = "the \<circ> bd_name"
  have names: "\<forall>d\<in>set devs. bd_name d \<noteq> None" "\<forall>n\<in>set (map ?nm devs). cstring n"
    using ok by (auto simp: blk_reg_ok_def)
  have f: "find P xs = (if \<exists>x\<in>set xs. P x then Some (xs ! length (takeWhile (\<lambda>x. \<not> P x) xs)) else None)"
    for P and xs :: "'d block_dev list"
    by (induction xs) auto
  show ?thesis
    unfolding blk_find_def option.case blk_find_loop_table [OF names(1)]
      bn.table_find_first [OF names(2) key] f
    by (auto simp: takeWhile_map o_def) (metis (mono_tags, lifting) image_eqI)
qed

lemma blk_register_ok:
  assumes "blk_reg_ok devs" "\<And>n. bd_name d = Some n \<Longrightarrow> cstring n"
  shows "blk_reg_ok (snd (blk_register (Some d) devs))"
  using assms by (auto simp: blk_register_def blk_reg_ok_def)

lemma disk_sectors_length:
  "disk_ok D \<Longrightarrow> fst (disk_sectors D l n) = 0 \<Longrightarrow> length (snd (disk_sectors D l n)) = 512 * n"
proof (induction n arbitrary: l)
  case (Suc n)
  then show ?case
    by (auto simp: disk_ok_def split: sum.splits prod.splits)
      (metis (no_types, lifting) fst_conv snd_conv less_irrefl old.sum.simps(5) old.sum.simps(6))+
qed simp

subsection \<open>Properties\<close>

text \<open>In a registry built by \<^verbatim>\<open>blk_register\<close>, a device registered under a name no earlier device has is
  what \<^verbatim>\<open>blk_find\<close> returns for that name, and every other lookup is unchanged.\<close>

theorem blk_register_find:
  assumes "blk_reg_ok devs" and "blk_register (Some d) devs = (0, devs')" and "bd_name d = Some n"
    and "cstring n" and "cstring key" and "\<forall>e\<in>set devs. cstr_at (the (bd_name e)) \<noteq> cstr_at n"
  shows "blk_find (Some key) devs' =
    (if cstr_at key = cstr_at n then Some (Some d) else blk_find (Some key) devs)"
proof -
  have d': "devs' = devs @ [d]"
    using assms(2) by (auto simp: blk_register_def split: if_splits)
  have "blk_reg_ok devs'" using blk_register_ok [OF assms(1), of d] assms(2,3,4) by simp
  moreover have "find P (xs @ [d]) = (case find P xs of None \<Rightarrow> (if P d then Some d else None) | s \<Rightarrow> s)"
    for P xs by (induction xs) auto
  moreover have "cstr_at key = cstr_at n \<Longrightarrow> find (\<lambda>d. cstr_at (the (bd_name d)) = cstr_at key) devs = None"
    using assms(6) by (simp add: find_None_iff)
  ultimately show ?thesis
    using assms(1,3,5) by (auto simp: d' blk_find_first split: option.splits)
qed

lemma blk_register_find_witness:
  "blk_find (Some (asc ''hda'' @ [0])) (snd (blk_register (Some disk_dev) [])) = Some (Some disk_dev)"
proof -
  have r: "blk_register (Some disk_dev) [] = (0, [disk_dev])"
    by (simp add: blk_register_def disk_dev_def MAX_BLK_DEVS_def)
  show ?thesis
    using blk_register_find [of "[]" disk_dev "[disk_dev]" "asc ''hda'' @ [0]" "asc ''hda'' @ [0]"] r
    by (simp add: blk_reg_ok_def disk_dev_def)
qed

end
