(* ===== verification/AtaDisk.thy ===== *)
theory AtaDisk
  imports BlockDev
begin

text \<open>
  The ATA driver \<^verbatim>\<open>drivers/ata/ata.c\<close>: polled PIO on the primary master with LBA28 addressing.  The
  controller is behind the \<open>ports\<close> and stays a parameter; what the driver relies on is the named
  hypothesis \<open>ata_conforms\<close>, what the ATA standard says of the task file registers and of the command
  \<^verbatim>\<open>READ SECTORS\<close>: the registers may only be written while no command is going on, the command transfers as many
  sectors as the sector count register says (256 for 0), one after the other, and it ends with an error status at a
  sector that does not exist or cannot be read.  Under it the driver reads the sectors of the disk, with the sector
  number cut to 28 bits, which is the sector-level disk of \<^verbatim>\<open>BlockDev\<close>.
\<close>

definition ATA_REG_DATA :: u16 where "ATA_REG_DATA = 0x1F0"
definition ATA_REG_SECCNT :: u16 where "ATA_REG_SECCNT = 0x1F2"
definition ATA_REG_LBA0 :: u16 where "ATA_REG_LBA0 = 0x1F3"
definition ATA_REG_LBA1 :: u16 where "ATA_REG_LBA1 = 0x1F4"
definition ATA_REG_LBA2 :: u16 where "ATA_REG_LBA2 = 0x1F5"
definition ATA_REG_HDDEVSEL :: u16 where "ATA_REG_HDDEVSEL = 0x1F6"
definition ATA_REG_STATUS :: u16 where "ATA_REG_STATUS = 0x1F7"
definition ATA_REG_COMMAND :: u16 where "ATA_REG_COMMAND = 0x1F7"

definition ATA_CMD_IDENTIFY :: u8 where "ATA_CMD_IDENTIFY = 0xEC"
definition ATA_CMD_READ_SECT :: u8 where "ATA_CMD_READ_SECT = 0x20"

definition ATA_SR_BSY :: u8 where "ATA_SR_BSY = 0x80"
definition ATA_SR_DF :: u8 where "ATA_SR_DF = 0x20"
definition ATA_SR_DRQ :: u8 where "ATA_SR_DRQ = 0x08"
definition ATA_SR_ERR :: u8 where "ATA_SR_ERR = 0x01"

lemmas ata_regs = ATA_REG_DATA_def ATA_REG_SECCNT_def ATA_REG_LBA0_def ATA_REG_LBA1_def
  ATA_REG_LBA2_def ATA_REG_HDDEVSEL_def ATA_REG_STATUS_def ATA_REG_COMMAND_def
  ATA_CMD_IDENTIFY_def ATA_CMD_READ_SECT_def ATA_SR_BSY_def ATA_SR_DF_def ATA_SR_DRQ_def ATA_SR_ERR_def

subsection \<open>Polling\<close>

fun ata_poll_loop :: "'d ports \<Rightarrow> bool \<Rightarrow> nat \<Rightarrow> 'd \<Rightarrow> int \<times> 'd" where
  "ata_poll_loop P check_drq 0 d = (-3, d)"
| "ata_poll_loop P check_drq (Suc n) d =
     (case p_in P ATA_REG_STATUS d of (st, d1) \<Rightarrow>
        if st AND ATA_SR_BSY = 0 then
          (if check_drq then
             (if st AND ATA_SR_ERR \<noteq> 0 then (-1, d1)
              else if st AND ATA_SR_DF \<noteq> 0 then (-2, d1)
              else if st AND ATA_SR_DRQ \<noteq> 0 then (0, d1)
              else ata_poll_loop P check_drq n d1)
           else (0, d1))
        else ata_poll_loop P check_drq n d1)"

definition ata_poll :: "'d ports \<Rightarrow> bool \<Rightarrow> 'd \<Rightarrow> int \<times> 'd" where
  "ata_poll P check_drq d = ata_poll_loop P check_drq 100000 d"

subsection \<open>Identification\<close>

definition ata_select_master :: "'d ports \<Rightarrow> 'd \<Rightarrow> 'd" where
  "ata_select_master P d =
     (let rd = (\<lambda>d. snd (p_in P ATA_REG_STATUS d)) in
      rd (rd (rd (rd (p_out P ATA_REG_HDDEVSEL 0xE0 d)))))"

text \<open>The wait for DRQ has no bound: \<open>None\<close> when it never ends.\<close>

partial_function (option) ata_wait_drq :: "'d ports \<Rightarrow> 'd \<Rightarrow> (int \<times> 'd) option" where
  "ata_wait_drq P d =
     (case p_in P ATA_REG_STATUS d of (st, d1) \<Rightarrow>
        if st AND ATA_SR_ERR \<noteq> 0 then Some (-3, d1)
        else if st AND ATA_SR_DF \<noteq> 0 then Some (-4, d1)
        else if st AND ATA_SR_DRQ \<noteq> 0 then Some (0, d1)
        else ata_wait_drq P d1)"

definition ata_identify_drive :: "'d ports \<Rightarrow> 'd \<Rightarrow> (int \<times> u8 list \<times> 'd) option" where
  "ata_identify_drive P d0 =
     (let d1 = ata_select_master P d0;
          d2 = p_out P ATA_REG_COMMAND ATA_CMD_IDENTIFY
                (p_out P ATA_REG_LBA2 0 (p_out P ATA_REG_LBA1 0 (p_out P ATA_REG_LBA0 0
                  (p_out P ATA_REG_SECCNT 0 d1))))
      in case ata_poll P False d2 of (rc, d3) \<Rightarrow>
        if rc < 0 then Some (-1, [], d3)
        else (case p_in P ATA_REG_STATUS d3 of (st, d4) \<Rightarrow>
          if st = 0 then Some (-2, [], d4)
          else do {
            (rc, d5) \<leftarrow> ata_wait_drq P d4;
            if rc < 0 then Some (rc, [], d5)
            else (case p_insw P ATA_REG_DATA 256 d5 of (bs, d6) \<Rightarrow> Some (0, bs, d6))
          }))"

subsection \<open>Reading\<close>

definition ata_setup :: "'d ports \<Rightarrow> u32 \<Rightarrow> 'd \<Rightarrow> 'd" where
  "ata_setup P l d =
     p_out P ATA_REG_COMMAND ATA_CMD_READ_SECT
       (p_out P ATA_REG_LBA2 (ucast (drop_bit 16 l AND 0xFF))
         (p_out P ATA_REG_LBA1 (ucast (drop_bit 8 l AND 0xFF))
           (p_out P ATA_REG_LBA0 (ucast (l AND 0xFF))
             (p_out P ATA_REG_SECCNT 1
               (p_out P ATA_REG_HDDEVSEL (ucast (0xE0 OR (drop_bit 24 l AND 0x0F))) d)))))"

text \<open>The loop from sector \<open>l\<close> on, \<open>k\<close> sectors remaining; the bytes are those stored into the buffer.\<close>

fun ata_read_loop :: "'d ports \<Rightarrow> u32 \<Rightarrow> nat \<Rightarrow> 'd \<Rightarrow> int \<times> u8 list \<times> 'd" where
  "ata_read_loop P l 0 d = (0, [], d)"
| "ata_read_loop P l (Suc k) d =
     (case ata_poll P True (ata_setup P l d) of (rc, d1) \<Rightarrow>
        if rc < 0 then (rc, [], d1)
        else (case p_insw P ATA_REG_DATA 256 d1 of (bs, d2) \<Rightarrow>
          (case ata_read_loop P (l + 1) k d2 of (rc', rest, d3) \<Rightarrow> (rc', bs @ rest, d3))))"

definition ata_read28_lba :: "'d ports \<Rightarrow> u32 \<Rightarrow> u32 \<Rightarrow> 'd \<Rightarrow> int \<times> u8 list \<times> 'd" where
  "ata_read28_lba P lba count d =
     (if count = 0 then (0, [], d) else ata_read_loop P lba (unat count) d)"

text \<open>Words 60 and 61 of the identification data are its bytes 120 to 123.\<close>

definition ata_hda :: "'d ports \<Rightarrow> u8 list \<Rightarrow> 'd block_dev" where
  "ata_hda P idbuf = \<lparr>bd_name = Some (asc ''hda'' @ [0]), bd_sector_size = 512,
     bd_sectors = le32 idbuf 120, bd_read = Some (ata_read28_lba P)\<rparr>"

definition ata_init :: "'d ports \<Rightarrow> 'd blk_reg \<Rightarrow> 'd \<Rightarrow> ('d blk_reg \<times> 'd) option" where
  "ata_init P devs d = do {
     (rc, idbuf, d') \<leftarrow> ata_identify_drive P d;
     if rc = 0 then Some (snd (blk_register (Some (ata_hda P idbuf)) devs), d')
     else Some (devs, d') }"

subsection \<open>The hardware the driver relies on\<close>

text \<open>
  A controller as the standard describes it to the host: the task file registers and what the device is doing, which
  is nothing, or a transfer that stands before sector \<open>l\<close> with \<open>n\<close> sectors to go.
\<close>

datatype ata_phase = Ata_idle | Ata_transfer nat nat

record ata_view =
  av_count :: u8
  av_lba0 :: u8
  av_lba1 :: u8
  av_lba2 :: u8
  av_dev :: u8
  av_phase :: ata_phase

definition ata_lba :: "ata_view \<Rightarrow> nat" where
  "ata_lba v = unat (av_lba0 v) + 2 ^ 8 * unat (av_lba1 v) + 2 ^ 16 * unat (av_lba2 v) + 2 ^ 24 * unat (av_dev v AND 0xF)"

definition ata_sectors :: "ata_view \<Rightarrow> nat" where
  "ata_sectors v = (if av_count v = 0 then 256 else unat (av_count v))"

text \<open>A sector of the medium: its contents, or how reading it fails.\<close>

datatype ata_failure = Ata_error | Ata_device_fault

type_synonym medium = "nat \<Rightarrow> ata_failure + u8 list"

text \<open>After \<open>n\<close> reads of the status register in which the device is busy, or shows nothing yet, the status is \<open>Q\<close>.\<close>

fun ata_shows :: "'d ports \<Rightarrow> (u8 \<Rightarrow> bool) \<Rightarrow> nat \<Rightarrow> 'd \<Rightarrow> 'd \<Rightarrow> bool" where
  "ata_shows P Q 0 d d1 \<longleftrightarrow> (case p_in P 0x1F7 d of (st, d') \<Rightarrow> d' = d1 \<and> Q st)"
| "ata_shows P Q (Suc n) d d1 \<longleftrightarrow> (case p_in P 0x1F7 d of (st, d') \<Rightarrow>
     (st AND 0x80 \<noteq> 0 \<or> st AND 0x01 = 0 \<and> st AND 0x20 = 0 \<and> st AND 0x08 = 0) \<and> ata_shows P Q n d' d1)"

definition st_ready :: "u8 \<Rightarrow> bool" where "st_ready st \<longleftrightarrow> st AND 0x80 = 0 \<and> st AND 0x01 = 0 \<and> st AND 0x20 = 0 \<and> st AND 0x08 \<noteq> 0"
definition st_error :: "u8 \<Rightarrow> bool" where "st_error st \<longleftrightarrow> st AND 0x80 = 0 \<and> st AND 0x01 \<noteq> 0"
definition st_fault :: "u8 \<Rightarrow> bool" where "st_fault st \<longleftrightarrow> st AND 0x80 = 0 \<and> st AND 0x01 = 0 \<and> st AND 0x20 \<noteq> 0"

text \<open>
  The hypothesis, \<open>I\<close> being the states of the device in which it answers and \<open>view\<close> what they look like: when it is
  idle a write to a register changes that register; \<^verbatim>\<open>READ SECTORS\<close> to the master in LBA mode starts a transfer of the
  sectors addressed; a transfer offers the next sector at the data port and goes on behind it, until its last; at a
  sector that cannot be read it ends, with the error bit, or with a device fault, after which nothing is known.  The
  one thing that is not in the standard is that a device shows its status within as many reads as the driver waits.
\<close>

definition ata_conforms :: "'d ports \<Rightarrow> ('d \<Rightarrow> bool) \<Rightarrow> ('d \<Rightarrow> ata_view) \<Rightarrow> medium \<Rightarrow> bool" where
  "ata_conforms P I view sec \<longleftrightarrow>
     (\<forall>d v. I d \<and> av_phase (view d) = Ata_idle \<longrightarrow>
        I (p_out P 0x1F2 v d) \<and> view (p_out P 0x1F2 v d) = (view d)\<lparr>av_count := v\<rparr>
      \<and> I (p_out P 0x1F3 v d) \<and> view (p_out P 0x1F3 v d) = (view d)\<lparr>av_lba0 := v\<rparr>
      \<and> I (p_out P 0x1F4 v d) \<and> view (p_out P 0x1F4 v d) = (view d)\<lparr>av_lba1 := v\<rparr>
      \<and> I (p_out P 0x1F5 v d) \<and> view (p_out P 0x1F5 v d) = (view d)\<lparr>av_lba2 := v\<rparr>
      \<and> I (p_out P 0x1F6 v d) \<and> view (p_out P 0x1F6 v d) = (view d)\<lparr>av_dev := v\<rparr>)
   \<and> (\<forall>d. I d \<and> av_phase (view d) = Ata_idle \<and> av_dev (view d) AND 0xF0 = 0xE0 \<longrightarrow>
        I (p_out P 0x1F7 0x20 d) \<and> av_phase (view (p_out P 0x1F7 0x20 d)) = Ata_transfer (ata_lba (view d)) (ata_sectors (view d)))
   \<and> (\<forall>d l n. I d \<and> av_phase (view d) = Ata_transfer l n \<longrightarrow> (\<exists>k<100000. \<exists>d1. (case sec l of
          Inr bs \<Rightarrow> ata_shows P st_ready k d d1 \<and> (\<exists>d2. p_insw P 0x1F0 256 d1 = (bs, d2) \<and> I d2
            \<and> av_phase (view d2) = (if n \<le> 1 then Ata_idle else Ata_transfer (l + 1) (n - 1)))
        | Inl Ata_error \<Rightarrow> ata_shows P st_error k d d1 \<and> I d1 \<and> av_phase (view d1) = Ata_idle
        | Inl Ata_device_fault \<Rightarrow> ata_shows P st_fault k d d1)))"

lemma ata_poll_shows:
  assumes "ata_shows P Q n d d1" and "n < m" and q: "\<And>st. Q st \<Longrightarrow> st AND 0x80 = 0 \<and> (if st AND 0x01 \<noteq> 0 then rc = -1
    else if st AND 0x20 \<noteq> 0 then rc = -2 else st AND 0x08 \<noteq> 0 \<and> rc = 0)"
  shows "ata_poll_loop P True m d = (rc, d1)"
  using assms(1,2)
proof (induction n arbitrary: d m)
  case 0
  obtain st d' where st: "p_in P 0x1F7 d = (st, d')" by fastforce
  with 0 have "Q st" "d' = d1" by simp_all
  then show ?case using q [of st] st 0 by (cases m) (auto simp: ata_regs split: if_splits)
next
  case (Suc n)
  obtain j where j: "m = Suc j" "n < j" using Suc.prems(2) by (cases m) auto
  obtain st d' where st: "p_in P 0x1F7 d = (st, d')" by fastforce
  then have s: "st AND 0x80 \<noteq> 0 \<or> st AND 0x01 = 0 \<and> st AND 0x20 = 0 \<and> st AND 0x08 = 0" "ata_shows P Q n d' d1"
    using Suc.prems(1) by simp_all
  have "ata_poll_loop P True m d = ata_poll_loop P True j d'" using st s(1) j(1) by (auto simp: ata_regs)
  then show ?case using Suc.IH [OF s(2) j(2)] by simp
qed

text \<open>The registers hold the low 28 bits of the sector number.\<close>

lemma lba28_registers:
  "unat (ucast (l AND 0xFF) :: u8) + 2 ^ 8 * unat (ucast (drop_bit 8 l AND 0xFF) :: u8)
    + 2 ^ 16 * unat (ucast (drop_bit 16 l AND 0xFF) :: u8)
    + 2 ^ 24 * unat ((ucast (0xE0 OR (drop_bit 24 (l :: u32) AND 0x0F)) :: u8) AND 0xF)
   = unat l mod 2 ^ 28"
proof -
  have ff: "x AND 0xFF = take_bit 8 x" for x :: u32 by (simp add: take_bit_eq_mask mask_eq_exp_minus_1)
  have b: "unat (ucast (drop_bit n l AND 0xFF) :: u8) = unat l div 2 ^ n mod 256" for n
  proof -
    have "unat (ucast (drop_bit n l AND 0xFF) :: u8) = take_bit 8 (drop_bit n (unat l))"
      unfolding ff by (simp only: unsigned_ucast_eq unsigned_take_bit_eq unat_drop_bit_eq) simp
    then show ?thesis by (simp add: take_bit_eq_mod drop_bit_eq_div)
  qed
  have h8: "(ucast (0xE0 OR (drop_bit 24 l AND 0x0F)) :: u8) AND 0xF = ucast (drop_bit 24 l AND 0x0F)"
  proof (rule bit_word_eqI)
    fix n assume "n < LENGTH(8)"
    then have "n \<in> {0,1,2,3,4,5,6,7}" by auto
    then show "bit ((ucast (0xE0 OR (drop_bit 24 l AND 0x0F)) :: u8) AND 0xF) n = bit (ucast (drop_bit 24 l AND 0x0F) :: u8) n"
      by (auto simp: bit_simps)
  qed
  have h: "unat (ucast (drop_bit 24 l AND 0x0F) :: u8) = unat l div 2 ^ 24 mod 16"
  proof -
    have "(drop_bit 24 l AND 0x0F) = take_bit 4 (drop_bit 24 l)" by (simp add: take_bit_eq_mask mask_eq_exp_minus_1)
    then have "unat (ucast (drop_bit 24 l AND 0x0F) :: u8) = take_bit 8 (take_bit 4 (drop_bit 24 (unat l)))"
      by (simp only: unsigned_ucast_eq unsigned_take_bit_eq unat_drop_bit_eq) simp
    then show ?thesis by (simp add: take_bit_eq_mod drop_bit_eq_div)
  qed
  have "x mod 2 ^ 28 = x mod 256 + 2 ^ 8 * (x div 2 ^ 8 mod 256) + 2 ^ 16 * (x div 2 ^ 16 mod 256)
     + 2 ^ 24 * (x div 2 ^ 24 mod 16)" for x :: nat
    using mod_mult2_eq [of x "2 ^ 8" "2 ^ 20"] mod_mult2_eq [of "x div 2 ^ 8" "2 ^ 8" "2 ^ 12"]
      mod_mult2_eq [of "x div 2 ^ 16" "2 ^ 8" "2 ^ 4"]
    by (simp add: div_mult2_eq [symmetric] algebra_simps)
  then show ?thesis using b [of 0] b [of 8] b [of 16] h unfolding h8 by simp
qed

lemma device_bits:
  "(ucast (0xE0 OR (drop_bit 24 (l :: u32) AND 0x0F)) :: u8) AND 0xF0 = 0xE0" (is "?h AND 0xF0 = 0xE0")
proof (rule bit_word_eqI)
  fix n assume "n < LENGTH(8)"
  then have "n \<in> {0,1,2,3,4,5,6,7}" by auto
  then show "bit (?h AND 0xF0) n = bit (0xE0 :: u8) n" by (auto simp: bit_simps)
qed

text \<open>The setup starts a transfer of one sector.\<close>

lemma ata_setup_starts:
  assumes c: "ata_conforms P I view sec" and i: "I d" "av_phase (view d) = Ata_idle"
  shows "I (ata_setup P l d) \<and> av_phase (view (ata_setup P l d)) = Ata_transfer (unat l mod 2 ^ 28) 1"
proof -
  have w: "I (p_out P 0x1F2 v e) \<and> view (p_out P 0x1F2 v e) = (view e)\<lparr>av_count := v\<rparr>"
    "I (p_out P 0x1F3 v e) \<and> view (p_out P 0x1F3 v e) = (view e)\<lparr>av_lba0 := v\<rparr>"
    "I (p_out P 0x1F4 v e) \<and> view (p_out P 0x1F4 v e) = (view e)\<lparr>av_lba1 := v\<rparr>"
    "I (p_out P 0x1F5 v e) \<and> view (p_out P 0x1F5 v e) = (view e)\<lparr>av_lba2 := v\<rparr>"
    "I (p_out P 0x1F6 v e) \<and> view (p_out P 0x1F6 v e) = (view e)\<lparr>av_dev := v\<rparr>"
    if "I e" "av_phase (view e) = Ata_idle" for e v
    using c that unfolding ata_conforms_def by blast+
  let ?h = "ucast (0xE0 OR (drop_bit 24 l AND 0x0F)) :: u8"
  let ?x = "ucast (l AND 0xFF) :: u8" and ?y = "ucast (drop_bit 8 l AND 0xFF) :: u8" and ?z = "ucast (drop_bit 16 l AND 0xFF) :: u8"
  let ?d1 = "p_out P 0x1F6 ?h d"
  let ?d2 = "p_out P 0x1F2 1 ?d1"
  let ?d3 = "p_out P 0x1F3 ?x ?d2"
  let ?d4 = "p_out P 0x1F4 ?y ?d3"
  let ?d5 = "p_out P 0x1F5 ?z ?d4"
  have 1: "I ?d1" "view ?d1 = (view d)\<lparr>av_dev := ?h\<rparr>" using w(5) [OF i] by simp_all
  have 2: "I ?d2" "view ?d2 = (view d)\<lparr>av_dev := ?h, av_count := 1\<rparr>" using w(1) [of ?d1 1] 1 i by simp_all
  have 3: "I ?d3" "view ?d3 = (view d)\<lparr>av_dev := ?h, av_count := 1, av_lba0 := ?x\<rparr>" using w(2) [of ?d2 ?x] 2 i by simp_all
  have 4: "I ?d4" "view ?d4 = (view d)\<lparr>av_dev := ?h, av_count := 1, av_lba0 := ?x, av_lba1 := ?y\<rparr>" using w(3) [of ?d3 ?y] 3 i by simp_all
  have 5: "I ?d5" "view ?d5 = (view d)\<lparr>av_dev := ?h, av_count := 1, av_lba0 := ?x, av_lba1 := ?y, av_lba2 := ?z\<rparr>"
    using w(4) [of ?d4 ?z] 4 i by simp_all
  have "ata_lba (view ?d5) = unat l mod 2 ^ 28" "ata_sectors (view ?d5) = 1"
    using lba28_registers [of l] by (simp_all add: 5(2) ata_lba_def ata_sectors_def)
  moreover have "av_phase (view ?d5) = Ata_idle" "av_dev (view ?d5) AND 0xF0 = 0xE0" using i(2) device_bits [of l] by (simp_all add: 5(2))
  then have "I (p_out P 0x1F7 0x20 ?d5) \<and> av_phase (view (p_out P 0x1F7 0x20 ?d5)) = Ata_transfer (ata_lba (view ?d5)) (ata_sectors (view ?d5))"
    using c 5(1) unfolding ata_conforms_def by blast
  ultimately show ?thesis by (simp add: ata_setup_def ata_regs)
qed

text \<open>The disk the driver implements.\<close>

definition ata_disk :: "medium \<Rightarrow> disk" where
  "ata_disk sec l = (case sec (unat l mod 2 ^ 28) of Inr bs \<Rightarrow> Inr bs | Inl Ata_error \<Rightarrow> Inl (-1) | Inl Ata_device_fault \<Rightarrow> Inl (-2))"

lemma ata_read_loop_disk:
  assumes c: "ata_conforms P I view sec"
  shows "I d \<Longrightarrow> av_phase (view d) = Ata_idle \<Longrightarrow> \<exists>d'. ata_read_loop P l k d
      = (fst (disk_sectors (ata_disk sec) l k), snd (disk_sectors (ata_disk sec) l k), d')
    \<and> (fst (disk_sectors (ata_disk sec) l k) \<noteq> -2 \<longrightarrow> I d' \<and> av_phase (view d') = Ata_idle)"
proof (induction k arbitrary: l d)
  case (Suc k)
  let ?e = "ata_setup P l d" and ?l = "unat l mod 2 ^ 28"
  have t: "\<exists>n<100000. \<exists>d1. (case sec ?l of
          Inr bs \<Rightarrow> ata_shows P st_ready n ?e d1 \<and> (\<exists>d2. p_insw P 0x1F0 256 d1 = (bs, d2) \<and> I d2
            \<and> av_phase (view d2) = (if (1 :: nat) \<le> 1 then Ata_idle else Ata_transfer (?l + 1) (1 - 1)))
        | Inl Ata_error \<Rightarrow> ata_shows P st_error n ?e d1 \<and> I d1 \<and> av_phase (view d1) = Ata_idle
        | Inl Ata_device_fault \<Rightarrow> ata_shows P st_fault n ?e d1)"
    using c ata_setup_starts [OF c Suc.prems, of l] unfolding ata_conforms_def by blast
  show ?case
  proof (cases "sec ?l")
    case (Inr bs)
    then obtain n d1 d2 where n: "n < 100000" "ata_shows P st_ready n ?e d1" "p_insw P 0x1F0 256 d1 = (bs, d2)" "I d2"
      "av_phase (view d2) = Ata_idle" using t by auto
    have p: "ata_poll P True ?e = (0, d1)"
      unfolding ata_poll_def by (rule ata_poll_shows [OF n(2,1)]) (simp add: st_ready_def)
    from Suc.IH [OF n(4,5), of "l + 1"] n(3) p Inr show ?thesis
      by (auto simp: ata_disk_def ATA_REG_DATA_def split: prod.splits)
  next
    case (Inl f)
    show ?thesis
    proof (cases f)
      case Ata_error
      then obtain n d1 where n: "n < 100000" "ata_shows P st_error n ?e d1" "I d1" "av_phase (view d1) = Ata_idle" using t Inl by auto
      have "ata_poll P True ?e = (-1, d1)" unfolding ata_poll_def by (rule ata_poll_shows [OF n(2,1)]) (simp add: st_error_def)
      then show ?thesis using n(3,4) Inl Ata_error by (simp add: ata_disk_def)
    next
      case Ata_device_fault
      then obtain n d1 where n: "n < 100000" "ata_shows P st_fault n ?e d1" using t Inl by auto
      have "ata_poll P True ?e = (-2, d1)" unfolding ata_poll_def by (rule ata_poll_shows [OF n(2,1)]) (simp add: st_fault_def)
      then show ?thesis using Inl Ata_device_fault by (simp add: ata_disk_def)
    qed
  qed
qed simp

subsection \<open>A simulated controller\<close>

text \<open>An instance of the hypothesis: a device that is busy for two reads of the status after a command, and for one
  between the sectors of a transfer.\<close>

record ata_sim =
  sim_view :: ata_view
  sim_busy :: nat

definition sim_phase :: "ata_phase \<Rightarrow> ata_sim \<Rightarrow> ata_sim" where
  "sim_phase ph s = s\<lparr>sim_view := (sim_view s)\<lparr>av_phase := ph\<rparr>\<rparr>"

definition sim_status :: "medium \<Rightarrow> ata_sim \<Rightarrow> u8 \<times> ata_sim" where
  "sim_status sec s = (case av_phase (sim_view s) of Ata_idle \<Rightarrow> (0x50, s)
     | Ata_transfer l n \<Rightarrow> (case sec l of Inr bs \<Rightarrow> (0x58, s) | Inl Ata_error \<Rightarrow> (0x51, sim_phase Ata_idle s)
         | Inl Ata_device_fault \<Rightarrow> (0x70, s)))"

definition sim_write :: "u16 \<Rightarrow> u8 \<Rightarrow> ata_sim \<Rightarrow> ata_sim" where
  "sim_write p v s = (let w = sim_view s in
     if p = 0x1F2 then s\<lparr>sim_view := w\<lparr>av_count := v\<rparr>\<rparr> else if p = 0x1F3 then s\<lparr>sim_view := w\<lparr>av_lba0 := v\<rparr>\<rparr>
     else if p = 0x1F4 then s\<lparr>sim_view := w\<lparr>av_lba1 := v\<rparr>\<rparr> else if p = 0x1F5 then s\<lparr>sim_view := w\<lparr>av_lba2 := v\<rparr>\<rparr>
     else if p = 0x1F6 then s\<lparr>sim_view := w\<lparr>av_dev := v\<rparr>\<rparr>
     else if p = 0x1F7 \<and> v = 0x20 then (sim_phase (Ata_transfer (ata_lba w) (ata_sectors w)) s)\<lparr>sim_busy := 2\<rparr> else s)"

definition sim_data :: "medium \<Rightarrow> ata_sim \<Rightarrow> u8 list \<times> ata_sim" where
  "sim_data sec s = (case av_phase (sim_view s) of Ata_idle \<Rightarrow> ([], s)
     | Ata_transfer l n \<Rightarrow> (case sec l of Inl _ \<Rightarrow> ([], s)
         | Inr bs \<Rightarrow> (bs, (sim_phase (if n \<le> 1 then Ata_idle else Ata_transfer (l + 1) (n - 1)) s)\<lparr>sim_busy := 1\<rparr>)))"

definition sim_ports :: "medium \<Rightarrow> ata_sim ports" where
  "sim_ports sec = \<lparr>p_in = (\<lambda>p s. if 0 < sim_busy s then (0x80, s\<lparr>sim_busy := sim_busy s - 1\<rparr>) else sim_status sec s),
     p_out = sim_write, p_insw = (\<lambda>p n s. sim_data sec s)\<rparr>"

lemma sim_shows:
  "(case sim_status sec (s\<lparr>sim_busy := 0\<rparr>) of (st, t) \<Rightarrow> t = d1 \<and> Q st) \<Longrightarrow> ata_shows (sim_ports sec) Q (sim_busy s) s d1"
proof (induction "sim_busy s" arbitrary: s)
  case 0
  then have e: "s\<lparr>sim_busy := 0\<rparr> = s" by (cases s) simp
  show ?case using 0 unfolding e by (auto simp: sim_ports_def split: prod.splits)
next
  case (Suc n)
  let ?s = "s\<lparr>sim_busy := sim_busy s - 1\<rparr>"
  have "n = sim_busy ?s" using Suc.hyps(2) by simp
  from Suc.hyps(1) [OF this] Suc.prems have "ata_shows (sim_ports sec) Q (sim_busy ?s) ?s d1" by simp
  then show ?case unfolding Suc.hyps(2) [symmetric] using Suc.hyps(2) [symmetric] by (simp add: sim_ports_def)
qed

lemma sim_conforms: "ata_conforms (sim_ports sec) (\<lambda>s. sim_busy s < 100000) sim_view sec"
proof -
  let ?P = "sim_ports sec"
  have w: "p_out ?P = sim_write" "p_insw ?P = (\<lambda>p n s. sim_data sec s)" by (simp_all add: sim_ports_def)
  have tr: "\<exists>k<100000. \<exists>d1. (case sec l of
          Inr bs \<Rightarrow> ata_shows ?P st_ready k d d1 \<and> (\<exists>d2. p_insw ?P 0x1F0 256 d1 = (bs, d2) \<and> sim_busy d2 < 100000
            \<and> av_phase (sim_view d2) = (if n \<le> 1 then Ata_idle else Ata_transfer (l + 1) (n - 1)))
        | Inl Ata_error \<Rightarrow> ata_shows ?P st_error k d d1 \<and> sim_busy d1 < 100000 \<and> av_phase (sim_view d1) = Ata_idle
        | Inl Ata_device_fault \<Rightarrow> ata_shows ?P st_fault k d d1)"
    if b: "sim_busy d < 100000" and ph: "av_phase (sim_view d) = Ata_transfer l n" for d l n
  proof (intro exI [of _ "sim_busy d"] conjI b)
    let ?d = "d\<lparr>sim_busy := 0\<rparr>"
    let ?d1 = "if sec l = Inl Ata_error then sim_phase Ata_idle ?d else ?d"
    have sh: "sim_status sec ?d = ((case sec l of Inr _ \<Rightarrow> 0x58 | Inl Ata_error \<Rightarrow> 0x51 | Inl Ata_device_fault \<Rightarrow> 0x70), ?d1)"
      using ph by (simp add: sim_status_def split: sum.splits ata_failure.splits)
    have seen: "Q (case sec l of Inr _ \<Rightarrow> 0x58 | Inl Ata_error \<Rightarrow> 0x51 | Inl Ata_device_fault \<Rightarrow> 0x70) \<Longrightarrow> ata_shows ?P Q (sim_busy d) d ?d1" for Q
      by (rule sim_shows) (simp add: sh)
    show "\<exists>d1. (case sec l of
          Inr bs \<Rightarrow> ata_shows ?P st_ready (sim_busy d) d d1 \<and> (\<exists>d2. p_insw ?P 0x1F0 256 d1 = (bs, d2) \<and> sim_busy d2 < 100000
            \<and> av_phase (sim_view d2) = (if n \<le> 1 then Ata_idle else Ata_transfer (l + 1) (n - 1)))
        | Inl Ata_error \<Rightarrow> ata_shows ?P st_error (sim_busy d) d d1 \<and> sim_busy d1 < 100000 \<and> av_phase (sim_view d1) = Ata_idle
        | Inl Ata_device_fault \<Rightarrow> ata_shows ?P st_fault (sim_busy d) d d1)"
    proof (cases "sec l")
      case (Inr bs)
      then show ?thesis using seen [of st_ready] ph by (intro exI [of _ ?d1]) (simp add: st_ready_def w sim_data_def sim_phase_def)
    next
      case (Inl f)
      then show ?thesis using seen [of st_error] seen [of st_fault]
        by (intro exI [of _ ?d1]) (cases f; simp add: st_error_def st_fault_def sim_phase_def)
    qed
  qed
  show ?thesis unfolding ata_conforms_def
  proof (intro conjI allI impI)
    fix d :: ata_sim and l n assume "sim_busy d < 100000 \<and> av_phase (sim_view d) = Ata_transfer l n"
    then show "\<exists>k<100000. \<exists>d1. (case sec l of
          Inr bs \<Rightarrow> ata_shows ?P st_ready k d d1 \<and> (\<exists>d2. p_insw ?P 0x1F0 256 d1 = (bs, d2) \<and> sim_busy d2 < 100000
            \<and> av_phase (sim_view d2) = (if n \<le> 1 then Ata_idle else Ata_transfer (l + 1) (n - 1)))
        | Inl Ata_error \<Rightarrow> ata_shows ?P st_error k d d1 \<and> sim_busy d1 < 100000 \<and> av_phase (sim_view d1) = Ata_idle
        | Inl Ata_device_fault \<Rightarrow> ata_shows ?P st_fault k d d1)" using tr by blast
  qed (simp_all add: w sim_write_def sim_phase_def Let_def)
qed

subsection \<open>Properties\<close>

text \<open>C11.  On a controller that behaves as the standard says and is idle, \<^verbatim>\<open>ata_read28_lba\<close> implements the sector-level disk
  whose sector \<open>l\<close> is the medium's sector \<open>l mod 2^28\<close>: it stores the requested sectors in order, returns 0 when they can
  all be read, and stops at the first that cannot, with -1 for an error and -2 for a device fault.  Unless there was a
  device fault the controller is idle again afterwards.\<close>

theorem ata_read_refines_disk:
  assumes "ata_conforms P I view sec" and "I d" and "av_phase (view d) = Ata_idle"
  shows "\<exists>d'. ata_read28_lba P lba count d
      = (fst (disk_sectors (ata_disk sec) lba (unat count)), snd (disk_sectors (ata_disk sec) lba (unat count)), d')
    \<and> (fst (disk_sectors (ata_disk sec) lba (unat count)) \<noteq> -2 \<longrightarrow> I d' \<and> av_phase (view d') = Ata_idle)"
proof (cases "count = 0")
  case True
  then show ?thesis using assms(2,3) by (simp add: ata_read28_lba_def)
next
  case False
  then show ?thesis using ata_read_loop_disk [OF assms, of lba "unat count"] by (simp add: ata_read28_lba_def)
qed

text \<open>Three sectors are asked for at the end of a disk of seven.\<close>

lemma ata_read_refines_disk_witness:
  "\<exists>d'. ata_read28_lba (sim_ports (\<lambda>n. if n < 7 then Inr [of_nat n] else Inl Ata_error)) 0x10000005 3
      \<lparr>sim_view = \<lparr>av_count = 0, av_lba0 = 0, av_lba1 = 0, av_lba2 = 0, av_dev = 0, av_phase = Ata_idle\<rparr>, sim_busy = 0\<rparr>
     = (-1, [5, 6], d') \<and> av_phase (sim_view d') = Ata_idle"
proof -
  let ?s = "\<lparr>sim_view = \<lparr>av_count = 0, av_lba0 = 0, av_lba1 = 0, av_lba2 = 0, av_dev = 0, av_phase = Ata_idle\<rparr>, sim_busy = 0\<rparr>"
  let ?sec = "\<lambda>n. if n < 7 then Inr [of_nat n] else Inl Ata_error"
  have u: "unat (3 :: u32) = Suc (Suc (Suc 0))" by simp
  have d: "disk_sectors (ata_disk ?sec) 0x10000005 (unat (3 :: u32)) = (-1, [5, 6])" unfolding u by (simp add: ata_disk_def)
  have "sim_busy ?s < 100000" "av_phase (sim_view ?s) = Ata_idle" by simp_all
  from ata_read_refines_disk [OF sim_conforms this, of ?sec "0x10000005" 3] show ?thesis unfolding d by auto
qed

end
