(* ===== verification/Loops.thy ===== *)
theory Loops
  imports RetaBase
begin

text \<open>
  Counted loops over arrays, for the components that fill tables and screens: the \<^verbatim>\<open>for\<close> loop as a
  function on the loop state, its invariant rule, and checked access to the cells of an array.
\<close>

text \<open>\<open>for_loop i n f\<close> is \<^verbatim>\<open>for (k = i; k < i + n; k++)\<close> with the body \<open>f k\<close>.\<close>

fun for_loop :: "nat \<Rightarrow> nat \<Rightarrow> (nat \<Rightarrow> 's \<Rightarrow> 's option) \<Rightarrow> 's \<Rightarrow> 's option" where
  "for_loop i 0 f s = Some s"
| "for_loop i (Suc n) f s = do { t \<leftarrow> f i s; for_loop (Suc i) n f t }"

lemma for_loop_rule:
  assumes "P i s" and "\<And>k t. i \<le> k \<Longrightarrow> k < i + n \<Longrightarrow> P k t \<Longrightarrow> \<exists>u. f k t = Some u \<and> P (Suc k) u"
  shows "\<exists>t. for_loop i n f s = Some t \<and> P (i + n) t"
  using assms
proof (induction n arbitrary: i s)
  case (Suc n)
  obtain u where u: "f i s = Some u" "P (Suc i) u" using Suc.prems by force
  have "\<exists>t. for_loop (Suc i) n f u = Some t \<and> P (Suc i + n) t"
    by (rule Suc.IH [OF u(2)]) (use Suc.prems(2) in auto)
  with u(1) show ?case by simp
qed simp

lemma for_loop_cong: "(\<And>k s. i \<le> k \<Longrightarrow> k < i + n \<Longrightarrow> f k s = g k s) \<Longrightarrow> for_loop i n f s = for_loop i n g s"
proof (induction n arbitrary: i s)
  case (Suc n)
  have "for_loop (Suc i) n f u = for_loop (Suc i) n g u" for u by (rule Suc.IH) (use Suc.prems in auto)
  then have "for_loop (Suc i) n f = for_loop (Suc i) n g" by (rule ext)
  then show ?case using Suc.prems by simp
qed simp

lemma for_loop_map:
  "(\<And>k s. i \<le> k \<Longrightarrow> k < i + n \<Longrightarrow> f k (g s) = map_option g (h k s)) \<Longrightarrow> for_loop i n f (g s) = map_option g (for_loop i n h s)"
proof (induction n arbitrary: i s)
  case (Suc n)
  have "f i (g s) = map_option g (h i s)" using Suc.prems by simp
  moreover have "for_loop (Suc i) n f (g u) = map_option g (for_loop (Suc i) n h u)" for u by (rule Suc.IH) (use Suc.prems in auto)
  ultimately show ?case by (cases "h i s") simp_all
qed simp

definition get_cell :: "nat \<Rightarrow> 'a list \<Rightarrow> 'a option" where
  "get_cell i b = (if i < length b then Some (b ! i) else None)"

definition set_cell :: "nat \<Rightarrow> 'a \<Rightarrow> 'a list \<Rightarrow> 'a list option" where
  "set_cell i v b = (if i < length b then Some (b[i := v]) else None)"

text \<open>Filling \<open>n\<close> cells from \<open>t\<close> on.\<close>

lemma fill_cells:
  assumes "t + n \<le> length b"
  shows "for_loop 0 n (\<lambda>k. set_cell (t + k) (v k)) b = Some (take t b @ map v [0..<n] @ drop (t + n) b)"
proof -
  let ?P = "\<lambda>k c. c = take t b @ map v [0..<k] @ drop (t + k) b"
  have "\<exists>c. for_loop 0 n (\<lambda>k. set_cell (t + k) (v k)) b = Some c \<and> ?P (0 + n) c"
  proof (rule for_loop_rule [where P = ?P])
    fix k c assume k: "k < 0 + n" and c: "?P k c"
    have "drop (t + k) b = b ! (t + k) # drop (t + Suc k) b" using k assms by (simp add: Cons_nth_drop_Suc)
    then have "c[t + k := v k] = take t b @ map v [0..<Suc k] @ drop (t + Suc k) b"
      using c k assms by (simp add: list_update_append)
    then show "\<exists>u. set_cell (t + k) (v k) c = Some u \<and> ?P (Suc k) u"
      using c k assms by (simp add: set_cell_def)
  qed simp
  then show ?thesis by simp
qed

text \<open>Copying \<open>n\<close> cells downwards, in ascending order.\<close>

lemma copy_cells:
  assumes "t + n \<le> f" and "f + n \<le> length b"
  shows "for_loop 0 n (\<lambda>k c. do { v \<leftarrow> get_cell (f + k) c; set_cell (t + k) v c }) b
    = Some (take t b @ take n (drop f b) @ drop (t + n) b)"
proof -
  let ?P = "\<lambda>k c. c = take t b @ take k (drop f b) @ drop (t + k) b"
  have "\<exists>c. for_loop 0 n (\<lambda>k c. do { v \<leftarrow> get_cell (f + k) c; set_cell (t + k) v c }) b = Some c \<and> ?P (0 + n) c"
  proof (rule for_loop_rule [where P = ?P])
    fix k c assume k: "k < 0 + n" and c: "?P k c"
    let ?pre = "take t b @ take k (drop f b)"
    have d: "drop (t + k) b = b ! (t + k) # drop (t + Suc k) b" using k assms by (simp add: Cons_nth_drop_Suc)
    have l: "length ?pre = t + k" using k assms by simp
    have v: "c ! (f + k) = b ! (f + k)"
    proof -
      have "c ! (f + k) = drop (t + k) b ! (f + k - (t + k))"
        unfolding c using l assms nth_append_right [of ?pre "f + k"] by simp
      then show ?thesis using k assms by (simp add: add.commute)
    qed
    have "c = ?pre @ b ! (t + k) # drop (t + Suc k) b" using c d by simp
    then have "c[t + k := b ! (f + k)] = ?pre @ b ! (f + k) # drop (t + Suc k) b"
      using l list_update_length [of ?pre] by metis
    moreover have "take (Suc k) (drop f b) = take k (drop f b) @ [b ! (f + k)]"
      using k assms by (simp add: take_Suc_conv_app_nth)
    ultimately have "c[t + k := b ! (f + k)] = take t b @ take (Suc k) (drop f b) @ drop (t + Suc k) b" by simp
    then show "\<exists>u. (do { v \<leftarrow> get_cell (f + k) c; set_cell (t + k) v c }) = Some u \<and> ?P (Suc k) u"
      using c v k assms by (simp add: set_cell_def get_cell_def min_def)
  qed simp
  then show ?thesis by simp
qed

end
