(* ===== verification/Display.thy ===== *)
theory Display
  imports Loops FrameBitmap
begin

text \<open>
  The linear framebuffer, \<^verbatim>\<open>kernel/display.c\<close>: finding it in the boot information, and pixels and
  rectangles on it.  The framebuffer is the byte array \<open>fb\<close> behind the address of the video mode, a
  write outside of it has no result.

  The pixel loops are shown to be the set of the bytes they write: a rectangle is clipped at the right
  and lower border and every other byte, the padding behind the visible part of a line included, keeps
  its value.
\<close>

subsection \<open>The video mode\<close>

record video_mode =
  vm_width :: u32
  vm_height :: u32
  vm_pitch :: u32
  vm_bpp :: u32
  vm_addr :: addr

definition no_mode :: video_mode where
  "no_mode = \<lparr>vm_width = 0, vm_height = 0, vm_pitch = 0, vm_bpp = 0, vm_addr = 0\<rparr>"

text \<open>The tags of the boot information \<open>mb\<close>, which starts with its size and a reserved word.\<close>

partial_function (option) display_tags :: "u8 list \<Rightarrow> nat \<Rightarrow> video_mode option" where
  "display_tags mb pos = do {
     ty \<leftarrow> rd32 mb pos;
     if ty = 0 then Some no_mode
     else if ty = 8 then do {
       a \<leftarrow> rd32 mb (pos + 8);
       p \<leftarrow> rd32 mb (pos + 16);
       w \<leftarrow> rd32 mb (pos + 20);
       h \<leftarrow> rd32 mb (pos + 24);
       b \<leftarrow> get_cell (pos + 28) mb;
       Some \<lparr>vm_width = w, vm_height = h, vm_pitch = p, vm_bpp = ucast b, vm_addr = a\<rparr> }
     else do {
       sz \<leftarrow> rd32 mb (pos + 4);
       display_tags mb (pos + unat ((sz + 7) AND NOT 7)) } }"

definition display_init :: "u32 \<Rightarrow> u8 list \<Rightarrow> video_mode option" where
  "display_init magic mb =
     (if magic \<noteq> 0x36d76289 \<and> magic \<noteq> 0x2BADB002 then Some no_mode else display_tags mb 8)"

definition display_set_mode :: "u32 \<Rightarrow> u32 \<Rightarrow> u32 \<Rightarrow> video_mode \<Rightarrow> video_mode" where
  "display_set_mode width height bpp m =
     m\<lparr>vm_width := width, vm_height := height, vm_bpp := bpp, vm_pitch := width * (bpp div 8)\<rparr>"

subsection \<open>Pixels\<close>

text \<open>\<open>bpp\<close> is cut to 8 bits by the parameter.\<close>

definition put_pixel_linear :: "u32 \<Rightarrow> u8 \<Rightarrow> u32 \<Rightarrow> u32 \<Rightarrow> u32 \<Rightarrow> u8 list \<Rightarrow> u8 list option" where
  "put_pixel_linear pitch bpp x y rgb fb =
     (let off = y * pitch + x * ucast (bpp div 8) in
      if bpp = 32 then do {
        f0 \<leftarrow> set_cell (unat off) (ucast rgb) fb;
        f1 \<leftarrow> set_cell (unat (off + 1)) (ucast (drop_bit 8 rgb)) f0;
        f2 \<leftarrow> set_cell (unat (off + 2)) (ucast (drop_bit 16 rgb)) f1;
        set_cell (unat (off + 3)) 0xFF f2 }
      else if bpp = 24 then do {
        f0 \<leftarrow> set_cell (unat off) (ucast rgb) fb;
        f1 \<leftarrow> set_cell (unat (off + 1)) (ucast (drop_bit 8 rgb)) f0;
        set_cell (unat (off + 2)) (ucast (drop_bit 16 rgb)) f1 }
      else Some fb)"

definition display_set_pixel :: "video_mode \<Rightarrow> u32 \<Rightarrow> u32 \<Rightarrow> u32 \<Rightarrow> u8 list \<Rightarrow> u8 list option" where
  "display_set_pixel m x y rgb fb =
     (if vm_addr m = 0 then Some fb
      else if vm_width m \<le> x \<or> vm_height m \<le> y then Some fb
      else put_pixel_linear (vm_pitch m) (ucast (vm_bpp m)) x y rgb fb)"

text \<open>The two nested loops from \<open>(x, y)\<close> to \<open>(x2, y2)\<close>, exclusive.\<close>

definition pixel_loops :: "video_mode \<Rightarrow> u32 \<Rightarrow> u32 \<Rightarrow> u32 \<Rightarrow> u32 \<Rightarrow> u32 \<Rightarrow> u8 list \<Rightarrow> u8 list option" where
  "pixel_loops m x y x2 y2 rgb =
     for_loop (unat y) (unat y2 - unat y) (\<lambda>yy. for_loop (unat x) (unat x2 - unat x) (\<lambda>xx.
       put_pixel_linear (vm_pitch m) (ucast (vm_bpp m)) (of_nat xx) (of_nat yy) rgb))"

definition display_clear :: "video_mode \<Rightarrow> u32 \<Rightarrow> u8 list \<Rightarrow> u8 list option" where
  "display_clear m rgb fb =
     (if vm_addr m = 0 then Some fb else pixel_loops m 0 0 (vm_width m) (vm_height m) rgb fb)"

definition display_fill_rect :: "video_mode \<Rightarrow> u32 \<Rightarrow> u32 \<Rightarrow> u32 \<Rightarrow> u32 \<Rightarrow> u32 \<Rightarrow> u8 list \<Rightarrow> u8 list option" where
  "display_fill_rect m x y w h rgb fb =
     (if vm_addr m = 0 then Some fb
      else
        let x2 = (if vm_width m < x + w then vm_width m else x + w);
            y2 = (if vm_height m < y + h then vm_height m else y + h) in
        pixel_loops m x y x2 y2 rgb fb)"

subsection \<open>The bytes of a pixel\<close>

definition bytes_pp :: "video_mode \<Rightarrow> nat" where
  "bytes_pp m = unat (vm_bpp m) div 8"

definition pixel_bytes :: "u32 \<Rightarrow> u8 list" where
  "pixel_bytes rgb = [ucast rgb, ucast (drop_bit 8 rgb), ucast (drop_bit 16 rgb), 0xFF]"

definition mode_ok :: "video_mode \<Rightarrow> u8 list \<Rightarrow> bool" where
  "mode_ok m fb \<longleftrightarrow> vm_addr m \<noteq> 0 \<and> vm_bpp m \<in> {24, 32} \<and> unat (vm_width m) * bytes_pp m \<le> unat (vm_pitch m)
     \<and> length fb = unat (vm_height m) * unat (vm_pitch m) \<and> length fb < 2 ^ 32"

text \<open>
  The framebuffer \<open>fb'\<close> is \<open>fb\<close> with the pixels of \<open>S\<close> painted: byte \<open>j\<close> of line \<open>r\<close> belongs to the pixel
  in column \<open>j div bytes_pp\<close>.
\<close>

definition painted :: "video_mode \<Rightarrow> (nat \<Rightarrow> nat \<Rightarrow> bool) \<Rightarrow> u32 \<Rightarrow> u8 list \<Rightarrow> u8 list \<Rightarrow> bool" where
  "painted m S rgb fb fb' \<longleftrightarrow> length fb' = length fb \<and>
     (\<forall>r j. r < unat (vm_height m) \<longrightarrow> j < unat (vm_pitch m) \<longrightarrow>
        fb' ! (r * unat (vm_pitch m) + j) =
          (if S (j div bytes_pp m) r then pixel_bytes rgb ! (j mod bytes_pp m) else fb ! (r * unat (vm_pitch m) + j)))"

lemma painted_none: "painted m (\<lambda>_ _. False) rgb fb fb"
  by (simp add: painted_def)

lemma painted_mode: "painted m S rgb fb fb' \<Longrightarrow> mode_ok m fb' = mode_ok m fb"
  by (simp add: painted_def mode_ok_def)

lemma painted_join:
  assumes "painted m S rgb fb f" and "painted m T rgb f f'" and "\<And>x y. U x y \<longleftrightarrow> S x y \<or> T x y"
  shows "painted m U rgb fb f'"
  using assms by (auto simp: painted_def)

lemma painted_cong: "painted m S rgb fb f \<Longrightarrow> (\<And>x y. S x y = T x y) \<Longrightarrow> painted m T rgb fb f"
  by (simp add: painted_def)

lemma row_index:
  fixes p r j :: nat
  assumes "j < p" "j' < p" shows "r * p + j = r' * p + j' \<longleftrightarrow> r = r' \<and> j = j'"
proof
  assume e: "r * p + j = r' * p + j'"
  then have "(r * p + j) div p = (r' * p + j') div p" "(r * p + j) mod p = (r' * p + j') mod p" by simp_all
  then show "r = r' \<and> j = j'" using assms by simp
qed simp

lemma update3:
  "n + 3 \<le> length b \<Longrightarrow> b[n := u, n + 1 := v, n + 2 := w] ! i = (if n \<le> i \<and> i < n + 3 then [u, v, w, z] ! (i - n) else b ! i)"
  by (cases "i < n"; cases "i = n"; cases "i = n + 1"; cases "i = n + 2") auto

lemma update4:
  "n + 4 \<le> length b \<Longrightarrow> b[n := u, n + 1 := v, n + 2 := w, n + 3 := z] ! i
     = (if n \<le> i \<and> i < n + 4 then [u, v, w, z] ! (i - n) else b ! i)"
  by (cases "i < n"; cases "i = n"; cases "i = n + 1"; cases "i = n + 2"; cases "i = n + 3") auto

lemma put_pixel_painted:
  assumes m: "mode_ok m fb" and x: "x < unat (vm_width m)" and y: "y < unat (vm_height m)"
  shows "\<exists>fb'. put_pixel_linear (vm_pitch m) (ucast (vm_bpp m)) (of_nat x) (of_nat y) rgb fb = Some fb'
    \<and> painted m (\<lambda>x' y'. x' = x \<and> y' = y) rgb fb fb'"
proof -
  let ?p = "unat (vm_pitch m)" and ?B = "bytes_pp m"
  let ?o = "y * ?p + x * ?B"
  have B: "?B = 3 \<and> vm_bpp m = 24 \<or> ?B = 4 \<and> vm_bpp m = 32" using m by (auto simp: mode_ok_def bytes_pp_def)
  have "Suc x * ?B \<le> unat (vm_width m) * ?B" using x by (simp del: mult_Suc)
  then have xb: "x * ?B + ?B \<le> ?p" using m by (simp add: mode_ok_def)
  have "Suc y * ?p \<le> unat (vm_height m) * ?p" using y by (simp del: mult_Suc)
  then have ob: "?o + ?B \<le> length fb" using m xb by (simp add: mode_ok_def)
  have l: "length fb < 2 ^ 32" using m by (simp add: mode_ok_def)
  have bw: "(of_nat y * vm_pitch m + of_nat x * (of_nat ?B :: u32)) = of_nat ?o" by simp
  have u: "unat ((of_nat ?o :: u32) + of_nat k) = ?o + k" if "k < ?B" for k
    using that ob l by (simp add: unat_of_nat flip: of_nat_add)
  have eq: "r * ?p + j = ?o + k \<longleftrightarrow> r = y \<and> j = x * ?B + k" if "k < ?B" "j < ?p" for r j k
    using row_index [of j ?p "x * ?B + k" r y] that xb by (simp add: add.assoc)
  have jd: "j = x * ?B + k \<longleftrightarrow> j div ?B = x \<and> j mod ?B = k" if "k < ?B" for j k
    using that div_mult_mod_eq [of j ?B] by auto
  have "\<exists>f. put_pixel_linear (vm_pitch m) (ucast (vm_bpp m)) (of_nat x) (of_nat y) rgb fb = Some f \<and> length f = length fb
      \<and> (\<forall>i. f ! i = (if ?o \<le> i \<and> i < ?o + ?B then pixel_bytes rgb ! (i - ?o) else fb ! i))"
  proof (cases "vm_bpp m = 32")
    case True
    then have b: "?B = 4" using B by auto
    let ?f = "fb[?o := ucast rgb, ?o + 1 := ucast (drop_bit 8 rgb), ?o + 2 := ucast (drop_bit 16 rgb), ?o + 3 := 0xFF]"
    have "put_pixel_linear (vm_pitch m) (ucast (vm_bpp m)) (of_nat x) (of_nat y) rgb fb = Some ?f"
      using True b ob bw u [of 0] u [of 1] u [of 2] u [of 3] by (simp add: put_pixel_linear_def set_cell_def Let_def)
    moreover have "?f ! i = (if ?o \<le> i \<and> i < ?o + ?B then pixel_bytes rgb ! (i - ?o) else fb ! i)" for i
      unfolding pixel_bytes_def using update4 [of ?o fb] ob b by simp
    ultimately show ?thesis by (intro exI [of _ ?f]) simp
  next
    case False
    then have b: "?B = 3" "vm_bpp m = 24" using B by auto
    let ?f = "fb[?o := ucast rgb, ?o + 1 := ucast (drop_bit 8 rgb), ?o + 2 := ucast (drop_bit 16 rgb)]"
    have "put_pixel_linear (vm_pitch m) (ucast (vm_bpp m)) (of_nat x) (of_nat y) rgb fb = Some ?f"
      using b ob bw u [of 0] u [of 1] u [of 2] by (simp add: put_pixel_linear_def set_cell_def Let_def)
    moreover have "?f ! i = (if ?o \<le> i \<and> i < ?o + ?B then pixel_bytes rgb ! (i - ?o) else fb ! i)" for i
      unfolding pixel_bytes_def using update3 [of ?o fb] ob b by simp
    ultimately show ?thesis by (intro exI [of _ ?f]) simp
  qed
  then obtain f where f: "put_pixel_linear (vm_pitch m) (ucast (vm_bpp m)) (of_nat x) (of_nat y) rgb fb = Some f"
      "length f = length fb" "\<And>i. f ! i = (if ?o \<le> i \<and> i < ?o + ?B then pixel_bytes rgb ! (i - ?o) else fb ! i)" by blast
  have "painted m (\<lambda>x' y'. x' = x \<and> y' = y) rgb fb f"
    unfolding painted_def
  proof (intro conjI allI impI)
    fix r j assume j: "r < unat (vm_height m)" "j < ?p"
    show "f ! (r * ?p + j) = (if j div ?B = x \<and> r = y then pixel_bytes rgb ! (j mod ?B) else fb ! (r * ?p + j))"
    proof (cases "j div ?B = x \<and> r = y")
      case True
      have "j mod ?B < ?B" using B by auto
      moreover from this have e: "r * ?p + j = ?o + j mod ?B" using True jd eq [of "j mod ?B" j r] j by blast
      ultimately show ?thesis unfolding f(3) unfolding e using True by (simp del: mod_less_divisor)
    next
      case False
      have "\<not> (?o \<le> r * ?p + j \<and> r * ?p + j < ?o + ?B)"
      proof
        assume a: "?o \<le> r * ?p + j \<and> r * ?p + j < ?o + ?B"
        then obtain k where k: "r * ?p + j = ?o + k" using le_Suc_ex by blast
        with a have k2: "k < ?B" by linarith
        have "r = y" "j = x * ?B + k" using iffD1 [OF eq [OF k2 j(2)] k] by simp_all
        then show False using False jd [OF k2, of j] by simp
      qed
      then show ?thesis using f(3) [of "r * ?p + j"] False by auto
    qed
  qed (rule f(2))
  with f(1) show ?thesis by blast
qed


text \<open>The loops paint the rectangle.\<close>

lemma pixel_row_painted:
  assumes m: "mode_ok m fb" and x2: "x2 \<le> unat (vm_width m)" and y: "y < unat (vm_height m)"
  shows "\<exists>fb'. for_loop x (x2 - x) (\<lambda>xx. put_pixel_linear (vm_pitch m) (ucast (vm_bpp m)) (of_nat xx) (of_nat y) rgb) fb = Some fb'
    \<and> painted m (\<lambda>x' y'. x \<le> x' \<and> x' < x2 \<and> y' = y) rgb fb fb'"
proof -
  let ?f = "\<lambda>xx. put_pixel_linear (vm_pitch m) (ucast (vm_bpp m)) (of_nat xx) (of_nat y) rgb"
  let ?P = "\<lambda>k. painted m (\<lambda>x' y'. x \<le> x' \<and> x' < k \<and> y' = y) rgb fb"
  have "\<exists>fb'. for_loop x (x2 - x) ?f fb = Some fb' \<and> ?P (x + (x2 - x)) fb'"
  proof (rule for_loop_rule [where P = ?P])
    show "?P x fb" using painted_none by (rule painted_cong) auto
  next
    fix k f assume k: "x \<le> k" "k < x + (x2 - x)" and f: "?P k f"
    have kw: "k < unat (vm_width m)" using k x2 by simp
    have "mode_ok m f" using m painted_mode [OF f] by simp
    then obtain f' where f': "?f k f = Some f'" "painted m (\<lambda>x' y'. x' = k \<and> y' = y) rgb f f'"
      using put_pixel_painted [of m f k y rgb] y kw by blast
    have "?P (Suc k) f'" by (rule painted_join [OF f f'(2)]) (use k in auto)
    with f'(1) show "\<exists>u. ?f k f = Some u \<and> ?P (Suc k) u" by blast
  qed
  then obtain fb' where "for_loop x (x2 - x) ?f fb = Some fb'" "?P (x + (x2 - x)) fb'" by blast
  moreover from this(2) have "painted m (\<lambda>x' y'. x \<le> x' \<and> x' < x2 \<and> y' = y) rgb fb fb'" by (rule painted_cong) auto
  ultimately show ?thesis by blast
qed

lemma pixel_loops_painted:
  assumes m: "mode_ok m fb" and x2: "x2 \<le> vm_width m" and y2: "y2 \<le> vm_height m"
  shows "\<exists>fb'. pixel_loops m x y x2 y2 rgb fb = Some fb'
    \<and> painted m (\<lambda>x' y'. unat x \<le> x' \<and> x' < unat x2 \<and> unat y \<le> y' \<and> y' < unat y2) rgb fb fb'"
proof -
  let ?f = "\<lambda>yy. for_loop (unat x) (unat x2 - unat x) (\<lambda>xx. put_pixel_linear (vm_pitch m) (ucast (vm_bpp m)) (of_nat xx) (of_nat yy) rgb)"
  let ?S = "\<lambda>k x' y'. unat x \<le> x' \<and> x' < unat x2 \<and> unat y \<le> y' \<and> y' < k"
  have w: "unat x2 \<le> unat (vm_width m)" "unat y2 \<le> unat (vm_height m)" using x2 y2 by (simp_all add: word_le_nat_alt)
  have "\<exists>fb'. for_loop (unat y) (unat y2 - unat y) ?f fb = Some fb' \<and> painted m (?S (unat y + (unat y2 - unat y))) rgb fb fb'"
  proof (rule for_loop_rule [where P = "\<lambda>k. painted m (?S k) rgb fb"])
    show "painted m (?S (unat y)) rgb fb fb" using painted_none by (rule painted_cong) auto
  next
    fix k f assume k: "unat y \<le> k" "k < unat y + (unat y2 - unat y)" and f: "painted m (?S k) rgb fb f"
    have kh: "k < unat (vm_height m)" using k w(2) by simp
    have "mode_ok m f" using m painted_mode [OF f] by simp
    then obtain f' where f': "?f k f = Some f'" "painted m (\<lambda>x' y'. unat x \<le> x' \<and> x' < unat x2 \<and> y' = k) rgb f f'"
      using pixel_row_painted [of m f "unat x2" k "unat x" rgb] w(1) kh by blast
    have "painted m (?S (Suc k)) rgb fb f'" by (rule painted_join [OF f f'(2)]) (use k in auto)
    with f'(1) show "\<exists>u. ?f k f = Some u \<and> painted m (?S (Suc k)) rgb fb u" by blast
  qed
  then obtain fb' where "pixel_loops m x y x2 y2 rgb fb = Some fb'" "painted m (?S (unat y + (unat y2 - unat y))) rgb fb fb'"
    unfolding pixel_loops_def by blast
  moreover from this(2) have "painted m (?S (unat y2)) rgb fb fb'" by (rule painted_cong) auto
  ultimately show ?thesis by blast
qed

subsection \<open>Properties\<close>

text \<open>A filled rectangle paints exactly its pixels that are on the screen, with the blue, green and red byte
  of the colour, and no other byte of the framebuffer changes; clearing the screen paints all pixels.
  (The sums \<open>x + w\<close> and \<open>y + h\<close> have to fit 32 bits, else they wrap and nothing is painted.)\<close>

theorem display_fill_rect_paints:
  assumes "mode_ok m fb" and "unat x + unat w < 2 ^ 32" and "unat y + unat h < 2 ^ 32"
  shows "(\<exists>fb'. display_fill_rect m x y w h rgb fb = Some fb'
      \<and> painted m (\<lambda>x' y'. unat x \<le> x' \<and> x' < min (unat x + unat w) (unat (vm_width m))
          \<and> unat y \<le> y' \<and> y' < min (unat y + unat h) (unat (vm_height m))) rgb fb fb')
    \<and> (\<exists>fb'. display_clear m rgb fb = Some fb'
      \<and> painted m (\<lambda>x' y'. x' < unat (vm_width m) \<and> y' < unat (vm_height m)) rgb fb fb')"
proof
  have a: "vm_addr m \<noteq> 0" using assms(1) by (simp add: mode_ok_def)
  let ?x2 = "if vm_width m < x + w then vm_width m else x + w" and ?y2 = "if vm_height m < y + h then vm_height m else y + h"
  have le: "?x2 \<le> vm_width m" "?y2 \<le> vm_height m" by auto
  have u: "unat (x + w) = unat x + unat w" "unat (y + h) = unat y + unat h"
    using assms by (simp_all add: unat_word_ariths)
  have m: "unat ?x2 = min (unat x + unat w) (unat (vm_width m))" "unat ?y2 = min (unat y + unat h) (unat (vm_height m))"
    by (simp_all add: u word_less_nat_alt)
  show "\<exists>fb'. display_fill_rect m x y w h rgb fb = Some fb'
      \<and> painted m (\<lambda>x' y'. unat x \<le> x' \<and> x' < min (unat x + unat w) (unat (vm_width m))
          \<and> unat y \<le> y' \<and> y' < min (unat y + unat h) (unat (vm_height m))) rgb fb fb'"
    using pixel_loops_painted [OF assms(1) le, of x y rgb] a unfolding display_fill_rect_def Let_def m by simp
  show "\<exists>fb'. display_clear m rgb fb = Some fb' \<and> painted m (\<lambda>x' y'. x' < unat (vm_width m) \<and> y' < unat (vm_height m)) rgb fb fb'"
    using pixel_loops_painted [OF assms(1), of "vm_width m" "vm_height m" 0 0 rgb] a by (simp add: display_clear_def)
qed

text \<open>A rectangle over the lower right corner of a screen of 2 by 2 pixels with two bytes of padding.\<close>

lemma display_fill_rect_paints_witness:
  "\<exists>fb'. display_fill_rect \<lparr>vm_width = 2, vm_height = 2, vm_pitch = 8, vm_bpp = 24, vm_addr = 0xFD000000\<rparr> 1 1 5 1 0x102030
      (replicate 16 0) = Some fb' \<and> fb' ! 11 = 0x30 \<and> fb' ! 12 = 0x20 \<and> fb' ! 13 = 0x10 \<and> fb' ! 14 = 0 \<and> fb' ! 3 = 0"
proof -
  let ?m = "\<lparr>vm_width = 2, vm_height = 2, vm_pitch = 8, vm_bpp = 24, vm_addr = 0xFD000000\<rparr>"
  have m: "mode_ok ?m (replicate 16 0)" by (simp add: mode_ok_def bytes_pp_def)
  obtain fb' where f: "display_fill_rect ?m 1 1 5 1 0x102030 (replicate 16 0) = Some fb'"
      "painted ?m (\<lambda>x' y'. unat (1 :: u32) \<le> x' \<and> x' < min (unat (1 :: u32) + unat (5 :: u32)) (unat (vm_width ?m))
          \<and> unat (1 :: u32) \<le> y' \<and> y' < min (unat (1 :: u32) + unat (1 :: u32)) (unat (vm_height ?m))) 0x102030 (replicate 16 0) fb'"
    using display_fill_rect_paints [OF m, of 1 5 1 1 "0x102030"] by auto
  have b: "fb' ! (r * 8 + j) = (if j div 3 = 1 \<and> r = 1 then pixel_bytes 0x102030 ! (j mod 3) else 0)" if "r < 2" "j < 8" for r j
    using f(2) that by (auto simp: painted_def bytes_pp_def)
  have "fb' ! 11 = 0x30" "fb' ! 12 = 0x20" "fb' ! 13 = 0x10" "fb' ! 14 = 0" "fb' ! 3 = 0"
    using b [of 1 3] b [of 1 4] b [of 1 5] b [of 1 6] b [of 0 3] by (simp_all add: pixel_bytes_def)
  with f(1) show ?thesis by blast
qed

end
