(* ===== verification/Boot.thy ===== *)
theory Boot
  imports Serial Display
begin

text \<open>
  Memory at boot, \<^verbatim>\<open>arch/x86/x86/kernel_init.c\<close>: \<^verbatim>\<open>memory_init\<close> reads the tags of the boot information, logs them,
  starts the frame allocator of \<open>FrameBitmap\<close> and looks for the framebuffer (\<open>Display\<close>).

  The boot information is the byte string \<open>mb\<close> at the address the loader passes; \<open>ks\<close> and \<open>ke\<close> are the
  addresses of the linker's symbols \<^verbatim>\<open>_kernel_start\<close> and \<^verbatim>\<open>_kernel_end\<close>.
\<close>

subsection \<open>State\<close>

record boot =
  bo_serial :: serial
  bo_pmm :: pmm
  bo_mode :: video_mode

definition wr :: "(serial \<Rightarrow> serial option) \<Rightarrow> boot \<Rightarrow> boot option" where
  "wr f s = map_option (\<lambda>p. s\<lparr>bo_serial := p\<rparr>) (f (bo_serial s))"

abbreviation wrs :: "string \<Rightarrow> boot \<Rightarrow> boot option" where
  "wrs cs \<equiv> wr (serial_write (asc cs))"

abbreviation wrnl :: "string \<Rightarrow> boot \<Rightarrow> boot option" where
  "wrnl cs \<equiv> wr (serial_write (asc cs @ [13, 10]))"

definition MULTIBOOT2_BOOTLOADER_MAGIC :: u32 where "MULTIBOOT2_BOOTLOADER_MAGIC = 0x2BADB002"

subsection \<open>The tags\<close>

definition log_size :: "u32 \<Rightarrow> boot \<Rightarrow> boot option" where
  "log_size size_kb s =
     (if 1024 \<le> size_kb then do { s1 \<leftarrow> wr (serial_write_dec (size_kb div 1024)) s; wrs '' MB, '' s1 }
      else do { s1 \<leftarrow> wr (serial_write_dec size_kb) s; wrs '' KB, '' s1 })"

definition log_type :: "u32 \<Rightarrow> boot \<Rightarrow> boot option" where
  "log_type ty = wrs (if ty = 1 then ''Available'' else if ty = 2 then ''Reserved'' else if ty = 3 then ''ACPI Reclaimable''
     else if ty = 4 then ''ACPI NVS'' else if ty = 5 then ''Bad RAM'' else ''Unknown'')"

text \<open>The entries from \<open>pos\<close> on, the next being number \<open>i\<close>, with \<open>k\<close> left.\<close>

fun log_entries :: "u8 list \<Rightarrow> nat \<Rightarrow> u32 \<Rightarrow> nat \<Rightarrow> boot \<Rightarrow> boot option" where
  "log_entries mb 0 i pos s = Some s"
| "log_entries mb (Suc k) i pos s = do {
     s1 \<leftarrow> wrs ''  '' s;
     s2 \<leftarrow> wr (serial_write_dec (i + 1)) s1;
     s3 \<leftarrow> wrs ''. '' s2;
     len \<leftarrow> rd64 mb (pos + 8);
     s4 \<leftarrow> log_size (ucast (len div 1024)) s3;
     ty \<leftarrow> rd32 mb (pos + 16);
     s5 \<leftarrow> log_type ty s4;
     s6 \<leftarrow> wrnl '')'' s5;
     log_entries mb k (i + 1) (pos + 24) s6 }"

text \<open>A string member of a tag, up to its NUL.\<close>

definition tag_string :: "u8 list \<Rightarrow> nat \<Rightarrow> cstr option" where
  "tag_string mb pos =
     (let r = takeWhile (\<lambda>c. c \<noteq> 0) (drop pos mb) in if pos + length r < length mb then Some r else None)"

text \<open>What the walk has found: \<^verbatim>\<open>mem_upper_kb\<close>, and where the map's entries are and how many.\<close>

type_synonym found = "u32 \<times> nat option \<times> u32"

definition boot_tag :: "u8 list \<Rightarrow> nat \<Rightarrow> u32 \<Rightarrow> found \<Rightarrow> boot \<Rightarrow> (found \<times> boot) option" where
  "boot_tag mb pos ty f s = (case f of (upper, map_pos, count) \<Rightarrow>
     if ty = 4 then do {
       s1 \<leftarrow> wrs ''Memory: lower='' s;
       lo \<leftarrow> rd32 mb (pos + 8);
       s2 \<leftarrow> wr (serial_write_dec lo) s1;
       s3 \<leftarrow> wrs ''KB, upper='' s2;
       up \<leftarrow> rd32 mb (pos + 12);
       s4 \<leftarrow> wr (serial_write_dec up) s3;
       s5 \<leftarrow> wrnl ''KB'' s4;
       Some ((up, map_pos, count), s5) }
     else if ty = 6 then do {
       sz \<leftarrow> rd32 mb (pos + 4);
       es \<leftarrow> rd32 mb (pos + 8);
       if es = 0 then None
       else let n = (sz - 16) div es in do {
         s1 \<leftarrow> wrs ''Memory map ('' s;
         s2 \<leftarrow> wr (serial_write_dec n) s1;
         s3 \<leftarrow> wrnl '' entries):'' s2;
         s4 \<leftarrow> log_entries mb (unat n) 0 (pos + 16) s3;
         Some ((upper, Some (pos + 16), n), s4) } }
     else if ty = 1 \<or> ty = 2 then do {
       s1 \<leftarrow> wrs (if ty = 1 then ''Command line: '' else ''Bootloader: '') s;
       str \<leftarrow> tag_string mb (pos + 8);
       s2 \<leftarrow> wr (serial_write str) s1;
       s3 \<leftarrow> wrnl '''' s2;
       Some (f, s3) }
     else Some (f, s))"

partial_function (option) boot_tags :: "u8 list \<Rightarrow> nat \<Rightarrow> found \<Rightarrow> boot \<Rightarrow> (found \<times> boot) option" where
  "boot_tags mb pos f s = do {
     ty \<leftarrow> rd32 mb pos;
     if ty = 0 then Some (f, s)
     else do {
       (f1, s1) \<leftarrow> boot_tag mb pos ty f s;
       sz \<leftarrow> rd32 mb (pos + 4);
       boot_tags mb (pos + unat ((sz + 7) AND NOT 7)) f1 s1 } }"

subsection \<open>Starting the frame allocator\<close>

definition on_pmm :: "(pmm \<Rightarrow> pmm option) \<Rightarrow> boot \<Rightarrow> boot option" where
  "on_pmm f s = map_option (\<lambda>p. s\<lparr>bo_pmm := p\<rparr>) (f (bo_pmm s))"

text \<open>
  \<^verbatim>\<open>pmm_init\<close> is declared here with five parameters, but it takes the boot information itself as its fourth: it
  is given the address of the map's first entry.
\<close>

definition memory_init :: "u32 \<Rightarrow> u8 list \<Rightarrow> u32 \<Rightarrow> u32 \<Rightarrow> boot \<Rightarrow> boot option" where
  "memory_init magic mb ks ke s = do {
     s1 \<leftarrow> wrnl ''[INIT] Memory initialization started'' s;
     s2 \<leftarrow> (if magic = MULTIBOOT2_BOOTLOADER_MAGIC \<or> magic = 0x1BADB002 then do {
         t1 \<leftarrow> wrnl ''Parsing multiboot2 tags...'' s1;
         ((upper, map_pos, count), t2) \<leftarrow> boot_tags mb 8 (0, None, 0) t1;
         t3 \<leftarrow> (case map_pos of
             Some pos \<Rightarrow>
               if 0 < count then do {
                 u \<leftarrow> wrnl ''Initializing PMM with memory map...'' t2;
                 on_pmm (pmm_init upper ks ke (drop pos mb)) u }
               else do {
                 u \<leftarrow> wrnl ''WARNING: No memory map available, using basic PMM initialization'' t2;
                 on_pmm (pmm_init_basic upper ks ke) u }
           | None \<Rightarrow> do {
                 u \<leftarrow> wrnl ''WARNING: No memory map available, using basic PMM initialization'' t2;
                 on_pmm (pmm_init_basic upper ks ke) u });
         t4 \<leftarrow> on_pmm (pmm_mark_used_region ks (ke - ks)) t3;
         t5 \<leftarrow> wrs ''Kernel memory: 0x'' t4;
         t6 \<leftarrow> wr (serial_write_hex ks) t5;
         t7 \<leftarrow> wrs '' - 0x'' t6;
         t8 \<leftarrow> wr (serial_write_hex ke) t7;
         t9 \<leftarrow> wrs '' ('' t8;
         t10 \<leftarrow> (if 1024 \<le> ke - ks then do { u \<leftarrow> wr (serial_write_dec ((ke - ks) div 1024)) t9; wrs '' KB'' u }
                else do { u \<leftarrow> wr (serial_write_dec (ke - ks)) t9; wrs '' bytes'' u });
         wrnl '')'' t10 }
       else do {
         t1 \<leftarrow> wrnl ''WARNING: No valid multiboot magic number, using fallback memory detection'' s1;
         t2 \<leftarrow> wrs ''Initializing PMM with default memory ('' t1;
         t3 \<leftarrow> wr (serial_write_dec 64) t2;
         t4 \<leftarrow> wrnl '' MB)'' t3;
         on_pmm (pmm_init_default (64 * 1024 - 1024)) t4 });
     s3 \<leftarrow> wrnl ''[INIT] Physical memory manager initialized'' s2;
     s4 \<leftarrow> wrnl ''[INIT] Memory initialization completed'' s3;
     m \<leftarrow> display_init magic mb;
     Some (s4\<lparr>bo_mode := m\<rparr>) }"

definition pic_init :: "boot \<Rightarrow> boot option" where
  "pic_init s = do { s1 \<leftarrow> wrnl ''[INIT] PIC initialization started'' s; wrnl ''[INIT] PIC initialization completed'' s1 }"

definition syscall_init :: "boot \<Rightarrow> boot option" where
  "syscall_init s = do {
     s1 \<leftarrow> wrnl ''[INIT] System call initialization started'' s; wrnl ''[INIT] System call initialization completed'' s1 }"

definition mount_root :: "boot \<Rightarrow> boot option" where
  "mount_root s = wrnl ''[INIT] Mounting root filesystem'' s"

definition start_init :: "boot \<Rightarrow> boot option" where
  "start_init s = do {
     s1 \<leftarrow> wrnl ''[INIT] Starting init process'' s;
     s2 \<leftarrow> wrnl ''System ready. Starting init...'' s1;
     wrnl ''[INIT] Init process setup complete'' s2 }"

subsection \<open>Without a serial port\<close>

definition silent :: "boot \<Rightarrow> bool" where
  "silent s \<longleftrightarrow> \<not> se_ready (bo_serial s)"

lemma silent_wr [simp]:
  assumes "silent s"
  shows "wr (serial_write cs) s = Some s" "wr (serial_write_dec n) s = Some s" "wr (serial_write_hex n) s = Some s"
  using assms
  by (simp_all add: wr_def silent_def serial_not_ready serial_dec_putcs serial_write_hex_def del: list.map upt.simps asc_def)

lemma silent_upd [simp]: "silent (s\<lparr>bo_pmm := p\<rparr>) = silent s"
  by (simp add: silent_def)

lemma log_entries_silent: "silent s \<Longrightarrow> log_entries mb k i pos s = Some t \<Longrightarrow> t = s"
proof (induction mb k i pos s rule: log_entries.induct)
  case (2 mb k i pos s)
  then show ?case by (auto simp: log_size_def log_type_def split: bind_splits if_splits)
qed simp

lemma boot_tag_silent: "silent s \<Longrightarrow> boot_tag mb pos ty f s = Some (g, t) \<Longrightarrow> t = s"
  by (auto simp: boot_tag_def Let_def dest!: log_entries_silent split: prod.splits bind_splits if_splits)

lemma boot_tags_silent:
  assumes "boot_tags mb pos f s = Some r" and "silent s"
  shows "snd r = s"
proof -
  have "silent s \<longrightarrow> snd r = s"
  proof (rule boot_tags.raw_induct [OF _ assms(1)])
    fix bt :: "u8 list \<Rightarrow> nat \<Rightarrow> found \<Rightarrow> boot \<Rightarrow> (found \<times> boot) option" and mb pos f s r
    assume IH: "\<And>mb pos f s r. bt mb pos f s = Some r \<Longrightarrow> silent s \<longrightarrow> snd r = s"
      and b: "(do { ty \<leftarrow> rd32 mb pos;
        if ty = 0 then Some (f, s)
        else do {
          (f1, s1) \<leftarrow> boot_tag mb pos ty f s;
          sz \<leftarrow> rd32 mb (pos + 4);
          bt mb (pos + unat ((sz + 7) AND NOT 7)) f1 s1 } }) = Some r"
    show "silent s \<longrightarrow> snd r = s"
      using b by (auto split: bind_splits if_splits prod.splits dest!: IH dest: boot_tag_silent)
  qed
  then show ?thesis using assms(2) by simp
qed

lemma loop_lengths:
  "clear_loop k f p = Some q \<Longrightarrow> length (pm_bitmap q) = length (pm_bitmap p)"
  "mark_loop k f p = Some q \<Longrightarrow> length (pm_bitmap q) = length (pm_bitmap p) \<and> pm_total q = pm_total p"
proof -
  show "clear_loop k f p = Some q \<Longrightarrow> length (pm_bitmap q) = length (pm_bitmap p)"
    by (induction k arbitrary: f p) (auto simp: clear_frame_def Let_def split: bind_splits if_splits)
  show "mark_loop k f p = Some q \<Longrightarrow> length (pm_bitmap q) = length (pm_bitmap p) \<and> pm_total q = pm_total p"
    by (induction k arbitrary: f p) (auto simp: set_frame_def Let_def split: bind_splits if_splits)
qed

lemma pmm_init_length:
  assumes "pmm_init upper ks ke mbi p = Some q" and "rd32 mbi 0 = Some lo" and "lo AND 0x40 = 0"
  shows "length (pm_bitmap q) = length (pm_bitmap p)"
  using assms
  by (auto simp: pmm_init_def reserve_range_def pmm_mark_used_region_def Let_def dest!: loop_lengths split: bind_splits if_splits)

lemma pmm_frames_marked:
  assumes "length (pm_bitmap p) = 1024" and "ks < ke" and "ke \<le> 0x8000000"
  shows "\<exists>b u. pmm_mark_used_region ks (ke - ks) p = Some (p\<lparr>pm_bitmap := b, pm_used := u\<rparr>) \<and> length b = 1024
    \<and> fb.used b = fb.used (pm_bitmap p) \<union> {f. unat ks div 4096 \<le> unat f \<and> unat f < (unat ke + 4095) div 4096}"
  using reserve_spec [OF assms(1,3,2)] assms(2) by (auto simp: pmm_mark_used_region_def Let_def)

text \<open>With the magic number its header calls that of Multiboot2, \<^verbatim>\<open>memory_init\<close> reads the memory map only to log
  it: the allocator is started with the address of the first entry in place of the boot information, takes
  the low word of that region's address for the flags, and, with the usual first region at address 0, counts
  every frame below the upper memory as usable but for the first megabyte and the kernel, whatever the map says.
\<close>

theorem memory_init_ignores_map:
  assumes "silent s" and "boot_tags mb 8 (0, None, 0) s = Some ((upper, Some pos, count), s')" and "0 < count"
    and "rd32 mb pos = Some lo" and "lo AND 0x40 = 0" and "length (pm_bitmap (bo_pmm s)) = 1024"
    and "upper \<le> 0x3FFBFF" and "ks < ke" and "ke \<le> 0x8000000" and "display_init 0x2BADB002 mb = Some m"
  shows "\<exists>t. memory_init 0x2BADB002 mb ks ke s = Some t \<and> bo_mode t = m
    \<and> unat (pm_total (bo_pmm t)) = min ((1024 + unat upper) div 4) 32768
    \<and> (\<forall>f < pm_total (bo_pmm t). test_frame f (pm_bitmap (bo_pmm t)) = Some (unat f < 256
         \<or> (unat ks div 4096 \<le> unat f \<and> unat f < (unat ke + 4095) div 4096)))"
proof -
  have s': "s' = s" using boot_tags_silent [OF assms(2,1)] by simp
  have "rd32 (drop pos mb) 0 = Some lo" using assms(4) by (auto simp: rd32_def le32_def byte_at_def split: if_splits)
  then obtain p where p: "pmm_init upper ks ke (drop pos mb) (bo_pmm s) = Some p"
    "unat (pm_total p) = min ((1024 + unat upper) div 4) 32768"
    "\<And>f. f < pm_total p \<Longrightarrow> test_frame f (pm_bitmap p) = Some (unat f < 256
         \<or> (unat ks div 4096 \<le> unat f \<and> unat f < (unat ke + 4095) div 4096))"
    using pmm_init_fallback [OF assms(6) _ assms(5,7,8,9)] by blast
  have l: "length (pm_bitmap p) = 1024"
    using pmm_init_length [OF p(1) _ assms(5)] \<open>rd32 (drop pos mb) 0 = Some lo\<close> assms(6) by simp
  obtain b u where b: "pmm_mark_used_region ks (ke - ks) p = Some (p\<lparr>pm_bitmap := b, pm_used := u\<rparr>)" "length b = 1024"
    "fb.used b = fb.used (pm_bitmap p) \<union> {f. unat ks div 4096 \<le> unat f \<and> unat f < (unat ke + 4095) div 4096}"
    using pmm_frames_marked [OF l assms(8,9)] by blast
  let ?t = "s\<lparr>bo_pmm := p\<lparr>pm_bitmap := b, pm_used := u\<rparr>, bo_mode := m\<rparr>"
  have "memory_init 0x2BADB002 mb ks ke s = Some ?t"
    using assms(1,2,3,10) p(1) b(1)
    by (simp add: memory_init_def MULTIBOOT2_BOOTLOADER_MAGIC_def s' on_pmm_def)
  moreover have "test_frame f b = Some (unat f < 256 \<or> (unat ks div 4096 \<le> unat f \<and> unat f < (unat ke + 4095) div 4096))"
    if f: "f < pm_total p" for f
  proof -
    have "unat f < 32768" using f p(2) by (simp add: word_less_nat_alt)
    then have "test_frame f (pm_bitmap p) = Some (f \<in> fb.used (pm_bitmap p))" "test_frame f b = Some (f \<in> fb.used b)"
      using l b(2) by (simp_all add: fb.test_used)
    then show ?thesis using p(3) [OF f] b(3) by auto
  qed
  ultimately show ?thesis using p(2) by (intro exI [of _ ?t]) simp
qed

text \<open>
  Boot information with 127 MiB of upper memory and a map that has only its first 639 KiB usable; frame 300
  (at 1.2 MiB) counts as free.
\<close>

definition demo_mb :: "u8 list" where
  "demo_mb = concat (map bytes_of_u32
     [80, 0, 4, 16, 639, 130048, 6, 40, 24, 0, 0, 0, 0x9FC00, 0, 1, 0, 0, 8])"

definition demo_booting :: boot where
  "demo_booting = \<lparr>bo_serial = \<lparr>se_ready = False, se_present = False, se_status = [], se_in = [], se_out = []\<rparr>,
     bo_pmm = pmm_boot, bo_mode = no_mode\<rparr>"

lemma demo_words:
  "rd32 demo_mb 8 = Some 4" "rd32 demo_mb 12 = Some 16" "rd32 demo_mb 16 = Some 639" "rd32 demo_mb 20 = Some 130048"
  "rd32 demo_mb 24 = Some 6" "rd32 demo_mb 28 = Some 40" "rd32 demo_mb 32 = Some 24" "rd32 demo_mb 40 = Some 0"
  "rd32 demo_mb 48 = Some 0x9FC00" "rd32 demo_mb 52 = Some 0" "rd32 demo_mb 56 = Some 1" "rd32 demo_mb 64 = Some 0"
  by (simp_all add: demo_mb_def bytes_of_u32_def rd32_def le32_def byte_at_def)

lemma demo_tags:
  "boot_tags demo_mb 8 (0, None, 0) demo_booting = Some ((130048, Some 40, 1), demo_booting)"
  "display_init 0x2BADB002 demo_mb = Some no_mode" "display_init 0x36D76289 demo_mb = Some no_mode"
proof -
  have s: "silent demo_booting" by (simp add: silent_def demo_booting_def)
  show "boot_tags demo_mb 8 (0, None, 0) demo_booting = Some ((130048, Some 40, 1), demo_booting)"
    by (subst boot_tags.simps, simp add: demo_words boot_tag_def s, subst boot_tags.simps,
      simp add: demo_words boot_tag_def s rd64_def log_size_def log_type_def, subst boot_tags.simps, simp add: demo_words)
  have d: "display_tags demo_mb 8 = Some no_mode"
    by (subst display_tags.simps, simp add: demo_words, subst display_tags.simps, simp add: demo_words, subst display_tags.simps,
      simp add: demo_words)
  then show "display_init 0x2BADB002 demo_mb = Some no_mode" "display_init 0x36D76289 demo_mb = Some no_mode"
    by (simp_all add: display_init_def)
qed

lemma memory_init_ignores_map_witness:
  "\<exists>t. memory_init 0x2BADB002 demo_mb 0x100000 0x120000 demo_booting = Some t \<and> test_frame 300 (pm_bitmap (bo_pmm t)) = Some False"
proof -
  have s: "silent demo_booting" "length (pm_bitmap (bo_pmm demo_booting)) = 1024" by (simp_all add: silent_def demo_booting_def pmm_boot_def)
  obtain t where t: "memory_init 0x2BADB002 demo_mb 0x100000 0x120000 demo_booting = Some t"
    "unat (pm_total (bo_pmm t)) = min ((1024 + unat (130048 :: u32)) div 4) 32768"
    "\<forall>f < pm_total (bo_pmm t). test_frame f (pm_bitmap (bo_pmm t)) = Some (unat f < 256
         \<or> (unat (0x100000 :: u32) div 4096 \<le> unat f \<and> unat f < (unat (0x120000 :: u32) + 4095) div 4096))"
    using memory_init_ignores_map [OF s(1) demo_tags(1) _ demo_words(8) _ s(2) _ _ _ demo_tags(2), of "0x100000" "0x120000"] by auto
  then have "300 < pm_total (bo_pmm t)" by (simp add: word_less_nat_alt)
  then show ?thesis using t(1,3) by auto
qed

lemma default_frames:
  assumes "length (pm_bitmap p) = 1024"
  shows "\<exists>q. pmm_init_default 64512 p = Some q \<and> pm_total q = pm_total p \<and> length (pm_bitmap q) = 1024
    \<and> test_frame 256 (pm_bitmap q) = Some False \<and> (\<forall>f. unat f < 256 \<longrightarrow> test_frame f (pm_bitmap q) = Some True)"
proof -
  let ?p1 = "p\<lparr>pm_bitmap := replicate 1024 0xFFFFFFFF\<rparr>"
  obtain b where b: "clear_loop 16384 0 ?p1 = Some (?p1\<lparr>pm_bitmap := b\<rparr>)" "length b = 1024"
    "fb.used b = fb.used (replicate 1024 0xFFFFFFFF) - frames 0 16384"
    using clear_loop_spec [of 0 16384 ?p1] by auto
  obtain b2 u where b2: "pmm_mark_used_region 0 (0x100000 - 0) (?p1\<lparr>pm_bitmap := b\<rparr>) = Some (?p1\<lparr>pm_bitmap := b2, pm_used := u\<rparr>)"
    "length b2 = 1024" "fb.used b2 = fb.used b \<union> {f. unat f < 256}"
    using pmm_frames_marked [of "?p1\<lparr>pm_bitmap := b\<rparr>" 0 "0x100000"] b(2) by auto
  let ?q = "?p1\<lparr>pm_bitmap := b2, pm_used := u\<rparr>"
  have d: "pmm_init_default 64512 p = Some ?q"
    using b(1) b2(1) assms by (simp add: pmm_init_default_def pmm_init_basic_def Let_def FRAME_SIZE_def MAX_FRAMES_def)
      (simp add: pmm_mark_used_region_def)
  have t: "test_frame f b2 = Some (f \<in> fb.used b2)" if "unat f < 32768" for f
    using that b2(2) by (simp add: fb.test_used)
  have "256 \<notin> fb.used b2" by (simp add: b2(3) b(3) frames_def)
  then have "test_frame 256 b2 = Some False" using t [of 256] by simp
  moreover have "test_frame f b2 = Some True" if "unat f < 256" for f using t [of f] that b2(3) by simp
  ultimately show ?thesis using d b2(2) by (intro exI [of _ ?q]) simp
qed

lemma memory_init_default:
  assumes "silent s" and "length (pm_bitmap (bo_pmm s)) = 1024" and "pm_total (bo_pmm s) = MAX_FRAMES"
    and "display_init 0x36D76289 mb = Some m"
  shows "\<exists>t p. memory_init 0x36D76289 mb ks ke s = Some t \<and> bo_mode t = m \<and> pmm_alloc_frame (bo_pmm t) = Some (0x100000, p)"
proof -
  obtain q where q: "pmm_init_default 64512 (bo_pmm s) = Some q" "pm_total q = MAX_FRAMES" "length (pm_bitmap q) = 1024"
    "test_frame 256 (pm_bitmap q) = Some False" "\<And>f. unat f < 256 \<Longrightarrow> test_frame f (pm_bitmap q) = Some True"
    using default_frames [OF assms(2)] assms(3) by auto
  let ?t = "s\<lparr>bo_pmm := q, bo_mode := m\<rparr>"
  have "memory_init 0x36D76289 mb ks ke s = Some ?t"
    using assms(1,4) q(1) by (simp add: memory_init_def MULTIBOOT2_BOOTLOADER_MAGIC_def on_pmm_def)
  moreover have "pmm_inv q" using q(2,3) q(5) [of 0] by (simp add: pmm_inv_def MAX_FRAMES_def)
  then have "\<exists>p. pmm_alloc_frame q = Some (0x100000, p)"
  proof (cases rule: pmm_alloc_cases)
    case full
    then show ?thesis using q(2,4) by (auto simp: MAX_FRAMES_def)
  next
    case (found g b)
    have "\<not> 256 < g" using found(2) q(2,4) by (auto simp: MAX_FRAMES_def)
    moreover have "\<not> unat g < 256" using found(1) q(5) [of g] by auto
    ultimately have "g = 256" by (simp add: word_less_nat_alt word_unat_eq_iff)
    then show ?thesis using found(6) by (simp add: FRAME_SIZE_def)
  qed
  ultimately show ?thesis by (intro exI [of _ ?t]) simp
qed

text \<open>A loader that follows the Multiboot2 specification passes the magic number 0x36D76289, which \<^verbatim>\<open>memory_init\<close>
  does not accept (although \<^verbatim>\<open>display_init\<close> does): it assumes 64 MiB and does not reserve the kernel, so
  that the first frame \<^verbatim>\<open>pmm_alloc_frame\<close> hands out is the one at 1 MiB, where the kernel is.
\<close>

theorem memory_init_multiboot2:
  assumes "silent s" and "length (pm_bitmap (bo_pmm s)) = 1024" and "pm_total (bo_pmm s) = MAX_FRAMES"
    and "display_init 0x36D76289 mb = Some m"
  shows "\<exists>t p. memory_init 0x36D76289 mb ks ke s = Some t \<and> bo_mode t = m \<and> pmm_alloc_frame (bo_pmm t) = Some (0x100000, p)"
  by (rule memory_init_default [OF assms])

lemma memory_init_multiboot2_witness:
  "\<exists>t p. memory_init 0x36D76289 demo_mb 0x100000 0x120000 demo_booting = Some t \<and> pmm_alloc_frame (bo_pmm t) = Some (0x100000, p)"
proof -
  have s: "silent demo_booting" "length (pm_bitmap (bo_pmm demo_booting)) = 1024" "pm_total (bo_pmm demo_booting) = MAX_FRAMES"
    by (simp_all add: silent_def demo_booting_def pmm_boot_def)
  show ?thesis using memory_init_multiboot2 [OF s demo_tags(3), of "0x100000" "0x120000"] by blast
qed

end
