(* ===== verification/Keyboard.thy ===== *)
theory Keyboard
  imports RetaBase
begin

text \<open>
  The keyboard driver \<^verbatim>\<open>drivers/keyboard/keyboard.c\<close>: the interrupt handler decodes scan codes with
  its modifier state and puts keys into a ring buffer; \<^verbatim>\<open>keyboard_getkey_nonblock\<close> takes them out.
  The scan code that the handler reads from port 0x60 is its argument; the debug output on the
  serial line is left out.

  What the readers rely on is the locale \<open>bounded_queue\<close>: first in first out, and a key that finds
  the buffer full is dropped.  The ring buffer is its interpretation.
\<close>

subsection \<open>State\<close>

definition BUF_SIZE :: u32 where "BUF_SIZE = 128"

record kbd =
  kb_ring :: "u16 list"
  kb_head :: u32
  kb_tail :: u32
  kb_shift_l :: bool
  kb_shift_r :: bool
  kb_caps :: bool
  kb_e0 :: bool

definition KBD_LEFT :: u16 where "KBD_LEFT = 0x101"
definition KBD_RIGHT :: u16 where "KBD_RIGHT = 0x102"
definition KBD_UP :: u16 where "KBD_UP = 0x103"
definition KBD_DOWN :: u16 where "KBD_DOWN = 0x104"
definition KBD_HOME :: u16 where "KBD_HOME = 0x105"
definition KBD_END :: u16 where "KBD_END = 0x106"
definition KBD_DEL :: u16 where "KBD_DEL = 0x107"

definition keyboard_init :: "kbd \<Rightarrow> kbd" where
  "keyboard_init k = k\<lparr>kb_head := 0, kb_tail := 0, kb_shift_l := False, kb_shift_r := False,
     kb_caps := False, kb_e0 := False\<rparr>"

subsection \<open>Scan codes\<close>

definition key_map :: "u8 list" where
  "key_map = [0, 27] @ asc ''1234567890-='' @ [8, 9] @ asc ''qwertyuiop[]'' @ [0x5C, 0] @ asc ''asdfghjkl;''
     @ [0x27, 0x60, 0, 0x5C] @ asc ''zxcvbnm,./'' @ [0, 0x2A, 0, 0x20] @ replicate 70 0"

definition key_map_shift :: "u8 list" where
  "key_map_shift = [0, 27] @ asc ''!@#$%^&*()_+'' @ [8, 9] @ asc ''QWERTYUIOP{}'' @ [0x7C, 0] @ asc ''ASDFGHJKL:''
     @ [0x22, 0x7E, 0, 0x7C] @ asc ''ZXCVBNM<>?'' @ [0, 0x2A, 0, 0x20] @ replicate 70 0"

definition is_letter :: "u8 \<Rightarrow> bool" where
  "is_letter sc \<longleftrightarrow> (0x10 \<le> sc \<and> sc \<le> 0x19) \<or> (0x1E \<le> sc \<and> sc \<le> 0x26) \<or> (0x2C \<le> sc \<and> sc \<le> 0x32)"

definition scancode_to_ascii :: "u8 \<Rightarrow> kbd \<Rightarrow> u8" where
  "scancode_to_ascii sc k =
     (if sc = 0x1C then 10
      else if sc = 0x0E then 8
      else if unat sc < 128 then
        (let sh = (kb_shift_l k \<or> kb_shift_r k) in
         if is_letter sc then
           (if kb_caps k \<noteq> sh then key_map_shift ! unat sc else key_map ! unat sc)
         else (if sh then key_map_shift ! unat sc else key_map ! unat sc))
      else 0)"

subsection \<open>The ring buffer\<close>

definition push_key :: "u16 \<Rightarrow> kbd \<Rightarrow> kbd" where
  "push_key key k =
     (let n = (kb_head k + 1) mod BUF_SIZE in
      if n \<noteq> kb_tail k then k\<lparr>kb_ring := (kb_ring k)[unat (kb_head k) := key], kb_head := n\<rparr> else k)"

definition keyboard_getkey_nonblock :: "kbd \<Rightarrow> int \<times> kbd" where
  "keyboard_getkey_nonblock k =
     (if kb_head k = kb_tail k then (-1, k)
      else (uint (kb_ring k ! unat (kb_tail k)), k\<lparr>kb_tail := (kb_tail k + 1) mod BUF_SIZE\<rparr>))"

text \<open>A key of 256 or more is consumed, but reported as no key.\<close>

definition keyboard_getchar_nonblock :: "kbd \<Rightarrow> int \<times> kbd" where
  "keyboard_getchar_nonblock k =
     (case keyboard_getkey_nonblock k of (c, k') \<Rightarrow>
        if c < 0 then (-1, k') else if c < 256 then (c, k') else (-1, k'))"

subsection \<open>The interrupt handler\<close>

definition extended_key :: "u8 \<Rightarrow> u16 option" where
  "extended_key code =
     (if code = 0x4B then Some KBD_LEFT else if code = 0x4D then Some KBD_RIGHT
      else if code = 0x48 then Some KBD_UP else if code = 0x50 then Some KBD_DOWN
      else if code = 0x47 then Some KBD_HOME else if code = 0x4F then Some KBD_END
      else if code = 0x53 then Some KBD_DEL else None)"

definition keyboard_irq_handler :: "u8 \<Rightarrow> kbd \<Rightarrow> kbd" where
  "keyboard_irq_handler sc k =
     (if sc = 0xE0 then k\<lparr>kb_e0 := True\<rparr>
      else let release = (sc AND 0x80 \<noteq> 0); code = sc AND 0x7F in
        if kb_e0 k then
          (let k1 = k\<lparr>kb_e0 := False\<rparr> in
           if release then k1
           else (case extended_key code of Some key \<Rightarrow> push_key key k1 | None \<Rightarrow> k1))
        else if release then
          (if code = 0x2A then k\<lparr>kb_shift_l := False\<rparr>
           else if code = 0x36 then k\<lparr>kb_shift_r := False\<rparr> else k)
        else if code = 0x2A then k\<lparr>kb_shift_l := True\<rparr>
        else if code = 0x36 then k\<lparr>kb_shift_r := True\<rparr>
        else if code = 0x3A then k\<lparr>kb_caps := (\<not> kb_caps k)\<rparr>
        else if code = 0x1C then push_key 10 k
        else (let ch = scancode_to_ascii code k in if ch \<noteq> 0 then push_key (ucast ch) k else k))"

subsection \<open>Bounded queues\<close>

datatype 'a qop = Enq 'a | Deq

fun qrun :: "('a \<Rightarrow> 'q \<Rightarrow> 'q) \<Rightarrow> ('q \<Rightarrow> 'a option \<times> 'q) \<Rightarrow> 'a qop list \<Rightarrow> 'q \<Rightarrow> 'a list \<times> 'q" where
  "qrun enq deq [] q = ([], q)"
| "qrun enq deq (Enq x # ops) q = qrun enq deq ops (enq x q)"
| "qrun enq deq (Deq # ops) q =
     (case deq q of (r, q1) \<Rightarrow> (case qrun enq deq ops q1 of (out, q2) \<Rightarrow>
        ((case r of Some x \<Rightarrow> x # out | None \<Rightarrow> out), q2)))"

fun enqs :: "'a qop list \<Rightarrow> 'a list" where
  "enqs [] = []"
| "enqs (Enq x # ops) = x # enqs ops"
| "enqs (Deq # ops) = enqs ops"

text \<open>The specification: a list with room for \<open>room\<close> elements, which drops what does not fit.  The result is what came
  out and what is left.\<close>

fun list_run :: "nat \<Rightarrow> 'a qop list \<Rightarrow> 'a list \<Rightarrow> 'a list \<times> 'a list" where
  "list_run room [] xs = ([], xs)"
| "list_run room (Enq x # ops) xs = list_run room ops (if length xs < room then xs @ [x] else xs)"
| "list_run room (Deq # ops) [] = list_run room ops []"
| "list_run room (Deq # ops) (x # xs) = apfst (Cons x) (list_run room ops xs)"

lemma list_run_fits:
  "length xs + length (enqs ops) \<le> room \<Longrightarrow> fst (list_run room ops xs) @ snd (list_run room ops xs) = xs @ enqs ops"
  by (induction room ops xs rule: list_run.induct) (simp_all add: apfst_def map_prod_def split_beta)

locale bounded_queue =
  fixes enq :: "'a \<Rightarrow> 'q \<Rightarrow> 'q"
    and deq :: "'q \<Rightarrow> 'a option \<times> 'q"
    and contents :: "'q \<Rightarrow> 'a list"
    and inv :: "'q \<Rightarrow> bool"
    and room :: nat
  assumes enq_law: "inv q \<Longrightarrow> inv (enq x q) \<and>
      contents (enq x q) = (if length (contents q) < room then contents q @ [x] else contents q)"
    and deq_empty: "inv q \<Longrightarrow> contents q = [] \<Longrightarrow> deq q = (None, q)"
    and deq_law: "inv q \<Longrightarrow> contents q = x # xs \<Longrightarrow>
      fst (deq q) = Some x \<and> contents (snd (deq q)) = xs \<and> inv (snd (deq q))"
begin

lemma room_bound: "inv q \<Longrightarrow> length (contents q) \<le> room \<Longrightarrow> length (contents (enq x q)) \<le> room"
  using enq_law by simp

text \<open>Every run is a run of the list.\<close>

lemma run_list:
  "inv q \<Longrightarrow> inv (snd (qrun enq deq ops q))
    \<and> list_run room ops (contents q) = (fst (qrun enq deq ops q), contents (snd (qrun enq deq ops q)))"
proof (induction ops arbitrary: q)
  case (Cons oper ops)
  show ?case
  proof (cases oper)
    case (Enq x)
    then show ?thesis using Cons.IH [of "enq x q"] Cons.prems enq_law [of q x] by simp
  next
    case Deq
    show ?thesis
    proof (cases "contents q")
      case Nil
      then show ?thesis using Deq Cons.IH [OF Cons.prems] deq_empty [OF Cons.prems] by (auto split: prod.splits)
    next
      case (Cons x xs)
      obtain r q1 where d: "deq q = (r, q1)" by fastforce
      then have "r = Some x" "contents q1 = xs" "inv q1" using deq_law [OF Cons.prems(1) Cons] by auto
      then show ?thesis using Deq d Cons Cons.IH [of q1] by (auto split: prod.splits)
    qed
  qed
qed simp

end

subsection \<open>The ring buffer is a bounded queue\<close>

definition kbd_inv :: "kbd \<Rightarrow> bool" where
  "kbd_inv k \<longleftrightarrow> length (kb_ring k) = 128 \<and> unat (kb_head k) < 128 \<and> unat (kb_tail k) < 128"

definition ring_len :: "nat \<Rightarrow> nat \<Rightarrow> nat" where
  "ring_len h t = (h + 128 - t) mod 128"

definition kbd_contents :: "kbd \<Rightarrow> u16 list" where
  "kbd_contents k = map (\<lambda>i. kb_ring k ! ((unat (kb_tail k) + i) mod 128))
     [0..<ring_len (unat (kb_head k)) (unat (kb_tail k))]"

lemma ring_arith:
  assumes "h < 128" "t < 128"
  shows "ring_len h t < 128" "(t + ring_len h t) mod 128 = h"
    "ring_len h t = 0 \<longleftrightarrow> h = t"
    "(h + 1) mod 128 = t \<longleftrightarrow> ring_len h t = 127"
    "ring_len h t < 127 \<Longrightarrow> ring_len ((h + 1) mod 128) t = Suc (ring_len h t)"
    "h \<noteq> t \<Longrightarrow> Suc (ring_len h ((t + 1) mod 128)) = ring_len h t"
  using assms unfolding ring_len_def by (cases "t \<le> h"; auto simp: mod_if)+

lemma ring_slot_neq:
  assumes "h < 128" "t < 128" "i < ring_len h t" shows "(t + i) mod 128 \<noteq> h"
proof (cases "t \<le> h")
  case True
  then have "ring_len h t = h - t" using assms by (simp add: ring_len_def mod_if)
  then show ?thesis using assms True by simp
next
  case False
  then have "ring_len h t = h + 128 - t" using assms by (simp add: ring_len_def)
  then have i: "t + i < h + 128" using assms(3) by simp
  show ?thesis
  proof (cases "t + i < 128")
    case True
    then show ?thesis using False by simp
  next
    case 2: False
    then have "(t + i) mod 128 = t + i - 128" using i assms(1) by (simp add: mod_if)
    then show ?thesis using i 2 by linarith
  qed
qed

lemma unat_succ_mod: "unat x < 128 \<Longrightarrow> unat ((x + 1) mod BUF_SIZE) = (unat x + 1) mod 128"
  by (simp add: BUF_SIZE_def unat_mod unat_word_ariths)

lemma length_contents [simp]: "length (kbd_contents k) = ring_len (unat (kb_head k)) (unat (kb_tail k))"
  by (simp add: kbd_contents_def)

lemma push_key_contents:
  assumes inv: "kbd_inv k"
  shows "kbd_inv (push_key x k) \<and> kbd_contents (push_key x k) =
    (if length (kbd_contents k) < 127 then kbd_contents k @ [x] else kbd_contents k)"
proof -
  let ?h = "unat (kb_head k)" and ?t = "unat (kb_tail k)"
  have b: "?h < 128" "?t < 128" "length (kb_ring k) = 128" using inv by (simp_all add: kbd_inv_def)
  have n: "unat ((kb_head k + 1) mod BUF_SIZE) = (?h + 1) mod 128" using unat_succ_mod b(1) .
  have eq: "(kb_head k + 1) mod BUF_SIZE = kb_tail k \<longleftrightarrow> ring_len ?h ?t = 127"
    using ring_arith(4) [OF b(1,2)] n by (metis unsigned_word_eqI)
  show ?thesis
  proof (cases "ring_len ?h ?t < 127")
    case False
    then have "ring_len ?h ?t = 127" using ring_arith(1) [OF b(1,2)] by simp
    then show ?thesis using inv eq by (simp add: push_key_def Let_def)
  next
    case True
    let ?r = "(kb_ring k)[?h := x]"
    have p: "push_key x k = k\<lparr>kb_ring := ?r, kb_head := (kb_head k + 1) mod BUF_SIZE\<rparr>"
      using True eq by (simp add: push_key_def Let_def)
    have "?r ! ((?t + i) mod 128) = kb_ring k ! ((?t + i) mod 128)" if "i < ring_len ?h ?t" for i
      using ring_slot_neq [OF b(1,2) that] by simp
    then have "kbd_contents (push_key x k) = kbd_contents k @ [x]"
      unfolding kbd_contents_def p using ring_arith(5) [OF b(1,2) True] ring_arith(2) [OF b(1,2)] b
      by (simp add: n)
    moreover have "kbd_inv (push_key x k)" using b by (simp add: kbd_inv_def p n)
    ultimately show ?thesis using True by simp
  qed
qed

definition getkey_opt :: "kbd \<Rightarrow> u16 option \<times> kbd" where
  "getkey_opt k = (case keyboard_getkey_nonblock k of (c, k') \<Rightarrow> (if c < 0 then None else Some (word_of_int c), k'))"

lemma getkey_contents:
  assumes inv: "kbd_inv k" and c: "kbd_contents k = x # xs"
  shows "keyboard_getkey_nonblock k = (uint x, k\<lparr>kb_tail := (kb_tail k + 1) mod BUF_SIZE\<rparr>)"
    and "kbd_contents (k\<lparr>kb_tail := (kb_tail k + 1) mod BUF_SIZE\<rparr>) = xs"
    and "kbd_inv (k\<lparr>kb_tail := (kb_tail k + 1) mod BUF_SIZE\<rparr>)"
proof -
  let ?h = "unat (kb_head k)" and ?t = "unat (kb_tail k)"
  have b: "?h < 128" "?t < 128" "length (kb_ring k) = 128" using inv by (simp_all add: kbd_inv_def)
  have n: "unat ((kb_tail k + 1) mod BUF_SIZE) = (?t + 1) mod 128" using unat_succ_mod b(2) .
  have "length (kbd_contents k) = Suc (length xs)" using c by simp
  then have ne: "?h \<noteq> ?t" using ring_arith(3) [OF b(1,2)] by auto
  let ?l = "ring_len ?h ((?t + 1) mod 128)"
  have l: "ring_len ?h ?t = Suc ?l" using ring_arith(6) [OF b(1,2) ne] by simp
  have "[0..<Suc ?l] = 0 # map Suc [0..<?l]" by (simp add: upt_conv_Cons map_Suc_upt del: upt_Suc)
  then have d: "kbd_contents k = kb_ring k ! ?t # map (\<lambda>i. kb_ring k ! ((?t + Suc i) mod 128)) [0..<?l]"
    unfolding kbd_contents_def l using b by (simp add: o_def)
  have "((?t + 1) mod 128 + i) mod 128 = (?t + Suc i) mod 128" for i by (simp add: mod_add_left_eq)
  then show "kbd_contents (k\<lparr>kb_tail := (kb_tail k + 1) mod BUF_SIZE\<rparr>) = xs"
    using c d by (simp add: kbd_contents_def n)
  show "kbd_inv (k\<lparr>kb_tail := (kb_tail k + 1) mod BUF_SIZE\<rparr>)" using b by (simp add: kbd_inv_def n)
  show "keyboard_getkey_nonblock k = (uint x, k\<lparr>kb_tail := (kb_tail k + 1) mod BUF_SIZE\<rparr>)"
    using ne c d by (auto simp: keyboard_getkey_nonblock_def)
qed

lemma getkey_empty:
  "kbd_inv k \<Longrightarrow> kbd_contents k = [] \<Longrightarrow> keyboard_getkey_nonblock k = (-1, k)"
  using ring_arith(3) [of "unat (kb_head k)" "unat (kb_tail k)"] length_contents [of k]
  by (auto simp: keyboard_getkey_nonblock_def kbd_inv_def dest: unsigned_word_eqI)

interpretation kq: bounded_queue push_key getkey_opt kbd_contents kbd_inv 127
proof
  fix q :: kbd and x xs assume inv: "kbd_inv q"
  show "kbd_inv (push_key x q) \<and> kbd_contents (push_key x q) =
      (if length (kbd_contents q) < 127 then kbd_contents q @ [x] else kbd_contents q)"
    using push_key_contents [OF inv] .
  show "kbd_contents q = [] \<Longrightarrow> getkey_opt q = (None, q)"
    using getkey_empty [OF inv] by (simp add: getkey_opt_def)
  assume "kbd_contents q = x # xs"
  from getkey_contents [OF inv this]
  show "fst (getkey_opt q) = Some x \<and> kbd_contents (snd (getkey_opt q)) = xs \<and> kbd_inv (snd (getkey_opt q))"
    by (simp add: getkey_opt_def)
qed

subsection \<open>Decoding\<close>

lemma kbd_inv_upd [simp]:
  "kbd_inv (k\<lparr>kb_e0 := v\<rparr>) = kbd_inv k" "kbd_inv (k\<lparr>kb_shift_l := v\<rparr>) = kbd_inv k"
  "kbd_inv (k\<lparr>kb_shift_r := v\<rparr>) = kbd_inv k" "kbd_inv (k\<lparr>kb_caps := v\<rparr>) = kbd_inv k"
  "kbd_contents (k\<lparr>kb_e0 := v\<rparr>) = kbd_contents k" "kbd_contents (k\<lparr>kb_shift_l := v\<rparr>) = kbd_contents k"
  "kbd_contents (k\<lparr>kb_shift_r := v\<rparr>) = kbd_contents k" "kbd_contents (k\<lparr>kb_caps := v\<rparr>) = kbd_contents k"
  by (simp_all add: kbd_inv_def kbd_contents_def)

lemma irq_inv: "kbd_inv k \<Longrightarrow> kbd_inv (keyboard_irq_handler sc k)"
  using push_key_contents by (auto simp: keyboard_irq_handler_def Let_def split: option.splits)


text \<open>The key an interrupt delivers, and its effect on the modifiers alone.\<close>

definition irq_key :: "u8 \<Rightarrow> kbd \<Rightarrow> u16 option" where
  "irq_key sc k =
     (let code = sc AND 0x7F in
      if sc = 0xE0 then None
      else if sc AND 0x80 \<noteq> 0 then None
      else if kb_e0 k then extended_key code
      else if code = 0x2A \<or> code = 0x36 \<or> code = 0x3A then None
      else if code = 0x1C then Some 10
      else (let ch = scancode_to_ascii code k in if ch \<noteq> 0 then Some (ucast ch) else None))"

text \<open>The same interrupt on the modifiers alone.\<close>

definition irq_modifiers :: "u8 \<Rightarrow> kbd \<Rightarrow> kbd" where
  "irq_modifiers sc k =
     (if sc = 0xE0 then k\<lparr>kb_e0 := True\<rparr>
      else let release = (sc AND 0x80 \<noteq> 0); code = sc AND 0x7F in
        if kb_e0 k then k\<lparr>kb_e0 := False\<rparr>
        else if code = 0x2A then k\<lparr>kb_shift_l := \<not> release\<rparr>
        else if code = 0x36 then k\<lparr>kb_shift_r := \<not> release\<rparr>
        else if code = 0x3A \<and> \<not> release then k\<lparr>kb_caps := (\<not> kb_caps k)\<rparr>
        else k)"

lemma irq_contents:
  assumes inv: "kbd_inv k"
  shows "kbd_contents (keyboard_irq_handler sc k) = (case irq_key sc k of
      Some x \<Rightarrow> if length (kbd_contents k) < 127 then kbd_contents k @ [x] else kbd_contents k
    | None \<Rightarrow> kbd_contents k)"
proof -
  have p: "kbd_contents (push_key x k') = (if length (kbd_contents k) < 127 then kbd_contents k @ [x] else kbd_contents k)"
    if "kbd_inv k'" "kbd_contents k' = kbd_contents k" for k' x
    using kq.enq_law [OF that(1), of x] that(2) by simp
  have q: "kbd_contents (push_key x k) = (if length (kbd_contents k) < 127 then kbd_contents k @ [x] else kbd_contents k)"
    "kbd_contents (push_key x (k\<lparr>kb_e0 := False\<rparr>)) = (if length (kbd_contents k) < 127 then kbd_contents k @ [x] else kbd_contents k)" for x
    by (rule p; simp add: inv)+
  show ?thesis
    unfolding keyboard_irq_handler_def irq_key_def Let_def
    by (auto simp: q split: option.splits simp del: length_contents)
qed

text \<open>The modifiers, which the ring buffer does not influence.\<close>

definition modifiers :: "kbd \<Rightarrow> bool \<times> bool \<times> bool \<times> bool" where
  "modifiers k = (kb_shift_l k, kb_shift_r k, kb_caps k, kb_e0 k)"

lemma push_modifiers [simp]: "modifiers (push_key x k) = modifiers k"
  by (simp add: modifiers_def push_key_def Let_def)

lemma irq_modifiers: "modifiers (keyboard_irq_handler sc k) = modifiers (irq_modifiers sc k)"
proof -
  have p: "kb_shift_l (push_key x k) = kb_shift_l k" "kb_shift_r (push_key x k) = kb_shift_r k"
    "kb_caps (push_key x k) = kb_caps k" "kb_e0 (push_key x k) = kb_e0 k" for x k
    by (simp_all add: push_key_def Let_def)
  show ?thesis unfolding keyboard_irq_handler_def irq_modifiers_def Let_def modifiers_def
    by (auto simp: p split: option.splits)
qed

lemma modifiers_key:
  assumes "modifiers k = modifiers k'"
  shows "irq_key sc k = irq_key sc k' \<and> modifiers (irq_modifiers sc k) = modifiers (irq_modifiers sc k')"
proof -
  have e: "kb_shift_l k = kb_shift_l k'" "kb_shift_r k = kb_shift_r k'" "kb_caps k = kb_caps k'" "kb_e0 k = kb_e0 k'"
    using assms by (simp_all add: modifiers_def)
  have "scancode_to_ascii c k = scancode_to_ascii c k'" for c by (simp add: scancode_to_ascii_def Let_def e)
  then have "irq_key sc k = irq_key sc k'" by (simp add: irq_key_def Let_def e)
  moreover have "modifiers (irq_modifiers sc k) = modifiers (irq_modifiers sc k')"
    unfolding irq_modifiers_def modifiers_def Let_def by (simp add: e)
  ultimately show ?thesis ..
qed

lemma getkey_modifiers: "modifiers (snd (keyboard_getkey_nonblock k)) = modifiers k"
  by (simp add: keyboard_getkey_nonblock_def modifiers_def)

datatype kev = Irq u8 | Get

fun kbd_run :: "kev list \<Rightarrow> kbd \<Rightarrow> int list \<times> kbd" where
  "kbd_run [] k = ([], k)"
| "kbd_run (Irq sc # evs) k = kbd_run evs (keyboard_irq_handler sc k)"
| "kbd_run (Get # evs) k =
     (case keyboard_getkey_nonblock k of (c, k1) \<Rightarrow> (case kbd_run evs k1 of (out, k2) \<Rightarrow>
        (if c < 0 then out else c # out, k2)))"

text \<open>What the events mean for a queue: a scan code adds the key it completes, if any, and a read takes one.\<close>

fun key_ops :: "kev list \<Rightarrow> kbd \<Rightarrow> u16 qop list" where
  "key_ops [] k = []"
| "key_ops (Irq sc # evs) k = (case irq_key sc k of Some x \<Rightarrow> [Enq x] | None \<Rightarrow> []) @ key_ops evs (irq_modifiers sc k)"
| "key_ops (Get # evs) k = Deq # key_ops evs k"

lemma key_ops_modifiers: "modifiers k = modifiers k' \<Longrightarrow> key_ops evs k = key_ops evs k'"
proof (induction evs arbitrary: k k')
  case (Cons ev evs)
  show ?case
  proof (cases ev)
    case (Irq sc)
    then show ?thesis using modifiers_key [OF Cons.prems, of sc] Cons.IH [of "irq_modifiers sc k" "irq_modifiers sc k'"] by simp
  next
    case Get
    then show ?thesis using Cons.IH [OF Cons.prems] by simp
  qed
qed simp

lemma kbd_run_list:
  "kbd_inv k \<Longrightarrow> modifiers k = modifiers k' \<Longrightarrow>
   map_prod (map uint) id (list_run 127 (key_ops evs k') (kbd_contents k)) = (fst (kbd_run evs k), kbd_contents (snd (kbd_run evs k)))"
proof (induction evs arbitrary: k k')
  case (Cons ev evs)
  show ?case
  proof (cases ev)
    case (Irq sc)
    have "modifiers (keyboard_irq_handler sc k) = modifiers (irq_modifiers sc k')"
      using modifiers_key [OF Cons.prems(2), of sc] by (simp add: irq_modifiers)
    from Cons.IH [OF irq_inv [OF Cons.prems(1), of sc] this] show ?thesis
      using irq_contents [OF Cons.prems(1), of sc] modifiers_key [OF Cons.prems(2), of sc] Irq
      by (cases "irq_key sc k'") (simp_all del: length_contents)
  next
    case Get
    show ?thesis
    proof (cases "kbd_contents k")
      case Nil
      then show ?thesis
        using Get getkey_empty [OF Cons.prems(1) Nil] Cons.IH [OF Cons.prems] by (simp split: prod.splits)
    next
      case (Cons x xs)
      note g = getkey_contents [OF Cons.prems(1) Cons]
      have "modifiers (k\<lparr>kb_tail := (kb_tail k + 1) mod BUF_SIZE\<rparr>) = modifiers k'" using Cons.prems(2) by (simp add: modifiers_def)
      from Cons.IH [OF g(3) this] show ?thesis
        using g(1,2) Cons Get by (cases "list_run 127 (key_ops evs k') xs"; cases "kbd_run evs (k\<lparr>kb_tail := (kb_tail k + 1) mod BUF_SIZE\<rparr>)") simp
    qed
  qed
qed simp

subsection \<open>Properties\<close>

text \<open>C13.  Whatever the order in which interrupts and reads come and however many they are, the driver behaves as a list with
  room for 127 keys: the keys read and the keys left are those of the list to which every key typed is appended while
  there is room, and dropped when the list is full, and from whose front every read takes one.\<close>

theorem keyboard_fifo:
  assumes "kbd_inv k" and "kbd_run evs k = (outs, k')"
  shows "outs = map uint (fst (list_run 127 (key_ops evs k) (kbd_contents k))) \<and> kbd_contents k' = snd (list_run 127 (key_ops evs k) (kbd_contents k))"
  using kbd_run_list [OF assms(1) refl, of evs] assms(2) by (cases "list_run 127 (key_ops evs k) (kbd_contents k)") simp

text \<open>A full buffer of 127 keys: the first letter is lost, the second takes the place of the key that was read.\<close>

lemma keyboard_fifo_witness:
  "(let k = \<lparr>kb_ring = replicate 128 98, kb_head = 4, kb_tail = 5, kb_shift_l = False, kb_shift_r = True, kb_caps = False, kb_e0 = False\<rparr>;
        r = kbd_run [Irq 0x1E, Get, Irq 0x23, Irq 0x17] k in
    fst r = [98] \<and> kbd_contents (snd r) = replicate 126 98 @ [72])"
proof -
  let ?k = "\<lparr>kb_ring = replicate 128 98, kb_head = 4, kb_tail = 5, kb_shift_l = False, kb_shift_r = True, kb_caps = False, kb_e0 = False\<rparr>"
  let ?evs = "[Irq 0x1E, Get, Irq 0x23, Irq 0x17]"
  have i: "kbd_inv ?k" by (simp add: kbd_inv_def)
  have "(5 + x) mod 128 < (128 :: nat)" for x by simp
  then have "kbd_contents ?k = map (\<lambda>i. 98) [0..<127]"
    unfolding kbd_contents_def by (intro map_cong) (simp_all add: ring_len_def nth_replicate)
  then have c: "kbd_contents ?k = 98 # replicate 126 98" by (simp add: map_replicate_const replicate_Suc [symmetric] del: replicate_Suc)
  have o: "key_ops ?evs ?k = [Enq 65, Deq, Enq 72, Enq 73]"
    by (simp add: irq_modifiers_def irq_key_def scancode_to_ascii_def is_letter_def key_map_def key_map_shift_def asc_def)
  have l: "list_run 127 (key_ops ?evs ?k) (kbd_contents ?k) = ([98], replicate 126 98 @ [72])"
    unfolding o c by (simp add: apfst_def del: replicate_Suc)
  obtain outs k' where r: "kbd_run ?evs ?k = (outs, k')" by fastforce
  from keyboard_fifo [OF i r] show ?thesis unfolding l r Let_def by simp
qed

lemma letter_codes:
  assumes "is_letter sc"
  shows "sc AND 0x7F = sc \<and> sc AND 0x80 = 0 \<and> sc \<notin> {0xE0, 0x2A, 0x36, 0x3A, 0x1C, 0x0E} \<and> unat sc < 128
    \<and> 97 \<le> key_map ! unat sc \<and> key_map ! unat sc \<le> 122 \<and> key_map_shift ! unat sc = key_map ! unat sc - 32"
proof -
  have "unat sc \<in> {16..25} \<union> {30..38} \<union> {44..50}"
    using assms by (auto simp: is_letter_def word_le_nat_alt)
  then have "unat sc \<in> {16,17,18,19,20,21,22,23,24,25,30,31,32,33,34,35,36,37,38,44,45,46,47,48,49,50}"
    unfolding Un_iff atLeastAtMost_iff insert_iff empty_iff by presburger
  then have "sc \<in> word_of_nat ` {16,17,18,19,20,21,22,23,24,25,30,31,32,33,34,35,36,37,38,44,45,46,47,48,49,50}"
    by (intro image_eqI [where x = "unat sc"]) simp_all
  then show ?thesis
    unfolding image_insert image_empty
    by (elim insertE emptyE) (simp_all add: key_map_def key_map_shift_def asc_def)
qed

text \<open>A letter key buffers the upper-case letter exactly when Caps Lock differs from Shift, and the
  lower-case letter otherwise.\<close>

theorem keyboard_letter_case:
  assumes "kbd_inv k" and "\<not> kb_e0 k" and "is_letter sc" and "length (kbd_contents k) < 127"
  shows "\<exists>c. 97 \<le> c \<and> c \<le> 122 \<and> key_map ! unat sc = c
    \<and> kbd_contents (keyboard_irq_handler sc k)
      = kbd_contents k @ [ucast (if kb_caps k \<noteq> (kb_shift_l k \<or> kb_shift_r k) then c - 32 else c)]"
proof -
  note l = letter_codes [OF assms(3)]
  let ?c = "key_map ! unat sc"
  have "?c \<noteq> 0" "?c - 32 \<noteq> 0" using l by (auto simp: word_le_nat_alt)
  then have "irq_key sc k = Some (ucast (if kb_caps k \<noteq> (kb_shift_l k \<or> kb_shift_r k) then ?c - 32 else ?c))"
    using l assms(2,3) by (auto simp: irq_key_def scancode_to_ascii_def Let_def)
  then show ?thesis using irq_contents [OF assms(1), of sc] assms(4) l by auto
qed

lemma keyboard_letter_case_witness:
  "kbd_contents (keyboard_irq_handler 0x1E \<lparr>kb_ring = replicate 128 0, kb_head = 0, kb_tail = 0,
     kb_shift_l = False, kb_shift_r = True, kb_caps = False, kb_e0 = False\<rparr>) = [65]"
  using keyboard_letter_case [of "\<lparr>kb_ring = replicate 128 0, kb_head = 0, kb_tail = 0,
     kb_shift_l = False, kb_shift_r = True, kb_caps = False, kb_e0 = False\<rparr>" "0x1E"]
  by (simp add: kbd_inv_def kbd_contents_def ring_len_def is_letter_def key_map_def asc_def)

end
