(* ===== verification/Console.thy ===== *)
theory Console
  imports Loops LibcFmt Keyboard
begin

text \<open>
  Text on the screen.  \<^verbatim>\<open>kernel/console.c\<close> is the scrolling console (with the formatted output of
  \<^verbatim>\<open>kernel/console_utils.c\<close>), \<^verbatim>\<open>kernel/kernel.c\<close> has a terminal of its own, which starts again at the
  top instead of scrolling, and reads lines from the keyboard and the serial port.  The screen is the
  array of the 80 * 25 cells at 0xB8000; so is the text memory of the console once \<^verbatim>\<open>console_init\<close> has set its
  pointer, which \<open>KernelMain\<close> shows does not happen in the boot.

  The console is related to an unbounded sheet of paper: what is printed stays on it, line by line,
  and the screen shows the last 25 lines.
\<close>

subsection \<open>The console\<close>

definition CONSOLE_WIDTH :: u32 where "CONSOLE_WIDTH = 80"
definition CONSOLE_HEIGHT :: u32 where "CONSOLE_HEIGHT = 25"
definition CONSOLE_DEFAULT_ATTR :: u8 where "CONSOLE_DEFAULT_ATTR = 0x07"

record console =
  co_vga :: "u16 list"
  co_x :: u32
  co_y :: u32
  co_attr :: u8

definition vga_cell :: "u8 \<Rightarrow> u8 \<Rightarrow> u16" where
  "vga_cell attr ch = push_bit 8 (ucast attr) OR ucast ch"

definition console_clear :: "console \<Rightarrow> console option" where
  "console_clear s = do {
     b \<leftarrow> for_loop 0 25 (\<lambda>y. for_loop 0 80 (\<lambda>x. set_cell (y * 80 + x) (vga_cell (co_attr s) 32))) (co_vga s);
     Some (s\<lparr>co_vga := b, co_x := 0, co_y := 0\<rparr>) }"

text \<open>\<open>mem\<close> is the screen as the firmware left it.\<close>

definition console_init :: "u16 list \<Rightarrow> console \<Rightarrow> console option" where
  "console_init mem s = console_clear (s\<lparr>co_vga := mem\<rparr>)"

definition console_scroll :: "console \<Rightarrow> console option" where
  "console_scroll s = do {
     b \<leftarrow> for_loop 1 24 (\<lambda>y. for_loop 0 80 (\<lambda>x c. do { v \<leftarrow> get_cell (y * 80 + x) c; set_cell ((y - 1) * 80 + x) v c })) (co_vga s);
     b' \<leftarrow> for_loop 0 80 (\<lambda>x. set_cell (24 * 80 + x) (vga_cell (co_attr s) 32)) b;
     Some (s\<lparr>co_vga := b', co_y := (if 0 < co_y s then co_y s - 1 else co_y s)\<rparr>) }"

text \<open>\<^verbatim>\<open>char\<close> is signed: the bytes from 128 on are below the blank.\<close>

definition console_putc :: "u8 \<Rightarrow> console \<Rightarrow> console option" where
  "console_putc c s = do {
     s1 \<leftarrow> (if c = 10 then Some (s\<lparr>co_x := 0, co_y := co_y s + 1\<rparr>)
            else if c = 13 then Some (s\<lparr>co_x := 0\<rparr>)
            else if c = 9 then Some (s\<lparr>co_x := (co_x s + 8) AND NOT 7\<rparr>)
            else if 32 \<le> c \<and> c < 128 then do {
              b \<leftarrow> set_cell (unat (co_y s * CONSOLE_WIDTH + co_x s)) (vga_cell (co_attr s) c) (co_vga s);
              Some (s\<lparr>co_vga := b, co_x := co_x s + 1\<rparr>) }
            else Some s);
     let s2 = (if CONSOLE_WIDTH \<le> co_x s1 then s1\<lparr>co_x := 0, co_y := co_y s1 + 1\<rparr> else s1);
     if CONSOLE_HEIGHT \<le> co_y s2 then console_scroll s2 else Some s2 }"

fun console_puts :: "cstr \<Rightarrow> console \<Rightarrow> console option" where
  "console_puts [] s = Some s"
| "console_puts (c # cs) s = do { s' \<leftarrow> console_putc c s; console_puts cs s' }"

definition console_set_attr :: "u8 \<Rightarrow> console \<Rightarrow> console" where
  "console_set_attr a s = s\<lparr>co_attr := a\<rparr>"

definition console_set_color :: "u8 \<Rightarrow> u8 \<Rightarrow> console \<Rightarrow> console" where
  "console_set_color fg bg s = s\<lparr>co_attr := push_bit 4 bg OR (fg AND 0x0F)\<rparr>"

definition console_get_cursor :: "console \<Rightarrow> u32 \<times> u32" where
  "console_get_cursor s = (co_x s, co_y s)"

definition console_set_cursor :: "u32 \<Rightarrow> u32 \<Rightarrow> console \<Rightarrow> console" where
  "console_set_cursor x y s =
     (let s1 = (if x < CONSOLE_WIDTH then s\<lparr>co_x := x\<rparr> else s) in
      if y < CONSOLE_HEIGHT then s1\<lparr>co_y := y\<rparr> else s1)"

definition console_put_hex :: "u32 \<Rightarrow> console \<Rightarrow> console option" where
  "console_put_hex n s =
     console_puts (map (\<lambda>i. hex_digit 0x41 (unat (drop_bit (i * 4) n AND 0xF))) [7, 6, 5, 4, 3, 2, 1, 0]) s"

definition console_put_dec :: "u32 \<Rightarrow> console \<Rightarrow> console option" where
  "console_put_dec n s =
     (if n = 0 then console_putc 48 s else console_puts (rev (digits_rev dec_digit 10 11 (unat n))) s)"

definition console_printf :: "u8 list \<Rightarrow> farg list \<Rightarrow> console \<Rightarrow> console option" where
  "console_printf fmt args s = do { out \<leftarrow> console_vprintf fmt args; console_puts out s }"

subsection \<open>The sheet of paper\<close>

text \<open>The finished lines, the line of the cursor, and its column; every line has 80 cells.\<close>

type_synonym paper = "u16 list list \<times> u16 list \<times> nat"

definition blank_line :: "u8 \<Rightarrow> u16 list" where
  "blank_line a = replicate 80 (vga_cell a 32)"

definition type_char :: "u8 \<Rightarrow> u8 \<Rightarrow> paper \<Rightarrow> paper" where
  "type_char a c p = (case p of (ls, l, x) \<Rightarrow>
     let (l', x') = (if c = 13 then (l, 0) else if c = 9 then (l, (x div 8 + 1) * 8)
           else if 32 \<le> c \<and> c < 128 then (l[x := vga_cell a c], x + 1) else (l, x)) in
     if c = 10 \<or> 80 \<le> x' then (ls @ [l'], blank_line a, 0) else (ls, l', x'))"

fun type_text :: "u8 \<Rightarrow> cstr \<Rightarrow> paper \<Rightarrow> paper" where
  "type_text a [] p = p"
| "type_text a (c # cs) p = type_text a cs (type_char a c p)"

text \<open>The last 25 lines, above blank ones when there are fewer.\<close>

definition window :: "u8 \<Rightarrow> u16 list list \<Rightarrow> u16 list list" where
  "window a ls = (let w = drop (length ls - 25) ls in w @ replicate (25 - length w) (blank_line a))"

fun shows_paper :: "console \<Rightarrow> paper \<Rightarrow> bool" where
  "shows_paper s (ls, l, x) \<longleftrightarrow>
     co_vga s = concat (window (co_attr s) (ls @ [l])) \<and> (\<forall>k\<in>set (ls @ [l]). length k = 80)
     \<and> x < 80 \<and> co_x s = of_nat x \<and> co_y s = of_nat (min (length ls) 24)"

subsection \<open>The terminal of the kernel\<close>

record terminal =
  te_r :: u32
  te_c :: u32
  te_col :: u8
  te_buf :: "u16 list"

definition vga_entry_color :: "u8 \<Rightarrow> u8 \<Rightarrow> u8" where
  "vga_entry_color fg bg = fg OR push_bit 4 bg"

definition vga_entry :: "u8 \<Rightarrow> u8 \<Rightarrow> u16" where
  "vga_entry uc color = ucast uc OR push_bit 8 (ucast color)"

definition term_init :: "u16 list \<Rightarrow> terminal option" where
  "term_init mem = (let col = vga_entry_color 7 0 in do {
     b \<leftarrow> for_loop 0 25 (\<lambda>y. for_loop 0 80 (\<lambda>x. set_cell (y * 80 + x) (vga_entry 32 col))) mem;
     Some \<lparr>te_r = 0, te_c = 0, te_col = col, te_buf = b\<rparr> })"

definition putat :: "u8 \<Rightarrow> u8 \<Rightarrow> u32 \<Rightarrow> u32 \<Rightarrow> terminal \<Rightarrow> terminal option" where
  "putat ch color x y t =
     (if x < 80 \<and> y < 25 then do {
        b \<leftarrow> set_cell (unat (y * 80 + x)) (vga_entry ch color) (te_buf t); Some (t\<lparr>te_buf := b\<rparr>) }
      else Some t)"

definition put :: "u8 \<Rightarrow> terminal \<Rightarrow> terminal option" where
  "put ch t =
     (if ch = 10 then
        (let t1 = t\<lparr>te_c := 0, te_r := te_r t + 1\<rparr> in Some (if 25 \<le> te_r t1 then t1\<lparr>te_r := 0\<rparr> else t1))
      else if ch = 8 then
        (if 0 < te_c t then
           (let t1 = t\<lparr>te_c := te_c t - 1\<rparr> in putat 32 (te_col t1) (te_c t1) (te_r t1) t1)
         else if 0 < te_r t then
           (let t1 = t\<lparr>te_r := te_r t - 1, te_c := 80 - 1\<rparr> in putat 32 (te_col t1) (te_c t1) (te_r t1) t1)
         else Some t)
      else do {
        t1 \<leftarrow> putat ch (te_col t) (te_c t) (te_r t) t;
        let t2 = t1\<lparr>te_c := te_c t1 + 1\<rparr>;
        if te_c t2 = 80 then
          (let t3 = t2\<lparr>te_c := 0, te_r := te_r t2 + 1\<rparr> in Some (if 25 \<le> te_r t3 then t3\<lparr>te_r := 0\<rparr> else t3))
        else Some t2 })"

fun writes :: "cstr \<Rightarrow> terminal \<Rightarrow> terminal option" where
  "writes [] t = Some t"
| "writes (c # cs) t = do { t' \<leftarrow> put c t; writes cs t' }"

definition terminal_clear_screen :: "terminal \<Rightarrow> terminal option" where
  "terminal_clear_screen t = do {
     t1 \<leftarrow> for_loop 0 25 (\<lambda>rr. for_loop 0 80 (\<lambda>cc u. putat 32 (te_col u) (of_nat cc) (of_nat rr) u)) t;
     Some (t1\<lparr>te_r := 0, te_c := 0\<rparr>) }"

subsection \<open>Formatted output of the kernel\<close>

definition itoa_unsigned :: "nat \<Rightarrow> nat \<Rightarrow> cstr" where
  "itoa_unsigned val base =
     (if val = 0 then [48] else rev (digits_rev (hex_digit 0x61) base 32 val))"

text \<open>\<^verbatim>\<open>-val\<close> is undefined for the least integer.\<close>

definition itoa_signed :: "u32 \<Rightarrow> cstr option" where
  "itoa_signed val = map_option (\<lambda>(neg, v). (if neg then [0x2D] else []) @ itoa_unsigned v 10) (abs_int val)"

definition kv_conv :: "u8 \<Rightarrow> farg list \<Rightarrow> (farg list \<times> cstr) option" where
  "kv_conv k args =
     (if k = 0x73 then do {
        (s, as) \<leftarrow> va_str args;
        (case s of None \<Rightarrow> Some (as, asc ''(null)'')
         | Some str \<Rightarrow> if cstring str then Some (as, cstr_at str) else None) }
      else if k = 0x64 then do { (w, as) \<leftarrow> va_int args; t \<leftarrow> itoa_signed w; Some (as, t) }
      else if k = 0x78 then do { (w, as) \<leftarrow> va_int args; Some (as, itoa_unsigned (unat w) 16) }
      else if k = 0x63 then do { (w, as) \<leftarrow> va_int args; Some (as, [ucast w]) }
      else if k = 0x25 then Some (args, [0x25])
      else Some (args, [0x25, k]))"

function kvprintf :: "u8 list \<Rightarrow> farg list \<Rightarrow> terminal \<Rightarrow> terminal option" where
  "kvprintf [] args t = None"
| "kvprintf (c # f) args t =
     (if c = 0 then Some t
      else if c \<noteq> 0x25 then do { t1 \<leftarrow> put c t; kvprintf f args t1 }
      else (case f of
          [] \<Rightarrow> None
        | k # f' \<Rightarrow>
            if k = 0 then Some t
            else do { (as, out) \<leftarrow> kv_conv k args; t1 \<leftarrow> writes out t; kvprintf f' as t1 }))"
  by pat_completeness auto
termination by (relation "measure (\<lambda>(f, _). length f)") auto

subsection \<open>Reading a line\<close>

text \<open>
  One turn of the waiting loop: what \<^verbatim>\<open>keyboard_getchar_nonblock\<close> returns, and what
  \<^verbatim>\<open>serial_getchar_nonblock\<close> returns when the keyboard had nothing.  After a turn with neither the
  processor is given away (\<^verbatim>\<open>thread_yield\<close>).  The exhausted list is a user who types nothing more.
\<close>

type_synonym poll = "int \<times> int"

fun poll_char :: "poll \<Rightarrow> u8 option" where
  "poll_char (kc, sc) =
     (if 0 \<le> kc then Some (word_of_int kc)
      else if 0 \<le> sc then Some (let c = word_of_int sc in if c = 13 then 10 else c)
      else None)"

fun wait_char :: "poll list \<Rightarrow> (u8 \<times> poll list) option" where
  "wait_char [] = None"
| "wait_char (p # ps) = (case poll_char p of Some c \<Rightarrow> Some (c, ps) | None \<Rightarrow> wait_char ps)"

lemma wait_char_shorter: "wait_char ps = Some (c, qs) \<Longrightarrow> length qs < length ps"
  by (induction ps) (auto split: option.splits)

function read_line_loop :: "nat \<Rightarrow> poll list \<Rightarrow> nat \<Rightarrow> u8 list \<Rightarrow> terminal \<Rightarrow> (int \<times> u8 list \<times> poll list \<times> terminal) option" where
  "read_line_loop maxlen ps i out t =
     (if i < maxlen - 1 then
        (case wait_char ps of
          None \<Rightarrow> None
        | Some (c, qs) \<Rightarrow>
            if c = 8 then
              (if 0 < i then do {
                 t1 \<leftarrow> put 8 t; t2 \<leftarrow> put 32 t1; t3 \<leftarrow> put 8 t2;
                 read_line_loop maxlen qs (i - 1) out t3 }
               else read_line_loop maxlen qs i out t)
            else if c = 10 then do {
              t1 \<leftarrow> put c t; out1 \<leftarrow> set_cell i 0 out; Some (int i, out1, qs, t1) }
            else if 32 \<le> c \<and> c \<le> 126 then do {
              out1 \<leftarrow> set_cell i c out; t1 \<leftarrow> put c t; read_line_loop maxlen qs (i + 1) out1 t1 }
            else read_line_loop maxlen qs i out t)
      else do { out1 \<leftarrow> set_cell i 0 out; Some (int i, out1, ps, t) })"
  by pat_completeness auto
termination
  by (relation "measure (\<lambda>(_, ps, _). length ps)") (auto dest: wait_char_shorter)

declare read_line_loop.simps [simp del]

text \<open>\<open>out\<close> is the buffer, \<open>None\<close> the null pointer.\<close>

definition read_line :: "u8 list option \<Rightarrow> int \<Rightarrow> poll list \<Rightarrow> terminal \<Rightarrow> (int \<times> u8 list \<times> poll list \<times> terminal) option" where
  "read_line out maxlen ps t =
     (case out of
        None \<Rightarrow> Some (-1, [], ps, t)
      | Some b \<Rightarrow> if maxlen \<le> 0 then Some (-1, b, ps, t) else read_line_loop (nat maxlen) ps 0 b t)"

subsection \<open>Clearing and scrolling\<close>

lemma clear_rows:
  assumes "length b = 2000"
  shows "for_loop 0 25 (\<lambda>y. for_loop 0 80 (\<lambda>x. set_cell (y * 80 + x) v)) b = Some (replicate 2000 v)"
proof -
  let ?P = "\<lambda>y (c :: 'a list). c = replicate (y * 80) v @ drop (y * 80) b"
  have "\<exists>c. for_loop 0 25 (\<lambda>y. for_loop 0 80 (\<lambda>x. set_cell (y * 80 + x) v)) b = Some c \<and> ?P (0 + 25) c"
  proof (rule for_loop_rule [where P = ?P])
    fix y c assume y: "y < 0 + 25" and c: "?P y c"
    have "for_loop 0 80 (\<lambda>x. set_cell (y * 80 + x) v) c
      = Some (take (y * 80) c @ map (\<lambda>_. v) [0..<80] @ drop (y * 80 + 80) c)"
      by (rule fill_cells) (use y c assms in simp)
    moreover have "take (y * 80) c = replicate (y * 80) v" "drop (y * 80 + 80) c = drop (Suc y * 80) b"
      using c by (simp_all add: add.commute)
    moreover have "map (\<lambda>_. v) [0..<80] = replicate 80 v" by (simp add: map_replicate_const)
    moreover have "replicate (Suc y * 80) v = replicate (y * 80) v @ replicate 80 v"
      by (metis add.commute mult_Suc replicate_add)
    ultimately show "\<exists>u. for_loop 0 80 (\<lambda>x. set_cell (y * 80 + x) v) c = Some u \<and> ?P (Suc y) u"
      by simp
  qed simp
  then show ?thesis using assms by simp
qed

lemma scroll_rows:
  assumes "length b = 2000"
  shows "for_loop 1 24 (\<lambda>y. for_loop 0 80 (\<lambda>x c. do { v \<leftarrow> get_cell (y * 80 + x) c; set_cell ((y - 1) * 80 + x) v c })) b
    = Some (drop 80 b @ drop 1920 b)"
proof -
  let ?f = "\<lambda>y. for_loop 0 80 (\<lambda>x c. do { v \<leftarrow> get_cell (y * 80 + x) c; set_cell ((y - 1) * 80 + x) v c })"
  let ?P = "\<lambda>y c. c = take ((y - 1) * 80) (drop 80 b) @ drop ((y - 1) * 80) b"
  have "\<exists>c. for_loop 1 24 ?f b = Some c \<and> ?P (1 + 24) c"
  proof (rule for_loop_rule [where P = ?P])
    fix y c assume y: "1 \<le> y" "y < 1 + (24 :: nat)" and c: "?P y c"
    obtain z where z: "y = Suc z" using y by (cases y) auto
    have zb: "z < 24" using y z by simp
    have lp: "length (take (z * 80) (drop 80 b)) = z * 80" using assms zb by simp
    have "?f y c = Some (take (z * 80) c @ take 80 (drop (y * 80) c) @ drop (z * 80 + 80) c)"
      unfolding z using copy_cells [of "z * 80" 80 "Suc z * 80" c] c z zb assms lp by simp
    moreover have "take (z * 80) c = take (z * 80) (drop 80 b)" using c z lp by simp
    moreover have "drop (z * 80 + n) c = drop (z * 80 + n) b" for n
      unfolding c z diff_Suc_1 using lp by (simp add: add.commute)
    then have "drop (y * 80) c = drop (z * 80 + 80) b" "drop (z * 80 + 80) c = drop (z * 80 + 80) b"
      unfolding z by (metis add.commute mult_Suc)+
    moreover have "take (z * 80) (drop 80 b) @ take 80 (drop (z * 80 + 80) b) = take (z * 80 + 80) (drop 80 b)"
      by (simp add: take_add)
    ultimately have "?f y c = Some (take (z * 80 + 80) (drop 80 b) @ drop (z * 80 + 80) b)" by simp
    then show "\<exists>u. ?f y c = Some u \<and> ?P (Suc y) u" using z by (simp add: add.commute)
  qed simp
  then show ?thesis using assms by simp
qed

lemma console_scroll_rows:
  assumes "length (co_vga s) = 2000"
  shows "console_scroll s = Some (s\<lparr>co_vga := drop 80 (co_vga s) @ blank_line (co_attr s),
    co_y := (if 0 < co_y s then co_y s - 1 else co_y s)\<rparr>)"
proof -
  have l: "length (drop 80 (co_vga s) @ drop 1920 (co_vga s)) = 2000" "length (drop 80 (co_vga s)) = 1920" using assms by simp_all
  have "for_loop 0 80 (\<lambda>x. set_cell (24 * 80 + x) (vga_cell (co_attr s) 32)) (drop 80 (co_vga s) @ drop 1920 (co_vga s))
    = Some (drop 80 (co_vga s) @ blank_line (co_attr s))"
    using fill_cells [of "24 * 80" 80 "drop 80 (co_vga s) @ drop 1920 (co_vga s)" "\<lambda>_. vga_cell (co_attr s) 32"] l
    by (simp add: blank_line_def map_replicate_const)
  then show ?thesis using scroll_rows [OF assms] by (simp add: console_scroll_def)
qed


subsection \<open>The console refines the sheet of paper\<close>

lemma concat_length: "\<forall>r\<in>set rs. length r = n \<Longrightarrow> length (concat rs) = length rs * n"
  by (induction rs) auto

lemma concat_update:
  "\<forall>r\<in>set rs. length r = n \<Longrightarrow> i < length rs \<Longrightarrow> j < n \<Longrightarrow>
   (concat rs)[i * n + j := v] = concat (rs[i := (rs ! i)[j := v]])"
proof (induction rs arbitrary: i)
  case (Cons r rs)
  show ?case
  proof (cases i)
    case 0 then show ?thesis using Cons.prems by (simp add: list_update_append)
  next
    case (Suc k)
    then have "\<not> i * n + j < length r" "i * n + j - length r = k * n + j" using Cons.prems by auto
    then show ?thesis using Cons.IH [of k] Cons.prems Suc by (simp add: list_update_append)
  qed
qed simp

lemma window_low: "length ls < 24 \<Longrightarrow> window a (ls @ [l]) = ls @ l # replicate (24 - length ls) (blank_line a)"
  by (simp add: window_def Let_def)

lemma window_high: "24 \<le> length ls \<Longrightarrow> window a (ls @ [l]) = drop (length ls - 24) ls @ [l]"
  by (simp add: window_def Let_def)

lemma window_line:
  "window a (ls @ [l']) = (window a (ls @ [l]))[min (length ls) 24 := l']"
  "window a (ls @ [l]) ! min (length ls) 24 = l" "length (window a (ls @ [l])) = 25"
  by (cases "length ls < 24"; simp add: window_low window_high list_update_append nth_append)+

lemma window_lengths:
  "\<forall>k\<in>set (ls @ [l]). length k = 80 \<Longrightarrow> \<forall>k\<in>set (window a (ls @ [l])). length k = 80"
  by (cases "length ls < 24") (auto simp: window_low window_high blank_line_def dest: in_set_dropD)

lemma window_newline:
  "length ls < 24 \<Longrightarrow> window a ((ls @ [l]) @ [blank_line a]) = window a (ls @ [l])"
  "24 \<le> length ls \<Longrightarrow> window a ((ls @ [l]) @ [blank_line a]) = tl (window a (ls @ [l])) @ [blank_line a]"
proof -
  assume n: "length ls < 24"
  then have "24 - length ls = Suc (23 - length ls)" by simp
  with n show "window a ((ls @ [l]) @ [blank_line a]) = window a (ls @ [l])"
    using window_low [of "ls @ [l]" a "blank_line a"] window_high [of "ls @ [l]" a "blank_line a"]
      window_low [of ls a l] replicate_Suc [of "23 - length ls" "blank_line a"]
    by (cases "length ls = 23") (auto simp: Suc_diff_le simp del: replicate_Suc)
next
  assume h: "24 \<le> length ls"
  then have "Suc (length ls - 24) = length (ls @ [l]) - 24" "drop (length ls - 24) ls \<noteq> []" by auto
  moreover have "tl (drop k ls) = drop (Suc k) ls" for k by (simp add: tl_drop drop_Suc)
  ultimately have "tl (drop (length ls - 24) ls @ [l]) = drop (length (ls @ [l]) - 24) (ls @ [l])"
    using h by simp
  then show "window a ((ls @ [l]) @ [blank_line a]) = tl (window a (ls @ [l])) @ [blank_line a]"
    using h window_high [OF h, of a l] window_high [of "ls @ [l]" a "blank_line a"] by simp
qed

lemma tab_stop:
  assumes "x < 80"
  shows "((of_nat x :: u32) + 8) AND NOT 7 = of_nat ((x div 8 + 1) * 8)"
proof -
  have "list_all (\<lambda>x. ((of_nat x :: u32) + 8) AND NOT 7 = of_nat ((x div 8 + 1) * 8)) [0..<80]" by code_simp
  then show ?thesis using assms by (simp add: list_all_iff)
qed

text \<open>What the console writes into the line of the cursor.\<close>

definition line_at :: "console \<Rightarrow> u16 list list \<Rightarrow> u16 list \<Rightarrow> nat \<Rightarrow> bool" where
  "line_at s ls l x \<longleftrightarrow> co_vga s = concat (window (co_attr s) (ls @ [l])) \<and> (\<forall>k\<in>set (ls @ [l]). length k = 80)
     \<and> x \<le> 80 \<and> co_x s = of_nat x \<and> co_y s = of_nat (min (length ls) 24)"

lemma console_newline:
  assumes "line_at s ls l x"
  shows "\<exists>s'. (if CONSOLE_HEIGHT \<le> co_y s + 1 then console_scroll (s\<lparr>co_x := 0, co_y := co_y s + 1\<rparr>)
      else Some (s\<lparr>co_x := 0, co_y := co_y s + 1\<rparr>)) = Some s'
    \<and> co_attr s' = co_attr s \<and> shows_paper s' (ls @ [l], blank_line (co_attr s), 0)"
proof (cases "length ls < 24")
  case True
  then have y: "co_y s + 1 = of_nat (Suc (length ls))" using assms by (simp add: line_at_def)
  have "\<not> CONSOLE_HEIGHT \<le> co_y s + 1"
    unfolding y CONSOLE_HEIGHT_def word_le_nat_alt unat_of_nat using True by simp
  then have "(if CONSOLE_HEIGHT \<le> co_y s + 1 then console_scroll (s\<lparr>co_x := 0, co_y := co_y s + 1\<rparr>)
      else Some (s\<lparr>co_x := 0, co_y := co_y s + 1\<rparr>)) = Some (s\<lparr>co_x := 0, co_y := co_y s + 1\<rparr>)" by (rule if_not_P)
  moreover have "shows_paper (s\<lparr>co_x := 0, co_y := co_y s + 1\<rparr>) (ls @ [l], blank_line (co_attr s), 0)"
    using assms True y window_newline(1) [OF True, of "co_attr s" l]
    by (auto simp: line_at_def blank_line_def)
  moreover have "co_attr (s\<lparr>co_x := 0, co_y := co_y s + 1\<rparr>) = co_attr s" by simp
  ultimately show ?thesis by blast
next
  case False
  then have m: "min (length ls) 24 = 24" "min (Suc (length ls)) 24 = 24" by simp_all
  then have y: "co_y s = 24" using assms by (simp add: line_at_def)
  let ?w = "window (co_attr s) (ls @ [l])"
  have ll: "\<forall>k\<in>set ?w. length k = 80" using assms window_lengths unfolding line_at_def by blast
  have lw: "length ?w = 25" by (rule window_line)
  then obtain r rs where w: "?w = r # rs" by (cases ?w) auto
  have "length (co_vga s) = 2000" using assms concat_length [OF ll] lw by (simp add: line_at_def)
  moreover have "drop 80 (co_vga s) @ blank_line (co_attr s)
      = concat (window (co_attr s) ((ls @ [l]) @ [blank_line (co_attr s)]))"
    using assms ll False w by (simp add: line_at_def window_newline(2) [OF leI] del: append_assoc)
  ultimately show ?thesis
    using assms y m by (simp add: console_scroll_rows CONSOLE_HEIGHT_def line_at_def) (simp add: blank_line_def)
qed

lemma console_char:
  assumes "shows_paper s (ls, l, x)" and "c \<noteq> 10"
  shows "\<exists>s1 l' x'. (if c = 13 then Some (s\<lparr>co_x := 0\<rparr>)
            else if c = 9 then Some (s\<lparr>co_x := (co_x s + 8) AND NOT 7\<rparr>)
            else if 32 \<le> c \<and> c < 128 then do {
              b \<leftarrow> set_cell (unat (co_y s * CONSOLE_WIDTH + co_x s)) (vga_cell (co_attr s) c) (co_vga s);
              Some (s\<lparr>co_vga := b, co_x := co_x s + 1\<rparr>) }
            else Some s) = Some s1
    \<and> co_attr s1 = co_attr s \<and> line_at s1 ls l' x'
    \<and> (if c = 13 then (l, 0) else if c = 9 then (l, (x div 8 + 1) * 8)
           else if 32 \<le> c \<and> c < 128 then (l[x := vga_cell (co_attr s) c], x + 1) else (l, x)) = (l', x')"
proof -
  have s: "co_vga s = concat (window (co_attr s) (ls @ [l]))" "\<forall>k\<in>set (ls @ [l]). length k = 80"
      "x < 80" "co_x s = of_nat x" "co_y s = of_nat (min (length ls) 24)"
    using assms by simp_all
  let ?i = "min (length ls) 24"
  have u: "unat (co_y s * CONSOLE_WIDTH + co_x s) = ?i * 80 + x"
  proof -
    have "co_y s * CONSOLE_WIDTH + co_x s = of_nat (?i * 80 + x)" using s by (simp add: CONSOLE_WIDTH_def)
    moreover have "?i * 80 + x < 2 ^ 32" using s(3) by (simp add: min_def)
    ultimately show ?thesis by (simp only: unat_of_nat) (simp add: min_def)
  qed
  have ll: "\<forall>k\<in>set (window (co_attr s) (ls @ [l])). length k = 80" using window_lengths s(2) by blast
  have "length (co_vga s) = 2000" using concat_length [OF ll] s(1) by (simp add: window_line)
  moreover have "?i * 80 + x < 2000" using s(3) by (simp add: min_def)
  moreover have "(co_vga s)[?i * 80 + x := v] = concat (window (co_attr s) (ls @ [l[x := v]]))" for v
    using concat_update [OF ll, of ?i x v] s(1,3)
    unfolding window_line(1) [of "co_attr s" ls "l[x := v]" l] by (simp add: window_line(2,3))
  ultimately have w: "set_cell (unat (co_y s * CONSOLE_WIDTH + co_x s)) v (co_vga s)
      = Some (concat (window (co_attr s) (ls @ [l[x := v]])))" for v
    by (simp add: set_cell_def u)
  have t: "(x div 8 + 1) * 8 \<le> 80" using s(3) by simp
  have at: "line_at s ls l x" using s by (simp add: line_at_def)
  consider "c = 13" | "c = 9" | "c \<noteq> 13" "c \<noteq> 9" "32 \<le> c \<and> c < 128" | "c \<noteq> 13" "c \<noteq> 9" "\<not> (32 \<le> c \<and> c < 128)" by blast
  then show ?thesis
  proof cases
    case 1 then show ?thesis using at by (simp add: line_at_def)
  next
    case 2 then show ?thesis using at t tab_stop [OF s(3)] by (simp add: line_at_def)
  next
    case 3
    let ?v = "vga_cell (co_attr s) c"
    have "line_at (s\<lparr>co_vga := concat (window (co_attr s) (ls @ [l[x := ?v]])), co_x := co_x s + 1\<rparr>) ls (l[x := ?v]) (x + 1)"
      using at s(3) by (auto simp: line_at_def)
    then show ?thesis using 3 by (simp add: w)
  next
    case 4
    then show ?thesis using at by (cases "32 \<le> c") simp_all
  qed
qed

lemma console_putc_refines:
  assumes "shows_paper s p"
  shows "\<exists>s'. console_putc c s = Some s' \<and> co_attr s' = co_attr s \<and> shows_paper s' (type_char (co_attr s) c p)"
proof -
  obtain ls l x where p: "p = (ls, l, x)" by (cases p)
  show ?thesis
  proof (cases "c = 10")
    case True
    have "line_at s ls l x" using assms p by (simp add: line_at_def)
    from console_newline [OF this] obtain s' where
      "(if CONSOLE_HEIGHT \<le> co_y s + 1 then console_scroll (s\<lparr>co_x := 0, co_y := co_y s + 1\<rparr>)
        else Some (s\<lparr>co_x := 0, co_y := co_y s + 1\<rparr>)) = Some s'"
      "co_attr s' = co_attr s" "shows_paper s' (ls @ [l], blank_line (co_attr s), 0)" by blast
    moreover from this(1) have "console_putc c s = Some s'"
      using True by (auto simp: console_putc_def CONSOLE_WIDTH_def Let_def split: if_splits)
    moreover have "type_char (co_attr s) c p = (ls @ [l], blank_line (co_attr s), 0)"
      using True p by (simp add: type_char_def)
    ultimately show ?thesis by metis
  next
    case False
    obtain s1 l' x' where c: "(if c = 13 then Some (s\<lparr>co_x := 0\<rparr>)
            else if c = 9 then Some (s\<lparr>co_x := (co_x s + 8) AND NOT 7\<rparr>)
            else if 32 \<le> c \<and> c < 128 then do {
              b \<leftarrow> set_cell (unat (co_y s * CONSOLE_WIDTH + co_x s)) (vga_cell (co_attr s) c) (co_vga s);
              Some (s\<lparr>co_vga := b, co_x := co_x s + 1\<rparr>) }
            else Some s) = Some s1" and a: "co_attr s1 = co_attr s" "line_at s1 ls l' x'"
      and t: "(if c = 13 then (l, 0) else if c = 9 then (l, (x div 8 + 1) * 8)
           else if 32 \<le> c \<and> c < 128 then (l[x := vga_cell (co_attr s) c], x + 1) else (l, x)) = (l', x')"
      using console_char [OF _ False] assms p by blast
    have x: "CONSOLE_WIDTH \<le> co_x s1 \<longleftrightarrow> 80 \<le> x'"
      using a(2) by (auto simp: line_at_def CONSOLE_WIDTH_def word_le_nat_alt unat_of_nat)
    have y: "\<not> CONSOLE_HEIGHT \<le> co_y s1"
      using a(2) by (simp add: line_at_def CONSOLE_HEIGHT_def word_le_nat_alt unat_of_nat)
    have "type_char (co_attr s) c p = (if 80 \<le> x' then (ls @ [l'], blank_line (co_attr s), 0) else (ls, l', x'))"
      unfolding type_char_def p using t False by simp
    moreover have "shows_paper s1 (ls, l', x')" if "\<not> 80 \<le> x'" using a(2) that by (simp add: line_at_def)
    moreover from console_newline [OF a(2)] obtain s' where
      "(if CONSOLE_HEIGHT \<le> co_y s1 + 1 then console_scroll (s1\<lparr>co_x := 0, co_y := co_y s1 + 1\<rparr>)
        else Some (s1\<lparr>co_x := 0, co_y := co_y s1 + 1\<rparr>)) = Some s'"
      "co_attr s' = co_attr s" "shows_paper s' (ls @ [l'], blank_line (co_attr s), 0)" using a(1) by metis
    moreover from this(1) have "console_putc c s = Some (if 80 \<le> x' then s' else s1)"
      unfolding console_putc_def using c False x y by (auto simp: Let_def split: if_splits)
    ultimately show ?thesis using a(1) by (cases "80 \<le> x'") (simp_all del: shows_paper.simps)
  qed
qed

lemma console_puts_refines:
  "shows_paper s p \<Longrightarrow> \<exists>s'. console_puts cs s = Some s' \<and> co_attr s' = co_attr s \<and> shows_paper s' (type_text (co_attr s) cs p)"
proof (induction cs arbitrary: s p)
  case (Cons c cs)
  obtain s1 where "console_putc c s = Some s1" "co_attr s1 = co_attr s" "shows_paper s1 (type_char (co_attr s) c p)"
    using console_putc_refines [OF Cons.prems] by blast
  then show ?case using Cons.IH [of s1] by fastforce
qed simp


subsection \<open>Reading a line\<close>

text \<open>The edited line: \<open>m\<close> characters fit, a backspace takes back the last one.\<close>

fun edit_line :: "nat \<Rightarrow> u8 list \<Rightarrow> cstr \<Rightarrow> cstr option" where
  "edit_line m [] t = (if m \<le> length t then Some t else None)"
| "edit_line m (c # cs) t =
     (if m \<le> length t then Some t
      else if c = 8 then edit_line m cs (butlast t)
      else if c = 10 then Some t
      else if 32 \<le> c \<and> c \<le> 126 then edit_line m cs (t @ [c])
      else edit_line m cs t)"

definition keys_of :: "poll list \<Rightarrow> u8 list" where
  "keys_of ps = List.map_filter poll_char ps"

lemma keys_of_simps [simp]:
  "keys_of [] = []" "keys_of (p # ps) = (case poll_char p of None \<Rightarrow> keys_of ps | Some c \<Rightarrow> c # keys_of ps)"
  by (simp_all add: keys_of_def List.map_filter_def split: option.split)

lemma wait_char_keys:
  "wait_char ps = None \<Longrightarrow> keys_of ps = []" "wait_char ps = Some (c, qs) \<Longrightarrow> keys_of ps = c # keys_of qs"
  by (induction ps) (auto simp del: poll_char.simps split: option.splits)

text \<open>Without a sheet to relate to, the console still returns and its cursor stays on the screen.\<close>

definition console_ok :: "console \<Rightarrow> bool" where
  "console_ok s \<longleftrightarrow> length (co_vga s) = 2000 \<and> co_x s < 80 \<and> co_y s < 25"

lemma console_putc_ok:
  assumes "console_ok s"
  shows "\<exists>s'. console_putc c s = Some s' \<and> console_ok s'"
proof -
  have a: "length (co_vga s) = 2000" "co_x s < 80" "co_y s < 25" using assms by (simp_all add: console_ok_def)
  have y: "co_y s + 1 < 25 \<or> co_y s = 24"
  proof (cases "co_y s = 24")
    case False
    then have "unat (co_y s) < 24" using a(3) by (auto simp: word_less_nat_alt word_unat_eq_iff)
    then show ?thesis by (simp add: word_less_nat_alt unat_word_ariths)
  qed simp
  have "unat (co_y s * 80 + co_x s) < 2000" using a(2,3) by (simp add: word_less_nat_alt unat_word_ariths)
  then obtain b where b: "set_cell (unat (co_y s * CONSOLE_WIDTH + co_x s)) (vga_cell (co_attr s) c) (co_vga s) = Some b" "length b = 2000"
    using a(1) by (simp add: set_cell_def CONSOLE_WIDTH_def)
  obtain u where u: "console_putc c s = (let v = (if CONSOLE_WIDTH \<le> co_x u then u\<lparr>co_x := 0, co_y := co_y u + 1\<rparr> else u) in
      if CONSOLE_HEIGHT \<le> co_y v then console_scroll v else Some v)"
    "length (co_vga u) = 2000" "co_x u < 80 \<and> co_y u = co_y s + 1 \<or> co_y u = co_y s"
  proof (cases "c = 10 \<or> c = 13 \<or> c = 9 \<or> \<not> (32 \<le> c \<and> c < 128)")
    case True
    let ?u = "if c = 10 then s\<lparr>co_x := 0, co_y := co_y s + 1\<rparr> else if c = 13 then s\<lparr>co_x := 0\<rparr>
      else if c = 9 then s\<lparr>co_x := (co_x s + 8) AND NOT 7\<rparr> else s"
    show ?thesis by (rule that [of ?u]) (use True a in \<open>auto simp: console_putc_def Let_def\<close>)
  next
    case False
    show ?thesis by (rule that [of "s\<lparr>co_vga := b, co_x := co_x s + 1\<rparr>"]) (use False b in \<open>auto simp: console_putc_def Let_def\<close>)
  qed
  define v where "v = (if CONSOLE_WIDTH \<le> co_x u then u\<lparr>co_x := 0, co_y := co_y u + 1\<rparr> else u)"
  have v: "length (co_vga v) = 2000" "co_x v < 80" "co_y v = co_y s \<or> co_y v = co_y s + 1"
    using u(2,3) by (auto simp: v_def CONSOLE_WIDTH_def not_le)
  have "console_putc c s = (if CONSOLE_HEIGHT \<le> co_y v then console_scroll v else Some v)" using u(1) by (simp only: v_def Let_def)
  then show ?thesis using v y a(3) by (auto simp: CONSOLE_HEIGHT_def console_scroll_rows console_ok_def blank_line_def not_le)
qed

lemma console_puts_ok: "console_ok s \<Longrightarrow> \<exists>s'. console_puts cs s = Some s' \<and> console_ok s'"
proof (induction cs arbitrary: s)
  case (Cons c cs)
  obtain s1 where s1: "console_putc c s = Some s1" "console_ok s1" using console_putc_ok [OF Cons.prems] by blast
  then show ?case using Cons.IH [OF s1(2)] by simp
qed simp

text \<open>The cursor of the terminal stays on the screen.\<close>

definition terminal_ok :: "terminal \<Rightarrow> bool" where
  "terminal_ok t \<longleftrightarrow> length (te_buf t) = 2000 \<and> te_r t < 25 \<and> te_c t < 80"

lemma putat_ok:
  assumes "terminal_ok t"
  shows "\<exists>b. putat ch col x y t = Some (t\<lparr>te_buf := b\<rparr>) \<and> length b = 2000"
proof (cases "x < 80 \<and> y < 25")
  case True
  then have "unat x < 80" "unat y < 25" by (simp_all add: word_less_nat_alt)
  moreover from this have "unat (y * 80 + x) = unat y * 80 + unat x" by (simp add: unat_word_ariths)
  ultimately have "unat (y * 80 + x) < 2000" by simp
  then have "putat ch col x y t = Some (t\<lparr>te_buf := (te_buf t)[unat (y * 80 + x) := vga_entry ch col]\<rparr>)"
    using assms True by (simp add: putat_def set_cell_def terminal_ok_def)
  then show ?thesis using assms by (metis length_list_update terminal_ok_def)
qed (use assms in \<open>auto simp: putat_def terminal_ok_def intro: exI [of _ "te_buf t"]\<close>)

lemma put_ok:
  assumes "terminal_ok t"
  shows "\<exists>t'. put ch t = Some t' \<and> terminal_ok t'"
proof -
  have c: "te_c t < 80" "te_r t < 25" using assms by (simp_all add: terminal_ok_def)
  have d: "0 < w \<Longrightarrow> w < n \<Longrightarrow> w - 1 < n" for w n :: u32 by unat_arith
  have i: "w < n \<Longrightarrow> w + 1 \<noteq> n \<Longrightarrow> w + 1 < n" "w < n \<Longrightarrow> \<not> n \<le> w + 1 \<Longrightarrow> w + 1 < n" for w n :: u32 by unat_arith+
  show ?thesis
    using putat_ok [OF assms, of ch "te_col t" "te_c t" "te_r t"] c assms
      putat_ok [of "t\<lparr>te_c := te_c t - 1\<rparr>" 32 "te_col t" "te_c t - 1" "te_r t"]
      putat_ok [of "t\<lparr>te_r := te_r t - 1, te_c := 79\<rparr>" 32 "te_col t" 79 "te_r t - 1"]
    by (auto simp: put_def terminal_ok_def Let_def d i)
qed

lemma read_line_loop_edits:
  assumes "terminal_ok t" and "maxlen \<le> length out" and "length tx < maxlen" and "take (length tx) out = tx"
  shows "case edit_line (maxlen - 1) (keys_of ps) tx of
      None \<Rightarrow> read_line_loop maxlen ps (length tx) out t = None
    | Some l \<Rightarrow> \<exists>out' qs t'. read_line_loop maxlen ps (length tx) out t = Some (int (length l), out', qs, t')
        \<and> length l < maxlen \<and> take (Suc (length l)) out' = l @ [0] \<and> length out' = length out
        \<and> drop maxlen out' = drop maxlen out \<and> terminal_ok t'"
  using assms
proof (induction "length ps" arbitrary: ps out tx t rule: less_induct)
  case less
  have fin: "set_cell (length tx) 0 out = Some (out[length tx := 0])"
      "take (Suc (length tx)) (out[length tx := 0]) = tx @ [0]"
      "drop maxlen (out[length tx := v]) = drop maxlen out" for v
    using less.prems by (simp_all add: set_cell_def take_Suc_conv_app_nth)
  show ?case
  proof (cases "length tx < maxlen - 1")
    case False
    then have "edit_line (maxlen - 1) (keys_of ps) tx = Some tx" by (cases "keys_of ps") simp_all
    then show ?thesis using False fin less.prems by (simp add: read_line_loop.simps)
  next
    case True
    show ?thesis
    proof (cases "wait_char ps")
      case None
      then show ?thesis using True by (simp add: wait_char_keys read_line_loop.simps)
    next
      case (Some cq)
      then obtain c qs where w: "wait_char ps = Some (c, qs)" by (cases cq) auto
      note k = wait_char_keys(2) [OF w] and sh = wait_char_shorter [OF w]
      obtain t1 where t1: "put c t = Some t1" "terminal_ok t1" using put_ok [OF less.prems(1)] by blast
      consider (bs) "c = 8" "tx \<noteq> []" | (none) "c = 8" "tx = []" | (enter) "c = 10"
        | (char) "c \<noteq> 8" "c \<noteq> 10" "32 \<le> c \<and> c \<le> 126" | (other) "c \<noteq> 8" "c \<noteq> 10" "\<not> (32 \<le> c \<and> c \<le> 126)" by blast
      then show ?thesis
      proof cases
        case bs
        obtain t2 where t2: "put 32 t1 = Some t2" "terminal_ok t2" using put_ok [OF t1(2)] by blast
        obtain t3 where t3: "put 8 t2 = Some t3" "terminal_ok t3" using put_ok [OF t2(2)] by blast
        have "read_line_loop maxlen ps (length tx) out t = read_line_loop maxlen qs (length (butlast tx)) out t3"
          using True w bs t1 t2 t3 by (subst read_line_loop.simps) simp
        moreover have "take (length (butlast tx)) out = butlast tx"
          using less.prems(4) by (metis butlast_conv_take diff_le_self length_butlast min.absorb1 take_take)
        moreover have "length (butlast tx) < maxlen" using less.prems(3) by simp
        ultimately show ?thesis
          using less.hyps [OF sh t3(2) less.prems(2), of "butlast tx"] True bs k by (simp del: length_butlast split: option.splits)
      next
        case none
        have "read_line_loop maxlen ps (length tx) out t = read_line_loop maxlen qs (length tx) out t"
          using True w none by (subst read_line_loop.simps) simp
        then show ?thesis using less.hyps [OF sh less.prems] True none k by (simp split: option.splits)
      next
        case enter
        then show ?thesis using True w fin k t1 less.prems by (subst (1 2) read_line_loop.simps) simp
      next
        case char
        have "set_cell (length tx) c out = Some (out[length tx := c])" using less.prems by (simp add: set_cell_def)
        then have "read_line_loop maxlen ps (length tx) out t
            = read_line_loop maxlen qs (length (tx @ [c])) (out[length tx := c]) t1"
          using True w char t1 by (subst read_line_loop.simps) simp
        moreover have "take (length (tx @ [c])) (out[length tx := c]) = tx @ [c]"
          using less.prems by (simp add: take_Suc_conv_app_nth)
        moreover have "length (tx @ [c]) < maxlen" using True by simp
        ultimately show ?thesis
          using less.hyps [OF sh t1(2), of "out[length tx := c]" "tx @ [c]"] less.prems(2) True char k fin
          by (simp split: option.splits)
      next
        case other
        have "read_line_loop maxlen ps (length tx) out t = read_line_loop maxlen qs (length tx) out t"
          using True w other by (subst read_line_loop.simps) auto
        then show ?thesis using less.hyps [OF sh less.prems] True other k by (auto split: option.splits)
      qed
    qed
  qed
qed


lemma cleared_shows_paper:
  assumes "co_vga s = replicate 2000 (vga_cell a 32)" and "co_x s = 0" and "co_y s = 0" and "co_attr s = a"
  shows "shows_paper s ([], blank_line a, 0)"
proof -
  have "concat (replicate n (replicate 80 v)) = replicate (n * 80) v" for n and v :: u16
    by (induction n) (simp_all add: replicate_add)
  from this [of 25] have cr: "concat (replicate 25 (blank_line a)) = co_vga s" using assms by (simp add: blank_line_def)
  have "window a ([] @ [blank_line a]) = replicate (Suc 24) (blank_line a)"
    using window_low [of "[]"] by (simp only: replicate_Suc) simp
  then show ?thesis using cr assms by (simp add: blank_line_def)
qed

subsection \<open>Properties\<close>

text \<open>C26.  On a cleared screen the console is a typewriter on an unbounded sheet of paper of which the screen
  shows the last 25 lines: whatever text is printed, with line feeds, carriage returns, tabs and long
  lines, no write leaves the screen, and its cells and the cursor are those of the sheet.\<close>

theorem console_shows_paper:
  assumes "length mem = 2000"
  shows "\<exists>s1 s2. console_init mem s = Some s1 \<and> console_puts cs s1 = Some s2
    \<and> (case type_text (co_attr s) cs ([], blank_line (co_attr s), 0) of (ls, l, x) \<Rightarrow>
         co_vga s2 = concat (window (co_attr s) (ls @ [l])) \<and> x < 80
         \<and> console_get_cursor s2 = (of_nat x, of_nat (min (length ls) 24)))"
proof -
  let ?s = "s\<lparr>co_vga := replicate 2000 (vga_cell (co_attr s) 32), co_x := 0, co_y := 0\<rparr>"
  have c: "console_init mem s = Some ?s"
    using clear_rows [OF assms, of "vga_cell (co_attr s) 32"] by (simp add: console_init_def console_clear_def)
  have "shows_paper ?s ([], blank_line (co_attr s), 0)" by (rule cleared_shows_paper) simp_all
  from console_puts_refines [OF this, of cs] show ?thesis
    using c by (fastforce simp: console_get_cursor_def split: prod.split)
qed

text \<open>Printing one line more than fit: the first line is gone, the last row is blank.\<close>

lemma console_shows_paper_witness:
  "\<exists>s1 s2. console_init (replicate 2000 0x1F00) \<lparr>co_vga = [], co_x = 9, co_y = 9, co_attr = 7\<rparr> = Some s1
    \<and> console_puts (65 # 10 # 66 # replicate 24 10) s1 = Some s2
    \<and> co_vga s2 = (0x742 # replicate 79 0x720) @ replicate 1920 0x720 \<and> console_get_cursor s2 = (0, 24)"
proof -
  have b: "blank_line 7 = replicate 80 0x720" by (simp add: blank_line_def vga_cell_def)
  have nl: "type_text 7 (replicate n 10) (ls, l, x) = (if n = 0 then (ls, l, x) else (ls @ l # replicate (n - 1) (blank_line 7), blank_line 7, 0))"
    for n ls l x
    by (induction n arbitrary: ls l x) (auto simp: type_char_def Let_def replicate_app_Cons_same gr0_conv_Suc)
  have t: "type_text 7 (65 # 10 # 66 # replicate 24 10) ([], blank_line 7, 0)
    = ((blank_line 7)[0 := 0x741] # (blank_line 7)[0 := 0x742] # replicate 23 (blank_line 7), blank_line 7, 0)"
    by (simp only: type_text.simps) (simp add: nl type_char_def vga_cell_def Let_def)
  have w: "window 7 (((blank_line 7)[0 := 0x741] # (blank_line 7)[0 := 0x742] # replicate 23 (blank_line 7)) @ [blank_line 7])
    = (blank_line 7)[0 := 0x742] # replicate 24 (blank_line 7)"
    using replicate_Suc [of 23 "blank_line 7"] replicate_append_same [of 23 "blank_line 7"] by (simp add: window_def Let_def)
  have c: "concat (replicate n (replicate 80 v)) = replicate (n * 80) v" for n and v :: u16
    by (induction n) (simp_all add: replicate_add)
  have "concat ((blank_line 7)[0 := 0x742] # replicate 24 (blank_line 7)) = (0x742 # replicate 79 0x720) @ replicate 1920 0x720"
    using replicate_Suc [of 79 "0x720 :: u16"] unfolding b concat.simps c by simp
  then show ?thesis
    using console_shows_paper [of "replicate 2000 0x1F00" "\<lparr>co_vga = [], co_x = 9, co_y = 9, co_attr = 7\<rparr>"
        "65 # 10 # 66 # replicate 24 10"] w
    by (simp add: t del: type_text.simps console_puts.simps)
qed

text \<open>C27.  \<^verbatim>\<open>read_line\<close> waits until the keys typed (on the keyboard or the serial line) make a complete edited
  line, or fill the buffer, and then stores that line with its NUL, returning its length; nothing
  behind the first \<open>maxlen\<close> bytes changes.  When they do not it never returns.\<close>

theorem read_line_edits:
  assumes "terminal_ok t" and "0 < maxlen" and "maxlen \<le> length out"
  shows "case edit_line (maxlen - 1) (keys_of ps) [] of
      None \<Rightarrow> read_line (Some out) (int maxlen) ps t = None
    | Some l \<Rightarrow> \<exists>out' qs t'. read_line (Some out) (int maxlen) ps t = Some (int (length l), out', qs, t')
        \<and> length l < maxlen \<and> take (Suc (length l)) out' = l @ [0] \<and> length out' = length out
        \<and> drop maxlen out' = drop maxlen out"
  using read_line_loop_edits [OF assms(1,3), of "[]" ps] assms(2)
  by (auto simp: read_line_def split: option.splits)

lemma read_line_edits_witness:
  "\<exists>out' qs t'. read_line (Some (replicate 9 7)) 8 [(-1, -1), (112, 0), (-1, 116), (-1, -1), (8, -1), (115, -1), (-1, 13), (120, -1)]
      \<lparr>te_r = 24, te_c = 79, te_col = 7, te_buf = replicate 2000 0\<rparr> = Some (2, out', qs, t') \<and> take 3 out' = asc ''ps'' @ [0]"
proof -
  let ?ps = "[(-1, -1), (112, 0), (-1, 116), (-1, -1), (8, -1), (115, -1), (-1, 13), (120, -1)] :: poll list"
  have "edit_line 7 (keys_of ?ps) [] = Some (asc ''ps'')" by (simp add: asc_def)
  then show ?thesis
    using read_line_edits [of "\<lparr>te_r = 24, te_c = 79, te_col = 7, te_buf = replicate 2000 0\<rparr>" 8 "replicate 9 7" ?ps]
    by (auto simp: terminal_ok_def asc_def numeral_3_eq_3)
qed

end
