(* ===== verification/VfsTypes.thy ===== *)
theory VfsTypes
  imports KHeap BlockDev
begin

text \<open>
  The data of the file-system layer: the node structure and constants of \<^verbatim>\<open>include/kernel/vfs.h\<close> and
  \<^verbatim>\<open>libc/include/sys/stat.h\<close>, the private structures of the two drivers
  (\<^verbatim>\<open>fs/fat32_vfs.c\<close>, \<^verbatim>\<open>kernel/initrd.c\<close>) and the state all of them share.

  A heap object is an entry of a typed map from its address, \<open>fs_heap\<close> being the allocator's own
  state: \<open>kmalloc\<close> makes room for it, \<open>kfree\<close> removes it again, and an access through a pointer
  that has no object of the right type is \<open>None\<close>.  A byte buffer from \<open>kmalloc\<close> starts as zeros.
  A name array is the string it holds; function pointers are the constructors of \<open>vfn\<close>, one per
  function that the source ever stores in a node, \<open>None\<close> being the null pointer.
\<close>

subsection \<open>Constants\<close>

definition S_IFMT :: u32 where "S_IFMT = 0xF000"
definition S_IFLNK :: u32 where "S_IFLNK = 0xA000"
definition S_IFREG :: u32 where "S_IFREG = 0x8000"
definition S_IFDIR :: u32 where "S_IFDIR = 0x4000"
definition S_ISDIR :: "u32 \<Rightarrow> bool" where "S_ISDIR m \<longleftrightarrow> m AND S_IFMT = S_IFDIR"
definition S_ISLNK :: "u32 \<Rightarrow> bool" where "S_ISLNK m \<longleftrightarrow> m AND S_IFMT = S_IFLNK"

definition VFS_FILE :: u32 where "VFS_FILE = 0x01"
definition VFS_DIRECTORY :: u32 where "VFS_DIRECTORY = 0x02"
definition FT_DIR :: u32 where "FT_DIR = S_IFDIR"

definition VFS_NAME_MAX :: nat where "VFS_NAME_MAX = 256"
definition VFS_PATH_MAX :: nat where "VFS_PATH_MAX = 4096"

definition O_RDONLY :: u32 where "O_RDONLY = 0x0000"
definition O_WRONLY :: u32 where "O_WRONLY = 0x0001"
definition O_RDWR :: u32 where "O_RDWR = 0x0002"
definition O_ACCMODE :: u32 where "O_ACCMODE = 0x0003"
definition O_CREAT :: u32 where "O_CREAT = 0x0100"
definition O_EXCL :: u32 where "O_EXCL = 0x0200"
definition O_TRUNC :: u32 where "O_TRUNC = 0x0400"
definition O_APPEND :: u32 where "O_APPEND = 0x0800"

lemmas vfs_consts = S_IFMT_def S_IFLNK_def S_IFREG_def S_IFDIR_def S_ISDIR_def S_ISLNK_def
  VFS_FILE_def VFS_DIRECTORY_def FT_DIR_def VFS_NAME_MAX_def VFS_PATH_MAX_def
  O_RDONLY_def O_WRONLY_def O_RDWR_def O_ACCMODE_def O_CREAT_def O_EXCL_def O_TRUNC_def O_APPEND_def

subsection \<open>Nodes\<close>

datatype vfn = Fat32_read | Fat32_write | Fat32_open | Fat32_close | Fat32_vfs_readdir | Fat32_finddir
  | Tar_read | Tar_open | Tar_close | Tar_readdir | Tar_finddir

record vnode =
  vn_name :: cstr
  vn_size :: u32
  vn_flags :: u32
  vn_inode :: u32
  vn_impl :: u32
  vn_read :: "vfn option"
  vn_write :: "vfn option"
  vn_open :: "vfn option"
  vn_close :: "vfn option"
  vn_readdir :: "vfn option"
  vn_finddir :: "vfn option"
  vn_lseek :: "vfn option"
  vn_stat :: "vfn option"
  vn_priv :: addr
  vn_data :: addr
  vn_parent :: addr
  vn_children :: addr
  vn_next :: addr
  vn_position :: u32

text \<open>A node of zero bytes, and \<^verbatim>\<open>sizeof(vfs_node_t)\<close> (the member \<^verbatim>\<open>ops\<close>, which nothing uses, included).\<close>

definition vnode0 :: vnode where
  "vnode0 = \<lparr>vn_name = [], vn_size = 0, vn_flags = 0, vn_inode = 0, vn_impl = 0, vn_read = None,
     vn_write = None, vn_open = None, vn_close = None, vn_readdir = None, vn_finddir = None,
     vn_lseek = None, vn_stat = None, vn_priv = 0, vn_data = 0, vn_parent = 0, vn_children = 0,
     vn_next = 0, vn_position = 0\<rparr>"

definition VNODE_SIZE :: u32 where "VNODE_SIZE = 332"

text \<open>\<^verbatim>\<open>strncpy(dst, s, n)\<close> into a zeroed array of \<open>n + 1\<close> bytes, as a string.\<close>

definition name_cut :: "nat \<Rightarrow> cstr \<Rightarrow> cstr" where
  "name_cut n s = take n s"

record vdirent =
  vd_name :: cstr
  vd_size :: u32
  vd_is_dir :: bool

definition vdirent0 :: vdirent where
  "vdirent0 = \<lparr>vd_name = [], vd_size = 0, vd_is_dir = False\<rparr>"

text \<open>\<^verbatim>\<open>fat32_file_private_t\<close> and \<^verbatim>\<open>tar_file_meta_t\<close>.\<close>

record fat_priv =
  fp_cluster :: u32
  fp_size :: u32
  fp_pos :: u32
  fp_is_dir :: bool

definition FAT_PRIV_SIZE :: u32 where "FAT_PRIV_SIZE = 16"

record tar_meta =
  tm_size :: u32
  tm_data_off :: u32

definition TAR_META_SIZE :: u32 where "TAR_META_SIZE = 8"

definition MAX_OPEN_FILES :: nat where "MAX_OPEN_FILES = 32"

subsection \<open>The shared state\<close>

record fsys =
  fs_heap :: kheap
  fs_nodes :: "addr \<rightharpoonup> vnode"
  fs_privs :: "addr \<rightharpoonup> fat_priv"
  fs_metas :: "addr \<rightharpoonup> tar_meta"
  fs_datas :: "addr \<rightharpoonup> u8 list"
  \<comment> \<open>\<^verbatim>\<open>kernel/vfs.c\<close>; \<open>fs_root_addr\<close> is where the linker put \<^verbatim>\<open>vfs_root\<close>\<close>
  fs_open :: "vnode list"
  fs_root :: vnode
  fs_root_addr :: addr
  fs_rd_entry :: vdirent
  fs_rd_index :: u32
  fs_errno :: int
  \<comment> \<open>\<^verbatim>\<open>fs/fat32.c\<close> and \<^verbatim>\<open>fs/fat32_vfs.c\<close>\<close>
  fs_boot :: "u8 list"
  fs_fat :: addr
  fs_total_clusters :: u32
  fs_fat_lba :: u32
  fs_cluster_lba :: u32
  fs_inited :: bool
  fs_fat_dirent :: vdirent
  \<comment> \<open>\<^verbatim>\<open>kernel/initrd.c\<close>\<close>
  fs_img :: addr
  fs_img_bytes :: u32
  \<comment> \<open>the block layer\<close>
  fs_blk :: "disk blk_reg"
  fs_disk :: disk

subsection \<open>Heap objects\<close>

definition fs_alloc :: "u32 \<Rightarrow> fsys \<Rightarrow> addr \<times> fsys" where
  "fs_alloc n s = (case kmalloc n (fs_heap s) of (p, h) \<Rightarrow> (p, s\<lparr>fs_heap := h\<rparr>))"

definition fs_free :: "addr \<Rightarrow> fsys \<Rightarrow> fsys option" where
  "fs_free p s = (case kfree p (fs_heap s) of
       None \<Rightarrow> None
     | Some h \<Rightarrow> Some (s\<lparr>fs_heap := h, fs_nodes := (fs_nodes s)(p := None),
         fs_privs := (fs_privs s)(p := None), fs_metas := (fs_metas s)(p := None),
         fs_datas := (fs_datas s)(p := None)\<rparr>))"

text \<open>The node a pointer designates: a heap object or the global root.\<close>

definition node_at :: "addr \<Rightarrow> fsys \<Rightarrow> vnode option" where
  "node_at p s = (if p = 0 then None else if p = fs_root_addr s then Some (fs_root s) else fs_nodes s p)"

definition node_upd :: "addr \<Rightarrow> vnode \<Rightarrow> fsys \<Rightarrow> fsys option" where
  "node_upd p n s =
     (if p = 0 then None
      else if p = fs_root_addr s then Some (s\<lparr>fs_root := n\<rparr>)
      else if fs_nodes s p = None then None
      else Some (s\<lparr>fs_nodes := (fs_nodes s)(p \<mapsto> n)\<rparr>))"

text \<open>\<^verbatim>\<open>vfs_set_root\<close> and \<^verbatim>\<open>vfs_get_root\<close> of \<^verbatim>\<open>kernel/vfs.c\<close>; the root is a copy of the node.\<close>

definition vfs_set_root :: "addr \<Rightarrow> fsys \<Rightarrow> fsys option" where
  "vfs_set_root root s =
     (if root = 0 then Some s else do { n \<leftarrow> node_at root s; Some (s\<lparr>fs_root := n\<rparr>) })"

definition vfs_get_root :: "fsys \<Rightarrow> addr" where
  "vfs_get_root s = fs_root_addr s"

text \<open>A buffer of \<open>n\<close> bytes from \<open>kmalloc\<close>.\<close>

definition alloc_data :: "u32 \<Rightarrow> fsys \<Rightarrow> addr \<times> fsys" where
  "alloc_data n s = (case fs_alloc n s of (p, s1) \<Rightarrow>
     if p = 0 then (0, s1) else (p, s1\<lparr>fs_datas := (fs_datas s1)(p \<mapsto> replicate (unat n) 0)\<rparr>))"

text \<open>\<^verbatim>\<open>vfs_node_add_child\<close> of \<^verbatim>\<open>kernel/initrd.c\<close>.\<close>

definition vfs_node_add_child :: "addr \<Rightarrow> addr \<Rightarrow> fsys \<Rightarrow> fsys option" where
  "vfs_node_add_child parent child s =
     (if parent = 0 \<or> child = 0 then Some s
      else do {
        p \<leftarrow> node_at parent s;
        c \<leftarrow> node_at child s;
        s1 \<leftarrow> node_upd child (c\<lparr>vn_next := vn_children p\<rparr>) s;
        p1 \<leftarrow> node_at parent s1;
        node_upd parent (p1\<lparr>vn_children := child\<rparr>) s1 })"

text \<open>The sibling list that starts at a pointer, as the loops \<^verbatim>\<open>while (n) ... n = n->next\<close> run through it.\<close>

inductive sibs :: "fsys \<Rightarrow> addr \<Rightarrow> addr list \<Rightarrow> bool" for s where
  sibs_nil: "sibs s 0 []"
| sibs_cons: "node_at p s = Some n \<Longrightarrow> sibs s (vn_next n) ps \<Longrightarrow> sibs s p (p # ps)"

inductive_cases sibs_consE: "sibs s p (q # ps)"
inductive_simps sibs_simps [simp]: "sibs s 0 ps" "sibs s p []"

text \<open>
  The search for a name in a sibling list, in \<^verbatim>\<open>child_lookup\<close> and \<^verbatim>\<open>vfs_lookup\<close>; a cyclic list makes it
  spin.  \<open>None\<close> inside is the end of the list.
\<close>

partial_function (option) sib_find :: "fsys \<Rightarrow> addr \<Rightarrow> cstr \<Rightarrow> (addr \<times> vnode) option option" where
  "sib_find s p name =
     (if p = 0 then Some None
      else do {
        n \<leftarrow> node_at p s;
        if vn_name n = name then Some (Some (p, n)) else sib_find s (vn_next n) name })"

end
