(* ===== verification/Fat32.thy ===== *)
theory Fat32
  imports VfsTypes
begin

text \<open>
  The FAT32 reader \<^verbatim>\<open>fs/fat32.c\<close> with the on-disk structures of \<^verbatim>\<open>fs/fat32.h\<close>.  The globals are the
  fields \<open>fs_boot\<close> (the 512 bytes of \<^verbatim>\<open>g_boot_sector\<close>), \<open>fs_fat\<close> (\<^verbatim>\<open>g_fat\<close>, whose contents are the byte
  buffer at that address), \<open>fs_fat_lba\<close>, \<open>fs_cluster_lba\<close>, \<open>fs_total_clusters\<close> and \<open>fs_inited\<close>.
  Console output is left out.

  The walks along a cluster chain have no bound in the source, so they are partial functions whose
  value on a cyclic chain is \<open>None\<close>; \<open>fat_chain\<close> is the finite chain of a well-formed file system.
  The theorems relate the searches to the list of all entries of a directory and the data reads to
  the concatenation of the clusters of the file.
\<close>

subsection \<open>The boot sector\<close>

definition bs_bytes_per_sector :: "u8 list \<Rightarrow> u16" where "bs_bytes_per_sector b = le16 b 11"
definition bs_sectors_per_cluster :: "u8 list \<Rightarrow> u8" where "bs_sectors_per_cluster b = byte_at b 13"
definition bs_reserved_sector_count :: "u8 list \<Rightarrow> u16" where "bs_reserved_sector_count b = le16 b 14"
definition bs_num_fats :: "u8 list \<Rightarrow> u8" where "bs_num_fats b = byte_at b 16"
definition bs_total_sectors_32 :: "u8 list \<Rightarrow> u32" where "bs_total_sectors_32 b = le32 b 32"
definition bs_fat_size_32 :: "u8 list \<Rightarrow> u32" where "bs_fat_size_32 b = le32 b 36"
definition bs_root_cluster :: "u8 list \<Rightarrow> u32" where "bs_root_cluster b = le32 b 44"
definition bs_fs_type :: "u8 list \<Rightarrow> u8 list" where "bs_fs_type b = drop 82 b"

subsection \<open>Directory entries\<close>

definition ATTR_HIDDEN :: u8 where "ATTR_HIDDEN = 0x02"
definition ATTR_SYSTEM :: u8 where "ATTR_SYSTEM = 0x04"
definition ATTR_VOLUME_ID :: u8 where "ATTR_VOLUME_ID = 0x08"
definition ATTR_DIRECTORY :: u8 where "ATTR_DIRECTORY = 0x10"

definition de_attributes :: "u8 list \<Rightarrow> u8" where "de_attributes d = byte_at d 11"
definition de_cluster :: "u8 list \<Rightarrow> u32" where
  "de_cluster d = push_bit 16 (ucast (le16 d 20)) OR ucast (le16 d 26)"
definition de_file_size :: "u8 list \<Rightarrow> u32" where "de_file_size d = le32 d 28"

text \<open>\<^verbatim>\<open>fat32_dir_t\<close>.\<close>

record fat_dir =
  fd_name :: cstr
  fd_size :: u32
  fd_cluster :: u32
  fd_attr :: u8

text \<open>The tests that make the loops skip an entry.\<close>

definition de_skip :: "u8 list \<Rightarrow> bool" where
  "de_skip d \<longleftrightarrow> byte_at d 0 = 0 \<or> byte_at d 0 = 0xE5
     \<or> de_attributes d AND ATTR_VOLUME_ID \<noteq> 0 \<or> de_attributes d AND ATTR_HIDDEN \<noteq> 0
     \<or> de_attributes d AND ATTR_SYSTEM \<noteq> 0"

definition lower :: "u8 \<Rightarrow> u8" where "lower c = word_of_int (k_tolower (uint c))"

text \<open>The bytes stored into \<^verbatim>\<open>entry_name\<close>; the string ends at their first NUL.\<close>

definition de_name_bytes :: "u8 list \<Rightarrow> u8 list" where
  "de_name_bytes d =
     (let cp = (\<lambda>bs. map lower (filter (\<lambda>c. c \<noteq> 0x20) bs)) in
      cp (map (byte_at d) [0..<8])
      @ (if byte_at d 8 \<noteq> 0x20 then 0x2E # cp (map (byte_at d) [8..<11]) else []))"

definition de_name :: "u8 list \<Rightarrow> cstr" where
  "de_name d = cstr_at (de_name_bytes d @ [0])"

definition fat_entry :: "u8 list \<Rightarrow> fat_dir" where
  "fat_entry d = \<lparr>fd_name = de_name d, fd_size = de_file_size d, fd_cluster = de_cluster d,
     fd_attr = de_attributes d\<rparr>"

definition slice :: "nat \<Rightarrow> nat \<Rightarrow> 'a list \<Rightarrow> 'a list" where
  "slice i n b = take n (drop i b)"

definition sector_entries :: "u8 list \<Rightarrow> u8 list list" where
  "sector_entries b = map (\<lambda>i. slice (32 * i) 32 b) [0..<16]"

text \<open>\<^verbatim>\<open>strcasecmp\<close> on two terminated strings.\<close>

fun k_strcasecmp :: "u8 list \<Rightarrow> u8 list \<Rightarrow> int option" where
  "k_strcasecmp (a # s) (b # t) =
     (if k_tolower (uint a) = k_tolower (uint b)
      then (if a = 0 then Some 0 else k_strcasecmp s t)
      else Some (k_tolower (uint a) - k_tolower (uint b)))"
| "k_strcasecmp _ _ = None"

subsection \<open>Clusters and sectors\<close>

definition is_eof_cluster :: "u32 \<Rightarrow> bool" where
  "is_eof_cluster c \<longleftrightarrow> 0x0FFFFFF8 \<le> c"

definition get_first_sector_of_cluster :: "u32 \<Rightarrow> fsys \<Rightarrow> u32" where
  "get_first_sector_of_cluster c s = fs_cluster_lba s + (c - 2) * ucast (bs_sectors_per_cluster (fs_boot s))"

text \<open>The status and the bytes stored; \<open>ata_read28_lba\<close> is called whatever device \<open>hda\<close> is.\<close>

definition read_sectors :: "u32 \<Rightarrow> u8 \<Rightarrow> fsys \<Rightarrow> (int \<times> u8 list) option" where
  "read_sectors lba n s = do {
     dev \<leftarrow> blk_find (Some (asc ''hda'' @ [0])) (fs_blk s);
     (case dev of
        None \<Rightarrow> Some (-1, [])
      | Some _ \<Rightarrow> Some (disk_sectors (fs_disk s) lba (unat n))) }"

text \<open>\<^verbatim>\<open>g_fat[c]\<close>.\<close>

definition fat_next :: "u32 \<Rightarrow> fsys \<Rightarrow> u32 option" where
  "fat_next c s = do {
     b \<leftarrow> fs_datas s (fs_fat s);
     if 4 * unat c + 4 \<le> length b then Some (le32 b (4 * unat c)) else None }"

subsection \<open>Initialisation\<close>

text \<open>The loop that reads the FAT: \<open>n\<close> sectors remain, \<open>off\<close> is \<^verbatim>\<open>fat_ptr\<close> within the buffer.\<close>

function fat_load :: "u32 \<Rightarrow> u32 \<Rightarrow> u32 \<Rightarrow> fsys \<Rightarrow> (int \<times> fsys) option" where
  "fat_load n lba off s =
     (if n = 0 then Some (0, s)
      else let k = (if 255 < n then 255 else ucast n) :: u8 in
        do {
          (rc, bs) \<leftarrow> read_sectors lba k s;
          b \<leftarrow> fs_datas s (fs_fat s);
          b' \<leftarrow> buf_write b (unat off) bs;
          let s1 = s\<lparr>fs_datas := (fs_datas s)(fs_fat s \<mapsto> b')\<rparr>;
          if rc \<noteq> 0 then do { s2 \<leftarrow> fs_free (fs_fat s1) s1; Some (-1, s2) }
          else fat_load (n - ucast k) (lba + ucast k)
                 (off + ucast k * ucast (bs_bytes_per_sector (fs_boot s))) s1
        })"
  by pat_completeness auto
termination
proof (relation "measure (\<lambda>(n, _). unat n)", simp)
  fix n lba off :: u32 and s :: fsys and k :: u8 and r bs b b' s1 x
  assume n: "n \<noteq> 0" and k: "k = (if 255 < n then 255 else ucast n)"
  have "ucast k \<le> n \<and> ucast k \<noteq> (0 :: u32)"
  proof (cases "255 < n")
    case True
    then show ?thesis using k by (auto simp: word_less_nat_alt word_le_nat_alt)
  next
    case False
    then have "unat n < 256" by (simp add: word_less_nat_alt)
    then have "(ucast (ucast n :: u8) :: u32) = n" by (rule ucast_u8_u32)
    then show ?thesis using k n False by simp
  qed
  then have le: "ucast k \<le> n" and nz: "(ucast k :: u32) \<noteq> 0" by auto
  have "unat (ucast k :: u32) \<noteq> 0" using nz by (simp add: unat_eq_zero)
  moreover have "unat (ucast k :: u32) \<le> unat n" using le by (simp add: word_le_nat_alt)
  moreover have "unat (n - ucast k) = unat n - unat (ucast k :: u32)" using le by (rule unat_sub)
  ultimately have "unat (n - ucast k) < unat n" by linarith
  then show "((n - ucast k, lba + ucast k, off + ucast k * ucast (bs_bytes_per_sector (fs_boot s)), s1), n, lba, off, s)
    \<in> measure (\<lambda>(n, _). unat n)" by simp
qed

declare fat_load.simps [simp del]

definition fat32_init :: "fsys \<Rightarrow> (int \<times> fsys) option" where
  "fat32_init s =
     (if fs_inited s then Some (0, s)
      else do {
        (rc, bs) \<leftarrow> read_sectors 0 1 s;
        boot \<leftarrow> buf_write (fs_boot s) 0 bs;
        let s1 = s\<lparr>fs_boot := boot\<rparr>;
        if rc \<noteq> 0 then Some (-1, s1)
        else do {
          c \<leftarrow> k_strncmp (bs_fs_type boot) (asc ''FAT32'' @ [0]) 5;
          if c \<noteq> 0 then Some (-1, s1)
          else do {
            let fat_lba = ucast (bs_reserved_sector_count boot);
            let clu_lba = fat_lba + ucast (bs_num_fats boot) * bs_fat_size_32 boot;
            let s2 = s1\<lparr>fs_fat_lba := fat_lba, fs_cluster_lba := clu_lba\<rparr>;
            if bs_sectors_per_cluster boot = 0 then None
            else do {
              let total = (bs_total_sectors_32 boot - clu_lba) div ucast (bs_sectors_per_cluster boot);
              let fat_size = bs_fat_size_32 boot * ucast (bs_bytes_per_sector boot);
              (case alloc_data fat_size (s2\<lparr>fs_total_clusters := total\<rparr>) of (p, s3) \<Rightarrow>
                let s4 = s3\<lparr>fs_fat := p\<rparr> in
                if p = 0 then Some (-1, s4)
                else do {
                  (rc2, s5) \<leftarrow> fat_load (bs_fat_size_32 boot) fat_lba 0 s4;
                  if rc2 \<noteq> 0 then Some (-1, s5) else Some (0, s5\<lparr>fs_inited := True\<rparr>)
                }) } } } })"

definition fat32_cleanup :: "fsys \<Rightarrow> fsys option" where
  "fat32_cleanup s = do {
     s1 \<leftarrow> (if fs_fat s \<noteq> 0 then map_option (\<lambda>s1. s1\<lparr>fs_fat := 0\<rparr>) (fs_free (fs_fat s) s) else Some s);
     Some (s1\<lparr>fs_inited := False\<rparr>) }"

subsection \<open>Searching a directory\<close>

text \<open>The loop over the entries of one sector; the result of a match is the filled-in structure.\<close>

fun find_in_sector :: "cstr \<Rightarrow> u8 list list \<Rightarrow> fat_dir option option" where
  "find_in_sector name [] = Some None"
| "find_in_sector name (d # ds) =
     (if de_skip d then find_in_sector name ds
      else do {
        c \<leftarrow> k_strcasecmp (de_name_bytes d @ [0]) (name @ [0]);
        if c = 0 then Some (Some (fat_entry d)) else find_in_sector name ds })"

text \<open>
  The loops over the sectors of a cluster, \<open>k\<close> of them remaining; \<open>Inl\<close> is the early return with an
  error, \<open>Inr\<close> the entry found, if any.
\<close>

fun find_in_sectors :: "cstr \<Rightarrow> nat \<Rightarrow> u32 \<Rightarrow> fsys \<Rightarrow> (int + fat_dir option) option" where
  "find_in_sectors name 0 lba s = Some (Inr None)"
| "find_in_sectors name (Suc k) lba s = do {
     (rc, bs) \<leftarrow> read_sectors lba 1 s;
     if rc \<noteq> 0 then Some (Inl (- EIO))
     else do {
       r \<leftarrow> find_in_sector name (sector_entries bs);
       (case r of Some e \<Rightarrow> Some (Inr (Some e)) | None \<Rightarrow> find_in_sectors name k (lba + 1) s) } }"

partial_function (option) find_in_chain :: "cstr \<Rightarrow> u32 \<Rightarrow> fsys \<Rightarrow> (int + fat_dir) option" where
  "find_in_chain name c s =
     (if is_eof_cluster c \<or> c = 0 then Some (Inl (- ENOENT))
      else do {
        r \<leftarrow> find_in_sectors name (unat (bs_sectors_per_cluster (fs_boot s))) (get_first_sector_of_cluster c s) s;
        (case r of
           Inl e \<Rightarrow> Some (Inl e)
         | Inr (Some d) \<Rightarrow> Some (Inr d)
         | Inr None \<Rightarrow> do { c' \<leftarrow> fat_next c s; find_in_chain name c' s }) })"

definition fat32_find_entry :: "u32 \<Rightarrow> cstr \<Rightarrow> fsys \<Rightarrow> (int + fat_dir) option" where
  "fat32_find_entry dir_cluster name s =
     (if \<not> fs_inited s then Some (Inl (- EINVAL)) else find_in_chain name dir_cluster s)"

subsection \<open>Listing a directory\<close>

text \<open>\<open>n\<close> is \<^verbatim>\<open>index - entries_found\<close>, the number of entries still to skip.\<close>

fun nth_in_sector :: "nat \<Rightarrow> u8 list list \<Rightarrow> nat + fat_dir" where
  "nth_in_sector n [] = Inl n"
| "nth_in_sector n (d # ds) =
     (if de_skip d then nth_in_sector n ds
      else (case n of 0 \<Rightarrow> Inr (fat_entry d) | Suc m \<Rightarrow> nth_in_sector m ds))"

fun nth_in_sectors :: "nat \<Rightarrow> nat \<Rightarrow> u32 \<Rightarrow> fsys \<Rightarrow> (int + (nat + fat_dir)) option" where
  "nth_in_sectors n 0 lba s = Some (Inr (Inl n))"
| "nth_in_sectors n (Suc k) lba s = do {
     (rc, bs) \<leftarrow> read_sectors lba 1 s;
     if rc \<noteq> 0 then Some (Inl (- EIO))
     else (case nth_in_sector n (sector_entries bs) of
         Inr e \<Rightarrow> Some (Inr (Inr e))
       | Inl m \<Rightarrow> nth_in_sectors m k (lba + 1) s) }"

partial_function (option) nth_in_chain :: "nat \<Rightarrow> u32 \<Rightarrow> fsys \<Rightarrow> (int + fat_dir) option" where
  "nth_in_chain n c s =
     (if is_eof_cluster c \<or> c = 0 then Some (Inl (- ENOENT))
      else do {
        r \<leftarrow> nth_in_sectors n (unat (bs_sectors_per_cluster (fs_boot s))) (get_first_sector_of_cluster c s) s;
        (case r of
           Inl e \<Rightarrow> Some (Inl e)
         | Inr (Inr d) \<Rightarrow> Some (Inr d)
         | Inr (Inl m) \<Rightarrow> do { c' \<leftarrow> fat_next c s; nth_in_chain m c' s }) })"

definition fat32_readdir_index :: "u32 \<Rightarrow> u32 \<Rightarrow> fsys \<Rightarrow> (int + fat_dir) option" where
  "fat32_readdir_index dir_cluster idx s =
     (if \<not> fs_inited s then Some (Inl (- EINVAL)) else nth_in_chain (unat idx) dir_cluster s)"

subsection \<open>Reading file data\<close>

text \<open>The loop that skips whole clusters; the result is the cluster and its offset in the file.\<close>

partial_function (option) fat_skip :: "u32 \<Rightarrow> u32 \<Rightarrow> u32 \<Rightarrow> u32 \<Rightarrow> fsys \<Rightarrow> (u32 \<times> u32) option" where
  "fat_skip bpc c cur off s =
     (if cur + bpc \<le> off \<and> \<not> is_eof_cluster c
      then do { c' \<leftarrow> fat_next c s; fat_skip bpc c' (cur + bpc) off s }
      else Some (c, cur))"

text \<open>
  The loop that copies: \<open>buf\<close> is the address of the cluster buffer, \<open>remaining\<close> and \<open>coff\<close> the code's
  \<^verbatim>\<open>bytes_remaining\<close> and \<^verbatim>\<open>cluster_offset\<close>.  The bytes are those stored at the destination;
  \<open>Inl\<close> is the error return, after the buffer has been freed.
\<close>

partial_function (option) fat_copy :: "u32 \<Rightarrow> addr \<Rightarrow> u32 \<Rightarrow> u32 \<Rightarrow> u32 \<Rightarrow> fsys
    \<Rightarrow> ((int + u8 list) \<times> fsys) option" where
  "fat_copy bpc buf c coff remaining s =
     (if remaining = 0 \<or> is_eof_cluster c then Some (Inr [], s)
      else do {
        (rc, bs) \<leftarrow> read_sectors (get_first_sector_of_cluster c s) (bs_sectors_per_cluster (fs_boot s)) s;
        cb \<leftarrow> fs_datas s buf;
        cb' \<leftarrow> buf_write cb 0 bs;
        let s1 = s\<lparr>fs_datas := (fs_datas s)(buf \<mapsto> cb')\<rparr>;
        if rc \<noteq> 0 then do { s2 \<leftarrow> fs_free buf s1; Some (Inl (- EIO), s2) }
        else do {
          let to_read = (if remaining < bpc - coff then remaining else bpc - coff);
          xs \<leftarrow> buf_read cb' (unat coff) (unat to_read);
          c' \<leftarrow> fat_next c s1;
          (r, s2) \<leftarrow> fat_copy bpc buf c' 0 (remaining - to_read) s1;
          (case r of Inl e \<Rightarrow> Some (Inl e, s2) | Inr ys \<Rightarrow> Some (Inr (xs @ ys), s2)) } })"

text \<open>The result and the bytes stored at \<^verbatim>\<open>buffer\<close> (unspecified after an error).\<close>

definition fat32_read_file_data :: "u32 \<Rightarrow> u32 \<Rightarrow> u32 \<Rightarrow> fsys \<Rightarrow> (int \<times> u8 list \<times> fsys) option" where
  "fat32_read_file_data first_cluster offset sz s =
     (if \<not> fs_inited s then Some (- EINVAL, [], s)
      else if sz = 0 then Some (0, [], s)
      else
        let spc = ucast (bs_sectors_per_cluster (fs_boot s));
            bpc = spc * ucast (bs_bytes_per_sector (fs_boot s))
        in (case alloc_data bpc s of (buf, s1) \<Rightarrow>
          if buf = 0 then Some (- ENOMEM, [], s1)
          else do {
            (c, cur) \<leftarrow> fat_skip bpc first_cluster 0 offset s1;
            (r, s2) \<leftarrow> fat_copy bpc buf c (offset - cur) sz s1;
            (case r of
               Inl e \<Rightarrow> Some (e, [], s2)
             | Inr bs \<Rightarrow> do { s3 \<leftarrow> fs_free buf s2; Some (sint (word_of_nat (length bs) :: u32), bs, s3) }) }))"

subsection \<open>Case-insensitive comparison\<close>

lemma k_tolower_range: "0 \<le> c \<Longrightarrow> c < 256 \<Longrightarrow> 0 \<le> k_tolower c \<and> k_tolower c < 256"
  by (simp add: k_tolower_def)

lemma uint_u8: "0 \<le> uint (c :: u8) \<and> uint c < 256"
  using uint_bounded [of c] by simp

lemma uint_lower: "uint (lower c) = k_tolower (uint c)"
  using k_tolower_range [of "uint c"] uint_u8 [of c] by (simp add: lower_def uint_word_of_int)

lemma tolower_eq: "k_tolower (uint a) = k_tolower (uint b) \<longleftrightarrow> lower a = lower b"
  by (simp flip: uint_lower)

lemma lower_zero [simp]: "lower a = 0 \<longleftrightarrow> a = 0" "lower 0 = 0"
proof -
  show z: "lower 0 = 0" by (simp add: lower_def k_tolower_def)
  show "lower a = 0 \<longleftrightarrow> a = 0"
  proof
    assume "lower a = 0"
    then have "k_tolower (uint a) = 0" by (simp flip: uint_lower)
    then have "uint a = 0" by (auto simp: k_tolower_def split: if_splits)
    then show "a = 0" by (simp add: uint_0_iff)
  qed (simp add: z)
qed

lemma k_strcasecmp_spec:
  "cstr_ok a \<Longrightarrow> cstr_ok b \<Longrightarrow>
   \<exists>v. k_strcasecmp (a @ 0 # r) (b @ 0 # t) = Some v \<and> (v = 0 \<longleftrightarrow> map lower a = map lower b)"
proof (induction a arbitrary: b)
  case Nil
  then show ?case using tolower_eq [of 0] by (cases b) auto
next
  case (Cons c a)
  show ?case
  proof (cases b)
    case Nil
    then show ?thesis using Cons.prems tolower_eq [of c 0] by auto
  next
    case (Cons d b')
    then show ?thesis using Cons.IH [of b'] Cons.prems tolower_eq [of c d] by auto
  qed
qed

lemma de_name_cmp:
  assumes "cstr_ok name"
  shows "\<exists>v. k_strcasecmp (de_name_bytes d @ [0]) (name @ [0]) = Some v
    \<and> (v = 0 \<longleftrightarrow> map lower (de_name d) = map lower name)"
proof -
  have "cstring (de_name_bytes d @ [0])" by simp
  from cstringE [OF this] obtain r where r: "de_name_bytes d @ [0] = de_name d @ 0 # r" "cstr_ok (de_name d)"
    by (auto simp: de_name_def)
  show ?thesis unfolding r(1) using k_strcasecmp_spec [OF r(2) assms] by simp
qed

subsection \<open>Readable chains\<close>

text \<open>A sector device is registered as \<^verbatim>\<open>hda\<close>.\<close>

definition hda_ok :: "fsys \<Rightarrow> bool" where
  "hda_ok s \<longleftrightarrow> (\<exists>d. blk_find (Some (asc ''hda'' @ [0])) (fs_blk s) = Some (Some d)) \<and> disk_ok (fs_disk s)"

lemma read_sectors_hda: "hda_ok s \<Longrightarrow> read_sectors lba n s = Some (disk_sectors (fs_disk s) lba (unat n))"
  by (auto simp: hda_ok_def read_sectors_def)

definition spc :: "fsys \<Rightarrow> nat" where
  "spc s = unat (bs_sectors_per_cluster (fs_boot s))"

definition sector_at :: "fsys \<Rightarrow> u32 \<Rightarrow> u8 list" where
  "sector_at s lba = (case fs_disk s lba of Inr b \<Rightarrow> b | Inl _ \<Rightarrow> [])"

definition cluster_ok :: "fsys \<Rightarrow> u32 \<Rightarrow> bool" where
  "cluster_ok s c \<longleftrightarrow> (\<forall>i < spc s. \<exists>b. fs_disk s (get_first_sector_of_cluster c s + of_nat i) = Inr b)"

text \<open>The chain that starts at a cluster, when it is finite, avoids cluster 0 and can be read.\<close>

fun fat_chain :: "fsys \<Rightarrow> u32 \<Rightarrow> u32 list \<Rightarrow> bool" where
  "fat_chain s c [] \<longleftrightarrow> is_eof_cluster c"
| "fat_chain s c (x # xs) \<longleftrightarrow> x = c \<and> \<not> is_eof_cluster c \<and> c \<noteq> 0 \<and> cluster_ok s c
     \<and> (case fat_next c s of None \<Rightarrow> False | Some c' \<Rightarrow> fat_chain s c' xs)"

definition cluster_slots :: "fsys \<Rightarrow> u32 \<Rightarrow> u8 list list" where
  "cluster_slots s c =
     concat (map (\<lambda>i. sector_entries (sector_at s (get_first_sector_of_cluster c s + of_nat i))) [0..<spc s])"

definition dir_slots :: "fsys \<Rightarrow> u32 list \<Rightarrow> u8 list list" where
  "dir_slots s cs = concat (map (cluster_slots s) cs)"

definition cluster_bytes :: "fsys \<Rightarrow> u32 \<Rightarrow> u8 list" where
  "cluster_bytes s c = concat (map (\<lambda>i. sector_at s (get_first_sector_of_cluster c s + of_nat i)) [0..<spc s])"

definition file_bytes :: "fsys \<Rightarrow> u32 list \<Rightarrow> u8 list" where
  "file_bytes s cs = concat (map (cluster_bytes s) cs)"

subsection \<open>Searching and listing\<close>

lemma find_in_sector_spec:
  assumes "cstr_ok name"
  shows "find_in_sector name ds = Some (map_option fat_entry
    (find (\<lambda>d. \<not> de_skip d \<and> map lower (de_name d) = map lower name) ds))"
proof (induction ds)
  case (Cons d ds)
  then show ?case using de_name_cmp [OF assms, of d] by auto
qed simp

lemma find_append: "find P (xs @ ys) = (case find P xs of None \<Rightarrow> find P ys | Some x \<Rightarrow> Some x)"
  by (induction xs) auto

lemma find_in_sectors_spec:
  assumes h: "hda_ok s" and n: "cstr_ok name"
  shows "\<forall>i<k. \<exists>b. fs_disk s (lba + of_nat i) = Inr b \<Longrightarrow>
    find_in_sectors name k lba s = Some (Inr (map_option fat_entry
      (find (\<lambda>d. \<not> de_skip d \<and> map lower (de_name d) = map lower name)
         (concat (map (\<lambda>i. sector_entries (sector_at s (lba + of_nat i))) [0..<k])))))"
proof (induction k arbitrary: lba)
  case (Suc k)
  obtain b where b: "fs_disk s lba = Inr b" using Suc.prems by force
  have r: "read_sectors lba 1 s = Some (0, b)" using read_sectors_hda [OF h] b by simp
  have "\<forall>i<k. \<exists>b. fs_disk s (lba + 1 + of_nat i) = Inr b"
  proof (intro allI impI)
    fix i assume "i < k"
    then have "\<exists>b. fs_disk s (lba + of_nat (Suc i)) = Inr b" using Suc.prems by blast
    then show "\<exists>b. fs_disk s (lba + 1 + of_nat i) = Inr b" by (simp add: algebra_simps)
  qed
  note IH = Suc.IH [OF this]
  have "[0..<Suc k] = 0 # map Suc [0..<k]" by (simp add: upt_conv_Cons map_Suc_upt del: upt_Suc)
  then show ?case
    using r b IH find_in_sector_spec [OF n, of "sector_entries b"]
    by (auto simp: find_append sector_at_def o_def algebra_simps split: option.splits simp del: upt_Suc)
qed simp

lemma find_in_chain_spec:
  assumes h: "hda_ok s" and n: "cstr_ok name"
  shows "fat_chain s c cs \<Longrightarrow> find_in_chain name c s =
    Some (case find (\<lambda>d. \<not> de_skip d \<and> map lower (de_name d) = map lower name) (dir_slots s cs) of
       None \<Rightarrow> Inl (- ENOENT) | Some d \<Rightarrow> Inr (fat_entry d))"
proof (induction cs arbitrary: c)
  case Nil
  then show ?case by (simp add: find_in_chain.simps dir_slots_def)
next
  case (Cons x cs)
  then obtain c' where c': "fat_next c s = Some c'" "fat_chain s c' cs" "\<not> is_eof_cluster c" "c \<noteq> 0" "x = c" "cluster_ok s c"
    by (auto split: option.splits)
  have "find_in_sectors name (spc s) (get_first_sector_of_cluster c s) s = Some (Inr (map_option fat_entry
      (find (\<lambda>d. \<not> de_skip d \<and> map lower (de_name d) = map lower name) (cluster_slots s c))))"
    using find_in_sectors_spec [OF h n] c'(6) unfolding cluster_ok_def cluster_slots_def by blast
  then show ?case
    using c' Cons.IH [OF c'(2)]
    by (subst find_in_chain.simps) (auto simp: spc_def [symmetric] dir_slots_def find_append split: option.splits)
qed

lemma nth_in_sector_spec:
  "nth_in_sector n ds = (let vs = filter (\<lambda>d. \<not> de_skip d) ds in
     if n < length vs then Inr (fat_entry (vs ! n)) else Inl (n - length vs))"
  by (induction n ds rule: nth_in_sector.induct) (auto simp: Let_def split: nat.splits)

lemma nth_in_sectors_spec:
  assumes h: "hda_ok s"
  shows "\<forall>i<k. \<exists>b. fs_disk s (lba + of_nat i) = Inr b \<Longrightarrow>
    nth_in_sectors n k lba s = Some (Inr (let vs = filter (\<lambda>d. \<not> de_skip d)
         (concat (map (\<lambda>i. sector_entries (sector_at s (lba + of_nat i))) [0..<k])) in
       if n < length vs then Inr (fat_entry (vs ! n)) else Inl (n - length vs)))"
proof (induction k arbitrary: lba n)
  case (Suc k)
  obtain b where b: "fs_disk s lba = Inr b" using Suc.prems by force
  have r: "read_sectors lba 1 s = Some (0, b)" using read_sectors_hda [OF h] b by simp
  have "\<forall>i<k. \<exists>b. fs_disk s (lba + 1 + of_nat i) = Inr b"
  proof (intro allI impI)
    fix i assume "i < k"
    then have "\<exists>b. fs_disk s (lba + of_nat (Suc i)) = Inr b" using Suc.prems by blast
    then show "\<exists>b. fs_disk s (lba + 1 + of_nat i) = Inr b" by (simp add: algebra_simps)
  qed
  note IH = Suc.IH [OF this]
  have "[0..<Suc k] = 0 # map Suc [0..<k]" by (simp add: upt_conv_Cons map_Suc_upt del: upt_Suc)
  then show ?case
    using r b IH nth_in_sector_spec [of n "sector_entries b"]
    by (auto simp: sector_at_def o_def algebra_simps Let_def nth_append split: if_splits sum.splits simp del: upt_Suc)
qed (simp add: Let_def)

lemma nth_in_chain_spec:
  assumes h: "hda_ok s"
  shows "fat_chain s c cs \<Longrightarrow> nth_in_chain n c s =
    Some (let vs = filter (\<lambda>d. \<not> de_skip d) (dir_slots s cs) in
       if n < length vs then Inr (fat_entry (vs ! n)) else Inl (- ENOENT))"
proof (induction cs arbitrary: c n)
  case Nil
  then show ?case by (simp add: nth_in_chain.simps dir_slots_def)
next
  case (Cons x cs)
  then obtain c' where c': "fat_next c s = Some c'" "fat_chain s c' cs" "\<not> is_eof_cluster c" "c \<noteq> 0" "x = c" "cluster_ok s c"
    by (auto split: option.splits)
  have "nth_in_sectors n (spc s) (get_first_sector_of_cluster c s) s = Some (Inr (let vs = filter (\<lambda>d. \<not> de_skip d)
         (cluster_slots s c) in if n < length vs then Inr (fat_entry (vs ! n)) else Inl (n - length vs)))"
    using nth_in_sectors_spec [OF h] c'(6) unfolding cluster_ok_def cluster_slots_def by blast
  then show ?case
    using c' Cons.IH [OF c'(2)]
    by (subst nth_in_chain.simps)
      (auto simp: spc_def [symmetric] dir_slots_def Let_def nth_append)
qed

subsection \<open>Reading data\<close>

text \<open>Every object of the typed maps is a live block of the heap.\<close>

definition fs_wf :: "fsys \<Rightarrow> bool" where
  "fs_wf s \<longleftrightarrow> kheap_inv (fs_heap s)
     \<and> dom (fs_nodes s) \<union> dom (fs_privs s) \<union> dom (fs_metas s) \<union> dom (fs_datas s) \<subseteq> live (fs_heap s)"

lemma map_upd_notin: "p \<notin> dom m \<Longrightarrow> m(p := None) = m"
  by (auto simp: fun_eq_iff)

text \<open>A temporary buffer leaves no trace once it is freed.\<close>

lemma alloc_data_free:
  assumes wf: "fs_wf s" and ok: "kmalloc_ok n" and a: "alloc_data n s = (p, s1)" and p: "p \<noteq> 0"
  shows "fs_datas s p = None" and "p \<in> live (fs_heap s1)"
    and "s1 = s\<lparr>fs_heap := fs_heap s1, fs_datas := (fs_datas s)(p \<mapsto> replicate (unat n) 0)\<rparr>"
    and "fs_free p (s1\<lparr>fs_datas := (fs_datas s)(p \<mapsto> b)\<rparr>) = Some s"
proof -
  obtain h where k: "kmalloc n (fs_heap s) = (p, h)" and s1: "s1 = s\<lparr>fs_heap := h, fs_datas := (fs_datas s)(p \<mapsto> replicate (unat n) 0)\<rparr>"
    using a p by (auto simp: alloc_data_def fs_alloc_def split: prod.splits if_splits)
  have inv: "kheap_inv (fs_heap s)" using wf by (simp add: fs_wf_def)
  have fr: "p \<notin> live (fs_heap s)" "live h = insert p (live (fs_heap s))"
    using kh.alloc_fresh [OF inv ok] k p by auto
  have nd: "p \<notin> dom (fs_nodes s)" "p \<notin> dom (fs_privs s)" "p \<notin> dom (fs_metas s)" "p \<notin> dom (fs_datas s)"
    using wf fr(1) by (auto simp: fs_wf_def)
  have kf: "kfree p h = Some (fs_heap s)"
    using kmalloc_kfree_restore [OF inv ok] k p by simp
  show "fs_datas s p = None" using nd(4) by auto
  show "p \<in> live (fs_heap s1)" using fr(2) s1 by simp
  show "s1 = s\<lparr>fs_heap := fs_heap s1, fs_datas := (fs_datas s)(p \<mapsto> replicate (unat n) 0)\<rparr>" using s1 by simp
  have "(fs_datas s)(p := None) = fs_datas s" "(fs_nodes s)(p := None) = fs_nodes s"
    "(fs_privs s)(p := None) = fs_privs s" "(fs_metas s)(p := None) = fs_metas s"
    using nd by (simp_all add: map_upd_notin)
  then show "fs_free p (s1\<lparr>fs_datas := (fs_datas s)(p \<mapsto> b)\<rparr>) = Some s"
    using kf s1 by (simp add: fs_free_def)
qed

text \<open>\<open>s\<close> and \<open>t\<close> differ in the heap and in the buffer at \<open>buf\<close> only.\<close>

definition with_buf :: "fsys \<Rightarrow> kheap \<Rightarrow> addr \<Rightarrow> u8 list \<Rightarrow> fsys" where
  "with_buf s h buf b = s\<lparr>fs_heap := h, fs_datas := (fs_datas s)(buf \<mapsto> b)\<rparr>"

lemma with_buf_simps [simp]:
  "buf \<noteq> fs_fat s \<Longrightarrow> fat_next c (with_buf s h buf b) = fat_next c s"
  "get_first_sector_of_cluster c (with_buf s h buf b) = get_first_sector_of_cluster c s"
  "read_sectors l n (with_buf s h buf b) = read_sectors l n s"
  "fs_datas (with_buf s h buf b) buf = Some b"
  "fs_boot (with_buf s h buf b) = fs_boot s"
  "(with_buf s h buf b)\<lparr>fs_datas := (fs_datas (with_buf s h buf b))(buf \<mapsto> b')\<rparr> = with_buf s h buf b'"
  by (simp_all add: with_buf_def fat_next_def get_first_sector_of_cluster_def read_sectors_def cong: option.case_cong)

text \<open>A file system with 512-byte sectors; the size of a cluster in bytes.\<close>

definition geom_ok :: "fsys \<Rightarrow> bool" where
  "geom_ok s \<longleftrightarrow> hda_ok s \<and> bs_bytes_per_sector (fs_boot s) = 512 \<and> 0 < spc s"

definition bpc_of :: "fsys \<Rightarrow> u32" where
  "bpc_of s = ucast (bs_sectors_per_cluster (fs_boot s)) * ucast (bs_bytes_per_sector (fs_boot s))"

lemma spc_lt: "spc s < 256"
proof -
  have "unat b < 2 ^ 8" for b :: u8 using unsigned_less [of b] by simp
  from this [of "bs_sectors_per_cluster (fs_boot s)"] show ?thesis by (simp add: spc_def)
qed

lemma bpc_unat: "geom_ok s \<Longrightarrow> unat (bpc_of s) = 512 * spc s"
proof -
  assume g: "geom_ok s"
  have "unat (ucast (bs_sectors_per_cluster (fs_boot s)) :: u32) = spc s" by (simp only: unat_ucast_up8 spc_def)
  moreover have "(ucast (bs_bytes_per_sector (fs_boot s)) :: u32) = 512" using g by (simp add: geom_ok_def)
  ultimately show ?thesis using spc_lt [of s] by (simp add: bpc_of_def unat_word_ariths)
qed

lemma disk_sectors_all:
  "\<forall>i<k. \<exists>b. D (l + of_nat i) = Inr b \<Longrightarrow>
   disk_sectors D l k = (0, concat (map (\<lambda>i. case D (l + of_nat i) of Inr b \<Rightarrow> b | Inl _ \<Rightarrow> []) [0..<k]))"
proof (induction k arbitrary: l)
  case (Suc k)
  obtain b where b: "D l = Inr b" using Suc.prems by force
  have "\<forall>i<k. \<exists>b. D (l + 1 + of_nat i) = Inr b"
  proof (intro allI impI)
    fix i assume "i < k"
    then have "\<exists>b. D (l + of_nat (Suc i)) = Inr b" using Suc.prems by blast
    then show "\<exists>b. D (l + 1 + of_nat i) = Inr b" by (simp add: algebra_simps)
  qed
  note IH = Suc.IH [OF this]
  have "[0..<Suc k] = 0 # map Suc [0..<k]" by (simp add: upt_conv_Cons map_Suc_upt del: upt_Suc)
  then show ?case using b IH by (simp add: o_def algebra_simps del: upt_Suc)
qed simp

lemma read_cluster:
  assumes g: "geom_ok s" and c: "cluster_ok s c"
  shows "read_sectors (get_first_sector_of_cluster c s) (bs_sectors_per_cluster (fs_boot s)) s = Some (0, cluster_bytes s c)"
    and "length (cluster_bytes s c) = 512 * spc s"
proof -
  have h: "hda_ok s" using g by (simp add: geom_ok_def)
  have d: "disk_sectors (fs_disk s) (get_first_sector_of_cluster c s) (spc s) = (0, cluster_bytes s c)"
    using disk_sectors_all c unfolding cluster_ok_def cluster_bytes_def sector_at_def by blast
  then show "read_sectors (get_first_sector_of_cluster c s) (bs_sectors_per_cluster (fs_boot s)) s = Some (0, cluster_bytes s c)"
    using read_sectors_hda [OF h] by (simp add: spc_def)
  show "length (cluster_bytes s c) = 512 * spc s"
    using disk_sectors_length [of "fs_disk s" "get_first_sector_of_cluster c s" "spc s"] d h
    by (simp add: hda_ok_def)
qed

lemma fat_chain_Cons:
  "fat_chain s c (x # xs) \<Longrightarrow> \<exists>c'. x = c \<and> fat_next c s = Some c' \<and> fat_chain s c' xs \<and> \<not> is_eof_cluster c
     \<and> c \<noteq> 0 \<and> cluster_ok s c"
  by (auto split: option.splits)

lemma fat_skip_spec:
  assumes g: "geom_ok s" and nb: "buf \<noteq> fs_fat s"
  shows "fat_chain s c cs \<Longrightarrow> cur \<le> off \<Longrightarrow> unat off + 512 * spc s < 2 ^ 32 \<Longrightarrow>
    \<exists>c' cs' cur'. fat_skip (bpc_of s) c cur off (with_buf s h buf b) = Some (c', cur') \<and> fat_chain s c' cs'
      \<and> cur' \<le> off \<and> drop (unat off - unat cur) (file_bytes s cs) = drop (unat off - unat cur') (file_bytes s cs')
      \<and> (cs' = [] \<or> unat off - unat cur' < 512 * spc s)"
proof (induction cs arbitrary: c cur)
  case Nil
  then show ?case
    by (subst fat_skip.simps, intro exI [of _ c] exI [of _ "[]"] exI [of _ cur]) (simp add: file_bytes_def)
next
  case (Cons x cs)
  obtain c1 where c1: "x = c" "fat_next c s = Some c1" "fat_chain s c1 cs" "\<not> is_eof_cluster c" "cluster_ok s c"
    using fat_chain_Cons [OF Cons.prems(1)] by blast
  have le: "unat cur \<le> unat off" using Cons.prems(2) by (simp add: word_le_nat_alt)
  have add: "unat (cur + bpc_of s) = unat cur + 512 * spc s"
    using Cons.prems(3) le bpc_unat [OF g] by (simp add: unat_add_small)
  show ?case
  proof (cases "cur + bpc_of s \<le> off")
    case True
    then have le2: "unat cur + 512 * spc s \<le> unat off" by (simp add: word_le_nat_alt add)
    have "drop (unat off - unat cur) (file_bytes s (x # cs)) = drop (unat off - unat (cur + bpc_of s)) (file_bytes s cs)"
      using read_cluster(2) [OF g c1(5)] le2 c1(1) unfolding add by (simp add: file_bytes_def diff_diff_left)
    with Cons.IH [OF c1(3) True Cons.prems(3)] show ?thesis
      using True c1 nb by (subst fat_skip.simps) simp
  next
    case False
    then have "\<not> unat cur + 512 * spc s \<le> unat off" by (simp add: word_le_nat_alt add)
    then have "unat off - unat cur < 512 * spc s" using le by linarith
    then show ?thesis
      using False Cons.prems(1,2)
      by (subst fat_skip.simps, intro exI [of _ c] exI [of _ "x # cs"] exI [of _ cur]) simp
  qed
qed

lemma buf_write_full: "length xs = length b \<Longrightarrow> buf_write b 0 xs = Some xs"
  by (simp add: buf_write_def)

lemma fat_copy_spec:
  assumes g: "geom_ok s" and nb: "buf \<noteq> fs_fat s"
  shows "fat_chain s c cs \<Longrightarrow> cs = [] \<or> unat coff < 512 * spc s \<Longrightarrow> length b = 512 * spc s \<Longrightarrow>
    \<exists>b'. fat_copy (bpc_of s) buf c coff remaining (with_buf s h buf b)
      = Some (Inr (take (unat remaining) (drop (unat coff) (file_bytes s cs))), with_buf s h buf b')"
proof (induction cs arbitrary: c coff remaining b)
  case Nil
  then show ?case by (subst fat_copy.simps, intro exI [of _ b]) (simp add: file_bytes_def)
next
  case (Cons x cs)
  obtain c1 where c1: "x = c" "fat_next c s = Some c1" "fat_chain s c1 cs" "\<not> is_eof_cluster c" "cluster_ok s c"
    using fat_chain_Cons [OF Cons.prems(1)] by blast
  show ?case
  proof (cases "remaining = 0")
    case True
    then show ?thesis by (subst fat_copy.simps) auto
  next
    case False
    let ?cb = "cluster_bytes s c"
    note rc = read_cluster [OF g c1(5)]
    let ?tr = "if remaining < bpc_of s - coff then remaining else bpc_of s - coff"
    have co: "unat coff < 512 * spc s" using Cons.prems(2) by simp
    then have sub: "unat (bpc_of s - coff) = 512 * spc s - unat coff"
      using bpc_unat [OF g] by (simp add: unat_sub word_le_nat_alt)
    then have tr: "unat ?tr = min (unat remaining) (512 * spc s - unat coff)"
      by (simp add: word_less_nat_alt min_def)
    have rem: "unat (remaining - ?tr) = unat remaining - unat ?tr"
      by (rule unat_sub) (simp add: word_le_nat_alt tr)
    have bw: "buf_write b 0 ?cb = Some ?cb" using rc(2) Cons.prems(3) by (intro buf_write_full) simp
    have br: "buf_read ?cb (unat coff) (unat ?tr) = Some (take (unat ?tr) (drop (unat coff) ?cb))"
      unfolding buf_read_def using rc(2) co tr by simp
    have sp: "0 < spc s" using g by (simp add: geom_ok_def)
    obtain b' where IH: "fat_copy (bpc_of s) buf c1 0 (remaining - ?tr) (with_buf s h buf ?cb)
      = Some (Inr (take (unat (remaining - ?tr)) (drop 0 (file_bytes s cs))), with_buf s h buf b')"
      using Cons.IH [OF c1(3), of 0 ?cb "remaining - ?tr"] rc(2) sp by auto
    have eq: "take (unat ?tr) (drop (unat coff) ?cb) @ take (unat remaining - unat ?tr) (file_bytes s cs)
       = take (unat remaining) (drop (unat coff) (file_bytes s (x # cs)))"
      using rc(2) co tr c1(1) by (auto simp: file_bytes_def min_def)
    show ?thesis
      using False c1 nb rc(1) bw br IH eq rem
      by (intro exI [of _ b'], subst fat_copy.simps) (simp add: Let_def)
  qed
qed

lemma read_file_data_spec:
  assumes wf: "fs_wf s" and g: "geom_ok s" and i: "fs_inited s" and ch: "fat_chain s c cs"
    and off: "unat off + 512 * spc s < 2 ^ 32" and sz: "unat sz < 2 ^ 31"
    and room: "fst (kmalloc (bpc_of s) (fs_heap s)) \<noteq> 0" and fat: "fs_fat s \<in> dom (fs_datas s)"
  shows "fat32_read_file_data c off sz s =
    (let bs = take (unat sz) (drop (unat off) (file_bytes s cs)) in Some (int (length bs), bs, s))"
proof (cases "sz = 0")
  case True
  then show ?thesis using i by (simp add: fat32_read_file_data_def)
next
  case False
  obtain buf s1 where a: "alloc_data (bpc_of s) s = (buf, s1)" by fastforce
  have b0: "buf \<noteq> 0" using a room by (auto simp: alloc_data_def fs_alloc_def split: prod.splits if_splits)
  have ok: "kmalloc_ok (bpc_of s)"
    using bpc_unat [OF g] spc_lt [of s] by (simp add: kmalloc_ok_def word_le_nat_alt)
  note tmp = alloc_data_free [OF wf ok a b0]
  have nb: "buf \<noteq> fs_fat s" using tmp(1) fat by auto
  have s1: "s1 = with_buf s (fs_heap s1) buf (replicate (512 * spc s) 0)"
    using tmp(3) bpc_unat [OF g] by (simp add: with_buf_def)
  obtain c' cs' cur' where sk: "fat_skip (bpc_of s) c 0 off s1 = Some (c', cur')" "fat_chain s c' cs'"
    "cur' \<le> off" "drop (unat off) (file_bytes s cs) = drop (unat off - unat cur') (file_bytes s cs')"
    "cs' = [] \<or> unat off - unat cur' < 512 * spc s"
    using fat_skip_spec [OF g nb ch, of 0 off "fs_heap s1" "replicate (512 * spc s) 0"] off s1 by auto
  have sub: "unat (off - cur') = unat off - unat cur'" using sk(3) by (rule unat_sub)
  obtain b' where cp: "fat_copy (bpc_of s) buf c' (off - cur') sz s1
      = Some (Inr (take (unat sz) (drop (unat off) (file_bytes s cs))), with_buf s (fs_heap s1) buf b')"
    using fat_copy_spec [OF g nb sk(2), of "off - cur'" "replicate (512 * spc s) 0" sz "fs_heap s1"] sk(4,5) s1
    unfolding sub by auto
  have fr: "fs_free buf (with_buf s (fs_heap s1) buf b') = Some s"
  proof -
    have "s1\<lparr>fs_datas := (fs_datas s)(buf \<mapsto> b')\<rparr> = with_buf s (fs_heap s1) buf b'"
      using arg_cong [OF s1, of "\<lambda>t. t\<lparr>fs_datas := (fs_datas s)(buf \<mapsto> b')\<rparr>"] by (simp add: with_buf_def)
    with tmp(4) [of b'] show ?thesis by (simp only:)
  qed
  let ?bs = "take (unat sz) (drop (unat off) (file_bytes s cs))"
  have "length ?bs < 2 ^ 31" using sz by simp
  then have "sint (word_of_nat (length ?bs) :: u32) = int (length ?bs)" by (rule sint_small)
  then show ?thesis
    using i False a b0 sk(1) cp fr unfolding fat32_read_file_data_def Let_def bpc_of_def [symmetric] by simp
qed


subsection \<open>A small volume\<close>

text \<open>One directory cluster with one file of one cluster, behind a FAT of four entries.\<close>

definition demo_boot :: "u8 list" where
  "demo_boot = replicate 11 0 @ [0, 2, 1] @ replicate 498 0"

definition demo_fat :: "u8 list" where
  "demo_fat = replicate 8 0 @ [0xF8, 0xFF, 0xFF, 0x0F, 0xFF, 0xFF, 0xFF, 0x0F]"

definition demo_dir :: "u8 list" where
  "demo_dir = asc ''HELLO   TXT'' @ [0x20] @ replicate 14 0 @ [3, 0, 5, 0, 0, 0] @ replicate 480 0"

definition demo_disk :: disk where
  "demo_disk l = Inr (if l = 32 then demo_dir
     else if l = 33 then asc ''hello'' @ replicate 507 0 else replicate 512 0)"

definition demo_fs :: fsys where
  "demo_fs = \<lparr>fs_heap = snd (kmalloc 16 (heap_area kheap_boot)), fs_nodes = Map.empty, fs_privs = Map.empty,
     fs_metas = Map.empty, fs_datas = [0xC000000C \<mapsto> demo_fat], fs_open = replicate 32 vnode0,
     fs_root = vnode0, fs_root_addr = 0x200000, fs_rd_entry = vdirent0, fs_rd_index = 0, fs_errno = 0,
     fs_boot = demo_boot, fs_fat = 0xC000000C, fs_total_clusters = 4, fs_fat_lba = 30, fs_cluster_lba = 32,
     fs_inited = True, fs_fat_dirent = vdirent0, fs_img = 0, fs_img_bytes = 0,
     fs_blk = [disk_dev], fs_disk = demo_disk\<rparr>"

lemma demo_inited: "fs_inited demo_fs"
  by (simp add: demo_fs_def)

lemma demo_disk_ok: "disk_ok demo_disk"
  by (simp add: disk_ok_def demo_disk_def demo_dir_def asc_def)

lemma demo_hda: "hda_ok demo_fs"
proof -
  have "blk_find (Some (asc ''hda'' @ [0])) [disk_dev] = Some (Some disk_dev)"
    by (simp add: blk_find_def disk_dev_def asc_def)
  then show ?thesis by (simp add: hda_ok_def demo_fs_def demo_disk_ok)
qed

lemma demo_spc: "spc demo_fs = 1"
  by (simp add: spc_def bs_sectors_per_cluster_def demo_fs_def demo_boot_def byte_at_def nth_append)

lemma demo_bps: "bs_bytes_per_sector (fs_boot demo_fs) = 512"
  by (simp add: bs_bytes_per_sector_def le16_def demo_fs_def demo_boot_def byte_at_def nth_append)

lemma demo_cluster: "cluster_ok demo_fs c"
  by (simp add: cluster_ok_def demo_fs_def demo_disk_def)

lemma demo_chain2: "fat_chain demo_fs 2 [2]" and demo_chain3: "fat_chain demo_fs 3 [3]"
  by (simp_all add: demo_cluster is_eof_cluster_def)
    (simp_all add: fat_next_def demo_fs_def demo_fat_def le32_def byte_at_def nth_append is_eof_cluster_def)

lemma demo_wf: "fs_wf demo_fs"
proof -
  have "kheap_inv (fs_heap demo_fs)"
    using kmalloc_inv [OF heap_area_inv, of 16] by (simp add: demo_fs_def kmalloc_ok_def)
  moreover have "live (fs_heap demo_fs) = {0xC000000C}"
    by (simp add: demo_fs_def extents_live kmalloc_def heap_area_def kheap_boot_def heap_consts)
  ultimately show ?thesis by (simp add: fs_wf_def) (simp add: demo_fs_def)
qed

lemma demo_bpc: "bpc_of demo_fs = 512"
  by (simp add: bpc_of_def demo_bps) (simp add: demo_fs_def bs_sectors_per_cluster_def demo_boot_def byte_at_def nth_append)

lemma demo_room: "fst (kmalloc 512 (fs_heap demo_fs)) \<noteq> 0"
  by (simp add: demo_fs_def kmalloc_def heap_area_def kheap_boot_def heap_consts)

lemma demo_first: "get_first_sector_of_cluster c demo_fs = 30 + c"
  by (simp add: get_first_sector_of_cluster_def demo_fs_def bs_sectors_per_cluster_def demo_boot_def byte_at_def nth_append)

subsection \<open>Properties\<close>

text \<open>On a readable finite chain \<^verbatim>\<open>fat32_find_entry\<close> returns, and it returns the first entry of the whole
  directory that is not skipped and whose 8.3 name, in lower case, equals the given name up to case;
  it returns \<open>-ENOENT\<close> exactly when there is none.\<close>

theorem fat32_find_first:
  assumes "hda_ok s" and "fs_inited s" and "fat_chain s c cs" and "cstr_ok name"
  shows "fat32_find_entry c name s =
    Some (case find (\<lambda>d. \<not> de_skip d \<and> map lower (de_name d) = map lower name) (dir_slots s cs) of
       None \<Rightarrow> Inl (- ENOENT) | Some d \<Rightarrow> Inr (fat_entry d))"
  using find_in_chain_spec [OF assms(1,4,3)] assms(2) by (simp add: fat32_find_entry_def)

lemma fat32_find_first_witness:
  "fat32_find_entry 2 (asc ''Hello.txt'') demo_fs =
    Some (case find (\<lambda>d. \<not> de_skip d \<and> map lower (de_name d) = asc ''hello.txt'') (dir_slots demo_fs [2]) of
       None \<Rightarrow> Inl (- ENOENT) | Some d \<Rightarrow> Inr (fat_entry d))"
  using fat32_find_first [OF demo_hda demo_inited demo_chain2, of "asc ''Hello.txt''"]
  by (simp add: asc_def lower_def k_tolower_def)

text \<open>\<^verbatim>\<open>fat32_readdir_index\<close> enumerates the same directory: index \<open>i\<close> is the \<open>i\<close>-th entry that is not
  skipped, and every index behind the last is \<open>-ENOENT\<close>.\<close>

theorem fat32_readdir_nth:
  assumes "hda_ok s" and "fs_inited s" and "fat_chain s c cs"
  shows "fat32_readdir_index c i s =
    (let vs = filter (\<lambda>d. \<not> de_skip d) (dir_slots s cs) in
     Some (if unat i < length vs then Inr (fat_entry (vs ! unat i)) else Inl (- ENOENT)))"
  using nth_in_chain_spec [OF assms(1,3), of "unat i"] assms(2) by (simp add: fat32_readdir_index_def Let_def)

lemma fat32_readdir_nth_witness:
  "fat32_readdir_index 3 7 demo_fs =
    (let vs = filter (\<lambda>d. \<not> de_skip d) (dir_slots demo_fs [3]) in
     Some (if 7 < length vs then Inr (fat_entry (vs ! 7)) else Inl (- ENOENT)))"
  using fat32_readdir_nth [OF demo_hda demo_inited demo_chain3, of 7] by (simp add: Let_def)

text \<open>C14.  Reading file data returns the requested part of the concatenated clusters of the chain, cut at its
  end, and leaves the whole state unchanged: the cluster buffer is allocated and freed again.\<close>

theorem fat32_read_data:
  assumes "fs_wf s" and "geom_ok s" and "fs_inited s" and "fat_chain s c cs"
    and "unat off + 512 * spc s < 2 ^ 32" and "unat sz < 2 ^ 31"
    and "fst (kmalloc (bpc_of s) (fs_heap s)) \<noteq> 0" and "fs_fat s \<in> dom (fs_datas s)"
  shows "fat32_read_file_data c off sz s =
    (let bs = take (unat sz) (drop (unat off) (file_bytes s cs)) in Some (int (length bs), bs, s))"
  using read_file_data_spec [OF assms] .

lemma fat32_read_data_witness:
  "fat32_read_file_data 3 1 3 demo_fs = Some (3, asc ''ell'', demo_fs)"
proof -
  have "geom_ok demo_fs" by (simp add: geom_ok_def demo_hda demo_bps demo_spc)
  moreover have "fs_inited demo_fs" "fs_fat demo_fs \<in> dom (fs_datas demo_fs)" by (simp_all add: demo_fs_def)
  moreover have "take 3 (drop 1 (file_bytes demo_fs [3])) = asc ''ell''"
    by (simp add: file_bytes_def cluster_bytes_def demo_spc demo_first sector_at_def)
      (simp add: demo_fs_def demo_disk_def asc_def)
  ultimately show ?thesis
    using fat32_read_data [OF demo_wf _ _ demo_chain3, of 1 3] demo_bpc demo_room
    by (simp add: demo_spc asc_def Let_def)
qed

end
