(* ===== verification/Fat32Vfs.thy ===== *)
theory Fat32Vfs
  imports Fat32
begin

text \<open>
  The FAT32 driver's node operations, \<^verbatim>\<open>fs/fat32_vfs.c\<close>.  A handler takes the node the pointer
  designates; none of them writes to the node itself.  Console output is left out.

  \<open>ranged_reader\<close> is the contract of a read handler that serves a fixed contents: it returns the part
  of the contents at the offset, so that reading in pieces is reading at once.  It is interpreted on
  this driver here and on the initial RAM disk in \<^verbatim>\<open>Initrd\<close>.
\<close>

definition fat_priv_of :: "vnode \<Rightarrow> fsys \<Rightarrow> fat_priv option" where
  "fat_priv_of n s = fs_privs s (vn_priv n)"

definition fat32_create_node :: "cstr \<Rightarrow> u32 \<Rightarrow> bool \<Rightarrow> u32 \<Rightarrow> fsys \<Rightarrow> (addr \<times> fsys) option" where
  "fat32_create_node name sz is_dir cluster s =
     (let node = vnode0\<lparr>vn_name := name_cut (VFS_NAME_MAX - 1) name, vn_size := sz,
            vn_flags := (if is_dir then VFS_DIRECTORY else VFS_FILE),
            vn_read := Some Fat32_read, vn_write := Some Fat32_write, vn_open := Some Fat32_open,
            vn_close := Some Fat32_close,
            vn_readdir := (if is_dir then Some Fat32_vfs_readdir else None),
            vn_finddir := (if is_dir then Some Fat32_finddir else None)\<rparr>
      in case fs_alloc FAT_PRIV_SIZE s of (pp, s1) \<Rightarrow>
        if pp = 0 then Some (0, s1)
        else let s2 = s1\<lparr>fs_privs := (fs_privs s1)(pp \<mapsto>
                 \<lparr>fp_cluster = cluster, fp_size = sz, fp_pos = 0, fp_is_dir = is_dir\<rparr>)\<rparr> in
          (case fs_alloc VNODE_SIZE s2 of (np, s3) \<Rightarrow>
             if np = 0 then map_option (\<lambda>s4. (0, s4)) (fs_free pp s3)
             else Some (np, s3\<lparr>fs_nodes := (fs_nodes s3)(np \<mapsto> node\<lparr>vn_priv := pp\<rparr>)\<rparr>)))"

definition fat32_read :: "vnode \<Rightarrow> u32 \<Rightarrow> u32 \<Rightarrow> fsys \<Rightarrow> (int \<times> u8 list \<times> fsys) option" where
  "fat32_read node off sz0 s =
     (if vn_priv node = 0 then Some (- EINVAL, [], s)
      else do {
        priv \<leftarrow> fat_priv_of node s;
        if fp_is_dir priv then Some (- EISDIR, [], s)
        else if fp_size priv \<le> off then Some (0, [], s)
        else do {
          let sz = (if fp_size priv < off + sz0 then fp_size priv - off else sz0);
          (r, bs, s1) \<leftarrow> fat32_read_file_data (fp_cluster priv) off sz s;
          if r < 0 then Some (r, bs, s1)
          else do {
            priv1 \<leftarrow> fat_priv_of node s1;
            Some (r, bs, s1\<lparr>fs_privs := (fs_privs s1)(vn_priv node \<mapsto>
                priv1\<lparr>fp_pos := off + word_of_int r\<rparr>)\<rparr>) } } })"

definition fat32_write :: "vnode \<Rightarrow> u32 \<Rightarrow> u8 list \<Rightarrow> fsys \<Rightarrow> int \<times> fsys" where
  "fat32_write node off bs s = (- ENOSYS, s)"

definition fat32_open :: "vnode \<Rightarrow> u32 \<Rightarrow> fsys \<Rightarrow> (int \<times> fsys) option" where
  "fat32_open node flags s =
     (if vn_priv node = 0 then Some (- EINVAL, s)
      else do {
        priv \<leftarrow> fat_priv_of node s;
        Some (0, s\<lparr>fs_privs := (fs_privs s)(vn_priv node \<mapsto> priv\<lparr>fp_pos := 0\<rparr>)\<rparr>) })"

definition fat32_close :: "vnode \<Rightarrow> fsys \<Rightarrow> int \<times> fsys" where
  "fat32_close node s = (if vn_priv node = 0 then (- EINVAL, s) else (0, s))"

text \<open>The static \<^verbatim>\<open>dirent\<close> of the function is the field \<open>fs_fat_dirent\<close>.\<close>

definition fat32_vfs_readdir :: "vnode \<Rightarrow> u32 \<Rightarrow> fsys \<Rightarrow> (vdirent \<times> fsys) option" where
  "fat32_vfs_readdir node idx s =
     (if vn_priv node = 0 then Some (vdirent0, s)
      else do {
        priv \<leftarrow> fat_priv_of node s;
        if \<not> fp_is_dir priv then Some (vdirent0, s)
        else if idx = 0 then
          (let d = \<lparr>vd_name = asc ''.'', vd_size = 0, vd_is_dir = True\<rparr> in Some (d, s\<lparr>fs_fat_dirent := d\<rparr>))
        else if idx = 1 then
          (let d = \<lparr>vd_name = asc ''..'', vd_size = 0, vd_is_dir = True\<rparr> in Some (d, s\<lparr>fs_fat_dirent := d\<rparr>))
        else do {
          r \<leftarrow> fat32_readdir_index (fp_cluster priv) (idx - 2) s;
          (case r of
             Inl _ \<Rightarrow> Some (vdirent0, s)
           | Inr e \<Rightarrow>
               let d = \<lparr>vd_name = name_cut (VFS_NAME_MAX - 1) (fd_name e), vd_size = fd_size e,
                        vd_is_dir = (fd_attr e AND ATTR_DIRECTORY \<noteq> 0)\<rparr>
               in Some (d, s\<lparr>fs_fat_dirent := d\<rparr>)) } })"

text \<open>
  The result is the status and, on success, the pointer stored at \<^verbatim>\<open>*out_node\<close>; \<open>self\<close> is the address
  of the node the handler is called with.  A null pointer from \<^verbatim>\<open>fat32_create_node\<close> is a success.
\<close>

definition fat32_finddir :: "addr \<Rightarrow> vnode \<Rightarrow> cstr \<Rightarrow> fsys \<Rightarrow> (int \<times> addr \<times> fsys) option" where
  "fat32_finddir self node name s =
     (if vn_priv node = 0 then Some (- EINVAL, 0, s)
      else do {
        priv \<leftarrow> fat_priv_of node s;
        if \<not> fp_is_dir priv then Some (- ENOTDIR, 0, s)
        else if name = asc ''.'' then Some (0, self, s)
        else if name = asc ''..'' then Some (0, fs_root_addr s, s)
        else do {
          r \<leftarrow> fat32_find_entry (fp_cluster priv) name s;
          (case r of
             Inl _ \<Rightarrow> Some (- ENOENT, 0, s)
           | Inr e \<Rightarrow> do {
               (p, s1) \<leftarrow> fat32_create_node name (fd_size e) (fd_attr e AND ATTR_DIRECTORY \<noteq> 0) (fd_cluster e) s;
               Some (0, p, s1) }) } })"

definition fat32_mount :: "fsys \<Rightarrow> (addr \<times> fsys) option" where
  "fat32_mount s = do {
     (rc, s1) \<leftarrow> fat32_init s;
     if rc \<noteq> 0 then Some (0, s1)
     else do {
       (root, s2) \<leftarrow> fat32_create_node [] 0 True (bs_root_cluster (fs_boot s1)) s1;
       if root = 0 then Some (0, s2)
       else do {
         n \<leftarrow> node_at root s2;
         s3 \<leftarrow> node_upd root (n\<lparr>vn_name := asc ''/''\<rparr>) s2;
         Some (root, s3) } } }"

text \<open>The node with its cleared \<^verbatim>\<open>priv\<close> pointer is part of the result.\<close>

definition fat32_umount :: "vnode \<Rightarrow> fsys \<Rightarrow> (int \<times> vnode \<times> fsys) option" where
  "fat32_umount node s =
     (if vn_priv node = 0 then Some (- EINVAL, node, s)
      else do { s1 \<leftarrow> fs_free (vn_priv node) s; Some (0, node\<lparr>vn_priv := 0\<rparr>, s1) })"

subsection \<open>Readers of a fixed contents\<close>

locale ranged_reader =
  fixes rd :: "'s \<Rightarrow> u32 \<Rightarrow> u32 \<Rightarrow> (int \<times> u8 list \<times> 's) option"
    and contents :: "'s \<Rightarrow> u8 list"
    and ok :: "'s \<Rightarrow> bool"
  assumes rd_law: "ok s \<Longrightarrow> unat off + unat n < 2 ^ 31 \<Longrightarrow>
      \<exists>s'. rd s off n = Some (int (length (take (unat n) (drop (unat off) (contents s)))),
                              take (unat n) (drop (unat off) (contents s)), s')
        \<and> ok s' \<and> contents s' = contents s"

text \<open>Reading with one handler call per requested size, each at the position the last one reached.\<close>

fun read_chunks :: "('s \<Rightarrow> u32 \<Rightarrow> u32 \<Rightarrow> (int \<times> u8 list \<times> 's) option) \<Rightarrow> u32 list \<Rightarrow> u32 \<Rightarrow> 's
    \<Rightarrow> (u8 list \<times> 's) option" where
  "read_chunks rd [] off s = Some ([], s)"
| "read_chunks rd (n # ns) off s = do {
     (r, bs, s1) \<leftarrow> rd s off n;
     (rest, s2) \<leftarrow> read_chunks rd ns (off + word_of_int r) s1;
     Some (bs @ rest, s2) }"

context ranged_reader begin

lemma chunks:
  "ok s \<Longrightarrow> unat off + sum_list (map unat ns) < 2 ^ 31 \<Longrightarrow>
   \<exists>s'. read_chunks rd ns off s = Some (take (sum_list (map unat ns)) (drop (unat off) (contents s)), s') \<and> ok s'
     \<and> contents s' = contents s"
proof (induction ns arbitrary: off s)
  case (Cons n ns)
  let ?bs = "take (unat n) (drop (unat off) (contents s))"
  have le: "length ?bs \<le> unat n" by simp
  obtain s1 where s1: "rd s off n = Some (int (length ?bs), ?bs, s1)" "ok s1" "contents s1 = contents s"
    using rd_law [OF Cons.prems(1), of off n] Cons.prems(2) by auto
  have ul: "unat (word_of_int (int (length ?bs)) :: u32) = length ?bs"
    using le Cons.prems(2) by (simp add: unat_of_nat)
  have uo: "unat (off + word_of_int (int (length ?bs))) = unat off + length ?bs"
    using le Cons.prems(2) ul by (subst unat_add_small) simp_all
  have b: "unat (off + word_of_int (int (length ?bs))) + sum_list (map unat ns) < 2 ^ 31"
    using Cons.prems(2) le unfolding uo by simp
  obtain s2 where s2: "read_chunks rd ns (off + word_of_int (int (length ?bs))) s1
      = Some (take (sum_list (map unat ns)) (drop (unat off + length ?bs) (contents s)), s2)" "ok s2"
      "contents s2 = contents s"
    using Cons.IH [OF s1(2) b] unfolding uo s1(3) by blast
  have "?bs @ take (sum_list (map unat ns)) (drop (unat off + length ?bs) (contents s))
      = take (unat n + sum_list (map unat ns)) (drop (unat off) (contents s))"
    by (rule take_pieces)
  then show ?case using s1(1) s2 by simp
qed simp

end

text \<open>The contents of a FAT32 file node in a sound state.\<close>

definition fat_file_ok :: "vnode \<Rightarrow> u32 list \<Rightarrow> fsys \<Rightarrow> bool" where
  "fat_file_ok n cs s \<longleftrightarrow> vn_priv n \<noteq> 0 \<and> fs_wf s \<and> geom_ok s \<and> fs_inited s
     \<and> fst (kmalloc (bpc_of s) (fs_heap s)) \<noteq> 0 \<and> fs_fat s \<in> dom (fs_datas s)
     \<and> (case fs_privs s (vn_priv n) of None \<Rightarrow> False
        | Some p \<Rightarrow> \<not> fp_is_dir p \<and> fat_chain s (fp_cluster p) cs \<and> unat (fp_size p) \<le> length (file_bytes s cs))"

definition fat_contents :: "vnode \<Rightarrow> u32 list \<Rightarrow> fsys \<Rightarrow> u8 list" where
  "fat_contents n cs s = (case fs_privs s (vn_priv n) of None \<Rightarrow> []
     | Some p \<Rightarrow> take (unat (fp_size p)) (file_bytes s cs))"

lemma fat_chain_heap_privs:
  fixes s :: fsys and h :: kheap and m :: "addr \<rightharpoonup> fat_priv"
  defines "t \<equiv> s\<lparr>fs_heap := h, fs_privs := m\<rparr>"
  shows "fat_chain t c cs = fat_chain s c cs" "file_bytes t cs = file_bytes s cs"
    "geom_ok t = geom_ok s" "bpc_of t = bpc_of s"
proof -
  have a: "get_first_sector_of_cluster c t = get_first_sector_of_cluster c s" "spc t = spc s"
    "sector_at t = sector_at s" "fat_next c t = fat_next c s" "hda_ok t = hda_ok s" for c
    by (simp_all add: t_def get_first_sector_of_cluster_def spc_def sector_at_def fun_eq_iff fat_next_def hda_ok_def)
  have k: "cluster_ok t c = cluster_ok s c" for c by (simp add: cluster_ok_def a) (simp add: t_def)
  show "fat_chain t c cs = fat_chain s c cs"
    by (induction cs arbitrary: c) (auto simp: a k split: option.splits)
  have b: "cluster_bytes t = cluster_bytes s" by (rule ext) (simp add: cluster_bytes_def a)
  show "file_bytes t cs = file_bytes s cs" by (simp add: file_bytes_def b)
  show "geom_ok t = geom_ok s" "bpc_of t = bpc_of s"
    by (simp_all add: geom_ok_def bpc_of_def a) (simp_all add: t_def)
qed

lemma fat_chain_privs [simp]:
  "fat_chain (s\<lparr>fs_privs := m\<rparr>) c cs = fat_chain s c cs" "file_bytes (s\<lparr>fs_privs := m\<rparr>) cs = file_bytes s cs"
  "geom_ok (s\<lparr>fs_privs := m\<rparr>) = geom_ok s" "bpc_of (s\<lparr>fs_privs := m\<rparr>) = bpc_of s"
  using fat_chain_heap_privs [where s = s and h = "fs_heap s" and m = m] by simp_all

lemma fat_chain_heap [simp]:
  "fat_chain (s\<lparr>fs_heap := h\<rparr>) c cs = fat_chain s c cs" "file_bytes (s\<lparr>fs_heap := h\<rparr>) cs = file_bytes s cs"
  "geom_ok (s\<lparr>fs_heap := h\<rparr>) = geom_ok s" "bpc_of (s\<lparr>fs_heap := h\<rparr>) = bpc_of s"
  using fat_chain_heap_privs [where s = s and h = h and m = "fs_privs s"] by simp_all

lemma fat32_read_law:
  assumes ok: "fat_file_ok n cs s" and b: "unat off + unat k < 2 ^ 31"
  shows "\<exists>s'. fat32_read n off k s = Some (int (length (take (unat k) (drop (unat off) (fat_contents n cs s)))),
      take (unat k) (drop (unat off) (fat_contents n cs s)), s')
    \<and> fat_file_ok n cs s' \<and> fat_contents n cs s' = fat_contents n cs s \<and> fs_open s' = fs_open s"
proof -
  obtain p where p: "fs_privs s (vn_priv n) = Some p" "\<not> fp_is_dir p" "fat_chain s (fp_cluster p) cs"
      "unat (fp_size p) \<le> length (file_bytes s cs)"
    using ok by (auto simp: fat_file_ok_def split: option.splits)
  have c: "fat_contents n cs s = take (unat (fp_size p)) (file_bytes s cs)" using p by (simp add: fat_contents_def)
  have nz: "vn_priv n \<noteq> 0" using ok by (simp add: fat_file_ok_def)
  show ?thesis
  proof (cases "fp_size p \<le> off")
    case True
    then have e: "drop (unat off) (fat_contents n cs s) = []"
      by (simp add: c word_le_nat_alt)
    have "fat32_read n off k s = Some (0, [], s)" using True p nz by (simp add: fat32_read_def fat_priv_of_def)
    then show ?thesis using ok unfolding e by simp
  next
    case False
    let ?k = "if fp_size p < off + k then fp_size p - off else k"
    have add: "unat (off + k) = unat off + unat k" using b by (simp add: unat_add_small)
    have lt: "unat off < unat (fp_size p)" using False by (simp add: word_le_nat_alt)
    then have "unat (fp_size p - off) = unat (fp_size p) - unat off" by (simp add: unat_sub word_le_nat_alt)
    then have k: "unat ?k = min (unat k) (unat (fp_size p) - unat off)"
      using lt by (auto simp: word_less_nat_alt add min_def)
    have off: "unat off + 512 * spc s < 2 ^ 32" using b spc_lt [of s] by simp
    have ks: "unat ?k < 2 ^ 31" using k b by simp
    have bs: "take (unat ?k) (drop (unat off) (file_bytes s cs)) = take (unat k) (drop (unat off) (fat_contents n cs s))"
      using lt p(4) by (simp add: k c drop_take min.commute)
    have rd: "fat32_read_file_data (fp_cluster p) off ?k s
        = (let bs = take (unat ?k) (drop (unat off) (file_bytes s cs)) in Some (int (length bs), bs, s))"
      using ok p(3) off ks by (intro read_file_data_spec) (auto simp: fat_file_ok_def)
    let ?bs = "take (unat k) (drop (unat off) (fat_contents n cs s))"
    let ?s = "s\<lparr>fs_privs := (fs_privs s)(vn_priv n \<mapsto> p\<lparr>fp_pos := off + word_of_int (int (length ?bs))\<rparr>)\<rparr>"
    have "fat32_read n off k s = Some (int (length ?bs), ?bs, ?s)"
      using False p nz rd unfolding bs by (simp add: fat32_read_def fat_priv_of_def Let_def)
    moreover have "dom (fs_privs ?s) = dom (fs_privs s)" using p(1) by auto
    then have "fs_wf ?s" using ok by (simp add: fat_file_ok_def fs_wf_def)
    then have "fat_file_ok n cs ?s" using ok p by (simp add: fat_file_ok_def)
    moreover have "fat_contents n cs ?s = fat_contents n cs s" using p by (simp add: fat_contents_def)
    moreover have "fs_open ?s = fs_open s" by simp
    ultimately show ?thesis by blast
  qed
qed

interpretation fatr: ranged_reader "\<lambda>s off k. fat32_read n off k s" "fat_contents n cs" "fat_file_ok n cs" for n cs
  using fat32_read_law by unfold_locales blast

subsection \<open>Properties\<close>

text \<open>Reading a FAT32 file in pieces of any sizes from any position returns the same bytes as one read of
  the whole range: the file's contents from that position, cut at its size.\<close>

theorem fat32_read_pieces:
  assumes "fat_file_ok n cs s" and "unat off + sum_list (map unat ks) < 2 ^ 31"
  shows "\<exists>s'. read_chunks (\<lambda>s off k. fat32_read n off k s) ks off s
      = Some (take (sum_list (map unat ks)) (drop (unat off) (fat_contents n cs s)), s')
    \<and> fat_file_ok n cs s'"
  using fatr.chunks [OF assms] by blast

text \<open>A node for the file of the small volume.\<close>

definition demo_file_fs :: fsys where
  "demo_file_fs = demo_fs\<lparr>fs_heap := snd (kmalloc 16 (fs_heap demo_fs)),
     fs_privs := [0xC0000028 \<mapsto> \<lparr>fp_cluster = 3, fp_size = 5, fp_pos = 0, fp_is_dir = False\<rparr>]\<rparr>"

definition demo_file :: vnode where
  "demo_file = vnode0\<lparr>vn_name := asc ''hello.txt'', vn_priv := 0xC0000028\<rparr>"

lemma demo_hello: "take 5 (file_bytes demo_fs [3]) = asc ''hello''" "5 \<le> length (file_bytes demo_fs [3])"
  by (simp_all add: file_bytes_def cluster_bytes_def demo_spc demo_first sector_at_def)
    (simp_all add: demo_fs_def demo_disk_def asc_def)

lemma demo_file_ok: "fat_file_ok demo_file [3] demo_file_fs"
proof -
  have "kheap_inv (fs_heap demo_file_fs)"
    using kmalloc_inv [of "fs_heap demo_fs" 16] demo_wf by (simp add: demo_file_fs_def fs_wf_def kmalloc_ok_def)
  moreover have "live (fs_heap demo_file_fs) = {0xC000000C, 0xC0000028}"
    by (auto simp add: demo_file_fs_def demo_fs_def extents_live kmalloc_def heap_area_def kheap_boot_def heap_consts)
  ultimately have wf: "fs_wf demo_file_fs" by (simp add: fs_wf_def) (simp add: demo_file_fs_def demo_fs_def)
  have room: "fst (kmalloc 512 (fs_heap demo_file_fs)) \<noteq> 0"
    by (simp add: demo_file_fs_def demo_fs_def kmalloc_def heap_area_def kheap_boot_def heap_consts)
  have g: "geom_ok demo_fs" by (simp add: geom_ok_def demo_hda demo_bps demo_spc)
  have b: "bpc_of demo_file_fs = 512" by (simp add: demo_file_fs_def demo_bpc)
  have c: "fat_chain demo_file_fs 3 [3]" unfolding demo_file_fs_def fat_chain_privs fat_chain_heap by (rule demo_chain3)
  have g': "geom_ok demo_file_fs" "file_bytes demo_file_fs [3] = file_bytes demo_fs [3]"
    using g by (simp_all add: demo_file_fs_def)
  have p: "fs_privs demo_file_fs 0xC0000028 = Some \<lparr>fp_cluster = 3, fp_size = 5, fp_pos = 0, fp_is_dir = False\<rparr>"
    "fs_inited demo_file_fs" "fs_fat demo_file_fs \<in> dom (fs_datas demo_file_fs)"
    by (simp_all add: demo_file_fs_def demo_inited) (simp add: demo_fs_def)
  show ?thesis using demo_hello(2) room wf
    by (simp add: fat_file_ok_def demo_file_def p b c g' del: fat_chain.simps)
qed

lemma fat32_read_pieces_witness:
  "\<exists>s'. read_chunks (\<lambda>s off k. fat32_read demo_file off k s) [2, 1, 9] 1 demo_file_fs = Some (asc ''ello'', s')"
proof -
  have "take 12 (drop 1 (fat_contents demo_file [3] demo_file_fs)) = asc ''ello''"
    using demo_hello(1) by (simp add: fat_contents_def demo_file_def) (simp add: demo_file_fs_def asc_def)
  then show ?thesis using fat32_read_pieces [OF demo_file_ok, of 1 "[2, 1, 9]"] by auto
qed

end
