(* ===== verification/Initrd.thy ===== *)
theory Initrd
  imports Fat32Vfs CStrings
begin

text \<open>
  The initial RAM disk, \<^verbatim>\<open>kernel/initrd.c\<close>: parsing a ustar archive in memory into a tree of nodes, and
  the node operations of its files.  The image is a byte buffer of the heap; a header's name is
  read as a C string, so a name of 100 bytes runs on into the next field, and a size that leads behind
  the buffer makes \<^verbatim>\<open>memcpy\<close> leave the object, which is \<open>None\<close>.  Serial output is left out.
\<close>

subsection \<open>Fields\<close>

fun tar_parse_octal :: "u8 list \<Rightarrow> u32 \<Rightarrow> u32" where
  "tar_parse_octal [] v = v"
| "tar_parse_octal (c # s) v =
     (if c = 0 then v
      else if c < 48 \<or> 55 < c then v
      else tar_parse_octal s (push_bit 3 v + ucast (c - 48)))"

fun parse_octal :: "u8 list \<Rightarrow> u32 \<Rightarrow> u32" where
  "parse_octal [] v = v"
| "parse_octal (c # s) v =
     (if c = 0 then v
      else if c < 48 \<or> 55 < c then v
      else parse_octal s (v * 8 + ucast (c - 48)))"

definition tar_is_reg :: "u8 \<Rightarrow> bool" where
  "tar_is_reg tf \<longleftrightarrow> tf = 48 \<or> tf = 0"

definition norm_name :: "cstr \<Rightarrow> cstr" where
  "norm_name nm = (if take 2 nm = asc ''./'' then drop 2 nm else nm)"

text \<open>The string that starts at offset \<open>i\<close> of a buffer.\<close>

definition cstr_from :: "u8 list \<Rightarrow> nat \<Rightarrow> cstr option" where
  "cstr_from b i = (if 0 \<in> set (drop i b) then Some (takeWhile (\<lambda>c. c \<noteq> 0) (drop i b)) else None)"

subsection \<open>Directories\<close>

text \<open>The search loop of \<^verbatim>\<open>ensure_dir\<close>; the result 0 is the null pointer.\<close>

partial_function (option) dir_find :: "fsys \<Rightarrow> addr \<Rightarrow> cstr \<Rightarrow> addr option" where
  "dir_find s p name =
     (if p = 0 then Some 0
      else do {
        n \<leftarrow> node_at p s;
        if vn_flags n AND S_IFDIR \<noteq> 0 \<and> vn_name n = name then Some p else dir_find s (vn_next n) name })"

fun ensure_comps :: "addr \<Rightarrow> cstr list \<Rightarrow> fsys \<Rightarrow> (addr \<times> fsys) option" where
  "ensure_comps cur [] s = Some (cur, s)"
| "ensure_comps cur (c # cs) s =
     (let comp = take (VFS_NAME_MAX - 1) c in
      do {
        d \<leftarrow> node_at cur s;
        ch \<leftarrow> dir_find s (vn_children d) comp;
        if ch \<noteq> 0 then ensure_comps ch cs s
        else (case fs_alloc VNODE_SIZE s of (p, s1) \<Rightarrow>
          if p = 0 then Some (cur, s1)
          else
            let node = vnode0\<lparr>vn_name := name_cut (VFS_NAME_MAX - 1) comp, vn_flags := S_IFDIR OR 493,
                  vn_open := Some Tar_open, vn_close := Some Tar_close, vn_readdir := Some Tar_readdir,
                  vn_finddir := Some Tar_finddir, vn_parent := cur\<rparr> in
            do {
              s2 \<leftarrow> vfs_node_add_child cur p (s1\<lparr>fs_nodes := (fs_nodes s1)(p \<mapsto> node)\<rparr>);
              ensure_comps p cs s2 }) })"

fun strip_slashes :: "cstr \<Rightarrow> nat \<Rightarrow> cstr" where
  "strip_slashes p 0 = []"
| "strip_slashes p (Suc len) = (if p ! len = 47 then strip_slashes p len else take (Suc len) p)"

definition ensure_dir :: "addr \<Rightarrow> cstr \<Rightarrow> fsys \<Rightarrow> (addr \<times> fsys) option" where
  "ensure_dir base dirpath s =
     (if base = 0 \<or> dirpath = [] then Some (base, s)
      else
        let tmp = take (VFS_PATH_MAX - 1) dirpath;
            p = (if take 2 tmp = asc ''./'' then drop 2 tmp else tmp);
            q = strip_slashes p (length p) in
        if q = [] then Some (base, s) else ensure_comps base (parts (\<lambda>c. c = 47) q) s)"

subsection \<open>Node operations\<close>

definition tar_read :: "vnode \<Rightarrow> u32 \<Rightarrow> u32 \<Rightarrow> fsys \<Rightarrow> (int \<times> u8 list \<times> fsys) option" where
  "tar_read node offset count s =
     (if vn_data node = 0 \<or> fs_img s = 0 then Some (- EIO, [], s)
      else do {
        meta \<leftarrow> fs_metas s (vn_data node);
        if tm_size meta \<le> offset then Some (0, [], s)
        else
          let remaining = tm_size meta - offset;
              to_read = (if count < remaining then count else remaining) in
          do {
            img \<leftarrow> fs_datas s (fs_img s);
            bs \<leftarrow> buf_read img (unat (tm_data_off meta + offset)) (unat to_read);
            Some (sint to_read, bs, s) } })"

definition tar_open :: "vnode \<Rightarrow> u32 \<Rightarrow> fsys \<Rightarrow> int \<times> fsys" where
  "tar_open node flags s = (0, s)"

definition tar_close :: "vnode \<Rightarrow> fsys \<Rightarrow> int \<times> fsys" where
  "tar_close node s = (0, s)"

definition tar_readdir :: "vnode \<Rightarrow> u32 \<Rightarrow> fsys \<Rightarrow> vdirent \<times> fsys" where
  "tar_readdir node idx s = (vdirent0, s)"

definition tar_finddir :: "vnode \<Rightarrow> cstr \<Rightarrow> fsys \<Rightarrow> int \<times> fsys" where
  "tar_finddir node name s = (- ENOTDIR, s)"

text \<open>The unused reader of the file, which takes its record from \<^verbatim>\<open>priv\<close> and adds before it compares.\<close>

definition tar_read_ram :: "vnode \<Rightarrow> u32 \<Rightarrow> u32 \<Rightarrow> fsys \<Rightarrow> (int \<times> u8 list) option" where
  "tar_read_ram ino off len s = do {
     m \<leftarrow> fs_metas s (vn_priv ino);
     if tm_size m \<le> off then Some (0, [])
     else
       let n = (if tm_size m < off + len then tm_size m - off else len) in
       do {
         img \<leftarrow> fs_datas s (fs_img s);
         bs \<leftarrow> buf_read img (unat (tm_data_off m + off)) (unat n);
         Some (sint n, bs) } }"

subsection \<open>Mounting\<close>

text \<open>The branch for a regular file; \<open>off\<close> is the offset of the header.\<close>

definition tar_file :: "addr \<Rightarrow> cstr \<Rightarrow> u32 \<Rightarrow> u32 \<Rightarrow> u32 \<Rightarrow> fsys \<Rightarrow> fsys option" where
  "tar_file root path sz mode off s =
     (let pth = norm_name path in
      do {
        slash \<leftarrow> k_strrchr (pth @ [0]) 47;
        (let dirpart = (case slash of None \<Rightarrow> [] | Some k \<Rightarrow> take (VFS_PATH_MAX - 1) (take k pth));
             base = (case slash of None \<Rightarrow> name_cut (VFS_NAME_MAX - 1) pth
                     | Some k \<Rightarrow> name_cut (VFS_NAME_MAX - 1) (drop (k + 1) pth)) in
         do {
           (parent0, s1) \<leftarrow> ensure_dir root dirpart s;
           (let parent = (if parent0 = 0 then root else parent0) in
            case fs_alloc VNODE_SIZE s1 of (np, s2) \<Rightarrow>
            if np = 0 then Some s2
            else
              let node = vnode0\<lparr>vn_name := name_cut (VFS_NAME_MAX - 1) base,
                    vn_flags := S_IFREG OR (if mode \<noteq> 0 then mode else 420), vn_size := sz,
                    vn_read := Some Tar_read, vn_open := Some Tar_open, vn_close := Some Tar_close,
                    vn_parent := parent\<rparr>;
                  s3 = s2\<lparr>fs_nodes := (fs_nodes s2)(np \<mapsto> node)\<rparr> in
              (case fs_alloc TAR_META_SIZE s3 of (mp, s4) \<Rightarrow>
                if mp = 0 then fs_free np s4
                else
                  let s5 = s4\<lparr>fs_metas := (fs_metas s4)(mp \<mapsto> \<lparr>tm_size = sz, tm_data_off = off + 512\<rparr>),
                              fs_nodes := (fs_nodes s4)(np \<mapsto> node\<lparr>vn_data := mp\<rparr>)\<rparr> in
                  vfs_node_add_child parent np s5)) }) })"

text \<open>The branch for a directory.\<close>

definition tar_dir :: "addr \<Rightarrow> cstr \<Rightarrow> u32 \<Rightarrow> fsys \<Rightarrow> fsys option" where
  "tar_dir root path mode s = do {
     (d, s1) \<leftarrow> ensure_dir root path s;
     if d = 0 then Some s1
     else do {
       n \<leftarrow> node_at d s1;
       if vn_flags n AND S_IFMT = S_IFDIR \<and> mode \<noteq> 0
       then node_upd d (n\<lparr>vn_flags := (vn_flags n AND S_IFMT) OR mode\<rparr>) s1
       else Some s1 } }"

text \<open>One round of the loop: \<open>None\<close> inside is the end of the archive, otherwise the size is returned.\<close>

definition tar_entry :: "addr \<Rightarrow> u8 list \<Rightarrow> u32 \<Rightarrow> fsys \<Rightarrow> (u32 option \<times> fsys) option" where
  "tar_entry root img off s = do {
     hdr \<leftarrow> buf_read img (unat off) 512;
     if hdr ! 0 = 0 then Some (None, s)
     else
       let sz = parse_octal (take 12 (drop 124 hdr)) 0;
           mode = parse_octal (take 8 (drop 100 hdr)) 0 AND 511;
           tf = hdr ! 156 in
       if tar_is_reg tf then do {
         path \<leftarrow> cstr_from img (unat off);
         s1 \<leftarrow> tar_file root path sz mode off s;
         Some (Some sz, s1) }
       else if tf = 53 then do {
         path \<leftarrow> cstr_from img (unat off);
         s1 \<leftarrow> tar_dir root path mode s;
         Some (Some sz, s1) }
       else Some (Some sz, s) }"

definition tar_next :: "u32 \<Rightarrow> u32 \<Rightarrow> u32" where
  "tar_next off sz = off + (512 + ((sz + 511) AND NOT 511))"

partial_function (option) mount_loop :: "addr \<Rightarrow> u8 list \<Rightarrow> u32 \<Rightarrow> u32 \<Rightarrow> fsys \<Rightarrow> fsys option" where
  "mount_loop root img bytes off s =
     (if off + 512 \<le> bytes then do {
        (r, s1) \<leftarrow> tar_entry root img off s;
        (case r of None \<Rightarrow> Some s1 | Some sz \<Rightarrow> mount_loop root img bytes (tar_next off sz) s1) }
      else Some s)"

definition mount_initrd :: "addr \<Rightarrow> u32 \<Rightarrow> fsys \<Rightarrow> (int \<times> fsys) option" where
  "mount_initrd img bytes s =
     (if img = 0 \<or> bytes < 512 then Some (- EINVAL, s)
      else
        (case fs_alloc VNODE_SIZE (s\<lparr>fs_img := img, fs_img_bytes := bytes\<rparr>) of (root, s1) \<Rightarrow>
         if root = 0 then Some (- ENOMEM, s1)
         else
           let rn = vnode0\<lparr>vn_name := asc ''/'', vn_flags := S_IFDIR OR 493, vn_open := Some Tar_open,
                 vn_close := Some Tar_close, vn_readdir := Some Tar_readdir, vn_finddir := Some Tar_finddir\<rparr> in
           do {
             b \<leftarrow> fs_datas s1 img;
             s2 \<leftarrow> mount_loop root b bytes 0 (s1\<lparr>fs_nodes := (fs_nodes s1)(root \<mapsto> rn)\<rparr>);
             s3 \<leftarrow> vfs_set_root root s2;
             Some (0, s3) }))"

definition initrd_mount_from_block :: "u8 list option \<Rightarrow> u32 \<Rightarrow> u32 \<Rightarrow> u32 \<Rightarrow> fsys \<Rightarrow> (int \<times> fsys) option" where
  "initrd_mount_from_block dev_name start_lba max_sectors max_bytes_cap s =
     (if dev_name = None \<or> max_sectors = 0 then Some (-1, s)
      else
        let max_by_cap_sectors = max_bytes_cap div 512;
            to_read = (if max_by_cap_sectors < max_sectors then max_by_cap_sectors else max_sectors);
            bytes = to_read * 512 in
        if to_read = 0 then Some (-1, s)
        else
          (case alloc_data bytes s of (buf, s1) \<Rightarrow>
           if buf = 0 then Some (-1, s1)
           else do {
             (rc, bs, d) \<leftarrow> blk_read_byname dev_name start_lba to_read True (fs_blk s1) (fs_disk s1);
             old \<leftarrow> fs_datas s1 buf;
             new \<leftarrow> buf_write old 0 bs;
             (let s2 = s1\<lparr>fs_disk := d, fs_datas := (fs_datas s1)(buf \<mapsto> new)\<rparr> in
              if rc \<noteq> 0 then map_option (\<lambda>s3. (rc, s3)) (fs_free buf s2)
              else do {
                (r, s3) \<leftarrow> mount_initrd buf bytes s2;
                if r < 0 then map_option (\<lambda>s4. (-1, s4)) (fs_free buf s3) else Some (0, s3) }) }))"

subsection \<open>Octal fields\<close>

lemma parse_octal_eq: "tar_parse_octal s v = parse_octal s v"
  by (induction s v rule: tar_parse_octal.induct) (simp_all add: push_bit_eq_mult)

fun octal :: "nat \<Rightarrow> nat \<Rightarrow> u8 list" where
  "octal 0 v = []"
| "octal (Suc k) v = octal k (v div 8) @ [48 + of_nat (v mod 8)]"

definition oct_digit :: "u8 \<Rightarrow> bool" where
  "oct_digit c \<longleftrightarrow> 48 \<le> c \<and> c \<le> 55"

lemma octal_digit: "m < 8 \<Longrightarrow> oct_digit (48 + of_nat m) \<and> (48 + of_nat m :: u8) - 48 = of_nat m"
proof -
  assume "m < 8"
  then have "m \<in> {0, 1, 2, 3, 4, 5, 6, 7}" by auto
  then show ?thesis by (auto simp: oct_digit_def)
qed

lemma octal_length [simp]: "length (octal k v) = k"
  by (induction k arbitrary: v) simp_all

lemma octal_digits: "\<forall>c\<in>set (octal k v). oct_digit c"
  by (induction k arbitrary: v) (auto simp: octal_digit)

lemma parse_octal_append:
  "\<forall>c\<in>set xs. oct_digit c \<Longrightarrow> parse_octal (xs @ ys) v = parse_octal ys (parse_octal xs v)"
  by (induction xs arbitrary: v) (auto simp: oct_digit_def word_less_nat_alt word_le_nat_alt)

lemma parse_octal_digit: "m < 8 \<Longrightarrow> parse_octal [48 + of_nat m] v = v * 8 + of_nat m"
proof -
  assume "m < 8"
  then have "m \<in> {0, 1, 2, 3, 4, 5, 6, 7}" by auto
  then show ?thesis by (auto simp: word_less_nat_alt)
qed

lemma parse_octal_octal: "parse_octal (octal k v) w = w * 8 ^ k + of_nat (v mod 8 ^ k)"
proof (induction k arbitrary: v w)
  case (Suc k)
  have "v mod 8 ^ Suc k = v mod 8 + 8 * (v div 8 mod 8 ^ k)"
    by (simp add: mod_mult2_eq)
  then show ?case
    by (simp add: parse_octal_append octal_digits Suc.IH parse_octal_digit algebra_simps del: parse_octal.simps)
qed simp

lemma parse_octal_stop: "parse_octal (0 # r) v = v"
  by simp

text \<open>The bound on the value is that of the number of digits or of the 32-bit result.\<close>

lemma parse_octal_field:
  "v < 8 ^ k \<Longrightarrow> parse_octal (octal k v @ 0 # r) 0 = of_nat v"
  by (simp add: parse_octal_append octal_digits parse_octal_octal)

subsection \<open>Archives\<close>

text \<open>A ustar member as the tools write it, with a header of 512 bytes and padded data.\<close>

definition tar_header :: "cstr \<Rightarrow> nat \<Rightarrow> u8 list" where
  "tar_header nm sz = nm @ replicate (100 - length nm) 0 @ octal 7 420 @ [0] @ replicate 16 0
     @ octal 11 sz @ [0] @ replicate 20 0 @ [48] @ replicate 355 0"

definition tar_pad :: "nat \<Rightarrow> nat" where
  "tar_pad n = (n + 511) div 512 * 512 - n"

definition tar_member :: "cstr \<times> u8 list \<Rightarrow> u8 list" where
  "tar_member f = tar_header (fst f) (length (snd f)) @ snd f @ replicate (tar_pad (length (snd f))) 0"

definition tar_archive :: "(cstr \<times> u8 list) list \<Rightarrow> u8 list" where
  "tar_archive fs = concat (map tar_member fs) @ replicate 512 0"

definition tar_name_ok :: "cstr \<Rightarrow> bool" where
  "tar_name_ok nm \<longleftrightarrow> nm \<noteq> [] \<and> length nm < 100 \<and> cstr_ok nm \<and> 47 \<notin> set nm"

lemma tar_header_length [simp]: "length nm \<le> 100 \<Longrightarrow> length (tar_header nm n) = 512"
  by (simp add: tar_header_def)

lemma tar_header_fields:
  assumes "tar_name_ok nm" and "sz < 8 ^ 11"
  defines "h \<equiv> tar_header nm sz"
  shows "h ! 0 \<noteq> 0" "h ! 156 = 48" "parse_octal (take 12 (drop 124 h)) 0 = of_nat sz"
    "parse_octal (take 8 (drop 100 h)) 0 = 420" "cstr_from (h @ rest) 0 = Some nm"
proof -
  have l: "length nm < 100" "nm \<noteq> []" "cstr_ok nm" using assms(1) by (simp_all add: tar_name_ok_def)
  show "h ! 0 \<noteq> 0" using l by (cases nm) (simp_all add: h_def tar_header_def)
  show "h ! 156 = 48" using l by (simp add: h_def tar_header_def nth_append) arith
  have "take 12 (drop 124 h) = octal 11 sz @ 0 # []"
    using l by (simp add: h_def tar_header_def drop_append take_append)
  then show "parse_octal (take 12 (drop 124 h)) 0 = of_nat sz" by (simp only: parse_octal_field [OF assms(2)])
  have "take 8 (drop 100 h) = octal 7 420 @ 0 # []"
    using l by (simp add: h_def tar_header_def drop_append take_append)
  then show "parse_octal (take 8 (drop 100 h)) 0 = 420" using parse_octal_field [of 420 7 "[]"] by simp
  obtain j where "100 - length nm = Suc j" using l(1) by (metis Suc_diff_Suc)
  then obtain t where t: "h @ rest = nm @ 0 # t" by (simp add: h_def tar_header_def)
  show "cstr_from (h @ rest) 0 = Some nm"
    unfolding t using takeWhile_cstr [of nm t] l(3) by (simp add: cstr_from_def cstr_ok_def)
qed

subsection \<open>Fresh objects\<close>

text \<open>The global root lies below the heap.\<close>

definition root_ok :: "fsys \<Rightarrow> bool" where
  "root_ok s \<longleftrightarrow> fs_root_addr s \<noteq> 0 \<and> unat (fs_root_addr s) < 0xC0000000"

lemma live_high: "kheap_inv h \<Longrightarrow> p \<in> live h \<Longrightarrow> 0xC0000000 \<le> unat p"
  using extents_bounds by (fastforce simp: live_def)

lemma fs_alloc_fresh:
  assumes wf: "fs_wf s" and ok: "kmalloc_ok n" and k: "kmalloc n (fs_heap s) = (p, h)" and p: "p \<noteq> 0"
  shows "fs_alloc n s = (p, s\<lparr>fs_heap := h\<rparr>)" "kheap_inv h" "live h = insert p (live (fs_heap s))"
    "fs_nodes s p = None" "fs_metas s p = None" "fs_datas s p = None" "0xC0000000 \<le> unat p"
proof -
  have inv: "kheap_inv (fs_heap s)" using wf by (simp add: fs_wf_def)
  show h: "kheap_inv h" using kmalloc_inv [OF inv ok] k by simp
  show l: "live h = insert p (live (fs_heap s))" and "fs_alloc n s = (p, s\<lparr>fs_heap := h\<rparr>)"
    using kh.alloc_fresh [OF inv ok] k p by (simp_all add: fs_alloc_def)
  have "p \<notin> live (fs_heap s)" using kh.alloc_fresh [OF inv ok] k p by simp
  then show "fs_nodes s p = None" "fs_metas s p = None" "fs_datas s p = None"
    using wf by (auto simp: fs_wf_def)
  show "0xC0000000 \<le> unat p" using live_high [OF h] l by simp
qed

subsection \<open>Mounted files\<close>

text \<open>The node \<open>n\<close> stands for a file of the image with the given name and data.\<close>

definition tar_node_ok :: "cstr \<Rightarrow> u8 list \<Rightarrow> vnode \<Rightarrow> fsys \<Rightarrow> bool" where
  "tar_node_ok nm d n s \<longleftrightarrow> vn_name n = nm \<and> vn_size n = of_nat (length d) \<and> vn_flags n = S_IFREG OR 420
     \<and> vn_read n = Some Tar_read \<and> vn_open n = Some Tar_open \<and> vn_close n = Some Tar_close
     \<and> vn_finddir n = None \<and> vn_lseek n = None \<and> vn_children n = 0 \<and> vn_data n \<noteq> 0 \<and> fs_img s \<noteq> 0
     \<and> (case fs_metas s (vn_data n) of None \<Rightarrow> False
        | Some m \<Rightarrow> tm_size m = of_nat (length d)
           \<and> (case fs_datas s (fs_img s) of None \<Rightarrow> False
              | Some img \<Rightarrow> length img < 2 ^ 31 \<and> unat (tm_data_off m) + length d \<le> length img
                  \<and> take (length d) (drop (unat (tm_data_off m)) img) = d))"

text \<open>The siblings from \<open>p\<close> on, all with the parent \<open>a\<close>, are the files \<open>fs\<close>.\<close>

fun dir_files :: "fsys \<Rightarrow> addr \<Rightarrow> addr \<Rightarrow> (cstr \<times> u8 list) list \<Rightarrow> bool" where
  "dir_files s a p [] \<longleftrightarrow> p = 0"
| "dir_files s a p (f # fs) \<longleftrightarrow> p \<noteq> 0 \<and> (case fs_nodes s p of None \<Rightarrow> False
     | Some n \<Rightarrow> tar_node_ok (fst f) (snd f) n s \<and> vn_parent n = a \<and> dir_files s a (vn_next n) fs)"

lemma tar_read_law:
  assumes ok: "tar_node_ok nm d n s" and b: "unat off + unat k < 2 ^ 31"
  shows "tar_read n off k s = Some (int (length (take (unat k) (drop (unat off) d))), take (unat k) (drop (unat off) d), s)"
proof -
  obtain m img where m: "fs_metas s (vn_data n) = Some m" "tm_size m = of_nat (length d)"
      "fs_datas s (fs_img s) = Some img" "length img < 2 ^ 31" "unat (tm_data_off m) + length d \<le> length img"
      "take (length d) (drop (unat (tm_data_off m)) img) = d" "vn_data n \<noteq> 0" "fs_img s \<noteq> 0"
    using ok by (auto simp: tar_node_ok_def split: option.splits)
  have l: "unat (tm_size m) = length d" using m(2,4,5) by (simp add: unat_of_nat)
  show ?thesis
  proof (cases "tm_size m \<le> off")
    case True
    then have "length d \<le> unat off" using l by (simp add: word_le_nat_alt)
    then show ?thesis using True m by (simp add: tar_read_def)
  next
    case False
    then have lt: "unat off < length d" using l by (simp add: word_le_nat_alt)
    let ?k = "if k < tm_size m - off then k else tm_size m - off"
    have sub: "unat (tm_size m - off) = length d - unat off"
      using lt l by (simp add: unat_sub word_le_nat_alt)
    have uk: "unat ?k = min (unat k) (length d - unat off)"
      by (auto simp: word_less_nat_alt sub min_def)
    have add: "unat (tm_data_off m + off) = unat (tm_data_off m) + unat off"
      using lt m(4,5) by (simp add: unat_add_small)
    have e: "take (unat ?k) (drop (unat (tm_data_off m + off)) img) = take (unat k) (drop (unat off) d)"
    proof -
      have "drop (unat off) d = take (length d - unat off) (drop (unat (tm_data_off m) + unat off) img)"
        by (subst m(6) [symmetric]) (simp add: drop_take add.commute)
      then show ?thesis unfolding uk add by (simp add: min.commute)
    qed
    have rd: "buf_read img (unat (tm_data_off m + off)) (unat ?k) = Some (take (unat k) (drop (unat off) d))"
      using lt m(5) unfolding buf_read_def e [symmetric] by (simp add: uk add)
    have lk: "length (take (unat k) (drop (unat off) d)) = unat ?k" using uk by simp
    have "unat ?k < 2 ^ 31" using uk b by simp
    from sint_small [OF this] have "sint ?k = int (unat ?k)" by (simp only: of_nat_unat ucast_id)
    then show ?thesis using False m(1,3,7,8) rd unfolding lk tar_read_def Let_def by (simp split del: if_split)
  qed
qed

interpretation tarr: ranged_reader "\<lambda>s off k. tar_read n off k s" "\<lambda>_. d" "tar_node_ok nm d n" for nm d n
  using tar_read_law by unfold_locales blast

lemma dir_files_mono:
  assumes "dir_files s a p fs" and "fs_img s = fs_img t" and "fs_datas s = fs_datas t"
    and "\<And>q n. fs_nodes s q = Some n \<Longrightarrow> vn_flags n = S_IFREG OR 420 \<Longrightarrow> fs_nodes t q = Some n"
    and "\<And>q m. fs_metas s q = Some m \<Longrightarrow> fs_metas t q = Some m"
  shows "dir_files t a p fs"
  using assms(1)
proof (induction fs arbitrary: p)
  case (Cons f fs)
  then obtain n where n: "fs_nodes s p = Some n" "tar_node_ok (fst f) (snd f) n s" "dir_files s a (vn_next n) fs" "p \<noteq> 0"
      "vn_parent n = a"
    by (auto split: option.splits)
  have "fs_nodes t p = Some n" using n(1,2) assms(4) by (simp add: tar_node_ok_def)
  moreover have "tar_node_ok (fst f) (snd f) n t"
    using n(2) assms(2,3,5) by (auto simp: tar_node_ok_def split: option.splits)
  ultimately show ?case using Cons.IH [OF n(3)] n(4,5) by simp
qed simp

text \<open>The search in the list of mounted files finds the first entry of that name.\<close>

lemma dir_files_find:
  assumes "dir_files s a p fs" and "fs_root_addr s \<notin> dom (fs_nodes s)"
  shows "(case map_of fs nm of
      None \<Rightarrow> sib_find s p nm = Some None
    | Some d \<Rightarrow> \<exists>q n. sib_find s p nm = Some (Some (q, n)) \<and> tar_node_ok nm d n s)"
  using assms(1)
proof (induction fs arbitrary: p)
  case Nil
  then show ?case by (simp add: sib_find.simps)
next
  case (Cons f fs)
  then obtain n where n: "fs_nodes s p = Some n" "tar_node_ok (fst f) (snd f) n s" "dir_files s a (vn_next n) fs" "p \<noteq> 0"
      "vn_parent n = a"
    by (auto split: option.splits)
  have at: "node_at p s = Some n" using n assms(2) by (auto simp: node_at_def)
  have nm: "vn_name n = fst f" using n(2) by (simp add: tar_node_ok_def)
  have "sib_find s p nm = (if fst f = nm then Some (Some (p, n)) else sib_find s (vn_next n) nm)"
    using n(4) by (subst sib_find.simps) (simp add: at nm)
  then show ?case using Cons.IH [OF n(3)] n(2) by (cases f) (auto split: option.splits)
qed

subsection \<open>Mounting an archive of files\<close>

text \<open>
  The state while an archive is mounted: \<open>r0\<close> is the root node as it was created, \<open>fs\<close> the files
  so far, the last one first.
\<close>

definition mounting :: "addr \<Rightarrow> vnode \<Rightarrow> fsys \<Rightarrow> (cstr \<times> u8 list) list \<Rightarrow> bool" where
  "mounting root r0 s fs \<longleftrightarrow> fs_wf s \<and> root_ok s \<and> vn_flags r0 = S_IFDIR OR 493
     \<and> (\<exists>c. fs_nodes s root = Some (r0\<lparr>vn_children := c\<rparr>) \<and> dir_files s root c fs)"

lemma mounting_not_root: "mounting root r0 s fs \<Longrightarrow> fs_nodes s q = Some n \<Longrightarrow> q \<noteq> fs_root_addr s"
  using live_high [of "fs_heap s" q] by (force simp: mounting_def fs_wf_def root_ok_def)

lemma reg_not_dir: "S_IFREG OR 420 \<noteq> S_IFDIR OR (493 :: u32)"
  by (simp add: vfs_consts)

lemma strrchr_no_slash: "tar_name_ok nm \<Longrightarrow> k_strrchr (nm @ [0]) 47 = Some None"
proof -
  assume a: "tar_name_ok nm"
  have "sint (c :: u8) = 47 \<Longrightarrow> c = 47" for c
    using signed_word_eqI [of c 47] by simp
  then have "filter (\<lambda>j. sint (nm ! j) = 47) [0..<length nm] = []"
    using a by (auto simp: filter_empty_conv tar_name_ok_def)
  then show ?thesis
    using a k_strrchr_loop_spec [of nm "[]" 47 0 None] by (simp add: k_strrchr_def tar_name_ok_def)
qed

lemma norm_no_slash: "tar_name_ok nm \<Longrightarrow> norm_name nm = nm"
  by (cases nm rule: list.exhaust; cases "tl nm") (auto simp: norm_name_def asc_def tar_name_ok_def)

lemma tar_file_spec:
  assumes m: "mounting root r0 s fs" and nm: "tar_name_ok nm"
    and k1: "kmalloc VNODE_SIZE (fs_heap s) = (p, h1)" "p \<noteq> 0" and k2: "kmalloc TAR_META_SIZE h1 = (q, h2)" "q \<noteq> 0"
    and img: "fs_datas s (fs_img s) = Some img" "fs_img s \<noteq> 0" "length img < 2 ^ 31"
    and d: "unat off + 512 + length d \<le> length img" "take (length d) (drop (unat off + 512) img) = d"
  shows "\<exists>s'. tar_file root nm (of_nat (length d)) 420 off s = Some s' \<and> mounting root r0 s' ((nm, d) # fs)
    \<and> fs_heap s' = h2 \<and> fs_datas s' = fs_datas s \<and> fs_img s' = fs_img s \<and> fs_open s' = fs_open s"
proof -
  obtain c where c: "fs_nodes s root = Some (r0\<lparr>vn_children := c\<rparr>)" "dir_files s root c fs"
    and wf: "fs_wf s" and ro: "root_ok s" "vn_flags r0 = S_IFDIR OR 493" using m by (auto simp: mounting_def)
  have ok: "kmalloc_ok VNODE_SIZE" "kmalloc_ok TAR_META_SIZE" by (simp_all add: kmalloc_ok_def VNODE_SIZE_def TAR_META_SIZE_def)
  note a1 = fs_alloc_fresh [OF wf ok(1) k1]
  obtain node where node: "node = vnode0\<lparr>vn_name := nm, vn_flags := S_IFREG OR 420, vn_size := of_nat (length d),
      vn_read := Some Tar_read, vn_open := Some Tar_open, vn_close := Some Tar_close, vn_parent := root\<rparr>" by blast
  obtain s3 where s3: "s3 = s\<lparr>fs_heap := h1, fs_nodes := (fs_nodes s)(p \<mapsto> node)\<rparr>" by blast
  have wf3: "fs_wf s3" using wf a1(2,3) by (auto simp: fs_wf_def s3)
  have k2': "kmalloc TAR_META_SIZE (fs_heap s3) = (q, h2)" using k2 s3 by simp
  note a2 = fs_alloc_fresh [OF wf3 ok(2) k2' k2(2)]
  obtain s5 where s5: "s5 = s\<lparr>fs_heap := h2, fs_metas := (fs_metas s)(q \<mapsto> \<lparr>tm_size = of_nat (length d), tm_data_off = off + 512\<rparr>),
      fs_nodes := (fs_nodes s)(p \<mapsto> node\<lparr>vn_data := q\<rparr>)\<rparr>" by blast
  have wf5: "fs_wf s5" using wf a1(2,3) a2(2,3) by (auto simp: fs_wf_def s3 s5)
  have ne: "p \<noteq> root" "root \<noteq> 0" "p \<noteq> fs_root_addr s" "root \<noteq> fs_root_addr s"
    using a1(4,7) c(1) ro mounting_not_root [OF m c(1)] wf live_nonzero [of "fs_heap s" root]
    by (auto simp: root_ok_def fs_wf_def)
  obtain s6 where s6: "s6 = s5\<lparr>fs_nodes := (fs_nodes s5)(p \<mapsto> node\<lparr>vn_data := q, vn_next := c\<rparr>, root \<mapsto> r0\<lparr>vn_children := p\<rparr>)\<rparr>" by blast
  have "vfs_node_add_child root p s5 = Some s6"
    using ne k1(2) c(1) by (simp add: vfs_node_add_child_def node_at_def node_upd_def s5 s6)
  moreover have "tar_file root nm (of_nat (length d)) 420 off s = vfs_node_add_child root p s5"
    using k1(2) k2(2) ne(2) a1(1) a2(1) nm
    by (simp add: tar_file_def norm_no_slash strrchr_no_slash ensure_dir_def Let_def s3 [symmetric] node [symmetric]
        name_cut_def VFS_NAME_MAX_def tar_name_ok_def)
      (simp add: s3 s5)
  moreover have "mounting root r0 s6 ((nm, d) # fs)"
  proof -
    have "fs_wf s6" using wf5 c(1) by (auto simp: fs_wf_def s6 s5)
    moreover have "dir_files s6 root c fs"
      using c(2)
    proof (rule dir_files_mono)
      fix x n assume x: "fs_nodes s x = Some n" "vn_flags n = S_IFREG OR 420"
      then have "x \<noteq> p" "x \<noteq> root" using a1(4) c(1) ro(2) reg_not_dir by auto
      then show "fs_nodes s6 x = Some n" using x by (simp add: s6 s5)
    next
      fix x mm assume "fs_metas s x = Some mm"
      then show "fs_metas s6 x = Some mm" using a2(5) by (auto simp: s6 s5 s3)
    qed (simp_all add: s6 s5)
    moreover have "unat (off + 512) = unat off + 512" using d(1) img(3) by (simp add: unat_add_small)
    then have "tar_node_ok nm d (node\<lparr>vn_data := q, vn_next := c\<rparr>) s6"
      using d img k2(2) by (simp add: tar_node_ok_def s6 s5 node vnode0_def)
    ultimately show ?thesis
      using ro k1(2) ne(1) unfolding mounting_def
      by (intro conjI exI [of _ p]) (simp_all add: root_ok_def s6 s5 node)
  qed
  ultimately show ?thesis by (intro exI [of _ s6]) (simp add: s6 s5)
qed

lemma tar_next_unat:
  assumes "unat off + 512 + (n + 511) div 512 * 512 < 2 ^ 32"
  shows "unat (tar_next off (of_nat n)) = unat off + 512 + (n + 511) div 512 * 512"
proof -
  have n: "n + 511 < 2 ^ 32" using assms by linarith
  have m: "(511 :: u32) = mask 9" by (simp add: mask_eq_exp_minus_1)
  have s: "unat (of_nat n + 511 :: u32) = n + 511"
    using n by (simp add: unat_word_ariths unat_of_nat)
  have "unat (drop_bit 9 (of_nat n + 511 :: u32)) = (n + 511) div 512"
    unfolding unat_drop_bit_eq s by (simp add: drop_bit_eq_div)
  then have p: "unat (push_bit 9 (drop_bit 9 (of_nat n + 511 :: u32))) = (n + 511) div 512 * 512"
    using assms by (simp add: push_bit_eq_mult unat_word_ariths)
  have "tar_next off (of_nat n) = off + (512 + push_bit 9 (drop_bit 9 (of_nat n + 511)))"
    unfolding tar_next_def by (subst (2) m) (simp only: and_not_mask)
  then show ?thesis using assms p by (simp add: unat_word_ariths)
qed

lemma tar_pad_sum: "n + tar_pad n = (n + 511) div 512 * 512"
proof -
  have "n \<le> (n + 511) div 512 * 512" by linarith
  then show ?thesis by (simp add: tar_pad_def)
qed

text \<open>One member at \<open>off\<close>.\<close>

lemma tar_entry_member:
  assumes nm: "tar_name_ok (fst f)" and img: "drop (unat off) img = tar_member f @ rest" and l: "length img < 2 ^ 31"
  shows "tar_entry root img off s
      = map_option (\<lambda>s1. (Some (of_nat (length (snd f))), s1)) (tar_file root (fst f) (of_nat (length (snd f))) 420 off s)"
    and "unat off + 512 + length (snd f) \<le> length img"
    and "take (length (snd f)) (drop (unat off + 512) img) = snd f"
    and "drop (unat off + 512 + (length (snd f) + 511) div 512 * 512) img = rest"
    and "unat off + 512 + (length (snd f) + 511) div 512 * 512 \<le> length img"
proof -
  let ?d = "snd f" let ?h = "tar_header (fst f) (length ?d)"
  let ?t = "?d @ replicate (tar_pad (length ?d)) 0 @ rest"
  have lh: "length ?h = 512" using nm by (simp add: tar_name_ok_def)
  have i: "drop (unat off) img = ?h @ ?t" using img by (simp add: tar_member_def)
  then have li: "length img - unat off = 512 + (length ?d + tar_pad (length ?d)) + length rest"
    using lh by (metis (no_types) add.assoc length_append length_drop length_replicate)
  then have lo: "unat off \<le> length img" by linarith
  have "length ?d < 2 ^ 31" using l li by linarith
  then have "length ?d < 8 ^ 11" by simp
  note f = tar_header_fields [OF nm this]
  have b: "buf_read img (unat off) 512 = Some ?h" using i li lh lo by (simp add: buf_read_def)
  have c: "cstr_from img (unat off) = Some (fst f)" using f(5) [of ?t] unfolding i [symmetric] by (simp only: cstr_from_def drop_0)
  have "(420 :: u32) AND 511 = 420" by simp
  then show "tar_entry root img off s
      = map_option (\<lambda>s1. (Some (of_nat (length ?d)), s1)) (tar_file root (fst f) (of_nat (length ?d)) 420 off s)"
    using f(1,2) unfolding tar_entry_def b Let_def
    by (simp add: f(3,4) c tar_is_reg_def map_option_case split: option.splits)
  have dd: "drop (unat off + 512) img = ?t" "drop (unat off + 512 + (length ?d + tar_pad (length ?d))) img = rest"
  proof -
    show t: "drop (unat off + 512) img = ?t"
      using arg_cong [OF i, of "drop 512"] lh by (simp add: add.commute)
    show "drop (unat off + 512 + (length ?d + tar_pad (length ?d))) img = rest"
      using arg_cong [OF t, of "drop (length ?d + tar_pad (length ?d))"] by (simp add: add.commute)
  qed
  show "take (length ?d) (drop (unat off + 512) img) = ?d" unfolding dd(1) by simp
  show "unat off + 512 + length ?d \<le> length img" using li by linarith
  show "drop (unat off + 512 + (length ?d + 511) div 512 * 512) img = rest" using dd(2) tar_pad_sum by simp
  show "unat off + 512 + (length ?d + 511) div 512 * 512 \<le> length img" using li lo tar_pad_sum [of "length ?d"] by linarith
qed

text \<open>Room for the nodes of \<open>n\<close> files.\<close>

fun tar_room :: "nat \<Rightarrow> kheap \<Rightarrow> bool" where
  "tar_room 0 h \<longleftrightarrow> True"
| "tar_room (Suc n) h \<longleftrightarrow> (case kmalloc VNODE_SIZE h of (p, h1) \<Rightarrow>
     (case kmalloc TAR_META_SIZE h1 of (q, h2) \<Rightarrow> p \<noteq> 0 \<and> q \<noteq> 0 \<and> tar_room n h2))"

lemma mount_loop_archive:
  assumes "mounting root r0 s acc" and "\<forall>f\<in>set fs. tar_name_ok (fst f)" and "tar_room (length fs) (fs_heap s)"
    and "fs_datas s (fs_img s) = Some img" "fs_img s \<noteq> 0" "length img < 2 ^ 31"
    and "drop (unat off) img = tar_archive fs @ pad"
  shows "\<exists>s'. mount_loop root img (of_nat (length img)) off s = Some s' \<and> mounting root r0 s' (rev fs @ acc)
    \<and> fs_datas s' = fs_datas s \<and> fs_img s' = fs_img s \<and> fs_open s' = fs_open s"
  using assms
proof (induction fs arbitrary: s acc off)
  case Nil
  then have d: "drop (unat off) img = replicate 512 0 @ pad" by (simp add: tar_archive_def)
  then have l: "length img - unat off = 512 + length pad" by (metis length_append length_drop length_replicate)
  then have "unat off + 512 \<le> length img" by linarith
  then have "unat (off + 512) \<le> length img" using Nil.prems(6) by (simp add: unat_add_small)
  then have b: "off + 512 \<le> of_nat (length img)" using Nil.prems(6) by (simp add: word_le_nat_alt unat_of_nat)
  have "tar_entry root img off s = Some (None, s)" using l d by (simp add: tar_entry_def buf_read_def nth_append)
  then show ?case using b Nil.prems by (subst mount_loop.simps) simp
next
  case (Cons f fs)
  let ?n = "length (snd f)"
  have i: "drop (unat off) img = tar_member f @ (tar_archive fs @ pad)" and nm: "tar_name_ok (fst f)"
    using Cons.prems(2,7) by (simp_all add: tar_archive_def)
  note e = tar_entry_member [OF nm i Cons.prems(6)]
  obtain p h1 q h2 where k: "kmalloc VNODE_SIZE (fs_heap s) = (p, h1)" "p \<noteq> 0" "kmalloc TAR_META_SIZE h1 = (q, h2)" "q \<noteq> 0"
      "tar_room (length fs) h2"
    using Cons.prems(3) by (auto split: prod.splits)
  obtain s1 where s1: "tar_file root (fst f) (of_nat ?n) 420 off s = Some s1" "mounting root r0 s1 (f # acc)"
      "fs_heap s1 = h2" "fs_datas s1 = fs_datas s" "fs_img s1 = fs_img s" "fs_open s1 = fs_open s"
    using tar_file_spec [OF Cons.prems(1) nm k(1-4) Cons.prems(4-6) e(2,3)] by auto
  have u: "unat (tar_next off (of_nat ?n)) = unat off + 512 + (?n + 511) div 512 * 512"
    using e(5) Cons.prems(6) by (intro tar_next_unat le_less_trans [OF e(5)]) simp
  have "unat off + 512 \<le> length img" using e(2) by linarith
  then have "unat (off + 512) \<le> length img" using Cons.prems(6) by (simp add: unat_add_small)
  then have b: "off + 512 \<le> of_nat (length img)" using Cons.prems(6) by (simp add: word_le_nat_alt unat_of_nat)
  have "\<exists>s'. mount_loop root img (of_nat (length img)) (tar_next off (of_nat ?n)) s1 = Some s'
      \<and> mounting root r0 s' (rev fs @ f # acc) \<and> fs_datas s' = fs_datas s1 \<and> fs_img s' = fs_img s1
      \<and> fs_open s' = fs_open s1"
    using s1 k(5) Cons.prems(2,4-6) e(4) by (intro Cons.IH) (simp_all add: u)
  then show ?case using b s1 by (subst mount_loop.simps) (simp add: e(1))
qed

text \<open>The image may go on behind the end of the archive.\<close>

lemma mount_initrd_pad_spec:
  assumes wf: "fs_wf s" and ro: "root_ok s" and nms: "\<forall>f\<in>set fs. tar_name_ok (fst f)"
    and img: "img \<noteq> 0" "fs_datas s img = Some a" "length a < 2 ^ 31"
    and k: "kmalloc VNODE_SIZE (fs_heap s) = (r, h)" "r \<noteq> 0" and room: "tar_room (length fs) h" and arch: "a = tar_archive fs @ pad"
  shows "\<exists>s'. mount_initrd img (of_nat (length a)) s = Some (0, s')
    \<and> fs_wf s' \<and> root_ok s' \<and> dir_files s' r (vn_children (fs_root s')) (rev fs)
    \<and> fs_nodes s' r = Some (fs_root s') \<and> vn_flags (fs_root s') = S_IFDIR OR 493
    \<and> vn_finddir (fs_root s') = Some Tar_finddir \<and> vn_parent (fs_root s') = 0 \<and> fs_open s' = fs_open s"
proof -
  let ?a = a and ?b = "of_nat (length a) :: u32"
  let ?s = "s\<lparr>fs_img := img, fs_img_bytes := ?b\<rparr>"
  have wf': "fs_wf ?s" using wf by (simp add: fs_wf_def)
  have ok: "kmalloc_ok VNODE_SIZE" by (simp add: kmalloc_ok_def VNODE_SIZE_def)
  note al = fs_alloc_fresh [OF wf' ok, of r h] 
  have al: "fs_alloc VNODE_SIZE ?s = (r, ?s\<lparr>fs_heap := h\<rparr>)" "kheap_inv h" "live h = insert r (live (fs_heap s))"
    using al k by simp_all
  obtain rn where rn: "rn = vnode0\<lparr>vn_name := asc ''/'', vn_flags := S_IFDIR OR 493, vn_open := Some Tar_open,
      vn_close := Some Tar_close, vn_readdir := Some Tar_readdir, vn_finddir := Some Tar_finddir\<rparr>" by blast
  obtain s1 where s1: "s1 = ?s\<lparr>fs_heap := h, fs_nodes := (fs_nodes s)(r \<mapsto> rn)\<rparr>" by blast
  have "rn\<lparr>vn_children := 0\<rparr> = rn" by (simp add: rn vnode0_def)
  then have "fs_nodes s1 r = Some (rn\<lparr>vn_children := 0\<rparr>)" by (simp add: s1)
  moreover have "fs_wf s1" using wf al(2,3) by (auto simp: fs_wf_def s1)
  ultimately have m: "mounting r rn s1 []"
    using ro unfolding mounting_def by (intro conjI exI [of _ 0]) (simp_all add: root_ok_def s1 rn)
  have len: "512 \<le> length ?a" by (simp add: arch tar_archive_def)
  have "unat ?b = length ?a" using img(3) by (simp add: unat_of_nat)
  then have b: "\<not> ?b < 512" using len by (simp add: word_less_nat_alt)
  obtain s2 where s2: "mount_loop r ?a ?b 0 s1 = Some s2" "mounting r rn s2 (rev fs)"
      "fs_datas s2 = fs_datas s1" "fs_img s2 = fs_img s1" "fs_open s2 = fs_open s1"
    using mount_loop_archive [OF m nms, of ?a 0 pad] room img arch by (auto simp: s1)
  obtain c where c: "fs_nodes s2 r = Some (rn\<lparr>vn_children := c\<rparr>)" "dir_files s2 r c (rev fs)"
    using s2(2) by (auto simp: mounting_def)
  have "r \<noteq> fs_root_addr s2" by (rule mounting_not_root [OF s2(2) c(1)])
  then have root: "vfs_set_root r s2 = Some (s2\<lparr>fs_root := rn\<lparr>vn_children := c\<rparr>\<rparr>)"
    using c(1) k(2) by (simp add: vfs_set_root_def node_at_def)
  let ?s' = "s2\<lparr>fs_root := rn\<lparr>vn_children := c\<rparr>\<rparr>"
  have "mount_initrd img ?b s = Some (0, ?s')"
    using b img(1,2) k(2) al(1) s2(1) root unfolding mount_initrd_def Let_def
    by (simp add: rn [symmetric]) (simp add: s1)
  moreover have "fs_wf ?s'" "root_ok ?s'" using s2(2) by (simp_all add: mounting_def fs_wf_def root_ok_def)
  moreover have "dir_files ?s' r c (rev fs)" using c(2) by (rule dir_files_mono) simp_all
  moreover have "vn_flags rn = S_IFDIR OR 493" "vn_finddir rn = Some Tar_finddir" "vn_parent rn = 0"
    by (simp_all add: rn vnode0_def)
  moreover have "fs_open s2 = fs_open s" using s2(5) by (simp add: s1)
  ultimately show ?thesis using c(1) by (intro exI [of _ ?s']) simp
qed

lemmas mount_initrd_spec = mount_initrd_pad_spec [OF _ _ _ _ _ _ _ _ _ append_Nil2 [symmetric]]

text \<open>Sizes that bring the offset back to the same header.\<close>

lemma tar_next_stays:
  assumes "0xFFFFFC01 \<le> sz" and "sz \<le> 0xFFFFFE00"
  shows "tar_next off sz = off"
proof -
  have n: "0xFFFFFC01 \<le> unat sz" "unat sz \<le> 0xFFFFFE00" using assms by (simp_all add: word_le_nat_alt)
  have m: "(511 :: u32) = mask 9" by (simp add: mask_eq_exp_minus_1)
  have s: "unat (sz + 511 :: u32) = unat sz + 511" using n by (simp add: unat_word_ariths)
  have "unat (drop_bit 9 (sz + 511)) = 0x7FFFFF"
    unfolding unat_drop_bit_eq s using n by (simp add: drop_bit_eq_div)
  then have "drop_bit 9 (sz + 511) = 0x7FFFFF" by (metis of_nat_numeral of_nat_unat ucast_id)
  then show ?thesis unfolding tar_next_def by (subst (2) m) (simp only: and_not_mask, simp)
qed

lemma tar_entry_size:
  assumes "tar_entry root img off s = Some (r, s1)" and "buf_read img (unat off) 512 = Some hdr" and "hdr ! 0 \<noteq> 0"
  shows "r = Some (parse_octal (take 12 (drop 124 hdr)) 0)"
  using assms by (auto simp: tar_entry_def Let_def bind_eq_Some_conv split: if_splits)

lemma mount_loop_stuck:
  assumes "mount_loop root img bytes off s = Some s'"
  shows "\<not> (off + 512 \<le> bytes \<and> (\<exists>hdr. buf_read img (unat off) 512 = Some hdr \<and> hdr ! 0 \<noteq> 0
    \<and> tar_next off (parse_octal (take 12 (drop 124 hdr)) 0) = off))"
proof (rule mount_loop.raw_induct [OF _ assms])
  fix loop root img bytes off s s'
  assume IH: "\<And>root img bytes off s s'. loop root img bytes off s = Some s' \<Longrightarrow>
      \<not> (off + 512 \<le> bytes \<and> (\<exists>hdr. buf_read img (unat off) 512 = Some hdr \<and> hdr ! 0 \<noteq> 0
        \<and> tar_next off (parse_octal (take 12 (drop 124 hdr)) 0) = off))"
    and r: "(if off + 512 \<le> bytes then do {
        (r, s1) \<leftarrow> tar_entry root img off s;
        (case r of None \<Rightarrow> Some s1 | Some sz \<Rightarrow> loop root img bytes (tar_next off sz) s1) }
      else Some s) = Some (s' :: fsys)"
  show "\<not> (off + 512 \<le> bytes \<and> (\<exists>hdr. buf_read img (unat off) 512 = Some hdr \<and> hdr ! 0 \<noteq> 0
      \<and> tar_next off (parse_octal (take 12 (drop 124 hdr)) 0) = off))"
  proof
    assume a: "off + 512 \<le> bytes \<and> (\<exists>hdr. buf_read img (unat off) 512 = Some hdr \<and> hdr ! 0 \<noteq> 0
      \<and> tar_next off (parse_octal (take 12 (drop 124 hdr)) 0) = off)"
    then obtain hdr where h: "buf_read img (unat off) 512 = Some hdr" "hdr ! 0 \<noteq> 0"
      "tar_next off (parse_octal (take 12 (drop 124 hdr)) 0) = off" by blast
    from r a obtain q s1 where q: "tar_entry root img off s = Some (q, s1)"
      "(case q of None \<Rightarrow> Some s1 | Some sz \<Rightarrow> loop root img bytes (tar_next off sz) s1) = Some s'"
      by (auto simp: bind_eq_Some_conv)
    from q(2) tar_entry_size [OF q(1) h(1,2)] h(3) have "loop root img bytes off s1 = Some s'" by simp
    from IH [OF this] a show False by blast
  qed
qed

subsection \<open>A member never makes the mounting fail\<close>

text \<open>The children of a node, one after the other.\<close>

fun kids :: "(addr \<Rightarrow> vnode option) \<Rightarrow> addr \<Rightarrow> addr list \<Rightarrow> bool" where
  "kids m p [] \<longleftrightarrow> p = 0"
| "kids m p (q # qs) \<longleftrightarrow> p = q \<and> p \<noteq> 0 \<and> (case m p of None \<Rightarrow> False | Some n \<Rightarrow> kids m (vn_next n) qs)"

text \<open>What every round keeps: each node's list of children ends.\<close>

definition mount_safe :: "addr \<Rightarrow> fsys \<Rightarrow> bool" where
  "mount_safe root s \<longleftrightarrow> fs_wf s \<and> root_ok s \<and> root \<noteq> 0 \<and> root \<in> dom (fs_nodes s)
     \<and> (\<forall>a n. fs_nodes s a = Some n \<longrightarrow> (\<exists>qs. kids (fs_nodes s) (vn_children n) qs))"

lemma mount_safe_at:
  assumes "mount_safe root s" and "fs_nodes s a = Some n"
  shows "a \<noteq> 0" "a \<noteq> fs_root_addr s" "node_at a s = Some n" "node_upd a n' s = Some (s\<lparr>fs_nodes := (fs_nodes s)(a \<mapsto> n')\<rparr>)"
proof -
  have l: "kheap_inv (fs_heap s)" "a \<in> live (fs_heap s)" "unat (fs_root_addr s) < 0xC0000000"
    using assms by (auto simp: mount_safe_def fs_wf_def root_ok_def)
  then have h: "0xC0000000 \<le> unat a" using live_high by blast
  then show "a \<noteq> 0" "a \<noteq> fs_root_addr s" using l(3) by auto
  then show "node_at a s = Some n" "node_upd a n' s = Some (s\<lparr>fs_nodes := (fs_nodes s)(a \<mapsto> n')\<rparr>)"
    using assms(2) by (simp_all add: node_at_def node_upd_def)
qed

lemma kids_cong: "kids m p qs \<Longrightarrow> (\<And>q n. q \<in> set qs \<Longrightarrow> m q = Some n \<Longrightarrow> \<exists>n'. m' q = Some n' \<and> vn_next n' = vn_next n) \<Longrightarrow> kids m' p qs"
proof (induction qs arbitrary: p)
  case (Cons q qs)
  then obtain n where n: "p = q" "p \<noteq> 0" "m p = Some n" "kids m (vn_next n) qs" by (auto split: option.splits)
  obtain n' where "m' p = Some n'" "vn_next n' = vn_next n" using Cons.prems(2) [of p n] n(1,3) by auto
  then show ?case using n Cons.IH [OF n(4)] Cons.prems(2) by simp
qed simp

lemma kids_dom: "kids m p qs \<Longrightarrow> set qs \<subseteq> dom m"
  by (induction qs arbitrary: p) (auto split: option.splits)

lemma dir_find_kids:
  "mount_safe root s \<Longrightarrow> kids (fs_nodes s) p qs \<Longrightarrow> \<exists>q. dir_find s p name = Some q \<and> (q = 0 \<or> q \<in> dom (fs_nodes s))"
proof (induction qs arbitrary: p)
  case Nil
  then show ?case by (simp add: dir_find.simps)
next
  case (Cons q qs)
  then obtain n where n: "p \<noteq> 0" "fs_nodes s p = Some n" "kids (fs_nodes s) (vn_next n) qs" by (auto split: option.splits)
  have "dir_find s p name = (if vn_flags n AND S_IFDIR \<noteq> 0 \<and> vn_name n = name then Some p else dir_find s (vn_next n) name)"
    using n(1) mount_safe_at(3) [OF Cons.prems(1) n(2)] by (subst dir_find.simps) simp
  then show ?case using Cons.IH [OF Cons.prems(1) n(3)] n(2) by auto
qed

text \<open>A fresh node is linked to a node that is there.\<close>

lemma mount_safe_link:
  assumes s: "mount_safe root s" and a: "fs_nodes s a = Some na" and p: "fs_nodes s p = None" "p \<noteq> 0" "vn_children node = 0"
    and t: "fs_nodes t = (fs_nodes s)(p \<mapsto> node)" "fs_root_addr t = fs_root_addr s" "fs_wf t"
  obtains u where "vfs_node_add_child a p t = Some u" "mount_safe root u" "dom (fs_nodes u) = insert p (dom (fs_nodes s))"
proof -
  let ?m = "(fs_nodes s)(p \<mapsto> node\<lparr>vn_next := vn_children na\<rparr>, a \<mapsto> na\<lparr>vn_children := p\<rparr>)"
  let ?u = "t\<lparr>fs_nodes := ?m\<rparr>"
  have ne: "a \<noteq> p" using a p(1) by auto
  have "kheap_inv (fs_heap t)" "p \<in> live (fs_heap t)" using t(1,3) by (auto simp: fs_wf_def)
  then have "0xC0000000 \<le> unat p" using live_high by blast
  then have pr: "p \<noteq> fs_root_addr s" using s by (auto simp: mount_safe_def root_ok_def)
  note at = mount_safe_at [OF s a]
  have u: "vfs_node_add_child a p t = Some ?u"
    using at(1,2) ne p(2) pr a t(1,2) by (simp add: vfs_node_add_child_def node_at_def node_upd_def)
  have kk: "kids ?m q qs" if "kids (fs_nodes s) q qs" for q qs
    using kids_dom [OF that] p(1) a ne by (intro kids_cong [OF that]) auto
  have ch: "\<exists>qs. kids ?m (vn_children n) qs" if n: "?m b = Some n" for b n
  proof (cases "b = a")
    case True
    obtain qs where "kids (fs_nodes s) (vn_children na) qs" using s a by (auto simp: mount_safe_def)
    then have "kids ?m p (p # qs)" using kk p(2) ne by simp
    moreover have "vn_children n = p" using n True by auto
    ultimately show ?thesis by (intro exI [of _ "p # qs"]) (simp only:)
  next
    case False
    show ?thesis
    proof (cases "b = p")
      case True
      then show ?thesis using n False p(3) by (auto intro: exI [of _ "[]"])
    next
      case 2: False
      then have "fs_nodes s b = Some n" using n False by simp
      then obtain qs where "kids (fs_nodes s) (vn_children n) qs" using s unfolding mount_safe_def by blast
      from kk [OF this] show ?thesis by blast
    qed
  qed
  have "fs_wf ?u" using t(1,3) a by (auto simp: fs_wf_def)
  then have "mount_safe root ?u" using s t(2) ch by (simp add: mount_safe_def root_ok_def del: fun_upd_apply)
  moreover have "dom (fs_nodes ?u) = insert p (dom (fs_nodes s))" using a by auto
  ultimately show thesis by (rule that [OF u])
qed

lemma vnode_alloc:
  assumes "mount_safe root s" and "fs_alloc VNODE_SIZE s = (p, s1)"
  shows "p = 0 \<Longrightarrow> s1 = s" and "p \<noteq> 0 \<Longrightarrow> fs_nodes s p = None"
    and "p \<noteq> 0 \<Longrightarrow> \<exists>h. kmalloc VNODE_SIZE (fs_heap s) = (p, h) \<and> s1 = s\<lparr>fs_heap := h\<rparr>"
    and "p \<noteq> 0 \<Longrightarrow> fs_wf (s1\<lparr>fs_nodes := (fs_nodes s1)(p \<mapsto> n)\<rparr>)"
proof -
  have wf: "fs_wf s" and ok: "kmalloc_ok VNODE_SIZE" using assms(1) by (simp_all add: mount_safe_def kmalloc_ok_def VNODE_SIZE_def)
  obtain h where k: "kmalloc VNODE_SIZE (fs_heap s) = (p, h)" "s1 = s\<lparr>fs_heap := h\<rparr>"
    using assms(2) by (auto simp: fs_alloc_def split: prod.splits)
  show "p = 0 \<Longrightarrow> s1 = s" using kmalloc_fail [of "fs_heap s" VNODE_SIZE] wf ok k by (simp add: fs_wf_def)
  show "p \<noteq> 0 \<Longrightarrow> \<exists>h. kmalloc VNODE_SIZE (fs_heap s) = (p, h) \<and> s1 = s\<lparr>fs_heap := h\<rparr>" using k by blast
  assume p: "p \<noteq> 0"
  note f = fs_alloc_fresh [OF wf ok k(1) p]
  show "fs_nodes s p = None" using f by blast
  show "fs_wf (s1\<lparr>fs_nodes := (fs_nodes s1)(p \<mapsto> n)\<rparr>)" using wf f(2,3) by (auto simp: fs_wf_def k(2))
qed

lemma ensure_comps_safe:
  "mount_safe root s \<Longrightarrow> fs_nodes s cur \<noteq> None \<Longrightarrow> \<exists>q u. ensure_comps cur cs s = Some (q, u) \<and> mount_safe root u \<and> fs_nodes u q \<noteq> None"
proof (induction cs arbitrary: cur s)
  case Nil
  then show ?case by auto
next
  case (Cons c cs)
  let ?comp = "take (VFS_NAME_MAX - 1) c"
  obtain d where d: "fs_nodes s cur = Some d" using Cons.prems(2) by auto
  note at = mount_safe_at [OF Cons.prems(1) d]
  obtain qs where qs: "kids (fs_nodes s) (vn_children d) qs" using Cons.prems(1) d by (auto simp: mount_safe_def)
  obtain ch where ch: "dir_find s (vn_children d) ?comp = Some ch" "ch = 0 \<or> ch \<in> dom (fs_nodes s)"
    using dir_find_kids [OF Cons.prems(1) qs] by blast
  show ?case
  proof (cases "ch = 0")
    case False
    then have "ensure_comps cur (c # cs) s = ensure_comps ch cs s" using at(3) ch(1) by simp
    then show ?thesis using Cons.IH [OF Cons.prems(1), of ch] ch(2) False by auto
  next
    case True
    obtain p s1 where p: "fs_alloc VNODE_SIZE s = (p, s1)" by fastforce
    note v = vnode_alloc [OF Cons.prems(1) p]
    show ?thesis
    proof (cases "p = 0")
      case True
      then show ?thesis using Cons.prems at(3) ch(1) \<open>ch = 0\<close> p v(1) by auto
    next
      case False
      obtain h where h: "s1 = s\<lparr>fs_heap := h\<rparr>" using v(3) False by blast
      let ?node = "vnode0\<lparr>vn_name := name_cut (VFS_NAME_MAX - 1) ?comp, vn_flags := S_IFDIR OR 493,
                  vn_open := Some Tar_open, vn_close := Some Tar_close, vn_readdir := Some Tar_readdir,
                  vn_finddir := Some Tar_finddir, vn_parent := cur\<rparr>"
      let ?t = "s1\<lparr>fs_nodes := (fs_nodes s1)(p \<mapsto> ?node)\<rparr>"
      have c0: "vn_children ?node = 0" by (simp add: vnode0_def)
      have t: "fs_nodes ?t = (fs_nodes s)(p \<mapsto> ?node)" "fs_root_addr ?t = fs_root_addr s" using h by simp_all
      obtain u where u: "vfs_node_add_child cur p ?t = Some u" "mount_safe root u" "dom (fs_nodes u) = insert p (dom (fs_nodes s))"
        using mount_safe_link [OF Cons.prems(1) d v(2) False c0 t v(4)] False by blast
      have "ensure_comps cur (c # cs) s = ensure_comps p cs u"
        using at(3) ch(1) \<open>ch = 0\<close> p False u(1) by (simp add: Let_def)
      moreover have "fs_nodes u p \<noteq> None" using u(3) by auto
      ultimately show ?thesis using Cons.IH [OF u(2), of p] by simp
    qed
  qed
qed

lemma ensure_dir_safe:
  assumes "mount_safe root s"
  shows "\<exists>q u. ensure_dir root dirpath s = Some (q, u) \<and> mount_safe root u \<and> fs_nodes u q \<noteq> None"
  using ensure_comps_safe [OF assms, of root] assms
  by (auto simp: ensure_dir_def Let_def mount_safe_def)

lemma k_strrchr_returns: "cstr_ok nm \<Longrightarrow> \<exists>r. k_strrchr (nm @ [0]) c = Some r"
  using k_strrchr_loop_spec [of nm "[]" c 0 None] by (simp add: k_strrchr_def)

lemma tar_file_safe:
  assumes s: "mount_safe root s" and nm: "cstr_ok nm"
  shows "\<exists>u. tar_file root nm sz mode off s = Some u \<and> mount_safe root u"
proof -
  have "cstr_ok (norm_name nm)" using nm by (auto simp: norm_name_def cstr_ok_def dest: in_set_dropD)
  then obtain sl where sl: "k_strrchr (norm_name nm @ [0]) 47 = Some sl" using k_strrchr_returns by blast
  let ?dir = "case sl of None \<Rightarrow> [] | Some k \<Rightarrow> take (VFS_PATH_MAX - 1) (take k (norm_name nm))"
  obtain q s1 where q: "ensure_dir root ?dir s = Some (q, s1)" "mount_safe root s1" "fs_nodes s1 q \<noteq> None"
    using ensure_dir_safe [OF s] by blast
  obtain nq where nq: "fs_nodes s1 q = Some nq" using q(3) by auto
  have q0: "q \<noteq> 0" using mount_safe_at(1) [OF q(2) nq] .
  obtain p s2 where p: "fs_alloc VNODE_SIZE s1 = (p, s2)" by fastforce
  note v = vnode_alloc [OF q(2) p]
  show ?thesis
  proof (cases "p = 0")
    case True
    then show ?thesis using q(1,2) q0 sl p v(1) by (auto simp: tar_file_def Let_def)
  next
    case False
    obtain h where h: "kmalloc VNODE_SIZE (fs_heap s1) = (p, h)" "s2 = s1\<lparr>fs_heap := h\<rparr>" using v(3) False by blast
    define node where "node = vnode0\<lparr>vn_name := name_cut (VFS_NAME_MAX - 1) (case sl of None \<Rightarrow> name_cut (VFS_NAME_MAX - 1) (norm_name nm)
        | Some k \<Rightarrow> name_cut (VFS_NAME_MAX - 1) (drop (k + 1) (norm_name nm))),
      vn_flags := S_IFREG OR (if mode \<noteq> 0 then mode else 420), vn_size := sz,
      vn_read := Some Tar_read, vn_open := Some Tar_open, vn_close := Some Tar_close, vn_parent := q\<rparr>"
    let ?s3 = "s2\<lparr>fs_nodes := (fs_nodes s2)(p \<mapsto> node)\<rparr>"
    have wf3: "fs_wf ?s3" using v(4) False by blast
    have ok: "kmalloc_ok TAR_META_SIZE" "kmalloc_ok VNODE_SIZE" by (simp_all add: kmalloc_ok_def TAR_META_SIZE_def VNODE_SIZE_def)
    obtain m h2 where m: "kmalloc TAR_META_SIZE h = (m, h2)" by fastforce
    have a: "fs_alloc TAR_META_SIZE ?s3 = (m, ?s3\<lparr>fs_heap := h2\<rparr>)" using m h(2) by (simp add: fs_alloc_def)
    have e: "tar_file root nm sz mode off s = (if m = 0 then fs_free p (?s3\<lparr>fs_heap := h2\<rparr>)
      else vfs_node_add_child q p (?s3\<lparr>fs_heap := h2, fs_metas := (fs_metas s1)(m \<mapsto> \<lparr>tm_size = sz, tm_data_off = off + 512\<rparr>),
        fs_nodes := (fs_nodes s1)(p \<mapsto> node\<lparr>vn_data := m\<rparr>)\<rparr>))"
      unfolding tar_file_def Let_def sl Option.bind_lunit q(1) prod.case if_not_P [OF q0] p if_not_P [OF False] node_def [symmetric] a
      by (simp add: h(2))
    show ?thesis
    proof (cases "m = 0")
      case True
      have hi: "kheap_inv h" using wf3 h(2) by (simp add: fs_wf_def)
      have "h2 = h" using kmalloc_fail [OF hi ok(1)] m True by simp
      moreover have "kheap_inv (fs_heap s1)" using q(2) by (simp add: mount_safe_def fs_wf_def)
      then have "kfree p h = Some (fs_heap s1)" using kmalloc_kfree_restore [OF _ ok(2)] h(1) False by fastforce
      moreover have "fs_nodes s1 p = None" "fs_privs s1 p = None" "fs_metas s1 p = None" "fs_datas s1 p = None"
        using q(2) v(2) False fs_alloc_fresh [OF _ ok(2) h(1) False] kh.alloc_fresh [OF _ ok(2), of "fs_heap s1"] h(1)
        by (auto simp: mount_safe_def fs_wf_def)
      ultimately have "fs_free p (?s3\<lparr>fs_heap := h2\<rparr>) = Some s1"
        using h(2) by (simp add: fs_free_def map_upd_notin domIff)
      then show ?thesis using e True q(2) by simp
    next
      case 2: False
      let ?t = "?s3\<lparr>fs_heap := h2, fs_metas := (fs_metas s1)(m \<mapsto> \<lparr>tm_size = sz, tm_data_off = off + 512\<rparr>),
        fs_nodes := (fs_nodes s1)(p \<mapsto> node\<lparr>vn_data := m\<rparr>)\<rparr>"
      have m3: "kmalloc TAR_META_SIZE (fs_heap ?s3) = (m, h2)" using m h(2) by simp
      note f = fs_alloc_fresh [OF wf3 ok(1) m3 2]
      have "fs_wf ?t" using wf3 f(2,3) h(2) by (auto simp: fs_wf_def)
      moreover have "vn_children (node\<lparr>vn_data := m\<rparr>) = 0" by (simp add: node_def vnode0_def)
      moreover have "fs_nodes ?t = (fs_nodes s1)(p \<mapsto> node\<lparr>vn_data := m\<rparr>)" "fs_root_addr ?t = fs_root_addr s1" using h(2) by simp_all
      ultimately obtain u where "vfs_node_add_child q p ?t = Some u" "mount_safe root u"
        using mount_safe_link [OF q(2) nq v(2) False] False by blast
      then show ?thesis using e 2 by simp
    qed
  qed
qed

lemma tar_dir_safe:
  assumes s: "mount_safe root s"
  shows "\<exists>u. tar_dir root nm mode s = Some u \<and> mount_safe root u"
proof -
  obtain q s1 where q: "ensure_dir root nm s = Some (q, s1)" "mount_safe root s1" "fs_nodes s1 q \<noteq> None"
    using ensure_dir_safe [OF s] by blast
  obtain n where n: "fs_nodes s1 q = Some n" using q(3) by auto
  note at = mount_safe_at [OF q(2) n]
  let ?m = "(fs_nodes s1)(q \<mapsto> n\<lparr>vn_flags := (vn_flags n AND S_IFMT) OR mode\<rparr>)"
  have k: "kids ?m p qs" if "kids (fs_nodes s1) p qs" for p qs using n by (intro kids_cong [OF that]) auto
  have "mount_safe root (s1\<lparr>fs_nodes := ?m\<rparr>)"
    using q(2) n k by (auto simp: mount_safe_def fs_wf_def root_ok_def) blast+
  then show ?thesis using q(1,2) at by (auto simp: tar_dir_def)
qed

text \<open>A round at a header succeeds, whatever the member is and whether there is room for its node or not.\<close>

lemma tar_entry_safe:
  assumes "mount_safe root s" and "buf_read img (unat off) 512 = Some hdr" and "hdr ! 0 \<noteq> 0"
    and "0 \<in> set (drop (unat off) img)"
  shows "\<exists>u. tar_entry root img off s = Some (Some (parse_octal (take 12 (drop 124 hdr)) 0), u) \<and> mount_safe root u"
proof -
  obtain nm where nm: "cstr_from img (unat off) = Some nm" "cstr_ok nm"
    using assms(4) by (auto simp: cstr_from_def cstr_ok_def dest: set_takeWhileD)
  show ?thesis
    using tar_file_safe [OF assms(1) nm(2)] tar_dir_safe [OF assms(1)] assms(1)
    by (auto simp: tar_entry_def assms(2,3) Let_def nm(1)) (metis option.map_disc_iff bind.bind_lunit)+
qed

text \<open>\<open>k\<close> rounds of the loop, each of which goes on to a next one: where the loop then stands, and the state.\<close>

fun mount_rounds :: "nat \<Rightarrow> addr \<Rightarrow> u8 list \<Rightarrow> u32 \<Rightarrow> u32 \<Rightarrow> fsys \<Rightarrow> (u32 \<times> fsys) option" where
  "mount_rounds 0 root img bytes off s = Some (off, s)"
| "mount_rounds (Suc k) root img bytes off s =
     (if off + 512 \<le> bytes then do {
        (r, s1) \<leftarrow> tar_entry root img off s;
        (case r of None \<Rightarrow> None | Some sz \<Rightarrow> mount_rounds k root img bytes (tar_next off sz) s1) }
      else None)"

lemma mount_loop_rounds: "mount_rounds k root img bytes off s = Some (o2, s2) \<Longrightarrow> mount_loop root img bytes off s = mount_loop root img bytes o2 s2"
proof (induction k arbitrary: off s)
  case (Suc k)
  then obtain sz s1 where r: "off + 512 \<le> bytes" "tar_entry root img off s = Some (Some sz, s1)"
    "mount_rounds k root img bytes (tar_next off sz) s1 = Some (o2, s2)"
    by (auto simp: bind_eq_Some_conv split: if_splits option.splits)
  then show ?case using Suc.IH [OF r(3)] by (subst mount_loop.simps) simp
qed simp

subsection \<open>Properties\<close>

text \<open>A numeric field of \<open>k\<close> octal digits is parsed back to the number it was printed from, by both
  parsers of the file.\<close>

theorem octal_field_parses:
  assumes "v < 8 ^ k"
  shows "parse_octal (octal k v @ 0 # r) 0 = of_nat v \<and> tar_parse_octal (octal k v @ 0 # r) 0 = of_nat v"
  using parse_octal_field [OF assms] by (simp add: parse_octal_eq)

lemma octal_field_parses_witness:
  "parse_octal (octal 11 1234 @ [0]) 0 = 1234"
  using octal_field_parses [of 1234 11 "[]"] by simp

text \<open>C15.  Mounting the archive of a list of files succeeds when the heap has room for the nodes, and then a
  name is found below the new root exactly when the archive has a file of that name; the node
  found is that of the last such file, has its size, and reading it returns its data.\<close>

theorem mount_initrd_files:
  assumes "fs_wf s" and "root_ok s" and "\<forall>f\<in>set fs. tar_name_ok (fst f)"
    and "img \<noteq> 0" and "fs_datas s img = Some (tar_archive fs)" and "length (tar_archive fs) < 2 ^ 31"
    and "kmalloc VNODE_SIZE (fs_heap s) = (r, h)" and "r \<noteq> 0" and "tar_room (length fs) h"
  shows "\<exists>s'. mount_initrd img (of_nat (length (tar_archive fs))) s = Some (0, s')
    \<and> (case map_of (rev fs) nm of
         None \<Rightarrow> sib_find s' (vn_children (fs_root s')) nm = Some None
       | Some d \<Rightarrow> \<exists>q n. sib_find s' (vn_children (fs_root s')) nm = Some (Some (q, n))
           \<and> vn_size n = of_nat (length d)
           \<and> (\<forall>k. length d \<le> unat k \<and> unat k < 2 ^ 31 \<longrightarrow> tar_read n 0 k s' = Some (int (length d), d, s')))"
proof -
  obtain s' where s': "mount_initrd img (of_nat (length (tar_archive fs))) s = Some (0, s')" "fs_wf s'" "root_ok s'"
      "dir_files s' r (vn_children (fs_root s')) (rev fs)"
    using mount_initrd_spec [OF assms] by blast
  have nr: "fs_root_addr s' \<notin> dom (fs_nodes s')"
    using s'(2,3) live_high [of "fs_heap s'"] by (force simp: fs_wf_def root_ok_def)
  have rd: "tar_node_ok nm d n s' \<Longrightarrow> vn_size n = of_nat (length d)
      \<and> (\<forall>k. length d \<le> unat k \<and> unat k < 2 ^ 31 \<longrightarrow> tar_read n 0 k s' = Some (int (length d), d, s'))" for d n
    using tar_read_law [of nm d n s' 0] by (simp add: tar_node_ok_def)
  note f = dir_files_find [OF s'(4) nr, where nm = nm]
  show ?thesis
  proof (cases "map_of (rev fs) nm")
    case None
    with f s'(1) show ?thesis by auto
  next
    case (Some d)
    with f obtain q n where "sib_find s' (vn_children (fs_root s')) nm = Some (Some (q, n))" "tar_node_ok nm d n s'" by auto
    with rd [of d n] s'(1) Some show ?thesis by auto
  qed
qed

definition demo_files :: "(cstr \<times> u8 list) list" where
  "demo_files = [(asc ''a'', asc ''one''), (asc ''motd'', asc ''hello''), (asc ''a'', asc ''two!'')]"

definition demo_rd :: fsys where
  "demo_rd = demo_fs\<lparr>fs_heap := snd (kmalloc 3584 (fs_heap demo_fs)),
     fs_datas := [0xC0000028 \<mapsto> tar_archive demo_files]\<rparr>"

lemma demo_rd_wf: "fs_wf demo_rd"
proof -
  have "kheap_inv (fs_heap demo_rd)"
    using kmalloc_inv [of "fs_heap demo_fs" 3584] demo_wf by (simp add: demo_rd_def fs_wf_def kmalloc_ok_def)
  moreover have "live (fs_heap demo_rd) = {0xC000000C, 0xC0000028}"
    by (auto simp add: demo_rd_def demo_fs_def extents_live kmalloc_def heap_area_def kheap_boot_def heap_consts)
  ultimately show ?thesis by (simp add: fs_wf_def) (simp add: demo_rd_def demo_fs_def)
qed

lemma demo_names: "\<forall>f\<in>set demo_files. tar_name_ok (fst f)"
  by (simp add: demo_files_def tar_name_ok_def asc_def)

lemma demo_archive_length: "length (tar_archive demo_files) = 3584"
  by (simp add: tar_archive_def demo_files_def tar_member_def asc_def tar_pad_def)

lemma mount_initrd_files_witness:
  "\<exists>s' q n. mount_initrd 0xC0000028 3584 demo_rd = Some (0, s')
    \<and> sib_find s' (vn_children (fs_root s')) (asc ''a'') = Some (Some (q, n))
    \<and> tar_read n 0 100 s' = Some (4, asc ''two!'', s')"
proof -
  have r: "root_ok demo_rd" by (simp add: root_ok_def demo_rd_def demo_fs_def)
  have d: "fs_datas demo_rd 0xC0000028 = Some (tar_archive demo_files)" by (simp add: demo_rd_def)
  obtain a h where k: "kmalloc VNODE_SIZE (fs_heap demo_rd) = (a, h)" by fastforce
  have n: "a \<noteq> 0" "tar_room 3 h"
    using k by (auto simp: demo_rd_def demo_fs_def kmalloc_def heap_area_def kheap_boot_def heap_consts VNODE_SIZE_def
        TAR_META_SIZE_def numeral_3_eq_3)
  have m: "map_of (rev demo_files) (asc ''a'') = Some (asc ''two!'')" by (simp add: demo_files_def asc_def)
  have l: "length demo_files = 3" by (simp add: demo_files_def)
  show ?thesis
    using mount_initrd_files [OF demo_rd_wf r demo_names _ d _ k n(1), of "asc ''a''"] n(2)
    unfolding m l by (auto simp: demo_archive_length asc_def)
qed

text \<open>C16.  A header whose size field lies between \<open>0xFFFFFC01\<close> and \<open>0xFFFFFE00\<close> makes the mounting loop read the same header for
  ever.  Whatever the member is (there must be a NUL behind its name), and whether the heap is full or not, each of any number
  of rounds succeeds, stands at the same header again and leaves the file system sound; nothing faults, the loop just does not end.\<close>

theorem mount_loop_spins:
  assumes "mount_safe root s" and "off + 512 \<le> bytes" and "buf_read img (unat off) 512 = Some hdr" and "hdr ! 0 \<noteq> 0"
    and "0 \<in> set (drop (unat off) img)" and "0xFFFFFC01 \<le> parse_octal (take 12 (drop 124 hdr)) 0"
    and "parse_octal (take 12 (drop 124 hdr)) 0 \<le> 0xFFFFFE00"
  shows "(\<forall>k. \<exists>t. mount_rounds k root img bytes off s = Some (off, t) \<and> mount_safe root t) \<and> mount_loop root img bytes off s = None"
proof
  note n = tar_next_stays [OF assms(6,7), of off]
  have "\<exists>t. mount_rounds k root img bytes off s = Some (off, t) \<and> mount_safe root t" if "mount_safe root s" for k s
    using that
  proof (induction k arbitrary: s)
    case (Suc k)
    obtain u where u: "tar_entry root img off s = Some (Some (parse_octal (take 12 (drop 124 hdr)) 0), u)" "mount_safe root u"
      using tar_entry_safe [OF Suc.prems assms(3-5)] by blast
    then show ?case using Suc.IH [OF u(2)] assms(2) n by simp
  qed simp
  then show "\<forall>k. \<exists>t. mount_rounds k root img bytes off s = Some (off, t) \<and> mount_safe root t" using assms(1) by blast
  show "mount_loop root img bytes off s = None"
  proof (rule ccontr)
    assume "mount_loop root img bytes off s \<noteq> None"
    then obtain s' where "mount_loop root img bytes off s = Some s'" by auto
    from mount_loop_stuck [OF this] show False using assms(2-4) n by blast
  qed
qed

lemma mount_loop_spins_witness:
  "\<exists>root s. \<forall>k. \<exists>t. mount_rounds k root (asc ''x'' @ replicate 123 0 @ asc ''37777777000'' @ replicate 377 0) 512 0 s = Some (0, t)"
proof -
  let ?h = "asc ''x'' @ replicate 123 0 @ asc ''37777777000'' @ replicate 377 0"
  let ?s = "demo_rd\<lparr>fs_nodes := [0xC0000028 \<mapsto> vnode0]\<rparr>"
  have l: "live (fs_heap demo_rd) = {0xC000000C, 0xC0000028}"
    by (auto simp add: demo_rd_def demo_fs_def extents_live kmalloc_def heap_area_def kheap_boot_def heap_consts)
  have "fs_wf ?s" using demo_rd_wf l by (simp add: fs_wf_def)
  moreover have "\<exists>qs. kids [0xC0000028 \<mapsto> vnode0] (vn_children vnode0) qs" by (rule exI [of _ "[]"]) (simp add: vnode0_def)
  ultimately have m: "mount_safe 0xC0000028 ?s" by (simp add: mount_safe_def root_ok_def) (simp add: demo_rd_def demo_fs_def)
  have b: "buf_read ?h (unat (0 :: u32)) 512 = Some ?h" by (simp add: buf_read_def asc_def)
  have o: "parse_octal (take 12 (drop 124 ?h)) 0 = 0xFFFFFE00" by (simp add: asc_def)
  have z: "(0 :: u32) + 512 \<le> 512" "?h ! 0 \<noteq> 0" "0 \<in> set (drop (unat (0 :: u32)) ?h)" by (simp_all add: asc_def)
  from mount_loop_spins [OF m z(1) b z(2,3)] show ?thesis unfolding o by (intro exI [of _ "0xC0000028"] exI [of _ ?s]) auto
qed

end
