(* ===== verification/Process.thy ===== *)
theory Process
  imports Initrd
begin

text \<open>
  \<^verbatim>\<open>kernel/process.c\<close>, \<^verbatim>\<open>include/kernel/process.h\<close> and \<^verbatim>\<open>kernel/task.c\<close>: the process list, creation, exit,
  the choice of the next process and the entry into user mode.  \<^verbatim>\<open>process_exec\<close> is in \<open>Elf\<close>.

  A \<^verbatim>\<open>process_t\<close> is a heap object: \<open>ps_procs\<close> maps its address to its members, the list of processes runs
  through the \<^verbatim>\<open>next\<close> members from \<open>ps_list\<close>.  The state contains that of the file system with the
  kernel heap (\<open>ps_fs\<close>) and the bytes of memory that the ELF loader writes (\<open>ps_mem\<close>).

  An operation that leaves the C world says so in its result: \<open>Enter c\<close> is the attempt to load the user
  registers \<open>c\<close> with an \<^verbatim>\<open>iret\<close> (theory \<open>Gdt\<close> has whether the processor accepts them, and what it does otherwise), \<open>Halt\<close> is the endless loop around \<^verbatim>\<open>hlt\<close>, \<open>Back x\<close> is a return.  The registers that
  \<^verbatim>\<open>process_switch\<close> saves come from the record \<open>cpu\<close>.  The page directory functions of the file are
  stubs in the source, too: a clone is the kernel's own directory.
\<close>

subsection \<open>State\<close>

datatype process_state = PROC_NEW | PROC_RUNNING | PROC_READY | PROC_BLOCKED | PROC_TERMINATED

record user_context =
  uc_eip :: u32
  uc_esp :: u32
  uc_eflags :: u32
  uc_cs :: u32
  uc_ss :: u32
  uc_ds :: u32
  uc_es :: u32
  uc_fs :: u32
  uc_gs :: u32

definition uc0 :: user_context where
  "uc0 = \<lparr>uc_eip = 0, uc_esp = 0, uc_eflags = 0, uc_cs = 0, uc_ss = 0, uc_ds = 0, uc_es = 0, uc_fs = 0, uc_gs = 0\<rparr>"

record process =
  pr_pid :: u32
  pr_parent :: u32
  pr_state :: process_state
  pr_esp :: u32
  pr_user_esp :: u32
  pr_page_dir :: addr
  pr_uc :: user_context
  pr_next :: addr
  pr_exit_code :: int

text \<open>A process of zero bytes (\<open>PROC_NEW\<close> is 0) and its size.\<close>

definition process0 :: process where
  "process0 = \<lparr>pr_pid = 0, pr_parent = 0, pr_state = PROC_NEW, pr_esp = 0, pr_user_esp = 0, pr_page_dir = 0,
     pr_uc = uc0, pr_next = 0, pr_exit_code = 0\<rparr>"

definition PROCESS_SIZE :: u32 where "PROCESS_SIZE = 68"

record psys =
  ps_fs :: fsys
  ps_procs :: "addr \<rightharpoonup> process"
  ps_list :: addr
  ps_current :: addr
  ps_next_pid :: u32
  ps_kernel_dir :: addr
  ps_mem :: "addr \<Rightarrow> u8"

record cpu =
  cpu_esp :: u32
  cpu_eflags :: u32
  cpu_ds :: u16
  cpu_es :: u16
  cpu_fs :: u16
  cpu_gs :: u16

datatype 'a flow = Back 'a | Enter user_context | Halt

definition ps_alloc :: "u32 \<Rightarrow> psys \<Rightarrow> addr \<times> psys" where
  "ps_alloc n s = (case fs_alloc n (ps_fs s) of (p, f) \<Rightarrow> (p, s\<lparr>ps_fs := f\<rparr>))"

definition ps_free :: "addr \<Rightarrow> psys \<Rightarrow> psys option" where
  "ps_free p s = do { f \<leftarrow> fs_free p (ps_fs s); Some (s\<lparr>ps_fs := f, ps_procs := (ps_procs s)(p := None)\<rparr>) }"

definition ps_upd :: "addr \<Rightarrow> (process \<Rightarrow> process) \<Rightarrow> psys \<Rightarrow> psys option" where
  "ps_upd p f s = map_option (\<lambda>x. s\<lparr>ps_procs := (ps_procs s)(p \<mapsto> f x)\<rparr>) (ps_procs s p)"

subsection \<open>Creation\<close>

definition clone_directory :: "addr \<Rightarrow> psys \<Rightarrow> addr" where
  "clone_directory src s = ps_kernel_dir s"

definition process_init :: "psys \<Rightarrow> psys" where
  "process_init s = (case ps_alloc PROCESS_SIZE s of (p, s1) \<Rightarrow>
     if p = 0 then s1
     else s1\<lparr>ps_next_pid := ps_next_pid s1 + 1, ps_current := p, ps_list := p,
       ps_procs := (ps_procs s1)(p \<mapsto> process0\<lparr>pr_pid := ps_next_pid s1, pr_state := PROC_RUNNING,
         pr_page_dir := ps_kernel_dir s1\<rparr>)\<rparr>)"

definition process_create :: "psys \<Rightarrow> (addr \<times> psys) option" where
  "process_create s = (case ps_alloc PROCESS_SIZE s of (p, s1) \<Rightarrow>
     if p = 0 then Some (0, s1)
     else do {
       (ppid, pdir) \<leftarrow> (if ps_current s = 0 then Some (0, ps_kernel_dir s)
          else map_option (\<lambda>x. (pr_pid x, pr_page_dir x)) (ps_procs s (ps_current s)));
       let dir = clone_directory pdir s1;
           child = process0\<lparr>pr_pid := ps_next_pid s1, pr_parent := ppid, pr_state := PROC_NEW, pr_page_dir := dir\<rparr>;
           s2 = s1\<lparr>ps_next_pid := ps_next_pid s1 + 1\<rparr> in
       if dir = 0 then do { s3 \<leftarrow> ps_free p s2; Some (0, s3) }
       else Some (p, s2\<lparr>ps_procs := (ps_procs s2)(p \<mapsto> child\<lparr>pr_next := ps_list s2\<rparr>), ps_list := p\<rparr>) })"

subsection \<open>Entering user mode\<close>

text \<open>\<^verbatim>\<open>switch_to_usermode\<close> of \<^verbatim>\<open>kernel/task.c\<close>; \<^verbatim>\<open>fl\<close> is the flags register of the moment.\<close>

definition switch_to_usermode :: "u32 \<Rightarrow> u32 \<Rightarrow> u32 \<Rightarrow> user_context" where
  "switch_to_usermode fl entry_point stack_top =
     \<lparr>uc_eip = entry_point, uc_esp = stack_top, uc_eflags = fl OR 0x200, uc_cs = 0x23, uc_ss = 0x2B,
      uc_ds = 0x2B, uc_es = 0x2B, uc_fs = 0x2B, uc_gs = 0x2B\<rparr>"

definition init_first_process :: "u32 \<Rightarrow> user_context \<times> user_context" where
  "init_first_process fl =
     (let pcb = \<lparr>uc_eip = 0x08048000, uc_esp = 0xE0000000, uc_eflags = 0x200, uc_cs = 0x23, uc_ss = 0x2B,
            uc_ds = 0x2B, uc_es = 0x2B, uc_fs = 0x2B, uc_gs = 0x2B\<rparr> in
      (pcb, switch_to_usermode fl (uc_eip pcb) (uc_esp pcb)))"

subsection \<open>Switching\<close>

definition save_context :: "cpu \<Rightarrow> process \<Rightarrow> process" where
  "save_context c p = p\<lparr>pr_uc := (pr_uc p)\<lparr>uc_eflags := cpu_eflags c, uc_esp := cpu_esp c,
     uc_ds := ucast (cpu_ds c), uc_es := ucast (cpu_es c), uc_fs := ucast (cpu_fs c), uc_gs := ucast (cpu_gs c)\<rparr>\<rparr>"

text \<open>The new stack and instruction pointers are read after the current context was saved.\<close>

definition process_switch :: "cpu \<Rightarrow> addr \<Rightarrow> psys \<Rightarrow> (unit flow \<times> psys) option" where
  "process_switch c nxt s =
     (if nxt = 0 then Some (Halt, s)
      else do {
        s1 \<leftarrow> (if ps_current s = 0 then Some s else ps_upd (ps_current s) (save_context c) s);
        n \<leftarrow> ps_procs s1 nxt;
        Some (Enter \<lparr>uc_eip = uc_eip (pr_uc n), uc_esp = uc_esp (pr_uc n), uc_eflags = cpu_eflags c,
            uc_cs = 0x1B, uc_ss = 0x23, uc_ds = 0x23, uc_es = 0x23, uc_fs = 0x23, uc_gs = 0x23\<rparr>,
          s1\<lparr>ps_current := nxt\<rparr>) })"

partial_function (option) find_ready :: "psys \<Rightarrow> addr \<Rightarrow> addr option" where
  "find_ready s p =
     (if p = 0 then Some 0
      else do { x \<leftarrow> ps_procs s p; if pr_state x = PROC_READY then Some p else find_ready s (pr_next x) })"

definition process_schedule :: "cpu \<Rightarrow> psys \<Rightarrow> (unit flow \<times> psys) option" where
  "process_schedule c s = do {
     nxt \<leftarrow> find_ready s (ps_list s);
     if nxt = 0 then Some (Halt, s) else process_switch c nxt s }"

subsection \<open>Exit\<close>

partial_function (option) adopt_children :: "u32 \<Rightarrow> addr \<Rightarrow> psys \<Rightarrow> psys option" where
  "adopt_children pid p s =
     (if p = 0 then Some s
      else do {
        x \<leftarrow> ps_procs s p;
        adopt_children pid (pr_next x)
          (if pr_parent x = pid then s\<lparr>ps_procs := (ps_procs s)(p \<mapsto> x\<lparr>pr_parent := 1\<rparr>)\<rparr> else s) })"

definition process_exit :: "cpu \<Rightarrow> int \<Rightarrow> psys \<Rightarrow> (unit flow \<times> psys) option" where
  "process_exit c exit_code s =
     (if ps_current s = 0 then Some (Back (), s)
      else do {
        x \<leftarrow> ps_procs s (ps_current s);
        s1 \<leftarrow> ps_upd (ps_current s) (\<lambda>x. x\<lparr>pr_exit_code := exit_code, pr_state := PROC_TERMINATED\<rparr>) s;
        s2 \<leftarrow> adopt_children (pr_pid x) (ps_list s1) s1;
        if pr_pid x = 1 then Some (Halt, s2) else process_schedule c s2 })"

subsection \<open>Lookup and state changes\<close>

definition process_current :: "psys \<Rightarrow> addr" where
  "process_current s = ps_current s"

partial_function (option) proc_walk :: "psys \<Rightarrow> u32 \<Rightarrow> addr \<Rightarrow> addr option" where
  "proc_walk s pid p =
     (if p = 0 then Some 0
      else do { x \<leftarrow> ps_procs s p; if pr_pid x = pid then Some p else proc_walk s pid (pr_next x) })"

definition process_find :: "u32 \<Rightarrow> psys \<Rightarrow> addr option" where
  "process_find pid s = proc_walk s pid (ps_list s)"

definition process_block :: "addr \<Rightarrow> psys \<Rightarrow> psys option" where
  "process_block p s =
     (if p = 0 then Some s
      else ps_upd p (\<lambda>x. if pr_state x = PROC_RUNNING \<or> pr_state x = PROC_READY then x\<lparr>pr_state := PROC_BLOCKED\<rparr> else x) s)"

definition process_unblock :: "addr \<Rightarrow> psys \<Rightarrow> psys option" where
  "process_unblock p s =
     (if p = 0 then Some s
      else ps_upd p (\<lambda>x. if pr_state x = PROC_BLOCKED then x\<lparr>pr_state := PROC_READY\<rparr> else x) s)"

text \<open>The static initialisers; \<^verbatim>\<open>kernel_directory\<close> (\<^verbatim>\<open>kernel/kutils.c\<close>) is never assigned anything else.\<close>

definition process_boot :: "fsys \<Rightarrow> (addr \<Rightarrow> u8) \<Rightarrow> psys" where
  "process_boot f m = \<lparr>ps_fs = f, ps_procs = Map.empty, ps_list = 0, ps_current = 0, ps_next_pid = 1,
     ps_kernel_dir = 0, ps_mem = m\<rparr>"

subsection \<open>The process list\<close>

fun proc_chain :: "psys \<Rightarrow> addr \<Rightarrow> addr list \<Rightarrow> bool" where
  "proc_chain s p [] \<longleftrightarrow> p = 0"
| "proc_chain s p (x # xs) \<longleftrightarrow> p = x \<and> x \<noteq> 0 \<and> (\<exists>t. ps_procs s x = Some t \<and> proc_chain s (pr_next t) xs)"

definition pid_at :: "psys \<Rightarrow> addr \<Rightarrow> u32" where
  "pid_at s p = (case ps_procs s p of None \<Rightarrow> 0 | Some x \<Rightarrow> pr_pid x)"

text \<open>The processes \<open>xs\<close>, newest first, with different identifiers below the next one; the heap is in order.\<close>

definition ps_ok :: "psys \<Rightarrow> addr list \<Rightarrow> bool" where
  "ps_ok s xs \<longleftrightarrow> proc_chain s (ps_list s) xs \<and> distinct xs \<and> dom (ps_procs s) = set xs
     \<and> distinct (map (pid_at s) xs) \<and> (\<forall>p\<in>set xs. pid_at s p < ps_next_pid s)
     \<and> (ps_current s = 0 \<or> ps_current s \<in> set xs)
     \<and> fs_wf (ps_fs s) \<and> set xs \<subseteq> live (fs_heap (ps_fs s))"

lemma chain_mem: "proc_chain s p xs \<Longrightarrow> x \<in> set xs \<Longrightarrow> x \<noteq> 0 \<and> ps_procs s x \<noteq> None"
  by (induction xs arbitrary: p) auto

lemma proc_chain_cong:
  "proc_chain s p xs \<Longrightarrow> (\<And>x. x \<in> set xs \<Longrightarrow> map_option pr_next (ps_procs s' x) = map_option pr_next (ps_procs s x))
   \<Longrightarrow> proc_chain s' p xs"
proof (induction xs arbitrary: p)
  case (Cons x xs)
  then obtain t where t: "p = x" "x \<noteq> 0" "ps_procs s x = Some t" "proc_chain s (pr_next t) xs" by auto
  then obtain t' where "ps_procs s' x = Some t'" "pr_next t' = pr_next t" using Cons.prems(2) [of x] by auto
  then show ?case using t Cons.IH [OF t(4)] Cons.prems(2) by simp
qed simp

lemma walk_find: "proc_chain s p xs \<Longrightarrow> proc_walk s pid p = Some (case find (\<lambda>x. pid_at s x = pid) xs of None \<Rightarrow> 0 | Some x \<Rightarrow> x)"
proof (induction xs arbitrary: p)
  case (Cons x xs)
  then show ?case by (subst proc_walk.simps) (auto simp: pid_at_def)
qed (simp add: proc_walk.simps)

definition is_ready :: "psys \<Rightarrow> addr \<Rightarrow> bool" where
  "is_ready s p \<longleftrightarrow> map_option pr_state (ps_procs s p) = Some PROC_READY"

lemma is_ready_Some: "ps_procs s p = Some t \<Longrightarrow> is_ready s p \<longleftrightarrow> pr_state t = PROC_READY"
  by (simp add: is_ready_def)

lemma ready_find: "proc_chain s p xs \<Longrightarrow> find_ready s p = Some (case find (is_ready s) xs of None \<Rightarrow> 0 | Some x \<Rightarrow> x)"
proof (induction xs arbitrary: p)
  case (Cons x xs)
  then show ?case by (subst find_ready.simps) (auto simp: is_ready_Some)
qed (simp add: find_ready.simps)

text \<open>The identifier decides which process is found.\<close>

lemma find_unique: "distinct (map f xs) \<Longrightarrow> x \<in> set xs \<Longrightarrow> find (\<lambda>y. f y = f x) xs = Some x"
  by (induction xs) (auto simp: rev_image_eqI)

lemma process_find_ok:
  assumes "ps_ok s xs" and "p \<in> set xs"
  shows "process_find (pid_at s p) s = Some p"
  using walk_find [of s "ps_list s" xs "pid_at s p"] find_unique [of "pid_at s" xs p] assms
  by (simp add: process_find_def ps_ok_def)

subsection \<open>Children of a terminated process\<close>

definition adopt :: "u32 \<Rightarrow> process \<Rightarrow> process" where
  "adopt pid x = (if pr_parent x = pid then x\<lparr>pr_parent := 1\<rparr> else x)"

lemma adopt_simps [simp]: "pr_next (adopt pid x) = pr_next x" "pr_state (adopt pid x) = pr_state x"
  "pr_pid (adopt pid x) = pr_pid x" "pr_uc (adopt pid x) = pr_uc x" "pr_exit_code (adopt pid x) = pr_exit_code x"
  by (simp_all add: adopt_def)

lemma adopt_chain:
  "proc_chain s p xs \<Longrightarrow> distinct xs \<Longrightarrow> adopt_children pid p s =
    Some (s\<lparr>ps_procs := (\<lambda>q. if q \<in> set xs then map_option (adopt pid) (ps_procs s q) else ps_procs s q)\<rparr>)"
proof (induction xs arbitrary: p s)
  case Nil
  then show ?case by (simp add: adopt_children.simps)
next
  case (Cons x xs)
  then obtain t where t: "p = x" "x \<noteq> 0" "ps_procs s x = Some t" "proc_chain s (pr_next t) xs" by auto
  let ?s = "s\<lparr>ps_procs := (ps_procs s)(x \<mapsto> adopt pid t)\<rparr>"
  have e: "(if pr_parent t = pid then s\<lparr>ps_procs := (ps_procs s)(x \<mapsto> t\<lparr>pr_parent := 1\<rparr>)\<rparr> else s) = ?s"
    using t(3) by (cases s) (auto simp: adopt_def fun_upd_idem)
  have "proc_chain ?s (pr_next t) xs" using t(4) by (rule proc_chain_cong) (use t(3) in auto)
  from Cons.IH [OF this] Cons.prems(2) have
    "adopt_children pid (pr_next t) ?s = Some (?s\<lparr>ps_procs := (\<lambda>q. if q \<in> set xs then map_option (adopt pid) (ps_procs ?s q) else ps_procs ?s q)\<rparr>)"
    by simp
  moreover have "(\<lambda>q. if q \<in> set xs then map_option (adopt pid) (ps_procs ?s q) else ps_procs ?s q)
      = (\<lambda>q. if q \<in> set (x # xs) then map_option (adopt pid) (ps_procs s q) else ps_procs s q)"
    using Cons.prems(2) t(3) by (auto simp: fun_eq_iff)
  moreover have "adopt_children pid p s = adopt_children pid (pr_next t)
      (if pr_parent t = pid then s\<lparr>ps_procs := (ps_procs s)(x \<mapsto> t\<lparr>pr_parent := 1\<rparr>)\<rparr> else s)"
    using t(1-3) by (subst adopt_children.simps) simp
  ultimately show ?case unfolding e by simp
qed

subsection \<open>Creating\<close>

lemma process_size_ok: "kmalloc_ok PROCESS_SIZE"
  by (simp add: kmalloc_ok_def PROCESS_SIZE_def)

lemma ps_alloc_null: "fs_wf (ps_fs s) \<Longrightarrow> kmalloc_ok n \<Longrightarrow> fst (kmalloc n (fs_heap (ps_fs s))) = 0 \<Longrightarrow> ps_alloc n s = (0, s)"
  using kmalloc_fail [of "fs_heap (ps_fs s)" n]
  by (cases "kmalloc n (fs_heap (ps_fs s))") (simp add: ps_alloc_def fs_alloc_def fs_wf_def)

text \<open>A block that is freed right after its allocation leaves no trace.\<close>

lemma ps_alloc_free:
  assumes wf: "fs_wf (ps_fs s)" and ok: "kmalloc_ok n" and k: "kmalloc n (fs_heap (ps_fs s)) = (p, h)" "p \<noteq> 0"
    and d: "dom (ps_procs s) \<subseteq> live (fs_heap (ps_fs s))"
  shows "ps_alloc n s = (p, s\<lparr>ps_fs := (ps_fs s)\<lparr>fs_heap := h\<rparr>\<rparr>)"
    and "ps_free p (s\<lparr>ps_fs := (ps_fs s)\<lparr>fs_heap := h\<rparr>, ps_next_pid := i\<rparr>) = Some (s\<lparr>ps_next_pid := i\<rparr>)"
    and "p \<notin> live (fs_heap (ps_fs s))"
proof -
  note a = fs_alloc_fresh [OF wf ok k]
  have inv: "kheap_inv (fs_heap (ps_fs s))" using wf by (simp add: fs_wf_def)
  show l: "p \<notin> live (fs_heap (ps_fs s))" using kh.alloc_fresh [OF inv ok] k by simp
  show "ps_alloc n s = (p, s\<lparr>ps_fs := (ps_fs s)\<lparr>fs_heap := h\<rparr>\<rparr>)" using a(1) by (simp add: ps_alloc_def)
  have "kfree p h = Some (fs_heap (ps_fs s))" using kmalloc_kfree_restore [OF inv ok] k by simp
  moreover have "p \<notin> dom (fs_nodes (ps_fs s))" "p \<notin> dom (fs_privs (ps_fs s))" "p \<notin> dom (fs_metas (ps_fs s))"
    "p \<notin> dom (fs_datas (ps_fs s))" "p \<notin> dom (ps_procs s)"
    using l wf d by (auto simp: fs_wf_def)
  ultimately show "ps_free p (s\<lparr>ps_fs := (ps_fs s)\<lparr>fs_heap := h\<rparr>, ps_next_pid := i\<rparr>) = Some (s\<lparr>ps_next_pid := i\<rparr>)"
    by (simp add: ps_free_def fs_free_def map_upd_notin)
qed

lemma create_no_directory:
  assumes ok: "ps_ok s xs" and k: "fst (kmalloc PROCESS_SIZE (fs_heap (ps_fs s))) \<noteq> 0" and d: "ps_kernel_dir s = 0"
  shows "process_create s = Some (0, s\<lparr>ps_next_pid := ps_next_pid s + 1\<rparr>)"
proof -
  obtain p h where ph: "kmalloc PROCESS_SIZE (fs_heap (ps_fs s)) = (p, h)" "p \<noteq> 0" using k by (metis prod.collapse)
  have wf: "fs_wf (ps_fs s)" "dom (ps_procs s) \<subseteq> live (fs_heap (ps_fs s))" using ok by (auto simp: ps_ok_def)
  note a = ps_alloc_free [OF wf(1) process_size_ok ph wf(2)]
  have "ps_current s \<noteq> 0 \<Longrightarrow> \<exists>t. ps_procs s (ps_current s) = Some t" using ok by (auto simp: ps_ok_def)
  then show ?thesis
    using ph(2) d a(2) by (auto simp: process_create_def a(1) clone_directory_def)
qed

lemma create_new:
  assumes ok: "ps_ok s xs" and k: "kmalloc PROCESS_SIZE (fs_heap (ps_fs s)) = (p, h)" "p \<noteq> 0" and d: "ps_kernel_dir s \<noteq> 0"
    and n: "unat (ps_next_pid s) < 2 ^ 32 - 1"
  shows "\<exists>s'. process_create s = Some (p, s') \<and> ps_ok s' (p # xs) \<and> ps_next_pid s' = ps_next_pid s + 1
    \<and> ps_procs s' = (ps_procs s)(p \<mapsto> process0\<lparr>pr_pid := ps_next_pid s, pr_parent := pid_at s (ps_current s),
        pr_page_dir := ps_kernel_dir s, pr_next := ps_list s\<rparr>)"
proof -
  have wf: "fs_wf (ps_fs s)" "dom (ps_procs s) \<subseteq> live (fs_heap (ps_fs s))" using ok by (auto simp: ps_ok_def)
  note a = ps_alloc_free [OF wf(1) process_size_ok k wf(2)]
  have f: "kheap_inv h" "live h = insert p (live (fs_heap (ps_fs s)))" using fs_alloc_fresh [OF wf(1) process_size_ok k] by simp_all
  have "0 \<notin> dom (ps_procs s)"
    using ok wf(1) live_nonzero [of "fs_heap (ps_fs s)" 0] by (auto simp: ps_ok_def fs_wf_def)
  then have z: "ps_procs s 0 = None" by blast
  have cur: "ps_current s \<noteq> 0 \<Longrightarrow> \<exists>t. ps_procs s (ps_current s) = Some t" using ok by (auto simp: ps_ok_def)
  obtain c where c: "c = process0\<lparr>pr_pid := ps_next_pid s, pr_parent := pid_at s (ps_current s),
        pr_page_dir := ps_kernel_dir s, pr_next := ps_list s\<rparr>" by blast
  let ?s = "s\<lparr>ps_fs := (ps_fs s)\<lparr>fs_heap := h\<rparr>, ps_next_pid := ps_next_pid s + 1, ps_procs := (ps_procs s)(p \<mapsto> c), ps_list := p\<rparr>"
  have "process0\<lparr>pr_pid := i, pr_parent := j, pr_state := PROC_NEW, pr_page_dir := e, pr_next := l\<rparr>
      = process0\<lparr>pr_pid := i, pr_parent := j, pr_page_dir := e, pr_next := l\<rparr>" for i j e l by (simp add: process0_def)
  then have "process_create s = Some (p, ?s)"
    using k(2) d cur z by (cases "ps_current s = 0") (auto simp: process_create_def a(1) clone_directory_def c pid_at_def)
  moreover have "ps_ok ?s (p # xs)"
  proof -
    have px: "p \<notin> set xs" using a(3) ok by (auto simp: ps_ok_def)
    have o: "pid_at ?s x = pid_at s x" if "x \<in> set xs" for x using that px by (auto simp: pid_at_def)
    have "proc_chain s (ps_list s) xs" using ok by (simp add: ps_ok_def)
    then have "proc_chain ?s (ps_list s) xs" by (rule proc_chain_cong) (use px in auto)
    then have ch: "proc_chain ?s p (p # xs)" using k(2) by (simp add: c)
    have lt: "ps_next_pid s < ps_next_pid s + 1" using n by (simp add: word_less_nat_alt unat_add_small)
    have pp: "pid_at ?s p = ps_next_pid s" by (simp add: pid_at_def c)
    have m: "map (pid_at ?s) xs = map (pid_at s) xs" using o by simp
    have b: "\<forall>x\<in>set xs. pid_at s x < ps_next_pid s" using ok by (simp add: ps_ok_def)
    have "distinct (map (pid_at ?s) (p # xs))"
      using ok b unfolding list.map m pp by (auto simp: ps_ok_def)
    moreover have "\<forall>x\<in>set (p # xs). pid_at ?s x < ps_next_pid s + 1"
      using b o pp lt by (auto intro: less_trans)
    moreover have "fs_wf ((ps_fs s)\<lparr>fs_heap := h\<rparr>)" using wf(1) f by (auto simp: fs_wf_def)
    ultimately show ?thesis using ok px ch f(2) unfolding ps_ok_def by (auto simp del: proc_chain.simps)
  qed
  ultimately show ?thesis using c by (intro exI [of _ ?s]) simp
qed

subsection \<open>Exit and scheduling\<close>

lemma ready_cong: "(\<And>x. x \<in> set xs \<Longrightarrow> is_ready s' x = is_ready s x) \<Longrightarrow> find (is_ready s') xs = find (is_ready s) xs"
  by (induction xs) auto

text \<open>The registers that \<^verbatim>\<open>process_switch\<close> tries to load for a process whose saved context is \<open>u\<close>.\<close>

definition user_entry :: "cpu \<Rightarrow> user_context \<Rightarrow> user_context" where
  "user_entry c u = \<lparr>uc_eip = uc_eip u, uc_esp = uc_esp u, uc_eflags = cpu_eflags c,
     uc_cs = 0x1B, uc_ss = 0x23, uc_ds = 0x23, uc_es = 0x23, uc_fs = 0x23, uc_gs = 0x23\<rparr>"

lemma switch_other:
  assumes "ps_procs s nxt = Some n" "nxt \<noteq> 0" "ps_current s \<noteq> nxt" "ps_current s \<noteq> 0" "ps_procs s (ps_current s) = Some x"
  shows "process_switch c nxt s = Some (Enter (user_entry c (pr_uc n)),
    s\<lparr>ps_procs := (ps_procs s)(ps_current s \<mapsto> save_context c x), ps_current := nxt\<rparr>)"
  using assms by (simp add: process_switch_def ps_upd_def user_entry_def)

text \<open>The members a process has after the process with identifier \<open>pid\<close> at \<open>cur\<close> exited.\<close>

definition exit_procs :: "addr \<Rightarrow> u32 \<Rightarrow> int \<Rightarrow> psys \<Rightarrow> addr \<Rightarrow> process option" where
  "exit_procs cur pid code s q = map_option (\<lambda>x. adopt pid
     (if q = cur then x\<lparr>pr_exit_code := code, pr_state := PROC_TERMINATED\<rparr> else x)) (ps_procs s q)"

lemma exit_adopts:
  assumes ok: "ps_ok s xs" and cur: "ps_current s = cur" "cur \<in> set xs" "ps_procs s cur = Some x"
  shows "process_exit c code s = (if pr_pid x = 1 then Some (Halt, s\<lparr>ps_procs := exit_procs cur (pr_pid x) code s\<rparr>)
    else process_schedule c (s\<lparr>ps_procs := exit_procs cur (pr_pid x) code s\<rparr>))"
    and "proc_chain (s\<lparr>ps_procs := exit_procs cur (pr_pid x) code s\<rparr>) (ps_list s) xs"
proof -
  let ?u = "\<lambda>x. x\<lparr>pr_exit_code := code, pr_state := PROC_TERMINATED\<rparr>"
  let ?s = "s\<lparr>ps_procs := (ps_procs s)(cur \<mapsto> ?u x)\<rparr>"
  have ch: "proc_chain s (ps_list s) xs" and d: "distinct xs" "dom (ps_procs s) = set xs"
    using ok by (simp_all add: ps_ok_def)
  have ch1: "proc_chain ?s (ps_list s) xs" using ch by (rule proc_chain_cong) (use cur(3) in auto)
  have nz: "cur \<noteq> 0" using chain_mem [OF ch cur(2)] by simp
  have e: "(\<lambda>q. if q \<in> set xs then map_option (adopt (pr_pid x)) (ps_procs ?s q) else ps_procs ?s q) = exit_procs cur (pr_pid x) code s"
  proof
    fix q
    show "(if q \<in> set xs then map_option (adopt (pr_pid x)) (ps_procs ?s q) else ps_procs ?s q) = exit_procs cur (pr_pid x) code s q"
    proof (cases "q \<in> set xs")
      case True
      then show ?thesis using cur(3) by (cases "q = cur"; cases "ps_procs s q") (auto simp: exit_procs_def)
    next
      case False
      then have "ps_procs s q = None" "q \<noteq> cur" using d(2) cur(2) by auto
      then show ?thesis using False by (simp add: exit_procs_def)
    qed
  qed
  have "adopt_children (pr_pid x) (ps_list s) ?s = Some (s\<lparr>ps_procs := exit_procs cur (pr_pid x) code s\<rparr>)"
    using adopt_chain [OF ch1 d(1), of "pr_pid x"] unfolding e by simp
  then show "process_exit c code s = (if pr_pid x = 1 then Some (Halt, s\<lparr>ps_procs := exit_procs cur (pr_pid x) code s\<rparr>)
      else process_schedule c (s\<lparr>ps_procs := exit_procs cur (pr_pid x) code s\<rparr>))"
    using cur nz by (simp add: process_exit_def ps_upd_def)
  show "proc_chain (s\<lparr>ps_procs := exit_procs cur (pr_pid x) code s\<rparr>) (ps_list s) xs"
    using ch by (rule proc_chain_cong) (auto simp: exit_procs_def map_option.compositionality comp_def intro: option.map_cong)
qed

lemma exit_ready:
  "is_ready (s\<lparr>ps_procs := exit_procs cur pid code s\<rparr>) q \<longleftrightarrow> is_ready s q \<and> q \<noteq> cur"
  by (cases "ps_procs s q") (auto simp: is_ready_def exit_procs_def)

subsection \<open>Properties\<close>

text \<open>\<^verbatim>\<open>process_create\<close> returns null and changes nothing when the heap is full, and null, having used up an
  identifier, while \<^verbatim>\<open>kernel_directory\<close> is null, which it is from boot on.  Otherwise it puts a new process in front of
  the list, with the next identifier and the current process as its parent; the processes stay
  distinguishable by their identifiers, and \<^verbatim>\<open>process_find\<close> finds the new one and all the old ones.\<close>

theorem process_create_spec:
  assumes "ps_ok s xs" and "unat (ps_next_pid s) < 2 ^ 32 - 1"
  shows "if fst (kmalloc PROCESS_SIZE (fs_heap (ps_fs s))) = 0 then process_create s = Some (0, s)
    else if ps_kernel_dir s = 0 then process_create s = Some (0, s\<lparr>ps_next_pid := ps_next_pid s + 1\<rparr>)
    else \<exists>p s'. process_create s = Some (p, s') \<and> p \<notin> set xs \<and> ps_ok s' (p # xs)
      \<and> map_option pr_parent (ps_procs s' p) = Some (pid_at s (ps_current s))
      \<and> process_find (ps_next_pid s) s' = Some p
      \<and> (\<forall>q\<in>set xs. ps_procs s' q = ps_procs s q \<and> process_find (pid_at s q) s' = Some q)"
proof -
  have wf: "fs_wf (ps_fs s)" using assms(1) by (simp add: ps_ok_def)
  obtain p h where k: "kmalloc PROCESS_SIZE (fs_heap (ps_fs s)) = (p, h)" by fastforce
  show ?thesis
  proof (cases "p = 0 \<or> ps_kernel_dir s = 0")
    case True
    then show ?thesis
      using k ps_alloc_null [OF wf process_size_ok] create_no_directory [OF assms(1)]
      by (auto simp: process_create_def)
  next
    case False
    then obtain s' where s': "process_create s = Some (p, s')" "ps_ok s' (p # xs)"
        "ps_procs s' = (ps_procs s)(p \<mapsto> process0\<lparr>pr_pid := ps_next_pid s, pr_parent := pid_at s (ps_current s),
          pr_page_dir := ps_kernel_dir s, pr_next := ps_list s\<rparr>)"
      using create_new [OF assms(1) k _ _ assms(2)] by blast
    have px: "p \<notin> set xs" using s'(2) by (simp add: ps_ok_def)
    have "pid_at s' p = ps_next_pid s" using s'(3) by (simp add: pid_at_def)
    then have f: "process_find (ps_next_pid s) s' = Some p" using process_find_ok [OF s'(2), of p] by simp
    have "ps_procs s' q = ps_procs s q \<and> process_find (pid_at s q) s' = Some q" if "q \<in> set xs" for q
    proof -
      have e: "ps_procs s' q = ps_procs s q" using that px s'(3) by auto
      then have "pid_at s' q = pid_at s q" by (simp add: pid_at_def)
      then show ?thesis using process_find_ok [OF s'(2), of q] that e by simp
    qed
    moreover have "map_option pr_parent (ps_procs s' p) = Some (pid_at s (ps_current s))" using s'(3) by simp
    ultimately show ?thesis using False k s'(1,2) f px by auto
  qed
qed

definition demo_ps :: psys where
  "demo_ps = process_init (process_boot (demo_fs\<lparr>fs_heap := heap_area kheap_boot, fs_datas := Map.empty\<rparr>) (\<lambda>_. 0))"

lemma demo_ps_ok: "ps_ok demo_ps [0xC000000C]" "ps_next_pid demo_ps = 2" "ps_kernel_dir demo_ps = 0"
  "fst (kmalloc PROCESS_SIZE (fs_heap (ps_fs demo_ps))) \<noteq> 0"
  "ps_procs demo_ps 0xC000000C = Some (process0\<lparr>pr_pid := 1, pr_state := PROC_RUNNING\<rparr>)" "ps_current demo_ps = 0xC000000C"
proof -
  let ?k = "kmalloc PROCESS_SIZE (heap_area kheap_boot)"
  have h: "kheap_inv (snd ?k)"
    using kmalloc_inv [OF heap_area_inv, of PROCESS_SIZE] by (simp add: process_size_ok)
  have f: "fst ?k = 0xC000000C"
    by (simp add: kmalloc_def heap_area_def kheap_boot_def heap_consts PROCESS_SIZE_def)
  have l: "live (snd ?k) = {0xC000000C}"
    by (simp add: extents_live kmalloc_def heap_area_def kheap_boot_def heap_consts PROCESS_SIZE_def)
  obtain hh where k: "?k = (0xC000000C, hh)" using f by (metis prod.collapse)
  have d: "demo_ps = \<lparr>ps_fs = demo_fs\<lparr>fs_heap := hh, fs_datas := Map.empty\<rparr>, ps_procs = [0xC000000C \<mapsto> process0\<lparr>pr_pid := 1, pr_state := PROC_RUNNING\<rparr>],
      ps_list = 0xC000000C, ps_current = 0xC000000C, ps_next_pid = 2, ps_kernel_dir = 0, ps_mem = \<lambda>_. 0\<rparr>"
    using k by (simp add: demo_ps_def process_init_def process_boot_def ps_alloc_def fs_alloc_def) (simp add: process0_def)
  have "fs_wf (demo_fs\<lparr>fs_heap := hh, fs_datas := Map.empty\<rparr>)" using h k by (simp add: fs_wf_def) (simp add: demo_fs_def)
  then show "ps_ok demo_ps [0xC000000C]" using l k by (simp add: ps_ok_def d pid_at_def) (simp add: process0_def)
  show "ps_next_pid demo_ps = 2" "ps_kernel_dir demo_ps = 0" "ps_current demo_ps = 0xC000000C"
    "ps_procs demo_ps 0xC000000C = Some (process0\<lparr>pr_pid := 1, pr_state := PROC_RUNNING\<rparr>)" by (simp_all add: d)
  have "snd ?k = hh" using k by simp
  moreover have "fst (kmalloc PROCESS_SIZE (snd ?k)) \<noteq> 0"
    by (simp add: kmalloc_def heap_area_def kheap_boot_def heap_consts PROCESS_SIZE_def)
  ultimately show "fst (kmalloc PROCESS_SIZE (fs_heap (ps_fs demo_ps))) \<noteq> 0" by (simp add: d)
qed

lemma process_create_spec_witness:
  "process_create demo_ps = Some (0, demo_ps\<lparr>ps_next_pid := 3\<rparr>)
   \<and> (\<exists>p s'. process_create (demo_ps\<lparr>ps_kernel_dir := 0x105000\<rparr>) = Some (p, s') \<and> process_find 2 s' = Some p
       \<and> process_find 1 s' = Some 0xC000000C)"
proof
  show "process_create demo_ps = Some (0, demo_ps\<lparr>ps_next_pid := 3\<rparr>)"
    using process_create_spec [OF demo_ps_ok(1)] demo_ps_ok by simp
  let ?s = "demo_ps\<lparr>ps_kernel_dir := 0x105000\<rparr>"
  have p: "pid_at ?s x = pid_at demo_ps x" for x by (simp add: pid_at_def)
  have "proc_chain demo_ps (ps_list demo_ps) [0xC000000C]" using demo_ps_ok(1) by (simp add: ps_ok_def)
  then have "proc_chain ?s (ps_list demo_ps) [0xC000000C]" by (rule proc_chain_cong) simp
  then have "ps_ok ?s [0xC000000C]" using demo_ps_ok(1) by (simp add: ps_ok_def p del: proc_chain.simps)
  from process_create_spec [OF this] demo_ps_ok
  show "\<exists>p s'. process_create ?s = Some (p, s') \<and> process_find 2 s' = Some p \<and> process_find 1 s' = Some 0xC000000C"
    by (auto simp: pid_at_def)
qed

text \<open>What an exit does to the processes.\<close>

lemma process_exit_chooses:
  assumes "ps_ok s xs" and "ps_current s = cur" and "cur \<in> set xs" and "ps_procs s cur = Some x" and "pr_pid x \<noteq> 1"
  shows "case find (\<lambda>q. is_ready s q \<and> q \<noteq> cur) xs of
      None \<Rightarrow> process_exit c code s = Some (Halt, s\<lparr>ps_procs := exit_procs cur (pr_pid x) code s\<rparr>)
    | Some q \<Rightarrow> \<exists>n t y. ps_procs s q = Some n \<and> process_exit c code s = Some (Enter (user_entry c (pr_uc n)), t)
        \<and> ps_current t = q \<and> (\<forall>r. r \<noteq> cur \<longrightarrow> ps_procs t r = exit_procs cur (pr_pid x) code s r)
        \<and> ps_procs t cur = Some y \<and> pr_state y = PROC_TERMINATED \<and> pr_exit_code y = code"
proof -
  let ?s = "s\<lparr>ps_procs := exit_procs cur (pr_pid x) code s\<rparr>"
  note e = exit_adopts [OF assms(1-4)]
  have r: "find_ready ?s (ps_list s) = Some (case find (\<lambda>q. is_ready s q \<and> q \<noteq> cur) xs of None \<Rightarrow> 0 | Some q \<Rightarrow> q)"
    using ready_find [OF e(2)] unfolding exit_ready by simp
  have ex: "process_exit c code s = process_schedule c ?s" using e(1) assms(5) by simp
  show ?thesis
  proof (cases "find (\<lambda>q. is_ready s q \<and> q \<noteq> cur) xs")
    case None
    then show ?thesis using ex r by (simp add: process_schedule_def)
  next
    case (Some q)
    then have q: "is_ready s q" "q \<noteq> cur" "q \<in> set xs" by (auto simp: find_Some_iff)
    then obtain n where n: "ps_procs s q = Some n" by (auto simp: is_ready_def)
    have nz: "q \<noteq> 0" "cur \<noteq> 0" using chain_mem [of s "ps_list s" xs] q(3) assms(1,3) by (auto simp: ps_ok_def)
    obtain m where m: "exit_procs cur (pr_pid x) code s q = Some m" "pr_uc m = pr_uc n"
      using n q(2) by (simp add: exit_procs_def)
    obtain y where y: "exit_procs cur (pr_pid x) code s cur = Some y" "pr_state y = PROC_TERMINATED" "pr_exit_code y = code"
      using assms(4) by (simp add: exit_procs_def)
    have "process_schedule c ?s = process_switch c q ?s" using r Some nz by (simp add: process_schedule_def)
    also have "\<dots> = Some (Enter (user_entry c (pr_uc n)),
        ?s\<lparr>ps_procs := (exit_procs cur (pr_pid x) code s)(cur \<mapsto> save_context c y), ps_current := q\<rparr>)"
      using switch_other [of ?s q m y c] m y nz q(2) assms(2) by simp
    finally show ?thesis using ex n Some y(2,3) by (simp add: save_context_def)
  qed
qed

definition demo_two :: psys where
  "demo_two = \<lparr>ps_fs = demo_fs\<lparr>fs_heap := snd (kmalloc 68 (snd (kmalloc 68 (heap_area kheap_boot)))), fs_datas := Map.empty\<rparr>,
     ps_procs = [0xC000000C \<mapsto> process0\<lparr>pr_pid := 1, pr_state := PROC_READY, pr_uc := uc0\<lparr>uc_eip := 0x1000, uc_esp := 0x3FF000\<rparr>\<rparr>,
       0xC000005C \<mapsto> process0\<lparr>pr_pid := 2, pr_parent := 1, pr_state := PROC_RUNNING, pr_next := 0xC000000C\<rparr>],
     ps_list = 0xC000005C, ps_current = 0xC000005C, ps_next_pid = 3, ps_kernel_dir = 0x105000, ps_mem = \<lambda>_. 0\<rparr>"

lemma demo_two_ok: "ps_ok demo_two [0xC000005C, 0xC000000C]"
proof -
  let ?h = "snd (kmalloc 68 (snd (kmalloc 68 (heap_area kheap_boot))))"
  have "kheap_inv ?h" by (intro kmalloc_inv heap_area_inv) (simp_all add: kmalloc_ok_def)
  then have "fs_wf (ps_fs demo_two)" by (simp add: fs_wf_def demo_two_def) (simp add: demo_fs_def)
  moreover have "live ?h = {0xC000000C, 0xC000005C}"
    by (simp add: extents_live kmalloc_def heap_area_def kheap_boot_def heap_consts insert_commute)
  ultimately show ?thesis
    by (simp add: ps_ok_def) (auto simp: demo_two_def pid_at_def process0_def)
qed

end
