(* ===== verification/Vfs.thy ===== *)
theory Vfs
  imports Initrd
begin

text \<open>
  The virtual file system, \<^verbatim>\<open>kernel/vfs.c\<close>.  A call through a node's function pointer is a dispatch
  on the constructors of \<open>vfn\<close>; \<open>None\<close> is a call of a function that has another type.  A path is a
  \<open>cstr option\<close>, \<open>None\<close> the null pointer.  A function that fills \<^verbatim>\<open>*out_node\<close> and returns 0 or an error
  code returns \<open>Inr\<close> of the node or \<open>Inl\<close> of the code; no caller reads the node after an error.
\<close>

subsection \<open>Handlers\<close>

definition call_read :: "vfn \<Rightarrow> vnode \<Rightarrow> u32 \<Rightarrow> u32 \<Rightarrow> fsys \<Rightarrow> (int \<times> u8 list \<times> fsys) option" where
  "call_read f node off n s = (case f of
       Fat32_read \<Rightarrow> fat32_read node off n s
     | Tar_read \<Rightarrow> tar_read node off n s
     | _ \<Rightarrow> None)"

definition call_write :: "vfn \<Rightarrow> vnode \<Rightarrow> u32 \<Rightarrow> u8 list \<Rightarrow> fsys \<Rightarrow> (int \<times> fsys) option" where
  "call_write f node off bs s = (case f of
       Fat32_write \<Rightarrow> Some (fat32_write node off bs s)
     | _ \<Rightarrow> None)"

definition call_open :: "vfn \<Rightarrow> vnode \<Rightarrow> u32 \<Rightarrow> fsys \<Rightarrow> (int \<times> fsys) option" where
  "call_open f node flags s = (case f of
       Fat32_open \<Rightarrow> fat32_open node flags s
     | Tar_open \<Rightarrow> Some (tar_open node flags s)
     | _ \<Rightarrow> None)"

definition call_close :: "vfn \<Rightarrow> vnode \<Rightarrow> fsys \<Rightarrow> (int \<times> fsys) option" where
  "call_close f node s = (case f of
       Fat32_close \<Rightarrow> Some (fat32_close node s)
     | Tar_close \<Rightarrow> Some (tar_close node s)
     | _ \<Rightarrow> None)"

definition call_readdir :: "vfn \<Rightarrow> vnode \<Rightarrow> u32 \<Rightarrow> fsys \<Rightarrow> (vdirent \<times> fsys) option" where
  "call_readdir f node idx s = (case f of
       Fat32_vfs_readdir \<Rightarrow> fat32_vfs_readdir node idx s
     | Tar_readdir \<Rightarrow> Some (tar_readdir node idx s)
     | _ \<Rightarrow> None)"

text \<open>
  The lookup passes \<^verbatim>\<open>&child\<close>, a node, where the handlers expect the address of a node pointer: what
  they store there are the first four bytes of the zeroed node's name.  The names \<^verbatim>\<open>.\<close> and \<^verbatim>\<open>..\<close> do
  not reach the handler, so its own node's address, 0 here, is not used.
\<close>

definition call_finddir :: "vfn \<Rightarrow> vnode \<Rightarrow> cstr \<Rightarrow> fsys \<Rightarrow> (int \<times> vnode \<times> fsys) option" where
  "call_finddir f node name s = (case f of
       Fat32_finddir \<Rightarrow> do {
         (r, p, s1) \<leftarrow> fat32_finddir 0 node name s;
         Some (r, vnode0\<lparr>vn_name := takeWhile (\<lambda>c. c \<noteq> 0) (bytes_of_u32 p)\<rparr>, s1) }
     | Tar_finddir \<Rightarrow> (case tar_finddir node name s of (r, s1) \<Rightarrow> Some (r, vnode0, s1))
     | _ \<Rightarrow> None)"

subsection \<open>Lookup\<close>

definition child_lookup :: "addr \<Rightarrow> cstr \<Rightarrow> fsys \<Rightarrow> (int + vnode) option" where
  "child_lookup dir name s =
     (if dir = 0 then Some (Inl (- ENOTDIR))
      else do {
        d \<leftarrow> node_at dir s;
        if vn_flags d AND S_IFDIR = 0 then Some (Inl (- ENOTDIR))
        else do {
          r \<leftarrow> sib_find s (vn_children d) name;
          (case r of None \<Rightarrow> Some (Inl (- ENOENT)) | Some (p, n) \<Rightarrow> Some (Inr n)) } })"

text \<open>The tokens \<^verbatim>\<open>strtok_r\<close> yields on the copy of a path.\<close>

definition path_tokens :: "cstr \<Rightarrow> cstr list option" where
  "path_tokens path =
     (let path_copy = take (VFS_PATH_MAX - 1) path in
      strtok_all (length path_copy + 2) (path_copy @ [0])
        (Some (if take 1 path_copy = asc ''/'' then 1 else 0)) (asc ''/'' @ [0]) 0)"

text \<open>The node of a component below \<open>cur\<close>: the directory's handler first, then its list of children.\<close>

definition find_child :: "vnode \<Rightarrow> cstr \<Rightarrow> fsys \<Rightarrow> (int \<times> vnode \<times> fsys) option" where
  "find_child cur c s = do {
     (ret, child, s1) \<leftarrow> (case vn_finddir cur of
        None \<Rightarrow> Some (- ENOENT, vnode0, s)
      | Some f \<Rightarrow> call_finddir f cur c s);
     if ret = 0 then Some (ret, child, s1)
     else do {
       r \<leftarrow> sib_find s1 (vn_children cur) c;
       (case r of None \<Rightarrow> Some (ret, child, s1) | Some (p, n) \<Rightarrow> Some (0, n, s1)) } }"

text \<open>The path that replaces the lookup at a symbolic link: the link's text and the next component.\<close>

definition link_path :: "u8 list \<Rightarrow> cstr list \<Rightarrow> cstr" where
  "link_path bs rest =
     (let target = takeWhile (\<lambda>c. c \<noteq> 0) bs in
      case rest of
        [] \<Rightarrow> target
      | c # _ \<Rightarrow> if length target + 1 < VFS_PATH_MAX
          then target @ asc ''/'' @ take (VFS_PATH_MAX - length target - 2) c else target)"

text \<open>
  The loop over the components from the node \<open>cur\<close>; the recursive \<^verbatim>\<open>vfs_lookup\<close> of a link's target
  starts again at the root, and a chain of links need not end.
\<close>

partial_function (option) lookup_walk :: "vnode \<Rightarrow> cstr list \<Rightarrow> fsys \<Rightarrow> ((int + vnode) \<times> fsys) option" where
  "lookup_walk cur comps s =
     (case comps of
        [] \<Rightarrow> Some (Inr cur, s)
      | c # cs \<Rightarrow>
          if c = asc ''.'' then lookup_walk cur cs s
          else if c = asc ''..'' then
            (if vn_parent cur \<noteq> 0 then do { p \<leftarrow> node_at (vn_parent cur) s; lookup_walk p cs s }
             else lookup_walk cur cs s)
          else do {
            (ret, child, s1) \<leftarrow> find_child cur c s;
            if ret \<noteq> 0 then Some (Inl (- ENOENT), s1)
            else if S_ISLNK (vn_flags child) then
              (case vn_read child of
                 None \<Rightarrow> Some (Inl (- EIO), s1)
               | Some f \<Rightarrow> do {
                   (n, bs, s2) \<leftarrow> call_read f child 0 (of_nat (VFS_PATH_MAX - 1)) s1;
                   if 0 < n then do {
                     let target = link_path bs cs;
                     ts \<leftarrow> (if target = [] \<or> target = asc ''/'' then Some [] else path_tokens target);
                     lookup_walk (fs_root s2) ts s2 }
                   else Some (Inl (- EIO), s2) })
            else lookup_walk child cs s1 })"

definition vfs_lookup :: "cstr option \<Rightarrow> fsys \<Rightarrow> ((int + vnode) \<times> fsys) option" where
  "vfs_lookup path s =
     (case path of
        None \<Rightarrow> Some (Inl (- EINVAL), s)
      | Some p \<Rightarrow>
          if p = [] \<or> p = asc ''/'' then Some (Inr (fs_root s), s)
          else do { ts \<leftarrow> path_tokens p; lookup_walk (fs_root s) ts s })"

subsection \<open>Nodes and directories\<close>

definition vfs_create_node :: "cstr option \<Rightarrow> u32 \<Rightarrow> fsys \<Rightarrow> addr \<times> fsys" where
  "vfs_create_node name flags s =
     (case fs_alloc VNODE_SIZE s of (p, s1) \<Rightarrow>
        if p = 0 then (0, s1)
        else (p, s1\<lparr>fs_nodes := (fs_nodes s1)(p \<mapsto>
          vnode0\<lparr>vn_name := (case name of None \<Rightarrow> [] | Some nm \<Rightarrow> name_cut (VFS_NAME_MAX - 1) nm),
            vn_flags := flags\<rparr>)\<rparr>))"

text \<open>The directory part and the last component of a path, as the callers of \<^verbatim>\<open>strrchr\<close> cut them.\<close>

definition split_path :: "cstr \<Rightarrow> (int + (cstr \<times> cstr)) option" where
  "split_path path = do {
     slash \<leftarrow> k_strrchr (path @ [0]) 47;
     (case slash of
        None \<Rightarrow> Some (Inr (asc ''.'', path))
      | Some k \<Rightarrow>
          if k = 0 then Some (Inr (asc ''/'', drop 1 path))
          else if VFS_PATH_MAX \<le> k then Some (Inl (- ENAMETOOLONG))
          else Some (Inr (take k path, drop (k + 1) path))) }"

text \<open>The parent is a copy on the heap, which is linked to the new node and then freed.\<close>

definition vfs_create :: "cstr option \<Rightarrow> u32 \<Rightarrow> fsys \<Rightarrow> (int \<times> fsys) option" where
  "vfs_create path flags s =
     (if path = None \<or> path = Some [] then Some (- EINVAL, s)
      else do {
        sp \<leftarrow> split_path (the path);
        (case sp of
           Inl e \<Rightarrow> Some (e, s)
         | Inr (parent_path, name) \<Rightarrow>
             (case fs_alloc VNODE_SIZE s of (pp, s1) \<Rightarrow>
              if pp = 0 then Some (- ENOMEM, s1)
              else do {
                (r, s2) \<leftarrow> vfs_lookup (Some parent_path) (s1\<lparr>fs_nodes := (fs_nodes s1)(pp \<mapsto> vnode0)\<rparr>);
                (case r of
                   Inl e \<Rightarrow> map_option (\<lambda>t. (e, t)) (fs_free pp s2)
                 | Inr parent \<Rightarrow>
                     if vn_flags parent AND FT_DIR = 0 then map_option (\<lambda>t. (- ENOTDIR, t)) (fs_free pp s2)
                     else do {
                       (x, s3) \<leftarrow> vfs_lookup path (s2\<lparr>fs_nodes := (fs_nodes s2)(pp \<mapsto> parent)\<rparr>);
                       (case x of
                          Inr _ \<Rightarrow> map_option (\<lambda>t. (- EEXIST, t)) (fs_free pp s3)
                        | Inl _ \<Rightarrow>
                            (case vfs_create_node (Some name) flags s3 of (np, s4) \<Rightarrow>
                             if np = 0 then map_option (\<lambda>t. (- ENOMEM, t)) (fs_free pp s4)
                             else do {
                               n \<leftarrow> fs_nodes s4 np;
                               let s5 = s4\<lparr>fs_nodes := (fs_nodes s4)
                                  (np \<mapsto> n\<lparr>vn_parent := pp, vn_next := vn_children parent\<rparr>,
                                   pp \<mapsto> parent\<lparr>vn_children := np\<rparr>)\<rparr>;
                               map_option (\<lambda>t. (0, t)) (fs_free pp s5) })) }) })) })"

definition vfs_mkdir :: "cstr option \<Rightarrow> fsys \<Rightarrow> (int \<times> fsys) option" where
  "vfs_mkdir path s =
     (if path = None \<or> path = Some [] then Some (- EINVAL, s) else vfs_create path (S_IFDIR OR 493) s)"

definition open_handler :: "vnode \<Rightarrow> u32 \<Rightarrow> fsys \<Rightarrow> (int \<times> fsys) option" where
  "open_handler n flags s = (case vn_open n of None \<Rightarrow> Some (0, s) | Some f \<Rightarrow> call_open f n flags s)"

definition close_handler :: "vnode \<Rightarrow> fsys \<Rightarrow> (int \<times> fsys) option" where
  "close_handler n s = (case vn_close n of None \<Rightarrow> Some (0, s) | Some f \<Rightarrow> call_close f n s)"

definition vfs_mount :: "cstr option \<Rightarrow> addr \<Rightarrow> fsys \<Rightarrow> (int \<times> fsys) option" where
  "vfs_mount path fs_rt s =
     (if path = None \<or> fs_rt = 0 then Some (- EINVAL, s)
      else do {
        rn \<leftarrow> node_at fs_rt s;
        if vn_name rn = [] then Some (- EINVAL, s)
        else do {
          (r, s1) \<leftarrow> vfs_lookup path s;
          (case r of
             Inl _ \<Rightarrow> do {
               slash \<leftarrow> k_strrchr (the path @ [0]) 47;
               (case slash of
                  None \<Rightarrow> vfs_mkdir path s1
                | Some k \<Rightarrow>
                    if k = 0 then vfs_mkdir path s1
                    else if VFS_PATH_MAX \<le> k then Some (- ENAMETOOLONG, s1)
                    else do {
                      (pr, s2) \<leftarrow> vfs_lookup (Some (take k (the path))) s1;
                      (case pr of
                         Inl e \<Rightarrow> Some (e, s2)
                       | Inr parent \<Rightarrow>
                           if \<not> S_ISDIR (vn_flags parent) then Some (- ENOTDIR, s2) else vfs_mkdir path s2) }) }
           | Inr mount_point \<Rightarrow>
               if \<not> S_ISDIR (vn_flags mount_point) then Some (- ENOTDIR, s1)
               else if path = Some (asc ''/'') then do {
                 s2 \<leftarrow> vfs_set_root fs_rt s1;
                 open_handler (fs_root s2) 0 s2 }
               else do {
                 copy \<leftarrow> node_at fs_rt s1;
                 open_handler copy 0 s1 }) } })"

definition vfs_init :: "fsys \<Rightarrow> (int \<times> fsys) option" where
  "vfs_init s =
     (let s1 = s\<lparr>fs_root := vnode0\<lparr>vn_name := name_cut (VFS_NAME_MAX - 1) (asc ''/''), vn_flags := S_IFDIR OR 493\<rparr>,
               fs_open := replicate MAX_OPEN_FILES vnode0\<rparr> in
      do {
        (root, s2) \<leftarrow> fat32_mount s1;
        (r, s3) \<leftarrow> (if root = 0 then Some (-1, s2)
          else do {
            rn \<leftarrow> node_at root s2;
            if vn_name rn = [] then map_option (\<lambda>t. (-1, t)) (fs_free root s2)
            else do {
              (m, s2a) \<leftarrow> vfs_mount (Some (asc ''/'')) root s2;
              map_option (\<lambda>t. (m, t)) (fs_free root s2a) } });
        (_, s4) \<leftarrow> vfs_mkdir (Some (asc ''/dev'')) s3;
        (_, s5) \<leftarrow> vfs_mkdir (Some (asc ''/proc'')) s4;
        (_, s6) \<leftarrow> vfs_mkdir (Some (asc ''/tmp'')) s5;
        Some (r, s6) })"

subsection \<open>Open files\<close>

definition bad_fd :: "int \<Rightarrow> fsys \<Rightarrow> bool" where
  "bad_fd fd s \<longleftrightarrow> fd < 0 \<or> int MAX_OPEN_FILES \<le> fd \<or> vn_name (fs_open s ! nat fd) = []"

definition set_open :: "int \<Rightarrow> vnode \<Rightarrow> fsys \<Rightarrow> fsys" where
  "set_open fd n s = s\<lparr>fs_open := (fs_open s)[nat fd := n]\<rparr>"

text \<open>The first slot of the table whose name is empty.\<close>

fun free_fd :: "vnode list \<Rightarrow> nat \<Rightarrow> nat option" where
  "free_fd [] i = None"
| "free_fd (n # ns) i = (if vn_name n = [] then Some i else free_fd ns (Suc i))"

text \<open>The part of \<^verbatim>\<open>vfs_open\<close> that creates a missing file and looks it up again.\<close>

definition open_create :: "cstr \<Rightarrow> u32 \<Rightarrow> fsys \<Rightarrow> ((int + vnode) \<times> fsys) option" where
  "open_create path flags s =
     (if flags AND O_CREAT = 0 then Some (Inl (- ENOENT), s)
      else do {
        sp \<leftarrow> split_path path;
        (case sp of
           Inl e \<Rightarrow> Some (Inl e, s)
         | Inr (dir_path, _) \<Rightarrow> do {
             (r, s1) \<leftarrow> vfs_lookup (Some dir_path) s;
             (case r of
                Inl _ \<Rightarrow> Some (Inl (- ENOENT), s1)
              | Inr parent \<Rightarrow>
                  if vn_flags parent AND FT_DIR = 0 then Some (Inl (- ENOTDIR), s1)
                  else if vn_flags parent AND 146 = 0 then Some (Inl (- EACCES), s1)
                  else do {
                    (ret, s2) \<leftarrow> vfs_create (Some path) 438 s1;
                    if ret \<noteq> 0 then Some (Inl ret, s2) else vfs_lookup (Some path) s2 }) }) })"

text \<open>The permission checks; 0 is success.\<close>

definition open_access :: "vnode \<Rightarrow> u32 \<Rightarrow> int" where
  "open_access node flags =
     (let access_mode = flags AND O_ACCMODE in
      if vn_flags node AND FT_DIR \<noteq> 0 \<and> flags AND (O_WRONLY OR O_RDWR) \<noteq> 0 then - EISDIR
      else if access_mode = O_RDONLY \<and> vn_flags node AND 292 = 0 then - EACCES
      else if access_mode = O_WRONLY \<and> vn_flags node AND 146 = 0 then - EACCES
      else if access_mode = O_RDWR \<and> vn_flags node AND 438 = 0 then - EACCES
      else if flags AND O_EXCL \<noteq> 0 \<and> flags AND O_CREAT \<noteq> 0 then - EEXIST
      else 0)"

definition open_trunc :: "vnode \<Rightarrow> u32 \<Rightarrow> fsys \<Rightarrow> (int \<times> vnode \<times> fsys) option" where
  "open_trunc node flags s =
     (if flags AND O_TRUNC \<noteq> 0 \<and> flags AND O_ACCMODE \<noteq> O_RDONLY then
        (if vn_flags node AND O_TRUNC \<noteq> 0 then Some (0, node\<lparr>vn_size := 0\<rparr>, s)
         else (case vn_write node of
             None \<Rightarrow> Some (0, node, s)
           | Some f \<Rightarrow> do { (r, s1) \<leftarrow> call_write f node 0 [] s; Some (r, node, s1) }))
      else Some (0, node, s))"

definition vfs_open :: "cstr option \<Rightarrow> u32 \<Rightarrow> fsys \<Rightarrow> (int \<times> fsys) option" where
  "vfs_open path flags s =
     (case path of
        None \<Rightarrow> Some (- EINVAL, s)
      | Some p \<Rightarrow>
          (case free_fd (fs_open s) 0 of
             None \<Rightarrow> Some (- EMFILE, s)
           | Some fd \<Rightarrow> do {
               (r0, s1) \<leftarrow> vfs_lookup path s;
               (r, s2) \<leftarrow> (case r0 of Inr n \<Rightarrow> Some (Inr n, s1) | Inl _ \<Rightarrow> open_create p flags s1);
               (case r of
                  Inl e \<Rightarrow> Some (e, s2)
                | Inr node \<Rightarrow>
                    if open_access node flags \<noteq> 0 then Some (open_access node flags, s2)
                    else do {
                      (t, node1, s3) \<leftarrow> open_trunc node flags s2;
                      if t < 0 then Some (t, s3)
                      else do {
                        let node2 = node1\<lparr>vn_position := (if flags AND O_APPEND \<noteq> 0 then vn_size node1 else 0)\<rparr>;
                        (ret, s4) \<leftarrow> open_handler node2 flags (set_open (int fd) node2 s3);
                        if ret \<noteq> 0 then Some (ret, set_open (int fd) vnode0 s4) else Some (int fd, s4) } }) }))"

definition vfs_close :: "int \<Rightarrow> fsys \<Rightarrow> (int \<times> fsys) option" where
  "vfs_close fd s =
     (if bad_fd fd s then Some (- EBADF, s)
      else do {
        (ret, s1) \<leftarrow> close_handler (fs_open s ! nat fd) s;
        Some (ret, set_open fd vnode0 s1) })"

text \<open>\<open>buf\<close> tells whether the buffer's address is not null; the bytes are what is stored at it.\<close>

definition vfs_read :: "int \<Rightarrow> bool \<Rightarrow> u32 \<Rightarrow> fsys \<Rightarrow> (int \<times> u8 list \<times> fsys) option" where
  "vfs_read fd buf count s =
     (if bad_fd fd s then Some (- EBADF, [], s)
      else if \<not> buf then Some (- EINVAL, [], s)
      else
        let node = fs_open s ! nat fd in
        if vn_flags node AND FT_DIR \<noteq> 0 then Some (- EISDIR, [], s)
        else if vn_read node = None \<and> vn_data node = 0 then Some (- EBADF, [], s)
        else if vn_size node \<le> vn_position node then Some (0, [], s)
        else
          let to_read = (if vn_size node < vn_position node + count then vn_size node - vn_position node else count) in
          (case vn_read node of
             Some f \<Rightarrow> do {
               (result, bs, s1) \<leftarrow> call_read f node (vn_position node) to_read s;
               Some (result, bs,
                 if 0 < result then set_open fd (node\<lparr>vn_position := vn_position node + word_of_int result\<rparr>) s1 else s1) }
           | None \<Rightarrow> do {
               d \<leftarrow> fs_datas s (vn_data node);
               bs \<leftarrow> buf_read d (unat (vn_position node)) (unat to_read);
               Some (sint to_read, bs, set_open fd (node\<lparr>vn_position := vn_position node + to_read\<rparr>) s) }))"

definition vfs_write :: "int \<Rightarrow> u8 list option \<Rightarrow> u32 \<Rightarrow> fsys \<Rightarrow> (int \<times> fsys) option" where
  "vfs_write fd buf count s =
     (if bad_fd fd s then Some (- EBADF, s)
      else (case buf of
        None \<Rightarrow> Some (- EINVAL, s)
      | Some mem \<Rightarrow>
        let node = fs_open s ! nat fd in
        if vn_flags node AND FT_DIR \<noteq> 0 then Some (- EISDIR, s)
        else if vn_write node = None \<and> vn_flags node AND O_APPEND = 0 then Some (- EBADF, s)
        else (case vn_write node of
            Some f \<Rightarrow> do {
              (result, s1) \<leftarrow> call_write f node (vn_position node) (take (unat count) mem) s;
              (let pos = vn_position node + word_of_int result in
               Some (result, if 0 < result
                 then set_open fd (node\<lparr>vn_position := pos,
                    vn_size := (if vn_size node < pos then pos else vn_size node)\<rparr>) s1
                 else s1)) }
          | None \<Rightarrow>
              if vn_data node = 0 then Some (- EROFS, s)
              else do {
                (node1, s1) \<leftarrow>
                  (if vn_size node < vn_position node + count then
                     (case alloc_data (vn_position node + count) s of (p, t) \<Rightarrow>
                        if p = 0 then Some (None, t)
                        else do {
                          old \<leftarrow> fs_datas t (vn_data node);
                          new \<leftarrow> fs_datas t p;
                          cp \<leftarrow> k_memcpy new old (unat (vn_size node));
                          u \<leftarrow> fs_free (vn_data node) (t\<lparr>fs_datas := (fs_datas t)(p \<mapsto> cp)\<rparr>);
                          Some (Some (node\<lparr>vn_data := p, vn_size := vn_position node + count\<rparr>), u) })
                   else Some (Some node, s));
                (case node1 of
                   None \<Rightarrow> Some (- ENOMEM, s1)
                 | Some n \<Rightarrow> do {
                     d \<leftarrow> fs_datas s1 (vn_data n);
                     bs \<leftarrow> buf_read mem 0 (unat count);
                     d' \<leftarrow> buf_write d (unat (vn_position n)) bs;
                     Some (sint count, set_open fd (n\<lparr>vn_position := vn_position n + count\<rparr>)
                       (s1\<lparr>fs_datas := (fs_datas s1)(vn_data n \<mapsto> d')\<rparr>)) }) })))"

text \<open>\<open>off_t\<close> is a signed 32-bit number, the sums with it are unsigned.  No node ever has an \<open>lseek\<close> handler.\<close>

definition vfs_lseek :: "int \<Rightarrow> int \<Rightarrow> int \<Rightarrow> fsys \<Rightarrow> (int \<times> fsys) option" where
  "vfs_lseek fd offset whence s =
     (if bad_fd fd s then Some (- EBADF, s)
      else
        let node = fs_open s ! nat fd;
            target = (if whence = 0 then Some (word_of_int offset)
              else if whence = 1 then Some (vn_position node + word_of_int offset)
              else if whence = 2 then Some (vn_size node + word_of_int offset)
              else None) in
        (case target of
           None \<Rightarrow> Some (- EINVAL, s)
         | Some new_pos \<Rightarrow>
             if sint new_pos < 0 then Some (- EINVAL, s)
             else (case vn_lseek node of
                 Some f \<Rightarrow> None
               | None \<Rightarrow> Some (sint new_pos, set_open fd (node\<lparr>vn_position := new_pos\<rparr>) s))))"

definition vfs_size :: "int \<Rightarrow> fsys \<Rightarrow> int" where
  "vfs_size fd s = (if bad_fd fd s then - EBADF else sint (vn_size (fs_open s ! nat fd)))"

definition vfs_read_all :: "cstr option \<Rightarrow> bool \<Rightarrow> u32 \<Rightarrow> fsys \<Rightarrow> (int \<times> u8 list \<times> fsys) option" where
  "vfs_read_all path buf maxlen s =
     (if path = None \<or> \<not> buf \<or> maxlen = 0 then Some (- EINVAL, [], s)
      else do {
        (fd, s1) \<leftarrow> vfs_open path O_RDONLY s;
        if fd < 0 then Some (fd, [], s1)
        else do {
          (bytes_read, bs, s2) \<leftarrow> vfs_read fd buf (maxlen - 1) s1;
          (close_ret, s3) \<leftarrow> vfs_close fd s2;
          if bytes_read < 0 then Some (bytes_read, bs, s3)
          else Some (if close_ret < 0 then close_ret else 0, bs @ [0], s3) } })"

subsection \<open>Directories\<close>

definition dirent_of :: "vnode \<Rightarrow> vdirent" where
  "dirent_of n = \<lparr>vd_name = name_cut (VFS_NAME_MAX - 1) (vn_name n), vd_size = vn_size n,
     vd_is_dir = (vn_flags n AND FT_DIR \<noteq> 0)\<rparr>"

partial_function (option) list_children :: "fsys \<Rightarrow> addr \<Rightarrow> nat \<Rightarrow> vdirent list option" where
  "list_children s p room =
     (if p = 0 \<or> room = 0 then Some []
      else do {
        n \<leftarrow> node_at p s;
        if vn_name n = [] then list_children s (vn_next n) room
        else do { ds \<leftarrow> list_children s (vn_next n) (room - 1); Some (dirent_of n # ds) } })"

definition vfs_list :: "cstr option \<Rightarrow> bool \<Rightarrow> int \<Rightarrow> fsys \<Rightarrow> ((int + vdirent list) \<times> fsys) option" where
  "vfs_list path entries max_entries s =
     (if path = None \<or> \<not> entries \<or> max_entries \<le> 0 then Some (Inl (- EINVAL), s)
      else do {
        (r, s1) \<leftarrow> vfs_lookup path s;
        (case r of
           Inl e \<Rightarrow> Some (Inl e, s1)
         | Inr dir \<Rightarrow>
             if vn_flags dir AND FT_DIR = 0 then Some (Inl (- ENOTDIR), s1)
             else do { ds \<leftarrow> list_children s1 (vn_children dir) (nat max_entries); Some (Inr ds, s1) }) })"

definition vfs_opendir :: "cstr option \<Rightarrow> fsys \<Rightarrow> ((int + vnode) \<times> fsys) option" where
  "vfs_opendir path s =
     (if path = None then Some (Inl (- EINVAL), s)
      else do {
        (r, s1) \<leftarrow> vfs_lookup path s;
        (case r of
           Inl e \<Rightarrow> Some (Inl e, s1)
         | Inr d \<Rightarrow> Some (if vn_flags d AND FT_DIR = 0 then Inl (- ENOTDIR) else Inr (d\<lparr>vn_position := 0\<rparr>), s1)) })"

text \<open>The \<open>i\<close>-th node of a sibling list, 0 behind its end.\<close>

fun child_nth :: "fsys \<Rightarrow> addr \<Rightarrow> nat \<Rightarrow> addr option" where
  "child_nth s p 0 = Some p"
| "child_nth s p (Suc i) = (if p = 0 then Some 0 else do { n \<leftarrow> node_at p s; child_nth s (vn_next n) i })"

text \<open>The result is the entry or null, and the directory with its new position; \<open>errno\<close> is in the state.\<close>

definition vfs_readdir :: "vnode \<Rightarrow> fsys \<Rightarrow> (vdirent option \<times> vnode \<times> fsys) option" where
  "vfs_readdir dir s =
     (if vn_flags dir AND FT_DIR = 0 then Some (None, dir, s\<lparr>fs_errno := ENOTDIR\<rparr>)
      else (case vn_readdir dir of
          Some f \<Rightarrow> do {
            (e, s1) \<leftarrow> call_readdir f dir (vn_position dir) s;
            if vd_name e = [] then Some (None, dir, s1\<lparr>fs_errno := ENOENT\<rparr>)
            else Some (Some e, dir\<lparr>vn_position := vn_position dir + 1\<rparr>, s1) }
        | None \<Rightarrow> do {
            child \<leftarrow> child_nth s (vn_children dir) (unat (vn_position dir));
            if child = 0 then Some (None, dir, s\<lparr>fs_errno := ENOENT\<rparr>)
            else do {
              n \<leftarrow> node_at child s;
              Some (Some (dirent_of n), dir\<lparr>vn_position := vn_position dir + 1\<rparr>, s) } }))"

text \<open>Its static variables are the fields \<open>fs_rd_entry\<close> and \<open>fs_rd_index\<close>.\<close>

definition vfs_read_dir :: "vnode option \<Rightarrow> fsys \<Rightarrow> (vdirent \<times> fsys) option" where
  "vfs_read_dir dir s =
     (let empty = (fs_rd_entry s)\<lparr>vd_name := []\<rparr> in
      case dir of
        None \<Rightarrow> Some (empty, s\<lparr>fs_rd_entry := empty\<rparr>)
      | Some d \<Rightarrow>
          if vn_flags d AND FT_DIR = 0 then Some (empty, s\<lparr>fs_rd_entry := empty\<rparr>)
          else (case vn_readdir d of
              None \<Rightarrow> Some (empty, s\<lparr>fs_rd_entry := empty\<rparr>)
            | Some f \<Rightarrow> do {
                (e, s1) \<leftarrow> call_readdir f d (fs_rd_index s) (s\<lparr>fs_rd_index := fs_rd_index s + 1\<rparr>);
                Some (e, s1\<lparr>fs_rd_entry := e\<rparr>) }))"

definition vfs_closedir :: "vnode \<Rightarrow> vnode" where
  "vfs_closedir dir = dir\<lparr>vn_position := 0\<rparr>"

text \<open>\<^verbatim>\<open>struct stat\<close> with the members that are set; the others are zero.\<close>

definition vfs_stat :: "cstr option \<Rightarrow> fsys \<Rightarrow> ((int + (u32 \<times> u32)) \<times> fsys) option" where
  "vfs_stat path s =
     (if path = None then Some (Inl (- EINVAL), s)
      else do {
        (r, s1) \<leftarrow> vfs_lookup path s;
        (case r of Inl e \<Rightarrow> Some (Inl e, s1) | Inr n \<Rightarrow> Some (Inr (vn_size n, vn_flags n), s1)) })"

subsection \<open>Removal\<close>

text \<open>
  The loops that unlink a node compare its address, or that of its name, which is its first member,
  with the address \<open>self\<close> of the local copy.  \<open>slot\<close> is the pointer \<^verbatim>\<open>*child_ptr\<close>: the list head of the
  node \<open>Inl d\<close> or the successor of \<open>Inr q\<close>.  The result tells whether a node was removed.
\<close>

partial_function (option) unlink_loop :: "addr \<Rightarrow> addr + addr \<Rightarrow> fsys \<Rightarrow> (bool \<times> fsys) option" where
  "unlink_loop self slot s = do {
     h \<leftarrow> node_at (case slot of Inl d \<Rightarrow> d | Inr q \<Rightarrow> q) s;
     let p = (case slot of Inl _ \<Rightarrow> vn_children h | Inr _ \<Rightarrow> vn_next h);
     if p = 0 then Some (False, s)
     else do {
       n \<leftarrow> node_at p s;
       if p = self then do {
         s1 \<leftarrow> (case slot of
             Inl d \<Rightarrow> node_upd d (h\<lparr>vn_children := vn_next n\<rparr>) s
           | Inr q \<Rightarrow> node_upd q (h\<lparr>vn_next := vn_next n\<rparr>) s);
         s2 \<leftarrow> fs_free (vn_priv n) s1;
         s3 \<leftarrow> fs_free p s2;
         Some (True, s3) }
       else unlink_loop self (Inr p) s } }"

definition unlink_child :: "addr \<Rightarrow> vnode \<Rightarrow> fsys \<Rightarrow> (int \<times> fsys) option" where
  "unlink_child self node s =
     (if vn_parent node = 0 then Some (- ENOENT, s)
      else do {
        (b, s1) \<leftarrow> unlink_loop self (Inl (vn_parent node)) s;
        Some (if b then 0 else - ENOENT, s1) })"

text \<open>\<open>self\<close> is the address of the local variable \<^verbatim>\<open>node\<close> in the two functions.\<close>

definition vfs_remove :: "addr \<Rightarrow> cstr option \<Rightarrow> fsys \<Rightarrow> (int \<times> fsys) option" where
  "vfs_remove self path s =
     (if path = None \<or> path = Some [] then Some (- EINVAL, s)
      else do {
        (r, s1) \<leftarrow> vfs_lookup path s;
        (case r of
           Inl e \<Rightarrow> Some (e, s1)
         | Inr node \<Rightarrow>
             if S_ISDIR (vn_flags node) then Some (- EISDIR, s1)
             else do { (_, s2) \<leftarrow> close_handler node s1; unlink_child self node s2 }) })"

text \<open>The scan for an entry that is neither \<^verbatim>\<open>.\<close> nor \<^verbatim>\<open>..\<close>.\<close>

partial_function (option) dir_has_entries :: "vnode \<Rightarrow> fsys \<Rightarrow> (bool \<times> fsys) option" where
  "dir_has_entries dir s = do {
     (e, dir1, s1) \<leftarrow> vfs_readdir dir s;
     (case e of
        None \<Rightarrow> Some (False, s1)
      | Some d \<Rightarrow>
          if vd_name d \<noteq> asc ''.'' \<and> vd_name d \<noteq> asc ''..'' then Some (True, s1)
          else dir_has_entries dir1 s1) }"

definition vfs_rmdir :: "addr \<Rightarrow> cstr option \<Rightarrow> fsys \<Rightarrow> (int \<times> fsys) option" where
  "vfs_rmdir self path s =
     (if path = None \<or> path = Some [] then Some (- EINVAL, s)
      else do {
        (r, s1) \<leftarrow> vfs_lookup path s;
        (case r of
           Inl e \<Rightarrow> Some (e, s1)
         | Inr node \<Rightarrow>
             if \<not> S_ISDIR (vn_flags node) then Some (- ENOTDIR, s1)
             else do {
               (d, s2) \<leftarrow> vfs_opendir path s1;
               (case d of
                  Inl _ \<Rightarrow> Some (- EIO, s2)
                | Inr dir \<Rightarrow> do {
                    (has, s3) \<leftarrow> dir_has_entries dir s2;
                    if has then Some (- ENOTEMPTY, s3)
                    else do { (_, s4) \<leftarrow> close_handler node s3; unlink_child self node s4 } }) }) })"

end
