(* ===== verification/VfsTree.thy ===== *)
theory VfsTree
  imports Vfs
begin

text \<open>
  What the virtual file system promises on a tree of nodes in memory, such as a mounted initial RAM
  disk.  \<open>ftree\<close> is the abstract file system and \<open>resolve\<close> the meaning of a path in it; \<open>rep\<close> relates a
  node to a tree.  The lookup is proved to refine \<open>resolve\<close>, and the operations of \<^verbatim>\<open>kernel/vfs.c\<close> that
  start with a lookup are characterised through it.
\<close>

subsection \<open>Abstract trees\<close>

datatype ftree = File "u8 list" | Dir "(cstr \<times> ftree) list"

fun tree_get :: "ftree \<Rightarrow> cstr list \<Rightarrow> ftree option" where
  "tree_get t [] = Some t"
| "tree_get (File d) (c # cs) = None"
| "tree_get (Dir es) (c # cs) = (case map_of es c of None \<Rightarrow> None | Some t \<Rightarrow> tree_get t cs)"

text \<open>
  The meaning of a path: \<open>st\<close> is the list of names from the root to the current node.  A name must
  exist when it is passed, \<^verbatim>\<open>.\<close> stays and \<^verbatim>\<open>..\<close> goes back, at the root to itself.
\<close>

fun resolve :: "ftree \<Rightarrow> cstr list \<Rightarrow> cstr list \<Rightarrow> cstr list option" where
  "resolve t st [] = Some st"
| "resolve t st (c # cs) =
     (if c = asc ''.'' then resolve t st cs
      else if c = asc ''..'' then resolve t (butlast st) cs
      else if tree_get t (st @ [c]) = None then None
      else resolve t (st @ [c]) cs)"

lemma tree_get_append: "tree_get t (cs @ ds) = (case tree_get t cs of None \<Rightarrow> None | Some u \<Rightarrow> tree_get u ds)"
  by (induction t cs rule: tree_get.induct) (auto split: option.splits)

lemma tree_get_butlast: "tree_get t cs = Some u \<Longrightarrow> \<exists>v. tree_get t (butlast cs) = Some v"
  by (cases cs rule: rev_cases) (auto simp: tree_get_append split: option.splits)

subsection \<open>Nodes that stand for a tree\<close>

text \<open>
  A directory node is stored at the address its children have as their parent, and its handler, if
  any, is the one of the RAM disk, which finds nothing.
\<close>

function rep :: "fsys \<Rightarrow> vnode \<Rightarrow> ftree \<Rightarrow> bool"
  and reps :: "fsys \<Rightarrow> addr \<Rightarrow> addr \<Rightarrow> (cstr \<times> ftree) list \<Rightarrow> bool" where
  "rep s n (File d) \<longleftrightarrow> tar_node_ok (vn_name n) d n s"
| "rep s n (Dir es) \<longleftrightarrow> S_ISDIR (vn_flags n) \<and> (vn_finddir n = None \<or> vn_finddir n = Some Tar_finddir)
     \<and> (\<exists>a. a \<noteq> 0 \<and> fs_nodes s a = Some n \<and> reps s a (vn_children n) es)"
| "reps s a p [] \<longleftrightarrow> p = 0"
| "reps s a p (e # es) \<longleftrightarrow> p \<noteq> 0 \<and> (case fs_nodes s p of None \<Rightarrow> False
     | Some n \<Rightarrow> vn_name n = fst e \<and> fst e \<noteq> [] \<and> vn_parent n = a \<and> rep s n (snd e) \<and> reps s a (vn_next n) es)"
  by pat_completeness auto
termination
  by (relation "measure (\<lambda>x. case x of Inl (s, n, t) \<Rightarrow> 2 * size t
        | Inr (s, a, p, es) \<Rightarrow> 2 * size_list (\<lambda>e. Suc (size (snd e))) es + 1)")
    (auto simp: size_prod_simp)

definition tree_ok :: "fsys \<Rightarrow> ftree \<Rightarrow> bool" where
  "tree_ok s t \<longleftrightarrow> fs_root_addr s \<notin> dom (fs_nodes s) \<and> rep s (fs_root s) t \<and> vn_parent (fs_root s) = 0
     \<and> (case t of File d \<Rightarrow> False | Dir es \<Rightarrow> True)"

subsection \<open>Lookup\<close>

lemma node_at_heap: "tree_ok s t \<Longrightarrow> p \<noteq> 0 \<Longrightarrow> fs_nodes s p = Some n \<Longrightarrow> node_at p s = Some n"
  by (auto simp: tree_ok_def node_at_def)

lemma reps_find:
  assumes ok: "tree_ok s t0"
  shows "reps s a p es \<Longrightarrow> (case map_of es c of
      None \<Rightarrow> sib_find s p c = Some None
    | Some t \<Rightarrow> \<exists>q n. sib_find s p c = Some (Some (q, n)) \<and> rep s n t \<and> vn_parent n = a \<and> vn_name n = c \<and> c \<noteq> [])"
proof (induction es arbitrary: p)
  case Nil
  then show ?case by (simp add: sib_find.simps)
next
  case (Cons e es)
  then obtain n where n: "p \<noteq> 0" "fs_nodes s p = Some n" "vn_name n = fst e" "fst e \<noteq> []" "vn_parent n = a"
      "rep s n (snd e)" "reps s a (vn_next n) es"
    by (auto split: option.splits)
  have "sib_find s p c = (if fst e = c then Some (Some (p, n)) else sib_find s (vn_next n) c)"
    using n(1,3) node_at_heap [OF ok n(1,2)] by (subst sib_find.simps) simp
  then show ?case using Cons.IH [OF n(7)] n by (cases e) (auto split: option.splits)
qed

lemma rep_not_link: "rep s n t \<Longrightarrow> \<not> S_ISLNK (vn_flags n)"
  by (cases t) (auto simp: tar_node_ok_def S_ISLNK_def S_ISDIR_def S_IFMT_def S_IFLNK_def S_IFDIR_def S_IFREG_def)

lemma find_child_rep:
  assumes ok: "tree_ok s t0" and r: "rep s n t"
  shows "(case tree_get t [c] of
      None \<Rightarrow> \<exists>ret ch. find_child n c s = Some (ret, ch, s) \<and> ret \<noteq> 0
    | Some u \<Rightarrow> \<exists>m. find_child n c s = Some (0, m, s) \<and> rep s m u \<and> vn_parent m \<noteq> 0 \<and> vn_name m = c
        \<and> node_at (vn_parent m) s = Some n \<and> c \<noteq> [])"
proof (cases t)
  case (File d)
  then show ?thesis using r
    by (simp add: tar_node_ok_def find_child_def sib_find.simps)
next
  case (Dir es)
  then obtain a where a: "a \<noteq> 0" "fs_nodes s a = Some n" "reps s a (vn_children n) es"
    and fd: "vn_finddir n = None \<or> vn_finddir n = Some Tar_finddir"
    using r by auto
  note at = node_at_heap [OF ok a(1,2)]
  obtain e ch where "(case vn_finddir n of None \<Rightarrow> Some (- ENOENT, vnode0, s) | Some f \<Rightarrow> call_finddir f n c s) = Some (e, ch, s)"
    "e \<noteq> 0"
    using fd by (auto simp: call_finddir_def tar_finddir_def)
  with reps_find [OF ok a(3), of c] a(1) at show ?thesis
    by (auto simp: Dir find_child_def split: option.splits)
qed

text \<open>\<open>n\<close> is the node of the path \<open>st\<close>.\<close>

inductive at_path :: "fsys \<Rightarrow> ftree \<Rightarrow> cstr list \<Rightarrow> vnode \<Rightarrow> bool" for s t where
  at_root: "at_path s t [] (fs_root s)"
| at_child: "at_path s t st n \<Longrightarrow> tree_get t (st @ [c]) = Some u \<Longrightarrow> rep s m u \<Longrightarrow> vn_parent m \<noteq> 0
    \<Longrightarrow> node_at (vn_parent m) s = Some n \<Longrightarrow> vn_name m = c \<Longrightarrow> c \<noteq> [] \<Longrightarrow> at_path s t (st @ [c]) m"

lemma at_path_rep: "at_path s t st n \<Longrightarrow> tree_ok s t \<Longrightarrow> \<exists>u. tree_get t st = Some u \<and> rep s n u"
  by (induction rule: at_path.induct) (auto simp: tree_ok_def)

lemma at_path_parent:
  "at_path s t st n \<Longrightarrow> tree_ok s t \<Longrightarrow> if st = [] then n = fs_root s \<and> vn_parent n = 0
     else vn_parent n \<noteq> 0 \<and> (\<exists>m. node_at (vn_parent n) s = Some m \<and> at_path s t (butlast st) m)"
  by (induction rule: at_path.induct) (auto simp: tree_ok_def)

lemma lookup_walk_resolve:
  assumes ok: "tree_ok s t"
  shows "at_path s t st n \<Longrightarrow> (case resolve t st cs of
      None \<Rightarrow> lookup_walk n cs s = Some (Inl (- ENOENT), s)
    | Some st' \<Rightarrow> \<exists>m. lookup_walk n cs s = Some (Inr m, s) \<and> at_path s t st' m)"
proof (induction cs arbitrary: st n)
  case Nil
  then show ?case by (simp add: lookup_walk.simps)
next
  case (Cons c cs)
  note p = at_path_parent [OF Cons.prems ok]
  obtain u where u: "tree_get t st = Some u" "rep s n u" using at_path_rep [OF Cons.prems ok] by blast
  consider "c = asc ''.''" | "c = asc ''..''" | "c \<noteq> asc ''.''" "c \<noteq> asc ''..''" by blast
  then show ?case
  proof cases
    case 1
    then have "lookup_walk n (c # cs) s = lookup_walk n cs s" by (subst lookup_walk.simps) simp
    then show ?thesis using 1 Cons.IH [OF Cons.prems] by (simp split: option.splits)
  next
    case 2
    then have ne: "c \<noteq> asc ''.''" by (simp add: asc_def)
    show ?thesis
    proof (cases "st = []")
      case True
      then have "lookup_walk n (c # cs) s = lookup_walk n cs s" using 2 ne p by (subst lookup_walk.simps) auto
      then show ?thesis using True 2 ne Cons.IH [OF Cons.prems] by (simp split: option.splits)
    next
      case False
      then obtain m where m: "vn_parent n \<noteq> 0" "node_at (vn_parent n) s = Some m" "at_path s t (butlast st) m"
        using p by auto
      then have "lookup_walk n (c # cs) s = lookup_walk m cs s" using 2 ne by (subst lookup_walk.simps) simp
      then show ?thesis using 2 ne Cons.IH [OF m(3)] by (simp split: option.splits)
    qed
  next
    case 3
    have g: "tree_get t (st @ [c]) = tree_get u [c]" using u(1) by (simp add: tree_get_append)
    show ?thesis
    proof (cases "tree_get u [c]")
      case None
      then obtain ret ch where "find_child n c s = Some (ret, ch, s)" "ret \<noteq> 0"
        using find_child_rep [OF ok u(2), of c] by auto
      then show ?thesis using 3 None g by (simp add: lookup_walk.simps [of n "c # cs"])
    next
      case (Some v)
      then obtain m where m: "find_child n c s = Some (0, m, s)" "rep s m v" "vn_parent m \<noteq> 0" "vn_name m = c"
          "node_at (vn_parent m) s = Some n" "c \<noteq> []"
        using find_child_rep [OF ok u(2), of c] by auto
      have "at_path s t (st @ [c]) m" using Cons.prems Some g m by (intro at_child) simp_all
      note IH = Cons.IH [OF this]
      have "lookup_walk n (c # cs) s = lookup_walk m cs s"
        using 3 m(1) rep_not_link [OF m(2)] by (simp add: lookup_walk.simps [of n "c # cs"])
      then show ?thesis using 3 Some g IH by (simp split: option.splits)
    qed
  qed
qed

lemma parts_slash: "path_tokens path = Some (parts (\<lambda>c. c = 47) path)" if "cstr_ok path" "length path < VFS_PATH_MAX"
proof -
  let ?f = "length path + 2"
  have t: "take (VFS_PATH_MAX - 1) path = path" using that(2) by (simp add: VFS_PATH_MAX_def)
  have d: "(\<lambda>c. c \<in> set (asc ''/'')) = (\<lambda>c. c = 47)" by (auto simp: asc_def)
  have ok: "cstr_ok (asc ''/'')" by (simp add: asc_def)
  show ?thesis
  proof (cases "take 1 path = asc ''/''")
    case True
    then obtain q where q: "path = 47 # q" by (cases path) (auto simp: asc_def)
    have "strtok_all ?f (path @ [0]) (Some 1) (asc ''/'' @ [0]) 0 = Some (parts (\<lambda>c. c \<in> set (asc ''/'')) q)"
      using that(1) ok by (intro strtok_all_spec [of 1 _ _ "[]"]) (simp_all add: q)
    then show ?thesis using True t unfolding d by (simp add: path_tokens_def Let_def parts_delim q del: strtok_all.simps)
  next
    case False
    have "strtok_all ?f (path @ [0]) (Some 0) (asc ''/'' @ [0]) 0 = Some (parts (\<lambda>c. c \<in> set (asc ''/'')) path)"
      using that(1) ok by (intro strtok_all_spec [of 0 _ _ "[]"]) simp_all
    then show ?thesis using False t unfolding d by (simp add: path_tokens_def Let_def del: strtok_all.simps)
  qed
qed

lemma vfs_lookup_resolve:
  assumes ok: "tree_ok s t" and p: "cstr_ok path" "length path < VFS_PATH_MAX"
  shows "(case resolve t [] (parts (\<lambda>c. c = 47) path) of
      None \<Rightarrow> vfs_lookup (Some path) s = Some (Inl (- ENOENT), s)
    | Some st \<Rightarrow> \<exists>n. vfs_lookup (Some path) s = Some (Inr n, s) \<and> at_path s t st n)"
proof (cases "path = [] \<or> path = asc ''/''")
  case True
  then have "parts (\<lambda>c. c = 47) path = []" by (auto simp: asc_def parts_delim)
  then show ?thesis using True by (auto simp: vfs_lookup_def intro: at_root)
next
  case False
  then show ?thesis using lookup_walk_resolve [OF ok at_root, of "parts (\<lambda>c. c = 47) path"] by (simp add: vfs_lookup_def parts_slash [OF p] split: option.splits)
qed

lemma at_path_name: "at_path s t st n \<Longrightarrow> st \<noteq> [] \<Longrightarrow> vn_name n \<noteq> []"
  by (induction rule: at_path.induct) auto

subsection \<open>Reading open files\<close>

text \<open>
  A handler \<open>f\<close> that serves the contents of the file \<open>node\<close>: what \<^verbatim>\<open>vfs_read\<close> needs of a driver.  The
  handler may change the driver's state but not the table of open files.
\<close>

locale file_handler = ranged_reader rd contents ok
  for rd :: "fsys \<Rightarrow> u32 \<Rightarrow> u32 \<Rightarrow> (int \<times> u8 list \<times> fsys) option"
    and contents :: "fsys \<Rightarrow> u8 list" and ok :: "fsys \<Rightarrow> bool" +
  fixes f :: vfn and node :: vnode
  assumes call: "call_read f (node\<lparr>vn_position := x\<rparr>) off k s = rd s off k"
    and rd_open: "ok s \<Longrightarrow> unat off + unat k < 2 ^ 31 \<Longrightarrow> rd s off k = Some (r, bs, s') \<Longrightarrow> fs_open s' = fs_open s"
    and ok_open: "ok (s\<lparr>fs_open := t\<rparr>) = ok s" "contents (s\<lparr>fs_open := t\<rparr>) = contents s"
    and isfile: "ok s \<Longrightarrow> vn_read node = Some f \<and> vn_name node \<noteq> [] \<and> vn_flags node AND FT_DIR = 0
      \<and> unat (vn_size node) = length (contents s) \<and> length (contents s) < 2 ^ 31 \<and> vn_lseek node = None"

text \<open>The descriptor \<open>fd\<close> is open on the file at position \<open>x\<close>.\<close>

definition opened :: "vnode \<Rightarrow> nat \<Rightarrow> u32 \<Rightarrow> fsys \<Rightarrow> bool" where
  "opened node fd x s \<longleftrightarrow> fd < MAX_OPEN_FILES \<and> length (fs_open s) = MAX_OPEN_FILES
     \<and> fs_open s ! fd = node\<lparr>vn_position := x\<rparr>"

fun read_seq :: "int \<Rightarrow> u32 list \<Rightarrow> fsys \<Rightarrow> (u8 list \<times> fsys) option" where
  "read_seq fd [] s = Some ([], s)"
| "read_seq fd (k # ks) s = do {
     (r, bs, s1) \<leftarrow> vfs_read fd True k s;
     (rest, s2) \<leftarrow> read_seq fd ks s1;
     Some (bs @ rest, s2) }"

lemma opened_update: "opened node fd x s \<Longrightarrow> opened node fd y (set_open (int fd) (node\<lparr>vn_position := y\<rparr>) s)"
  by (simp add: opened_def set_open_def)

lemma opened_frame: "opened node fd x s \<Longrightarrow> fs_open s' = fs_open s \<Longrightarrow> opened node fd x s'"
  by (simp add: opened_def)

context file_handler begin

lemma ok_set_open [simp]: "ok (set_open fd n s) = ok s" "contents (set_open fd n s) = contents s"
  using ok_open by (simp_all add: set_open_def)

lemma not_bad: "ok s \<Longrightarrow> opened node fd x s \<Longrightarrow> \<not> bad_fd (int fd) s"
  using isfile [of s] by (simp add: opened_def bad_fd_def MAX_OPEN_FILES_def)

lemma read_one:
  assumes ok: "ok s" and o: "opened node fd x s" and x: "unat x \<le> length (contents s)" and k: "unat k < 2 ^ 31"
  shows "\<exists>s'. vfs_read (int fd) True k s = Some (int (length (take (unat k) (drop (unat x) (contents s)))),
      take (unat k) (drop (unat x) (contents s)), s')
    \<and> ok s' \<and> contents s' = contents s
    \<and> opened node fd (x + of_nat (length (take (unat k) (drop (unat x) (contents s))))) s'"
proof -
  let ?bs = "take (unat k) (drop (unat x) (contents s))"
  note f = isfile [OF ok]
  have sz: "unat (vn_size node) = length (contents s)" "length (contents s) < 2 ^ 31" using f by simp_all
  have n: "fs_open s ! nat (int fd) = node\<lparr>vn_position := x\<rparr>" using o by (simp add: opened_def)
  show ?thesis
  proof (cases "vn_size node \<le> x")
    case True
    then have "drop (unat x) (contents s) = []" using sz by (simp add: word_le_nat_alt)
    then show ?thesis using f n not_bad [OF ok o] True ok o
      by (intro exI [of _ s]) (simp add: vfs_read_def Let_def)
  next
    case False
    let ?k = "if vn_size node < x + k then vn_size node - x else k"
    have lt: "unat x < length (contents s)" using False sz by (simp add: word_le_nat_alt)
    have add: "unat (x + k) = unat x + unat k" using lt sz k by (simp add: unat_add_small)
    have sub: "unat (vn_size node - x) = length (contents s) - unat x"
      using lt sz by (simp add: unat_sub word_le_nat_alt)
    have uk: "unat ?k = min (unat k) (length (contents s) - unat x)"
      using lt by (auto simp: word_less_nat_alt add sub sz min_def)
    then have e: "take (unat ?k) (drop (unat x) (contents s)) = ?bs"
      by (cases "unat k \<le> length (contents s) - unat x") (simp_all add: min_def)
    have b: "unat x + unat ?k < 2 ^ 31" using uk lt sz by simp
    note law = rd_law [OF ok b]
    obtain bs where bs: "bs = ?bs" by blast
    from law obtain s1 where s1: "rd s x ?k = Some (int (length bs), bs, s1)" "ok s1" "contents s1 = contents s"
      unfolding e bs by blast
    let ?s = "if 0 < int (length bs) then set_open (int fd) (node\<lparr>vn_position := x + word_of_int (int (length bs))\<rparr>) s1 else s1"
    have o1: "opened node fd x s1" using o rd_open [OF ok b s1(1)] by (rule opened_frame)
    have "vfs_read (int fd) True k s = Some (int (length bs), bs, ?s)"
      using f not_bad [OF ok o] False s1(1) unfolding vfs_read_def Let_def n
      by (simp add: call cong: if_cong split del: if_split)
    moreover have "ok ?s" "contents ?s = contents s" using s1 by simp_all
    moreover have "opened node fd (x + of_nat (length bs)) ?s"
    proof (cases "length bs = 0")
      case True
      then show ?thesis using o1 by simp
    next
      case False
      then show ?thesis using opened_update [OF o1, of "x + of_nat (length bs)"] by simp
    qed
    ultimately show ?thesis unfolding bs by blast
  qed
qed

lemma read_many:
  "ok s \<Longrightarrow> opened node fd x s \<Longrightarrow> unat x \<le> length (contents s) \<Longrightarrow> \<forall>k\<in>set ks. unat k < 2 ^ 31 \<Longrightarrow>
   \<exists>s'. read_seq (int fd) ks s = Some (take (sum_list (map unat ks)) (drop (unat x) (contents s)), s') \<and> ok s'"
proof (induction ks arbitrary: s x)
  case (Cons k ks)
  let ?bs = "take (unat k) (drop (unat x) (contents s))"
  obtain s1 where s1: "vfs_read (int fd) True k s = Some (int (length ?bs), ?bs, s1)" "ok s1" "contents s1 = contents s"
      "opened node fd (x + of_nat (length ?bs)) s1"
    using read_one [OF Cons.prems(1-3)] Cons.prems(4) by auto
  have l: "length ?bs \<le> length (contents s) - unat x" by simp
  have "length (contents s) < 2 ^ 31" using isfile [OF Cons.prems(1)] by simp
  with l Cons.prems(3) have u: "unat (x + of_nat (length ?bs)) = unat x + length ?bs"
    by (subst unat_add_small) (simp_all add: unat_of_nat del: length_take length_drop)
  with l Cons.prems(3) have le: "unat (x + of_nat (length ?bs)) \<le> length (contents s1)"
    unfolding s1(3) by (simp del: length_take length_drop)
  have "\<forall>k\<in>set ks. unat k < 2 ^ 31" using Cons.prems(4) by simp
  from Cons.IH [OF s1(2,4) le this] obtain s2 where s2: "read_seq (int fd) ks s1
      = Some (take (sum_list (map unat ks)) (drop (unat x + length ?bs) (contents s)), s2)" "ok s2"
    unfolding u s1(3) by blast
  have "?bs @ take (sum_list (map unat ks)) (drop (unat x + length ?bs) (contents s))
      = take (unat k + sum_list (map unat ks)) (drop (unat x) (contents s))"
    by (rule take_pieces)
  then show ?case using s1(1) s2 by simp
qed simp

lemma seek_set:
  assumes ok: "ok s" and o: "opened node fd x s" and off: "off < 2 ^ 31"
  shows "\<exists>s'. vfs_lseek (int fd) (int off) 0 s = Some (int off, s') \<and> ok s' \<and> contents s' = contents s
    \<and> opened node fd (of_nat off) s'"
proof -
  have n: "fs_open s ! nat (int fd) = node\<lparr>vn_position := x\<rparr>" using o by (simp add: opened_def)
  have "sint (of_nat off :: u32) = int off" using sint_small [OF off] by simp
  then have "vfs_lseek (int fd) (int off) 0 s = Some (int off, set_open (int fd) (node\<lparr>vn_position := of_nat off\<rparr>) s)"
    using not_bad [OF ok o] n isfile [OF ok] by (simp add: vfs_lseek_def Let_def)
  then show ?thesis using ok opened_update [OF o] by simp
qed

end

text \<open>The files of a mounted RAM disk.\<close>

definition tar_file_ok :: "u8 list \<Rightarrow> vnode \<Rightarrow> fsys \<Rightarrow> bool" where
  "tar_file_ok d n s \<longleftrightarrow> tar_node_ok (vn_name n) d n s \<and> vn_name n \<noteq> []"

lemma tar_node_length: "tar_node_ok nm d n s \<Longrightarrow> length d < 2 ^ 31 \<and> unat (vn_size n) = length d"
  by (auto simp: tar_node_ok_def unat_of_nat split: option.splits)

interpretation tarf: file_handler "\<lambda>s off k. tar_read n off k s" "\<lambda>_. d" "tar_file_ok d n" Tar_read n for n d
proof
  fix s :: fsys and off k :: u32 assume "tar_file_ok d n s" "unat off + unat k < 2 ^ 31"
  then show "\<exists>s'. tar_read n off k s = Some (int (length (take (unat k) (drop (unat off) d))),
      take (unat k) (drop (unat off) d), s') \<and> tar_file_ok d n s' \<and> d = d"
    using tar_read_law by (auto simp: tar_file_ok_def)
next
  fix s :: fsys assume "tar_file_ok d n s"
  then show "vn_read n = Some Tar_read \<and> vn_name n \<noteq> [] \<and> vn_flags n AND FT_DIR = 0
      \<and> unat (vn_size n) = length d \<and> length d < 2 ^ 31 \<and> vn_lseek n = None"
    using tar_node_length [of "vn_name n" d n s] by (auto simp: tar_file_ok_def tar_node_ok_def S_IFREG_def FT_DIR_def S_IFDIR_def)
next
  fix s s' :: fsys and off k :: u32 and r bs assume "tar_read n off k s = Some (r, bs, s')"
  then show "fs_open s' = fs_open s"
    by (auto simp: tar_read_def Let_def bind_eq_Some_conv split: if_splits)
qed (simp_all add: call_read_def tar_read_def tar_file_ok_def tar_node_ok_def cong: option.case_cong)

text \<open>The files of a FAT32 volume, as far as a descriptor is open on one.\<close>

definition fat_node_ok :: "u32 list \<Rightarrow> vnode \<Rightarrow> fsys \<Rightarrow> bool" where
  "fat_node_ok cs n s \<longleftrightarrow> fat_file_ok n cs s \<and> vn_read n = Some Fat32_read \<and> vn_name n \<noteq> [] \<and> vn_lseek n = None
     \<and> vn_flags n = VFS_FILE \<and> vn_size n < 0x80000000
     \<and> (case fs_privs s (vn_priv n) of None \<Rightarrow> False | Some p \<Rightarrow> fp_size p = vn_size n)"

lemma fat_chain_open: "fat_chain (s\<lparr>fs_open := t\<rparr>) c cs = fat_chain s c cs"
  "file_bytes (s\<lparr>fs_open := t\<rparr>) cs = file_bytes s cs"
proof -
  have a: "get_first_sector_of_cluster c (s\<lparr>fs_open := t\<rparr>) = get_first_sector_of_cluster c s" "spc (s\<lparr>fs_open := t\<rparr>) = spc s"
    "sector_at (s\<lparr>fs_open := t\<rparr>) = sector_at s" "fat_next c (s\<lparr>fs_open := t\<rparr>) = fat_next c s" for c
    by (simp_all add: get_first_sector_of_cluster_def spc_def sector_at_def fun_eq_iff fat_next_def)
  have k: "cluster_ok (s\<lparr>fs_open := t\<rparr>) c = cluster_ok s c" for c by (simp add: cluster_ok_def a)
  show "fat_chain (s\<lparr>fs_open := t\<rparr>) c cs = fat_chain s c cs"
    by (induction cs arbitrary: c) (auto simp: a k split: option.splits)
  have b: "cluster_bytes (s\<lparr>fs_open := t\<rparr>) = cluster_bytes s" by (rule ext) (simp add: cluster_bytes_def a)
  show "file_bytes (s\<lparr>fs_open := t\<rparr>) cs = file_bytes s cs" by (simp add: file_bytes_def b)
qed

lemma fat_file_open [simp]: "fat_file_ok n cs (s\<lparr>fs_open := t\<rparr>) = fat_file_ok n cs s"
  "fat_contents n cs (s\<lparr>fs_open := t\<rparr>) = fat_contents n cs s"
  by (simp_all add: fat_file_ok_def fat_contents_def fat_chain_open fs_wf_def geom_ok_def hda_ok_def spc_def bpc_of_def
      cong: option.case_cong)


lemma fat_node_read:
  assumes ok: "fat_node_ok cs n s" and b: "unat off + unat k < 2 ^ 31"
  shows "\<exists>s'. fat32_read n off k s = Some (int (length (take (unat k) (drop (unat off) (fat_contents n cs s)))),
      take (unat k) (drop (unat off) (fat_contents n cs s)), s')
    \<and> fat_node_ok cs n s' \<and> fat_contents n cs s' = fat_contents n cs s \<and> fs_open s' = fs_open s"
proof -
  have f: "fat_file_ok n cs s" using ok by (simp add: fat_node_ok_def)
  obtain s' where s': "fat32_read n off k s = Some (int (length (take (unat k) (drop (unat off) (fat_contents n cs s)))),
      take (unat k) (drop (unat off) (fat_contents n cs s)), s')" "fat_file_ok n cs s'"
      "fat_contents n cs s' = fat_contents n cs s" "fs_open s' = fs_open s"
    using fat32_read_law [OF f b] by blast
  have l: "fat_file_ok n cs t \<Longrightarrow> \<exists>p. fs_privs t (vn_priv n) = Some p \<and> unat (fp_size p) = length (fat_contents n cs t)" for t
    by (auto simp: fat_file_ok_def fat_contents_def split: option.splits)
  obtain p p' where p: "fs_privs s (vn_priv n) = Some p" "fs_privs s' (vn_priv n) = Some p'"
    "unat (fp_size p) = unat (fp_size p')"
    using l [OF f] l [OF s'(2)] s'(3) by auto
  have "fp_size p = fp_size p'" using p(3) by (rule unsigned_word_eqI)
  then have "fat_node_ok cs n s'" using ok s'(2) p by (simp add: fat_node_ok_def)
  then show ?thesis using s' by blast
qed

lemma fat32_read_position: "fat32_read (n\<lparr>vn_position := x\<rparr>) off k s = fat32_read n off k s"
proof -
  have "fat_priv_of (n\<lparr>vn_position := x\<rparr>) = fat_priv_of n" by (rule ext) (simp add: fat_priv_of_def)
  then show ?thesis unfolding fat32_read_def by (simp cong: if_cong)
qed

interpretation fatf: file_handler "\<lambda>s off k. fat32_read n off k s" "fat_contents n cs" "fat_node_ok cs n" Fat32_read n for n cs
proof
  fix s :: fsys and off k :: u32 assume "fat_node_ok cs n s" "unat off + unat k < 2 ^ 31"
  from fat_node_read [OF this] show "\<exists>s'. fat32_read n off k s
      = Some (int (length (take (unat k) (drop (unat off) (fat_contents n cs s)))),
        take (unat k) (drop (unat off) (fat_contents n cs s)), s')
      \<and> fat_node_ok cs n s' \<and> fat_contents n cs s' = fat_contents n cs s" by blast
next
  fix s s' :: fsys and off k :: u32 and r bs
  assume "fat_node_ok cs n s" "unat off + unat k < 2 ^ 31" "fat32_read n off k s = Some (r, bs, s')"
  with fat_node_read [OF this(1,2)] show "fs_open s' = fs_open s" by auto
next
  fix s :: fsys assume a: "fat_node_ok cs n s"
  then obtain p where p: "fs_privs s (vn_priv n) = Some p" "unat (fp_size p) \<le> length (file_bytes s cs)" "fp_size p = vn_size n"
    by (auto simp: fat_node_ok_def fat_file_ok_def split: option.splits)
  have "unat (vn_size n) < 2 ^ 31" using a by (simp add: fat_node_ok_def word_less_nat_alt)
  then show "vn_read n = Some Fat32_read \<and> vn_name n \<noteq> [] \<and> vn_flags n AND FT_DIR = 0
      \<and> unat (vn_size n) = length (fat_contents n cs s) \<and> length (fat_contents n cs s) < 2 ^ 31 \<and> vn_lseek n = None"
    using a p by (simp add: fat_node_ok_def fat_contents_def VFS_FILE_def FT_DIR_def S_IFDIR_def)
qed (simp_all add: call_read_def fat32_read_position fat_node_ok_def)

subsection \<open>Opening, reading and closing\<close>

text \<open>A table of open files in which the free slots are cleared.\<close>

definition table_ok :: "fsys \<Rightarrow> bool" where
  "table_ok s \<longleftrightarrow> length (fs_open s) = MAX_OPEN_FILES \<and> (\<forall>n\<in>set (fs_open s). vn_name n = [] \<longrightarrow> n = vnode0)"

lemma free_fd_bound: "free_fd ns i = Some fd \<Longrightarrow> i \<le> fd \<and> fd < i + length ns \<and> vn_name (ns ! (fd - i)) = []"
proof (induction ns arbitrary: i)
  case (Cons n ns)
  then show ?case by (cases "vn_name n = []") (fastforce simp: nth_Cons')+
qed simp

lemma free_fd_lowest:
  "fd < length ns \<Longrightarrow> vn_name (ns ! fd) = [] \<Longrightarrow> \<forall>j<fd. vn_name (ns ! j) \<noteq> [] \<Longrightarrow> free_fd ns i = Some (i + fd)"
proof (induction ns arbitrary: fd i)
  case (Cons n ns)
  show ?case
  proof (cases fd)
    case 0
    then show ?thesis using Cons.prems by simp
  next
    case (Suc k)
    have "\<forall>j<k. vn_name (ns ! j) \<noteq> []" using Cons.prems(3) Suc by auto
    then show ?thesis using Cons.IH [of k "Suc i"] Cons.prems Suc by auto
  qed
qed simp

lemma free_fd_slot:
  assumes "table_ok s" and "free_fd (fs_open s) 0 = Some fd"
  shows "fd < MAX_OPEN_FILES \<and> fs_open s ! fd = vnode0"
  using free_fd_bound [OF assms(2)] assms(1) by (auto simp: table_ok_def)

lemma open_file:
  assumes ok: "tree_ok s t" and p: "cstr_ok path" "length path < VFS_PATH_MAX"
    and r: "resolve t [] (parts (\<lambda>c. c = 47) path) = Some st" and g: "tree_get t st = Some (File d)"
    and fd: "free_fd (fs_open s) 0 = Some fd"
  obtains n where "vfs_open (Some path) O_RDONLY s = Some (int fd, set_open (int fd) (n\<lparr>vn_position := 0\<rparr>) s)"
    "tar_node_ok (vn_name n) d n s" "vn_name n \<noteq> []"
proof -
  obtain n where n: "vfs_lookup (Some path) s = Some (Inr n, s)" "at_path s t st n"
    using vfs_lookup_resolve [OF ok p] r by auto
  have rp: "tar_node_ok (vn_name n) d n s" using at_path_rep [OF n(2) ok] g by auto
  have "st \<noteq> []" using g ok by (auto simp: tree_ok_def)
  then have nm: "vn_name n \<noteq> []" using at_path_name [OF n(2)] by blast
  have f: "vn_flags n = 33188" using rp by (simp add: tar_node_ok_def S_IFREG_def)
  have a: "open_access n O_RDONLY = 0" "open_trunc n O_RDONLY s = Some (0, n, s)"
    using f by (simp_all add: open_access_def open_trunc_def vfs_consts Let_def)
  have "vfs_open (Some path) O_RDONLY s = Some (int fd, set_open (int fd) (n\<lparr>vn_position := 0\<rparr>) s)"
    using fd n(1) a rp unfolding vfs_open_def Let_def
    by (simp add: open_handler_def call_open_def tar_open_def tar_node_ok_def O_APPEND_def O_RDONLY_def)
  with rp nm show thesis by (intro that)
qed

text \<open>Reading from a file of the RAM disk moves the position and does nothing else.\<close>

lemma tar_read_state: "tar_read n off k s = Some (r, bs, s') \<Longrightarrow> s' = s"
  by (auto simp: tar_read_def Let_def bind_eq_Some_conv split: if_splits)

lemma vfs_read_tar_frame:
  assumes "vfs_read (int fd) True k s = Some (r, bs, s')" and "fs_open s ! fd = n\<lparr>vn_position := x\<rparr>"
    and "vn_read n = Some Tar_read"
  shows "s' = s \<or> (\<exists>y. s' = set_open (int fd) (n\<lparr>vn_position := y\<rparr>) s)"
  using assms tar_read_state
  by (auto simp: vfs_read_def Let_def call_read_def bind_eq_Some_conv split: if_splits) metis+

lemma read_seq_tar_frame:
  "read_seq (int fd) ks s = Some (bs, s') \<Longrightarrow> opened n fd x s \<Longrightarrow> vn_read n = Some Tar_read \<Longrightarrow>
   \<exists>y. opened n fd y s' \<and> s' = s\<lparr>fs_open := (fs_open s)[fd := n\<lparr>vn_position := y\<rparr>]\<rparr>"
proof (induction ks arbitrary: s bs x)
  case Nil
  then have "(fs_open s)[fd := n\<lparr>vn_position := x\<rparr>] = fs_open s" by (simp add: opened_def) (metis list_update_id)
  then show ?case using Nil by (intro exI [of _ x]) simp
next
  case (Cons k ks)
  from Cons.prems(1) obtain r b1 s1 b2 where s1: "vfs_read (int fd) True k s = Some (r, b1, s1)"
      "read_seq (int fd) ks s1 = Some (b2, s')"
    by (auto simp: bind_eq_Some_conv)
  have o: "fs_open s ! fd = n\<lparr>vn_position := x\<rparr>" using Cons.prems(2) by (simp add: opened_def)
  from vfs_read_tar_frame [OF s1(1) o Cons.prems(3)]
  obtain y where y: "opened n fd y s1" "s1 = s \<or> s1 = s\<lparr>fs_open := (fs_open s)[fd := n\<lparr>vn_position := y\<rparr>]\<rparr>"
    using Cons.prems(2) opened_update [OF Cons.prems(2)] by (auto simp: set_open_def)
  with Cons.IH [OF s1(2) y(1) Cons.prems(3)] show ?case by auto
qed

lemma open_read_close:
  assumes ok: "tree_ok s t" and tb: "table_ok s" and p: "cstr_ok path" "length path < VFS_PATH_MAX"
    and r: "resolve t [] (parts (\<lambda>c. c = 47) path) = Some st" and g: "tree_get t st = Some (File d)"
    and fd: "free_fd (fs_open s) 0 = Some fd" and ks: "\<forall>k\<in>set ks. unat k < 2 ^ 31"
  shows "\<exists>s1 s2. vfs_open (Some path) O_RDONLY s = Some (int fd, s1)
    \<and> read_seq (int fd) ks s1 = Some (take (sum_list (map unat ks)) d, s2) \<and> vfs_close (int fd) s2 = Some (0, s)"
proof -
  obtain n where n: "vfs_open (Some path) O_RDONLY s = Some (int fd, set_open (int fd) (n\<lparr>vn_position := 0\<rparr>) s)"
      "tar_node_ok (vn_name n) d n s" "vn_name n \<noteq> []"
    using open_file [OF ok p r g fd] by blast
  obtain s1 where s1: "s1 = set_open (int fd) (n\<lparr>vn_position := 0\<rparr>) s" by blast
  have slot: "fd < MAX_OPEN_FILES" "fs_open s ! fd = vnode0" using free_fd_slot [OF tb fd] by simp_all
  have o: "opened n fd 0 s1" using slot tb by (simp add: opened_def s1 set_open_def table_ok_def)
  have k: "tar_file_ok d n s1" using n(2,3) by (simp add: tar_file_ok_def s1 set_open_def tar_node_ok_def cong: option.case_cong)
  obtain s2 where s2: "read_seq (int fd) ks s1 = Some (take (sum_list (map unat ks)) d, s2)" "tar_file_ok d n s2"
    using tarf.read_many [OF k o _ ks] by auto
  have rd: "vn_read n = Some Tar_read" "vn_close n = Some Tar_close" using n(2) by (simp_all add: tar_node_ok_def)
  obtain y where y: "opened n fd y s2" "s2 = s1\<lparr>fs_open := (fs_open s1)[fd := n\<lparr>vn_position := y\<rparr>]\<rparr>"
    using read_seq_tar_frame [OF s2(1) o rd(1)] by blast
  have "fs_open s2 ! nat (int fd) = n\<lparr>vn_position := y\<rparr>" using y(1) by (simp add: opened_def)
  then have "vfs_close (int fd) s2 = Some (0, set_open (int fd) vnode0 s2)"
    using tarf.not_bad [OF s2(2) y(1)] rd(2) by (simp add: vfs_close_def close_handler_def call_close_def tar_close_def)
  moreover have "set_open (int fd) vnode0 s2 = s"
  proof -
    have "(fs_open s)[fd := vnode0] = fs_open s" using slot by (metis list_update_id)
    then show ?thesis by (simp add: y(2) s1 set_open_def)
  qed
  ultimately show ?thesis using n(1) s2(1) s1 by auto
qed

subsection \<open>Removing\<close>

lemma unlink_loop_none:
  assumes ok: "tree_ok s t" and self: "self \<notin> dom (fs_nodes s)"
  shows "reps s a p es \<Longrightarrow> node_at (case slot of Inl d \<Rightarrow> d | Inr q \<Rightarrow> q) s = Some h
    \<Longrightarrow> (case slot of Inl _ \<Rightarrow> vn_children h | Inr _ \<Rightarrow> vn_next h) = p
    \<Longrightarrow> unlink_loop self slot s = Some (False, s)"
proof (induction es arbitrary: p slot h)
  case Nil
  then show ?case by (subst unlink_loop.simps) (simp split: sum.splits)
next
  case (Cons e es)
  then obtain n where n: "p \<noteq> 0" "fs_nodes s p = Some n" "reps s a (vn_next n) es" by (auto split: option.splits)
  have at: "node_at p s = Some n" using node_at_heap [OF ok n(1,2)] .
  have "p \<noteq> self" using self n(2) by auto
  then have "unlink_loop self slot s = unlink_loop self (Inr p) s"
    using Cons.prems(2,3) n(1) at by (subst unlink_loop.simps) (simp add: Let_def)
  moreover have "unlink_loop self (Inr p) s = Some (False, s)"
    using Cons.IH [OF n(3), of "Inr p" n] at by simp
  ultimately show ?case by simp
qed

lemma remove_file:
  assumes ok: "tree_ok s t" and p: "cstr_ok path" "length path < VFS_PATH_MAX" "path \<noteq> []"
    and r: "resolve t [] (parts (\<lambda>c. c = 47) path) = Some st" and g: "tree_get t st = Some (File d)"
    and self: "self \<notin> dom (fs_nodes s)"
  shows "vfs_remove self (Some path) s = Some (- ENOENT, s)"
proof -
  obtain n where n: "vfs_lookup (Some path) s = Some (Inr n, s)" "at_path s t st n"
    using vfs_lookup_resolve [OF ok p(1,2)] r by auto
  have rp: "tar_node_ok (vn_name n) d n s" using at_path_rep [OF n(2) ok] g by auto
  have "st \<noteq> []" using g ok by (auto simp: tree_ok_def)
  then obtain m where m: "vn_parent n \<noteq> 0" "node_at (vn_parent n) s = Some m" "at_path s t (butlast st) m"
    using at_path_parent [OF n(2) ok] by auto
  obtain u where u: "tree_get t (butlast st) = Some u" "rep s m u" using at_path_rep [OF m(3) ok] by blast
  have "tree_get t (butlast st @ [last st]) \<noteq> None" using g \<open>st \<noteq> []\<close> by simp
  then obtain es where "u = Dir es" using u(1) by (cases u) (auto simp: tree_get_append)
  then obtain a where "reps s a (vn_children m) es" using u(2) by auto
  then have "unlink_loop self (Inl (vn_parent n)) s = Some (False, s)"
    using m(2) unlink_loop_none [OF ok self, of a "vn_children m" es "Inl (vn_parent n)" m] by simp
  then show ?thesis
    using p(3) n(1) rp m(1)
    by (simp add: vfs_remove_def tar_node_ok_def close_handler_def call_close_def tar_close_def unlink_child_def
        S_ISDIR_def S_IFMT_def S_IFREG_def S_IFDIR_def)
qed

subsection \<open>Creating\<close>

definition extends :: "fsys \<Rightarrow> fsys \<Rightarrow> bool" where
  "extends s s' \<longleftrightarrow> fs_root s' = fs_root s \<and> fs_root_addr s' = fs_root_addr s \<and> fs_img s' = fs_img s
     \<and> fs_datas s' (fs_img s) = fs_datas s (fs_img s) \<and> fs_nodes s \<subseteq>\<^sub>m fs_nodes s' \<and> fs_metas s \<subseteq>\<^sub>m fs_metas s'"

lemma extends_node: "extends s s' \<Longrightarrow> fs_nodes s q = Some m \<Longrightarrow> fs_nodes s' q = Some m"
  by (auto simp: extends_def map_le_def dom_def)

lemma extends_file: "extends s s' \<Longrightarrow> tar_node_ok nm d n s \<Longrightarrow> tar_node_ok nm d n s'"
  by (auto simp: tar_node_ok_def extends_def map_le_def dom_def split: option.splits)

lemma reps_extends:
  assumes e: "extends s s'"
  shows "(\<And>e n. e \<in> set es \<Longrightarrow> rep s n (snd e) \<Longrightarrow> rep s' n (snd e)) \<Longrightarrow> reps s a p es \<Longrightarrow> reps s' a p es"
proof (induction es arbitrary: p)
  case (Cons x es)
  then obtain n where n: "p \<noteq> 0" "fs_nodes s p = Some n" "vn_name n = fst x" "fst x \<noteq> []" "vn_parent n = a"
      "rep s n (snd x)" "reps s a (vn_next n) es"
    by (auto split: option.splits)
  then show ?case using Cons.IH [OF _ n(7)] Cons.prems(1) extends_node [OF e n(2)] by simp
qed simp

lemma rep_extends:
  assumes e: "extends s s'"
  shows "rep s n t \<Longrightarrow> rep s' n t"
proof (induction t arbitrary: n)
  case (File d)
  then show ?case using extends_file [OF e] by simp
next
  case (Dir es)
  then obtain a where a: "a \<noteq> 0" "fs_nodes s a = Some n" "reps s a (vn_children n) es" by auto
  have "reps s' a (vn_children n) es"
    using a(3) by (rule reps_extends [OF e, rotated]) (use Dir.IH in \<open>auto intro: prod_set_simps\<close>)
  then show ?case using Dir.prems a extends_node [OF e a(2)] by auto
qed

lemma tree_ok_extends: "tree_ok s t \<Longrightarrow> extends s s' \<Longrightarrow> fs_root_addr s' \<notin> dom (fs_nodes s') \<Longrightarrow> tree_ok s' t"
  using rep_extends by (auto simp: tree_ok_def extends_def)

lemma isdir_bit: "S_ISDIR w \<Longrightarrow> w AND FT_DIR \<noteq> 0"
proof -
  assume "S_ISDIR w"
  then have "(w AND 0xF000) AND 0x4000 = 0x4000" by (simp add: S_ISDIR_def S_IFMT_def S_IFDIR_def)
  then have "w AND 0x4000 = 0x4000" by (simp only: and.assoc) simp
  then show ?thesis by (simp add: FT_DIR_def S_IFDIR_def)
qed

lemma split_path_ok:
  assumes "split_path path = Some (Inr (dir, name))" "cstr_ok path" "length path < VFS_PATH_MAX"
  shows "cstr_ok dir \<and> length dir < VFS_PATH_MAX"
  using assms by (auto simp: split_path_def bind_eq_Some_conv cstr_ok_def asc_def VFS_PATH_MAX_def
      dest: in_set_takeD split: option.splits if_splits)

lemma create_lost:
  assumes ok: "tree_ok s t" and wf: "fs_wf s" "root_ok s" and p: "cstr_ok path" "length path < VFS_PATH_MAX" "path \<noteq> []"
    and sp: "split_path path = Some (Inr (dir, name))"
    and d: "resolve t [] (parts (\<lambda>c. c = 47) dir) = Some st" "tree_get t st = Some (Dir es)"
    and missing: "resolve t [] (parts (\<lambda>c. c = 47) path) = None"
    and k1: "kmalloc VNODE_SIZE (fs_heap s) = (p1, h1)" "p1 \<noteq> 0" and k2: "kmalloc VNODE_SIZE h1 = (p2, h2)" "p2 \<noteq> 0"
  shows "\<exists>s'. vfs_create (Some path) flags s = Some (0, s') \<and> tree_ok s' t
    \<and> (\<exists>n. fs_nodes s' p2 = Some n \<and> vn_name n = name_cut (VFS_NAME_MAX - 1) name \<and> vn_flags n = flags)
    \<and> fs_root s' = fs_root s \<and> fs_nodes s' = (fs_nodes s)(p2 := fs_nodes s' p2)"
proof -
  have okn: "kmalloc_ok VNODE_SIZE" by (simp add: kmalloc_ok_def VNODE_SIZE_def)
  note a1 = fs_alloc_fresh [OF wf(1) okn k1]
  have nr: "unat (fs_root_addr s) < 0xC0000000" using wf(2) by (simp add: root_ok_def)
  obtain s1 where s1: "s1 = s\<lparr>fs_heap := h1, fs_nodes := (fs_nodes s)(p1 \<mapsto> vnode0)\<rparr>" by blast
  have e1: "extends s s1" using a1(4) by (auto simp: extends_def s1 map_le_def)
  have t1: "tree_ok s1 t" using ok a1(7) nr by (intro tree_ok_extends [OF ok e1]) (auto simp: s1 tree_ok_def)
  have okd: "cstr_ok dir" "length dir < VFS_PATH_MAX" using split_path_ok [OF sp p(1,2)] by simp_all
  obtain n where n: "vfs_lookup (Some dir) s1 = Some (Inr n, s1)" "at_path s1 t st n"
    using vfs_lookup_resolve [OF t1 okd] d(1) by auto
  have "rep s1 n (Dir es)" using at_path_rep [OF n(2) t1] d(2) by auto
  then have nd: "vn_flags n AND FT_DIR \<noteq> 0"
    using isdir_bit by auto
  obtain s2 where s2: "s2 = s\<lparr>fs_heap := h1, fs_nodes := (fs_nodes s)(p1 \<mapsto> n)\<rparr>" by blast
  have e2: "extends s s2" using a1(4) by (auto simp: extends_def s2 map_le_def)
  have t2: "tree_ok s2 t" using ok a1(7) nr by (intro tree_ok_extends [OF ok e2]) (auto simp: s2 tree_ok_def)
  have l2: "vfs_lookup (Some path) s2 = Some (Inl (- ENOENT), s2)"
    using vfs_lookup_resolve [OF t2 p(1,2)] missing by simp
  have wf2: "fs_wf s2" using wf(1) a1(2,3) by (auto simp: fs_wf_def s2)
  have k2': "kmalloc VNODE_SIZE (fs_heap s2) = (p2, h2)" using k2 by (simp add: s2)
  note a2 = fs_alloc_fresh [OF wf2 okn k2' k2(2)]
  have ne: "p1 \<noteq> p2" using a2(4) by (auto simp: s2)
  let ?node = "vnode0\<lparr>vn_name := name_cut (VFS_NAME_MAX - 1) name, vn_flags := flags\<rparr>"
  have "p1 \<in> live h2" using a1(3) a2(3) by (simp add: s2)
  then obtain h3 where h3: "kfree p1 h2 = Some h3" using kh.free_alive [OF a2(2)] by blast
  have fr: "fs_nodes s p1 = None" "fs_privs s p1 = None" "fs_metas s p1 = None" "fs_datas s p1 = None"
    using a1 wf(1) kh.alloc_fresh [of "fs_heap s" VNODE_SIZE] okn k1 by (auto simp: fs_wf_def)
  let ?s' = "s\<lparr>fs_heap := h3, fs_nodes := (fs_nodes s)(p2 \<mapsto> ?node\<lparr>vn_parent := p1, vn_next := vn_children n\<rparr>)\<rparr>"
  have "vfs_create (Some path) flags s = Some (0, ?s')"
  proof -
    let ?s4 = "s2\<lparr>fs_heap := h2, fs_nodes := (fs_nodes s2)(p2 \<mapsto> ?node)\<rparr>"
    let ?s5 = "?s4\<lparr>fs_nodes := (fs_nodes ?s4)(p2 \<mapsto> ?node\<lparr>vn_parent := p1, vn_next := vn_children n\<rparr>,
      p1 \<mapsto> n\<lparr>vn_children := p2\<rparr>)\<rparr>"
    have cn: "vfs_create_node (Some name) flags s2 = (p2, ?s4)"
      using a2(1) k2(2) by (simp add: vfs_create_node_def)
    have "(fs_nodes ?s5)(p1 := None) = (fs_nodes s)(p2 \<mapsto> ?node\<lparr>vn_parent := p1, vn_next := vn_children n\<rparr>)"
      using ne fr(1) by (auto simp: s2 fun_eq_iff)
    then have fre: "fs_free p1 ?s5 = Some ?s'"
      using h3 fr by (simp add: fs_free_def s2 map_upd_notin domIff)
    have s12: "s1\<lparr>fs_nodes := (fs_nodes s1)(p1 \<mapsto> n)\<rparr> = s2" by (simp add: s1 s2)
    have al: "fs_alloc VNODE_SIZE s = (p1, s\<lparr>fs_heap := h1\<rparr>)" by (rule a1(1))
    have s1': "s\<lparr>fs_heap := h1, fs_nodes := (fs_nodes s)(p1 \<mapsto> vnode0)\<rparr> = s1" by (simp add: s1)
    show ?thesis
      using p(3) sp k1(2) k2(2) nd
      by (simp add: vfs_create_def al s1' n(1) s12 l2 cn fre [simplified])
  qed
  moreover have "extends s ?s'" using a2(4) ne by (auto simp: extends_def s2 map_le_def)
  then have "tree_ok ?s' t" using ok a2(7) nr by (intro tree_ok_extends [OF ok]) (auto simp: tree_ok_def)
  ultimately show ?thesis by (intro exI [of _ ?s']) (auto simp: fun_upd_def)
qed

subsection \<open>A mounted RAM disk is a tree\<close>

definition mounted_tree :: "(cstr \<times> u8 list) list \<Rightarrow> ftree" where
  "mounted_tree fs = Dir (map (\<lambda>f. (fst f, File (snd f))) (rev fs))"

lemma dir_files_reps:
  "dir_files s a p fs \<Longrightarrow> \<forall>f\<in>set fs. fst f \<noteq> [] \<Longrightarrow> reps s a p (map (\<lambda>f. (fst f, File (snd f))) fs)"
  by (induction fs arbitrary: p) (auto simp: tar_node_ok_def split: option.splits)

lemma mounted_tree_pad_ok:
  assumes "fs_wf s" "root_ok s" "\<forall>f\<in>set fs. tar_name_ok (fst f)" "img \<noteq> 0" "fs_datas s img = Some a"
    "length a < 2 ^ 31" "kmalloc VNODE_SIZE (fs_heap s) = (r, h)" "r \<noteq> 0" "tar_room (length fs) h" "a = tar_archive fs @ pad"
  shows "\<exists>s'. mount_initrd img (of_nat (length a)) s = Some (0, s') \<and> tree_ok s' (mounted_tree fs)
    \<and> fs_open s' = fs_open s \<and> fs_wf s'"
proof -
  obtain s' where s': "mount_initrd img (of_nat (length a)) s = Some (0, s')" "fs_wf s'" "root_ok s'"
      "dir_files s' r (vn_children (fs_root s')) (rev fs)" "fs_nodes s' r = Some (fs_root s')"
      "vn_flags (fs_root s') = S_IFDIR OR 493" "vn_finddir (fs_root s') = Some Tar_finddir" "vn_parent (fs_root s') = 0"
      "fs_open s' = fs_open s"
    using mount_initrd_pad_spec [OF assms] by blast
  have "\<forall>f\<in>set (rev fs). fst f \<noteq> []" using assms(3) by (auto simp: tar_name_ok_def)
  note reps = dir_files_reps [OF s'(4) this]
  have "fs_root_addr s' \<notin> dom (fs_nodes s')"
    using s'(2,3) live_high [of "fs_heap s'"] by (force simp: fs_wf_def root_ok_def)
  moreover have "rep s' (fs_root s') (mounted_tree fs)"
    using s'(5-7) reps assms(8)
    by (auto simp: mounted_tree_def S_ISDIR_def S_IFDIR_def S_IFMT_def)
  ultimately have "tree_ok s' (mounted_tree fs)" using s'(8) by (simp add: tree_ok_def mounted_tree_def)
  then show ?thesis using s'(1,2,9) by blast
qed

lemmas mounted_tree_ok = mounted_tree_pad_ok [OF _ _ _ _ _ _ _ _ _ append_Nil2 [symmetric]]

lemma demo_mounted:
  "\<exists>s. mount_initrd 0xC0000028 3584 demo_rd = Some (0, s) \<and> tree_ok s (mounted_tree demo_files) \<and> table_ok s
    \<and> fs_open s = replicate 32 vnode0 \<and> kheap_inv (fs_heap s) \<and> dom (fs_nodes s) \<subseteq> live (fs_heap s)"
proof -
  have r: "root_ok demo_rd" by (simp add: root_ok_def demo_rd_def demo_fs_def)
  have d: "fs_datas demo_rd 0xC0000028 = Some (tar_archive demo_files)" by (simp add: demo_rd_def)
  obtain a h where k: "kmalloc VNODE_SIZE (fs_heap demo_rd) = (a, h)" by fastforce
  have n: "a \<noteq> 0" "tar_room 3 h"
    using k by (auto simp: demo_rd_def demo_fs_def kmalloc_def heap_area_def kheap_boot_def heap_consts VNODE_SIZE_def
        TAR_META_SIZE_def numeral_3_eq_3)
  have l: "length demo_files = 3" by (simp add: demo_files_def)
  have t: "fs_open demo_rd = replicate 32 vnode0" by (simp add: demo_rd_def demo_fs_def)
  show ?thesis
    using mounted_tree_ok [OF demo_rd_wf r demo_names _ d _ k n(1)] n(2) t
    unfolding l by (auto simp: demo_archive_length table_ok_def MAX_OPEN_FILES_def fs_wf_def)
qed

lemma parts_name: "nm \<noteq> [] \<Longrightarrow> 47 \<notin> set nm \<Longrightarrow> parts (\<lambda>c. c = 47) (47 # nm) = [nm]"
proof -
  assume a: "nm \<noteq> []" "47 \<notin> set nm"
  then have "dropWhile (\<lambda>c. c = 47) nm = nm" by (cases nm) auto
  moreover have "takeWhile (\<lambda>c. c \<noteq> 47) nm = nm" "dropWhile (\<lambda>c. c \<noteq> 47) nm = []" using a(2) by (auto simp: takeWhile_eq_all_conv)
  ultimately show ?thesis using a(1)
    by (subst parts.simps) (simp add: Let_def del: dropWhile_eq_Nil_conv takeWhile_eq_all_conv)
qed

lemma map_of_files: "map_of (map (\<lambda>f. (fst f, File (snd f))) fs) nm = map_option File (map_of fs nm)"
  by (induction fs) auto

lemma resolve_name:
  "nm \<noteq> asc ''.'' \<Longrightarrow> nm \<noteq> asc ''..'' \<Longrightarrow> resolve (mounted_tree fs) [] [nm] = (if map_of (rev fs) nm = None then None else Some [nm])"
  "tree_get (mounted_tree fs) [nm] = map_option File (map_of (rev fs) nm)"
  by (auto simp: mounted_tree_def map_of_files split: option.splits)

subsection \<open>Properties\<close>

text \<open>C4.  On a tree of nodes \<^verbatim>\<open>vfs_lookup\<close> refines the meaning of paths: it fails with \<open>-ENOENT\<close> exactly on
  the paths that name nothing, otherwise it returns the node of the file or directory the path names,
  with \<^verbatim>\<open>.\<close>, \<^verbatim>\<open>..\<close>, repeated and trailing separators handled; it always returns and changes nothing.\<close>

theorem vfs_lookup_refines:
  assumes "tree_ok s t" and "cstr_ok path" and "length path < VFS_PATH_MAX"
  shows "(case resolve t [] (parts (\<lambda>c. c = 47) path) of
      None \<Rightarrow> vfs_lookup (Some path) s = Some (Inl (- ENOENT), s)
    | Some st \<Rightarrow> \<exists>n u. vfs_lookup (Some path) s = Some (Inr n, s) \<and> tree_get t st = Some u \<and> rep s n u)"
  using vfs_lookup_resolve [OF assms] at_path_rep [OF _ assms(1)] by (fastforce split: option.splits)

lemma vfs_lookup_refines_witness:
  "\<exists>s n. vfs_lookup (Some (asc ''/.././/motd'')) s = Some (Inr n, s) \<and> rep s n (File (asc ''hello''))"
proof -
  obtain s where s: "tree_ok s (mounted_tree demo_files)" using demo_mounted by blast
  let ?p = "asc ''/.././/motd''"
  have "parts (\<lambda>c. c = 47) ?p = [asc ''..'', asc ''.'', asc ''motd'']"
    by (simp add: asc_def parts.simps Let_def)
  moreover have "resolve (mounted_tree demo_files) [] [asc ''..'', asc ''.'', asc ''motd''] = Some [asc ''motd'']"
    by (simp add: mounted_tree_def demo_files_def asc_def)
  moreover have "tree_get (mounted_tree demo_files) [asc ''motd''] = Some (File (asc ''hello''))"
    by (simp add: mounted_tree_def demo_files_def asc_def)
  moreover have "cstr_ok ?p" "length ?p < VFS_PATH_MAX" by (simp_all add: asc_def VFS_PATH_MAX_def)
  ultimately show ?thesis using vfs_lookup_refines [OF s, of ?p] by auto
qed

text \<open>C17.  Opening a file of the tree read-only takes the lowest free descriptor: the one whose slot in the table has no name
  while all the slots below have one.  Reading it in pieces of any sizes returns the file's bytes in order, cut at its end,
  and closing the descriptor restores the state from before.\<close>

theorem vfs_open_read_close:
  assumes "tree_ok s t" and "table_ok s" and "cstr_ok path" and "length path < VFS_PATH_MAX"
    and "resolve t [] (parts (\<lambda>c. c = 47) path) = Some st" and "tree_get t st = Some (File d)"
    and "fd < MAX_OPEN_FILES" and "vn_name (fs_open s ! fd) = []" and "\<forall>j<fd. vn_name (fs_open s ! j) \<noteq> []"
    and "\<forall>k\<in>set ks. unat k < 2 ^ 31"
  shows "\<exists>s1 s2. vfs_open (Some path) O_RDONLY s = Some (int fd, s1)
    \<and> read_seq (int fd) ks s1 = Some (take (sum_list (map unat ks)) d, s2) \<and> vfs_close (int fd) s2 = Some (0, s)"
proof -
  have "free_fd (fs_open s) 0 = Some fd" using free_fd_lowest [of fd "fs_open s" 0] assms(2,7-9) by (simp add: table_ok_def)
  then show ?thesis using open_read_close [OF assms(1-6) _ assms(10)] by blast
qed

lemma vfs_open_read_close_witness:
  "\<exists>s s1 s2. vn_name (fs_open s ! 0) \<noteq> [] \<and> vfs_open (Some (asc ''/a'')) O_RDONLY s = Some (1, s1)
    \<and> read_seq 1 [2, 1, 7] s1 = Some (asc ''two!'', s2) \<and> vfs_close 1 s2 = Some (0, s)"
proof -
  obtain s0 where s0: "tree_ok s0 (mounted_tree demo_files)" "table_ok s0" "fs_open s0 = replicate 32 vnode0"
    using demo_mounted by blast
  let ?n = "vnode0\<lparr>vn_name := asc ''x''\<rparr>"
  let ?s = "s0\<lparr>fs_open := (replicate 32 vnode0)[0 := ?n]\<rparr>"
  have "tree_ok ?s (mounted_tree demo_files)"
    using s0(1) by (rule tree_ok_extends) (use s0(1) in \<open>simp_all add: extends_def tree_ok_def\<close>)
  moreover have "table_ok ?s" by (auto simp: table_ok_def MAX_OPEN_FILES_def asc_def dest: set_update_subset_insert [THEN subsetD])
  moreover have "parts (\<lambda>c. c = 47) (asc ''/a'') = [asc ''a'']" by (simp add: asc_def parts.simps Let_def)
  moreover have "resolve (mounted_tree demo_files) [] [asc ''a''] = Some [asc ''a'']"
    "tree_get (mounted_tree demo_files) [asc ''a''] = Some (File (asc ''two!''))"
    by (simp_all add: mounted_tree_def demo_files_def asc_def)
  moreover have "cstr_ok (asc ''/a'')" "length (asc ''/a'') < VFS_PATH_MAX" by (simp_all add: asc_def VFS_PATH_MAX_def)
  moreover have "1 < MAX_OPEN_FILES" "vn_name (fs_open ?s ! 1) = []" "\<forall>j<1. vn_name (fs_open ?s ! j) \<noteq> []"
    by (simp_all add: MAX_OPEN_FILES_def vnode0_def asc_def)
  ultimately obtain s1 s2 where r: "vfs_open (Some (asc ''/a'')) O_RDONLY ?s = Some (int 1, s1)
      \<and> read_seq (int 1) [2, 1, 7] s1 = Some (take (sum_list (map unat [2 :: u32, 1, 7])) (asc ''two!''), s2) \<and> vfs_close (int 1) s2 = Some (0, ?s)"
    using vfs_open_read_close [of ?s "mounted_tree demo_files" "asc ''/a''" "[asc ''a'']" "asc ''two!''" 1 "[2, 1, 7]"] by fastforce
  have e: "take (sum_list (map unat [2 :: u32, 1, 7])) (asc ''two!'') = asc ''two!''" by (simp add: asc_def)
  have n: "vn_name (fs_open ?s ! 0) \<noteq> []" by (simp add: asc_def)
  show ?thesis
    by (intro exI [of _ ?s] exI [of _ s1] exI [of _ s2] conjI n) (use r in \<open>simp_all only: e of_nat_1\<close>)
qed

text \<open>On a descriptor that is open on a FAT32 file, seeking to a position and then reading in pieces of
  any sizes returns the file's bytes from that position on, cut at its end.\<close>

theorem vfs_seek_read_fat:
  assumes "fat_node_ok cs n s" and "opened n fd x s" and "off \<le> length (fat_contents n cs s)"
    and "\<forall>k\<in>set ks. unat k < 2 ^ 31"
  shows "\<exists>s1 s2. vfs_lseek (int fd) (int off) 0 s = Some (int off, s1)
    \<and> read_seq (int fd) ks s1 = Some (take (sum_list (map unat ks)) (drop off (fat_contents n cs s)), s2)"
proof -
  have l: "off < 2 ^ 31" using assms(3) fatf.isfile [OF assms(1)] by simp
  obtain s1 where s1: "vfs_lseek (int fd) (int off) 0 s = Some (int off, s1)" "fat_node_ok cs n s1"
      "fat_contents n cs s1 = fat_contents n cs s" "opened n fd (of_nat off) s1"
    using fatf.seek_set [OF assms(1,2) l] by blast
  have "unat (of_nat off :: u32) = off" using l by (simp add: unat_of_nat)
  with fatf.read_many [OF s1(2,4) _ assms(4)] s1(1,3) assms(3) show ?thesis by auto
qed

definition demo_open :: vnode where
  "demo_open = demo_file\<lparr>vn_read := Some Fat32_read, vn_flags := VFS_FILE, vn_size := 5\<rparr>"

lemma demo_open_ok: "fat_node_ok [3] demo_open (demo_file_fs\<lparr>fs_open := t\<rparr>)"
proof -
  have "fat_file_ok demo_open [3] demo_file_fs" using demo_file_ok by (simp add: fat_file_ok_def demo_open_def)
  then have "fat_file_ok demo_open [3] (demo_file_fs\<lparr>fs_open := t\<rparr>)" by simp
  then show ?thesis
    by (simp add: fat_node_ok_def) (simp add: demo_open_def demo_file_def demo_file_fs_def vnode0_def asc_def)
qed

lemma vfs_seek_read_fat_witness:
  "\<exists>s s1 s2. vfs_lseek 2 3 0 s = Some (3, s1) \<and> read_seq 2 [1, 100] s1 = Some (asc ''lo'', s2)"
proof -
  let ?s = "demo_file_fs\<lparr>fs_open := replicate 32 demo_open\<rparr>"
  have c: "fat_contents demo_open [3] ?s = asc ''hello''"
  proof -
    have "file_bytes ?s [3] = file_bytes demo_fs [3]" unfolding fat_chain_open by (simp add: demo_file_fs_def)
    moreover have "fs_privs ?s (vn_priv demo_open) = Some \<lparr>fp_cluster = 3, fp_size = 5, fp_pos = 0, fp_is_dir = False\<rparr>"
      by (simp add: demo_file_fs_def demo_open_def demo_file_def)
    ultimately show ?thesis using demo_hello(1) by (simp add: fat_contents_def)
  qed
  have "demo_open\<lparr>vn_position := 0\<rparr> = demo_open" by (simp add: demo_open_def demo_file_def vnode0_def)
  then have o: "opened demo_open 2 0 ?s" by (simp add: opened_def MAX_OPEN_FILES_def)
  have l: "length (fat_contents demo_open [3] ?s) = 5" unfolding c by (simp add: asc_def)
  have "\<exists>s1 s2. vfs_lseek (int 2) (int 3) 0 ?s = Some (int 3, s1)
      \<and> read_seq (int 2) [1, 100] s1 = Some (take (sum_list (map unat [1 :: u32, 100])) (drop 3 (fat_contents demo_open [3] ?s)), s2)"
    by (rule vfs_seek_read_fat [OF demo_open_ok o]) (use l in simp_all)
  then show ?thesis unfolding c by (auto simp: asc_def)
qed

text \<open>\<^verbatim>\<open>vfs_remove\<close> never removes a file: it compares the addresses of names, and the name of a local
  copy is at none of the addresses in the tree.  The result is \<open>-ENOENT\<close> and nothing changes.\<close>

theorem vfs_remove_never:
  assumes "tree_ok s t" and "cstr_ok path" and "length path < VFS_PATH_MAX" and "path \<noteq> []"
    and "resolve t [] (parts (\<lambda>c. c = 47) path) = Some st" and "tree_get t st = Some (File d)"
    and "self \<notin> dom (fs_nodes s)"
  shows "vfs_remove self (Some path) s = Some (- ENOENT, s)"
  using remove_file [OF assms] .

lemma vfs_remove_never_witness:
  "\<exists>s. mount_initrd 0xC0000028 3584 demo_rd = Some (0, s) \<and> vfs_remove 0x9F000 (Some (asc ''/motd'')) s = Some (- ENOENT, s)"
proof -
  obtain s where s: "mount_initrd 0xC0000028 3584 demo_rd = Some (0, s)" "tree_ok s (mounted_tree demo_files)"
    "kheap_inv (fs_heap s)" "dom (fs_nodes s) \<subseteq> live (fs_heap s)"
    using demo_mounted by auto
  have "parts (\<lambda>c. c = 47) (asc ''/motd'') = [asc ''motd'']" by (simp add: asc_def parts.simps Let_def)
  moreover have "resolve (mounted_tree demo_files) [] [asc ''motd''] = Some [asc ''motd'']"
    "tree_get (mounted_tree demo_files) [asc ''motd''] = Some (File (asc ''hello''))"
    by (simp_all add: mounted_tree_def demo_files_def asc_def)
  moreover have "cstr_ok (asc ''/motd'')" "length (asc ''/motd'') < VFS_PATH_MAX" "asc ''/motd'' \<noteq> []"
    by (simp_all add: asc_def VFS_PATH_MAX_def)
  moreover have "0x9F000 \<notin> dom (fs_nodes s)" using live_high [OF s(3), of "0x9F000"] s(4) by auto
  ultimately have "vfs_remove 0x9F000 (Some (asc ''/motd'')) s = Some (- ENOENT, s)"
    by (intro vfs_remove_never [OF s(2)]) simp_all
  with s(1) show ?thesis by blast
qed

text \<open>C18.  \<^verbatim>\<open>vfs_create\<close> reports success but loses the new node, which it links to a copy of the parent that it
  frees: afterwards every lookup still has the result it had before, and the path is still missing.\<close>

theorem vfs_create_loses_node:
  assumes "tree_ok s t" and "fs_wf s" and "root_ok s" and "cstr_ok path" and "length path < VFS_PATH_MAX"
    and "path \<noteq> []" and "split_path path = Some (Inr (dir, name))"
    and "resolve t [] (parts (\<lambda>c. c = 47) dir) = Some st" and "tree_get t st = Some (Dir es)"
    and "resolve t [] (parts (\<lambda>c. c = 47) path) = None"
    and "kmalloc VNODE_SIZE (fs_heap s) = (p1, h1)" and "p1 \<noteq> 0" and "kmalloc VNODE_SIZE h1 = (p2, h2)" and "p2 \<noteq> 0"
  shows "\<exists>s'. vfs_create (Some path) flags s = Some (0, s') \<and> tree_ok s' t
    \<and> fs_nodes s' = (fs_nodes s)(p2 := fs_nodes s' p2) \<and> fs_nodes s' p2 \<noteq> None
    \<and> vfs_lookup (Some path) s' = Some (Inl (- ENOENT), s')"
proof -
  obtain s' where s': "vfs_create (Some path) flags s = Some (0, s')" "tree_ok s' t" "fs_nodes s' p2 \<noteq> None"
      "fs_nodes s' = (fs_nodes s)(p2 := fs_nodes s' p2)"
    using create_lost [OF assms, where flags = flags] by blast
  then show ?thesis using vfs_lookup_resolve [OF s'(2) assms(4,5)] assms(10) by auto
qed

definition demo_root :: vnode where
  "demo_root = vnode0\<lparr>vn_name := asc ''/'', vn_flags := S_IFDIR OR 493\<rparr>"

definition demo_empty :: fsys where
  "demo_empty = demo_fs\<lparr>fs_heap := snd (kmalloc 332 (heap_area kheap_boot)), fs_datas := Map.empty,
     fs_nodes := [0xC000000C \<mapsto> demo_root], fs_root := demo_root\<rparr>"

lemma demo_empty_ok: "tree_ok demo_empty (Dir [])" "fs_wf demo_empty" "root_ok demo_empty"
proof -
  show "tree_ok demo_empty (Dir [])"
    by (simp add: tree_ok_def demo_empty_def demo_fs_def demo_root_def vnode0_def S_ISDIR_def S_IFDIR_def S_IFMT_def)
  have "kheap_inv (fs_heap demo_empty)"
    using kmalloc_inv [OF heap_area_inv, of 332] by (simp add: demo_empty_def kmalloc_ok_def)
  moreover have "live (fs_heap demo_empty) = {0xC000000C}"
    by (simp add: demo_empty_def extents_live kmalloc_def heap_area_def kheap_boot_def heap_consts)
  ultimately show "fs_wf demo_empty" by (simp add: fs_wf_def) (simp add: demo_empty_def demo_fs_def)
  show "root_ok demo_empty" by (simp add: root_ok_def demo_empty_def demo_fs_def)
qed

lemma vfs_create_loses_node_witness:
  "\<exists>s'. vfs_create (Some (asc ''/tmp'')) 16877 demo_empty = Some (0, s')
    \<and> vfs_lookup (Some (asc ''/tmp'')) s' = Some (Inl (- ENOENT), s')"
proof -
  obtain p1 h1 where k1: "kmalloc VNODE_SIZE (fs_heap demo_empty) = (p1, h1)" by fastforce
  obtain p2 h2 where k2: "kmalloc VNODE_SIZE h1 = (p2, h2)" by fastforce
  have n: "p1 \<noteq> 0" "p2 \<noteq> 0"
    using k1 k2 by (auto simp: demo_empty_def kmalloc_def heap_area_def kheap_boot_def heap_consts VNODE_SIZE_def)
  have sp: "split_path (asc ''/tmp'') = Some (Inr (asc ''/'', asc ''tmp''))"
    by (simp add: split_path_def k_strrchr_def asc_def)
  have pt: "parts (\<lambda>c. c = 47) (asc ''/tmp'') = [asc ''tmp'']" "parts (\<lambda>c. c = 47) (asc ''/'') = []"
    by (simp_all add: asc_def parts.simps Let_def)
  have r: "resolve (Dir []) [] [asc ''tmp''] = None" by (simp add: asc_def)
  show ?thesis
    using vfs_create_loses_node [OF demo_empty_ok _ _ _ sp _ _ _ k1 n(1) k2 n(2), of "[]" "[]" 16877] pt r
    by (auto simp: asc_def VFS_PATH_MAX_def)
qed

subsection \<open>The descriptor table\<close>

lemma free_fd_least: "free_fd ns k = Some i \<Longrightarrow> k \<le> j \<Longrightarrow> j < i \<Longrightarrow> vn_name (ns ! (j - k)) \<noteq> []"
  by (induction ns k rule: free_fd.induct) (auto simp: nth_Cons' split: if_splits)

lemma free_fd_None: "free_fd ns k = None \<longleftrightarrow> (\<forall>n\<in>set ns. vn_name n \<noteq> [])"
  by (induction ns k rule: free_fd.induct) auto

text \<open>The descriptor \<^verbatim>\<open>vfs_open\<close> takes, negative when there is none.\<close>

definition vfs_pick :: "fsys \<Rightarrow> int" where
  "vfs_pick s = (case free_fd (fs_open s) 0 of None \<Rightarrow> - EMFILE | Some i \<Rightarrow> int i)"

interpretation vfdt: slot_table fs_open "\<lambda>n. vn_name n = []" vfs_pick "\<lambda>i. set_open (int i)"
proof
  fix s :: fsys and i j :: nat and x :: vnode
  show "vfs_pick s = int i \<Longrightarrow> i < length (fs_open s) \<and> vn_name (fs_open s ! i) = []"
    using free_fd_bound [of "fs_open s" 0 i] by (auto simp: vfs_pick_def split: option.splits)
  show "vfs_pick s = int i \<Longrightarrow> j < i \<Longrightarrow> vn_name (fs_open s ! j) \<noteq> []"
    using free_fd_least [of "fs_open s" 0 i j] by (auto simp: vfs_pick_def split: option.splits)
  show "(vfs_pick s < 0) = (\<forall>x\<in>set (fs_open s). vn_name x \<noteq> [])"
    using free_fd_None [of "fs_open s" 0] by (auto simp: vfs_pick_def split: option.splits)
  show "i < length (fs_open s) \<Longrightarrow> fs_open (set_open (int i) x s) = (fs_open s)[i := x]"
    by (simp add: set_open_def)
qed

text \<open>A descriptor that is closed is the next one handed out unless a lower one is free.\<close>

lemma vfs_closed_is_next:
  assumes "fd < length (fs_open s)" and "vfs_pick s = int i"
  shows "vfs_pick (set_open (int fd) vnode0 s) = int (min fd i)"
  using vfdt.pick_vacated [OF assms(1), of vnode0] assms(2) by (simp add: vnode0_def)

subsection \<open>Whole files\<close>

text \<open>An opened file of the RAM disk, ready for the lemmas of \<open>tarf\<close>.\<close>

lemma open_file_ok:
  assumes ok: "tree_ok s t" and tb: "table_ok s" and p: "cstr_ok path" "length path < VFS_PATH_MAX"
    and r: "resolve t [] (parts (\<lambda>c. c = 47) path) = Some st" and g: "tree_get t st = Some (File d)"
    and fd: "free_fd (fs_open s) 0 = Some fd"
  obtains n s1 where "vfs_open (Some path) O_RDONLY s = Some (int fd, s1)" "opened n fd 0 s1" "tar_file_ok d n s1"
    "s1 = set_open (int fd) (n\<lparr>vn_position := 0\<rparr>) s" "vn_read n = Some Tar_read" "vn_close n = Some Tar_close"
proof -
  obtain n where n: "vfs_open (Some path) O_RDONLY s = Some (int fd, set_open (int fd) (n\<lparr>vn_position := 0\<rparr>) s)"
      "tar_node_ok (vn_name n) d n s" "vn_name n \<noteq> []"
    using open_file [OF ok p r g fd] by blast
  let ?s = "set_open (int fd) (n\<lparr>vn_position := 0\<rparr>) s"
  have slot: "fd < MAX_OPEN_FILES" using free_fd_slot [OF tb fd] by simp
  have "opened n fd 0 ?s" using slot tb by (simp add: opened_def set_open_def table_ok_def)
  moreover have "tar_file_ok d n ?s"
    using n(2,3) by (simp add: tar_file_ok_def set_open_def tar_node_ok_def cong: option.case_cong)
  moreover have "vn_read n = Some Tar_read" "vn_close n = Some Tar_close" using n(2) unfolding tar_node_ok_def by blast+
  ultimately show thesis using n(1) by (intro that) simp_all
qed

lemma vfs_read_opened:
  assumes "tar_file_ok d n s" and "opened n fd x s" and "unat x \<le> length d" and "unat k < 2 ^ 31"
  obtains y s' where "vfs_read (int fd) True k s = Some (int (length (take (unat k) (drop (unat x) d))), take (unat k) (drop (unat x) d), s')"
    "tar_file_ok d n s'" "opened n fd y s'" "unat y = unat x + length (take (unat k) (drop (unat x) d))"
    "s' = s\<lparr>fs_open := (fs_open s)[fd := n\<lparr>vn_position := y\<rparr>]\<rparr>"
proof -
  obtain s' where s': "vfs_read (int fd) True k s = Some (int (length (take (unat k) (drop (unat x) d))), take (unat k) (drop (unat x) d), s')"
      "tar_file_ok d n s'" "opened n fd (x + of_nat (length (take (unat k) (drop (unat x) d)))) s'"
    using tarf.read_one [OF assms] by auto
  let ?y = "x + of_nat (length (take (unat k) (drop (unat x) d)))"
  have rd: "vn_read n = Some Tar_read" "length d < 2 ^ 31" using tarf.isfile [OF assms(1)] by simp_all
  have l: "length (take (unat k) (drop (unat x) d)) \<le> length d - unat x" by simp
  have u: "unat ?y = unat x + length (take (unat k) (drop (unat x) d))"
    using rd(2) l assms(3) by (subst unat_add_small) (simp_all add: unat_of_nat del: length_take length_drop)
  have o: "fs_open s ! fd = n\<lparr>vn_position := x\<rparr>" using assms(2) by (simp add: opened_def)
  from vfs_read_tar_frame [OF s'(1) o rd(1)] obtain z where z: "s' = s \<or> s' = s\<lparr>fs_open := (fs_open s)[fd := n\<lparr>vn_position := z\<rparr>]\<rparr>"
    by (auto simp: set_open_def)
  have "s' = s\<lparr>fs_open := (fs_open s)[fd := n\<lparr>vn_position := ?y\<rparr>]\<rparr>"
    using z
  proof
    assume e: "s' = s"
    then have "fs_open s ! fd = n\<lparr>vn_position := ?y\<rparr>" using s'(3) by (simp add: opened_def)
    then have "(fs_open s)[fd := n\<lparr>vn_position := ?y\<rparr>] = fs_open s" by (metis list_update_id)
    then show ?thesis using e by simp
  next
    assume e: "s' = s\<lparr>fs_open := (fs_open s)[fd := n\<lparr>vn_position := z\<rparr>]\<rparr>"
    moreover have "(fs_open s)[fd := n\<lparr>vn_position := z\<rparr>] ! fd = n\<lparr>vn_position := z\<rparr>"
      using assms(2) by (intro nth_list_update_eq) (simp add: opened_def)
    moreover have "fs_open s' = (fs_open s)[fd := n\<lparr>vn_position := z\<rparr>]" by (simp add: e)
    moreover have "fs_open s' ! fd = n\<lparr>vn_position := ?y\<rparr>" using s'(3) unfolding opened_def by blast
    ultimately have "n\<lparr>vn_position := z\<rparr> = n\<lparr>vn_position := ?y\<rparr>" by metis
    then show ?thesis using e by simp
  qed
  with s' u show thesis by (intro that) simp_all
qed

lemma vfs_close_opened:
  assumes "table_ok s0" and "fs_open s0 ! fd = vnode0" and "fd < MAX_OPEN_FILES"
    and "tar_file_ok d n s" and "opened n fd y s" and "vn_close n = Some Tar_close"
    and "s = s0\<lparr>fs_open := (fs_open s0)[fd := n\<lparr>vn_position := y\<rparr>]\<rparr>"
  shows "vfs_close (int fd) s = Some (0, s0)"
proof -
  have "fs_open s ! nat (int fd) = n\<lparr>vn_position := y\<rparr>" using assms(5) by (simp add: opened_def)
  then have "vfs_close (int fd) s = Some (0, set_open (int fd) vnode0 s)"
    using tarf.not_bad [OF assms(4,5)] assms(6) by (simp add: vfs_close_def close_handler_def call_close_def tar_close_def)
  moreover have "(fs_open s0)[fd := vnode0] = fs_open s0" using assms(2) by (metis list_update_id)
  then have "set_open (int fd) vnode0 s = s0" by (simp add: assms(7) set_open_def)
  ultimately show ?thesis by simp
qed

lemma read_all_file:
  assumes ok: "tree_ok s t" and tb: "table_ok s" and p: "cstr_ok path" "length path < VFS_PATH_MAX"
    and r: "resolve t [] (parts (\<lambda>c. c = 47) path) = Some st" and g: "tree_get t st = Some (File d)"
    and fd: "free_fd (fs_open s) 0 = Some fd" and m: "m \<noteq> 0" "unat m \<le> 2 ^ 31"
  shows "vfs_read_all (Some path) True m s = Some (0, take (unat m - 1) d @ [0], s)"
proof -
  obtain n s1 where o: "vfs_open (Some path) O_RDONLY s = Some (int fd, s1)" "opened n fd 0 s1" "tar_file_ok d n s1"
      "s1 = set_open (int fd) (n\<lparr>vn_position := 0\<rparr>) s" "vn_close n = Some Tar_close"
    using open_file_ok [OF ok tb p r g fd] by blast
  have um: "unat (m - 1) = unat m - 1" using m(1) by (simp add: unat_minus_one)
  then have lt: "unat (m - 1) < 2 ^ 31" using m by (simp add: unat_gt_0)
  obtain y s2 where rd: "vfs_read (int fd) True (m - 1) s1 = Some (int (length (take (unat m - 1) d)), take (unat m - 1) d, s2)"
      "tar_file_ok d n s2" "opened n fd y s2" "s2 = s1\<lparr>fs_open := (fs_open s1)[fd := n\<lparr>vn_position := y\<rparr>]\<rparr>"
    using vfs_read_opened [OF o(3,2) _ lt, simplified um unat_0 drop_0] by blast
  have slot: "fd < MAX_OPEN_FILES" "fs_open s ! fd = vnode0" using free_fd_slot [OF tb fd] by simp_all
  have "s2 = s\<lparr>fs_open := (fs_open s)[fd := n\<lparr>vn_position := y\<rparr>]\<rparr>" using rd(4) o(4) by (simp add: set_open_def)
  then have "vfs_close (int fd) s2 = Some (0, s)"
    using vfs_close_opened [OF tb slot(2,1) rd(2,3) o(5)] by simp
  then show ?thesis using o(1) rd(1) m(1) by (simp add: vfs_read_all_def)
qed

text \<open>C5.  Mounting an archive and then reading a file by its path returns, NUL-terminated and cut at the
  buffer's size, the data of the last member of that name; the state is left as the mount made it.\<close>

theorem mounted_file_readable:
  assumes "fs_wf s" and "root_ok s" and "\<forall>f\<in>set fs. tar_name_ok (fst f)" and "img \<noteq> 0"
    and "fs_datas s img = Some (tar_archive fs)" and "length (tar_archive fs) < 2 ^ 31"
    and "kmalloc VNODE_SIZE (fs_heap s) = (r, h)" and "r \<noteq> 0" and "tar_room (length fs) h"
    and "table_ok s" and "free_fd (fs_open s) 0 \<noteq> None"
    and "map_of (rev fs) nm = Some d" and "nm \<noteq> asc ''.''" and "nm \<noteq> asc ''..''"
    and "m \<noteq> 0" and "unat m \<le> 2 ^ 31"
  shows "\<exists>s'. mount_initrd img (of_nat (length (tar_archive fs))) s = Some (0, s')
    \<and> vfs_read_all (Some (47 # nm)) True m s' = Some (0, take (unat m - 1) d @ [0], s')"
proof -
  obtain s' where s': "mount_initrd img (of_nat (length (tar_archive fs))) s = Some (0, s')" "tree_ok s' (mounted_tree fs)"
      "fs_open s' = fs_open s"
    using mounted_tree_ok [OF assms(1-9)] by blast
  have "(nm, d) \<in> set fs" using map_of_SomeD [OF assms(12)] by simp
  then have nm: "tar_name_ok nm" using assms(3) by fastforce
  have tb: "table_ok s'" using assms(10) s'(3) by (simp add: table_ok_def)
  obtain fd where fd: "free_fd (fs_open s') 0 = Some fd" using assms(11) s'(3) by auto
  have p: "cstr_ok (47 # nm)" "length (47 # nm) < VFS_PATH_MAX"
    using nm by (simp_all add: tar_name_ok_def cstr_ok_def VFS_PATH_MAX_def)
  have "parts (\<lambda>c. c = 47) (47 # nm) = [nm]" using nm by (intro parts_name) (simp_all add: tar_name_ok_def)
  then have r: "resolve (mounted_tree fs) [] (parts (\<lambda>c. c = 47) (47 # nm)) = Some [nm]"
    and g: "tree_get (mounted_tree fs) [nm] = Some (File d)"
    using resolve_name(1) [OF assms(13,14)] resolve_name(2) assms(12) by auto
  show ?thesis using s'(1) read_all_file [OF s'(2) tb p r g fd assms(15,16)] by blast
qed

lemma mounted_file_readable_witness:
  "\<exists>s'. mount_initrd 0xC0000028 3584 demo_rd = Some (0, s')
    \<and> vfs_read_all (Some (asc ''/motd'')) True 4 s' = Some (0, asc ''hel'' @ [0], s')"
proof -
  have r: "root_ok demo_rd" by (simp add: root_ok_def demo_rd_def demo_fs_def)
  have d: "fs_datas demo_rd 0xC0000028 = Some (tar_archive demo_files)" by (simp add: demo_rd_def)
  obtain a h where k: "kmalloc VNODE_SIZE (fs_heap demo_rd) = (a, h)" by fastforce
  have n: "a \<noteq> 0" "tar_room (length demo_files) h"
    using k by (auto simp: demo_rd_def demo_fs_def kmalloc_def heap_area_def kheap_boot_def heap_consts VNODE_SIZE_def
        TAR_META_SIZE_def numeral_3_eq_3 demo_files_def)
  have o: "fs_open demo_rd = replicate 32 vnode0" by (simp add: demo_rd_def demo_fs_def)
  have t: "table_ok demo_rd" "free_fd (fs_open demo_rd) 0 \<noteq> None"
    by (simp_all add: table_ok_def o MAX_OPEN_FILES_def) (simp add: vnode0_def numeral_eq_Suc)
  have m: "map_of (rev demo_files) (asc ''motd'') = Some (asc ''hello'')" by (simp add: demo_files_def asc_def)
  show ?thesis
    using mounted_file_readable [OF demo_rd_wf r demo_names _ d _ k n t m, of 4]
    by (simp add: demo_archive_length asc_def)
qed

end
