(* ===== verification/Elf.thy ===== *)
theory Elf
  imports VfsTree Process
begin

text \<open>
  \<^verbatim>\<open>kernel/elf.c\<close>, \<^verbatim>\<open>include/kernel/elf.h\<close> and \<^verbatim>\<open>process_exec\<close> of \<^verbatim>\<open>kernel/process.c\<close>: checking an ELF
  header, loading the segments of a program and entering it.

  A header is the list of its bytes, its members are read with \<open>le16\<close> and \<open>le32\<close> at their offsets.
  \<^verbatim>\<open>map_page\<close> does nothing in the repository (\<^verbatim>\<open>kernel/kutils.c\<close>), so \<open>map_pages\<close> only takes pages from
  the heap.  Segments are copied to the memory \<open>ps_mem\<close>; that a segment may lie over the kernel's own
  objects is not modelled.  Serial output is left out.
\<close>

subsection \<open>Headers\<close>

definition EHDR_SIZE :: u32 where "EHDR_SIZE = 52"
definition PHDR_SIZE :: nat where "PHDR_SIZE = 32"
definition PT_LOAD :: u32 where "PT_LOAD = 1"

definition e_machine :: "u8 list \<Rightarrow> u16" where "e_machine h = le16 h 18"
definition e_entry :: "u8 list \<Rightarrow> u32" where "e_entry h = le32 h 24"
definition e_phoff :: "u8 list \<Rightarrow> u32" where "e_phoff h = le32 h 28"
definition e_phnum :: "u8 list \<Rightarrow> u16" where "e_phnum h = le16 h 44"

definition p_type :: "u8 list \<Rightarrow> u32" where "p_type h = le32 h 0"
definition p_offset :: "u8 list \<Rightarrow> u32" where "p_offset h = le32 h 4"
definition p_vaddr :: "u8 list \<Rightarrow> u32" where "p_vaddr h = le32 h 8"
definition p_filesz :: "u8 list \<Rightarrow> u32" where "p_filesz h = le32 h 16"
definition p_memsz :: "u8 list \<Rightarrow> u32" where "p_memsz h = le32 h 20"

definition elf_magic :: "u8 list \<Rightarrow> bool" where
  "elf_magic h \<longleftrightarrow> byte_at h 0 = 0x7F \<and> byte_at h 1 = 0x45 \<and> byte_at h 2 = 0x4C \<and> byte_at h 3 = 0x46"

definition elf_validate :: "u8 list \<Rightarrow> bool" where
  "elf_validate h \<longleftrightarrow> elf_magic h \<and> byte_at h 4 = 1 \<and> byte_at h 5 = 1 \<and> byte_at h 6 = 1 \<and> e_machine h = 3"

subsection \<open>Loading\<close>

text \<open>A \<^verbatim>\<open>vfs_read\<close> into the heap buffer at \<open>p\<close>.\<close>

definition read_into :: "int \<Rightarrow> addr \<Rightarrow> u32 \<Rightarrow> fsys \<Rightarrow> (int \<times> fsys) option" where
  "read_into fd p n s = do {
     (r, bs, s1) \<leftarrow> vfs_read fd True n s;
     d \<leftarrow> fs_datas s1 p;
     d' \<leftarrow> buf_write d 0 bs;
     Some (r, s1\<lparr>fs_datas := (fs_datas s1)(p \<mapsto> d')\<rparr>) }"

definition close_fail :: "'a \<Rightarrow> int \<Rightarrow> fsys \<Rightarrow> ('a \<times> fsys) option" where
  "close_fail x fd s = do { (_, s1) \<leftarrow> vfs_close fd s; Some (x, s1) }"

definition elf_load :: "fsys \<Rightarrow> (addr \<times> fsys) option" where
  "elf_load s = (let path = Some (asc ''/bin/init.elf'') in do {
     (st, s1) \<leftarrow> vfs_stat path s;
     (case st of
        Inl _ \<Rightarrow> Some (0, s1)
      | Inr (sz, _) \<Rightarrow>
          if sz < EHDR_SIZE then Some (0, s1)
          else do {
            (fd, s2) \<leftarrow> vfs_open path 0 s1;
            if fd < 0 then Some (0, s2)
            else do {
              (rd, eh, s3) \<leftarrow> vfs_read fd True EHDR_SIZE s2;
              if rd < sint EHDR_SIZE then close_fail 0 fd s3
              else if \<not> elf_magic eh then close_fail 0 fd s3
              else (case alloc_data sz s3 of (p, s4) \<Rightarrow>
                if p = 0 then close_fail 0 fd s4
                else do {
                  (rd2, s5) \<leftarrow> read_into fd p sz s4;
                  if rd2 < sint sz then do { s6 \<leftarrow> fs_free p s5; close_fail 0 fd s6 }
                  else do {
                    (_, s6) \<leftarrow> vfs_close fd s5;
                    if \<not> elf_magic eh then do { s7 \<leftarrow> fs_free p s6; Some (0, s7) } else Some (p, s6) } }) } }) })"

text \<open>The loop's end test is lost when \<open>virt\<close> wraps around.\<close>

partial_function (option) map_pages_loop :: "u32 \<Rightarrow> u32 \<Rightarrow> kheap \<Rightarrow> kheap option" where
  "map_pages_loop virt limit h =
     (if virt < limit then map_pages_loop (virt + 0x1000) limit (snd (kmalloc_a 0x1000 h)) else Some h)"

definition map_pages :: "u32 \<Rightarrow> u32 \<Rightarrow> kheap \<Rightarrow> kheap option" where
  "map_pages virt_addr sz h = map_pages_loop (virt_addr AND NOT 0xFFF) (virt_addr + sz) h"

definition mem_write :: "addr \<Rightarrow> u8 list \<Rightarrow> (addr \<Rightarrow> u8) \<Rightarrow> addr \<Rightarrow> u8" where
  "mem_write a bs m = (\<lambda>x. if unat (x - a) < length bs then bs ! unat (x - a) else m x)"

text \<open>One program header, at \<open>off\<close> in the data of the file.\<close>

definition load_segment :: "u8 list \<Rightarrow> nat \<Rightarrow> psys \<Rightarrow> psys option" where
  "load_segment data off s = do {
     ph \<leftarrow> buf_read data off PHDR_SIZE;
     if p_type ph \<noteq> PT_LOAD then Some s
     else if ps_current s \<noteq> 0 \<and> ps_procs s (ps_current s) = None then None
     else do {
       h \<leftarrow> map_pages (p_vaddr ph) (p_memsz ph) (fs_heap (ps_fs s));
       bs \<leftarrow> buf_read data (unat (p_offset ph)) (unat (p_filesz ph));
       Some (s\<lparr>ps_fs := (ps_fs s)\<lparr>fs_heap := h\<rparr>, ps_mem := mem_write (p_vaddr ph) bs (ps_mem s)\<rparr>) } }"

fun load_segments :: "u8 list \<Rightarrow> nat \<Rightarrow> nat \<Rightarrow> psys \<Rightarrow> psys option" where
  "load_segments data off 0 s = Some s"
| "load_segments data off (Suc k) s = do { s1 \<leftarrow> load_segment data off s; load_segments data (off + PHDR_SIZE) k s1 }"

text \<open>Leaving \<open>elf_exec\<close> with -1 after closing the file.\<close>

definition exec_fail :: "int \<Rightarrow> psys \<Rightarrow> fsys \<Rightarrow> (int flow \<times> psys) option" where
  "exec_fail fd s f = do { (_, f1) \<leftarrow> vfs_close fd f; Some (Back (-1), s\<lparr>ps_fs := f1\<rparr>) }"

text \<open>\<open>fl\<close> is the flags register when user mode is entered.\<close>

definition elf_exec :: "u32 \<Rightarrow> cstr option \<Rightarrow> psys \<Rightarrow> (int flow \<times> psys) option" where
  "elf_exec fl path s = do {
     (st, f1) \<leftarrow> vfs_stat path (ps_fs s);
     (case st of
        Inl _ \<Rightarrow> Some (Back (-1), s\<lparr>ps_fs := f1\<rparr>)
      | Inr (sz, _) \<Rightarrow>
          if sz < EHDR_SIZE then Some (Back (-1), s\<lparr>ps_fs := f1\<rparr>)
          else do {
            (fd, f2) \<leftarrow> vfs_open path 0 f1;
            if fd < 0 then Some (Back (-1), s\<lparr>ps_fs := f2\<rparr>)
            else do {
              (rd, eh, f3) \<leftarrow> vfs_read fd True EHDR_SIZE f2;
              if rd < sint EHDR_SIZE then exec_fail fd s f3
              else if \<not> elf_validate eh then exec_fail fd s f3
              else (case alloc_data sz f3 of (p, f4) \<Rightarrow>
                if p = 0 then exec_fail fd s f4
                else do {
                  (rd2, f5) \<leftarrow> read_into fd p sz f4;
                  if rd2 < sint sz then do { f6 \<leftarrow> fs_free p f5; exec_fail fd s f6 }
                  else do {
                    (_, f6) \<leftarrow> vfs_close fd f5;
                    data \<leftarrow> fs_datas f6 p;
                    s7 \<leftarrow> load_segments data (unat (e_phoff eh)) (unat (e_phnum eh)) (s\<lparr>ps_fs := f6\<rparr>);
                    s8 \<leftarrow> ps_free p s7;
                    Some (Enter (switch_to_usermode fl (e_entry eh) 0x3FF000), s8) } }) } }) }"

subsection \<open>Executing in a process\<close>

text \<open>\<^verbatim>\<open>elf_load\<close> ignores the data it is given.\<close>

definition process_exec :: "addr \<Rightarrow> cstr option \<Rightarrow> psys \<Rightarrow> (int \<times> psys) option" where
  "process_exec proc path s =
     (if proc = 0 \<or> path = None then Some (-1, s)
      else do {
        (fd, f1) \<leftarrow> vfs_open path 0 (ps_fs s);
        if fd < 0 then Some (-1, s\<lparr>ps_fs := f1\<rparr>)
        else
          let sz = word_of_int (vfs_size fd f1) in
          if sz = 0 then do { (_, f2) \<leftarrow> vfs_close fd f1; Some (-1, s\<lparr>ps_fs := f2\<rparr>) }
          else (case alloc_data sz f1 of (p, f2) \<Rightarrow>
            if p = 0 then do { (_, f3) \<leftarrow> vfs_close fd f2; Some (-1, s\<lparr>ps_fs := f3\<rparr>) }
            else do {
              (r, f3) \<leftarrow> read_into fd p sz f2;
              if r \<noteq> sint sz then do { f4 \<leftarrow> fs_free p f3; (_, f5) \<leftarrow> vfs_close fd f4; Some (-1, s\<lparr>ps_fs := f5\<rparr>) }
              else do {
                (_, f4) \<leftarrow> vfs_close fd f3;
                (entry, f5) \<leftarrow> elf_load f4;
                f6 \<leftarrow> fs_free p f5;
                if entry = 0 then Some (-1, s\<lparr>ps_fs := f6\<rparr>)
                else do {
                  s7 \<leftarrow> ps_upd proc (\<lambda>x. x\<lparr>pr_uc := \<lparr>uc_eip = entry, uc_esp = 0x3FF000 + 0x20000 - 16, uc_eflags = 0x200,
                      uc_cs = 0x23, uc_ss = 0x2B, uc_ds = 0x2B, uc_es = 0x2B, uc_fs = 0x2B, uc_gs = 0x2B\<rparr>,
                    pr_state := PROC_READY\<rparr>) (s\<lparr>ps_fs := f6\<rparr>);
                  Some (0, s7) } } }) })"

subsection \<open>No program can be started\<close>

lemma alloc_data_null:
  "fs_wf s \<Longrightarrow> kmalloc_ok n \<Longrightarrow> fst (kmalloc n (fs_heap s)) = 0 \<Longrightarrow> alloc_data n s = (0, s)"
  using kmalloc_fail [of "fs_heap s" n]
  by (cases "kmalloc n (fs_heap s)") (simp add: alloc_data_def fs_alloc_def fs_wf_def)

text \<open>The node of an open file does not depend on the other objects of the heap.\<close>

lemma tar_file_ok_frame:
  assumes "tar_file_ok d n s" and "fs_img s' = fs_img s" and "fs_metas s' = fs_metas s"
    and "fs_datas s' (fs_img s) = fs_datas s (fs_img s)"
  shows "tar_file_ok d n s'"
  using assms by (simp add: tar_file_ok_def tar_node_ok_def cong: option.case_cong)

lemma stat_file:
  assumes ok: "tree_ok s t" and p: "cstr_ok path" "length path < VFS_PATH_MAX"
    and r: "resolve t [] (parts (\<lambda>c. c = 47) path) = Some st" and g: "tree_get t st = Some (File d)"
  shows "\<exists>m. vfs_stat (Some path) s = Some (Inr (of_nat (length d), m), s)"
proof -
  obtain n where n: "vfs_lookup (Some path) s = Some (Inr n, s)" "at_path s t st n"
    using vfs_lookup_resolve [OF ok p] r by auto
  then have "tar_node_ok (vn_name n) d n s" using at_path_rep [OF n(2) ok] g by auto
  then have "vn_size n = of_nat (length d)" unfolding tar_node_ok_def by blast
  then show ?thesis using n(1) by (simp add: vfs_stat_def)
qed

lemma stat_missing:
  assumes ok: "tree_ok s t" and p: "cstr_ok path" "length path < VFS_PATH_MAX"
    and r: "resolve t [] (parts (\<lambda>c. c = 47) path) = None"
  shows "vfs_stat (Some path) s = Some (Inl (- ENOENT), s)"
  using vfs_lookup_resolve [OF ok p] r by (simp add: vfs_stat_def)

text \<open>A file of a mounted tree that \<^verbatim>\<open>vfs_open\<close> can open in slot \<open>fd\<close>, and the state in which it is open at \<open>y\<close>.\<close>

definition openable :: "cstr \<Rightarrow> u8 list \<Rightarrow> nat \<Rightarrow> fsys \<Rightarrow> bool" where
  "openable path d fd s \<longleftrightarrow> fs_wf s \<and> table_ok s \<and> cstr_ok path \<and> length path < VFS_PATH_MAX
     \<and> free_fd (fs_open s) 0 = Some fd \<and> kmalloc_ok (of_nat (length d)) \<and> length d < 2 ^ 31
     \<and> (\<exists>t st. tree_ok s t \<and> resolve t [] (parts (\<lambda>c. c = 47) path) = Some st \<and> tree_get t st = Some (File d))"

definition open_at :: "fsys \<Rightarrow> nat \<Rightarrow> vnode \<Rightarrow> u32 \<Rightarrow> fsys" where
  "open_at s fd n y = s\<lparr>fs_open := (fs_open s)[fd := n\<lparr>vn_position := y\<rparr>]\<rparr>"

definition open_ok :: "fsys \<Rightarrow> u8 list \<Rightarrow> nat \<Rightarrow> vnode \<Rightarrow> u32 \<Rightarrow> bool" where
  "open_ok s d fd n y \<longleftrightarrow> tar_file_ok d n (open_at s fd n y) \<and> opened n fd y (open_at s fd n y)
     \<and> vn_close n = Some Tar_close \<and> unat y \<le> length d"

lemma open_step:
  assumes "openable path d fd s"
  obtains n where "vfs_open (Some path) 0 s = Some (int fd, open_at s fd n 0)" "open_ok s d fd n 0"
proof -
  from assms obtain t st where o: "tree_ok s t" "resolve t [] (parts (\<lambda>c. c = 47) path) = Some st" "tree_get t st = Some (File d)"
    "table_ok s" "cstr_ok path" "length path < VFS_PATH_MAX" "free_fd (fs_open s) 0 = Some fd" by (auto simp: openable_def)
  obtain n s1 where n: "vfs_open (Some path) O_RDONLY s = Some (int fd, s1)" "opened n fd 0 s1" "tar_file_ok d n s1"
      "s1 = set_open (int fd) (n\<lparr>vn_position := 0\<rparr>) s" "vn_close n = Some Tar_close"
    using open_file_ok [OF o(1,4-6,2,3,7)] by metis
  have "s1 = open_at s fd n 0" using n(4) by (simp add: set_open_def open_at_def)
  then show thesis using n by (intro that) (simp_all add: O_RDONLY_def open_ok_def)
qed

lemma read_step:
  assumes "open_ok s d fd n x" and "unat k < 2 ^ 31"
  obtains y where "vfs_read (int fd) True k (open_at s fd n x)
      = Some (int (length (take (unat k) (drop (unat x) d))), take (unat k) (drop (unat x) d), open_at s fd n y)"
    "open_ok s d fd n y" "unat y = unat x + length (take (unat k) (drop (unat x) d))"
proof -
  have o: "tar_file_ok d n (open_at s fd n x)" "opened n fd x (open_at s fd n x)" "vn_close n = Some Tar_close" "unat x \<le> length d"
    using assms(1) by (simp_all add: open_ok_def)
  obtain y s' where y: "vfs_read (int fd) True k (open_at s fd n x)
      = Some (int (length (take (unat k) (drop (unat x) d))), take (unat k) (drop (unat x) d), s')"
    "tar_file_ok d n s'" "opened n fd y s'" "unat y = unat x + length (take (unat k) (drop (unat x) d))"
    "s' = (open_at s fd n x)\<lparr>fs_open := (fs_open (open_at s fd n x))[fd := n\<lparr>vn_position := y\<rparr>]\<rparr>"
    by (rule vfs_read_opened [OF o(1,2,4) assms(2)])
  have "s' = open_at s fd n y" using y(5) by (simp add: open_at_def)
  moreover have "unat y \<le> length d" using y(4) o(4) by simp
  ultimately show thesis using y o(3) by (intro that) (simp_all add: open_ok_def)
qed

lemma close_step:
  assumes "openable path d0 fd s" and "open_ok s d fd n y"
  shows "vfs_close (int fd) (open_at s fd n y) = Some (0, s)"
proof -
  have t: "table_ok s" "free_fd (fs_open s) 0 = Some fd" using assms(1) by (simp_all add: openable_def)
  have o: "tar_file_ok d n (open_at s fd n y)" "opened n fd y (open_at s fd n y)" "vn_close n = Some Tar_close"
    using assms(2) by (simp_all add: open_ok_def)
  show ?thesis
    by (rule vfs_close_opened [OF t(1) _ _ o open_at_def]) (use free_fd_slot [OF t] in simp_all)
qed

text \<open>The state with a buffer of contents \<open>b\<close> at \<open>p\<close>, \<open>h\<close> being the heap from which it came.\<close>

abbreviation (input) with_data :: "addr \<Rightarrow> kheap \<Rightarrow> u8 list \<Rightarrow> fsys \<Rightarrow> fsys" where
  "with_data p h b s \<equiv> with_buf s h p b"

lemma with_data_open: "with_data p h b (open_at s fd n y) = open_at (with_data p h b s) fd n y"
  by (simp add: with_buf_def open_at_def)

definition buf_for :: "u32 \<Rightarrow> addr \<Rightarrow> kheap \<Rightarrow> fsys \<Rightarrow> bool" where
  "buf_for k p h s \<longleftrightarrow> fs_wf s \<and> kmalloc_ok k \<and> kmalloc k (fs_heap s) = (p, h) \<and> p \<noteq> 0"

lemma buf_for_open: "buf_for k p h (open_at s fd n x) \<longleftrightarrow> buf_for k p h s"
  by (simp add: buf_for_def open_at_def fs_wf_def)

lemma buf_alloc:
  assumes "buf_for k p h s"
  shows "alloc_data k s = (p, with_data p h (replicate (unat k) 0) s)" and "fs_free p (with_data p h b s) = Some s"
    and "fs_datas s p = None"
proof -
  have b: "fs_wf s" "kmalloc_ok k" "kmalloc k (fs_heap s) = (p, h)" "p \<noteq> 0" using assms by (simp_all add: buf_for_def)
  show al: "alloc_data k s = (p, with_data p h (replicate (unat k) 0) s)"
    using b(3,4) by (simp add: alloc_data_def fs_alloc_def with_buf_def)
  note a = alloc_data_free [OF b(1,2) al b(4)]
  show "fs_datas s p = None" by (rule a(1))
  show "fs_free p (with_data p h b s) = Some s" using a(4) [of b] by (simp add: with_buf_def)
qed

lemmas buf_alloc_open = buf_alloc(1,2) [of k p h "open_at s fd n x" for k p h s fd n x, unfolded buf_for_open with_data_open]

lemma open_ok_buf:
  assumes "buf_for k p h s" and "open_ok s d fd n y"
  shows "open_ok (with_data p h b s) d fd n y"
proof -
  have o: "tar_file_ok d n (open_at s fd n y)" using assms(2) by (simp add: open_ok_def)
  then have "fs_datas (open_at s fd n y) (fs_img (open_at s fd n y)) \<noteq> None"
    by (auto simp: tar_file_ok_def tar_node_ok_def split: option.splits)
  then have "fs_img s \<noteq> p" using buf_alloc(3) [OF assms(1)] by (auto simp: open_at_def)
  then have "tar_file_ok d n (open_at (with_data p h b s) fd n y)"
    by (intro tar_file_ok_frame [OF o]) (simp_all add: open_at_def with_buf_def)
  then show ?thesis using assms(2) by (simp add: open_ok_def) (simp add: opened_def open_at_def with_buf_def)
qed

text \<open>Reading into the buffer.\<close>

lemma read_into_step:
  assumes o: "open_ok s d fd n x" and bf: "buf_for k p h s" and l: "unat k < 2 ^ 31"
  obtains y b where "read_into (int fd) p k (open_at (with_data p h (replicate (unat k) 0) s) fd n x)
      = Some (int (length (take (unat k) (drop (unat x) d))), open_at (with_data p h b s) fd n y)"
    "open_ok s d fd n y"
proof -
  let ?z = "replicate (unat k) (0 :: u8)" and ?bs = "take (unat k) (drop (unat x) d)"
  obtain y where y: "vfs_read (int fd) True k (open_at (with_data p h ?z s) fd n x)
      = Some (int (length ?bs), ?bs, open_at (with_data p h ?z s) fd n y)" "unat y = unat x + length ?bs"
    using read_step [OF open_ok_buf [OF bf o] l] by metis
  obtain y' where y': "open_ok s d fd n y'" "unat y' = unat x + length ?bs"
    using read_step [OF o l] by metis
  have "y' = y" using y(2) y'(2) by (simp add: word_unat_eq_iff)
  moreover have "fs_datas (open_at (with_data p h ?z s) fd n y) p = Some ?z" by (simp add: open_at_def with_buf_def)
  moreover obtain b where b: "buf_write ?z 0 ?bs = Some b" by (simp add: buf_write_def)
  moreover have "(open_at (with_data p h ?z s) fd n y)\<lparr>fs_datas := (fs_datas (open_at (with_data p h ?z s) fd n y))(p \<mapsto> b)\<rparr>
      = open_at (with_data p h b s) fd n y"
    by (simp add: open_at_def with_buf_def)
  ultimately show thesis using y(1) y'(1) by (intro that [of b y]) (simp_all add: read_into_def)
qed

text \<open>The header has been read when the whole file is asked for, so less than all of it comes.\<close>

lemma short_read:
  assumes ob: "openable path d fd s" and h: "EHDR_SIZE \<le> of_nat (length d)"
  obtains n y eh where "vfs_open (Some path) 0 s = Some (int fd, open_at s fd n 0)"
    "vfs_read (int fd) True EHDR_SIZE (open_at s fd n 0) = Some (52, eh, open_at s fd n y)"
    "vfs_close (int fd) (open_at s fd n y) = Some (0, s)"
    "\<And>p h. buf_for (of_nat (length d)) p h s \<Longrightarrow> \<exists>r b z. r < int (length d)
      \<and> read_into (int fd) p (of_nat (length d)) (open_at (with_data p h (replicate (length d) 0) s) fd n y)
          = Some (r, open_at (with_data p h b s) fd n z)
      \<and> vfs_close (int fd) (open_at s fd n z) = Some (0, s)"
proof -
  have l: "length d < 2 ^ 31" using ob by (simp add: openable_def)
  then have u: "unat (of_nat (length d) :: u32) = length d" by (simp add: unat_of_nat)
  have h': "52 \<le> length d" using h u by (simp add: EHDR_SIZE_def word_le_nat_alt)
  obtain n where n: "vfs_open (Some path) 0 s = Some (int fd, open_at s fd n 0)" "open_ok s d fd n 0"
    using open_step [OF ob] by metis
  have k: "unat EHDR_SIZE < 2 ^ 31" by (simp add: EHDR_SIZE_def)
  obtain y where y: "vfs_read (int fd) True EHDR_SIZE (open_at s fd n 0) = Some (52, take 52 d, open_at s fd n y)"
      "open_ok s d fd n y" "unat y = 52"
    by (rule read_step [OF n(2) k]) (use h' in \<open>simp add: EHDR_SIZE_def min_def\<close>)
  show thesis
  proof (rule that [OF n(1) y(1) close_step [OF ob y(2)]])
    fix p h assume bf: "buf_for (of_nat (length d)) p h s"
    obtain z b where z: "read_into (int fd) p (of_nat (length d)) (open_at (with_data p h (replicate (unat (of_nat (length d) :: u32)) 0) s) fd n y)
        = Some (int (length (take (unat (of_nat (length d) :: u32)) (drop (unat y) d))), open_at (with_data p h b s) fd n z)"
        "open_ok s d fd n z"
      by (rule read_into_step [OF y(2) bf]) (use l u in simp)
    have "int (length (take (length d) (drop 52 d))) < int (length d)" using h' by simp
    with z(1) close_step [OF ob z(2)] show "\<exists>r b z. r < int (length d)
      \<and> read_into (int fd) p (of_nat (length d)) (open_at (with_data p h (replicate (length d) 0) s) fd n y)
          = Some (r, open_at (with_data p h b s) fd n z)
      \<and> vfs_close (int fd) (open_at s fd n z) = Some (0, s)"
      unfolding u y(3) by blast
  qed
qed

lemma openable_facts:
  assumes "openable path d fd s"
  shows "\<exists>m. vfs_stat (Some path) s = Some (Inr (of_nat (length d), m), s)"
    and "sint (of_nat (length d) :: u32) = int (length d)" and "unat (of_nat (length d) :: u32) = length d"
    and "fst (kmalloc (of_nat (length d)) (fs_heap s)) = 0 \<Longrightarrow> alloc_data (of_nat (length d)) (open_at s fd n y) = (0, open_at s fd n y)"
proof -
  have l: "length d < 2 ^ 31" using assms by (simp add: openable_def)
  then show "sint (of_nat (length d) :: u32) = int (length d)" "unat (of_nat (length d) :: u32) = length d"
    by (simp_all add: sint_small unat_of_nat)
  show "\<exists>m. vfs_stat (Some path) s = Some (Inr (of_nat (length d), m), s)"
    using assms stat_file unfolding openable_def by blast
  have "fs_wf (open_at s fd n y)" "fs_heap (open_at s fd n y) = fs_heap s" "kmalloc_ok (of_nat (length d))"
    using assms by (simp_all add: openable_def open_at_def fs_wf_def)
  then show "fst (kmalloc (of_nat (length d)) (fs_heap s)) = 0 \<Longrightarrow> alloc_data (of_nat (length d)) (open_at s fd n y) = (0, open_at s fd n y)"
    by (intro alloc_data_null) simp_all
qed

lemma openable_buf:
  assumes "openable path d fd s" and "kmalloc (of_nat (length d)) (fs_heap s) = (p, h)" and "p \<noteq> 0"
  shows "buf_for (of_nat (length d)) p h s"
  using assms by (simp add: buf_for_def openable_def)

lemma elf_exec_fails:
  assumes ob: "openable path d fd (ps_fs s)"
  shows "elf_exec fl (Some path) s = Some (Back (-1), s)"
proof -
  note f = openable_facts [OF ob]
  obtain m where m: "vfs_stat (Some path) (ps_fs s) = Some (Inr (of_nat (length d), m), ps_fs s)" using f(1) by blast
  show ?thesis
  proof (cases "of_nat (length d) < EHDR_SIZE")
    case True
    then show ?thesis using m by (simp add: elf_exec_def)
  next
    case False
    then have big: "EHDR_SIZE \<le> of_nat (length d)" by simp
    obtain n y eh where n: "vfs_open (Some path) 0 (ps_fs s) = Some (int fd, open_at (ps_fs s) fd n 0)"
      "vfs_read (int fd) True EHDR_SIZE (open_at (ps_fs s) fd n 0) = Some (52, eh, open_at (ps_fs s) fd n y)"
      "vfs_close (int fd) (open_at (ps_fs s) fd n y) = Some (0, ps_fs s)"
      "\<And>p h. buf_for (of_nat (length d)) p h (ps_fs s) \<Longrightarrow> \<exists>r b z. r < int (length d)
      \<and> read_into (int fd) p (of_nat (length d)) (open_at (with_data p h (replicate (length d) 0) (ps_fs s)) fd n y)
          = Some (r, open_at (with_data p h b (ps_fs s)) fd n z)
      \<and> vfs_close (int fd) (open_at (ps_fs s) fd n z) = Some (0, ps_fs s)"
      using short_read [OF ob big] by metis
    have e: "\<not> (52 :: int) < sint EHDR_SIZE" by (simp add: EHDR_SIZE_def)
    have fail: "exec_fail (int fd) s (open_at (ps_fs s) fd n z) = Some (Back (-1), s)"
      if "vfs_close (int fd) (open_at (ps_fs s) fd n z) = Some (0, ps_fs s)" for z
      using that by (simp add: exec_fail_def)
    obtain p h where k: "kmalloc (of_nat (length d)) (fs_heap (ps_fs s)) = (p, h)" by fastforce
    show ?thesis
    proof (cases "p = 0")
      case True
      then show ?thesis using False m n(1,2) e fail [OF n(3)] f(4) k by (simp add: elf_exec_def)
    next
      case nz: False
      note bf = openable_buf [OF ob k nz]
      obtain r b z where r: "r < int (length d)"
        "read_into (int fd) p (of_nat (length d)) (open_at (with_data p h (replicate (length d) 0) (ps_fs s)) fd n y)
          = Some (r, open_at (with_data p h b (ps_fs s)) fd n z)"
        "vfs_close (int fd) (open_at (ps_fs s) fd n z) = Some (0, ps_fs s)"
        using n(4) [OF bf] by blast
      show ?thesis
        using False nz m n(1,2) e fail [OF n(3)] fail [OF r(3)] r(1,2) buf_alloc_open [OF bf] f(2,3)
        by (simp add: elf_exec_def)
    qed
  qed
qed

lemma openable_with_data:
  assumes ob: "openable path d fd s" and bf: "buf_for k p h s" and im: "fs_img s \<noteq> p"
  shows "openable path d fd (with_data p h b s)"
proof -
  have bf': "fs_wf s" "kmalloc_ok k" "kmalloc k (fs_heap s) = (p, h)" "p \<noteq> 0" using bf by (simp_all add: buf_for_def)
  note a = fs_alloc_fresh [OF bf']
  have "fs_wf (with_data p h b s)" using bf'(1) a(2,3) by (auto simp: fs_wf_def with_buf_def)
  moreover have "tree_ok (with_data p h b s) t" if "tree_ok s t" for t
    using that im by (intro tree_ok_extends [OF that]) (auto simp: extends_def with_buf_def tree_ok_def)
  ultimately show ?thesis using ob unfolding openable_def by (auto simp: with_buf_def table_ok_def)
qed

lemma openable_image:
  assumes "openable path d fd s" and "buf_for k p h s"
  shows "fs_img s \<noteq> p"
proof -
  obtain n where "open_ok s d fd n 0" using open_step [OF assms(1)] by metis
  then have "fs_datas s (fs_img s) \<noteq> None"
    by (auto simp: open_ok_def tar_file_ok_def tar_node_ok_def open_at_def split: option.splits)
  then show ?thesis using buf_alloc(3) [OF assms(2)] by auto
qed

lemma elf_load_fails:
  assumes "(\<exists>t. tree_ok s t \<and> resolve t [] (parts (\<lambda>c. c = 47) (asc ''/bin/init.elf'')) = None)
    \<or> (\<exists>d fd. openable (asc ''/bin/init.elf'') d fd s)"
  shows "elf_load s = Some (0, s)"
  using assms
proof (elim disjE exE conjE)
  fix t assume t: "tree_ok s t" "resolve t [] (parts (\<lambda>c. c = 47) (asc ''/bin/init.elf'')) = None"
  have p: "cstr_ok (asc ''/bin/init.elf'')" "length (asc ''/bin/init.elf'') < VFS_PATH_MAX"
    by (simp_all add: cstr_ok_def asc_def VFS_PATH_MAX_def)
  show ?thesis using stat_missing [OF t(1) p t(2)] by (simp add: elf_load_def)
next
  fix d fd assume ob: "openable (asc ''/bin/init.elf'') d fd s"
  obtain path where path: "path = asc ''/bin/init.elf''" by blast
  have ob: "openable path d fd s" using ob path by simp
  note f = openable_facts [OF ob]
  obtain m where m: "vfs_stat (Some path) s = Some (Inr (of_nat (length d), m), s)" using f(1) by blast
  show ?thesis
  proof (cases "of_nat (length d) < EHDR_SIZE")
    case True
    then show ?thesis using m path by (simp add: elf_load_def)
  next
    case False
    then have big: "EHDR_SIZE \<le> of_nat (length d)" by simp
    obtain n y eh where n: "vfs_open (Some path) 0 s = Some (int fd, open_at s fd n 0)"
      "vfs_read (int fd) True EHDR_SIZE (open_at s fd n 0) = Some (52, eh, open_at s fd n y)"
      "vfs_close (int fd) (open_at s fd n y) = Some (0, s)"
      "\<And>p h. buf_for (of_nat (length d)) p h s \<Longrightarrow> \<exists>r b z. r < int (length d)
      \<and> read_into (int fd) p (of_nat (length d)) (open_at (with_data p h (replicate (length d) 0) s) fd n y)
          = Some (r, open_at (with_data p h b s) fd n z)
      \<and> vfs_close (int fd) (open_at s fd n z) = Some (0, s)"
      using short_read [OF ob big] by metis
    have e: "\<not> (52 :: int) < sint EHDR_SIZE" by (simp add: EHDR_SIZE_def)
    have fail: "close_fail (0 :: addr) (int fd) (open_at s fd n z) = Some (0, s)"
      if "vfs_close (int fd) (open_at s fd n z) = Some (0, s)" for z
      using that by (simp add: close_fail_def)
    obtain p h where k: "kmalloc (of_nat (length d)) (fs_heap s) = (p, h)" by fastforce
    show ?thesis
    proof (cases "p = 0")
      case True
      then show ?thesis using False m n(1,2) e fail [OF n(3)] f(4) k unfolding path by (simp add: elf_load_def)
    next
      case nz: False
      note bf = openable_buf [OF ob k nz]
      obtain r b z where r: "r < int (length d)"
        "read_into (int fd) p (of_nat (length d)) (open_at (with_data p h (replicate (length d) 0) s) fd n y)
          = Some (r, open_at (with_data p h b s) fd n z)"
        "vfs_close (int fd) (open_at s fd n z) = Some (0, s)"
        using n(4) [OF bf] by blast
      show ?thesis
        using False nz m n(1,2) e fail [OF n(3)] fail [OF r(3)] r(1,2) buf_alloc_open [OF bf] f(2,3) unfolding path
        by (simp add: elf_load_def)
    qed
  qed
qed

text \<open>\<^verbatim>\<open>process_exec\<close> reads its file completely and in vain.\<close>

lemma process_exec_fails:
  assumes ob: "openable path d fd (ps_fs s)"
    and init: "(\<exists>t. tree_ok (ps_fs s) t \<and> resolve t [] (parts (\<lambda>c. c = 47) (asc ''/bin/init.elf'')) = None)
      \<or> (\<exists>d fd. openable (asc ''/bin/init.elf'') d fd (ps_fs s))"
  shows "process_exec proc (Some path) s = Some (-1, s)"
proof -
  let ?f = "ps_fs s" and ?sz = "of_nat (length d) :: u32"
  note f = openable_facts [OF ob]
  obtain n where n: "vfs_open (Some path) 0 ?f = Some (int fd, open_at ?f fd n 0)" "open_ok ?f d fd n 0"
    using open_step [OF ob] by metis
  have tf: "tar_file_ok d n (open_at ?f fd n 0)" "opened n fd 0 (open_at ?f fd n 0)" using n(2) by (simp_all add: open_ok_def)
  have "vfs_size (int fd) (open_at ?f fd n 0) = sint (vn_size n)"
    using tarf.not_bad [OF tf] tf(2) by (simp add: vfs_size_def opened_def)
  moreover have "unat (vn_size n) = length d" using tarf.isfile [OF tf(1)] by simp
  then have "vn_size n = ?sz" by (metis of_nat_unat ucast_id)
  ultimately have sz: "word_of_int (vfs_size (int fd) (open_at ?f fd n 0)) = ?sz" by simp
  note close = close_step [OF ob n(2)]
  obtain p h where k: "kmalloc ?sz (fs_heap ?f) = (p, h)" by fastforce
  show ?thesis
  proof (cases "p = 0 \<or> ?sz = 0")
    case True
    then show ?thesis using n(1) sz close f(4) k by (auto simp: process_exec_def Let_def)
  next
    case False
    then have bf: "buf_for ?sz p h ?f" using openable_buf [OF ob k] by simp
    note im = openable_image [OF ob bf]
    have l: "unat ?sz < 2 ^ 31" using ob f(3) by (simp add: openable_def)
    obtain y b where y: "read_into (int fd) p ?sz (open_at (with_data p h (replicate (unat ?sz) 0) ?f) fd n 0)
        = Some (int (length (take (unat ?sz) (drop (unat (0 :: u32)) d))), open_at (with_data p h b ?f) fd n y)"
        "open_ok ?f d fd n y"
      by (rule read_into_step [OF n(2) bf l])
    have cl: "vfs_close (int fd) (open_at (with_data p h b ?f) fd n y) = Some (0, with_data p h b ?f)"
      by (rule close_step [OF openable_with_data [OF ob bf im] open_ok_buf [OF bf y(2)]])
    have "tree_ok (with_data p h b ?f) t" if "tree_ok ?f t" for t
    proof -
      have "fs_root_addr (with_data p h b ?f) \<notin> dom (fs_nodes (with_data p h b ?f))"
        using that by (simp add: tree_ok_def with_buf_def)
      then show ?thesis using im by (intro tree_ok_extends [OF that]) (auto simp: extends_def with_buf_def)
    qed
    then have "elf_load (with_data p h b ?f) = Some (0, with_data p h b ?f)"
      using init openable_with_data [OF _ bf im] by (intro elf_load_fails) blast
    then show ?thesis
      using False n(1) sz buf_alloc_open(1) [OF bf, of fd n 0] buf_alloc(2) [OF bf] y(1) cl f(2,3)
      by (simp add: process_exec_def Let_def)
  qed
qed

subsection \<open>Properties\<close>

text \<open>C22.  On a mounted tree neither \<^verbatim>\<open>elf_exec\<close> nor \<^verbatim>\<open>process_exec\<close> ever starts a program: for every path to a
  file, whatever the file holds, both return -1 and leave the whole state as it was.  Both read the
  header and then ask for the whole file from the position behind it, so the second read is short.\<close>

theorem exec_never_succeeds:
  assumes "tree_ok (ps_fs s) t" and "fs_wf (ps_fs s)" and "table_ok (ps_fs s)" and "free_fd (fs_open (ps_fs s)) 0 \<noteq> None"
    and "cstr_ok path" and "length path < VFS_PATH_MAX"
    and "resolve t [] (parts (\<lambda>c. c = 47) path) = Some st" and "tree_get t st = Some (File d)"
    and "\<forall>st d. tree_get t st = Some (File d) \<longrightarrow> length d \<le> 0x3FEFEFF4"
    and "\<forall>st es. resolve t [] (parts (\<lambda>c. c = 47) (asc ''/bin/init.elf'')) = Some st \<longrightarrow> tree_get t st \<noteq> Some (Dir es)"
  shows "elf_exec fl (Some path) s = Some (Back (-1), s) \<and> process_exec proc (Some path) s = Some (-1, s)"
proof -
  obtain fd where fd: "free_fd (fs_open (ps_fs s)) 0 = Some fd" using assms(4) by blast
  have ob: "openable q e fd (ps_fs s)"
    if "cstr_ok q" "length q < VFS_PATH_MAX" "resolve t [] (parts (\<lambda>c. c = 47) q) = Some x" "tree_get t x = Some (File e)" for q x e
  proof -
    have l: "length e \<le> 0x3FEFEFF4" using assms(9) that(4) by blast
    then have "kmalloc_ok (of_nat (length e))" by (simp add: kmalloc_ok_def word_le_nat_alt unat_of_nat)
    moreover have "length e < 2 ^ 31" using l by simp
    ultimately show ?thesis using that assms(1-3) fd unfolding openable_def by blast
  qed
  have p: "cstr_ok (asc ''/bin/init.elf'')" "length (asc ''/bin/init.elf'') < VFS_PATH_MAX"
    by (simp_all add: cstr_ok_def asc_def VFS_PATH_MAX_def)
  have init: "(\<exists>t. tree_ok (ps_fs s) t \<and> resolve t [] (parts (\<lambda>c. c = 47) (asc ''/bin/init.elf'')) = None)
      \<or> (\<exists>d fd. openable (asc ''/bin/init.elf'') d fd (ps_fs s))"
  proof (cases "resolve t [] (parts (\<lambda>c. c = 47) (asc ''/bin/init.elf''))")
    case None
    then show ?thesis using assms(1) by blast
  next
    case (Some x)
    obtain n u where "tree_get t x = Some u"
      using vfs_lookup_resolve [OF assms(1) p] at_path_rep [OF _ assms(1)] Some by fastforce
    moreover have "u \<noteq> Dir es" for es using assms(10) Some calculation by blast
    ultimately obtain e where "tree_get t x = Some (File e)" by (cases u) auto
    then show ?thesis using ob [OF p Some] by blast
  qed
  have o: "openable path d fd (ps_fs s)" using ob assms(5-8) by blast
  show ?thesis using elf_exec_fails [OF o] process_exec_fails [OF o init] by blast
qed

text \<open>An archive with one program: a valid ELF header and twelve more bytes.\<close>

definition demo_prog :: "u8 list" where
  "demo_prog = [0x7F, 0x45, 0x4C, 0x46, 1, 1, 1] @ replicate 11 0 @ [3] @ replicate 45 0"

definition demo_elf_rd :: fsys where
  "demo_elf_rd = demo_rd\<lparr>fs_datas := [0xC0000028 \<mapsto> tar_archive [(asc ''init'', demo_prog)]]\<rparr>"

lemma demo_elf_mounted:
  "\<exists>f. mount_initrd 0xC0000028 1536 demo_elf_rd = Some (0, f) \<and> tree_ok f (mounted_tree [(asc ''init'', demo_prog)])
    \<and> table_ok f \<and> free_fd (fs_open f) 0 \<noteq> None \<and> fs_wf f"
proof -
  let ?fs = "[(asc ''init'', demo_prog)]"
  have w: "fs_wf demo_elf_rd" using demo_rd_wf by (simp add: fs_wf_def demo_elf_rd_def) (simp add: demo_rd_def)
  have r: "root_ok demo_elf_rd" by (simp add: root_ok_def demo_elf_rd_def demo_rd_def demo_fs_def)
  have nm: "\<forall>f\<in>set ?fs. tar_name_ok (fst f)" by (simp add: tar_name_ok_def asc_def)
  have d: "fs_datas demo_elf_rd 0xC0000028 = Some (tar_archive ?fs)" by (simp add: demo_elf_rd_def)
  have ln: "length (tar_archive ?fs) = 1536"
    by (simp add: tar_archive_def tar_member_def asc_def tar_pad_def demo_prog_def)
  obtain a h where k: "kmalloc VNODE_SIZE (fs_heap demo_elf_rd) = (a, h)" by fastforce
  have n: "a \<noteq> 0" "tar_room (length ?fs) h"
    using k by (auto simp: demo_elf_rd_def demo_rd_def demo_fs_def kmalloc_def heap_area_def kheap_boot_def heap_consts VNODE_SIZE_def
        TAR_META_SIZE_def)
  have o: "fs_open demo_elf_rd = replicate 32 vnode0" by (simp add: demo_elf_rd_def demo_rd_def demo_fs_def)
  obtain f where f: "mount_initrd 0xC0000028 1536 demo_elf_rd = Some (0, f)" "tree_ok f (mounted_tree ?fs)"
      "fs_open f = fs_open demo_elf_rd" "fs_wf f"
    using mounted_tree_ok [OF w r nm _ d _ k n] unfolding ln by auto
  have "table_ok f" "free_fd (fs_open f) 0 \<noteq> None"
    unfolding table_ok_def f(3) o by (simp_all add: MAX_OPEN_FILES_def) (simp add: vnode0_def numeral_eq_Suc)
  then show ?thesis using f by blast
qed

lemma exec_never_succeeds_witness:
  "\<exists>s. mount_initrd 0xC0000028 1536 demo_elf_rd = Some (0, ps_fs s) \<and> elf_validate demo_prog
    \<and> elf_exec 2 (Some (asc ''/init'')) s = Some (Back (-1), s)
    \<and> process_exec 0xC000000C (Some (asc ''/init'')) s = Some (-1, s)"
proof -
  let ?t = "mounted_tree [(asc ''init'', demo_prog)]"
  obtain f where f: "mount_initrd 0xC0000028 1536 demo_elf_rd = Some (0, f)" "tree_ok f ?t" "table_ok f"
      "free_fd (fs_open f) 0 \<noteq> None" "fs_wf f"
    using demo_elf_mounted by blast
  obtain s :: psys where s: "ps_fs s = f" by (metis psys.select_convs(1))
  have t: "?t = Dir [(asc ''init'', File demo_prog)]" by (simp add: mounted_tree_def)
  have v: "elf_validate demo_prog"
  proof -
    have "byte_at demo_prog 18 = 3" "byte_at demo_prog 19 = 0" by (simp_all add: byte_at_def demo_prog_def nth_append)
    then have "e_machine demo_prog = 3" by (simp add: e_machine_def le16_def)
    then show ?thesis by (simp add: elf_validate_def elf_magic_def) (simp add: byte_at_def demo_prog_def nth_append)
  qed
  have p: "parts (\<lambda>c. c = 47) (asc ''/init'') = [asc ''init'']" by (simp add: asc_def parts.simps Let_def)
  have r: "resolve ?t [] (parts (\<lambda>c. c = 47) (asc ''/init'')) = Some [asc ''init'']" "tree_get ?t [asc ''init''] = Some (File demo_prog)"
    unfolding p t by (simp_all add: asc_def)
  have c: "cstr_ok (asc ''/init'')" "length (asc ''/init'') < VFS_PATH_MAX"
    by (simp_all add: cstr_ok_def asc_def VFS_PATH_MAX_def)
  have pi: "parts (\<lambda>c. c = 47) (asc ''/bin/init.elf'') = [asc ''bin'', asc ''init.elf'']"
    by (simp add: asc_def parts.simps Let_def)
  have big: "\<forall>st d. tree_get ?t st = Some (File d) \<longrightarrow> length d \<le> 0x3FEFEFF4"
  proof (intro allI impI)
    fix st d assume "tree_get ?t st = Some (File d)"
    then have "d = demo_prog" unfolding t
      by (cases st; cases "tl st") (auto split: if_splits option.splits)
    then show "length d \<le> 0x3FEFEFF4" by (simp add: demo_prog_def)
  qed
  have init: "\<forall>st es. resolve ?t [] (parts (\<lambda>c. c = 47) (asc ''/bin/init.elf'')) = Some st \<longrightarrow> tree_get ?t st \<noteq> Some (Dir es)"
    unfolding pi t by (simp add: asc_def)
  show ?thesis
    using exec_never_succeeds [of s ?t, unfolded s, OF f(2,5,3,4) c r big init, of 2 "0xC000000C"] f(1) s v by metis
qed

end
