(* ===== verification/Syscalls.thy ===== *)
theory Syscalls
  imports Elf Console Display
begin

text \<open>
  The system calls: the table and the handlers of \<^verbatim>\<open>kernel/syscalls.c\<close>, the entry \<^verbatim>\<open>int 0x80\<close> in
  \<^verbatim>\<open>arch/x86/x86/interrupts/isr.S\<close> with the structure \<^verbatim>\<open>isr_context\<close> it hands over, and the stubs of
  \<^verbatim>\<open>libc/src/unistd.c\<close> on the user's side.

  The state joins the components the handlers call: processes with the file system (\<open>sy_ps\<close>), the
  console, what the input devices deliver, and the framebuffer.  Handlers are named by the constructors
  of \<open>syscall_fn\<close> (the table holds function pointers).  Buffers and strings of the caller are bytes of
  the memory \<open>ps_mem\<close>; a system call that leaves the kernel for another process says so in its \<open>flow\<close>.
  The echo on the serial line is left out.
\<close>

subsection \<open>State\<close>

definition MAX_SYSCALLS :: u32 where "MAX_SYSCALLS = 256"

datatype syscall_fn = Sys_exit | Sys_fork | Sys_read | Sys_write | Sys_open | Sys_close | Sys_execve
  | Sys_waitpid | Sys_getpid | Sys_getppid | Sys_sbrk | Sys_fb_getinfo | Sys_fb_fill | Sys_fb_rect

record ksys =
  sy_table :: "syscall_fn option list"
  sy_ps :: psys
  sy_con :: console
  sy_polls :: "poll list"
  sy_mode :: video_mode
  sy_fb :: "u8 list"

definition SYS_EXIT :: u32 where "SYS_EXIT = 0"
definition SYS_FORK :: u32 where "SYS_FORK = 1"
definition SYS_READ :: u32 where "SYS_READ = 2"
definition SYS_WRITE :: u32 where "SYS_WRITE = 3"
definition SYS_OPEN :: u32 where "SYS_OPEN = 4"
definition SYS_CLOSE :: u32 where "SYS_CLOSE = 5"
definition SYS_EXECVE :: u32 where "SYS_EXECVE = 6"
definition SYS_WAITPID :: u32 where "SYS_WAITPID = 7"
definition SYS_GETPID :: u32 where "SYS_GETPID = 8"
definition SYS_GETPPID :: u32 where "SYS_GETPPID = 9"
definition SYS_SBRK :: u32 where "SYS_SBRK = 10"
definition SYS_FB_GETINFO :: u32 where "SYS_FB_GETINFO = 240"
definition SYS_FB_FILL :: u32 where "SYS_FB_FILL = 241"
definition SYS_FB_RECT :: u32 where "SYS_FB_RECT = 242"

lemmas sys_numbers = SYS_EXIT_def SYS_FORK_def SYS_READ_def SYS_WRITE_def SYS_OPEN_def SYS_CLOSE_def SYS_EXECVE_def
  SYS_WAITPID_def SYS_GETPID_def SYS_GETPPID_def SYS_SBRK_def SYS_FB_GETINFO_def SYS_FB_FILL_def SYS_FB_RECT_def

subsection \<open>The caller's memory\<close>

text \<open>The string at \<open>p\<close>; without a NUL the walk does not end.\<close>

partial_function (option) mem_cstr :: "(addr \<Rightarrow> u8) \<Rightarrow> addr \<Rightarrow> cstr option" where
  "mem_cstr m p = (if m p = 0 then Some [] else do { s \<leftarrow> mem_cstr m (p + 1); Some (m p # s) })"

definition str_arg :: "addr \<Rightarrow> ksys \<Rightarrow> cstr option option" where
  "str_arg p s = (if p = 0 then Some None else map_option Some (mem_cstr (ps_mem (sy_ps s)) p))"

definition mem_bytes :: "(addr \<Rightarrow> u8) \<Rightarrow> addr \<Rightarrow> u32 \<Rightarrow> u8 list" where
  "mem_bytes m p n = map (\<lambda>i. m (p + of_nat i)) [0..<unat n]"

definition store_bytes :: "addr \<Rightarrow> u8 list \<Rightarrow> ksys \<Rightarrow> ksys" where
  "store_bytes p bs s = s\<lparr>sy_ps := (sy_ps s)\<lparr>ps_mem := mem_write p bs (ps_mem (sy_ps s))\<rparr>\<rparr>"

definition with_fs :: "fsys \<Rightarrow> ksys \<Rightarrow> ksys" where
  "with_fs f s = s\<lparr>sy_ps := (sy_ps s)\<lparr>ps_fs := f\<rparr>\<rparr>"

subsection \<open>Processes\<close>

definition sys_exit :: "cpu \<Rightarrow> u32 \<Rightarrow> ksys \<Rightarrow> (int flow \<times> ksys) option" where
  "sys_exit c exit_code s = do {
     (fl, p) \<leftarrow> process_exit c (sint exit_code) (sy_ps s);
     Some (case fl of Back _ \<Rightarrow> Back 0 | Enter u \<Rightarrow> Enter u | Halt \<Rightarrow> Halt, s\<lparr>sy_ps := p\<rparr>) }"

definition sys_fork :: "ksys \<Rightarrow> (int \<times> ksys) option" where
  "sys_fork s = do {
     (child, p) \<leftarrow> process_create (sy_ps s);
     if child = 0 then Some (-1, s\<lparr>sy_ps := p\<rparr>)
     else do { x \<leftarrow> ps_procs p child; Some (sint (pr_pid x), s\<lparr>sy_ps := p\<rparr>) } }"

definition sys_execve :: "addr \<Rightarrow> ksys \<Rightarrow> (int \<times> ksys) option" where
  "sys_execve path s =
     (let current = process_current (sy_ps s) in
      if current = 0 then Some (-1, s)
      else do {
        str \<leftarrow> str_arg path s;
        (r, p) \<leftarrow> process_exec current str (sy_ps s);
        Some (if r < 0 then -1 else 0, s\<lparr>sy_ps := p\<rparr>) })"

definition sys_getpid :: "ksys \<Rightarrow> int option" where
  "sys_getpid s =
     (let current = process_current (sy_ps s) in
      if current = 0 then Some (-1) else do { x \<leftarrow> ps_procs (sy_ps s) current; Some (sint (pr_pid x)) })"

definition sys_getppid :: "ksys \<Rightarrow> int option" where
  "sys_getppid s =
     (let current = process_current (sy_ps s) in
      if current = 0 then Some (-1)
      else do {
        x \<leftarrow> ps_procs (sy_ps s) current;
        parent \<leftarrow> process_find (pr_parent x) (sy_ps s);
        if parent = 0 then Some 0 else do { y \<leftarrow> ps_procs (sy_ps s) parent; Some (sint (pr_pid y)) } })"

definition sys_sbrk :: "u32 \<Rightarrow> int" where "sys_sbrk increment = -1"

definition sys_waitpid :: "u32 \<Rightarrow> addr \<Rightarrow> u32 \<Rightarrow> int" where "sys_waitpid pid status options = -1"

subsection \<open>Files and the terminal\<close>

text \<open>The loop of the terminal with \<open>k\<close> bytes of the buffer left; it echoes and stops behind a line feed.\<close>

fun tty_read :: "nat \<Rightarrow> poll list \<Rightarrow> console \<Rightarrow> (cstr \<times> poll list \<times> console) option" where
  "tty_read 0 ps c = Some ([], ps, c)"
| "tty_read (Suc k) ps c = do {
     (ch, ps1) \<leftarrow> wait_char ps;
     c1 \<leftarrow> console_putc ch c;
     if ch = 10 then Some ([ch], ps1, c1)
     else do { (r, ps2, c2) \<leftarrow> tty_read k ps1 c1; Some (ch # r, ps2, c2) } }"

definition sys_read :: "u32 \<Rightarrow> addr \<Rightarrow> u32 \<Rightarrow> ksys \<Rightarrow> (int \<times> ksys) option" where
  "sys_read fd buf count s =
     (if fd = 0 then
        (if buf = 0 \<or> count = 0 then Some (0, s)
         else do {
           (out, ps, c) \<leftarrow> tty_read (unat count) (sy_polls s) (sy_con s);
           Some (sint (of_nat (length out) :: u32), store_bytes buf out (s\<lparr>sy_polls := ps, sy_con := c\<rparr>)) })
      else do {
        (r, bs, f) \<leftarrow> vfs_read (sint fd) (buf \<noteq> 0) count (ps_fs (sy_ps s));
        Some (r, store_bytes buf bs (with_fs f s)) })"

definition sys_write :: "u32 \<Rightarrow> addr \<Rightarrow> u32 \<Rightarrow> ksys \<Rightarrow> (int \<times> ksys) option" where
  "sys_write fd buf count s =
     (let str = mem_bytes (ps_mem (sy_ps s)) buf count in
      if fd = 1 \<or> fd = 2 then do {
        c \<leftarrow> console_puts (takeWhile (\<lambda>ch. ch \<noteq> 0) str) (sy_con s);
        Some (sint count, s\<lparr>sy_con := c\<rparr>) }
      else do {
        (r, f) \<leftarrow> vfs_write (sint fd) (if buf = 0 then None else Some str) count (ps_fs (sy_ps s));
        Some (r, with_fs f s) })"

definition sys_open :: "addr \<Rightarrow> u32 \<Rightarrow> ksys \<Rightarrow> (int \<times> ksys) option" where
  "sys_open filename flags s = do {
     str \<leftarrow> str_arg filename s;
     (r, f) \<leftarrow> vfs_open str flags (ps_fs (sy_ps s));
     Some (r, with_fs f s) }"

definition sys_close :: "u32 \<Rightarrow> ksys \<Rightarrow> (int \<times> ksys) option" where
  "sys_close fd s = do { (r, f) \<leftarrow> vfs_close (sint fd) (ps_fs (sy_ps s)); Some (r, with_fs f s) }"

subsection \<open>Framebuffer\<close>

definition FB_INFO_SIZE :: u32 where "FB_INFO_SIZE = 16"

definition sys_fb_getinfo :: "addr \<Rightarrow> u32 \<Rightarrow> ksys \<Rightarrow> int \<times> ksys" where
  "sys_fb_getinfo out n s =
     (if out = 0 \<or> n < FB_INFO_SIZE then (-1, s)
      else (0, store_bytes out (bytes_of_u32 (vm_width (sy_mode s)) @ bytes_of_u32 (vm_height (sy_mode s))
             @ bytes_of_u32 (vm_pitch (sy_mode s)) @ bytes_of_u32 (vm_bpp (sy_mode s))) s))"

definition sys_fb_fill :: "u32 \<Rightarrow> ksys \<Rightarrow> (int \<times> ksys) option" where
  "sys_fb_fill rgb s = do { f \<leftarrow> display_clear (sy_mode s) rgb (sy_fb s); Some (0, s\<lparr>sy_fb := f\<rparr>) }"

definition sys_fb_rect :: "u32 \<Rightarrow> u32 \<Rightarrow> u32 \<Rightarrow> u32 \<Rightarrow> u32 \<Rightarrow> ksys \<Rightarrow> (int \<times> ksys) option" where
  "sys_fb_rect x y w h rgb s = do { f \<leftarrow> display_fill_rect (sy_mode s) x y w h rgb (sy_fb s); Some (0, s\<lparr>sy_fb := f\<rparr>) }"

subsection \<open>The table\<close>

definition syscall_register :: "u32 \<Rightarrow> syscall_fn \<Rightarrow> ksys \<Rightarrow> ksys" where
  "syscall_register num h s = (if num < MAX_SYSCALLS then s\<lparr>sy_table := (sy_table s)[unat num := Some h]\<rparr> else s)"

text \<open>The call through the function pointer; \<^verbatim>\<open>a\<close> holds the six arguments.\<close>

fun run_handler :: "cpu \<Rightarrow> syscall_fn \<Rightarrow> u32 \<times> u32 \<times> u32 \<times> u32 \<times> u32 \<times> u32 \<Rightarrow> ksys \<Rightarrow> (int flow \<times> ksys) option" where
  "run_handler c Sys_exit (a1, a2, a3, a4, a5, a6) s = sys_exit c a1 s"
| "run_handler c Sys_fork (a1, a2, a3, a4, a5, a6) s = map_option (map_prod Back id) (sys_fork s)"
| "run_handler c Sys_read (a1, a2, a3, a4, a5, a6) s = map_option (map_prod Back id) (sys_read a1 a2 a3 s)"
| "run_handler c Sys_write (a1, a2, a3, a4, a5, a6) s = map_option (map_prod Back id) (sys_write a1 a2 a3 s)"
| "run_handler c Sys_open (a1, a2, a3, a4, a5, a6) s = map_option (map_prod Back id) (sys_open a1 a2 s)"
| "run_handler c Sys_close (a1, a2, a3, a4, a5, a6) s = map_option (map_prod Back id) (sys_close a1 s)"
| "run_handler c Sys_execve (a1, a2, a3, a4, a5, a6) s = map_option (map_prod Back id) (sys_execve a1 s)"
| "run_handler c Sys_waitpid (a1, a2, a3, a4, a5, a6) s = Some (Back (sys_waitpid a1 a2 a3), s)"
| "run_handler c Sys_getpid (a1, a2, a3, a4, a5, a6) s = map_option (\<lambda>r. (Back r, s)) (sys_getpid s)"
| "run_handler c Sys_getppid (a1, a2, a3, a4, a5, a6) s = map_option (\<lambda>r. (Back r, s)) (sys_getppid s)"
| "run_handler c Sys_sbrk (a1, a2, a3, a4, a5, a6) s = Some (Back (sys_sbrk a1), s)"
| "run_handler c Sys_fb_getinfo (a1, a2, a3, a4, a5, a6) s = Some (map_prod Back id (sys_fb_getinfo a1 a2 s))"
| "run_handler c Sys_fb_fill (a1, a2, a3, a4, a5, a6) s = map_option (map_prod Back id) (sys_fb_fill a1 s)"
| "run_handler c Sys_fb_rect (a1, a2, a3, a4, a5, a6) s = map_option (map_prod Back id) (sys_fb_rect a1 a2 a3 a4 a5 s)"

definition syscall_dispatch :: "cpu \<Rightarrow> u32 \<Rightarrow> u32 \<times> u32 \<times> u32 \<times> u32 \<times> u32 \<times> u32 \<Rightarrow> ksys \<Rightarrow> (int flow \<times> ksys) option" where
  "syscall_dispatch c num args s =
     (if MAX_SYSCALLS \<le> num then Some (Back (-1), s)
      else (case sy_table s ! unat num of
          None \<Rightarrow> Some (Back (-1), s)
        | Some h \<Rightarrow> run_handler c h args s))"

definition syscalls_init :: "ksys \<Rightarrow> ksys" where
  "syscalls_init s =
     syscall_register SYS_FB_RECT Sys_fb_rect (syscall_register SYS_FB_FILL Sys_fb_fill
       (syscall_register SYS_FB_GETINFO Sys_fb_getinfo (syscall_register SYS_SBRK Sys_sbrk
       (syscall_register SYS_CLOSE Sys_close (syscall_register SYS_OPEN Sys_open
       (syscall_register SYS_WRITE Sys_write (syscall_register SYS_READ Sys_read
       (syscall_register SYS_GETPPID Sys_getppid (syscall_register SYS_GETPID Sys_getpid
       (syscall_register SYS_WAITPID Sys_waitpid (syscall_register SYS_EXECVE Sys_execve
       (syscall_register SYS_FORK Sys_fork (syscall_register SYS_EXIT Sys_exit s)))))))))))))"

subsection \<open>The gate\<close>

record isr_context =
  ic_eax :: u32
  ic_ecx :: u32
  ic_edx :: u32
  ic_ebx :: u32
  ic_esp :: u32
  ic_ebp :: u32
  ic_esi :: u32
  ic_edi :: u32

definition syscall_handler :: "cpu \<Rightarrow> isr_context \<Rightarrow> ksys \<Rightarrow> (int flow \<times> ksys) option" where
  "syscall_handler c ctx s =
     syscall_dispatch c (ic_eax ctx) (ic_ebx ctx, ic_ecx ctx, ic_edx ctx, ic_esi ctx, ic_edi ctx, ic_ebp ctx) s"

text \<open>The registers at the entry of the stub: those of the interrupted program, except that ESP already points to the frame the
  processor has pushed.\<close>

record gregs =
  g_eax :: u32
  g_ecx :: u32
  g_edx :: u32
  g_ebx :: u32
  g_esp :: u32
  g_ebp :: u32
  g_esi :: u32
  g_edi :: u32

text \<open>
  \<^verbatim>\<open>pushal\<close> pushes EAX first and EDI last, so the words from the stack pointer upwards are EDI, ESI, EBP,
  ESP, EBX, EDX, ECX, EAX; \<^verbatim>\<open>popal\<close> takes them back in this order and skips ESP.
\<close>

definition pushal :: "gregs \<Rightarrow> u32 list" where
  "pushal g = [g_edi g, g_esi g, g_ebp g, g_esp g, g_ebx g, g_edx g, g_ecx g, g_eax g]"

definition popal :: "u32 list \<Rightarrow> gregs \<Rightarrow> gregs" where
  "popal w g = \<lparr>g_eax = w ! 7, g_ecx = w ! 6, g_edx = w ! 5, g_ebx = w ! 4, g_esp = g_esp g, g_ebp = w ! 2,
     g_esi = w ! 1, g_edi = w ! 0\<rparr>"

text \<open>The pushed words seen through the structure, whose first member is at the lowest address.\<close>

definition context_of :: "u32 list \<Rightarrow> isr_context" where
  "context_of w = \<lparr>ic_eax = w ! 0, ic_ecx = w ! 1, ic_edx = w ! 2, ic_ebx = w ! 3, ic_esp = w ! 4, ic_ebp = w ! 5,
     ic_esi = w ! 6, ic_edi = w ! 7\<rparr>"

text \<open>The result is stored at the stack pointer, where the comment expects the slot of EAX.\<close>

definition syscall80_stub :: "cpu \<Rightarrow> gregs \<Rightarrow> ksys \<Rightarrow> (gregs flow \<times> ksys) option" where
  "syscall80_stub c g s = do {
     (fl, t) \<leftarrow> syscall_handler c (context_of (pushal g)) s;
     Some (case fl of Back r \<Rightarrow> Back (popal ((pushal g)[0 := word_of_int r]) g) | Enter u \<Rightarrow> Enter u | Halt \<Rightarrow> Halt, t) }"

subsection \<open>The stubs of the C library\<close>

text \<open>\<^verbatim>\<open>_syscall1\<close> and \<^verbatim>\<open>_syscall3\<close>: the result is what is in EAX afterwards; the other registers are as before.\<close>

definition lc_syscall1 :: "cpu \<Rightarrow> u32 \<Rightarrow> u32 \<Rightarrow> gregs \<Rightarrow> ksys \<Rightarrow> (int flow \<times> ksys) option" where
  "lc_syscall1 c n a1 g s = do {
     (fl, t) \<leftarrow> syscall80_stub c (g\<lparr>g_eax := n, g_ebx := a1\<rparr>) s;
     Some (case fl of Back g' \<Rightarrow> Back (sint (g_eax g')) | Enter u \<Rightarrow> Enter u | Halt \<Rightarrow> Halt, t) }"

definition lc_syscall3 :: "cpu \<Rightarrow> u32 \<Rightarrow> u32 \<Rightarrow> u32 \<Rightarrow> u32 \<Rightarrow> gregs \<Rightarrow> ksys \<Rightarrow> (int flow \<times> ksys) option" where
  "lc_syscall3 c n a1 a2 a3 g s = do {
     (fl, t) \<leftarrow> syscall80_stub c (g\<lparr>g_eax := n, g_ebx := a1, g_ecx := a2, g_edx := a3\<rparr>) s;
     Some (case fl of Back g' \<Rightarrow> Back (sint (g_eax g')) | Enter u \<Rightarrow> Enter u | Halt \<Rightarrow> Halt, t) }"

definition lc_fork where "lc_fork c = lc_syscall1 c SYS_FORK 0"
definition lc_getpid where "lc_getpid c = lc_syscall1 c SYS_GETPID 0"
definition lc_getppid where "lc_getppid c = lc_syscall1 c SYS_GETPPID 0"
definition lc_write where "lc_write c fd buf count = lc_syscall3 c SYS_WRITE fd buf count"
definition lc_read where "lc_read c fd buf count = lc_syscall3 c SYS_READ fd buf count"
definition lc_close where "lc_close c fd = lc_syscall1 c SYS_CLOSE fd"
definition lc_execve where "lc_execve c path argv envp = lc_syscall3 c SYS_EXECVE path argv envp"
definition lc_waitpid where "lc_waitpid c pid status options = lc_syscall3 c SYS_WAITPID pid status options"
definition lc_sbrk where "lc_sbrk c increment = lc_syscall1 c SYS_SBRK increment"

subsection \<open>Dispatch\<close>

lemma gate_dispatch:
  "syscall80_stub c g s = map_option (map_prod (\<lambda>fl. case fl of Back r \<Rightarrow> Back (g\<lparr>g_edi := word_of_int r\<rparr>) | Enter u \<Rightarrow> Enter u | Halt \<Rightarrow> Halt) id)
      (syscall_dispatch c (g_edi g) (g_esp g, g_esi g, g_ebp g, g_ecx g, g_eax g, g_edx g) s)"
  by (cases "syscall_dispatch c (g_edi g) (g_esp g, g_esi g, g_ebp g, g_ecx g, g_eax g, g_edx g) s")
    (auto simp: syscall80_stub_def syscall_handler_def context_of_def pushal_def popal_def split: flow.split)

text \<open>Which handler the table has for a number after \<^verbatim>\<open>syscalls_init\<close>.\<close>

definition handler_of :: "(u32 \<times> syscall_fn) list" where
  "handler_of = [(SYS_EXIT, Sys_exit), (SYS_FORK, Sys_fork), (SYS_EXECVE, Sys_execve), (SYS_WAITPID, Sys_waitpid),
     (SYS_GETPID, Sys_getpid), (SYS_GETPPID, Sys_getppid), (SYS_READ, Sys_read), (SYS_WRITE, Sys_write),
     (SYS_OPEN, Sys_open), (SYS_CLOSE, Sys_close), (SYS_SBRK, Sys_sbrk),
     (SYS_FB_GETINFO, Sys_fb_getinfo), (SYS_FB_FILL, Sys_fb_fill), (SYS_FB_RECT, Sys_fb_rect)]"

definition table_inited :: "ksys \<Rightarrow> bool" where
  "table_inited s \<longleftrightarrow> length (sy_table s) = 256 \<and> (\<forall>n<256. sy_table s ! unat n = map_of handler_of n)"

lemma register_table:
  assumes "length (sy_table s) = 256" and "m < 256"
  shows "length (sy_table (syscall_register m h s)) = 256"
    "sy_table (syscall_register m h s) ! unat n = (if n = m then Some h else sy_table s ! unat n)"
proof -
  have "unat m < 256" using assms(2) by (simp add: word_less_nat_alt)
  then show "length (sy_table (syscall_register m h s)) = 256"
    "sy_table (syscall_register m h s) ! unat n = (if n = m then Some h else sy_table s ! unat n)"
    using assms by (auto simp: syscall_register_def MAX_SYSCALLS_def nth_list_update word_unat_eq_iff)
qed

lemma syscalls_init_table:
  assumes "sy_table s = replicate 256 None"
  shows "table_inited (syscalls_init s)"
proof -
  have l: "length (sy_table s) = 256" using assms by simp
  have n: "SYS_EXIT < 256" "SYS_FORK < 256" "SYS_READ < 256" "SYS_WRITE < 256" "SYS_OPEN < 256" "SYS_CLOSE < 256"
    "SYS_EXECVE < 256" "SYS_WAITPID < 256" "SYS_GETPID < 256" "SYS_GETPPID < 256" "SYS_SBRK < 256"
    "SYS_FB_GETINFO < 256" "SYS_FB_FILL < 256" "SYS_FB_RECT < 256" by (simp_all add: sys_numbers)
  have "sy_table (syscalls_init s) ! unat n = map_of handler_of n" if "n < 256" for n
  proof -
    have "unat n < 256" using that by (simp add: word_less_nat_alt)
    then have "sy_table s ! unat n = None" by (simp add: assms)
    then have "sy_table (syscalls_init s) ! unat n = map_of (rev handler_of) n"
      unfolding syscalls_init_def handler_of_def by (simp add: register_table l n split del: if_split cong: if_cong)
    moreover have "map_of (rev handler_of) = map_of handler_of"
      by (rule map_of_eqI) (auto simp: handler_of_def sys_numbers)
    ultimately show ?thesis by simp
  qed
  moreover have "length (sy_table (syscalls_init s)) = 256" by (simp add: syscalls_init_def register_table l n)
  ultimately show ?thesis by (simp add: table_inited_def)
qed

lemma run_dispatch:
  assumes "table_inited s" and "map_of handler_of n = Some h"
  shows "syscall_dispatch c n a s = run_handler c h a s"
proof -
  have "n < 256" using assms(2) by (auto simp: handler_of_def sys_numbers split: if_splits)
  moreover from this have "\<not> MAX_SYSCALLS \<le> n" by (simp add: MAX_SYSCALLS_def not_le)
  ultimately show ?thesis using assms by (simp add: syscall_dispatch_def table_inited_def)
qed


subsection \<open>The terminal\<close>

text \<open>The line a reader gets from the keys typed: up to a line feed, or as many as the buffer holds.\<close>

fun tty_line :: "nat \<Rightarrow> u8 list \<Rightarrow> cstr option" where
  "tty_line 0 ks = Some []"
| "tty_line (Suc n) [] = None"
| "tty_line (Suc n) (k # ks) = (if k = 10 then Some [k] else map_option ((#) k) (tty_line n ks))"

lemma tty_read_line:
  "shows_paper c p \<Longrightarrow> case tty_line n (keys_of ps) of
      None \<Rightarrow> tty_read n ps c = None
    | Some l \<Rightarrow> \<exists>qs c'. tty_read n ps c = Some (l, qs, c') \<and> co_attr c' = co_attr c \<and> shows_paper c' (type_text (co_attr c) l p)"
proof (induction n arbitrary: ps c p)
  case (Suc n)
  show ?case
  proof (cases "wait_char ps")
    case None
    then show ?thesis by (simp add: wait_char_keys)
  next
    case (Some kq)
    then obtain k qs where w: "wait_char ps = Some (k, qs)" by (cases kq) auto
    note ks = wait_char_keys(2) [OF w]
    obtain c1 where c1: "console_putc k c = Some c1" "co_attr c1 = co_attr c" "shows_paper c1 (type_char (co_attr c) k p)"
      using console_putc_refines [OF Suc.prems] by blast
    show ?thesis
    proof (cases "k = 10")
      case True then show ?thesis using w ks c1 by simp
    next
      case False
      from Suc.IH [OF c1(3), of qs] show ?thesis
        using False w ks c1 by (auto simp del: shows_paper.simps split: option.splits)
    qed
  qed
qed simp

lemma tty_line_length: "tty_line n ks = Some l \<Longrightarrow> length l \<le> n"
  by (induction n ks arbitrary: l rule: tty_line.induct) (auto split: if_splits)

text \<open>A machine with two keys typed and a cleared screen.\<close>

definition demo_sys :: "psys \<Rightarrow> ksys" where
  "demo_sys p = \<lparr>sy_table = replicate 256 None, sy_ps = p,
     sy_con = \<lparr>co_vga = replicate 2000 0x720, co_x = 0, co_y = 0, co_attr = 7\<rparr>,
     sy_polls = [(-1, -1), (104, -1), (-1, 13), (105, -1)], sy_mode = no_mode, sy_fb = []\<rparr>"

lemma demo_sys_ok:
  "table_inited (syscalls_init (demo_sys p))" "sy_ps (syscalls_init (demo_sys p)) = p"
  "sy_con (syscalls_init (demo_sys p)) = sy_con (demo_sys p)" "sy_polls (syscalls_init (demo_sys p)) = sy_polls (demo_sys p)"
  "shows_paper (sy_con (demo_sys p)) ([], blank_line 7, 0)"
proof -
  have r: "sy_ps (syscall_register n h s) = sy_ps s" "sy_con (syscall_register n h s) = sy_con s"
    "sy_polls (syscall_register n h s) = sy_polls s" for n h s by (simp_all add: syscall_register_def)
  show "table_inited (syscalls_init (demo_sys p))" by (rule syscalls_init_table) (simp add: demo_sys_def)
  show "sy_ps (syscalls_init (demo_sys p)) = p" "sy_con (syscalls_init (demo_sys p)) = sy_con (demo_sys p)"
    "sy_polls (syscalls_init (demo_sys p)) = sy_polls (demo_sys p)"
    by (simp_all add: syscalls_init_def r) (simp add: demo_sys_def)
  show "shows_paper (sy_con (demo_sys p)) ([], blank_line 7, 0)"
    by (rule cleared_shows_paper) (simp_all add: demo_sys_def vga_cell_def)
qed

subsection \<open>Properties\<close>

text \<open>C7.  The gate \<^verbatim>\<open>int 0x80\<close> hands the registers over in the wrong order: the kernel takes the call number
  from EDI and the arguments from ESP, ESI, EBP, ECX, EAX and EDX, the result goes to EDI, and EAX, from
  which the C library takes the result, is what it was.  A call of the library that comes back thus
  returns its own number, whatever the kernel did.\<close>

theorem syscall_gate_reversed:
  "syscall80_stub c g s = (case syscall_dispatch c (g_edi g) (g_esp g, g_esi g, g_ebp g, g_ecx g, g_eax g, g_edx g) s of
      None \<Rightarrow> None
    | Some (Back r, t) \<Rightarrow> Some (Back (g\<lparr>g_edi := word_of_int r\<rparr>), t)
    | Some (Enter u, t) \<Rightarrow> Some (Enter u, t)
    | Some (Halt, t) \<Rightarrow> Some (Halt, t))
   \<and> (\<forall>r t. lc_syscall3 c n a1 a2 a3 g s = Some (Back r, t) \<longrightarrow> r = sint n)"
proof -
  have "r = sint n" if "lc_syscall3 c n a1 a2 a3 g s = Some (Back r, t)" for r t
    using that
    by (cases "syscall_dispatch c (g_edi g) (g_esp g, g_esi g, g_ebp g, a2, n, a3) s")
      (auto simp: lc_syscall3_def gate_dispatch split: flow.splits prod.splits)
  then show ?thesis
    by (auto simp: gate_dispatch map_prod_def split: option.split prod.split flow.split)
qed

lemma syscall_gate_reversed_witness:
  "\<forall>c. \<exists>r. lc_syscall3 c SYS_READ 0 0x2000 3 \<lparr>g_eax = 9, g_ecx = 9, g_edx = 9, g_ebx = 9, g_esp = 9, g_ebp = 9, g_esi = 9, g_edi = 0x1000\<rparr>
     (demo_sys demo_ps) = Some (Back r, demo_sys demo_ps) \<and> r = 2"
proof
  fix c
  let ?g = "\<lparr>g_eax = 9, g_ecx = 9, g_edx = 9, g_ebx = 9, g_esp = 9, g_ebp = 9, g_esi = 9, g_edi = 0x1000\<rparr> :: gregs"
  have "\<exists>r. lc_syscall3 c SYS_READ 0 0x2000 3 ?g (demo_sys demo_ps) = Some (Back r, demo_sys demo_ps)"
    by (simp add: lc_syscall3_def gate_dispatch syscall_dispatch_def MAX_SYSCALLS_def)
  then show "\<exists>r. lc_syscall3 c SYS_READ 0 0x2000 3 ?g (demo_sys demo_ps) = Some (Back r, demo_sys demo_ps) \<and> r = 2"
    using syscall_gate_reversed [of c ?g "demo_sys demo_ps" SYS_READ 0 "0x2000" 3] by (auto simp: sys_numbers)
qed

text \<open>The boot code never calls \<^verbatim>\<open>syscalls_init\<close> (it calls the empty \<^verbatim>\<open>syscall_init\<close>), so the table is all
  zero: every system call of a user program comes back with the call's own number as its result and
  nothing has happened.\<close>

theorem booted_calls_do_nothing:
  assumes "sy_table s = replicate 256 None"
  shows "lc_fork c g s = Some (Back 1, s) \<and> lc_read c fd buf k g s = Some (Back 2, s)
    \<and> lc_write c fd buf k g s = Some (Back 3, s) \<and> lc_execve c path argv envp g s = Some (Back 6, s)
    \<and> lc_sbrk c increment g s = Some (Back 10, s)"
proof -
  have d: "syscall_dispatch c n a s = Some (Back (-1), s)" for n a
  proof (cases "n < MAX_SYSCALLS")
    case True
    then have "unat n < 256" by (simp add: word_less_nat_alt MAX_SYSCALLS_def)
    then show ?thesis by (simp add: syscall_dispatch_def assms)
  qed (simp add: syscall_dispatch_def not_less)
  show ?thesis
    by (simp add: lc_fork_def lc_read_def lc_write_def lc_execve_def lc_sbrk_def lc_syscall1_def lc_syscall3_def gate_dispatch d sys_numbers)
qed

lemma booted_calls_do_nothing_witness:
  "\<forall>c. lc_fork c \<lparr>g_eax = 9, g_ecx = 9, g_edx = 9, g_ebx = 9, g_esp = 9, g_ebp = 9, g_esi = 9, g_edi = SYS_FORK\<rparr> (demo_sys demo_ps)
     = Some (Back 1, demo_sys demo_ps)"
proof
  fix c
  show "lc_fork c \<lparr>g_eax = 9, g_ecx = 9, g_edx = 9, g_ebx = 9, g_esp = 9, g_ebp = 9, g_esi = 9, g_edi = SYS_FORK\<rparr> (demo_sys demo_ps)
     = Some (Back 1, demo_sys demo_ps)"
  proof -
    have "sy_table (demo_sys demo_ps) = replicate 256 None" by (simp add: demo_sys_def)
    from booted_calls_do_nothing [OF this] show ?thesis by blast
  qed
qed

text \<open>Reading descriptor 0 through an initialised table waits for a line of the keyboard and the serial port:
  it stores the keys up to the line feed (or until the buffer is full) and echoes them on the console.
  When too few are typed it never returns.\<close>

theorem sys_read_terminal:
  assumes "table_inited s" and "buf \<noteq> 0" and "n \<noteq> 0" and "unat n < 2 ^ 31" and "shows_paper (sy_con s) p"
  shows "case tty_line (unat n) (keys_of (sy_polls s)) of
      None \<Rightarrow> syscall_dispatch c SYS_READ (0, buf, n, a4, a5, a6) s = None
    | Some l \<Rightarrow> \<exists>t. syscall_dispatch c SYS_READ (0, buf, n, a4, a5, a6) s = Some (Back (int (length l)), t)
        \<and> ps_mem (sy_ps t) = mem_write buf l (ps_mem (sy_ps s)) \<and> ps_fs (sy_ps t) = ps_fs (sy_ps s)
        \<and> shows_paper (sy_con t) (type_text (co_attr (sy_con s)) l p)"
proof -
  have "map_of handler_of SYS_READ = Some Sys_read" by (simp add: handler_of_def sys_numbers)
  note r = run_dispatch [OF assms(1) this]
  show ?thesis
  proof (cases "tty_line (unat n) (keys_of (sy_polls s))")
    case None
    then show ?thesis using tty_read_line [OF assms(5), of "unat n" "sy_polls s"] assms(2,3) by (simp add: r sys_read_def)
  next
    case (Some l)
    then obtain qs c' where t: "tty_read (unat n) (sy_polls s) (sy_con s) = Some (l, qs, c')"
        "shows_paper c' (type_text (co_attr (sy_con s)) l p)"
      using tty_read_line [OF assms(5), of "unat n" "sy_polls s"] by auto
    have "length l < 2 ^ 31" using tty_line_length [OF Some] assms(4) by simp
    then show ?thesis using Some t assms(2,3) by (simp add: r sys_read_def store_bytes_def sint_small del: shows_paper.simps)
  qed
qed

lemma sys_read_terminal_witness:
  "\<forall>c. \<exists>t. syscall_dispatch c SYS_READ (0, 0x2000, 3, 0, 0, 0) (syscalls_init (demo_sys demo_ps)) = Some (Back 2, t)
    \<and> ps_mem (sy_ps t) = mem_write 0x2000 [104, 10] (ps_mem demo_ps) \<and> co_y (sy_con t) = 1"
proof
  fix c
  show "\<exists>t. syscall_dispatch c SYS_READ (0, 0x2000, 3, 0, 0, 0) (syscalls_init (demo_sys demo_ps)) = Some (Back 2, t)
    \<and> ps_mem (sy_ps t) = mem_write 0x2000 [104, 10] (ps_mem demo_ps) \<and> co_y (sy_con t) = 1"
  proof -
    have k: "tty_line (unat (3 :: u32)) (keys_of (sy_polls (demo_sys demo_ps))) = Some [104, 10]"
      by (simp add: demo_sys_def) (simp add: numeral_3_eq_3)
    have "type_text 7 [104, 10] ([], blank_line 7, 0) = ([(blank_line 7)[0 := vga_cell 7 104]], blank_line 7, 0)"
      by (simp add: type_char_def Let_def)
    then show ?thesis
      using sys_read_terminal [OF demo_sys_ok(1) [of demo_ps] _ _ _ demo_sys_ok(5) [of demo_ps, folded demo_sys_ok(3)], where c = c
          and buf = "0x2000" and n = 3 and ?a4.0 = 0 and ?a5.0 = 0 and ?a6.0 = 0] k
      by (auto simp: demo_sys_ok) (auto simp: demo_sys_def)
  qed
qed

text \<open>Writing to descriptor 1 or 2 prints the bytes of the buffer on the console, up to a NUL byte, and
  returns the whole count.\<close>

theorem sys_write_console:
  assumes "table_inited s" and "fd = 1 \<or> fd = 2" and "shows_paper (sy_con s) p"
  shows "\<exists>con. syscall_dispatch c SYS_WRITE (fd, buf, n, a4, a5, a6) s = Some (Back (sint n), s\<lparr>sy_con := con\<rparr>)
    \<and> shows_paper con (type_text (co_attr (sy_con s)) (takeWhile (\<lambda>ch. ch \<noteq> 0) (mem_bytes (ps_mem (sy_ps s)) buf n)) p)"
proof -
  have "map_of handler_of SYS_WRITE = Some Sys_write" by (simp add: handler_of_def sys_numbers)
  note r = run_dispatch [OF assms(1) this]
  obtain con where "console_puts (takeWhile (\<lambda>ch. ch \<noteq> 0) (mem_bytes (ps_mem (sy_ps s)) buf n)) (sy_con s) = Some con"
      "shows_paper con (type_text (co_attr (sy_con s)) (takeWhile (\<lambda>ch. ch \<noteq> 0) (mem_bytes (ps_mem (sy_ps s)) buf n)) p)"
    using console_puts_refines [OF assms(3)] by blast
  then show ?thesis using assms(2) by (auto simp: r sys_write_def Let_def simp del: shows_paper.simps)
qed

lemma sys_write_console_witness:
  "\<forall>c. \<exists>con. syscall_dispatch c SYS_WRITE (2, 0x2000, 5, 0, 0, 0) (syscalls_init (demo_sys (demo_ps\<lparr>ps_mem := mem_write 0x2000 [65, 10, 66] (\<lambda>_. 0)\<rparr>)))
      = Some (Back 5, (syscalls_init (demo_sys (demo_ps\<lparr>ps_mem := mem_write 0x2000 [65, 10, 66] (\<lambda>_. 0)\<rparr>)))\<lparr>sy_con := con\<rparr>)
    \<and> console_get_cursor con = (1, 1)"
proof
  fix c
  show "\<exists>con. syscall_dispatch c SYS_WRITE (2, 0x2000, 5, 0, 0, 0) (syscalls_init (demo_sys (demo_ps\<lparr>ps_mem := mem_write 0x2000 [65, 10, 66] (\<lambda>_. 0)\<rparr>)))
      = Some (Back 5, (syscalls_init (demo_sys (demo_ps\<lparr>ps_mem := mem_write 0x2000 [65, 10, 66] (\<lambda>_. 0)\<rparr>)))\<lparr>sy_con := con\<rparr>)
    \<and> console_get_cursor con = (1, 1)"
  proof -
    let ?p = "demo_ps\<lparr>ps_mem := mem_write 0x2000 [65, 10, 66] (\<lambda>_. 0)\<rparr>"
    have b: "takeWhile (\<lambda>ch. ch \<noteq> 0) (mem_bytes (ps_mem ?p) 0x2000 5) = [65, 10, 66]"
      by (simp add: mem_bytes_def mem_write_def upt_rec)
    have "type_text 7 [65, 10, 66] ([], blank_line 7, 0) = ([(blank_line 7)[0 := vga_cell 7 65]], (blank_line 7)[0 := vga_cell 7 66], 1)"
      by (simp add: type_char_def Let_def)
    then show ?thesis
      using sys_write_console [OF demo_sys_ok(1) [of ?p] _ demo_sys_ok(5) [of ?p, folded demo_sys_ok(3)], where fd = 2 and c = c
          and buf = "0x2000" and n = 5 and ?a4.0 = 0 and ?a5.0 = 0 and ?a6.0 = 0] b
      by (auto simp: demo_sys_ok console_get_cursor_def) (auto simp: demo_sys_def)
  qed
qed

text \<open>C28.  Opening a file of the mounted tree, reading it and closing it by system calls stores the first bytes of
  the file in the caller's buffer and restores everything else, unless its descriptor is 0 (the first
  file opened gets it): then the read is one from the terminal.\<close>

theorem sys_file_read:
  assumes "table_inited s" and "openable path d fd (ps_fs (sy_ps s))" and "mem_cstr (ps_mem (sy_ps s)) p = Some path" and "p \<noteq> 0"
    and "buf \<noteq> 0" and "unat k < 2 ^ 31"
  shows "\<exists>s1. syscall_dispatch c SYS_OPEN (p, 0, a3, a4, a5, a6) s = Some (Back (int fd), s1)
    \<and> (if fd = 0 then syscall_dispatch c SYS_READ (0, buf, k, a4, a5, a6) s1
          = map_option (map_prod id (\<lambda>t. t\<lparr>sy_ps := (sy_ps t)\<lparr>ps_fs := ps_fs (sy_ps s1)\<rparr>\<rparr>)) (syscall_dispatch c SYS_READ (0, buf, k, a4, a5, a6) s)
       else \<exists>s2. syscall_dispatch c SYS_READ (of_nat fd, buf, k, a4, a5, a6) s1 = Some (Back (int (min (unat k) (length d))), s2)
          \<and> syscall_dispatch c SYS_CLOSE (of_nat fd, a2, a3, a4, a5, a6) s2 = Some (Back 0, store_bytes buf (take (unat k) d) s))"
proof -
  have h: "map_of handler_of SYS_OPEN = Some Sys_open" "map_of handler_of SYS_READ = Some Sys_read"
    "map_of handler_of SYS_CLOSE = Some Sys_close" by (simp_all add: handler_of_def sys_numbers)
  obtain n where n: "vfs_open (Some path) 0 (ps_fs (sy_ps s)) = Some (int fd, open_at (ps_fs (sy_ps s)) fd n 0)"
      "open_ok (ps_fs (sy_ps s)) d fd n 0" using open_step [OF assms(2)] by blast
  obtain y where y: "vfs_read (int fd) True k (open_at (ps_fs (sy_ps s)) fd n 0)
      = Some (int (length (take (unat k) d)), take (unat k) d, open_at (ps_fs (sy_ps s)) fd n y)" "open_ok (ps_fs (sy_ps s)) d fd n y"
    using read_step [OF n(2) assms(6)] by auto
  note cl = close_step [OF assms(2) y(2)]
  let ?s1 = "with_fs (open_at (ps_fs (sy_ps s)) fd n 0) s"
  let ?s2 = "store_bytes buf (take (unat k) d) (with_fs (open_at (ps_fs (sy_ps s)) fd n y) s)"
  have t: "table_inited ?s1" "table_inited ?s2" using assms(1) by (simp_all add: table_inited_def with_fs_def store_bytes_def)
  have fd: "fd < 32" using assms(2) free_fd_bound [of "fs_open (ps_fs (sy_ps s))" 0 fd]
    by (auto simp: openable_def table_ok_def MAX_OPEN_FILES_def)
  have o: "syscall_dispatch c SYS_OPEN (p, 0, a3, a4, a5, a6) s = Some (Back (int fd), ?s1)"
    using n(1) assms(3,4) by (simp add: run_dispatch [OF assms(1) h(1)] sys_open_def str_arg_def)
  show ?thesis
  proof (cases "fd = 0")
    case True
    have "syscall_dispatch c SYS_READ (0, buf, k, a4, a5, a6) ?s1
          = map_option (map_prod id (\<lambda>t. t\<lparr>sy_ps := (sy_ps t)\<lparr>ps_fs := ps_fs (sy_ps ?s1)\<rparr>\<rparr>)) (syscall_dispatch c SYS_READ (0, buf, k, a4, a5, a6) s)"
      unfolding run_dispatch [OF t(1) h(2)] run_dispatch [OF assms(1) h(2)]
      by (cases "tty_read (unat k) (sy_polls s) (sy_con s)") (auto simp: sys_read_def with_fs_def store_bytes_def)
    then show ?thesis using o True by auto
  next
    case False
    have w: "sint (of_nat fd :: u32) = int fd" "(of_nat fd :: u32) \<noteq> 0"
      using fd False sint_small [of fd] by (auto simp: word_of_nat_eq_0_iff dest: dvd_imp_le)
    have "syscall_dispatch c SYS_READ (of_nat fd, buf, k, a4, a5, a6) ?s1 = Some (Back (int (min (unat k) (length d))), ?s2)"
      unfolding run_dispatch [OF t(1) h(2)] using y(1) assms(5) w by (simp add: sys_read_def with_fs_def min.commute)
    moreover have "syscall_dispatch c SYS_CLOSE (of_nat fd, a2, a3, a4, a5, a6) ?s2 = Some (Back 0, store_bytes buf (take (unat k) d) s)"
      unfolding run_dispatch [OF t(2) h(3)] using cl w by (simp add: sys_close_def with_fs_def store_bytes_def)
    ultimately show ?thesis using o False by auto
  qed
qed


text \<open>The archive of \<open>Elf\<close>, mounted, with descriptor 0 in use.\<close>

lemma demo_openable:
  "\<exists>f. openable (asc ''/init'') demo_prog 1 f"
proof -
  let ?t = "mounted_tree [(asc ''init'', demo_prog)]"
  obtain f where f: "tree_ok f ?t" "table_ok f" "fs_wf f" using demo_elf_mounted by blast
  have "length (fs_open f) = MAX_OPEN_FILES" using f(2) by (simp add: table_ok_def)
  let ?f = "f\<lparr>fs_open := (vnode0\<lparr>vn_name := [65]\<rparr>) # replicate 31 vnode0\<rparr>"
  have "tree_ok ?f ?t" by (rule tree_ok_extends [OF f(1)]) (use f(1) in \<open>simp_all add: extends_def tree_ok_def\<close>)
  moreover have "fs_wf ?f" using f(3) by (simp add: fs_wf_def)
  moreover have "table_ok ?f" by (simp add: table_ok_def MAX_OPEN_FILES_def)
  moreover have "free_fd (fs_open ?f) 0 = Some 1" by (simp add: vnode0_def numeral_eq_Suc)
  moreover have "cstr_ok (asc ''/init'')" "length (asc ''/init'') < VFS_PATH_MAX" "length demo_prog = 64"
    by (simp_all add: cstr_ok_def asc_def VFS_PATH_MAX_def demo_prog_def)
  moreover have "resolve ?t [] (parts (\<lambda>c. c = 47) (asc ''/init'')) = Some [asc ''init'']" "tree_get ?t [asc ''init''] = Some (File demo_prog)"
  proof -
    have "parts (\<lambda>c. c = 47) (asc ''/init'') = [asc ''init'']" by (simp add: asc_def parts.simps Let_def)
    then show "resolve ?t [] (parts (\<lambda>c. c = 47) (asc ''/init'')) = Some [asc ''init'']" "tree_get ?t [asc ''init''] = Some (File demo_prog)"
      by (simp_all add: mounted_tree_def) (simp_all add: asc_def)
  qed
  ultimately have "openable (asc ''/init'') demo_prog 1 ?f" unfolding openable_def
    by (intro conjI exI [of _ ?t] exI [of _ "[asc ''init'']"]) (simp_all add: kmalloc_ok_def)
  then show ?thesis ..
qed

lemma sys_file_read_witness:
  "\<forall>c. \<exists>s s1 s2. syscall_dispatch c SYS_OPEN (0x1000, 0, 0, 0, 0, 0) s = Some (Back 1, s1)
    \<and> syscall_dispatch c SYS_READ (1, 0x2000, 4, 0, 0, 0) s1 = Some (Back 4, s2)
    \<and> syscall_dispatch c SYS_CLOSE (1, 0, 0, 0, 0, 0) s2 = Some (Back 0, store_bytes 0x2000 [0x7F, 0x45, 0x4C, 0x46] s)"
proof
  fix c
  show "\<exists>s s1 s2. syscall_dispatch c SYS_OPEN (0x1000, 0, 0, 0, 0, 0) s = Some (Back 1, s1)
    \<and> syscall_dispatch c SYS_READ (1, 0x2000, 4, 0, 0, 0) s1 = Some (Back 4, s2)
    \<and> syscall_dispatch c SYS_CLOSE (1, 0, 0, 0, 0, 0) s2 = Some (Back 0, store_bytes 0x2000 [0x7F, 0x45, 0x4C, 0x46] s)"
  proof -
    obtain f where f: "openable (asc ''/init'') demo_prog 1 f" using demo_openable by blast
    let ?p = "demo_ps\<lparr>ps_fs := f, ps_mem := mem_write 0x1000 (asc ''/init'') (\<lambda>_. 0)\<rparr>"
    let ?s = "syscalls_init (demo_sys ?p)"
    have "openable (asc ''/init'') demo_prog 1 (ps_fs (sy_ps ?s))" using f by (simp add: demo_sys_ok)
    moreover have "mem_cstr (ps_mem (sy_ps ?s)) 0x1000 = Some (asc ''/init'')"
      by (simp add: demo_sys_ok mem_write_def asc_def mem_cstr.simps)
    moreover have "take (unat (4 :: u32)) demo_prog = [0x7F, 0x45, 0x4C, 0x46]" "length demo_prog = 64" by (simp_all add: demo_prog_def)
    ultimately show ?thesis
      using sys_file_read [OF demo_sys_ok(1) [of ?p], where path = "asc ''/init''" and d = demo_prog and fd = 1 and p = "0x1000" and c = c
          and buf = "0x2000" and k = 4 and ?a2.0 = 0 and ?a3.0 = 0 and ?a4.0 = 0 and ?a5.0 = 0 and ?a6.0 = 0] by fastforce
  qed
qed

end
