(* ===== verification/Interrupts.thy ===== *)
theory Interrupts
  imports Serial Syscalls
begin

text \<open>
  Interrupts and time: the descriptor table, the interrupt controllers and the dispatch of
  \<^verbatim>\<open>arch/x86/x86/interrupts/idt.c\<close>, the entry stubs of \<^verbatim>\<open>isr.S\<close>, the handlers of \<^verbatim>\<open>isr.c\<close>, the timer of
  \<^verbatim>\<open>kernel/timer.c\<close> with \<^verbatim>\<open>kernel/irq.c\<close>, and the blue screen of \<^verbatim>\<open>kernel/bsod.c\<close> where exceptions end.

  Handlers are named by \<open>irq_fn\<close> (the table holds function pointers).  The addresses the linker gives the
  stubs are the parameter \<open>addr_of\<close>.  An arriving interrupt is a pair of its line and the byte port 0x60
  holds then; a loop around \<^verbatim>\<open>hlt\<close> consumes a list of them, and \<open>None\<close> means that it still waits when
  they are over.  Writes to the controllers and to the timer chip are the trace \<open>is_ports\<close>.
\<close>

subsection \<open>State\<close>

datatype irq_fn = Timer_tick | Timer_handler | Keyboard_irq_handler

datatype stub = Ex_stub nat | Irq_stub nat | Syscall80_stub

record idt_entry =
  ie_base_lo :: u16
  ie_sel :: u16
  ie_always0 :: u8
  ie_flags :: u8
  ie_base_hi :: u16

record isys =
  is_idt :: "idt_entry list"
  is_idt_addr :: addr
  is_idtr :: "u16 \<times> addr"
  is_handlers :: "irq_fn option list"
  is_enabled :: bool
  is_ports :: "(u16 \<times> u8) list"
  is_ticks :: u32
  is_timer_ticks :: u32
  is_callback :: "irq_fn option"
  is_kbd :: kbd
  is_serial :: serial
  is_console :: console

definition is_outb :: "u16 \<Rightarrow> u8 \<Rightarrow> isys \<Rightarrow> isys" where
  "is_outb port v s = s\<lparr>is_ports := is_ports s @ [(port, v)]\<rparr>"

definition is_log :: "(serial \<Rightarrow> serial option) \<Rightarrow> isys \<Rightarrow> isys option" where
  "is_log f s = map_option (\<lambda>p. s\<lparr>is_serial := p\<rparr>) (f (is_serial s))"

definition is_show :: "(console \<Rightarrow> console option) \<Rightarrow> isys \<Rightarrow> isys option" where
  "is_show f s = map_option (\<lambda>p. s\<lparr>is_console := p\<rparr>) (f (is_console s))"

subsection \<open>The descriptor table and the controllers\<close>

definition idt_set_gate :: "u8 \<Rightarrow> u32 \<Rightarrow> u16 \<Rightarrow> u8 \<Rightarrow> isys \<Rightarrow> isys" where
  "idt_set_gate num base sel flags s = s\<lparr>is_idt := (is_idt s)[unat num :=
     \<lparr>ie_base_lo = ucast (base AND 0xFFFF), ie_sel = sel, ie_always0 = 0, ie_flags = flags,
      ie_base_hi = ucast (drop_bit 16 base AND 0xFFFF)\<rparr>]\<rparr>"

definition pic_remap :: "isys \<Rightarrow> isys" where
  "pic_remap s = fold (\<lambda>(p, v). is_outb p v)
     [(0x20, 0x11), (0xA0, 0x11), (0x21, 0x20), (0xA1, 0x28), (0x21, 0x04), (0xA1, 0x02),
      (0x21, 0x01), (0xA1, 0x01), (0x21, 0xFF), (0xA1, 0xFF)] s"

definition irq_install_handler :: "u8 \<Rightarrow> irq_fn \<Rightarrow> isys \<Rightarrow> isys" where
  "irq_install_handler irq h s = (if irq < 16 then s\<lparr>is_handlers := (is_handlers s)[unat irq := Some h]\<rparr> else s)"

definition interrupts_enable :: "isys \<Rightarrow> isys" where "interrupts_enable s = s\<lparr>is_enabled := True\<rparr>"
definition interrupts_disable :: "isys \<Rightarrow> isys" where "interrupts_disable s = s\<lparr>is_enabled := False\<rparr>"

definition idt_init :: "(stub \<Rightarrow> u32) \<Rightarrow> isys \<Rightarrow> isys" where
  "idt_init addr_of s =
     (let s1 = fold (\<lambda>i. idt_set_gate (of_nat i) 0 0x08 0x8E) [0..<256] s;
          s2 = fold (\<lambda>i. idt_set_gate (of_nat i) (addr_of (Ex_stub i)) 0x08 0x8E) [0..<20] s1;
          s3 = fold (\<lambda>i. idt_set_gate (of_nat (32 + i)) (addr_of (Irq_stub i)) 0x08 0x8E) [0..<16] (pic_remap s2);
          s4 = idt_set_gate 0x80 (addr_of Syscall80_stub) 0x08 0xEE s3 in
      s4\<lparr>is_idtr := (256 * 8 - 1, is_idt_addr s4)\<rparr>)"

subsection \<open>The timer\<close>

text \<open>\<^verbatim>\<open>int\<close> division traps on zero and truncates; only the low two bytes of the quotient are used.\<close>

definition timer_phase :: "u32 \<Rightarrow> isys \<Rightarrow> isys option" where
  "timer_phase hz s =
     (if hz = 0 then None
      else let divisor = (word_of_int (sgn (sint hz) * (1193180 div \<bar>sint hz\<bar>)) :: u32) in
        Some (is_outb 0x40 (ucast (drop_bit 8 divisor)) (is_outb 0x40 (ucast divisor) (is_outb 0x43 0x36 s))))"

definition timer_init :: "u32 \<Rightarrow> isys \<Rightarrow> isys option" where
  "timer_init frequency s = do {
     t \<leftarrow> timer_phase frequency (irq_install_handler 0 Timer_handler s);
     is_show (console_puts (asc ''[timer] Timer initialized'' @ [10])) t }"

definition timer_get_ticks :: "isys \<Rightarrow> u32" where "timer_get_ticks s = is_timer_ticks s"

definition timer_set_callback :: "irq_fn option \<Rightarrow> isys \<Rightarrow> isys" where
  "timer_set_callback f s = s\<lparr>is_callback := f\<rparr>"

definition isr_timer_tick :: "isys \<Rightarrow> isys option" where
  "isr_timer_tick s =
     (let s1 = s\<lparr>is_ticks := is_ticks s + 1\<rparr> in
      if is_ticks s1 mod 100 = 0 then do {
        s2 \<leftarrow> is_log (serial_write (asc ''[tick] '')) s1;
        s3 \<leftarrow> is_log (serial_write_dec (is_ticks s2)) s2;
        is_log (serial_write [10]) s3 }
      else Some s1)"

subsection \<open>Dispatch\<close>

text \<open>A callback may be any of the handlers; the timer's own handler would call itself for ever.\<close>

partial_function (option) run_fn :: "irq_fn \<Rightarrow> u8 \<Rightarrow> isys \<Rightarrow> isys option" where
  "run_fn f sc s = (case f of
     Timer_tick \<Rightarrow> isr_timer_tick s
   | Keyboard_irq_handler \<Rightarrow> Some (s\<lparr>is_kbd := keyboard_irq_handler sc (is_kbd s)\<rparr>)
   | Timer_handler \<Rightarrow>
       (let s1 = s\<lparr>is_timer_ticks := is_timer_ticks s + 1\<rparr> in
        case is_callback s1 of None \<Rightarrow> Some s1 | Some g \<Rightarrow> run_fn g sc s1))"

definition send_eoi :: "u8 \<Rightarrow> isys \<Rightarrow> isys" where
  "send_eoi irq s = (let s1 = (if 8 \<le> irq then is_outb 0xA0 0x20 s else s) in is_outb 0x20 0x20 s1)"

definition irq_handler :: "u8 \<Rightarrow> u8 \<Rightarrow> isys \<Rightarrow> isys option" where
  "irq_handler irq sc s =
     (let s1 = is_outb 0x20 0x20 (if 8 \<le> irq then is_outb 0xA0 0x20 s else s) in
      if irq < 16 then (case is_handlers s1 ! unat irq of None \<Rightarrow> Some s1 | Some f \<Rightarrow> run_fn f sc s1) else Some s1)"

text \<open>The stub of a line: the interrupted program's registers are saved around the handler.\<close>

definition irq_stub :: "u8 \<Rightarrow> u8 \<Rightarrow> gregs \<Rightarrow> isys \<Rightarrow> (gregs \<times> isys) option" where
  "irq_stub n sc g s = map_option (\<lambda>t. (popal (pushal g) g, t)) (irq_handler n sc s)"

definition irq0_handler :: "isys \<Rightarrow> isys option" where "irq0_handler s = isr_timer_tick s"

definition pic_unmask_timer_keyboard :: "isys \<Rightarrow> isys" where
  "pic_unmask_timer_keyboard s = is_outb 0xA1 0xFF (is_outb 0x21 0xFC s)"

definition irq_init_basic :: "isys \<Rightarrow> isys" where
  "irq_init_basic s =
     (let s1 = irq_install_handler 1 Keyboard_irq_handler (irq_install_handler 0 Timer_tick s);
          dv = (1193180 div 100 :: u32) in
      pic_unmask_timer_keyboard
        (is_outb 0x40 (ucast (drop_bit 8 dv AND 0xFF)) (is_outb 0x40 (ucast (dv AND 0xFF)) (is_outb 0x43 0x36 s1))))"

definition irq_init :: "isys \<Rightarrow> isys option" where
  "irq_init s = is_show (console_puts (asc ''[irq] IRQ subsystem initialized'' @ [10])) s"

subsection \<open>Waiting\<close>

type_synonym arrival = "u8 \<times> u8"

fun run_irqs :: "arrival list \<Rightarrow> isys \<Rightarrow> isys option" where
  "run_irqs [] s = Some s"
| "run_irqs ((irq, sc) # evs) s = do { t \<leftarrow> irq_handler irq sc s; run_irqs evs t }"

text \<open>\<^verbatim>\<open>while (timer_ticks < eticks) hlt;\<close> with interrupts disabled the processor sleeps for ever.\<close>

fun hlt_until :: "u32 \<Rightarrow> arrival list \<Rightarrow> isys \<Rightarrow> (arrival list \<times> isys) option" where
  "hlt_until eticks evs s =
     (if eticks \<le> is_timer_ticks s then Some (evs, s)
      else if \<not> is_enabled s then None
      else (case evs of [] \<Rightarrow> None
        | (irq, sc) # rest \<Rightarrow> do { t \<leftarrow> irq_handler irq sc s; hlt_until eticks rest t }))"

declare hlt_until.simps [simp del]

definition timer_wait :: "u32 \<Rightarrow> arrival list \<Rightarrow> isys \<Rightarrow> (arrival list \<times> isys) option" where
  "timer_wait n evs s = hlt_until (is_timer_ticks s + n) evs s"

definition TIMER_FREQ :: u32 where "TIMER_FREQ = 100"

definition kernel_sleep :: "u32 \<Rightarrow> arrival list \<Rightarrow> isys \<Rightarrow> (arrival list \<times> isys) option" where
  "kernel_sleep ms evs s =
     (let n = (ms * TIMER_FREQ) div 1000; n' = (if n = 0 then 1 else n) in hlt_until (is_timer_ticks s + n') evs s)"

subsection \<open>The blue screen\<close>

definition exc_names :: "cstr list" where
  "exc_names = map asc
     [''Divide Error'', ''Debug'', ''NMI'', ''Breakpoint'', ''Overflow'', ''BOUND Range Exceeded'', ''Invalid Opcode'',
      ''Device Not Available'', ''Double Fault'', ''Coprocessor Segment'', ''Invalid TSS'', ''Segment Not Present'',
      ''Stack-Segment Fault'', ''General Protection'', ''Page Fault'', ''Reserved'', ''x87 FP Exception'',
      ''Alignment Check'', ''Machine Check'', ''SIMD FP Exception'', ''Virtualization Exception'', ''Control Protection'',
      ''Reserved'', ''Reserved'', ''Reserved'', ''Reserved'', ''Reserved'', ''Reserved'', ''Hypervisor Injection'',
      ''VMM Communication'', ''Security Exception'', ''Reserved'']"

definition bsod_header :: "cstr \<Rightarrow> console \<Rightarrow> console option" where
  "bsod_header title c = do {
     c1 \<leftarrow> console_clear (console_set_color 15 1 c);
     c2 \<leftarrow> console_puts ([10] @ asc ''   *** RetaOS MAVI EKRAN ***'' @ [10, 10]) (console_set_cursor 0 0 c1);
     if title = [] then Some c2
     else do {
       c3 \<leftarrow> console_puts (asc ''Hata: '') c2;
       c4 \<leftarrow> console_puts title c3;
       console_puts [10, 10] c4 } }"

definition show_reg :: "string \<Rightarrow> u32 \<Rightarrow> console \<Rightarrow> console option" where
  "show_reg l v c = do { c1 \<leftarrow> console_puts (asc l) c; console_put_hex v c1 }"

definition bsod_regs :: "isr_context \<Rightarrow> console \<Rightarrow> console option" where
  "bsod_regs x c = do {
     c1 \<leftarrow> console_puts (asc ''Kayitlar:'' @ [10]) c;
     c2 \<leftarrow> show_reg '' EAX='' (ic_eax x) c1;
     c3 \<leftarrow> show_reg '' ECX='' (ic_ecx x) c2;
     c4 \<leftarrow> show_reg '' EDX='' (ic_edx x) c3;
     c5 \<leftarrow> show_reg '' EBX='' (ic_ebx x) c4;
     c6 \<leftarrow> console_puts [10] c5;
     c7 \<leftarrow> show_reg '' ESP='' (ic_esp x) c6;
     c8 \<leftarrow> show_reg '' EBP='' (ic_ebp x) c7;
     c9 \<leftarrow> show_reg '' ESI='' (ic_esi x) c8;
     c10 \<leftarrow> show_reg '' EDI='' (ic_edi x) c9;
     console_puts [10, 10] c10 }"

text \<open>The result of \<^verbatim>\<open>kernel_bsod\<close> and what follows is the state in which the machine stops for good.\<close>

definition kernel_bsod :: "cstr \<Rightarrow> isys \<Rightarrow> isys option" where
  "kernel_bsod msg s = do {
     s1 \<leftarrow> is_show (bsod_header (asc ''Kernel Hatasi'')) s;
     s2 \<leftarrow> is_show (console_puts msg) s1;
     s3 \<leftarrow> is_show (console_puts ([10, 10] @ asc ''Sistem durduruldu.'' @ [10])) s2;
     Some (interrupts_disable s3) }"

definition kernel_bsod_exception :: "u32 \<Rightarrow> u32 \<Rightarrow> isr_context \<Rightarrow> u32 \<Rightarrow> isys \<Rightarrow> isys option" where
  "kernel_bsod_exception vector err x cr2 s = do {
     s1 \<leftarrow> is_show (\<lambda>c. do {
       c0 \<leftarrow> bsod_header (asc ''CPU Istisnasi'') c;
       c1 \<leftarrow> console_puts (asc ''Istisna: '') c0;
       c2 \<leftarrow> console_puts (if unat vector < length exc_names then exc_names ! unat vector else asc ''Bilinmeyen Istisna'') c1;
       c3 \<leftarrow> console_puts (asc '' (vector='') c2;
       c4 \<leftarrow> console_put_dec vector c3;
       c5 \<leftarrow> console_puts (asc '')'' @ [10]) c4;
       c6 \<leftarrow> console_puts (asc ''Hata Kodu: 0x'') c5;
       c7 \<leftarrow> console_put_hex err c6;
       c8 \<leftarrow> console_puts (asc ''  ('') c7;
       c9 \<leftarrow> console_put_dec err c8;
       c10 \<leftarrow> console_puts (asc '')'' @ [10]) c9;
       c11 \<leftarrow> (if vector = 14 then do {
           d1 \<leftarrow> console_puts (asc ''CR2 (fault addr): 0x'') c10;
           d2 \<leftarrow> console_put_hex cr2 d1;
           console_puts [10] d2 } else Some c10);
       c12 \<leftarrow> console_puts [10] c11;
       c13 \<leftarrow> bsod_regs x c12;
       console_puts (asc ''Yapilabilecekler:'' @ [10] @ asc ''- Yeniden baslatin'' @ [10]
         @ asc ''- Kernel loglarini kontrol edin (serial).'' @ [10]) c13 }) s;
     Some (interrupts_disable s1) }"

definition panic :: "cstr \<Rightarrow> isys \<Rightarrow> isys option" where
  "panic message s = kernel_bsod (asc ''%s'') s"

subsection \<open>Exceptions\<close>

definition log_reg :: "string \<Rightarrow> u32 \<Rightarrow> isys \<Rightarrow> isys option" where
  "log_reg l v s = do { s1 \<leftarrow> is_log (serial_write (asc l)) s; is_log (serial_write_hex v) s1 }"

definition dump_registers :: "isr_context \<Rightarrow> isys \<Rightarrow> isys option" where
  "dump_registers x s = do {
     s1 \<leftarrow> log_reg ''EAX='' (ic_eax x) s;
     s2 \<leftarrow> log_reg '' ECX='' (ic_ecx x) s1;
     s3 \<leftarrow> log_reg '' EDX='' (ic_edx x) s2;
     s4 \<leftarrow> log_reg '' EBX='' (ic_ebx x) s3;
     s5 \<leftarrow> is_log (serial_write [10]) s4;
     s6 \<leftarrow> log_reg ''ESP='' (ic_esp x) s5;
     s7 \<leftarrow> log_reg '' EBP='' (ic_ebp x) s6;
     s8 \<leftarrow> log_reg '' ESI='' (ic_esi x) s7;
     s9 \<leftarrow> log_reg '' EDI='' (ic_edi x) s8;
     is_log (serial_write [10]) s9 }"

text \<open>\<open>cr2reg\<close> is what the processor has in CR2.\<close>

definition exception_handler :: "u32 \<Rightarrow> u32 \<Rightarrow> isr_context \<Rightarrow> u32 \<Rightarrow> isys \<Rightarrow> isys option" where
  "exception_handler vector err x cr2reg s = (let cr2 = (if vector = 14 then cr2reg else 0) in do {
     s1 \<leftarrow> is_log (serial_write (asc ''[EXC] vector='')) s;
     s2 \<leftarrow> is_log (serial_write_dec vector) s1;
     s3 \<leftarrow> is_log (serial_write (asc '' err='')) s2;
     s4 \<leftarrow> is_log (serial_write_hex err) s3;
     s5 \<leftarrow> (if vector = 14 then do { t \<leftarrow> is_log (serial_write (asc '' cr2='')) s4; is_log (serial_write_hex cr2) t } else Some s4);
     s6 \<leftarrow> is_log (serial_write [10]) s5;
     s7 \<leftarrow> dump_registers x s6;
     kernel_bsod_exception vector err x cr2 s7 })"

text \<open>
  The stubs, with the stack as the list of words from the stack pointer upwards; \<open>frame\<close> is what the
  processor pushed, the error code first if the exception has one.  A pointer to word \<open>k\<close> of the stack
  is the list without its first \<open>k\<close> words.
\<close>

definition ex_noerr :: "u32 \<Rightarrow> u32 list \<Rightarrow> gregs \<Rightarrow> u32 \<Rightarrow> isys \<Rightarrow> isys option" where
  "ex_noerr vec frame g cr2reg s =
     (let w = pushal g @ frame in exception_handler vec 0 (context_of (drop 2 w)) cr2reg s)"

text \<open>The second \<^verbatim>\<open>movl 32(%esp)\<close> comes after a push: \<open>ctx\<close> stands for the pointer pushed before it.\<close>

definition ex_err :: "u32 \<Rightarrow> u32 \<Rightarrow> u32 list \<Rightarrow> gregs \<Rightarrow> u32 \<Rightarrow> isys \<Rightarrow> isys option" where
  "ex_err vec ctx frame g cr2reg s =
     (let w = pushal g @ frame; w1 = ctx # w in exception_handler vec (w1 ! 8) (context_of (drop 2 w)) cr2reg s)"

definition has_error_code :: "nat \<Rightarrow> bool" where
  "has_error_code v \<longleftrightarrow> v \<in> {8, 10, 11, 12, 13, 14, 17}"

definition ex_stub :: "nat \<Rightarrow> u32 \<Rightarrow> u32 list \<Rightarrow> gregs \<Rightarrow> u32 \<Rightarrow> isys \<Rightarrow> isys option" where
  "ex_stub v ctx frame g cr2reg s =
     (if has_error_code v then ex_err (of_nat v) ctx frame g cr2reg s else ex_noerr (of_nat v) frame g cr2reg s)"

subsection \<open>What the processor and the controllers make of it\<close>

definition gate_target :: "idt_entry \<Rightarrow> u32" where
  "gate_target e = ucast (ie_base_lo e) OR push_bit 16 (ucast (ie_base_hi e))"

definition gate_dpl :: "idt_entry \<Rightarrow> nat" where
  "gate_dpl e = unat (drop_bit 5 (ie_flags e) AND 3)"

text \<open>A present 32-bit interrupt gate.\<close>

definition interrupt_gate :: "idt_entry \<Rightarrow> bool" where
  "interrupt_gate e \<longleftrightarrow> ie_flags e AND 0x80 \<noteq> 0 \<and> ie_flags e AND 0x1F = 0x0E \<and> ie_always0 e = 0"

text \<open>
  An 8259 controller with its command port: ICW1 (bit 4 set) starts an initialisation, the next three
  bytes for the data port are ICW2 with the base of the vectors, ICW3 and ICW4, any other is the mask.
\<close>

record pic =
  pi_step :: nat
  pi_base :: u8
  pi_mask :: u8

fun pic_write :: "u16 \<Rightarrow> u16 \<times> u8 \<Rightarrow> pic \<Rightarrow> pic" where
  "pic_write cmd (port, v) p =
     (if port = cmd then (if v AND 0x10 \<noteq> 0 then p\<lparr>pi_step := 1\<rparr> else p)
      else if port = cmd + 1 then
        (if pi_step p = 1 then p\<lparr>pi_step := 2, pi_base := v AND 0xF8\<rparr>
         else if pi_step p = 2 then p\<lparr>pi_step := 3\<rparr>
         else if pi_step p = 3 then p\<lparr>pi_step := 0\<rparr>
         else p\<lparr>pi_mask := v\<rparr>)
      else p)"

text \<open>The controller of a line after the writes of a trace, and the vector and the mask bit of the line.\<close>

definition line_pic :: "nat \<Rightarrow> (u16 \<times> u8) list \<Rightarrow> pic" where
  "line_pic n w = fold (pic_write (if n < 8 then 0x20 else 0xA0)) w \<lparr>pi_step = 0, pi_base = 0, pi_mask = 0\<rparr>"

definition line_vector :: "nat \<Rightarrow> (u16 \<times> u8) list \<Rightarrow> nat" where
  "line_vector n w = unat (pi_base (line_pic n w)) + n mod 8"

definition line_open :: "nat \<Rightarrow> (u16 \<times> u8) list \<Rightarrow> bool" where
  "line_open n w \<longleftrightarrow> \<not> bit (pi_mask (line_pic n w)) (n mod 8)"

subsection \<open>The gates\<close>

lemma halves:
  "(ucast (ucast (b AND 0xFFFF) :: u16) :: u32) OR push_bit 16 (ucast (ucast (drop_bit 16 b AND 0xFFFF) :: u16)) = b"
  (is "?l = b")
proof -
  have m: "(0xFFFF :: u32) = mask 16" by (simp add: mask_eq_exp_minus_1)
  show ?thesis
  proof (rule bit_word_eqI)
    fix n assume "n < LENGTH(32)"
    then consider "n < 16" | "16 \<le> n" "n < 32" by fastforce
    then show "bit ?l n = bit b n"
      unfolding m by cases (auto simp: bit_or_iff bit_push_bit_iff bit_unsigned_iff bit_drop_bit_eq bit_and_iff bit_mask_iff)
  qed
qed

definition gate_of :: "u32 \<Rightarrow> u8 \<Rightarrow> idt_entry" where
  "gate_of base flags = \<lparr>ie_base_lo = ucast (base AND 0xFFFF), ie_sel = 0x08, ie_always0 = 0, ie_flags = flags,
     ie_base_hi = ucast (drop_bit 16 base AND 0xFFFF)\<rparr>"

lemma gate_of_simps:
  "gate_target (gate_of b f) = b" "ie_sel (gate_of b f) = 0x08" "gate_dpl (gate_of b f) = unat (drop_bit 5 f AND 3)"
  "interrupt_gate (gate_of b f) \<longleftrightarrow> f AND 0x80 \<noteq> 0 \<and> f AND 0x1F = 0x0E"
  by (simp_all add: gate_target_def gate_of_def gate_dpl_def interrupt_gate_def halves)

lemma set_gate_simps [simp]:
  "is_idt (idt_set_gate v b 0x08 f s) = (is_idt s)[unat v := gate_of b f]"
  "is_ports (idt_set_gate v b sel f s) = is_ports s" "is_handlers (idt_set_gate v b sel f s) = is_handlers s"
  by (simp_all add: idt_set_gate_def gate_of_def)

lemma set_gates:
  assumes "length (is_idt s) = 256" and "k + n \<le> 256"
  shows "length (is_idt (fold (\<lambda>i. idt_set_gate (of_nat (k + i)) (b i) 0x08 f) [0..<n] s)) = 256
    \<and> is_ports (fold (\<lambda>i. idt_set_gate (of_nat (k + i)) (b i) 0x08 f) [0..<n] s) = is_ports s
    \<and> is_handlers (fold (\<lambda>i. idt_set_gate (of_nat (k + i)) (b i) 0x08 f) [0..<n] s) = is_handlers s
    \<and> (\<forall>j < 256. is_idt (fold (\<lambda>i. idt_set_gate (of_nat (k + i)) (b i) 0x08 f) [0..<n] s) ! j
        = (if k \<le> j \<and> j < k + n then gate_of (b (j - k)) f else is_idt s ! j))"
  using assms(2)
proof (induction n)
  case (Suc n)
  have u: "unat (of_nat (k + n) :: u8) = k + n" unfolding unat_of_nat using Suc.prems by simp
  show ?case using Suc.IH Suc.prems by (auto simp: u nth_list_update less_Suc_eq simp del: of_nat_add)
qed (use assms in auto)

lemmas set_gates_from0 = set_gates [where k = 0, unfolded add_0]

lemma outb_simps [simp]:
  "is_idt (is_outb p v s) = is_idt s" "is_handlers (is_outb p v s) = is_handlers s"
  "is_ports (is_outb p v s) = is_ports s @ [(p, v)]" "is_timer_ticks (is_outb p v s) = is_timer_ticks s"
  "is_enabled (is_outb p v s) = is_enabled s" "is_callback (is_outb p v s) = is_callback s"
  "is_serial (is_outb p v s) = is_serial s" "is_ticks (is_outb p v s) = is_ticks s"
  by (simp_all add: is_outb_def)

lemma remap_simps [simp]:
  "is_idt (pic_remap s) = is_idt s" "is_handlers (pic_remap s) = is_handlers s"
  "is_ports (pic_remap s) = is_ports s @ [(0x20, 0x11), (0xA0, 0x11), (0x21, 0x20), (0xA1, 0x28), (0x21, 0x04), (0xA1, 0x02),
      (0x21, 0x01), (0xA1, 0x01), (0x21, 0xFF), (0xA1, 0xFF)]"
  by (simp_all add: pic_remap_def)

lemma idt_init_gates:
  assumes "length (is_idt s) = 256" and "v < 256"
  shows "is_idt (idt_init a s) ! v = (if v = 0x80 then gate_of (a Syscall80_stub) 0xEE
    else gate_of (if v < 20 then a (Ex_stub v) else if 32 \<le> v \<and> v < 48 then a (Irq_stub (v - 32)) else 0) 0x8E)"
    and "is_ports (idt_init a s) = is_ports (pic_remap s)" and "is_handlers (idt_init a s) = is_handlers s"
    and "length (is_idt (idt_init a s)) = 256"
proof -
  obtain s1 where s1: "s1 = fold (\<lambda>i. idt_set_gate (of_nat i) 0 0x08 0x8E) [0..<256] s" by blast
  obtain s2 where s2: "s2 = fold (\<lambda>i. idt_set_gate (of_nat i) (a (Ex_stub i)) 0x08 0x8E) [0..<20] s1" by blast
  obtain s3 where s3: "s3 = fold (\<lambda>i. idt_set_gate (of_nat (32 + i)) (a (Irq_stub i)) 0x08 0x8E) [0..<16] (pic_remap s2)" by blast
  obtain s4 where s4: "s4 = idt_set_gate 0x80 (a Syscall80_stub) 0x08 0xEE s3" by blast
  have d: "idt_init a s = s4\<lparr>is_idtr := (256 * 8 - 1, is_idt_addr s4)\<rparr>"
    unfolding s4 s3 s2 s1 idt_init_def Let_def ..
  have 1: "length (is_idt s1) = 256" "is_ports s1 = is_ports s" "is_handlers s1 = is_handlers s" "is_idt s1 ! v = gate_of 0 0x8E"
    using set_gates_from0 [OF assms(1), of 256 "\<lambda>i. 0" "0x8E", folded s1] assms(2) by auto
  have 2: "length (is_idt s2) = 256" "is_ports s2 = is_ports s" "is_handlers s2 = is_handlers s"
      "is_idt s2 ! v = (if v < 20 then gate_of (a (Ex_stub v)) 0x8E else gate_of 0 0x8E)"
    using set_gates_from0 [OF 1(1), of 20 "\<lambda>i. a (Ex_stub i)" "0x8E", folded s2] assms(2) 1 by auto
  have p: "length (is_idt (pic_remap s2)) = 256" using 2(1) by simp
  have 3: "length (is_idt s3) = 256" "is_ports s3 = is_ports (pic_remap s)" "is_handlers s3 = is_handlers s"
      "is_idt s3 ! v = (if 32 \<le> v \<and> v < 48 then gate_of (a (Irq_stub (v - 32))) 0x8E
         else if v < 20 then gate_of (a (Ex_stub v)) 0x8E else gate_of 0 0x8E)"
    using set_gates [OF p, of 32 16 "\<lambda>i. a (Irq_stub i)" "0x8E", folded s3] assms(2) 2(2-4) by auto
  show "is_idt (idt_init a s) ! v = (if v = 0x80 then gate_of (a Syscall80_stub) 0xEE
    else gate_of (if v < 20 then a (Ex_stub v) else if 32 \<le> v \<and> v < 48 then a (Irq_stub (v - 32)) else 0) 0x8E)"
    unfolding d s4 using 3(1,4) by (simp add: nth_list_update)
  show "is_ports (idt_init a s) = is_ports (pic_remap s)" "is_handlers (idt_init a s) = is_handlers s"
    "length (is_idt (idt_init a s)) = 256"
    unfolding d s4 using 3 by simp_all
qed

lemma basic_handlers:
  assumes "length (is_handlers s) = 16"
  shows "is_handlers (irq_init_basic s) = (is_handlers s)[0 := Some Timer_tick, 1 := Some Keyboard_irq_handler]"
    and "is_ports (irq_init_basic s) = is_ports s @ [(0x43, 0x36), (0x40, 0x9B), (0x40, 0x2E), (0x21, 0xFC), (0xA1, 0xFF)]"
    and "is_idt (irq_init_basic s) = is_idt s" "is_timer_ticks (irq_init_basic s) = is_timer_ticks s"
    and "is_callback (irq_init_basic s) = is_callback s"
  by (simp_all add: irq_init_basic_def irq_install_handler_def pic_unmask_timer_keyboard_def Let_def)

lemma pic_lines:
  assumes w: "w = [(0x20, 0x11), (0xA0, 0x11), (0x21, 0x20), (0xA1, 0x28), (0x21, 0x04), (0xA1, 0x02),
      (0x21, 0x01), (0xA1, 0x01), (0x21, 0xFF), (0xA1, 0xFF), (0x43, 0x36), (0x40, 0x9B), (0x40, 0x2E), (0x21, 0xFC), (0xA1, 0xFF)]"
    and n: "n < 16"
  shows "line_vector n w = 32 + n" and "line_open n w \<longleftrightarrow> n \<in> {0, 1}"
proof -
  have f: "fold (pic_write 0x20) w \<lparr>pi_step = 0, pi_base = 0, pi_mask = 0\<rparr> = \<lparr>pi_step = 0, pi_base = 0x20, pi_mask = 0xFC\<rparr>"
    "fold (pic_write 0xA0) w \<lparr>pi_step = 0, pi_base = 0, pi_mask = 0\<rparr> = \<lparr>pi_step = 0, pi_base = 0x28, pi_mask = 0xFF\<rparr>"
    unfolding w by simp_all
  have m: "line_pic n w = (if n < 8 then \<lparr>pi_step = 0, pi_base = 0x20, pi_mask = 0xFC\<rparr> else \<lparr>pi_step = 0, pi_base = 0x28, pi_mask = 0xFF\<rparr>)"
    using f by (simp add: line_pic_def)
  have "n mod 8 = (if n < 8 then n else n - 8)" using n by (simp add: le_mod_geq)
  then show "line_vector n w = 32 + n" using n by (simp add: line_vector_def m)
  have "n \<in> {0, 1, 2, 3, 4, 5, 6, 7, 8, 9, 10, 11, 12, 13, 14, 15}" using n by simp presburger
  then show "line_open n w \<longleftrightarrow> n \<in> {0, 1}" by (auto simp: line_open_def m)
qed

text \<open>C29.  The gates and the controllers after \<^verbatim>\<open>idt_init\<close> and \<^verbatim>\<open>irq_init_basic\<close>: all 256 entries are present 32-bit
  interrupt gates to the kernel's code segment, each leads to the stub of its exception, line or system
  call (to address 0 where there is none), and only vector 0x80 may be called from user mode.  The
  controllers raise line \<open>n\<close> as vector 32 + \<open>n\<close>, whose gate is the stub of line \<open>n\<close>, and let only the timer
  and the keyboard through, whose handlers are installed.
\<close>

theorem interrupt_routing:
  assumes "length (is_idt s) = 256" and "length (is_handlers s) = 16" and "is_ports s = []" and "v < 256" and "n < 16"
  shows "let t = irq_init_basic (idt_init a s); e = is_idt t ! v in
    interrupt_gate e \<and> ie_sel e = 0x08 \<and> gate_dpl e = (if v = 0x80 then 3 else 0)
    \<and> gate_target e = (if v < 20 then a (Ex_stub v) else if 32 \<le> v \<and> v < 48 then a (Irq_stub (v - 32))
        else if v = 0x80 then a Syscall80_stub else 0)
    \<and> gate_target (is_idt t ! line_vector n (is_ports t)) = a (Irq_stub n)
    \<and> (line_open n (is_ports t) \<longleftrightarrow> n = 0 \<or> n = 1)
    \<and> is_handlers t ! 0 = Some Timer_tick \<and> is_handlers t ! 1 = Some Keyboard_irq_handler"
proof -
  have h: "length (is_handlers (idt_init a s)) = 16" using idt_init_gates [OF assms(1,4)] assms(2) by simp
  have w: "is_ports (irq_init_basic (idt_init a s)) = [(0x20, 0x11), (0xA0, 0x11), (0x21, 0x20), (0xA1, 0x28), (0x21, 0x04),
      (0xA1, 0x02), (0x21, 0x01), (0xA1, 0x01), (0x21, 0xFF), (0xA1, 0xFF), (0x43, 0x36), (0x40, 0x9B), (0x40, 0x2E), (0x21, 0xFC), (0xA1, 0xFF)]"
    using basic_handlers(2) [OF h] idt_init_gates(2) [OF assms(1,4)] assms(3) by simp
  obtain t where t: "t = irq_init_basic (idt_init a s)" by blast
  note p = pic_lines [OF w assms(5), folded w t]
  have "is_idt t = is_idt (idt_init a s)" "is_handlers t ! 0 = Some Timer_tick" "is_handlers t ! 1 = Some Keyboard_irq_handler"
    using basic_handlers [OF h] h by (simp_all add: t)
  moreover have "is_idt (idt_init a s) ! (32 + n) = gate_of (a (Irq_stub n)) 0x8E"
    using idt_init_gates(1) [OF assms(1), of "32 + n" a] assms(5) by simp
  ultimately show ?thesis
    unfolding t [symmetric] Let_def p using idt_init_gates(1) [OF assms(1,4), of a] by (simp add: gate_of_simps)
qed

lemma fold_gates_ticks: "is_timer_ticks (fold (\<lambda>i. idt_set_gate (f i) (b i) sel fl) xs s) = is_timer_ticks s"
  by (induction xs arbitrary: s) (simp_all add: idt_set_gate_def)

lemma idt_init_ticks: "is_timer_ticks (idt_init a s) = is_timer_ticks s"
  by (simp add: idt_init_def Let_def fold_gates_ticks del: upt.simps) (simp add: idt_set_gate_def fold_gates_ticks pic_remap_def del: upt.simps)

definition demo_isys :: isys where
  "demo_isys = \<lparr>is_idt = replicate 256 (gate_of 0 0), is_idt_addr = 0x107000, is_idtr = (0, 0), is_handlers = replicate 16 None,
     is_enabled = False, is_ports = [], is_ticks = 0, is_timer_ticks = 0, is_callback = None,
     is_kbd = keyboard_init \<lparr>kb_ring = replicate 128 0, kb_head = 0, kb_tail = 0, kb_shift_l = False, kb_shift_r = False,
       kb_caps = False, kb_e0 = False\<rparr>,
     is_serial = \<lparr>se_ready = False, se_present = False, se_status = [], se_in = [], se_out = []\<rparr>,
     is_console = \<lparr>co_vga = replicate 2000 0x720, co_x = 5, co_y = 20, co_attr = 7\<rparr>\<rparr>"

definition demo_addr :: "stub \<Rightarrow> u32" where
  "demo_addr x = (case x of Ex_stub n \<Rightarrow> 0x101000 + of_nat (n * 32) | Irq_stub n \<Rightarrow> 0x102000 + of_nat (n * 32)
     | Syscall80_stub \<Rightarrow> 0x103000)"

lemma interrupt_routing_witness:
  "gate_target (is_idt (irq_init_basic (idt_init demo_addr demo_isys)) ! 0x80) = 0x103000
   \<and> gate_dpl (is_idt (irq_init_basic (idt_init demo_addr demo_isys)) ! 0x80) = 3"
  using interrupt_routing [of demo_isys "0x80" 1 demo_addr] by (simp add: demo_isys_def demo_addr_def Let_def)

subsection \<open>Time\<close>

text \<open>The handlers installed leave the system timer alone.\<close>

definition timer_free :: "isys \<Rightarrow> bool" where
  "timer_free s \<longleftrightarrow> length (is_handlers s) = 16 \<and> Some Timer_handler \<notin> set (is_handlers s)"

lemma run_fn_simps:
  "run_fn Timer_tick sc s = isr_timer_tick s"
  "run_fn Keyboard_irq_handler sc s = Some (s\<lparr>is_kbd := keyboard_irq_handler sc (is_kbd s)\<rparr>)"
  "is_callback s = None \<Longrightarrow> run_fn Timer_handler sc s = Some (s\<lparr>is_timer_ticks := is_timer_ticks s + 1\<rparr>)"
  by (subst run_fn.simps, simp add: Let_def)+

lemma is_log_simps:
  assumes "is_log f s = Some t"
  shows "is_timer_ticks t = is_timer_ticks s" "is_handlers t = is_handlers s" "is_enabled t = is_enabled s" "is_callback t = is_callback s"
  using assms by (auto simp: is_log_def)

lemma isr_timer_tick_simps:
  assumes "isr_timer_tick s = Some t"
  shows "is_timer_ticks t = is_timer_ticks s" "is_handlers t = is_handlers s" "is_enabled t = is_enabled s" "is_callback t = is_callback s"
  using assms by (auto simp: isr_timer_tick_def Let_def is_log_simps split: if_splits bind_splits)

lemma irq_handler_simps:
  assumes "irq_handler irq sc s = Some t" and "irq < 16 \<Longrightarrow> is_handlers s ! unat irq = Some Timer_handler \<Longrightarrow> is_callback s = None"
  shows "is_timer_ticks t = is_timer_ticks s + (if irq < 16 \<and> is_handlers s ! unat irq = Some Timer_handler then 1 else 0)"
    and "is_handlers t = is_handlers s" "is_enabled t = is_enabled s" "is_callback t = is_callback s"
proof -
  obtain s1 where s1: "s1 = is_outb 0x20 0x20 (if 8 \<le> irq then is_outb 0xA0 0x20 s else s)" by blast
  have e: "is_handlers s1 = is_handlers s" "is_timer_ticks s1 = is_timer_ticks s" "is_enabled s1 = is_enabled s"
    "is_callback s1 = is_callback s" unfolding s1 by simp_all
  have r: "(if irq < 16 then (case is_handlers s ! unat irq of None \<Rightarrow> Some s1 | Some f \<Rightarrow> run_fn f sc s1) else Some s1) = Some t"
    using assms(1) unfolding irq_handler_def Let_def s1 [symmetric] e(1) .
  have "is_timer_ticks t = is_timer_ticks s + (if irq < 16 \<and> is_handlers s ! unat irq = Some Timer_handler then 1 else 0)
      \<and> is_handlers t = is_handlers s \<and> is_enabled t = is_enabled s \<and> is_callback t = is_callback s"
  proof (cases "irq < 16 \<and> is_handlers s ! unat irq \<noteq> None")
    case True
    then obtain f where f: "is_handlers s ! unat irq = Some f" by auto
    show ?thesis
      using r True f e assms(2) by (cases f) (auto simp: run_fn_simps isr_timer_tick_simps)
  next
    case False
    then have "s1 = t" using r by (auto split: if_splits)
    then show ?thesis using False e by auto
  qed
  then show "is_timer_ticks t = is_timer_ticks s + (if irq < 16 \<and> is_handlers s ! unat irq = Some Timer_handler then 1 else 0)"
    "is_handlers t = is_handlers s" "is_enabled t = is_enabled s" "is_callback t = is_callback s" by simp_all
qed

text \<open>How many of the arriving interrupts advance the system timer.\<close>

definition advances :: "isys \<Rightarrow> arrival \<Rightarrow> bool" where
  "advances s e \<longleftrightarrow> fst e < 16 \<and> is_handlers s ! unat (fst e) = Some Timer_handler"

lemma advances_cong: "is_handlers t = is_handlers s \<Longrightarrow> advances t = advances s"
  by (simp add: fun_eq_iff advances_def)

lemma run_irqs_simps:
  assumes "run_irqs evs s = Some t" and "is_callback s = None"
  shows "is_timer_ticks t = is_timer_ticks s + of_nat (length (filter (advances s) evs))
    \<and> is_handlers t = is_handlers s \<and> is_enabled t = is_enabled s \<and> is_callback t = None"
  using assms
proof (induction evs s rule: run_irqs.induct)
  case (2 irq sc evs s)
  then obtain u where u: "irq_handler irq sc s = Some u" "run_irqs evs u = Some t" by (auto split: bind_splits)
  note h = irq_handler_simps [OF u(1)]
  have "is_callback u = None" "is_handlers u = is_handlers s" using h 2(3) by auto
  then show ?case using "2.IH" [OF u] h 2(3) advances_cong [of u s] by (auto simp: advances_def)
qed simp

text \<open>
  The waiting loop, when every handler returns and the tick count it waits for is \<open>k\<close> ticks ahead without
  passing the end of the word: it runs the interrupts up to the \<open>k\<close>-th that advances the timer.
\<close>

lemma hlt_until_ticks:
  assumes "is_callback s = None" and "is_enabled s" and "unat (is_timer_ticks s) + k = unat e"
    and "\<And>pre. \<exists>t. run_irqs pre s = Some t"
  shows "if length (filter (advances s) evs) < k then hlt_until e evs s = None
    else \<exists>pre rest t. evs = pre @ rest \<and> hlt_until e evs s = Some (rest, t) \<and> run_irqs pre s = Some t
      \<and> length (filter (advances s) pre) = k \<and> is_timer_ticks t = e \<and> (pre \<noteq> [] \<longrightarrow> advances s (last pre))"
  using assms
proof (induction evs arbitrary: s k)
  case Nil
  then show ?case by (auto simp: hlt_until.simps word_le_nat_alt intro!: word_unat_eq_iff [THEN iffD2])
next
  case (Cons ev evs)
  obtain irq sc where ev: "ev = (irq, sc)" by (cases ev)
  show ?case
  proof (cases k)
    case 0
    then have "e = is_timer_ticks s" using Cons.prems(3) by (auto intro!: word_unat_eq_iff [THEN iffD2])
    then show ?thesis using 0 by (auto simp: hlt_until.simps intro: exI [of _ "[]"])
  next
    case (Suc k')
    then have lt: "\<not> e \<le> is_timer_ticks s" using Cons.prems(3) by (simp add: word_le_nat_alt)
    obtain u where u: "irq_handler irq sc s = Some u" using Cons.prems(4) [of "[ev]"] ev by (auto split: bind_splits)
    note h = irq_handler_simps [OF u]
    have c: "is_callback u = None" "is_enabled u" "advances u = advances s"
      using h Cons.prems(1,2) advances_cong [of u s] by auto
    have r: "\<exists>t. run_irqs pre u = Some t" for pre using Cons.prems(4) [of "ev # pre"] ev u by auto
    let ?k = "if advances s ev then k' else k"
    have "unat (is_timer_ticks u) + ?k = unat e"
    proof (cases "advances s ev")
      case True
      then have "is_timer_ticks u = is_timer_ticks s + 1" using h Cons.prems(1) ev by (auto simp: advances_def)
      moreover have "unat (is_timer_ticks s) + 1 < 2 ^ 32"
        using Cons.prems(3) Suc unsigned_less [of e, where ?'a = nat] by simp
      ultimately show ?thesis using True Suc Cons.prems(3) by (simp add: unat_word_ariths)
    next
      case False
      then show ?thesis using h Cons.prems(1,3) ev by (auto simp: advances_def)
    qed
    note IH = Cons.IH [OF c(1,2) this r, unfolded c(3)]
    have w: "hlt_until e (ev # evs) s = hlt_until e evs u"
      using lt Cons.prems(2) u ev by (simp add: hlt_until.simps [of e "(irq, sc) # evs"])
    show ?thesis
    proof (cases "length (filter (advances s) (ev # evs)) < k")
      case True
      then have "length (filter (advances s) evs) < ?k" using Suc by (auto split: if_splits)
      then show ?thesis using IH True w by simp
    next
      case False
      then have "\<not> length (filter (advances s) evs) < ?k" using Suc by (auto split: if_splits)
      then obtain pre rest t where p: "evs = pre @ rest" "hlt_until e evs u = Some (rest, t)" "run_irqs pre u = Some t"
          "length (filter (advances s) pre) = ?k" "is_timer_ticks t = e" "pre \<noteq> [] \<longrightarrow> advances s (last pre)"
        using IH by auto
      have "length (filter (advances s) (ev # pre)) = k" using p(4) Suc by (auto split: if_splits)
      moreover have "advances s (last (ev # pre))" using p(4,6) Suc by (cases pre) (auto split: if_splits)
      moreover have "run_irqs (ev # pre) s = Some t" using p(3) u ev by simp
      ultimately have "\<exists>pre rest t. ev # evs = pre @ rest \<and> hlt_until e (ev # evs) s = Some (rest, t) \<and> run_irqs pre s = Some t
          \<and> length (filter (advances s) pre) = k \<and> is_timer_ticks t = e \<and> (pre \<noteq> [] \<longrightarrow> advances s (last pre))"
        using w p(1,2,5) by (intro exI [of _ "ev # pre"] exI [of _ rest] exI [of _ t]) simp
      then show ?thesis using False by (simp only: if_False)
    qed
  qed
qed

lemma hlt_until_never:
  assumes "timer_free s" and "is_timer_ticks s < e"
  shows "hlt_until e evs s = None"
  using assms
proof (induction evs arbitrary: s)
  case Nil
  then show ?case by (auto simp: hlt_until.simps not_le)
next
  case (Cons ev evs)
  obtain irq sc where ev: "ev = (irq, sc)" by (cases ev)
  have n: "\<not> (irq < 16 \<and> is_handlers s ! unat irq = Some Timer_handler)"
    using Cons.prems(1) by (auto simp: timer_free_def word_less_nat_alt in_set_conv_nth)
  have "hlt_until e evs u = None" if u: "irq_handler irq sc s = Some u" for u
    using irq_handler_simps(1,2) [OF u] n Cons.prems Cons.IH [of u] by (simp add: timer_free_def)
  then show ?case using Cons.prems(2) ev
    by (cases "irq_handler irq sc s") (auto simp: hlt_until.simps [of e "(irq, sc) # evs"] not_le)
qed

definition sleep_ticks :: "u32 \<Rightarrow> nat" where
  "sleep_ticks ms = max 1 (unat (ms * 100) div 1000)"

lemma sleep_ticks_bound: "sleep_ticks ms < 2 ^ 23"
proof -
  have "unat (ms * 100) < 2 ^ 32" using unsigned_less [of "ms * 100", where ?'a = nat] by simp
  then have "unat (ms * 100) div 1000 < 2 ^ 23" by simp
  then show ?thesis by (simp add: sleep_ticks_def)
qed

lemma kernel_sleep_hlt: "kernel_sleep ms evs s = hlt_until (is_timer_ticks s + of_nat (sleep_ticks ms)) evs s"
proof -
  have u: "unat ((ms * TIMER_FREQ) div 1000) = unat (ms * 100) div 1000" by (simp add: TIMER_FREQ_def unat_div)
  then have "(if (ms * TIMER_FREQ) div 1000 = 0 then 1 else (ms * TIMER_FREQ) div 1000) = (of_nat (sleep_ticks ms) :: u32)"
    using sleep_ticks_bound [of ms] by (auto simp: sleep_ticks_def max_def word_unat_eq_iff unat_of_nat not_le)
  then show ?thesis by (simp add: kernel_sleep_def Let_def)
qed

lemma irqs_return:
  assumes "is_handlers s = [Some Timer_handler, Some Keyboard_irq_handler] @ replicate 14 None" and "is_callback s = None"
  shows "\<exists>t. run_irqs evs s = Some t"
  using assms
proof (induction evs arbitrary: s)
  case (Cons ev evs)
  obtain irq sc where ev: "ev = (irq, sc)" by (cases ev)
  have "\<exists>u. irq_handler irq sc s = Some u"
    using Cons.prems by (auto simp: irq_handler_def Let_def run_fn_simps word_less_nat_alt nth_append nth_Cons'
      split: option.split)
  then obtain u where u: "irq_handler irq sc s = Some u" by blast
  have "\<exists>t. run_irqs evs u = Some t" by (rule Cons.IH) (use irq_handler_simps [OF u] Cons.prems in auto)
  then show ?case using u ev by simp
qed simp

text \<open>With the system timer's handler on line 0, \<^verbatim>\<open>kernel_sleep\<close> returns at the timer interrupt that completes
  \<open>ms\<close> * 100 / 1000 ticks (at least one; the product is taken modulo 2^32), having run exactly the interrupts up
  to it, and not before.  If the tick count it waits for passes 2^32 it does not wait at all.
\<close>

theorem kernel_sleep_ticks:
  assumes "is_handlers s = [Some Timer_handler, Some Keyboard_irq_handler] @ replicate 14 None"
    and "is_callback s = None" and "is_enabled s"
  shows "if 2 ^ 32 \<le> unat (is_timer_ticks s) + sleep_ticks ms then kernel_sleep ms evs s = Some (evs, s)
    else if length (filter (\<lambda>e. fst e = 0) evs) < sleep_ticks ms then kernel_sleep ms evs s = None
    else \<exists>pre rest t. evs = pre @ rest \<and> kernel_sleep ms evs s = Some (rest, t) \<and> run_irqs pre s = Some t
      \<and> length (filter (\<lambda>e. fst e = 0) pre) = sleep_ticks ms \<and> fst (last pre) = 0
      \<and> is_timer_ticks t = is_timer_ticks s + of_nat (sleep_ticks ms)"
proof (cases "2 ^ 32 \<le> unat (is_timer_ticks s) + sleep_ticks ms")
  case True
  have "unat (is_timer_ticks s + of_nat (sleep_ticks ms)) = unat (is_timer_ticks s) + sleep_ticks ms - 2 ^ 32"
    using True sleep_ticks_bound [of ms] unsigned_less [of "is_timer_ticks s", where ?'a = nat]
    by (simp add: unat_word_ariths unat_of_nat mod_if)
  then have "is_timer_ticks s + of_nat (sleep_ticks ms) \<le> is_timer_ticks s"
    using sleep_ticks_bound [of ms] by (simp add: word_le_nat_alt)
  then show ?thesis using True by (simp add: kernel_sleep_hlt hlt_until.simps)
next
  case False
  have a: "advances s = (\<lambda>e. fst e = 0)"
    by (auto simp: fun_eq_iff advances_def assms(1) nth_Cons' nth_append word_less_nat_alt unat_eq_zero split: if_splits)
  have w: "unat (is_timer_ticks s) + sleep_ticks ms = unat (is_timer_ticks s + of_nat (sleep_ticks ms))"
    using False sleep_ticks_bound [of ms] by (simp add: unat_word_ariths unat_of_nat)
  have "sleep_ticks ms \<noteq> 0" by (simp add: sleep_ticks_def)
  then show ?thesis
    using hlt_until_ticks [OF assms(2,3) w, of evs, OF irqs_return [OF assms(1,2)]] False
    unfolding kernel_sleep_hlt a by (auto split: if_splits)
qed

text \<open>Two ticks (20 ms), with a key pressed in between.\<close>

definition demo_ticking :: isys where
  "demo_ticking = demo_isys\<lparr>is_handlers := [Some Timer_handler, Some Keyboard_irq_handler] @ replicate 14 None, is_enabled := True\<rparr>"

lemma kernel_sleep_ticks_witness:
  "\<exists>rest t. kernel_sleep 20 [(0, 0), (1, 0x1E), (0, 0), (0, 0)] demo_ticking = Some (rest, t) \<and> is_timer_ticks t = 2"
proof -
  have n: "sleep_ticks 20 = 2" by (simp add: sleep_ticks_def)
  then show ?thesis
    using kernel_sleep_ticks [of demo_ticking 20 "[(0, 0), (1, 0x1E), (0, 0), (0, 0)]"]
    by (auto simp: demo_ticking_def demo_isys_def)
qed

text \<open>C30.  As the kernel boots, \<^verbatim>\<open>kernel_sleep\<close> and \<^verbatim>\<open>timer_wait\<close> never return: \<^verbatim>\<open>irq_init_basic\<close> installs the tick
  counter of \<^verbatim>\<open>isr.c\<close> on line 0 and nothing calls \<^verbatim>\<open>timer_init\<close>, so whatever interrupts arrive, \<^verbatim>\<open>timer_ticks\<close>
  stays what it is.
\<close>

theorem kernel_sleep_boot:
  assumes "length (is_idt s) = 256" and "is_handlers s = replicate 16 None" and "is_timer_ticks s = 0"
  shows "let t = interrupts_enable (irq_init_basic (idt_init a s)) in
    kernel_sleep ms evs t = None \<and> (n \<noteq> 0 \<longrightarrow> timer_wait n evs t = None)
    \<and> (\<forall>u. run_irqs evs t = Some u \<longrightarrow> timer_get_ticks u = 0)"
proof -
  obtain t where t: "t = interrupts_enable (irq_init_basic (idt_init a s))" by blast
  have h: "length (is_handlers (idt_init a s)) = 16" "is_handlers (idt_init a s) = replicate 16 None"
    using idt_init_gates(3) [OF assms(1), of 0 a] assms(2) by simp_all
  have t0: "is_timer_ticks t = 0"
    using basic_handlers(4) [OF h(1)] assms(3) idt_init_ticks [of a s] by (simp add: t interrupts_enable_def)
  have "is_handlers t = [Some Timer_tick, Some Keyboard_irq_handler] @ replicate 14 None"
    using basic_handlers(1) [OF h(1)] h(2) by (simp add: t interrupts_enable_def numeral_eq_Suc)
  then have f: "timer_free t" by (simp add: timer_free_def)
  have "hlt_until e evs t = None" if "e \<noteq> 0" for e
    using hlt_until_never [OF f, of e evs] that by (simp add: t0 word_neq_0_conv)
  moreover have "(of_nat (sleep_ticks ms) :: u32) \<noteq> 0"
    using sleep_ticks_bound [of ms] by (simp add: word_unat_eq_iff unat_of_nat) (simp add: sleep_ticks_def)
  moreover have "is_timer_ticks u = is_timer_ticks v" if "run_irqs es v = Some u" "timer_free v" for u v es
    using that
  proof (induction es v rule: run_irqs.induct)
    case (2 irq sc es v)
    then obtain w where w: "irq_handler irq sc v = Some w" "run_irqs es w = Some u" by (auto split: bind_splits)
    have "\<not> (irq < 16 \<and> is_handlers v ! unat irq = Some Timer_handler)"
      using "2.prems"(2) by (auto simp: timer_free_def word_less_nat_alt in_set_conv_nth)
    then have "is_timer_ticks w = is_timer_ticks v" "timer_free w"
      using irq_handler_simps(1,2) [OF w(1)] "2.prems"(2) by (auto simp: timer_free_def)
    then show ?case using "2.IH" [OF w(1,2)] by simp
  qed simp
  ultimately show ?thesis
    unfolding t [symmetric] Let_def kernel_sleep_hlt timer_wait_def timer_get_ticks_def using f by (auto simp: t0)
qed

lemma kernel_sleep_boot_witness:
  "kernel_sleep 10 (replicate 5 (0, 0)) (interrupts_enable (irq_init_basic (idt_init demo_addr demo_isys))) = None"
  using kernel_sleep_boot [of demo_isys, where ms = 10 and evs = "replicate 5 (0, 0)" and a = demo_addr and n = 1] by (simp add: demo_isys_def Let_def)

subsection \<open>The report of an exception\<close>

definition hex8 :: "u32 \<Rightarrow> cstr" where
  "hex8 n = map (\<lambda>i. hex_digit 0x41 (unat (drop_bit (i * 4) n AND 0xF))) [7, 6, 5, 4, 3, 2, 1, 0]"

definition dec_text :: "u32 \<Rightarrow> cstr" where
  "dec_text n = rev (digits_rev dec_digit 10 11 (unat n))"

definition screen_regs :: "isr_context \<Rightarrow> cstr" where
  "screen_regs x = asc ''Kayitlar:'' @ [10] @ asc '' EAX='' @ hex8 (ic_eax x) @ asc '' ECX='' @ hex8 (ic_ecx x)
     @ asc '' EDX='' @ hex8 (ic_edx x) @ asc '' EBX='' @ hex8 (ic_ebx x) @ [10] @ asc '' ESP='' @ hex8 (ic_esp x)
     @ asc '' EBP='' @ hex8 (ic_ebp x) @ asc '' ESI='' @ hex8 (ic_esi x) @ asc '' EDI='' @ hex8 (ic_edi x) @ [10, 10]"

definition screen_title :: "cstr \<Rightarrow> cstr" where
  "screen_title title = [10] @ asc ''   *** RetaOS MAVI EKRAN ***'' @ [10, 10] @ asc ''Hata: '' @ title @ [10, 10]"

definition exception_screen :: "u32 \<Rightarrow> u32 \<Rightarrow> isr_context \<Rightarrow> u32 \<Rightarrow> cstr" where
  "exception_screen vector err x cr2 = screen_title (asc ''CPU Istisnasi'') @ asc ''Istisna: ''
     @ (if unat vector < 32 then exc_names ! unat vector else asc ''Bilinmeyen Istisna'')
     @ asc '' (vector='' @ dec_text vector @ asc '')'' @ [10] @ asc ''Hata Kodu: 0x'' @ hex8 err @ asc ''  ('' @ dec_text err
     @ asc '')'' @ [10] @ (if vector = 14 then asc ''CR2 (fault addr): 0x'' @ hex8 cr2 @ [10] else []) @ [10] @ screen_regs x
     @ asc ''Yapilabilecekler:'' @ [10] @ asc ''- Yeniden baslatin'' @ [10]
     @ asc ''- Kernel loglarini kontrol edin (serial).'' @ [10]"

lemma console_puts_append: "console_puts (xs @ ys) c = do { d \<leftarrow> console_puts xs c; console_puts ys d }"
  by (induction xs arbitrary: c) (auto split: bind_splits)

lemma console_puts_append_fun: "console_puts (xs @ ys) = (\<lambda>c. do { d \<leftarrow> console_puts xs c; console_puts ys d })"
  by (rule ext) (rule console_puts_append)

lemma put_number_puts:
  "console_put_hex n c = console_puts (hex8 n) c" "console_put_dec n c = console_puts (dec_text n) c"
  by (simp_all add: console_put_hex_def hex8_def)
    (cases "console_putc 48 c"; auto simp: console_put_dec_def dec_text_def dec_digit_def)

lemma show_reg_puts: "show_reg l v c = console_puts (asc l @ hex8 v) c"
  by (simp add: show_reg_def console_puts_append put_number_puts)

lemma bsod_regs_puts: "bsod_regs x c = console_puts (screen_regs x) c"
  by (simp only: bsod_regs_def show_reg_puts screen_regs_def console_puts_append Option.bind_assoc)

text \<open>The header clears the screen to white on blue.\<close>

lemma bsod_header_puts:
  assumes "length (co_vga c) = 2000"
  obtains d where "\<And>title. title \<noteq> [] \<Longrightarrow> bsod_header title c = console_puts (screen_title title) d"
    and "shows_paper d ([], blank_line 0x1F, 0)" "co_attr d = 0x1F"
proof
  let ?c = "c\<lparr>co_attr := 0x1F, co_vga := replicate 2000 (vga_cell 0x1F 32), co_x := 0, co_y := 0\<rparr>"
  have a: "console_set_color 15 1 c = c\<lparr>co_attr := 0x1F\<rparr>" by (simp add: console_set_color_def)
  have cl: "console_clear (console_set_color 15 1 c) = Some ?c"
    unfolding a using clear_rows [OF assms, of "vga_cell 0x1F 32"] by (simp add: console_clear_def)
  have cur: "console_set_cursor 0 0 ?c = ?c" by (simp add: console_set_cursor_def Let_def)
  show "bsod_header title c = console_puts (screen_title title) ?c" if "title \<noteq> []" for title
    using that by (simp only: bsod_header_def cl cur Option.bind_lunit screen_title_def console_puts_append Option.bind_assoc if_False)
  show "shows_paper ?c ([], blank_line 0x1F, 0)" by (rule cleared_shows_paper) simp_all
qed simp

text \<open>The log never holds the report up: nothing is logged, or the transmitter will be empty \<open>n\<close> times.\<close>

definition log_room :: "nat \<Rightarrow> isys \<Rightarrow> bool" where
  "log_room n s \<longleftrightarrow> \<not> se_ready (is_serial s) \<or> n \<le> empties (is_serial s)"

lemma serial_write_putcs: "serial_write cs s = serial_putcs cs s"
  by (simp add: serial_write_def serial_not_ready)

lemma log_append: "do { t \<leftarrow> is_log (serial_putcs xs) s; is_log (serial_putcs ys) t } = is_log (serial_putcs (xs @ ys)) s"
  by (cases "serial_putcs xs (is_serial s)") (simp_all add: is_log_def serial_putcs_append)

lemma log_append_bind:
  "do { t \<leftarrow> is_log (serial_putcs xs) s; do { u \<leftarrow> is_log (serial_putcs ys) t; f u } }
   = do { u \<leftarrow> is_log (serial_putcs (xs @ ys)) s; f u }"
  by (simp flip: log_append add: Option.bind_assoc)

lemma log_all:
  assumes "log_room (length cs) s"
  obtains p where "is_log (serial_putcs cs) s = Some (s\<lparr>is_serial := p\<rparr>)"
proof (cases "se_ready (is_serial s)")
  case True
  then obtain p where "serial_putcs cs (is_serial s) = Some p"
    using serial_putcs_enough [OF True, of cs] assms by (auto simp: log_room_def)
  then show ?thesis using that by (simp add: is_log_def)
next
  case False
  then show ?thesis using that [of "is_serial s"] by (simp add: is_log_def serial_not_ready)
qed

lemmas log_chain = serial_write_putcs log_append log_append_bind

lemma log_hex: "serial_write_hex v = serial_putcs (asc ''0x'' @ hex8 v)"
  by (rule ext) (simp add: serial_write_hex_def serial_write_putcs serial_putcs_append hex8_def)

definition log_dec_text :: "u32 \<Rightarrow> cstr" where
  "log_dec_text v = rev (digits_rev dec_digit 10 15 (unat v))"

lemma log_dec: "serial_write_dec v = serial_putcs (log_dec_text v)"
  by (rule ext) (simp add: serial_dec_putcs log_dec_text_def)

lemma log_dec_length: "length (log_dec_text v) \<le> 10"
  using digits_rev_length [of "unat v" 10 dec_digit 15] unsigned_less [of v, where ?'a = nat]
  by (cases "unat v = 0") (simp_all add: log_dec_text_def)

lemma log_write: "serial_write cs = serial_putcs cs" by (rule ext) (rule serial_write_putcs)

lemma log_reg_putcs: "log_reg l v s = is_log (serial_putcs (asc l @ asc ''0x'' @ hex8 v)) s"
  by (simp only: log_reg_def log_hex log_write log_append)

definition log_regs :: "isr_context \<Rightarrow> cstr" where
  "log_regs x = asc ''EAX='' @ asc ''0x'' @ hex8 (ic_eax x) @ asc '' ECX='' @ asc ''0x'' @ hex8 (ic_ecx x)
     @ asc '' EDX='' @ asc ''0x'' @ hex8 (ic_edx x) @ asc '' EBX='' @ asc ''0x'' @ hex8 (ic_ebx x) @ [10]
     @ asc ''ESP='' @ asc ''0x'' @ hex8 (ic_esp x) @ asc '' EBP='' @ asc ''0x'' @ hex8 (ic_ebp x)
     @ asc '' ESI='' @ asc ''0x'' @ hex8 (ic_esi x) @ asc '' EDI='' @ asc ''0x'' @ hex8 (ic_edi x) @ [10]"

lemma dump_registers_putcs: "dump_registers x s = is_log (serial_putcs (log_regs x)) s"
  by (simp only: dump_registers_def log_regs_def log_reg_putcs log_write log_append log_append_bind append_assoc)

definition exception_log :: "u32 \<Rightarrow> u32 \<Rightarrow> isr_context \<Rightarrow> u32 \<Rightarrow> cstr" where
  "exception_log vector err x cr2 = asc ''[EXC] vector='' @ log_dec_text vector @ asc '' err='' @ asc ''0x'' @ hex8 err
     @ (if vector = 14 then asc '' cr2='' @ asc ''0x'' @ hex8 cr2 else []) @ [10] @ log_regs x"

lemma exception_log_length: "length (exception_log vector err x cr2) \<le> 180"
  using log_dec_length [of vector] log_dec_length [of 14] by (simp add: exception_log_def log_regs_def hex8_def asc_def)

lemma exception_handler_log:
  "exception_handler vector err x cr2reg s = (let cr2 = (if vector = 14 then cr2reg else 0) in
     do { t \<leftarrow> is_log (serial_putcs (exception_log vector err x cr2)) s; kernel_bsod_exception vector err x cr2 t })"
  by (cases "vector = 14")
    (simp_all only: exception_handler_def exception_log_def log_hex log_dec log_write dump_registers_putcs log_append
      log_append_bind Let_def if_True if_False simp_thms append_Nil append_assoc Option.bind_lunit)

lemma bsod_exception_puts:
  assumes "length (co_vga (is_console s)) = 2000"
  obtains c where "kernel_bsod_exception vector err x cr2 s = Some (s\<lparr>is_console := c, is_enabled := False\<rparr>)"
    and "shows_paper c (type_text 0x1F (exception_screen vector err x cr2) ([], blank_line 0x1F, 0))"
proof -
  obtain d where d: "\<And>title. title \<noteq> [] \<Longrightarrow> bsod_header title (is_console s) = console_puts (screen_title title) d"
    "shows_paper d ([], blank_line 0x1F, 0)" "co_attr d = 0x1F"
    using bsod_header_puts [OF assms] by metis
  obtain c where c: "console_puts (exception_screen vector err x cr2) d = Some c"
    "shows_paper c (type_text 0x1F (exception_screen vector err x cr2) ([], blank_line 0x1F, 0))"
    using console_puts_refines [OF d(2), of "exception_screen vector err x cr2"] d(3) by auto
  have n: "asc ''CPU Istisnasi'' \<noteq> []" by (simp add: asc_def)
  have l: "length exc_names = 32" by (simp add: exc_names_def)
  have "kernel_bsod_exception vector err x cr2 s
      = do { s1 \<leftarrow> is_show (\<lambda>_. console_puts (exception_screen vector err x cr2) d) s; Some (interrupts_disable s1) }"
    unfolding kernel_bsod_exception_def is_show_def
    by (cases "vector = 14") (simp_all only: d(1) [OF n] l exception_screen_def put_number_puts bsod_regs_puts console_puts_append_fun
        Option.bind_assoc Option.bind_lunit append_Nil if_True if_False simp_thms console_puts.simps)
  then show ?thesis using that c by (simp add: is_show_def interrupts_disable_def)
qed

text \<open>C31.  What an exception reports.  The stubs hand over the registers two words too far up the stack and, where
  the processor pushed an error code, the saved EAX in its place: the log and the blue screen show EBP as
  EAX, ESP as ECX, EBX as EDX, EDX as EBX, ECX as ESP, EAX as EBP and what the processor pushed as ESI and
  EDI; the error code shown is EAX (0 for the exceptions without one).  The report is complete, with
  interrupts off, on the cleared text memory of the console.
\<close>

theorem exception_report:
  assumes "v < 20" and "length (co_vga (is_console s)) = 2000" and "log_room 180 s"
  shows "let err = (if has_error_code v then g_eax g else 0);
      x = \<lparr>ic_eax = g_ebp g, ic_ecx = g_esp g, ic_edx = g_ebx g, ic_ebx = g_edx g, ic_esp = g_ecx g, ic_ebp = g_eax g,
            ic_esi = f0, ic_edi = f1\<rparr>;
      cr2 = (if v = 14 then cr2reg else 0) in
    \<exists>p c. ex_stub v ctx (f0 # f1 # frame) g cr2reg s = Some (s\<lparr>is_serial := p, is_console := c, is_enabled := False\<rparr>)
      \<and> serial_write (exception_log (of_nat v) err x cr2) (is_serial s) = Some p
      \<and> shows_paper c (type_text 0x1F (exception_screen (of_nat v) err x cr2) ([], blank_line 0x1F, 0))"
proof -
  obtain err x cr2 where d: "err = (if has_error_code v then g_eax g else 0)"
      "x = \<lparr>ic_eax = g_ebp g, ic_ecx = g_esp g, ic_edx = g_ebx g, ic_ebx = g_edx g, ic_esp = g_ecx g, ic_ebp = g_eax g,
         ic_esi = f0, ic_edi = f1\<rparr>" "cr2 = (if v = 14 then cr2reg else 0)" by blast
  have v: "(of_nat v :: u32) = 14 \<longleftrightarrow> v = 14" using assms(1) by (simp add: word_unat_eq_iff unat_of_nat)
  have e: "ex_stub v ctx (f0 # f1 # frame) g cr2reg s = exception_handler (of_nat v) err x cr2reg s"
    by (simp add: ex_stub_def ex_err_def ex_noerr_def pushal_def context_of_def d numeral_2_eq_2)
  have room: "log_room (length (exception_log (of_nat v) err x cr2)) s"
    using assms(3) exception_log_length [of "of_nat v" err x cr2] by (auto simp: log_room_def)
  obtain p where p: "is_log (serial_putcs (exception_log (of_nat v) err x cr2)) s = Some (s\<lparr>is_serial := p\<rparr>)"
    using log_all [OF room] by blast
  have "length (co_vga (is_console (s\<lparr>is_serial := p\<rparr>))) = 2000" using assms(2) by simp
  then obtain c where "kernel_bsod_exception (of_nat v) err x cr2 (s\<lparr>is_serial := p\<rparr>)
        = Some (s\<lparr>is_serial := p, is_console := c, is_enabled := False\<rparr>)"
      "shows_paper c (type_text 0x1F (exception_screen (of_nat v) err x cr2) ([], blank_line 0x1F, 0))"
    using bsod_exception_puts [of "s\<lparr>is_serial := p\<rparr>" "of_nat v" err x cr2] by auto
  moreover have "serial_write (exception_log (of_nat v) err x cr2) (is_serial s) = Some p"
    using p by (auto simp: is_log_def log_write) (metis isys.select_convs(11) isys.surjective isys.update_convs(11))
  moreover have "ex_stub v ctx (f0 # f1 # frame) g cr2reg s = kernel_bsod_exception (of_nat v) err x cr2 (s\<lparr>is_serial := p\<rparr>)"
    unfolding e exception_handler_log Let_def v d(3) [symmetric] p by simp
  ultimately show ?thesis unfolding d(1,2,3) [symmetric] Let_def by metis
qed

text \<open>A general protection fault with selector 0x1B while EAX is 7: the screen says error code 7.\<close>

lemma exception_report_witness:
  "\<exists>t. ex_stub 13 0 [0x1B, 0x101234, 0x08, 0x202] \<lparr>g_eax = 7, g_ecx = 1, g_edx = 2, g_ebx = 3, g_esp = 4, g_ebp = 5, g_esi = 6, g_edi = 8\<rparr>
      0 demo_isys = Some t \<and> \<not> is_enabled t
    \<and> shows_paper (is_console t) (type_text 0x1F (exception_screen 13 7 \<lparr>ic_eax = 5, ic_ecx = 4, ic_edx = 3, ic_ebx = 2, ic_esp = 1,
        ic_ebp = 7, ic_esi = 0x1B, ic_edi = 0x101234\<rparr> 0) ([], blank_line 0x1F, 0))"
proof -
  have d: "length (co_vga (is_console demo_isys)) = 2000" "log_room 180 demo_isys"
    by (simp_all add: demo_isys_def log_room_def)
  show ?thesis
    using exception_report [OF _ d, where v = 13 and ctx = 0 and ?f0.0 = "0x1B" and ?f1.0 = "0x101234" and frame = "[0x08, 0x202]"
        and cr2reg = 0 and g = "\<lparr>g_eax = 7, g_ecx = 1, g_edx = 2, g_ebx = 3, g_esp = 4, g_ebp = 5, g_esi = 6, g_edi = 8\<rparr>"]
    by (auto simp: has_error_code_def Let_def simp del: shows_paper.simps)
qed

end
