(* ===== verification/Debug.thy ===== *)
theory Debug
  imports Console Process Interrupts
begin

text \<open>
  \<^verbatim>\<open>kernel/debug.c\<close>: messages with a level, dumps and the debug commands, on the console of \<open>Console\<close>.

  What inline assembly reads, the registers and the frame pointer, is an argument.
\<close>

subsection \<open>Levels\<close>

record dbg =
  db_level :: u32
  db_con :: console

definition DEBUG_LEVEL_TRACE :: u32 where "DEBUG_LEVEL_TRACE = 0"
definition DEBUG_LEVEL_DEBUG :: u32 where "DEBUG_LEVEL_DEBUG = 1"
definition DEBUG_LEVEL_INFO :: u32 where "DEBUG_LEVEL_INFO = 2"
definition DEBUG_LEVEL_WARN :: u32 where "DEBUG_LEVEL_WARN = 3"
definition DEBUG_LEVEL_ERROR :: u32 where "DEBUG_LEVEL_ERROR = 4"
definition DEBUG_LEVEL_FATAL :: u32 where "DEBUG_LEVEL_FATAL = 5"
definition DEBUG_LEVEL_NONE :: u32 where "DEBUG_LEVEL_NONE = 6"

lemmas levels = DEBUG_LEVEL_TRACE_def DEBUG_LEVEL_DEBUG_def DEBUG_LEVEL_INFO_def DEBUG_LEVEL_WARN_def DEBUG_LEVEL_ERROR_def
  DEBUG_LEVEL_FATAL_def DEBUG_LEVEL_NONE_def

text \<open>The enumeration is unsigned.\<close>

definition debug_set_level :: "u32 \<Rightarrow> dbg \<Rightarrow> dbg" where
  "debug_set_level level s = (if DEBUG_LEVEL_TRACE \<le> level \<and> level \<le> DEBUG_LEVEL_NONE then s\<lparr>db_level := level\<rparr> else s)"

definition debug_get_level :: "dbg \<Rightarrow> u32" where "debug_get_level s = db_level s"

definition esc :: "string \<Rightarrow> cstr" where "esc t = 0x1B # asc t"

definition COLOR_RESET :: cstr where "COLOR_RESET = esc ''[0m''"

definition get_level_color :: "u32 \<Rightarrow> cstr" where
  "get_level_color level =
     (if level = DEBUG_LEVEL_TRACE then esc ''[36m'' else if level = DEBUG_LEVEL_DEBUG then esc ''[34m''
      else if level = DEBUG_LEVEL_INFO then esc ''[32m'' else if level = DEBUG_LEVEL_WARN then esc ''[33m''
      else if level = DEBUG_LEVEL_ERROR then esc ''[31m'' else if level = DEBUG_LEVEL_FATAL then esc ''[35m'' else COLOR_RESET)"

definition get_level_label :: "u32 \<Rightarrow> cstr" where
  "get_level_label level =
     (if level = DEBUG_LEVEL_TRACE then asc ''TRACE'' else if level = DEBUG_LEVEL_DEBUG then asc ''DEBUG''
      else if level = DEBUG_LEVEL_INFO then asc ''INFO '' else if level = DEBUG_LEVEL_WARN then asc ''WARN ''
      else if level = DEBUG_LEVEL_ERROR then asc ''ERROR'' else if level = DEBUG_LEVEL_FATAL then asc ''FATAL'' else asc ''UNKNW'')"

subsection \<open>Messages\<close>

definition db_printf :: "cstr \<Rightarrow> farg list \<Rightarrow> dbg \<Rightarrow> dbg option" where
  "db_printf fmt args s = map_option (\<lambda>c. s\<lparr>db_con := c\<rparr>) (console_printf (fmt @ [0]) args (db_con s))"

definition debug_print :: "u32 \<Rightarrow> cstr \<Rightarrow> u32 \<Rightarrow> cstr \<Rightarrow> cstr \<Rightarrow> farg list \<Rightarrow> dbg \<Rightarrow> dbg option" where
  "debug_print level file line func fmt args s =
     (if level < db_level s then Some s
      else do {
        s1 \<leftarrow> db_printf (asc ''%s[%s] %s:%d:%s()%s '') [FStr (get_level_color level @ [0]), FStr (get_level_label level @ [0]),
                 FStr (file @ [0]), FInt line, FStr (func @ [0]), FStr (COLOR_RESET @ [0])] s;
        s2 \<leftarrow> db_printf fmt args s1;
        map_option (\<lambda>c. s2\<lparr>db_con := c\<rparr>) (console_putc 10 (db_con s2)) })"

text \<open>The two macros as they are used in this file.\<close>

definition DEBUG_INFO :: "string \<Rightarrow> u32 \<Rightarrow> string \<Rightarrow> farg list \<Rightarrow> dbg \<Rightarrow> dbg option" where
  "DEBUG_INFO func line fmt args s = debug_print DEBUG_LEVEL_INFO (asc ''kernel/debug.c'') line (asc func) (asc fmt) args s"

definition DEBUG_ERROR :: "string \<Rightarrow> u32 \<Rightarrow> string \<Rightarrow> farg list \<Rightarrow> dbg \<Rightarrow> dbg option" where
  "DEBUG_ERROR func line fmt args s = debug_print DEBUG_LEVEL_ERROR (asc ''kernel/debug.c'') line (asc func) (asc fmt) args s"

subsection \<open>Dumps\<close>

text \<open>A row of at most 16 bytes.\<close>

definition dump_row :: "u32 \<Rightarrow> u8 list \<Rightarrow> dbg \<Rightarrow> dbg option" where
  "dump_row a row s = do {
     s1 \<leftarrow> db_printf (asc ''0x%08x: '') [FInt a] s;
     s2 \<leftarrow> for_loop 0 16 (\<lambda>j s. do {
         t \<leftarrow> (if j < length row then db_printf (asc ''%02x '') [FInt (ucast (row ! j))] s else db_printf (asc ''   '') [] s);
         if j = 7 then db_printf (asc '' '') [] t else Some t }) s1;
     s3 \<leftarrow> db_printf (asc '' |'') [] s2;
     s4 \<leftarrow> for_loop 0 (length row) (\<lambda>j s. let c = row ! j in
         if 32 \<le> c \<and> c \<le> 126 then db_printf (asc ''%c'') [FInt (ucast c)] s else db_printf (asc ''.'') [] s) s3;
     db_printf (asc ''|'' @ [10]) [] s4 }"

function dump_rows :: "u32 \<Rightarrow> u8 list \<Rightarrow> dbg \<Rightarrow> dbg option" where
  "dump_rows a mem s =
     (if mem = [] then Some s else do { t \<leftarrow> dump_row a (take 16 mem) s; dump_rows (a + 16) (drop 16 mem) t })"
  by pat_completeness auto
termination by (relation "measure (\<lambda>(a, mem, s). length mem)") auto

declare dump_rows.simps [simp del]

text \<open>\<open>mem\<close> is the object at \<open>a\<close>; for one of more than \<open>2 ^ 32 - 16\<close> bytes the counter would wrap and the loop not end.\<close>

definition debug_dump_memory :: "u32 \<Rightarrow> u8 list \<Rightarrow> cstr option \<Rightarrow> dbg \<Rightarrow> dbg option" where
  "debug_dump_memory a mem desc s = do {
     t \<leftarrow> (case desc of Some d \<Rightarrow> DEBUG_INFO ''debug_dump_memory'' 86 ''Memory Dump (%s):'' [FStr (d @ [0])] s
        | None \<Rightarrow> DEBUG_INFO ''debug_dump_memory'' 88 ''Memory Dump:'' [] s);
     if 0xFFFFFFF0 < length mem then None else dump_rows a mem t }"

record dregs =
  dr_eax :: u32  dr_ebx :: u32  dr_ecx :: u32  dr_edx :: u32  dr_esi :: u32  dr_edi :: u32  dr_ebp :: u32  dr_esp :: u32
  dr_eip :: u32  dr_eflags :: u32  dr_cs :: u16  dr_ds :: u16  dr_es :: u16  dr_fs :: u16  dr_gs :: u16  dr_ss :: u16

definition debug_print_registers :: "dregs \<Rightarrow> dbg \<Rightarrow> dbg option" where
  "debug_print_registers x s = do {
     s1 \<leftarrow> DEBUG_INFO ''debug_print_registers'' 181 ''Register Dump:'' [] s;
     s2 \<leftarrow> db_printf (asc ''EAX: 0x%08x  EBX: 0x%08x  ECX: 0x%08x  EDX: 0x%08x'' @ [10])
       [FInt (dr_eax x), FInt (dr_ebx x), FInt (dr_ecx x), FInt (dr_edx x)] s1;
     s3 \<leftarrow> db_printf (asc ''ESI: 0x%08x  EDI: 0x%08x  EBP: 0x%08x  ESP: 0x%08x'' @ [10])
       [FInt (dr_esi x), FInt (dr_edi x), FInt (dr_ebp x), FInt (dr_esp x)] s2;
     s4 \<leftarrow> db_printf (asc ''EIP: 0x%08x  EFLAGS: 0x%08x'' @ [10]) [FInt (dr_eip x), FInt (dr_eflags x)] s3;
     db_printf (asc ''CS: 0x%04x  DS: 0x%04x  ES: 0x%04x  FS: 0x%04x  GS: 0x%04x  SS: 0x%04x'' @ [10])
       [FInt (ucast (dr_cs x)), FInt (ucast (dr_ds x)), FInt (ucast (dr_es x)), FInt (ucast (dr_fs x)), FInt (ucast (dr_gs x)),
        FInt (ucast (dr_ss x))] s4 }"

text \<open>\<open>rd\<close> reads a word, \<open>n\<close> frames are left.\<close>

fun trace_frames :: "(u32 \<Rightarrow> u32 option) \<Rightarrow> nat \<Rightarrow> u32 \<Rightarrow> u32 \<Rightarrow> dbg \<Rightarrow> dbg option" where
  "trace_frames rd 0 frame ebp s = Some s"
| "trace_frames rd (Suc n) frame ebp s =
     (if ebp = 0 then Some s
      else do {
        eip \<leftarrow> rd (ebp + 4);
        t \<leftarrow> db_printf (asc ''  [%u] 0x%08x'' @ [10]) [FInt frame, FInt eip] s;
        nxt \<leftarrow> rd ebp;
        if nxt = 0 then Some t else trace_frames rd n (frame + 1) nxt t })"

definition debug_print_stack_trace :: "(u32 \<Rightarrow> u32 option) \<Rightarrow> u32 \<Rightarrow> u32 \<Rightarrow> dbg \<Rightarrow> dbg option" where
  "debug_print_stack_trace rd ebp max_frames s = do {
     t \<leftarrow> DEBUG_INFO ''debug_print_stack_trace'' 191 ''Stack trace (max %u frames):'' [FInt max_frames] s;
     trace_frames rd (unat max_frames) 0 ebp t }"

definition proc_state_name :: "process_state \<Rightarrow> cstr" where
  "proc_state_name st = (case st of PROC_NEW \<Rightarrow> asc ''NEW'' | PROC_RUNNING \<Rightarrow> asc ''RUNNING'' | PROC_READY \<Rightarrow> asc ''READY''
     | PROC_BLOCKED \<Rightarrow> asc ''BLOCKED'' | PROC_TERMINATED \<Rightarrow> asc ''TERMINATED'')"

definition debug_print_process_list :: "psys \<Rightarrow> dbg \<Rightarrow> dbg option" where
  "debug_print_process_list ps s = do {
     s1 \<leftarrow> DEBUG_INFO ''debug_print_process_list'' 206 ''Process List:'' [] s;
     s2 \<leftarrow> db_printf (asc ''PID'' @ [9] @ asc ''STATE'' @ [10]) [] s1;
     s3 \<leftarrow> db_printf (asc ''----------------'' @ [10]) [] s2;
     let p = process_current ps;
     if p = 0 then Some s3
     else do {
       x \<leftarrow> ps_procs ps p;
       db_printf (asc ''%d'' @ [9] @ asc ''%s'' @ [10]) [FInt (pr_pid x), FStr (proc_state_name (pr_state x) @ [0])] s3 } }"

definition debug_print_memory_map :: "dbg \<Rightarrow> dbg option" where
  "debug_print_memory_map s = do {
     s1 \<leftarrow> DEBUG_INFO ''debug_print_memory_map'' 229 ''Memory Map (simplified):'' [] s;
     s2 \<leftarrow> db_printf (asc ''0x00000000 - 0x003FFFFF: Kernel Code/Data'' @ [10]) [] s1;
     s3 \<leftarrow> db_printf (asc ''0x00400000 - 0xBFFFFFFF: User Space'' @ [10]) [] s2;
     s4 \<leftarrow> db_printf (asc ''0xC0000000 - 0xFFFFFFFF: Kernel Stack/Heap'' @ [10]) [] s3;
     DEBUG_INFO ''debug_print_memory_map'' 237 ''Note: This is a simplified memory map. Use 'meminfo' for details.'' [] s4 }"

subsection \<open>Commands\<close>

text \<open>\<open>x\<close>, \<open>rd\<close> and \<open>ebp\<close> are what the assembly reads; the bytes of \<open>cmd\<close> are signed.\<close>

definition starts :: "u8 list \<Rightarrow> string \<Rightarrow> bool option" where
  "starts cmd t = map_option (\<lambda>v. v = 0) (k_strncmp cmd (asc t @ [0]) (length t))"

definition debug_help :: "dbg \<Rightarrow> dbg option" where
  "debug_help s = do {
     s1 \<leftarrow> db_printf (asc ''Available debug commands:'' @ [10]) [] s;
     s2 \<leftarrow> db_printf (asc ''  regs      - Show CPU registers'' @ [10]) [] s1;
     s3 \<leftarrow> db_printf (asc ''  ps        - Show process list'' @ [10]) [] s2;
     s4 \<leftarrow> db_printf (asc ''  stack     - Show stack trace'' @ [10]) [] s3;
     s5 \<leftarrow> db_printf (asc ''  memmap    - Show memory map'' @ [10]) [] s4;
     s6 \<leftarrow> db_printf (asc ''  loglevel N- Set log level (0-5)'' @ [10]) [] s5;
     db_printf (asc ''  help      - Show this help'' @ [10]) [] s6 }"

definition debug_loglevel :: "u8 list \<Rightarrow> dbg \<Rightarrow> dbg option" where
  "debug_loglevel cmd s = (if length cmd \<le> 9 then None else
     let level = sint (cmd ! 9) - 48 in
     if uint DEBUG_LEVEL_TRACE \<le> level \<and> level < uint DEBUG_LEVEL_NONE
     then DEBUG_INFO ''debug_command'' 254 ''Log level set to %d'' [FInt (word_of_int level)] (debug_set_level (word_of_int level) s)
     else DEBUG_ERROR ''debug_command'' 256 ''Invalid log level. Use 0-5 (0=trace, 5=none)'' [] s)"

definition debug_command :: "dregs \<Rightarrow> (u32 \<Rightarrow> u32 option) \<Rightarrow> u32 \<Rightarrow> psys \<Rightarrow> u8 list \<Rightarrow> dbg \<Rightarrow> dbg option" where
  "debug_command x rd ebp ps cmd s = do {
     regs \<leftarrow> starts cmd ''regs'';
     if regs then debug_print_registers x s
     else do {
       psl \<leftarrow> starts cmd ''ps'';
       if psl then debug_print_process_list ps s
       else do {
         stk \<leftarrow> starts cmd ''stack'';
         if stk then debug_print_stack_trace rd ebp 16 s
         else do {
           mm \<leftarrow> starts cmd ''memmap'';
           if mm then debug_print_memory_map s
           else do {
             ll \<leftarrow> starts cmd ''loglevel '';
             if ll then debug_loglevel cmd s
             else do {
               h \<leftarrow> k_strcmp cmd (asc ''help'' @ [0]);
               if h = 0 then debug_help s
               else DEBUG_ERROR ''debug_command'' 267 ''Unknown debug command: %s (type 'help' for available commands)'' [FStr cmd] s
     } } } } } }"

subsection \<open>What is printed\<close>

text \<open>Text on the console.\<close>

definition say :: "cstr \<Rightarrow> dbg \<Rightarrow> dbg option" where
  "say t s = map_option (\<lambda>c. s\<lparr>db_con := c\<rparr>) (console_puts t (db_con s))"

lemma say_nil: "say [] s = Some s"
  by (simp add: say_def)

lemma say_append: "Option.bind (say a s) (say b) = say (a @ b) s"
  by (cases "console_puts a (db_con s)") (simp_all add: say_def console_puts_append)

lemma say_append_bind: "Option.bind (say a s) (\<lambda>t. Option.bind (say b t) f) = Option.bind (say (a @ b) s) f"
  by (simp only: Option.bind_assoc [symmetric] say_append)

lemma say_level: "say t (s\<lparr>db_level := l\<rparr>) = map_option (\<lambda>u. u\<lparr>db_level := l\<rparr>) (say t s)"
  by (cases "console_puts t (db_con s)") (simp_all add: say_def)

lemma db_printf_say: "console_vprintf (fmt @ [0]) args = Some out \<Longrightarrow> db_printf fmt args = say out"
  by (rule ext) (simp add: db_printf_def console_printf_def say_def)

lemma console_vprintf_literal:
  "\<forall>c\<in>set p. c \<noteq> 0 \<and> c \<noteq> 0x25 \<Longrightarrow> console_vprintf f args = Some out \<Longrightarrow> console_vprintf (p @ f) args = Some (p @ out)"
  by (induction p) auto

lemma console_vprintf_conv:
  "con_conv k args = Some (as, o1) \<Longrightarrow> console_vprintf f as = Some out \<Longrightarrow> console_vprintf (0x25 # k # f) args = Some (o1 @ out)"
  by simp

lemma con_conv_str: "cstr_ok b \<Longrightarrow> con_conv 0x73 (FStr (b @ [0]) # as) = Some (as, b)"
proof -
  assume "cstr_ok b"
  then have "\<forall>c\<in>set b. c \<noteq> 0" by (auto simp: cstr_ok_def)
  then have "takeWhile (\<lambda>c. c \<noteq> 0) (b @ [0]) = b" by (induction b) auto
  then show ?thesis by (simp add: con_conv_def cstring_def cstr_at_def)
qed

definition unsigned_text :: "u32 \<Rightarrow> cstr" where
  "unsigned_text v = rev (digits_rev dec_digit 10 30 (unat v))"

lemma con_conv_unsigned: "con_conv 0x75 (FInt v # as) = Some (as, unsigned_text v)"
  by (simp add: con_conv_def unsigned_text_def)

lemma con_conv_small: "v < 0x80000000 \<Longrightarrow> con_conv 0x64 (FInt v # as) = Some (as, unsigned_text v)"
proof -
  assume a: "v < 0x80000000"
  then have u: "uint v < 2 ^ 31" by (simp add: word_less_alt)
  have "v = word_of_int (uint v)" by simp
  moreover have "sint (word_of_int (uint v) :: u32) = uint v" using u by (intro sint_int32) (auto intro: order_trans [of _ 0])
  ultimately have "sint v = uint v" by simp
  moreover have "0 \<le> uint v" by simp
  then have "uint v \<noteq> - 2147483648" by linarith
  ultimately have "abs_int v = Some (False, unat v)" by (simp add: abs_int_def Let_def)
  then show ?thesis by (simp add: con_conv_def unsigned_text_def)
qed

lemmas vprintf_rules = console_vprintf_conv [OF con_conv_str] console_vprintf_conv [OF con_conv_unsigned]
  console_vprintf_conv [OF con_conv_small] console_vprintf_literal

definition debug_text :: "u32 \<Rightarrow> cstr \<Rightarrow> u32 \<Rightarrow> cstr \<Rightarrow> cstr \<Rightarrow> cstr" where
  "debug_text level file line func msg = get_level_color level @ asc ''['' @ get_level_label level @ asc ''] '' @ file @ asc '':'' @ unsigned_text line
     @ asc '':'' @ func @ asc ''()'' @ COLOR_RESET @ asc '' '' @ msg @ [10]"

lemma level_strings: "cstr_ok (get_level_color l)" "cstr_ok (get_level_label l)" "cstr_ok COLOR_RESET"
  by (simp_all add: get_level_color_def get_level_label_def COLOR_RESET_def esc_def asc_def cstr_ok_def)

lemma debug_print_says:
  assumes "cstr_ok file" "cstr_ok func" "line < 0x80000000" and msg: "console_vprintf (fmt @ [0]) args = Some msg"
  shows "debug_print level file line func fmt args s = (if level < db_level s then Some s else say (debug_text level file line func msg) s)"
proof -
  have "console_vprintf (0x25 # 0x73 # asc ''['' @ 0x25 # 0x73 # asc ''] '' @ 0x25 # 0x73 # asc '':'' @ 0x25 # 0x64 # asc '':'' @ 0x25 # 0x73 # asc ''()''
       @ 0x25 # 0x73 # asc '' '' @ [0])
     [FStr (get_level_color level @ [0]), FStr (get_level_label level @ [0]), FStr (file @ [0]), FInt line, FStr (func @ [0]), FStr (COLOR_RESET @ [0])]
     = Some (get_level_color level @ asc ''['' @ get_level_label level @ asc ''] '' @ file @ asc '':'' @ unsigned_text line @ asc '':'' @ func @ asc ''()''
       @ COLOR_RESET @ asc '' '' @ [])"
    by (intro vprintf_rules level_strings assms) (simp_all add: asc_def)
  moreover have "asc ''%s[%s] %s:%d:%s()%s '' @ [0] = 0x25 # 0x73 # asc ''['' @ 0x25 # 0x73 # asc ''] '' @ 0x25 # 0x73 # asc '':'' @ 0x25 # 0x64
      # asc '':'' @ 0x25 # 0x73 # asc ''()'' @ 0x25 # 0x73 # asc '' '' @ [0]"
    by (simp add: asc_def)
  ultimately have p: "db_printf (asc ''%s[%s] %s:%d:%s()%s '')
     [FStr (get_level_color level @ [0]), FStr (get_level_label level @ [0]), FStr (file @ [0]), FInt line, FStr (func @ [0]), FStr (COLOR_RESET @ [0])]
     = say (get_level_color level @ asc ''['' @ get_level_label level @ asc ''] '' @ file @ asc '':'' @ unsigned_text line @ asc '':'' @ func @ asc ''()''
       @ COLOR_RESET @ asc '' '' @ [])" by (intro db_printf_say) (simp only:)
  have c: "map_option (\<lambda>c. u\<lparr>db_con := c\<rparr>) (console_putc 10 (db_con u)) = say [10] u" for u
    by (cases "console_putc 10 (db_con u)") (simp_all add: say_def)
  show ?thesis
    unfolding debug_print_def p db_printf_say [OF msg] c debug_text_def
    by (simp only: say_append_bind say_append append_assoc append_Nil)
qed

text \<open>The lines of this file, shown when the level is not above theirs.\<close>

definition own_text :: "u32 \<Rightarrow> u32 \<Rightarrow> string \<Rightarrow> u32 \<Rightarrow> cstr \<Rightarrow> cstr" where
  "own_text level lv func line msg = (if level < lv then [] else debug_text level (asc ''kernel/debug.c'') line (asc func) msg)"

lemma own_says:
  assumes "cstr_ok (asc func)" "line < 0x80000000" "console_vprintf (asc fmt @ [0]) args = Some msg"
  shows "DEBUG_INFO func line fmt args s = say (own_text DEBUG_LEVEL_INFO (db_level s) func line msg) s"
    "DEBUG_ERROR func line fmt args s = say (own_text DEBUG_LEVEL_ERROR (db_level s) func line msg) s"
proof -
  have f: "cstr_ok (asc ''kernel/debug.c'')" by (simp add: cstr_ok_def asc_def)
  show "DEBUG_INFO func line fmt args s = say (own_text DEBUG_LEVEL_INFO (db_level s) func line msg) s"
    "DEBUG_ERROR func line fmt args s = say (own_text DEBUG_LEVEL_ERROR (db_level s) func line msg) s"
    by (simp_all add: DEBUG_INFO_def DEBUG_ERROR_def debug_print_says [OF f assms] own_text_def say_nil)
qed

definition registers_text :: "u32 \<Rightarrow> cstr" where
  "registers_text lv = own_text DEBUG_LEVEL_INFO lv ''debug_print_registers'' 181 (asc ''Register Dump:'')
     @ asc ''EAX: 0x%08x  EBX: 0x%08x  ECX: 0x%08x  EDX: 0x%08x'' @ [10] @ asc ''ESI: 0x%08x  EDI: 0x%08x  EBP: 0x%08x  ESP: 0x%08x'' @ [10]
     @ asc ''EIP: 0x%08x  EFLAGS: 0x%08x'' @ [10] @ asc ''CS: 0x%04x  DS: 0x%04x  ES: 0x%04x  FS: 0x%04x  GS: 0x%04x  SS: 0x%04x'' @ [10]"

text \<open>A conversion with a width prints itself and takes no argument.\<close>

lemma width_conv: "con_conv 0x30 args = Some (args, [0x25, 0x30])"
  by (simp add: con_conv_def)

lemma registers_say: "debug_print_registers x s = say (registers_text (db_level s)) s"
proof -
  have c: "cstr_ok (asc ''debug_print_registers'')" by (simp add: cstr_ok_def asc_def)
  have f: "console_vprintf (asc ''Register Dump:'' @ [0]) a = Some (asc ''Register Dump:'')"
    "console_vprintf ((asc ''EAX: 0x%08x  EBX: 0x%08x  ECX: 0x%08x  EDX: 0x%08x'' @ [10]) @ [0]) a
      = Some (asc ''EAX: 0x%08x  EBX: 0x%08x  ECX: 0x%08x  EDX: 0x%08x'' @ [10])"
    "console_vprintf ((asc ''ESI: 0x%08x  EDI: 0x%08x  EBP: 0x%08x  ESP: 0x%08x'' @ [10]) @ [0]) a
      = Some (asc ''ESI: 0x%08x  EDI: 0x%08x  EBP: 0x%08x  ESP: 0x%08x'' @ [10])"
    "console_vprintf ((asc ''EIP: 0x%08x  EFLAGS: 0x%08x'' @ [10]) @ [0]) a = Some (asc ''EIP: 0x%08x  EFLAGS: 0x%08x'' @ [10])"
    "console_vprintf ((asc ''CS: 0x%04x  DS: 0x%04x  ES: 0x%04x  FS: 0x%04x  GS: 0x%04x  SS: 0x%04x'' @ [10]) @ [0]) a
      = Some (asc ''CS: 0x%04x  DS: 0x%04x  ES: 0x%04x  FS: 0x%04x  GS: 0x%04x  SS: 0x%04x'' @ [10])" for a
    by (simp_all add: asc_def width_conv)
  have l: "(181 :: u32) < 0x80000000" by simp
  show ?thesis unfolding debug_print_registers_def own_says(1) [OF c l f(1)] f(2-5) [THEN db_printf_say]
    by (simp only: say_append_bind say_append append_assoc registers_text_def)
qed

definition memory_map_text :: "u32 \<Rightarrow> cstr" where
  "memory_map_text lv = own_text DEBUG_LEVEL_INFO lv ''debug_print_memory_map'' 229 (asc ''Memory Map (simplified):'')
     @ asc ''0x00000000 - 0x003FFFFF: Kernel Code/Data'' @ [10] @ asc ''0x00400000 - 0xBFFFFFFF: User Space'' @ [10]
     @ asc ''0xC0000000 - 0xFFFFFFFF: Kernel Stack/Heap'' @ [10]
     @ own_text DEBUG_LEVEL_INFO lv ''debug_print_memory_map'' 237 (asc ''Note: This is a simplified memory map. Use 'meminfo' for details.'')"

lemma say_levels: "say t s = Some u \<Longrightarrow> db_level u = db_level s"
  by (auto simp: say_def)

lemma say_then: "(\<And>u. db_level u = db_level s \<Longrightarrow> g u = h u) \<Longrightarrow> Option.bind (say t s) g = Option.bind (say t s) h"
  by (cases "say t s") (auto dest: say_levels)

lemma memory_map_say: "debug_print_memory_map s = say (memory_map_text (db_level s)) s"
proof -
  have c: "cstr_ok (asc ''debug_print_memory_map'')" by (simp add: cstr_ok_def asc_def)
  have f: "console_vprintf (asc ''Memory Map (simplified):'' @ [0]) a = Some (asc ''Memory Map (simplified):'')"
    "console_vprintf (asc ''Note: This is a simplified memory map. Use 'meminfo' for details.'' @ [0]) a
      = Some (asc ''Note: This is a simplified memory map. Use 'meminfo' for details.'')"
    "console_vprintf ((asc ''0x00000000 - 0x003FFFFF: Kernel Code/Data'' @ [10]) @ [0]) a = Some (asc ''0x00000000 - 0x003FFFFF: Kernel Code/Data'' @ [10])"
    "console_vprintf ((asc ''0x00400000 - 0xBFFFFFFF: User Space'' @ [10]) @ [0]) a = Some (asc ''0x00400000 - 0xBFFFFFFF: User Space'' @ [10])"
    "console_vprintf ((asc ''0xC0000000 - 0xFFFFFFFF: Kernel Stack/Heap'' @ [10]) @ [0]) a = Some (asc ''0xC0000000 - 0xFFFFFFFF: Kernel Stack/Heap'' @ [10])" for a
    by (simp_all add: asc_def)
  have l: "(229 :: u32) < 0x80000000" "(237 :: u32) < 0x80000000" by simp_all
  let ?e = "own_text DEBUG_LEVEL_INFO (db_level s) ''debug_print_memory_map'' 237 (asc ''Note: This is a simplified memory map. Use 'meminfo' for details.'')"
  have "debug_print_memory_map s = do { s1 \<leftarrow> say (own_text DEBUG_LEVEL_INFO (db_level s) ''debug_print_memory_map'' 229 (asc ''Memory Map (simplified):'')) s;
     s2 \<leftarrow> say (asc ''0x00000000 - 0x003FFFFF: Kernel Code/Data'' @ [10]) s1; s3 \<leftarrow> say (asc ''0x00400000 - 0xBFFFFFFF: User Space'' @ [10]) s2;
     s4 \<leftarrow> say (asc ''0xC0000000 - 0xFFFFFFFF: Kernel Stack/Heap'' @ [10]) s3; say ?e s4 }"
    unfolding debug_print_memory_map_def own_says(1) [OF c l(1) f(1)] own_says(1) [OF c l(2) f(2)] f(3-5) [THEN db_printf_say]
    by (intro say_then) simp
  then show ?thesis by (simp only: say_append_bind say_append append_assoc memory_map_text_def)
qed

fun trace_text :: "(u32 \<Rightarrow> u32 option) \<Rightarrow> nat \<Rightarrow> u32 \<Rightarrow> u32 \<Rightarrow> cstr" where
  "trace_text rd 0 frame ebp = []"
| "trace_text rd (Suc n) frame ebp =
     (if ebp = 0 then []
      else asc ''  ['' @ unsigned_text frame @ asc ''] 0x%08x'' @ [10] @ trace_text rd n (frame + 1) (the (rd ebp)))"

text \<open>The frame pointers and return addresses that are followed can be read.\<close>

fun trace_readable :: "(u32 \<Rightarrow> u32 option) \<Rightarrow> nat \<Rightarrow> u32 \<Rightarrow> bool" where
  "trace_readable rd 0 ebp \<longleftrightarrow> True"
| "trace_readable rd (Suc n) ebp \<longleftrightarrow> ebp = 0 \<or> rd (ebp + 4) \<noteq> None \<and> (\<exists>nxt. rd ebp = Some nxt \<and> trace_readable rd n nxt)"

lemma trace_text_end: "trace_text rd n frame 0 = []"
  by (cases n) simp_all

lemma trace_frames_say: "trace_readable rd n ebp \<Longrightarrow> trace_frames rd n frame ebp s = say (trace_text rd n frame ebp) s"
proof (induction n arbitrary: frame ebp s)
  case (Suc n)
  have "console_vprintf (asc ''  ['' @ 0x25 # 0x75 # (asc ''] 0x%08x'' @ [10]) @ [0]) [FInt frame, FInt eip]
      = Some (asc ''  ['' @ unsigned_text frame @ (asc ''] 0x%08x'' @ [10]) @ [])" for eip
  proof -
    have w: "console_vprintf ((asc ''] 0x%08x'' @ [10]) @ [0]) a = Some ((asc ''] 0x%08x'' @ [10]) @ [])" for a
      by (simp add: asc_def width_conv)
    show ?thesis by (intro console_vprintf_literal console_vprintf_conv [OF con_conv_unsigned] w) (simp add: asc_def)
  qed
  moreover have "asc ''  ['' @ 0x25 # 0x75 # (asc ''] 0x%08x'' @ [10]) @ [0] = (asc ''  [%u] 0x%08x'' @ [10]) @ [0]" by (simp add: asc_def)
  ultimately have p: "db_printf (asc ''  [%u] 0x%08x'' @ [10]) [FInt frame, FInt eip] = say (asc ''  ['' @ unsigned_text frame @ asc ''] 0x%08x'' @ [10])" for eip
    by (intro db_printf_say) (simp only: append_Nil2)
  show ?case
  proof (cases "ebp = 0")
    case True
    then show ?thesis by (simp add: say_nil)
  next
    case False
    then obtain eip nxt where r: "rd (ebp + 4) = Some eip" "rd ebp = Some nxt" "trace_readable rd n nxt" using Suc.prems by auto
    have e: "(if nxt = 0 then Some t else trace_frames rd n (frame + 1) nxt t) = say (trace_text rd n (frame + 1) nxt) t" for t
      using Suc.IH [OF r(3)] by (cases "nxt = 0") (simp_all add: trace_text_end say_nil)
    have "trace_frames rd (Suc n) frame ebp s = do { t \<leftarrow> say (asc ''  ['' @ unsigned_text frame @ asc ''] 0x%08x'' @ [10]) s;
        say (trace_text rd n (frame + 1) nxt) t }"
      using False r(1,2) by (simp add: p e)
    then show ?thesis using False r(2) by (simp add: say_append)
  qed
qed (simp add: say_nil)

definition stack_text :: "(u32 \<Rightarrow> u32 option) \<Rightarrow> u32 \<Rightarrow> u32 \<Rightarrow> cstr" where
  "stack_text rd ebp lv = own_text DEBUG_LEVEL_INFO lv ''debug_print_stack_trace'' 191 (asc ''Stack trace (max '' @ unsigned_text 16 @ asc '' frames):'')
     @ trace_text rd 16 0 ebp"

lemma stack_say: "trace_readable rd 16 ebp \<Longrightarrow> debug_print_stack_trace rd ebp 16 s = say (stack_text rd ebp (db_level s)) s"
proof -
  assume r: "trace_readable rd 16 ebp"
  have c: "cstr_ok (asc ''debug_print_stack_trace'')" and l: "(191 :: u32) < 0x80000000" by (simp_all add: cstr_ok_def asc_def)
  have "console_vprintf (asc ''Stack trace (max '' @ 0x25 # 0x75 # asc '' frames):'' @ [0]) [FInt 16]
      = Some (asc ''Stack trace (max '' @ unsigned_text 16 @ asc '' frames):'' @ [])"
    by (intro console_vprintf_literal console_vprintf_conv [OF con_conv_unsigned]) (simp_all add: asc_def)
  moreover have "asc ''Stack trace (max '' @ 0x25 # 0x75 # asc '' frames):'' @ [0] = asc ''Stack trace (max %u frames):'' @ [0]" by (simp add: asc_def)
  ultimately have f: "console_vprintf (asc ''Stack trace (max %u frames):'' @ [0]) [FInt 16]
      = Some (asc ''Stack trace (max '' @ unsigned_text 16 @ asc '' frames):'')" by simp
  have n: "unat (16 :: u32) = 16" by simp
  show ?thesis unfolding debug_print_stack_trace_def own_says(1) [OF c l f] n trace_frames_say [OF r] stack_text_def by (rule say_append)
qed

definition process_text :: "psys \<Rightarrow> u32 \<Rightarrow> cstr" where
  "process_text ps lv = own_text DEBUG_LEVEL_INFO lv ''debug_print_process_list'' 206 (asc ''Process List:'') @ asc ''PID'' @ [9] @ asc ''STATE'' @ [10]
     @ asc ''----------------'' @ [10]
     @ (case ps_procs ps (ps_current ps) of None \<Rightarrow> []
        | Some x \<Rightarrow> if ps_current ps = 0 then [] else unsigned_text (pr_pid x) @ [9] @ proc_state_name (pr_state x) @ [10])"

lemma process_say:
  assumes "ps_current ps = 0 \<or> (\<exists>x. ps_procs ps (ps_current ps) = Some x \<and> pr_pid x < 0x80000000)"
  shows "debug_print_process_list ps s = say (process_text ps (db_level s)) s"
proof -
  have c: "cstr_ok (asc ''debug_print_process_list'')" and l: "(206 :: u32) < 0x80000000" by (simp_all add: cstr_ok_def asc_def)
  have f: "console_vprintf (asc ''Process List:'' @ [0]) a = Some (asc ''Process List:'')"
    "console_vprintf ((asc ''PID'' @ [9] @ asc ''STATE'' @ [10]) @ [0]) a = Some (asc ''PID'' @ [9] @ asc ''STATE'' @ [10])"
    "console_vprintf ((asc ''----------------'' @ [10]) @ [0]) a = Some (asc ''----------------'' @ [10])" for a
    by (simp_all add: asc_def)
  have g: "db_printf (asc ''%d'' @ [9] @ asc ''%s'' @ [10]) [FInt (pr_pid x), FStr (proc_state_name (pr_state x) @ [0])]
      = say (unsigned_text (pr_pid x) @ [9] @ proc_state_name (pr_state x) @ [10])" if "pr_pid x < 0x80000000" for x :: process
  proof -
    have n: "cstr_ok (proc_state_name (pr_state x))" by (cases "pr_state x") (simp_all add: proc_state_name_def cstr_ok_def asc_def)
    have "console_vprintf (0x25 # 0x64 # [9] @ 0x25 # 0x73 # [10] @ [0]) [FInt (pr_pid x), FStr (proc_state_name (pr_state x) @ [0])]
        = Some (unsigned_text (pr_pid x) @ [9] @ proc_state_name (pr_state x) @ [10] @ [])"
      by (intro vprintf_rules that n) simp_all
    moreover have "0x25 # 0x64 # [9] @ 0x25 # 0x73 # [10] @ [0] = (asc ''%d'' @ [9] @ asc ''%s'' @ [10]) @ [0]" by (simp add: asc_def)
    ultimately show ?thesis by (intro db_printf_say) (simp only: append_Nil2)
  qed
  show ?thesis
  proof (cases "ps_current ps = 0")
    case True
    then have "process_text ps (db_level s) = own_text DEBUG_LEVEL_INFO (db_level s) ''debug_print_process_list'' 206 (asc ''Process List:'')
        @ asc ''PID'' @ [9] @ asc ''STATE'' @ [10] @ asc ''----------------'' @ [10]"
      by (simp add: process_text_def split: option.splits)
    then show ?thesis using True unfolding debug_print_process_list_def own_says(1) [OF c l f(1)] f(2,3) [THEN db_printf_say] process_current_def
      by (simp only: Let_def simp_thms if_True) (simp only: say_append_bind say_append append_assoc Option.bind_runit)
  next
    case False
    then obtain x where x: "ps_procs ps (ps_current ps) = Some x" "pr_pid x < 0x80000000" using assms by auto
    show ?thesis unfolding debug_print_process_list_def own_says(1) [OF c l f(1)] f(2,3) [THEN db_printf_say] process_current_def
      by (simp only: Let_def False if_False x(1) Option.bind_lunit g [OF x(2)] process_text_def option.case)
        (simp only: say_append_bind say_append append_assoc)
  qed
qed

definition help_lines :: cstr where
  "help_lines = asc ''Available debug commands:'' @ [10] @ asc ''  regs      - Show CPU registers'' @ [10]
     @ asc ''  ps        - Show process list'' @ [10] @ asc ''  stack     - Show stack trace'' @ [10] @ asc ''  memmap    - Show memory map'' @ [10]
     @ asc ''  loglevel N- Set log level (0-5)'' @ [10] @ asc ''  help      - Show this help'' @ [10]"

lemma help_say: "debug_help s = say help_lines s"
proof -
  have f: "console_vprintf ((asc ''Available debug commands:'' @ [10]) @ [0]) a = Some (asc ''Available debug commands:'' @ [10])"
    "console_vprintf ((asc ''  regs      - Show CPU registers'' @ [10]) @ [0]) a = Some (asc ''  regs      - Show CPU registers'' @ [10])"
    "console_vprintf ((asc ''  ps        - Show process list'' @ [10]) @ [0]) a = Some (asc ''  ps        - Show process list'' @ [10])"
    "console_vprintf ((asc ''  stack     - Show stack trace'' @ [10]) @ [0]) a = Some (asc ''  stack     - Show stack trace'' @ [10])"
    "console_vprintf ((asc ''  memmap    - Show memory map'' @ [10]) @ [0]) a = Some (asc ''  memmap    - Show memory map'' @ [10])"
    "console_vprintf ((asc ''  loglevel N- Set log level (0-5)'' @ [10]) @ [0]) a = Some (asc ''  loglevel N- Set log level (0-5)'' @ [10])"
    "console_vprintf ((asc ''  help      - Show this help'' @ [10]) @ [0]) a = Some (asc ''  help      - Show this help'' @ [10])" for a
    by (simp_all add: asc_def)
  show ?thesis unfolding debug_help_def f [THEN db_printf_say] by (simp only: say_append_bind say_append append_assoc help_lines_def)
qed

lemma sint_byte: "sint (b :: u8) = (if b < 128 then uint b else uint b - 256)"
proof -
  have u: "0 \<le> uint b" "uint b < 256" using uint_lt2p [of b] by simp_all
  have s: "sint (word_of_int i :: u8) = i" if "- 128 \<le> i" "i < 128" for i
    using that by (simp add: sint_sbintrunc' signed_take_bit_int_eq_self)
  show ?thesis
  proof (cases "b < 128")
    case True
    then have "uint b < 128" by (simp add: word_less_alt)
    then show ?thesis using s [of "uint b"] u True by simp
  next
    case False
    then have "128 \<le> uint b" by (simp add: word_less_alt)
    then have "sint (word_of_int (uint b - 256) :: u8) = uint b - 256" using u by (intro s) simp_all
    moreover have w: "word_of_int (uint b - 256) = b" by simp
    ultimately have "sint b = uint b - 256" by (simp only: w)
    then show ?thesis using False by simp
  qed
qed

definition level_digit :: "u8 \<Rightarrow> bool" where "level_digit b \<longleftrightarrow> 48 \<le> b \<and> b \<le> 53"

lemma level_of_digit:
  "uint DEBUG_LEVEL_TRACE \<le> sint b - 48 \<and> sint b - 48 < uint DEBUG_LEVEL_NONE \<longleftrightarrow> level_digit b"
  "level_digit b \<Longrightarrow> word_of_int (sint b - 48) = (ucast b - 48 :: u32)"
proof -
  obtain i where i: "i = uint b" by blast
  have u: "0 \<le> i" "i < 256" using uint_lt2p [of b] i by simp_all
  have l: "level_digit b \<longleftrightarrow> 48 \<le> i \<and> i \<le> 53" by (simp add: level_digit_def word_le_def i)
  have "sint b = (if i < 128 then i else i - 256)" by (simp add: sint_byte i word_less_alt)
  moreover have "uint DEBUG_LEVEL_TRACE = 0" "uint DEBUG_LEVEL_NONE = 6" by (simp_all add: levels)
  ultimately show "uint DEBUG_LEVEL_TRACE \<le> sint b - 48 \<and> sint b - 48 < uint DEBUG_LEVEL_NONE \<longleftrightarrow> level_digit b"
    using u unfolding l by auto
  assume d: "level_digit b"
  then have "48 \<le> i" "i \<le> 53" by (simp_all add: l)
  then have "sint b = uint b" by (simp add: sint_byte word_less_alt i)
  moreover have "(ucast b :: u32) = word_of_int (uint b)" by (simp only: ucast_eq)
  ultimately show "word_of_int (sint b - 48) = (ucast b - 48 :: u32)" by (simp only: of_int_diff of_int_numeral)
qed

text \<open>The level after a command and what the command prints.\<close>

definition loglevel_answer :: "cstr \<Rightarrow> u32 \<Rightarrow> u32 \<times> cstr" where
  "loglevel_answer c lv = (let d = (c @ [0]) ! 9; l = ucast d - 48 in
     if level_digit d then (l, own_text DEBUG_LEVEL_INFO l ''debug_command'' 254 (asc ''Log level set to '' @ unsigned_text l))
     else (lv, own_text DEBUG_LEVEL_ERROR lv ''debug_command'' 256 (asc ''Invalid log level. Use 0-5 (0=trace, 5=none)'')))"

definition has_prefix :: "cstr \<Rightarrow> string \<Rightarrow> bool" where "has_prefix c t \<longleftrightarrow> take (length t) c = asc t"

definition command_answer :: "(u32 \<Rightarrow> u32 option) \<Rightarrow> u32 \<Rightarrow> psys \<Rightarrow> cstr \<Rightarrow> u32 \<Rightarrow> u32 \<times> cstr" where
  "command_answer rd ebp ps c lv =
     (if has_prefix c ''regs'' then (lv, registers_text lv)
      else if has_prefix c ''ps'' then (lv, process_text ps lv)
      else if has_prefix c ''stack'' then (lv, stack_text rd ebp lv)
      else if has_prefix c ''memmap'' then (lv, memory_map_text lv)
      else if has_prefix c ''loglevel '' then loglevel_answer c lv
      else if c = asc ''help'' then (lv, help_lines)
      else (lv, own_text DEBUG_LEVEL_ERROR lv ''debug_command'' 267
        (asc ''Unknown debug command: '' @ c @ asc '' (type 'help' for available commands)'')))"

lemma starts_prefix: "cstr_ok c \<Longrightarrow> cstr_ok (asc t) \<Longrightarrow> starts (c @ 0 # r) t = Some (has_prefix c t)"
proof -
  assume "cstr_ok c" "cstr_ok (asc t)"
  then obtain v where v: "k_strncmp (c @ 0 # r) (asc t @ 0 # []) (length t) = Some v" "v = 0 \<longleftrightarrow> take (length t) c = take (length t) (asc t)"
    using k_strncmp_spec by blast
  have "take (length t) (asc t) = asc t" by (simp add: asc_def)
  then show ?thesis using v by (simp add: starts_def has_prefix_def)
qed

text \<open>The command \<open>a\<close> prints \<open>snd a\<close> and leaves the level \<open>fst a\<close>.\<close>

definition answers :: "u32 \<times> cstr \<Rightarrow> dbg \<Rightarrow> dbg option" where
  "answers a s = say (snd a) (s\<lparr>db_level := fst a\<rparr>)"

lemma answers_same: "answers (db_level s, t) s = say t s"
  by (simp add: answers_def)

lemma loglevel_answers:
  assumes "has_prefix c ''loglevel ''"
  shows "debug_loglevel (c @ 0 # r) s = answers (loglevel_answer c (db_level s)) s"
proof -
  have "length (take (length ''loglevel '') c) = length (asc ''loglevel '')" using assms by (simp only: has_prefix_def)
  then have "min (length c) 9 = 9" by (simp add: asc_def)
  then have n: "9 \<le> length c" by linarith
  then have d: "(c @ 0 # r) ! 9 = (c @ [0]) ! 9" by (auto simp: nth_append)
  obtain b where b: "b = (c @ [0]) ! 9" by blast
  let ?l = "ucast b - 48 :: u32"
  have c: "cstr_ok (asc ''debug_command'')" and l: "(254 :: u32) < 0x80000000" "(256 :: u32) < 0x80000000" by (simp_all add: cstr_ok_def asc_def)
  have fe: "console_vprintf (asc ''Invalid log level. Use 0-5 (0=trace, 5=none)'' @ [0]) [] = Some (asc ''Invalid log level. Use 0-5 (0=trace, 5=none)'')"
    by (simp add: asc_def)
  have fi: "console_vprintf (asc ''Log level set to %d'' @ [0]) [FInt v] = Some (asc ''Log level set to '' @ unsigned_text v)" if "v < 0x80000000" for v
  proof -
    have "console_vprintf (asc ''Log level set to '' @ 0x25 # 0x64 # [0]) [FInt v] = Some (asc ''Log level set to '' @ unsigned_text v @ [])"
      by (intro vprintf_rules that) (simp_all add: asc_def)
    moreover have "asc ''Log level set to '' @ 0x25 # 0x64 # [0] = asc ''Log level set to %d'' @ [0]" by (simp add: asc_def)
    ultimately show ?thesis by (simp only: append_Nil2)
  qed
  show ?thesis
  proof (cases "level_digit b")
    case True
    have u: "unat b \<le> 53" "48 \<le> unat b" using True by (simp_all add: level_digit_def word_le_nat_alt)
    have ub: "unat (ucast b :: u32) = unat b" using u(1) by (simp add: unsigned_ucast_eq take_bit_nat_eq_self_iff)
    have le: "48 \<le> (ucast b :: u32)" using u ub by (simp add: word_le_nat_alt)
    have ul: "unat ?l = unat b - 48" using le ub by (simp add: unat_sub)
    then have "?l < 0x80000000" using u by (simp add: word_less_nat_alt)
    note f = fi [OF this]
    have st: "debug_set_level ?l s = s\<lparr>db_level := ?l\<rparr>" using u ul by (simp add: debug_set_level_def levels word_le_nat_alt)
    have "debug_loglevel (c @ 0 # r) s = DEBUG_INFO ''debug_command'' 254 ''Log level set to %d'' [FInt ?l] (s\<lparr>db_level := ?l\<rparr>)"
      using n True level_of_digit(1) [of b] level_of_digit(2) [OF True] by (simp add: debug_loglevel_def d b [symmetric] Let_def st)
    then show ?thesis using True by (simp add: own_says(1) [OF c l(1) f] loglevel_answer_def b [symmetric] Let_def answers_def)
  next
    case False
    have "debug_loglevel (c @ 0 # r) s = DEBUG_ERROR ''debug_command'' 256 ''Invalid log level. Use 0-5 (0=trace, 5=none)'' [] s"
      using n False level_of_digit(1) [of b] by (simp only: debug_loglevel_def d b [symmetric] Let_def if_False) (simp add: not_le)
    then show ?thesis using False by (simp add: own_says(2) [OF c l(2) fe] loglevel_answer_def b [symmetric] Let_def answers_def)
  qed
qed

lemma command_answers:
  assumes c: "cstr_ok c" and t: "trace_readable rd 16 ebp"
    and p: "ps_current ps = 0 \<or> (\<exists>x. ps_procs ps (ps_current ps) = Some x \<and> pr_pid x < 0x80000000)"
  shows "debug_command x rd ebp ps (c @ 0 # r) s = answers (command_answer rd ebp ps c (db_level s)) s"
proof -
  have ok: "cstr_ok (asc ''regs'')" "cstr_ok (asc ''ps'')" "cstr_ok (asc ''stack'')" "cstr_ok (asc ''memmap'')" "cstr_ok (asc ''loglevel '')"
    "cstr_ok (asc ''help'')" by (simp_all add: cstr_ok_def asc_def)
  note s1 = ok(1-5) [THEN starts_prefix [OF c], of r]
  obtain v where v: "k_strcmp (c @ 0 # r) (asc ''help'' @ 0 # []) = Some v" "v = 0 \<longleftrightarrow> c = asc ''help''"
    using k_strcmp_spec [OF c ok(6)] by blast
  have fc: "cstr_ok (asc ''debug_command'')" and l: "(267 :: u32) < 0x80000000" by (simp_all add: cstr_ok_def asc_def)
  have cs: "con_conv 0x73 (FStr (c @ 0 # r) # as) = Some (as, c)" for as
  proof -
    have "\<forall>d\<in>set c. d \<noteq> 0" using c by (auto simp: cstr_ok_def)
    then have "takeWhile (\<lambda>d. d \<noteq> 0) (c @ 0 # r) = c" by (induction c) auto
    then show ?thesis by (simp add: con_conv_def cstring_def cstr_at_def)
  qed
  have "console_vprintf (asc ''Unknown debug command: '' @ 0x25 # 0x73 # asc '' (type 'help' for available commands)'' @ [0]) [FStr (c @ 0 # r)]
      = Some (asc ''Unknown debug command: '' @ c @ asc '' (type 'help' for available commands)'' @ [])"
    by (intro console_vprintf_literal console_vprintf_conv [OF cs]) (simp_all add: asc_def)
  moreover have "asc ''Unknown debug command: '' @ 0x25 # 0x73 # asc '' (type 'help' for available commands)'' @ [0]
      = asc ''Unknown debug command: %s (type 'help' for available commands)'' @ [0]" by (simp add: asc_def)
  ultimately have f: "console_vprintf (asc ''Unknown debug command: %s (type 'help' for available commands)'' @ [0]) [FStr (c @ 0 # r)]
      = Some (asc ''Unknown debug command: '' @ c @ asc '' (type 'help' for available commands)'')" by (simp only: append_Nil2)
  note e = own_says(2) [OF fc l f, of s]
  show ?thesis
    unfolding debug_command_def s1 v(1) Option.bind_lunit command_answer_def v(2) e
    by (simp only: registers_say process_say [OF p] stack_say [OF t] memory_map_say help_say loglevel_answers
        answers_same if_distrib [of "\<lambda>a. answers a s"] cong: if_cong)
qed

subsection \<open>Dumps of memory\<close>

definition shown :: "u8 \<Rightarrow> u8" where "shown c = (if 32 \<le> c \<and> c \<le> 126 then c else 46)"

definition row_text :: "u8 list \<Rightarrow> cstr" where
  "row_text row = asc ''0x%08x: '' @ concat (map (\<lambda>j. (if j < length row then asc ''%02x '' else asc ''   '') @ (if j = 7 then asc '' '' else [])) [0..<16])
     @ asc '' |'' @ map shown row @ asc ''|'' @ [10]"

lemma for_loop_say: "(\<And>j s. i \<le> j \<Longrightarrow> j < i + n \<Longrightarrow> f j s = say (t j) s) \<Longrightarrow> for_loop i n f s = say (concat (map t [i..<i + n])) s"
proof (induction n arbitrary: i s)
  case (Suc n)
  have "for_loop (Suc i) n f u = say (concat (map t [Suc i..<Suc i + n])) u" for u by (rule Suc.IH) (use Suc.prems in auto)
  then have l: "for_loop (Suc i) n f = say (concat (map t [Suc i..<Suc i + n]))" by (rule ext)
  have f: "f i s = say (t i) s" using Suc.prems by simp
  have u: "[i..<i + Suc n] = i # [Suc i..<Suc i + n]" by (simp add: upt_conv_Cons)
  show ?case unfolding for_loop.simps l f u say_append by simp
qed (simp add: say_nil)

lemma dump_row_say: "dump_row a row s = say (row_text row) s"
proof -
  have f: "console_vprintf (asc ''0x%08x: '' @ [0]) as = Some (asc ''0x%08x: '')" "console_vprintf (asc ''%02x '' @ [0]) as = Some (asc ''%02x '')"
    "console_vprintf (asc ''   '' @ [0]) as = Some (asc ''   '')" "console_vprintf (asc '' '' @ [0]) as = Some (asc '' '')"
    "console_vprintf (asc '' |'' @ [0]) as = Some (asc '' |'')" "console_vprintf (asc ''.'' @ [0]) as = Some [46]"
    "console_vprintf ((asc ''|'' @ [10]) @ [0]) as = Some (asc ''|'' @ [10])" for as
    by (simp_all add: asc_def width_conv)
  have g: "console_vprintf (asc ''%c'' @ [0]) [FInt (ucast c)] = Some [c]" for c :: u8
  proof -
    have "ucast (ucast c :: u32) = c" by (rule bit_word_eqI) (auto simp: bit_simps)
    then show ?thesis by (simp add: asc_def con_conv_def)
  qed
  note p = f [THEN db_printf_say] g [THEN db_printf_say]
  have h: "(do { t \<leftarrow> (if j < length row then db_printf (asc ''%02x '') [FInt (ucast (row ! j))] s else db_printf (asc ''   '') [] s);
         if j = 7 then db_printf (asc '' '') [] t else Some t })
      = say ((if j < length row then asc ''%02x '' else asc ''   '') @ (if j = 7 then asc '' '' else [])) s" for j s
    by (cases "j < length row"; cases "j = 7") (simp_all only: p say_append if_True if_False simp_thms append_Nil2 Option.bind_runit)
  have k: "(let c = row ! j in if 32 \<le> c \<and> c \<le> 126 then db_printf (asc ''%c'') [FInt (ucast c)] s else db_printf (asc ''.'') [] s)
      = say [shown (row ! j)] s" for j s
    by (simp only: p Let_def shown_def if_distrib [of "\<lambda>x. say [x] s"])
  have m: "concat (map (\<lambda>j. [shown (row ! j)]) [0..<0 + length row]) = map shown row"
    unfolding concat_map_singleton add_0 by (rule nth_equalityI) simp_all
  have "for_loop 0 (length row) (\<lambda>j s. let c = row ! j in
         if 32 \<le> c \<and> c \<le> 126 then db_printf (asc ''%c'') [FInt (ucast c)] s else db_printf (asc ''.'') [] s) s = say (map shown row) s" for s
    unfolding m [symmetric] by (rule for_loop_say) (rule k)
  moreover have "for_loop 0 16 (\<lambda>j s. do { t \<leftarrow> (if j < length row then db_printf (asc ''%02x '') [FInt (ucast (row ! j))] s else db_printf (asc ''   '') [] s);
         if j = 7 then db_printf (asc '' '') [] t else Some t }) s
      = say (concat (map (\<lambda>j. (if j < length row then asc ''%02x '' else asc ''   '') @ (if j = 7 then asc '' '' else [])) [0..<0 + 16])) s" for s
    by (rule for_loop_say) (rule h)
  ultimately show ?thesis unfolding dump_row_def p by (simp only: say_append_bind say_append append_assoc row_text_def add_0)
qed

fun rows_text :: "nat \<Rightarrow> u8 list \<Rightarrow> cstr" where
  "rows_text 0 mem = []"
| "rows_text (Suc n) mem = row_text (take 16 mem) @ rows_text n (drop 16 mem)"

lemma dump_rows_say: "length mem \<le> 16 * n \<Longrightarrow> 16 * n < length mem + 16 \<Longrightarrow> dump_rows a mem s = say (rows_text n mem) s"
proof (induction n arbitrary: a mem s)
  case (Suc n)
  have e: "dump_rows (a + 16) (drop 16 mem) t = say (rows_text n (drop 16 mem)) t" for t
  proof (cases "length mem \<le> 16")
    case True
    then have "n = 0" using Suc.prems(2) by simp
    then show ?thesis using True by (simp add: say_nil dump_rows.simps)
  next
    case False
    then show ?thesis using Suc.prems by (intro Suc.IH) simp_all
  qed
  then have "dump_rows (a + 16) (drop 16 mem) = say (rows_text n (drop 16 mem))" by (rule ext)
  moreover have "mem \<noteq> []" using Suc.prems(2) by auto
  ultimately show ?case by (subst dump_rows.simps) (simp add: dump_row_say say_append)
qed (simp add: say_nil dump_rows.simps)

definition dump_text :: "u32 \<Rightarrow> u8 list \<Rightarrow> cstr option \<Rightarrow> cstr" where
  "dump_text lv mem desc = (case desc of
       Some d \<Rightarrow> own_text DEBUG_LEVEL_INFO lv ''debug_dump_memory'' 86 (asc ''Memory Dump ('' @ d @ asc ''):'')
     | None \<Rightarrow> own_text DEBUG_LEVEL_INFO lv ''debug_dump_memory'' 88 (asc ''Memory Dump:''))
     @ rows_text ((length mem + 15) div 16) mem"

lemma dump_says:
  assumes "length mem \<le> 0xFFFFFFF0" and "\<forall>d. desc = Some d \<longrightarrow> cstr_ok d"
  shows "debug_dump_memory a mem desc s = say (dump_text (db_level s) mem desc) s"
proof -
  have c: "cstr_ok (asc ''debug_dump_memory'')" and l: "(86 :: u32) < 0x80000000" "(88 :: u32) < 0x80000000" by (simp_all add: cstr_ok_def asc_def)
  have f: "console_vprintf (asc ''Memory Dump:'' @ [0]) [] = Some (asc ''Memory Dump:'')" by (simp add: asc_def)
  have g: "console_vprintf (asc ''Memory Dump (%s):'' @ [0]) [FStr (d @ [0])] = Some (asc ''Memory Dump ('' @ d @ asc ''):'')" if "cstr_ok d" for d
  proof -
    have "console_vprintf (asc ''Memory Dump ('' @ 0x25 # 0x73 # asc ''):'' @ [0]) [FStr (d @ [0])] = Some (asc ''Memory Dump ('' @ d @ asc ''):'' @ [])"
      by (intro vprintf_rules that) (simp_all add: asc_def)
    moreover have "asc ''Memory Dump ('' @ 0x25 # 0x73 # asc ''):'' @ [0] = asc ''Memory Dump (%s):'' @ [0]" by (simp add: asc_def)
    ultimately show ?thesis by (simp only: append_Nil2)
  qed
  have "length mem \<le> 16 * ((length mem + 15) div 16)" "16 * ((length mem + 15) div 16) < length mem + 16" by linarith+
  note r = dump_rows_say [OF this]
  have n: "\<not> 0xFFFFFFF0 < length mem" using assms(1) by simp
  show ?thesis
  proof (cases desc)
    case None
    show ?thesis unfolding debug_dump_memory_def None option.case own_says(1) [OF c l(2) f] using n
      by (simp only: if_False r say_append dump_text_def option.case)
  next
    case (Some d)
    then have "cstr_ok d" using assms(2) by simp
    note g = g [OF this]
    show ?thesis unfolding debug_dump_memory_def Some option.case own_says(1) [OF c l(1) g] using n
      by (simp only: if_False r say_append dump_text_def option.case)
  qed
qed

text \<open>C39.  The dumps show no numbers.  The console knows no field width, so the register dump prints its formats and is the
  same whatever the registers hold; in a dump of memory the addresses and bytes appear as formats, only the column of
  characters depends on the memory.  Both leave the level alone.\<close>

theorem dumps_show_no_numbers:
  assumes "shows_paper (db_con s) p" and "length mem \<le> 0xFFFFFFF0" and "cstr_ok d"
  shows "\<exists>t u. debug_print_registers x s = Some t \<and> debug_print_registers y s = Some t \<and> db_level t = db_level s
    \<and> shows_paper (db_con t) (type_text (co_attr (db_con s)) (registers_text (db_level s)) p)
    \<and> debug_dump_memory a mem (Some d) s = Some u \<and> debug_dump_memory b mem (Some d) s = Some u \<and> db_level u = db_level s
    \<and> shows_paper (db_con u) (type_text (co_attr (db_con s)) (dump_text (db_level s) mem (Some d)) p)"
proof -
  have "\<exists>u. say t s = Some u \<and> db_level u = db_level s \<and> shows_paper (db_con u) (type_text (co_attr (db_con s)) t p)" for t
    using console_puts_refines [OF assms(1), of t] by (auto simp: say_def)
  moreover have "debug_dump_memory a mem (Some d) s = say (dump_text (db_level s) mem (Some d)) s" for a
    using assms(2,3) by (intro dump_says) simp_all
  ultimately show ?thesis unfolding registers_say by metis
qed

text \<open>C38.  A debug command is known by its first letters (help by all of them).  It always returns, prints exactly the
  answer to it, below what is in the console's text memory, and only \<^verbatim>\<open>loglevel\<close> changes the level, to the digit from 0 to 5 that
  follows; no command can reach the level 6 that silences the messages.\<close>

theorem debug_command_answers:
  assumes "shows_paper (db_con s) p" and "cstr_ok c" and "trace_readable rd 16 ebp"
    and "ps_current ps = 0 \<or> (\<exists>x. ps_procs ps (ps_current ps) = Some x \<and> pr_pid x < 0x80000000)"
  shows "\<exists>t. debug_command x rd ebp ps (c @ 0 # r) s = Some t
    \<and> db_level t = fst (command_answer rd ebp ps c (db_level s))
    \<and> (db_level t = db_level s \<or> has_prefix c ''loglevel '' \<and> db_level t \<le> DEBUG_LEVEL_FATAL)
    \<and> shows_paper (db_con t) (type_text (co_attr (db_con s)) (snd (command_answer rd ebp ps c (db_level s))) p)"
proof -
  let ?a = "command_answer rd ebp ps c (db_level s)"
  obtain u where u: "console_puts (snd ?a) (db_con s) = Some u" "shows_paper u (type_text (co_attr (db_con s)) (snd ?a) p)"
    using console_puts_refines [OF assms(1), of "snd ?a"] by blast
  have lv: "fst ?a = db_level s \<or> has_prefix c ''loglevel '' \<and> fst ?a \<le> DEBUG_LEVEL_FATAL"
  proof (cases "has_prefix c ''loglevel '' \<and> level_digit ((c @ [0]) ! 9)")
    case True
    obtain b where b: "b = (c @ [0]) ! 9" by blast
    have v: "48 \<le> unat b" "unat b \<le> 53" using True by (simp_all add: b [symmetric] level_digit_def word_le_nat_alt)
    have ub: "unat (ucast b :: u32) = unat b" using v by (simp add: unsigned_ucast_eq take_bit_nat_eq_self_iff)
    have "48 \<le> (ucast b :: u32)" using v ub by (simp add: word_le_nat_alt)
    then have "unat (ucast b - 48 :: u32) \<le> 5" using v ub by (simp add: unat_sub)
    then have "ucast b - 48 \<le> DEBUG_LEVEL_FATAL" by (simp add: levels word_le_nat_alt)
    then show ?thesis using True by (simp add: command_answer_def loglevel_answer_def Let_def b)
  next
    case False
    then show ?thesis by (auto simp: command_answer_def loglevel_answer_def Let_def)
  qed
  have "debug_command x rd ebp ps (c @ 0 # r) s = Some (s\<lparr>db_level := fst ?a, db_con := u\<rparr>)"
    using u(1) by (simp add: command_answers [OF assms(2-4)] answers_def say_def)
  then show ?thesis using u(2) lv by simp
qed

definition demo_dbg :: dbg where
  "demo_dbg = \<lparr>db_level = 2, db_con = \<lparr>co_vga = replicate 2000 (vga_cell 7 32), co_x = 0, co_y = 0, co_attr = 7\<rparr>\<rparr>"

lemma demo_dbg_paper: "shows_paper (db_con demo_dbg) ([], blank_line 7, 0)"
  by (rule cleared_shows_paper) (simp_all add: demo_dbg_def)

lemma dumps_show_no_numbers_witness:
  "\<forall>x y. \<exists>t u. debug_print_registers x demo_dbg = Some t \<and> debug_print_registers y demo_dbg = Some t
    \<and> debug_dump_memory 0x1000 [1, 2, 65] (Some (asc ''x'')) demo_dbg = Some u
    \<and> debug_dump_memory 0x2000 [1, 2, 65] (Some (asc ''x'')) demo_dbg = Some u"
proof (intro allI)
  fix x y :: dregs
  have "cstr_ok (asc ''x'')" by (simp add: cstr_ok_def asc_def)
  then show "\<exists>t u. debug_print_registers x demo_dbg = Some t \<and> debug_print_registers y demo_dbg = Some t
    \<and> debug_dump_memory 0x1000 [1, 2, 65] (Some (asc ''x'')) demo_dbg = Some u
    \<and> debug_dump_memory 0x2000 [1, 2, 65] (Some (asc ''x'')) demo_dbg = Some u"
    using dumps_show_no_numbers [OF demo_dbg_paper, of "[1, 2, 65]" "asc ''x''" x y "0x1000" "0x2000"] by auto
qed

lemma debug_command_answers_witness:
  "\<forall>x. \<exists>t. debug_command x (\<lambda>_. None) 0 demo_ps (asc ''loglevel 4'' @ [0]) demo_dbg = Some t \<and> db_level t = 4"
proof
  fix x :: dregs
  have c: "cstr_ok (asc ''loglevel 4'')" by (simp add: cstr_ok_def asc_def)
  have t: "trace_readable (\<lambda>_. None) 16 0" by (simp add: numeral_eq_Suc)
  have p: "ps_current demo_ps = 0 \<or> (\<exists>x. ps_procs demo_ps (ps_current demo_ps) = Some x \<and> pr_pid x < 0x80000000)"
    using demo_ps_ok(5,6) by simp
  have a: "fst (command_answer (\<lambda>_. None) 0 demo_ps (asc ''loglevel 4'') (db_level demo_dbg)) = 4"
    by (simp add: command_answer_def loglevel_answer_def has_prefix_def asc_def Let_def level_digit_def)
  show "\<exists>t. debug_command x (\<lambda>_. None) 0 demo_ps (asc ''loglevel 4'' @ [0]) demo_dbg = Some t \<and> db_level t = 4" using debug_command_answers [OF demo_dbg_paper c t p, of x "[]"] unfolding a by auto
qed

end
