(* ===== verification/FdTable.thy ===== *)
theory FdTable
  imports KHeap
begin

text \<open>
  \<^verbatim>\<open>kernel/fs.c\<close> and \<^verbatim>\<open>include/kernel/fs.h\<close>: the table of 32 open files, the list of registered file
  systems and the operations on them.

  A \<^verbatim>\<open>struct file\<close> is a heap object (\<open>fd_files\<close>, with the allocator's state \<open>fd_heap\<close>), a table entry is its
  address or 0.  The list of file systems runs through the \<^verbatim>\<open>next\<close> members of structures the callers
  own (\<open>fd_types\<close>).  The function tables that \<^verbatim>\<open>f_ops\<close> points to belong to file systems that the
  repository does not contain: they are the parameter \<open>ops\<close> of the operations that call them.  Names
  are compared as strings; console output is left out.
\<close>

subsection \<open>State\<close>

record kfile =
  kf_fd :: int
  kf_flags :: int
  kf_pos :: int
  kf_inode :: addr
  kf_ops :: addr

definition kfile0 :: kfile where
  "kfile0 = \<lparr>kf_fd = 0, kf_flags = 0, kf_pos = 0, kf_inode = 0, kf_ops = 0\<rparr>"

definition KFILE_SIZE :: u32 where "KFILE_SIZE = 20"

record fs_type =
  ft_name :: "cstr option"
  ft_mount :: addr
  ft_next :: addr

definition NR_OPEN_DEFAULT :: nat where "NR_OPEN_DEFAULT = 32"

record fdstate =
  fd_heap :: kheap
  fd_files :: "addr \<rightharpoonup> kfile"
  fd_table :: "addr list"
  fd_types :: "addr \<rightharpoonup> fs_type"
  fd_systems :: addr

text \<open>\<^verbatim>\<open>struct file_ops\<close>: \<open>None\<close> is a null function pointer, a call that does not return is \<open>None\<close> inside.\<close>

record file_ops =
  op_read :: "(addr \<Rightarrow> u32 \<Rightarrow> fdstate \<Rightarrow> (int \<times> u8 list \<times> fdstate) option) option"
  op_write :: "(addr \<Rightarrow> u8 list \<Rightarrow> fdstate \<Rightarrow> (int \<times> fdstate) option) option"
  op_release :: "(addr \<Rightarrow> addr \<Rightarrow> fdstate \<Rightarrow> fdstate option) option"
  op_llseek :: "(addr \<Rightarrow> int \<Rightarrow> int \<Rightarrow> fdstate \<Rightarrow> (int \<times> fdstate) option) option"

definition fs_init :: "fdstate \<Rightarrow> fdstate" where
  "fs_init s = s\<lparr>fd_table := replicate NR_OPEN_DEFAULT 0\<rparr>"

subsection \<open>Registered file systems\<close>

definition register_filesystem :: "addr \<Rightarrow> fdstate \<Rightarrow> (int \<times> fdstate) option" where
  "register_filesystem fs s =
     (if fs = 0 then Some (-1, s)
      else do {
        t \<leftarrow> fd_types s fs;
        if ft_name t = None \<or> ft_mount t = 0 then Some (-1, s)
        else Some (0, s\<lparr>fd_types := (fd_types s)(fs \<mapsto> t\<lparr>ft_next := fd_systems s\<rparr>), fd_systems := fs\<rparr>) })"

text \<open>\<open>slot\<close> is \<^verbatim>\<open>fs_ptr\<close>: the list head (0) or the \<^verbatim>\<open>next\<close> member of a structure.\<close>

partial_function (option) unregister_loop :: "addr \<Rightarrow> addr \<Rightarrow> fdstate \<Rightarrow> (int \<times> fdstate) option" where
  "unregister_loop fs slot s = do {
     cur \<leftarrow> (if slot = 0 then Some (fd_systems s) else map_option ft_next (fd_types s slot));
     if cur = 0 then Some (-1, s)
     else if cur = fs then do {
       t \<leftarrow> fd_types s fs;
       (if slot = 0 then Some (0, s\<lparr>fd_systems := ft_next t\<rparr>)
        else do {
          q \<leftarrow> fd_types s slot;
          Some (0, s\<lparr>fd_types := (fd_types s)(slot \<mapsto> q\<lparr>ft_next := ft_next t\<rparr>)\<rparr>) }) }
     else unregister_loop fs cur s }"

definition unregister_filesystem :: "addr \<Rightarrow> fdstate \<Rightarrow> (int \<times> fdstate) option" where
  "unregister_filesystem fs s = (if fs = 0 then Some (-1, s) else unregister_loop fs 0 s)"

partial_function (option) fs_type_walk :: "fdstate \<Rightarrow> cstr \<Rightarrow> addr \<Rightarrow> addr option" where
  "fs_type_walk s name fs =
     (if fs = 0 then Some 0
      else do {
        t \<leftarrow> fd_types s fs;
        n \<leftarrow> ft_name t;
        if n = name then Some fs else fs_type_walk s name (ft_next t) })"

definition get_fs_type :: "cstr \<Rightarrow> fdstate \<Rightarrow> addr option" where
  "get_fs_type name s = fs_type_walk s name (fd_systems s)"

subsection \<open>Descriptors\<close>

fun unused_from :: "addr list \<Rightarrow> nat \<Rightarrow> int" where
  "unused_from [] i = -1"
| "unused_from (p # ps) i = (if p = 0 then int i else unused_from ps (Suc i))"

definition get_unused_fd :: "fdstate \<Rightarrow> int" where
  "get_unused_fd s = unused_from (fd_table s) 0"

definition fd_out_of_range :: "int \<Rightarrow> bool" where
  "fd_out_of_range fd \<longleftrightarrow> fd < 0 \<or> int NR_OPEN_DEFAULT \<le> fd"

definition put_fd :: "nat \<Rightarrow> addr \<Rightarrow> fdstate \<Rightarrow> fdstate" where
  "put_fd i p s = s\<lparr>fd_table := (fd_table s)[i := p]\<rparr>"

definition fd_install :: "int \<Rightarrow> addr \<Rightarrow> fdstate \<Rightarrow> int \<times> fdstate" where
  "fd_install fd f s =
     (if fd_out_of_range fd then (-1, s)
      else if fd_table s ! nat fd \<noteq> 0 then (-1, s)
      else (0, put_fd (nat fd) f s))"

definition fget :: "int \<Rightarrow> fdstate \<Rightarrow> addr" where
  "fget fd s = (if fd_out_of_range fd then 0 else fd_table s ! nat fd)"

definition free_file :: "addr \<Rightarrow> fdstate \<Rightarrow> fdstate option" where
  "free_file f s = do { h \<leftarrow> kfree f (fd_heap s); Some (s\<lparr>fd_heap := h, fd_files := (fd_files s)(f := None)\<rparr>) }"

definition fput :: "(addr \<Rightarrow> file_ops option) \<Rightarrow> addr \<Rightarrow> fdstate \<Rightarrow> (int \<times> fdstate) option" where
  "fput ops f s =
     (if f = 0 then Some (-1, s)
      else do {
        x \<leftarrow> fd_files s f;
        s1 \<leftarrow> (if kf_ops x = 0 then Some s
           else do {
             o' \<leftarrow> ops (kf_ops x);
             (case op_release o' of None \<Rightarrow> Some s | Some r \<Rightarrow> r (kf_inode x) f s) });
        s2 \<leftarrow> free_file f s1;
        Some (0, s2) })"

definition fs_sys_close :: "(addr \<Rightarrow> file_ops option) \<Rightarrow> int \<Rightarrow> fdstate \<Rightarrow> (int \<times> fdstate) option" where
  "fs_sys_close ops fd s =
     (if fd_out_of_range fd then Some (-1, s)
      else
        let f = fd_table s ! nat fd in
        if f = 0 then Some (-1, s) else fput ops f (put_fd (nat fd) 0 s))"

definition fs_sys_read :: "(addr \<Rightarrow> file_ops option) \<Rightarrow> int \<Rightarrow> bool \<Rightarrow> u32 \<Rightarrow> fdstate \<Rightarrow> (int \<times> u8 list \<times> fdstate) option" where
  "fs_sys_read ops fd buf count s =
     (if fd_out_of_range fd \<or> fd_table s ! nat fd = 0 \<or> \<not> buf then Some (-1, [], s)
      else do {
        x \<leftarrow> fd_files s (fd_table s ! nat fd);
        if kf_ops x = 0 then Some (-1, [], s)
        else do {
          o' \<leftarrow> ops (kf_ops x);
          (case op_read o' of None \<Rightarrow> Some (-1, [], s) | Some r \<Rightarrow> r (fd_table s ! nat fd) count s) } })"

text \<open>\<open>buf\<close> is the bytes the pointer designates, \<open>None\<close> for null.\<close>

definition fs_sys_write :: "(addr \<Rightarrow> file_ops option) \<Rightarrow> int \<Rightarrow> u8 list option \<Rightarrow> u32 \<Rightarrow> fdstate \<Rightarrow> (int \<times> fdstate) option" where
  "fs_sys_write ops fd buf count s =
     (if fd_out_of_range fd \<or> fd_table s ! nat fd = 0 then Some (-1, s)
      else (case buf of
          None \<Rightarrow> Some (-1, s)
        | Some mem \<Rightarrow> do {
            x \<leftarrow> fd_files s (fd_table s ! nat fd);
            if kf_ops x = 0 then Some (-1, s)
            else do {
              o' \<leftarrow> ops (kf_ops x);
              (case op_write o' of None \<Rightarrow> Some (-1, s)
               | Some w \<Rightarrow> w (fd_table s ! nat fd) (take (unat count) mem) s) } }))"

definition fs_sys_lseek :: "(addr \<Rightarrow> file_ops option) \<Rightarrow> int \<Rightarrow> int \<Rightarrow> int \<Rightarrow> fdstate \<Rightarrow> (int \<times> fdstate) option" where
  "fs_sys_lseek ops fd offset whence s =
     (if fd_out_of_range fd \<or> fd_table s ! nat fd = 0 then Some (-1, s)
      else do {
        x \<leftarrow> fd_files s (fd_table s ! nat fd);
        if kf_ops x = 0 then Some (-1, s)
        else do {
          o' \<leftarrow> ops (kf_ops x);
          (case op_llseek o' of None \<Rightarrow> Some (-1, s) | Some l \<Rightarrow> l (fd_table s ! nat fd) offset whence s) } })"

definition fs_sys_open :: "cstr option \<Rightarrow> int \<Rightarrow> fdstate \<Rightarrow> (int \<times> fdstate) option" where
  "fs_sys_open filename flags s =
     (if filename = None then Some (-1, s)
      else case kmalloc KFILE_SIZE (fd_heap s) of (f, h) \<Rightarrow>
        if f = 0 then Some (-1, s\<lparr>fd_heap := h\<rparr>)
        else
          let s1 = s\<lparr>fd_heap := h, fd_files := (fd_files s)(f \<mapsto> kfile0)\<rparr>;
              fd = get_unused_fd s1 in
          if fd < 0 then do { s2 \<leftarrow> free_file f s1; Some (-1, s2) }
          else
            let s2 = s1\<lparr>fd_files := (fd_files s1)(f \<mapsto> kfile0\<lparr>kf_fd := fd, kf_flags := flags, kf_pos := 0\<rparr>)\<rparr> in
            (case fd_install fd f s2 of (r, s3) \<Rightarrow>
               if r < 0 then do { s4 \<leftarrow> free_file f s3; Some (-1, s4) } else Some (fd, s3)))"

subsection \<open>The table as slots\<close>

lemma unused_from_nat:
  "unused_from ps k = int i \<Longrightarrow> k \<le> i \<and> i < k + length ps \<and> ps ! (i - k) = 0 \<and> (\<forall>j. k \<le> j \<longrightarrow> j < i \<longrightarrow> ps ! (j - k) \<noteq> 0)"
proof (induction ps k rule: unused_from.induct)
  case (2 p ps k)
  show ?case
  proof (cases "p = 0")
    case False
    with 2 have IH: "Suc k \<le> i" "i < Suc k + length ps" "ps ! (i - Suc k) = 0"
      "\<And>j. Suc k \<le> j \<Longrightarrow> j < i \<Longrightarrow> ps ! (j - Suc k) \<noteq> 0" by auto
    have "(p # ps) ! (j - k) \<noteq> 0" if "k \<le> j" "j < i" for j
      using that IH(4) [of j] False by (cases "j = k") (auto simp: nth_Cons' Suc_le_eq)
    then show ?thesis using IH(1-3) by (auto simp: nth_Cons')
  qed (use 2 in auto)
qed simp

lemma unused_from_none: "unused_from ps k < 0 \<longleftrightarrow> 0 \<notin> set ps"
  by (induction ps k rule: unused_from.induct) auto

interpretation fdt: slot_table fd_table "\<lambda>p. p = 0" get_unused_fd put_fd
proof
  fix s :: fdstate and i j :: nat and x :: addr
  show "get_unused_fd s = int i \<Longrightarrow> i < length (fd_table s) \<and> fd_table s ! i = 0"
    using unused_from_nat [of "fd_table s" 0 i] by (simp add: get_unused_fd_def)
  show "get_unused_fd s = int i \<Longrightarrow> j < i \<Longrightarrow> fd_table s ! j \<noteq> 0"
    using unused_from_nat [of "fd_table s" 0 i] by (simp add: get_unused_fd_def)
  show "(get_unused_fd s < 0) = (\<forall>x\<in>set (fd_table s). x \<noteq> 0)"
    by (auto simp: get_unused_fd_def unused_from_none)
  show "i < length (fd_table s) \<Longrightarrow> fd_table (put_fd i x s) = (fd_table s)[i := x]"
    by (simp add: put_fd_def)
qed

subsection \<open>Invariant\<close>

definition fd_inv :: "fdstate \<Rightarrow> bool" where
  "fd_inv s \<longleftrightarrow> kheap_inv (fd_heap s) \<and> dom (fd_files s) \<subseteq> live (fd_heap s)
     \<and> length (fd_table s) = NR_OPEN_DEFAULT
     \<and> (\<forall>i<NR_OPEN_DEFAULT. fd_table s ! i \<noteq> 0 \<longrightarrow>
          (\<exists>f. fd_files s (fd_table s ! i) = Some f \<and> kf_fd f = int i \<and> kf_ops f = 0))"

lemma fd_inv_distinct:
  assumes "fd_inv s" "i < NR_OPEN_DEFAULT" "j < NR_OPEN_DEFAULT" "fd_table s ! i = fd_table s ! j" "fd_table s ! i \<noteq> 0"
  shows "i = j"
proof -
  obtain f g where "fd_files s (fd_table s ! i) = Some f" "kf_fd f = int i" "fd_files s (fd_table s ! j) = Some g" "kf_fd g = int j"
    using assms unfolding fd_inv_def by metis
  then show ?thesis using assms(4) by simp
qed

lemma fd_inv_live: "fd_inv s \<Longrightarrow> fd_files s p = Some f \<Longrightarrow> p \<in> live (fd_heap s)"
  unfolding fd_inv_def by blast

lemma fd_inv_slot:
  assumes "fd_inv s" "\<not> fd_out_of_range fd" "fd_table s ! nat fd \<noteq> 0"
  obtains f where "nat fd < NR_OPEN_DEFAULT" "fd_files s (fd_table s ! nat fd) = Some f" "kf_fd f = fd" "kf_ops f = 0"
proof -
  have "nat fd < NR_OPEN_DEFAULT" "int (nat fd) = fd" using assms(2) by (auto simp: fd_out_of_range_def)
  then show thesis using assms that by (auto simp: fd_inv_def)
qed

lemma fs_init_inv: "kheap_inv h \<Longrightarrow> dom fs \<subseteq> live h \<Longrightarrow> fd_inv (fs_init (s\<lparr>fd_heap := h, fd_files := fs\<rparr>))"
  by (simp add: fd_inv_def fs_init_def)

subsection \<open>Opening and closing\<close>

lemma file_size_ok: "kmalloc_ok KFILE_SIZE"
  by (simp add: kmalloc_ok_def KFILE_SIZE_def)

lemma open_refused:
  assumes "fd_inv s" and "fst (kmalloc KFILE_SIZE (fd_heap s)) = 0 \<or> 0 \<notin> set (fd_table s)"
  shows "fs_sys_open (Some nm) fl s = Some (-1, s)"
proof (cases "fst (kmalloc KFILE_SIZE (fd_heap s)) = 0")
  case True
  have "snd (kmalloc KFILE_SIZE (fd_heap s)) = fd_heap s"
    using kmalloc_fail [OF _ file_size_ok True] assms(1) by (simp add: fd_inv_def)
  then have "kmalloc KFILE_SIZE (fd_heap s) = (0, fd_heap s)" using True by (metis prod.collapse)
  then show ?thesis by (simp add: fs_sys_open_def)
next
  case False
  obtain f h where k: "kmalloc KFILE_SIZE (fd_heap s) = (f, h)" by fastforce
  have inv: "kheap_inv (fd_heap s)" using assms(1) by (simp add: fd_inv_def)
  have fr: "kfree f h = Some (fd_heap s)" using kmalloc_kfree_restore [OF inv file_size_ok] False k by simp
  have "f \<notin> live (fd_heap s)" using kh.alloc_fresh [OF inv file_size_ok] False k by simp
  then have "fd_files s f = None" using assms(1) by (auto simp: fd_inv_def)
  then have "(fd_files s)(f := None) = fd_files s" by auto
  moreover have "get_unused_fd (s\<lparr>fd_heap := h, fd_files := (fd_files s)(f \<mapsto> kfile0)\<rparr>) < 0"
    using assms(2) False by (simp add: get_unused_fd_def unused_from_none)
  ultimately show ?thesis using False k fr by (simp add: fs_sys_open_def free_file_def Let_def)
qed

text \<open>The state after a file was opened in slot \<open>i\<close>.\<close>

definition opened_in :: "nat \<Rightarrow> addr \<Rightarrow> kheap \<Rightarrow> int \<Rightarrow> fdstate \<Rightarrow> fdstate" where
  "opened_in i f h fl s = put_fd i f (s\<lparr>fd_heap := h,
     fd_files := (fd_files s)(f \<mapsto> kfile0\<lparr>kf_fd := int i, kf_flags := fl\<rparr>)\<rparr>)"

lemma unused_fd_bound: "fd_inv s \<Longrightarrow> get_unused_fd s = int i \<Longrightarrow> i < NR_OPEN_DEFAULT \<and> fd_table s ! i = 0"
  using fdt.pick_slot [of s i] by (simp add: fd_inv_def)

lemma open_granted:
  assumes inv: "fd_inv s" and k: "kmalloc KFILE_SIZE (fd_heap s) = (f, h)" "f \<noteq> 0" and i: "get_unused_fd s = int i"
  shows "fs_sys_open (Some nm) fl s = Some (int i, opened_in i f h fl s)"
proof -
  have "get_unused_fd (s\<lparr>fd_heap := h, fd_files := fs\<rparr>) = int i" for fs using i by (simp add: get_unused_fd_def)
  moreover have "\<not> fd_out_of_range (int i)" "fd_table s ! i = 0"
    using unused_fd_bound [OF inv i] by (simp_all add: fd_out_of_range_def)
  moreover have "kfile0\<lparr>kf_fd := int i, kf_flags := fl, kf_pos := 0\<rparr> = kfile0\<lparr>kf_fd := int i, kf_flags := fl\<rparr>"
    by (simp add: kfile0_def)
  ultimately show ?thesis
    using k by (simp add: fs_sys_open_def Let_def fd_install_def opened_in_def)
qed

lemma opened_in_inv:
  assumes inv: "fd_inv s" and k: "kmalloc KFILE_SIZE (fd_heap s) = (f, h)" "f \<noteq> 0" and i: "get_unused_fd s = int i"
  shows "fd_inv (opened_in i f h fl s)" and "fd_files s f = None"
proof -
  have hp: "kheap_inv (fd_heap s)" using inv by (simp add: fd_inv_def)
  have h: "kheap_inv h" "live h = insert f (live (fd_heap s))" "f \<notin> live (fd_heap s)"
    using kmalloc_inv [OF hp file_size_ok] kh.alloc_fresh [OF hp file_size_ok] k by simp_all
  show n: "fd_files s f = None" using h(3) inv by (auto simp: fd_inv_def)
  have "fd_table s ! j \<noteq> f" if "j < NR_OPEN_DEFAULT" for j
    using inv n k(2) that by (auto simp: fd_inv_def)
  then show "fd_inv (opened_in i f h fl s)"
    using inv h unused_fd_bound [OF inv i]
    by (auto simp: fd_inv_def opened_in_def put_fd_def nth_list_update kfile0_def)
qed

lemma close_opened:
  assumes inv: "fd_inv s" and k: "kmalloc KFILE_SIZE (fd_heap s) = (f, h)" "f \<noteq> 0" and i: "get_unused_fd s = int i"
  shows "fs_sys_close ops (int i) (opened_in i f h fl s) = Some (0, s)"
proof -
  have b: "i < NR_OPEN_DEFAULT" "fd_table s ! i = 0" "length (fd_table s) = NR_OPEN_DEFAULT"
    using unused_fd_bound [OF inv i] inv by (simp_all add: fd_inv_def)
  have "kheap_inv (fd_heap s)" using inv by (simp add: fd_inv_def)
  then have fr: "kfree f h = Some (fd_heap s)" using kmalloc_kfree_restore [OF _ file_size_ok] k by fastforce
  have "(fd_table s)[i := 0] = fd_table s" using b by (metis list_update_id)
  moreover have "(fd_files s)(f := None) = fd_files s" using opened_in_inv(2) [OF assms] by auto
  ultimately show ?thesis
    using b k(2) fr
    by (simp add: fs_sys_close_def fput_def opened_in_def put_fd_def fd_out_of_range_def Let_def free_file_def kfile0_def)
qed

lemma close_file:
  assumes inv: "fd_inv s"
  shows "\<exists>r s'. fs_sys_close ops fd s = Some (r, s') \<and> fd_inv s'
    \<and> (r = 0 \<longleftrightarrow> \<not> fd_out_of_range fd \<and> fd_table s ! nat fd \<noteq> 0)"
proof (cases "fd_out_of_range fd \<or> fd_table s ! nat fd = 0")
  case True
  then show ?thesis using inv by (auto simp: fs_sys_close_def Let_def)
next
  case False
  then obtain x where x: "nat fd < NR_OPEN_DEFAULT" "fd_files s (fd_table s ! nat fd) = Some x" "kf_ops x = 0"
    using fd_inv_slot [OF inv] by metis
  have "kheap_inv (fd_heap s)" using inv by (simp add: fd_inv_def)
  from kh.free_alive [OF this fd_inv_live [OF inv x(2)]]
  obtain h where h: "kfree (fd_table s ! nat fd) (fd_heap s) = Some h" "kheap_inv h"
      "live h = live (fd_heap s) - {fd_table s ! nat fd}"
    by blast
  let ?s = "s\<lparr>fd_table := (fd_table s)[nat fd := 0], fd_heap := h, fd_files := (fd_files s)(fd_table s ! nat fd := None)\<rparr>"
  have "fs_sys_close ops fd s = Some (0, ?s)"
    using False x h(1) by (simp add: fs_sys_close_def Let_def fput_def free_file_def put_fd_def)
  moreover have "fd_inv ?s"
  proof -
    have "fd_table s ! i \<noteq> fd_table s ! nat fd" if "i < NR_OPEN_DEFAULT" "i \<noteq> nat fd" for i
      using fd_inv_distinct [OF inv x(1) that(1)] that(2) False by auto
    then show ?thesis using inv h x(1) by (auto simp: fd_inv_def nth_list_update split: if_splits)
  qed
  ultimately show ?thesis using False by simp
qed

lemma no_ops:
  assumes "fd_inv s"
  shows "fs_sys_read ops fd buf n s = Some (-1, [], s)" "fs_sys_write ops fd mem n s = Some (-1, s)"
    "fs_sys_lseek ops fd off wh s = Some (-1, s)"
proof -
  have "\<exists>f. fd_files s (fd_table s ! nat fd) = Some f \<and> kf_ops f = 0"
    if "\<not> fd_out_of_range fd" "fd_table s ! nat fd \<noteq> 0"
    using fd_inv_slot [OF assms that] by blast
  then show "fs_sys_read ops fd buf n s = Some (-1, [], s)" "fs_sys_write ops fd mem n s = Some (-1, s)"
    "fs_sys_lseek ops fd off wh s = Some (-1, s)"
    by (auto simp: fs_sys_read_def fs_sys_write_def fs_sys_lseek_def split: option.splits)
qed

lemma open_total:
  assumes "fd_inv s"
  shows "\<exists>r s'. fs_sys_open nm fl s = Some (r, s') \<and> fd_inv s'"
proof (cases nm)
  case (Some n)
  obtain f h where k: "kmalloc KFILE_SIZE (fd_heap s) = (f, h)" by fastforce
  show ?thesis
  proof (cases "f = 0 \<or> 0 \<notin> set (fd_table s)")
    case False
    then have "\<not> get_unused_fd s < 0" by (simp add: get_unused_fd_def unused_from_none)
    then obtain i where i: "get_unused_fd s = int i" using fdt.pick_nat by blast
    then show ?thesis
      using open_granted [OF assms k _ i] opened_in_inv(1) [OF assms k _ i] False Some by auto
  qed (use open_refused [OF assms] k assms Some in auto)
qed (use assms in \<open>simp add: fs_sys_open_def\<close>)

text \<open>What a caller can do: any sequence of calls with any arguments.\<close>

inductive fd_step :: "(addr \<Rightarrow> file_ops option) \<Rightarrow> fdstate \<Rightarrow> fdstate \<Rightarrow> bool" for ops where
  fd_open: "fs_sys_open nm fl s = Some (r, s') \<Longrightarrow> fd_step ops s s'"
| fd_close: "fs_sys_close ops fd s = Some (r, s') \<Longrightarrow> fd_step ops s s'"
| fd_read: "fs_sys_read ops fd buf n s = Some (r, bs, s') \<Longrightarrow> fd_step ops s s'"
| fd_write: "fs_sys_write ops fd mem n s = Some (r, s') \<Longrightarrow> fd_step ops s s'"
| fd_lseek: "fs_sys_lseek ops fd off wh s = Some (r, s') \<Longrightarrow> fd_step ops s s'"

lemma fd_step_inv: "fd_step ops s s' \<Longrightarrow> fd_inv s \<Longrightarrow> fd_inv s'"
proof (induction rule: fd_step.induct)
  case (fd_open nm fl s r s')
  then show ?case using open_total [of s nm fl] by auto
next
  case (fd_close fd s r s')
  then show ?case using close_file [of s ops fd] by auto
qed (simp_all add: no_ops)

lemma fd_steps_inv: "(fd_step ops)\<^sup>*\<^sup>* s s' \<Longrightarrow> fd_inv s \<Longrightarrow> fd_inv s'"
  by (induction rule: rtranclp_induct) (auto intro: fd_step_inv)

subsection \<open>The list of file systems\<close>

definition type_ok :: "fdstate \<Rightarrow> addr \<Rightarrow> bool" where
  "type_ok s x \<longleftrightarrow> x \<noteq> 0 \<and> (\<exists>t. fd_types s x = Some t \<and> ft_name t \<noteq> None \<and> ft_mount t \<noteq> 0)"

fun type_chain :: "fdstate \<Rightarrow> addr \<Rightarrow> addr list \<Rightarrow> bool" where
  "type_chain s p [] \<longleftrightarrow> p = 0"
| "type_chain s p (x # xs) \<longleftrightarrow> p = x \<and> type_ok s x \<and> type_chain s (ft_next (the (fd_types s x))) xs"

definition registry :: "fdstate \<Rightarrow> addr list \<Rightarrow> bool" where
  "registry s xs \<longleftrightarrow> type_chain s (fd_systems s) xs \<and> distinct xs"

definition type_name :: "fdstate \<Rightarrow> addr \<Rightarrow> cstr" where
  "type_name s x = the (ft_name (the (fd_types s x)))"

lemma chain_ok: "type_chain s p xs \<Longrightarrow> x \<in> set xs \<Longrightarrow> type_ok s x"
  by (induction xs arbitrary: p) auto

lemma chain_cong:
  "type_chain s p xs \<Longrightarrow> (\<And>x. x \<in> set xs \<Longrightarrow> fd_types s' x = fd_types s x) \<Longrightarrow> type_chain s' p xs"
  by (induction xs arbitrary: p) (auto simp: type_ok_def)

lemma walk_chain:
  "type_chain s p xs \<Longrightarrow> fs_type_walk s name p = Some (case find (\<lambda>x. type_name s x = name) xs of None \<Rightarrow> 0 | Some x \<Rightarrow> x)"
proof (induction xs arbitrary: p)
  case (Cons x xs)
  then obtain t n where t: "x \<noteq> 0" "fd_types s x = Some t" "ft_name t = Some n" by (auto simp: type_ok_def)
  then show ?case using Cons by (subst fs_type_walk.simps) (auto simp: type_name_def)
qed (simp add: fs_type_walk.simps)

text \<open>The walk never returns from a set of structures that is closed under \<^verbatim>\<open>next\<close> and has no match.\<close>

lemma walk_spins:
  assumes closed: "\<And>p. p \<in> C \<Longrightarrow> p \<noteq> 0 \<and> (\<exists>t n. fd_types s p = Some t \<and> ft_name t = Some n \<and> n \<noteq> name \<and> ft_next t \<in> C)"
  shows "p \<in> C \<Longrightarrow> fs_type_walk s name p = None"
proof -
  have "p \<notin> C" if "fs_type_walk s name p = Some r" for p r
    using that
  proof (rule fs_type_walk.raw_induct [of "\<lambda>a b c r. a = s \<and> b = name \<longrightarrow> c \<notin> C", rotated, THEN mp])
    show "s = s \<and> name = name" by simp
  next
    fix walk :: "fdstate \<Rightarrow> cstr \<Rightarrow> addr \<Rightarrow> addr option" and a b c y
    assume IH: "\<And>a b c y. walk a b c = Some y \<Longrightarrow> a = s \<and> b = name \<longrightarrow> c \<notin> C"
      and r: "(if c = 0 then Some 0 else fd_types a c \<bind> (\<lambda>t. ft_name t \<bind> (\<lambda>n. if n = b then Some c else walk a b (ft_next t)))) = Some y"
    show "a = s \<and> b = name \<longrightarrow> c \<notin> C"
    proof (intro impI notI)
      assume e: "a = s \<and> b = name" and c: "c \<in> C"
      from closed [OF c] obtain t n where t: "c \<noteq> 0" "fd_types s c = Some t" "ft_name t = Some n" "n \<noteq> name" "ft_next t \<in> C" by blast
      then have "walk s name (ft_next t) = Some y" using r e by simp
      with IH t(5) show False by blast
    qed
  qed
  then show "p \<in> C \<Longrightarrow> fs_type_walk s name p = None" by (cases "fs_type_walk s name p") auto
qed

text \<open>What unlinking \<open>fs\<close> from the part of the list behind \<open>slot\<close> does.\<close>

definition unlinked :: "addr \<Rightarrow> addr \<Rightarrow> addr list \<Rightarrow> fdstate \<Rightarrow> fdstate \<Rightarrow> bool" where
  "unlinked fs slot xs s s' \<longleftrightarrow>
     type_chain s' (if slot = 0 then fd_systems s' else ft_next (the (fd_types s' slot))) (remove1 fs xs)
     \<and> (slot \<noteq> 0 \<longrightarrow> fd_systems s' = fd_systems s)
     \<and> (\<forall>x. x \<notin> insert slot (set xs) \<longrightarrow> fd_types s' x = fd_types s x)
     \<and> (\<forall>x. map_option ft_name (fd_types s' x) = map_option ft_name (fd_types s x))
     \<and> (\<forall>x. type_ok s' x = type_ok s x)"

lemma unregister_chain:
  assumes "type_chain s p xs" and "p = (if slot = 0 then fd_systems s else ft_next (the (fd_types s slot)))"
    and "slot \<noteq> 0 \<Longrightarrow> fd_types s slot \<noteq> None" and "slot \<notin> set xs" and "distinct xs" and "fs \<noteq> 0"
  shows "if fs \<in> set xs then \<exists>s'. unregister_loop fs slot s = Some (0, s') \<and> unlinked fs slot xs s s'
    else unregister_loop fs slot s = Some (-1, s)"
  using assms
proof (induction xs arbitrary: p slot)
  case Nil
  then show ?case by (subst unregister_loop.simps) auto
next
  case (Cons x xs)
  obtain t where t: "x \<noteq> 0" "fd_types s x = Some t" "ft_name t \<noteq> None" "ft_mount t \<noteq> 0" "type_chain s (ft_next t) xs"
    using Cons.prems(1) by (auto simp: type_ok_def)
  have cur: "(if slot = 0 then Some (fd_systems s) else map_option ft_next (fd_types s slot)) = Some x"
    using Cons.prems by (auto split: if_splits)
  have d: "x \<notin> set xs" "distinct xs" "slot \<noteq> x" "slot \<notin> set xs" using Cons.prems by auto
  have rest: "ft_next t = (if x = 0 then fd_systems s else ft_next (the (fd_types s x)))" using t by simp
  show ?case
  proof (cases "x = fs")
    case True
    show ?thesis
    proof (cases "slot = 0")
      case s0: True
      have "unregister_loop fs slot s = Some (0, s\<lparr>fd_systems := ft_next t\<rparr>)"
        using cur t s0 True by (subst unregister_loop.simps) simp
      moreover have "type_chain (s\<lparr>fd_systems := ft_next t\<rparr>) (ft_next t) xs"
        using t(5) by (rule chain_cong) simp
      ultimately show ?thesis using True s0 by (auto simp: type_ok_def unlinked_def)
    next
      case s1: False
      then obtain q where q: "fd_types s slot = Some q" using Cons.prems(3) by auto
      let ?s = "s\<lparr>fd_types := (fd_types s)(slot \<mapsto> q\<lparr>ft_next := ft_next t\<rparr>)\<rparr>"
      have "unregister_loop fs slot s = Some (0, ?s)"
        using cur t s1 True q by (subst unregister_loop.simps) simp
      moreover have "type_chain ?s (ft_next t) xs"
        using t(5) by (rule chain_cong) (use d in auto)
      ultimately show ?thesis using True s1 q d by (auto simp: type_ok_def unlinked_def)
    qed
  next
    case False
    then have step: "unregister_loop fs slot s = unregister_loop fs x s"
      using cur t(1) by (subst unregister_loop.simps) simp
    have IH: "if fs \<in> set xs then \<exists>s'. unregister_loop fs x s = Some (0, s') \<and> unlinked fs x xs s s'
        else unregister_loop fs x s = Some (-1, s)"
      using Cons.IH [OF t(5) rest _ d(1,2) Cons.prems(6)] t(2) by simp
    have "unlinked fs slot (x # xs) s s'" if u: "unlinked fs x xs s s'" for s'
    proof -
      have "fd_types s' slot = fd_types s slot" "type_ok s x" "fd_systems s' = fd_systems s"
        using u d t by (auto simp: unlinked_def type_ok_def)
      then show ?thesis using u False t(1) cur by (auto simp: unlinked_def split: if_splits)
    qed
    then show ?thesis using IH step False by (auto split: if_splits)
  qed
qed

lemma type_name_cong: "map_option ft_name (fd_types s' x) = map_option ft_name (fd_types s x) \<Longrightarrow> type_ok s x \<Longrightarrow> type_name s' x = type_name s x"
  by (auto simp: type_name_def type_ok_def)

lemma chain_head: "type_chain s p (ys @ x # zs) \<Longrightarrow> p \<in> insert x (set ys)"
  by (cases ys) auto

lemma chain_next:
  "type_chain s p (ys @ x # zs) \<Longrightarrow> y \<in> set ys \<Longrightarrow> ft_next (the (fd_types s y)) \<in> insert x (set ys)"
proof (induction ys arbitrary: p)
  case (Cons a ys)
  then show ?case using chain_head [of s "ft_next (the (fd_types s a))" ys x zs] by auto
qed simp

lemma unregister_registry:
  assumes "registry s xs" and "fs \<noteq> 0"
  shows "if fs \<in> set xs then \<exists>s'. unregister_filesystem fs s = Some (0, s') \<and> registry s' (remove1 fs xs)
      \<and> (\<forall>x\<in>set xs. type_name s' x = type_name s x)
    else unregister_filesystem fs s = Some (-1, s)"
proof -
  have r: "type_chain s (fd_systems s) xs" "distinct xs" using assms(1) by (simp_all add: registry_def)
  have "0 \<notin> set xs" using chain_ok [OF r(1), of 0] unfolding type_ok_def by blast
  then have u: "if fs \<in> set xs then \<exists>s'. unregister_loop fs 0 s = Some (0, s') \<and> unlinked fs 0 xs s s'
      else unregister_loop fs 0 s = Some (-1, s)"
    using unregister_chain [OF r(1), of 0 fs] r(2) assms(2) by simp
  have "registry s' (remove1 fs xs) \<and> (\<forall>x\<in>set xs. type_name s' x = type_name s x)" if "unlinked fs 0 xs s s'" for s'
  proof -
    have "type_name s' x = type_name s x" if "x \<in> set xs" for x
      using \<open>unlinked fs 0 xs s s'\<close> chain_ok [OF r(1) that] by (intro type_name_cong) (simp_all add: unlinked_def)
    then show ?thesis using that r(2) by (simp add: unlinked_def registry_def)
  qed
  then show ?thesis using u assms(2) unfolding unregister_filesystem_def by (cases "fs \<in> set xs") auto
qed

lemma register_registry:
  assumes "registry s xs" and "x \<notin> set xs" and "type_ok s x"
  shows "\<exists>s'. register_filesystem x s = Some (0, s') \<and> registry s' (x # xs)
    \<and> (\<forall>y\<in>insert x (set xs). type_name s' y = type_name s y)"
proof -
  obtain t where t: "x \<noteq> 0" "fd_types s x = Some t" "ft_name t \<noteq> None" "ft_mount t \<noteq> 0"
    using assms(3) by (auto simp: type_ok_def)
  let ?s = "s\<lparr>fd_types := (fd_types s)(x \<mapsto> t\<lparr>ft_next := fd_systems s\<rparr>), fd_systems := x\<rparr>"
  have "type_chain s (fd_systems s) xs" using assms(1) by (simp add: registry_def)
  then have "type_chain ?s (fd_systems s) xs" by (rule chain_cong) (use assms(2) in auto)
  then have "registry ?s (x # xs)" using assms t by (simp add: registry_def type_ok_def)
  moreover have "register_filesystem x s = Some (0, ?s)" using t by (simp add: register_filesystem_def)
  moreover have "type_name ?s y = type_name s y" for y using t by (simp add: type_name_def)
  ultimately show ?thesis by blast
qed

subsection \<open>Properties\<close>

text \<open>C19.  \<^verbatim>\<open>sys_open\<close> of \<^verbatim>\<open>kernel/fs.c\<close> takes the lowest unused descriptor, for which it installs a new file
  object, and \<^verbatim>\<open>sys_close\<close> of that descriptor restores table, files and heap completely.  When the heap
  or the table is full the result is -1 and nothing has changed.\<close>

theorem fs_open_close:
  assumes "fd_inv s"
  shows "if fst (kmalloc KFILE_SIZE (fd_heap s)) = 0 \<or> 0 \<notin> set (fd_table s)
    then fs_sys_open (Some nm) fl s = Some (-1, s)
    else \<exists>i s'. i < NR_OPEN_DEFAULT \<and> fd_table s ! i = 0 \<and> (\<forall>j<i. fd_table s ! j \<noteq> 0)
      \<and> fs_sys_open (Some nm) fl s = Some (int i, s') \<and> fd_inv s'
      \<and> fget (int i) s' \<noteq> 0 \<and> fd_files s (fget (int i) s') = None
      \<and> fs_sys_close ops (int i) s' = Some (0, s)"
proof (cases "fst (kmalloc KFILE_SIZE (fd_heap s)) = 0 \<or> 0 \<notin> set (fd_table s)")
  case False
  obtain f h where k: "kmalloc KFILE_SIZE (fd_heap s) = (f, h)" "f \<noteq> 0" using False by (metis prod.collapse)
  have "\<not> get_unused_fd s < 0" using False by (simp add: get_unused_fd_def unused_from_none)
  then obtain i where i: "get_unused_fd s = int i" using fdt.pick_nat by blast
  have "fget (int i) (opened_in i f h fl s) = f"
    using unused_fd_bound [OF assms i] assms
    by (simp add: fget_def opened_in_def put_fd_def fd_out_of_range_def fd_inv_def)
  then show ?thesis
    using False k unused_fd_bound [OF assms i] fdt.pick_least [OF i] open_granted [OF assms k i]
      opened_in_inv [OF assms k i] close_opened [OF assms k i] by auto
qed (use open_refused [OF assms] in simp)

definition demo_fds :: fdstate where
  "demo_fds = \<lparr>fd_heap = heap_area kheap_boot, fd_files = Map.empty, fd_table = replicate 32 0,
     fd_types = [0x100000 \<mapsto> \<lparr>ft_name = Some (asc ''fat32''), ft_mount = 0x101000, ft_next = 0\<rparr>,
                 0x100010 \<mapsto> \<lparr>ft_name = Some (asc ''tar''), ft_mount = 0x102000, ft_next = 0\<rparr>],
     fd_systems = 0\<rparr>"

lemma demo_fds_inv: "fd_inv demo_fds"
  using heap_area_inv by (simp add: fd_inv_def demo_fds_def NR_OPEN_DEFAULT_def)

lemma demo_fds_room: "fst (kmalloc KFILE_SIZE (fd_heap demo_fds)) \<noteq> 0"
  by (simp add: demo_fds_def kmalloc_def heap_area_def kheap_boot_def heap_consts KFILE_SIZE_def)

lemma fs_open_close_witness:
  "\<exists>s'. fs_sys_open (Some (asc ''/etc'')) 0 demo_fds = Some (0, s') \<and> fs_sys_close Map.empty 0 s' = Some (0, demo_fds)"
proof -
  have z: "0 \<in> set (fd_table demo_fds)" "fd_table demo_fds ! 0 = 0" by (simp_all add: demo_fds_def)
  with fs_open_close [OF demo_fds_inv, of "asc ''/etc''" 0 Map.empty] demo_fds_room
  obtain i s' where "\<forall>j<i. fd_table demo_fds ! j \<noteq> 0" "fs_sys_open (Some (asc ''/etc'')) 0 demo_fds = Some (int i, s')"
      "fs_sys_close Map.empty (int i) s' = Some (0, demo_fds)"
    by auto
  moreover from this(1) z(2) have "i = 0" by (metis gr0I)
  ultimately show ?thesis by auto
qed

text \<open>C20.  After any sequence of calls every table entry is a live file object of its own that knows its
  descriptor; \<^verbatim>\<open>sys_open\<close> and \<^verbatim>\<open>sys_close\<close> always return, and since \<^verbatim>\<open>sys_open\<close> never sets \<^verbatim>\<open>f_ops\<close>, every
  \<^verbatim>\<open>sys_read\<close>, \<^verbatim>\<open>sys_write\<close> and \<^verbatim>\<open>sys_lseek\<close> fails with -1 on every descriptor.\<close>

theorem fd_calls_invariant:
  assumes "fd_inv s" and "(fd_step ops)\<^sup>*\<^sup>* s s'"
  shows "fd_inv s' \<and> fs_sys_read ops fd buf n s' = Some (-1, [], s')
    \<and> fs_sys_write ops fd mem n s' = Some (-1, s') \<and> fs_sys_lseek ops fd off wh s' = Some (-1, s')
    \<and> fs_sys_open nm fl s' \<noteq> None \<and> fs_sys_close ops fd s' \<noteq> None"
proof -
  have i: "fd_inv s'" using fd_steps_inv [OF assms(2,1)] .
  then show ?thesis using no_ops [OF i] open_total [OF i, of nm fl] close_file [OF i, of ops fd] by auto
qed

lemma fd_calls_invariant_witness:
  "\<exists>s'. fs_sys_open (Some (asc ''/etc'')) 0 demo_fds = Some (0, s') \<and> fs_sys_read Map.empty 0 True 10 s' = Some (-1, [], s')"
proof -
  obtain f h where k: "kmalloc KFILE_SIZE (fd_heap demo_fds) = (f, h)" by fastforce
  have "get_unused_fd demo_fds = int 0" by (simp add: get_unused_fd_def demo_fds_def numeral_eq_Suc)
  then have o: "fs_sys_open (Some (asc ''/etc'')) 0 demo_fds = Some (0, opened_in 0 f h 0 demo_fds)"
    using open_granted [OF demo_fds_inv k] k demo_fds_room by fastforce
  then have "(fd_step Map.empty)\<^sup>*\<^sup>* demo_fds (opened_in 0 f h 0 demo_fds)" by (blast intro: fd_open)
  from fd_calls_invariant [OF demo_fds_inv this] o show ?thesis by auto
qed

text \<open>The registry refines a list of file systems without repetitions: registering a new one puts it in
  front, \<^verbatim>\<open>unregister_filesystem\<close> removes it or fails with -1 if it is not there, and \<^verbatim>\<open>get_fs_type\<close>
  returns the most recently registered one of the name, or null.\<close>

theorem fs_registry_refines:
  assumes "registry s xs"
  shows "(x \<notin> set xs \<and> type_ok s x \<longrightarrow> (\<exists>s'. register_filesystem x s = Some (0, s') \<and> registry s' (x # xs)
      \<and> (\<forall>y\<in>insert x (set xs). type_name s' y = type_name s y)))
    \<and> (fs \<in> set xs \<longrightarrow> (\<exists>s'. unregister_filesystem fs s = Some (0, s') \<and> registry s' (remove1 fs xs)
      \<and> (\<forall>y\<in>set xs. type_name s' y = type_name s y)))
    \<and> (fs \<notin> set xs \<longrightarrow> unregister_filesystem fs s = Some (-1, s))
    \<and> get_fs_type name s = Some (case find (\<lambda>y. type_name s y = name) xs of None \<Rightarrow> 0 | Some y \<Rightarrow> y)"
proof -
  have c: "type_chain s (fd_systems s) xs" using assms by (simp add: registry_def)
  have "0 \<notin> set xs" using chain_ok [OF c] by (auto simp: type_ok_def)
  moreover have "unregister_filesystem 0 s = Some (-1, s)" by (simp add: unregister_filesystem_def)
  moreover have "if fs \<in> set xs then fs \<noteq> 0 \<longrightarrow> (\<exists>s'. unregister_filesystem fs s = Some (0, s') \<and> registry s' (remove1 fs xs)
      \<and> (\<forall>x\<in>set xs. type_name s' x = type_name s x)) else fs \<noteq> 0 \<longrightarrow> unregister_filesystem fs s = Some (-1, s)"
    using unregister_registry [OF assms, of fs] by (cases "fs \<in> set xs") simp_all
  ultimately show ?thesis
    using register_registry [OF assms, of x] walk_chain [OF c, of name]
    by (cases "fs = 0") (auto simp: get_fs_type_def split: if_splits)
qed

lemma fs_registry_refines_witness:
  "\<exists>s. register_filesystem 0x100000 demo_fds = Some (0, s) \<and> get_fs_type (asc ''fat32'') s = Some 0x100000
    \<and> get_fs_type (asc ''ext2'') s = Some 0"
proof -
  have r: "registry demo_fds []" by (simp add: registry_def demo_fds_def)
  have n: "type_ok demo_fds 0x100000" "type_name demo_fds 0x100000 = asc ''fat32''"
    by (simp_all add: type_ok_def demo_fds_def type_name_def)
  obtain s where s: "register_filesystem 0x100000 demo_fds = Some (0, s)" "registry s [0x100000]"
      "type_name s 0x100000 = asc ''fat32''"
    using fs_registry_refines [OF r, of "0x100000" 0 "[]"] n by auto
  moreover have "get_fs_type (asc ''fat32'') s = Some 0x100000" "get_fs_type (asc ''ext2'') s = Some 0"
    using fs_registry_refines [OF s(2), of 0 0] s(3) by (simp_all add: asc_def)
  ultimately show ?thesis by blast
qed

text \<open>Registering a file system that is already in the list makes the list cyclic:
  \<^verbatim>\<open>register_filesystem\<close> returns 0, but from then on \<^verbatim>\<open>get_fs_type\<close> of a name that is not in the list
  never returns.\<close>

theorem register_twice_spins:
  assumes "registry s xs" and "x \<in> set xs" and "\<forall>y\<in>set xs. type_name s y \<noteq> name"
  shows "\<exists>s'. register_filesystem x s = Some (0, s') \<and> get_fs_type name s' = None"
proof -
  obtain ys zs where xs: "xs = ys @ x # zs" using assms(2) split_list by fast
  have c: "type_chain s (fd_systems s) (ys @ x # zs)" "distinct xs" using assms(1) by (simp_all add: registry_def xs)
  have ok: "\<And>y. y \<in> set xs \<Longrightarrow> type_ok s y" using chain_ok [OF c(1)] by (simp add: xs)
  then obtain t where t: "x \<noteq> 0" "fd_types s x = Some t" "ft_name t \<noteq> None" "ft_mount t \<noteq> 0"
    using ok [OF assms(2)] by (auto simp: type_ok_def)
  let ?s = "s\<lparr>fd_types := (fd_types s)(x \<mapsto> t\<lparr>ft_next := fd_systems s\<rparr>), fd_systems := x\<rparr>"
  have "register_filesystem x s = Some (0, ?s)" using t by (simp add: register_filesystem_def)
  moreover have "fs_type_walk ?s name x = None"
  proof (rule walk_spins [of "insert x (set ys)"])
    fix p assume p: "p \<in> insert x (set ys)"
    then have "p \<in> set xs" by (auto simp: xs)
    then obtain u n where u: "p \<noteq> 0" "fd_types s p = Some u" "ft_name u = Some n" "n \<noteq> name"
      using ok [of p] assms(3) by (auto simp: type_ok_def type_name_def)
    show "p \<noteq> 0 \<and> (\<exists>t n. fd_types ?s p = Some t \<and> ft_name t = Some n \<and> n \<noteq> name \<and> ft_next t \<in> insert x (set ys))"
    proof (cases "p = x")
      case True
      then show ?thesis using u t chain_head [OF c(1)] by auto
    next
      case False
      then show ?thesis using u p chain_next [OF c(1), of p] by auto
    qed
  qed simp
  ultimately show ?thesis by (auto simp: get_fs_type_def)
qed

lemma register_twice_spins_witness:
  "\<exists>s s'. register_filesystem 0x100000 demo_fds = Some (0, s) \<and> register_filesystem 0x100000 s = Some (0, s')
    \<and> get_fs_type (asc ''ext2'') s' = None"
proof -
  have r: "registry demo_fds []" by (simp add: registry_def demo_fds_def)
  have n: "type_ok demo_fds 0x100000" "type_name demo_fds 0x100000 = asc ''fat32''"
    by (simp_all add: type_ok_def demo_fds_def type_name_def)
  obtain s where s: "register_filesystem 0x100000 demo_fds = Some (0, s)" "registry s [0x100000]"
      "type_name s 0x100000 = asc ''fat32''"
    using register_registry [OF r _ n(1)] n by auto
  have "\<forall>y\<in>set [0x100000]. type_name s y \<noteq> asc ''ext2''" using s(3) by (simp add: asc_def)
  from register_twice_spins [OF s(2) _ this, of "0x100000"] s(1) show ?thesis by auto
qed

end
