(* ===== verification/Gdt.thy ===== *)
theory Gdt
  imports Process
begin

text \<open>
  The segment descriptors and the task state segment of \<^verbatim>\<open>arch/x86/x86/gdt/gdt.c\<close>, and which segments the
  selectors mean that \<^verbatim>\<open>kernel/task.c\<close> and \<^verbatim>\<open>kernel/process.c\<close> load when they enter user mode.

  The addresses of the table and of the task state segment, which the linker chooses, are parameters; the
  instructions \<^verbatim>\<open>lgdt\<close> and \<^verbatim>\<open>ltr\<close> store into \<open>gs_gdtr\<close> and \<open>gs_tr\<close>.  \<^verbatim>\<open>gdt_flush\<close> takes the address from EAX, where the C
  code, which passes it on the stack, has it only as a temporary of its own; the model has what \<^verbatim>\<open>gdt_flush\<close> loads then.
\<close>

subsection \<open>State\<close>

record gdt_entry =
  ge_limit_low :: u16
  ge_base_low :: u16
  ge_base_mid :: u8
  ge_access :: u8
  ge_gran :: u8
  ge_base_hi :: u8

definition gdt_entry0 :: gdt_entry where
  "gdt_entry0 = \<lparr>ge_limit_low = 0, ge_base_low = 0, ge_base_mid = 0, ge_access = 0, ge_gran = 0, ge_base_hi = 0\<rparr>"

record tss_entry =
  ts_esp0 :: u32
  ts_ss0 :: u32
  ts_cs :: u32
  ts_ds :: u32
  ts_es :: u32
  ts_fs :: u32
  ts_gs :: u32
  ts_ss :: u32
  ts_iomap_base :: u16

text \<open>Zero bytes, and the size of the packed structure.\<close>

definition tss0 :: tss_entry where
  "tss0 = \<lparr>ts_esp0 = 0, ts_ss0 = 0, ts_cs = 0, ts_ds = 0, ts_es = 0, ts_fs = 0, ts_gs = 0, ts_ss = 0, ts_iomap_base = 0\<rparr>"

definition TSS_SIZE :: u32 where "TSS_SIZE = 104"

record gdt_state =
  gs_table :: "gdt_entry list"
  gs_tss :: tss_entry
  gs_tss_addr :: addr
  gs_table_addr :: addr
  gs_gdtr :: "u16 \<times> addr"
  gs_tr :: u16

subsection \<open>Operations\<close>

definition gdt_set :: "nat \<Rightarrow> u32 \<Rightarrow> u32 \<Rightarrow> u8 \<Rightarrow> u8 \<Rightarrow> gdt_state \<Rightarrow> gdt_state" where
  "gdt_set i base limit access gran s = s\<lparr>gs_table := (gs_table s)[i :=
     \<lparr>ge_limit_low = ucast (limit AND 0xFFFF), ge_base_low = ucast (base AND 0xFFFF),
      ge_base_mid = ucast (drop_bit 16 base AND 0xFF), ge_access = access,
      ge_gran = ucast ((drop_bit 16 limit AND 0x0F) OR (ucast gran AND 0xF0)),
      ge_base_hi = ucast (drop_bit 24 base AND 0xFF)\<rparr>]\<rparr>"

definition write_tss :: "nat \<Rightarrow> u16 \<Rightarrow> u32 \<Rightarrow> gdt_state \<Rightarrow> gdt_state" where
  "write_tss num ss0 esp0 s =
     (let s1 = gdt_set num (gs_tss_addr s) (TSS_SIZE - 1) 0x89 0 (s\<lparr>gs_tss := tss0\<rparr>) in
      s1\<lparr>gs_tss := (gs_tss s1)\<lparr>ts_ss0 := ucast ss0, ts_esp0 := esp0, ts_cs := 0x08, ts_ds := 0x10, ts_es := 0x10,
        ts_fs := 0x10, ts_gs := 0x10, ts_ss := 0x10, ts_iomap_base := ucast TSS_SIZE\<rparr>\<rparr>)"

definition tss_set_kernel_stack :: "u32 \<Rightarrow> gdt_state \<Rightarrow> gdt_state" where
  "tss_set_kernel_stack esp0 s = s\<lparr>gs_tss := (gs_tss s)\<lparr>ts_esp0 := esp0\<rparr>\<rparr>"

definition gdt_init :: "gdt_state \<Rightarrow> gdt_state" where
  "gdt_init s =
     (let s1 = gdt_set 0 0 0 0 0 s;
          s2 = gdt_set 1 0 0xFFFFF 0x9A 0xCF s1;
          s3 = gdt_set 2 0 0xFFFFF 0x92 0xCF s2;
          s4 = gdt_set 4 0 0xFFFFF 0xFA 0xCF s3;
          s5 = gdt_set 5 0 0xFFFFF 0xF2 0xCF s4;
          s6 = write_tss 3 0x10 0 s5 in
      s6\<lparr>gs_gdtr := (6 * 8 - 1, gs_table_addr s6), gs_tr := 0x18\<rparr>)"

subsection \<open>What the processor makes of a descriptor\<close>

definition seg_base :: "gdt_entry \<Rightarrow> u32" where
  "seg_base e = ucast (ge_base_low e) OR push_bit 16 (ucast (ge_base_mid e)) OR push_bit 24 (ucast (ge_base_hi e))"

text \<open>The 20 bits of the limit; with the granularity bit they count pages, and the last byte is the page's.\<close>

definition seg_limit20 :: "gdt_entry \<Rightarrow> u32" where
  "seg_limit20 e = ucast (ge_limit_low e) OR push_bit 16 (ucast (ge_gran e AND 0x0F))"

definition seg_last :: "gdt_entry \<Rightarrow> u32" where
  "seg_last e = (if ge_gran e AND 0x80 \<noteq> 0 then push_bit 12 (seg_limit20 e) OR 0xFFF else seg_limit20 e)"

datatype seg_class = Absent | System_segment | Code_segment nat | Data_segment nat

text \<open>From the access byte: present (bit 7), privilege level (bits 5 and 6), not a system segment (bit 4), code (bit 3).\<close>

definition seg_kind :: "gdt_entry \<Rightarrow> seg_class" where
  "seg_kind e = (let a = ge_access e; dpl = unat (drop_bit 5 a AND 3) in
     if a AND 0x80 = 0 then Absent
     else if a AND 0x10 = 0 then System_segment
     else if a AND 0x08 \<noteq> 0 then Code_segment dpl else Data_segment dpl)"

text \<open>The descriptor a selector means: its index is above the two privilege bits and the table bit.\<close>

definition selected :: "u32 \<Rightarrow> gdt_state \<Rightarrow> gdt_entry" where
  "selected sel s = gs_table s ! unat (drop_bit 3 sel)"

definition flat :: "gdt_entry \<Rightarrow> bool" where
  "flat e \<longleftrightarrow> seg_base e = 0 \<and> seg_last e = 0xFFFFFFFF"

subsection \<open>Descriptors keep base and limit\<close>

lemma base_bits:
  "(ucast (ucast (b AND 0xFFFF) :: u16) :: u32) OR push_bit 16 (ucast (ucast (drop_bit 16 b AND 0xFF) :: u8))
     OR push_bit 24 (ucast (ucast (drop_bit 24 b AND 0xFF) :: u8)) = b" (is "?l = b")
proof -
  have m: "(0xFFFF :: u32) = mask 16" "(0xFF :: u32) = mask 8" by (simp_all add: mask_eq_exp_minus_1)
  show ?thesis
  proof (rule bit_word_eqI)
    fix n assume "n < LENGTH(32)"
    then consider "n < 16" | "16 \<le> n" "n < 24" | "24 \<le> n" "n < 32" by fastforce
    then show "bit ?l n = bit b n"
      unfolding m by cases (auto simp: bit_or_iff bit_push_bit_iff bit_unsigned_iff bit_drop_bit_eq bit_and_iff bit_mask_iff)
  qed
qed

lemma limit_bits:
  assumes "limit \<le> 0xFFFFF"
  shows "(ucast (ucast (limit AND 0xFFFF) :: u16) :: u32)
    OR push_bit 16 (ucast ((ucast ((drop_bit 16 limit AND 0x0F) OR (ucast gran AND 0xF0)) :: u8) AND 0x0F)) = limit"
    (is "?l = limit")
proof -
  have m: "(0xFFFF :: u32) = mask 16" "(0x0F :: u32) = mask 4" "(0x0F :: u8) = mask 4" "(0xF0 :: u32) = push_bit 4 (mask 4)"
    by (simp_all add: mask_eq_exp_minus_1)
  have z: "\<not> bit limit n" if "20 \<le> n" for n
  proof -
    have "unat limit < 2 ^ 20" using assms by (simp add: word_le_nat_alt)
    then have "unat limit < 2 ^ n" using that power_increasing [of 20 n "2 :: nat"] by simp
    then have "\<not> bit (unat limit) n" by (simp add: bit_iff_odd)
    then show ?thesis by (simp add: bit_unsigned_iff)
  qed
  show ?thesis
  proof (rule bit_word_eqI)
    fix n assume "n < LENGTH(32)"
    then consider "n < 16" | "16 \<le> n" "n < 20" | "20 \<le> n" "n < 32" by fastforce
    then show "bit ?l n = bit limit n"
      unfolding m by cases (auto simp: bit_or_iff bit_push_bit_iff bit_unsigned_iff bit_drop_bit_eq bit_and_iff bit_mask_iff z)
  qed
qed

text \<open>A descriptor means the base and the limit it was set to.\<close>

lemma gdt_set_fields:
  assumes "i < length (gs_table s)" and "limit \<le> 0xFFFFF"
  shows "seg_base (gs_table (gdt_set i base limit access gran s) ! i) = base"
    and "seg_limit20 (gs_table (gdt_set i base limit access gran s) ! i) = limit"
    and "ge_access (gs_table (gdt_set i base limit access gran s) ! i) = access"
  using assms by (simp_all add: gdt_set_def seg_base_def seg_limit20_def base_bits limit_bits)

subsection \<open>The table \<^verbatim>\<open>gdt_init\<close> leaves\<close>

lemma gdt_set_simps [simp]:
  "length (gs_table (gdt_set i base limit access gran s)) = length (gs_table s)"
  "gs_tss_addr (gdt_set i base limit access gran s) = gs_tss_addr s"
  "gs_table_addr (gdt_set i base limit access gran s) = gs_table_addr s"
  "i \<noteq> j \<Longrightarrow> gs_table (gdt_set i base limit access gran s) ! j = gs_table s ! j"
  by (simp_all add: gdt_set_def)

lemma gdt_set_at:
  "i < length (gs_table s) \<Longrightarrow> gs_table (gdt_set i base limit access gran s) ! i =
     \<lparr>ge_limit_low = ucast (limit AND 0xFFFF), ge_base_low = ucast (base AND 0xFFFF),
      ge_base_mid = ucast (drop_bit 16 base AND 0xFF), ge_access = access,
      ge_gran = ucast ((drop_bit 16 limit AND 0x0F) OR (ucast gran AND 0xF0)),
      ge_base_hi = ucast (drop_bit 24 base AND 0xFF)\<rparr>"
  by (simp add: gdt_set_def)

lemma gdt_init_entries:
  assumes "length (gs_table s) = 6"
  shows "selected 0x00 (gdt_init s) = gdt_entry0"
    and "selected 0x08 (gdt_init s) = \<lparr>ge_limit_low = 0xFFFF, ge_base_low = 0, ge_base_mid = 0, ge_access = 0x9A, ge_gran = 0xCF, ge_base_hi = 0\<rparr>"
    and "selected 0x10 (gdt_init s) = \<lparr>ge_limit_low = 0xFFFF, ge_base_low = 0, ge_base_mid = 0, ge_access = 0x92, ge_gran = 0xCF, ge_base_hi = 0\<rparr>"
    and "ge_access (selected 0x1B (gdt_init s)) = 0x89"
    and "selected 0x23 (gdt_init s) = \<lparr>ge_limit_low = 0xFFFF, ge_base_low = 0, ge_base_mid = 0, ge_access = 0xFA, ge_gran = 0xCF, ge_base_hi = 0\<rparr>"
    and "selected 0x2B (gdt_init s) = \<lparr>ge_limit_low = 0xFFFF, ge_base_low = 0, ge_base_mid = 0, ge_access = 0xF2, ge_gran = 0xCF, ge_base_hi = 0\<rparr>"
  using assms by (simp_all add: selected_def gdt_init_def write_tss_def Let_def gdt_set_at gdt_entry0_def)

lemma gdt_init_tss:
  assumes "length (gs_table s) = 6"
  shows "seg_base (selected 0x18 (gdt_init s)) = gs_tss_addr s" and "seg_last (selected 0x18 (gdt_init s)) = 103"
    and "seg_kind (selected 0x18 (gdt_init s)) = System_segment"
    and "gs_tss (gdt_init s) = tss0\<lparr>ts_ss0 := 0x10, ts_cs := 0x08, ts_ds := 0x10, ts_es := 0x10, ts_fs := 0x10, ts_gs := 0x10,
      ts_ss := 0x10, ts_iomap_base := 104\<rparr>"
proof -
  have e: "selected 0x18 (gdt_init s) = gs_table (gdt_set 3 (gs_tss_addr s) (TSS_SIZE - 1) 0x89 0 s) ! 3"
    using assms by (simp add: selected_def gdt_init_def write_tss_def Let_def gdt_set_at)
  show "seg_base (selected 0x18 (gdt_init s)) = gs_tss_addr s"
    unfolding e by (rule gdt_set_fields) (use assms in \<open>simp_all add: TSS_SIZE_def\<close>)
  have l: "seg_limit20 (selected 0x18 (gdt_init s)) = 103"
    unfolding e by (subst gdt_set_fields) (use assms in \<open>simp_all add: TSS_SIZE_def\<close>)
  have "ge_gran (selected 0x18 (gdt_init s)) = 0" unfolding e using assms by (simp add: gdt_set_at TSS_SIZE_def)
  with l show "seg_last (selected 0x18 (gdt_init s)) = 103" by (simp add: seg_last_def)
  show "seg_kind (selected 0x18 (gdt_init s)) = System_segment"
    unfolding e using assms by (simp add: gdt_set_at seg_kind_def Let_def)
  show "gs_tss (gdt_init s) = tss0\<lparr>ts_ss0 := 0x10, ts_cs := 0x08, ts_ds := 0x10, ts_es := 0x10, ts_fs := 0x10, ts_gs := 0x10,
      ts_ss := 0x10, ts_iomap_base := 104\<rparr>"
    by (simp add: gdt_init_def write_tss_def Let_def gdt_set_def tss0_def TSS_SIZE_def)
qed

text \<open>What \<^verbatim>\<open>iret\<close> and the moves to the segment registers require of a user context, with the whole address space.\<close>

definition user_loadable :: "gdt_state \<Rightarrow> user_context \<Rightarrow> bool" where
  "user_loadable g u \<longleftrightarrow> seg_kind (selected (uc_cs u) g) = Code_segment 3 \<and> flat (selected (uc_cs u) g)
     \<and> list_all (\<lambda>sel. seg_kind (selected sel g) = Data_segment 3 \<and> flat (selected sel g))
         [uc_ss u, uc_ds u, uc_es u, uc_fs u, uc_gs u]"

lemmas seg_eval = seg_kind_def Let_def flat_def seg_base_def seg_last_def seg_limit20_def

lemma user_segments:
  assumes "length (gs_table s) = 6"
  shows "seg_kind (selected 0x23 (gdt_init s)) = Code_segment 3" "flat (selected 0x23 (gdt_init s))"
    "seg_kind (selected 0x2B (gdt_init s)) = Data_segment 3" "flat (selected 0x2B (gdt_init s))"
    "seg_kind (selected 0x1B (gdt_init s)) = System_segment"
  using assms by (simp_all add: gdt_init_entries seg_eval)

text \<open>The two ways into user mode, against the table \<^verbatim>\<open>gdt_init\<close> builds: \<^verbatim>\<open>switch_to_usermode\<close> loads the flat
  code and data segments of privilege level 3, while \<^verbatim>\<open>process_switch\<close> loads the task state segment as code segment
  and the user code segment as stack, neither of which the processor accepts.
\<close>

theorem user_entry_segments:
  assumes "length (gs_table s) = 6" and "process_switch c nxt ps = Some (Enter u, t)"
  shows "user_loadable (gdt_init s) (switch_to_usermode fl entry_point stack_top)
    \<and> seg_kind (selected (uc_cs u) (gdt_init s)) = System_segment
    \<and> seg_kind (selected (uc_ss u) (gdt_init s)) = Code_segment 3
    \<and> \<not> user_loadable (gdt_init s) u"
proof -
  have "uc_cs u = 0x1B" "uc_ss u = 0x23" using assms(2) by (auto simp: process_switch_def split: if_splits bind_splits)
  then show ?thesis by (simp add: user_loadable_def switch_to_usermode_def user_segments [OF assms(1)])
qed

definition demo_gdt :: gdt_state where
  "demo_gdt = \<lparr>gs_table = replicate 6 gdt_entry0, gs_tss = tss0, gs_tss_addr = 0x106000, gs_table_addr = 0x105000,
     gs_gdtr = (0, 0), gs_tr = 0\<rparr>"

lemma user_entry_segments_witness:
  "\<forall>c. \<exists>u t. process_switch c 0xC000000C demo_two = Some (Enter u, t) \<and> uc_eip u = 0x1000
    \<and> seg_kind (selected (uc_cs u) (gdt_init demo_gdt)) = System_segment \<and> \<not> user_loadable (gdt_init demo_gdt) u"
proof
  fix c
  have g: "length (gs_table demo_gdt) = 6" by (simp add: demo_gdt_def)
  have "\<exists>u t. process_switch c 0xC000000C demo_two = Some (Enter u, t) \<and> uc_eip u = 0x1000"
    by (simp add: process_switch_def demo_two_def ps_upd_def)
  then show "\<exists>u t. process_switch c 0xC000000C demo_two = Some (Enter u, t) \<and> uc_eip u = 0x1000
    \<and> seg_kind (selected (uc_cs u) (gdt_init demo_gdt)) = System_segment \<and> \<not> user_loadable (gdt_init demo_gdt) u"
    using user_entry_segments [OF g, of c "0xC000000C" demo_two _ _ 0 0 0] by blast
qed

text \<open>
  What becomes of a flow of control when user mode is to be entered with the table \<open>g\<close>.  \<^verbatim>\<open>iret\<close> to privilege level 3 takes
  a code segment and a stack segment of that level; at any other it raises the general protection exception, 13, with the
  selector (its two privilege bits cleared) as error code, and nothing of the user program runs.
\<close>

datatype 'a flow_end = Returns 'a | Runs user_context | Protection_fault u32 | Halts

definition iret_takes :: "gdt_state \<Rightarrow> u32 \<Rightarrow> seg_class \<Rightarrow> bool" where
  "iret_takes g sel k \<longleftrightarrow> sel AND 3 = 3 \<and> seg_kind (selected sel g) = k"

definition landing :: "gdt_state \<Rightarrow> 'a flow \<Rightarrow> 'a flow_end" where
  "landing g fl = (case fl of Back x \<Rightarrow> Returns x | Halt \<Rightarrow> Halts
     | Enter u \<Rightarrow> if \<not> iret_takes g (uc_cs u) (Code_segment 3) then Protection_fault (uc_cs u AND NOT 3)
         else if \<not> iret_takes g (uc_ss u) (Data_segment 3) then Protection_fault (uc_ss u AND NOT 3)
         else Runs u)"

lemma loadable_runs: "user_loadable g u \<Longrightarrow> uc_cs u AND 3 = 3 \<Longrightarrow> uc_ss u AND 3 = 3 \<Longrightarrow> landing g (Enter u) = Runs u"
  by (simp add: landing_def iret_takes_def user_loadable_def)




end
