(* ===== verification/Gui.thy ===== *)
theory Gui
  imports Serial Console Display
begin

text \<open>
  The window manager, \<^verbatim>\<open>kernel/gui.c\<close>: drawing with the sixteen colours of the text mode on the framebuffer of
  \<open>Display\<close>, and the list of windows, which are allocated from the kernel heap.

  \<^verbatim>\<open>int\<close> coordinates are integers, sums that leave 32 bits (undefined in C) have no result.  The structures
  of the windows are the map \<open>gu_win\<close>; the array \<^verbatim>\<open>title\<close> and the colours behind it are its bytes.
\<close>

subsection \<open>Colours and pixels\<close>

definition int32 :: "int \<Rightarrow> int option" where
  "int32 i = (if - (2 ^ 31) \<le> i \<and> i < 2 ^ 31 then Some i else None)"

definition vga_to_rgb :: "u8 \<Rightarrow> u32" where
  "vga_to_rgb c = [0x000000, 0x0000AA, 0x00AA00, 0x00AAAA, 0xAA0000, 0xAA00AA, 0xAA5500, 0xAAAAAA,
     0x555555, 0x5555FF, 0x55FF55, 0x55FFFF, 0xFF5555, 0xFF55FF, 0xFFFF55, 0xFFFFFF] ! unat (c AND 0x0F)"

text \<open>A coordinate that is not negative is compared as unsigned.\<close>

definition gui_draw_pixel :: "video_mode \<Rightarrow> int \<Rightarrow> int \<Rightarrow> u8 \<Rightarrow> u8 list \<Rightarrow> u8 list option" where
  "gui_draw_pixel m x y color fb =
     (if x < 0 \<or> y < 0 \<or> vm_width m \<le> word_of_int x \<or> vm_height m \<le> word_of_int y then Some fb
      else display_set_pixel m (word_of_int x) (word_of_int y) (vga_to_rgb color) fb)"

definition draw_at :: "video_mode \<Rightarrow> int \<Rightarrow> int \<Rightarrow> u8 \<Rightarrow> u8 list \<Rightarrow> u8 list option" where
  "draw_at m x y color fb = do { px \<leftarrow> int32 x; py \<leftarrow> int32 y; gui_draw_pixel m px py color fb }"

definition gui_clear_screen :: "video_mode \<Rightarrow> u8 \<Rightarrow> u8 list \<Rightarrow> u8 list option" where
  "gui_clear_screen m color = for_loop 0 (unat (vm_height m)) (\<lambda>y. for_loop 0 (unat (vm_width m)) (\<lambda>x.
     display_set_pixel m (of_nat x) (of_nat y) (vga_to_rgb color)))"

definition gui_draw_rect :: "video_mode \<Rightarrow> int \<Rightarrow> int \<Rightarrow> int \<Rightarrow> int \<Rightarrow> u8 \<Rightarrow> u8 list \<Rightarrow> u8 list option" where
  "gui_draw_rect m x y width height color = for_loop 0 (nat height) (\<lambda>dy. for_loop 0 (nat width) (\<lambda>dx.
     draw_at m (x + int dx) (y + int dy) color))"

definition gui_draw_border :: "video_mode \<Rightarrow> int \<Rightarrow> int \<Rightarrow> int \<Rightarrow> int \<Rightarrow> u8 \<Rightarrow> u8 list \<Rightarrow> u8 list option" where
  "gui_draw_border m x y width height color fb = do {
     f1 \<leftarrow> for_loop 0 (nat width) (\<lambda>dx. draw_at m (x + int dx) y color) fb;
     f2 \<leftarrow> for_loop 0 (nat width) (\<lambda>dx. draw_at m (x + int dx) (y + height - 1) color) f1;
     f3 \<leftarrow> for_loop 0 (nat height) (\<lambda>dy. draw_at m x (y + int dy) color) f2;
     for_loop 0 (nat height) (\<lambda>dy. draw_at m (x + width - 1) (y + int dy) color) f3 }"

text \<open>A character is a block of four pixels; \<open>cx\<close> and \<open>cy\<close> are the current position.\<close>

fun draw_chars :: "video_mode \<Rightarrow> int \<Rightarrow> int \<Rightarrow> int \<Rightarrow> cstr \<Rightarrow> u8 \<Rightarrow> u8 list \<Rightarrow> u8 list option" where
  "draw_chars m x cx cy [] color fb = Some fb"
| "draw_chars m x cx cy (c # cs) color fb =
     (if c = 10 then do { cy' \<leftarrow> int32 (cy + 12); draw_chars m x x cy' cs color fb }
      else do {
        f1 \<leftarrow> draw_at m cx cy color fb;
        f2 \<leftarrow> draw_at m (cx + 1) cy color f1;
        f3 \<leftarrow> draw_at m cx (cy + 1) color f2;
        f4 \<leftarrow> draw_at m (cx + 1) (cy + 1) color f3;
        cx' \<leftarrow> int32 (cx + 8);
        draw_chars m x cx' cy cs color f4 })"

definition gui_draw_text :: "video_mode \<Rightarrow> int \<Rightarrow> int \<Rightarrow> cstr \<Rightarrow> u8 \<Rightarrow> u8 list \<Rightarrow> u8 list option" where
  "gui_draw_text m x y str color fb = draw_chars m x x y str color fb"

text \<open>\<^verbatim>\<open>strlen(text) * 8\<close> makes the centring of the text unsigned.\<close>

definition gui_draw_button :: "video_mode \<Rightarrow> int \<Rightarrow> int \<Rightarrow> int \<Rightarrow> int \<Rightarrow> cstr \<Rightarrow> u8 \<Rightarrow> u8 \<Rightarrow> u8 list \<Rightarrow> u8 list option" where
  "gui_draw_button m x y width height str bg_color fg_color fb = do {
     f1 \<leftarrow> gui_draw_rect m x y width height bg_color fb;
     f2 \<leftarrow> gui_draw_border m x y width height 0 f1;
     let text_x = sint (word_of_int x + (word_of_int width - of_nat (length str) * 8) div 2 :: u32);
     h \<leftarrow> int32 (height - 12);
     text_y \<leftarrow> int32 (y + sgn h * (\<bar>h\<bar> div 2));
     gui_draw_text m text_x text_y str fg_color f2 }"

definition gui_draw_taskbar :: "video_mode \<Rightarrow> u8 list \<Rightarrow> u8 list option" where
  "gui_draw_taskbar m fb = (let ty = sint (vm_height m - 30); w = sint (vm_width m); lw = sint (vm_width m - 70 - 100);
       tray_x = sint (vm_width m - 90) in do {
     f1 \<leftarrow> gui_draw_rect m 0 ty w 30 7 fb;
     f2 \<leftarrow> gui_draw_border m 0 ty w 30 0 f1;
     ty5 \<leftarrow> int32 (ty + 5);
     f3 \<leftarrow> gui_draw_button m 5 ty5 60 20 (asc ''Start'') 9 0 f2;
     f4 \<leftarrow> (if 0 < lw then do {
         u \<leftarrow> gui_draw_rect m 70 ty5 lw 20 15 f3;
         gui_draw_border m 70 ty5 lw 20 8 u }
       else Some f3);
     f5 \<leftarrow> gui_draw_rect m tray_x ty5 85 20 15 f4;
     gui_draw_border m tray_x ty5 85 20 8 f5 })"

subsection \<open>Windows\<close>

record gwin =
  wi_id :: int
  wi_x :: int
  wi_y :: int
  wi_width :: int
  wi_height :: int
  wi_title :: "u8 list"
  wi_bg :: u8
  wi_fg :: u8
  wi_border :: u8
  wi_state :: int
  wi_visible :: bool
  wi_focused :: bool
  wi_next :: addr

definition WINDOW_SIZE :: u32 where "WINDOW_SIZE = 104"

record gui =
  gu_bg :: u8
  gu_windows :: addr
  gu_focused :: addr
  gu_count :: int
  gu_next_id :: int
  gu_active :: bool
  gu_win :: "addr \<Rightarrow> gwin option"
  gu_heap :: kheap
  gu_mode :: video_mode
  gu_fb :: "u8 list"
  gu_con :: console
  gu_log :: serial

definition gu_upd :: "addr \<Rightarrow> (gwin \<Rightarrow> gwin) \<Rightarrow> gui \<Rightarrow> gui option" where
  "gu_upd p f s = map_option (\<lambda>w. s\<lparr>gu_win := (gu_win s)(p \<mapsto> f w)\<rparr>) (gu_win s p)"

definition gu_paint :: "(video_mode \<Rightarrow> u8 list \<Rightarrow> u8 list option) \<Rightarrow> gui \<Rightarrow> gui option" where
  "gu_paint f s = map_option (\<lambda>fb. s\<lparr>gu_fb := fb\<rparr>) (f (gu_mode s) (gu_fb s))"

definition gu_say :: "string \<Rightarrow> gui \<Rightarrow> gui option" where
  "gu_say t s = map_option (\<lambda>p. s\<lparr>gu_log := p\<rparr>) (serial_write (asc t @ [13, 10]) (gu_log s))"

text \<open>The title as a string: without a NUL in its 64 bytes it goes on into the colours.\<close>

definition title_text :: "gwin \<Rightarrow> cstr option" where
  "title_text w = (let b = wi_title w @ [wi_bg w, wi_fg w, wi_border w] in
     if 0 \<in> set b then Some (takeWhile (\<lambda>c. c \<noteq> 0) b) else None)"

definition draw_window :: "gwin \<Rightarrow> video_mode \<Rightarrow> u8 list \<Rightarrow> u8 list option" where
  "draw_window w m fb =
     (if \<not> wi_visible w then Some fb
      else do {
        f1 \<leftarrow> gui_draw_rect m (wi_x w) (wi_y w) (wi_width w) (wi_height w) (wi_bg w) fb;
        f2 \<leftarrow> gui_draw_border m (wi_x w) (wi_y w) (wi_width w) (wi_height w) (wi_border w) f1;
        f3 \<leftarrow> gui_draw_rect m (wi_x w) (wi_y w) (wi_width w) 25 9 f2;
        title \<leftarrow> title_text w;
        tx \<leftarrow> int32 (wi_x w + 5);
        ty \<leftarrow> int32 (wi_y w + 5);
        f4 \<leftarrow> gui_draw_text m tx ty title 0 f3;
        bx \<leftarrow> int32 (wi_x w + wi_width w - 25);
        byy \<leftarrow> int32 (wi_y w + 2);
        gui_draw_button m bx byy 20 20 (asc ''X'') 12 15 f4 })"

definition gui_draw_window :: "addr \<Rightarrow> gui \<Rightarrow> gui option" where
  "gui_draw_window p s = (if p = 0 then Some s else do { w \<leftarrow> gu_win s p; gu_paint (draw_window w) s })"

partial_function (option) draw_windows :: "addr \<Rightarrow> gui \<Rightarrow> gui option" where
  "draw_windows p s =
     (if p = 0 then Some s
      else do {
        w \<leftarrow> gu_win s p;
        s1 \<leftarrow> (if wi_visible w then gui_draw_window p s else Some s);
        draw_windows (wi_next w) s1 })"

definition gui_draw_desktop :: "gui \<Rightarrow> gui option" where
  "gui_draw_desktop s =
     (if \<not> gu_active s then Some s
      else do {
        s1 \<leftarrow> gu_paint (\<lambda>m. gui_clear_screen m (gu_bg s)) s;
        s2 \<leftarrow> gu_paint gui_draw_taskbar s1;
        draw_windows (gu_windows s2) s2 })"

text \<open>\<^verbatim>\<open>strcpy\<close> into the title: it must end before the end of the structure, whose members behind the
  title are assigned afterwards; byte 67 is padding.  What the heap held behind the NUL is never read.\<close>

definition title_of :: "cstr \<Rightarrow> u8 list \<Rightarrow> u8 list option" where
  "title_of title old =
     (if length title < 84 then Some (take 64 (title @ [0] @ drop (length title + 1) old)) else None)"

definition gui_create_window :: "int \<Rightarrow> int \<Rightarrow> int \<Rightarrow> int \<Rightarrow> cstr \<Rightarrow> gui \<Rightarrow> (addr \<times> gui) option" where
  "gui_create_window x y width height title s = (case kmalloc WINDOW_SIZE (gu_heap s) of (p, h) \<Rightarrow>
     let s1 = s\<lparr>gu_heap := h\<rparr> in
     if p = 0 then Some (0, s1)
     else do {
       n \<leftarrow> int32 (gu_next_id s + 1);
       t \<leftarrow> title_of title (replicate 64 0);
       c \<leftarrow> int32 (gu_count s + 1);
       Some (p, s1\<lparr>gu_next_id := n, gu_count := c, gu_windows := p,
         gu_win := (gu_win s)(p \<mapsto> \<lparr>wi_id = gu_next_id s, wi_x = x, wi_y = y, wi_width = width, wi_height = height,
           wi_title = t, wi_bg = 15, wi_fg = 0, wi_border = 0, wi_state = 0, wi_visible = True, wi_focused = False,
           wi_next = gu_windows s\<rparr>)\<rparr>) })"

text \<open>The walk to the window before \<open>target\<close>; 0 when it is not in the list.\<close>

partial_function (option) window_before :: "gui \<Rightarrow> addr \<Rightarrow> addr \<Rightarrow> addr option" where
  "window_before s target p =
     (if p = 0 then Some 0
      else do { w \<leftarrow> gu_win s p; if wi_next w = target then Some p else window_before s target (wi_next w) })"

definition gui_destroy_window :: "addr \<Rightarrow> gui \<Rightarrow> gui option" where
  "gui_destroy_window p s =
     (if p = 0 then Some s
      else do {
        w \<leftarrow> gu_win s p;
        s1 \<leftarrow> (if gu_windows s = p then Some (s\<lparr>gu_windows := wi_next w\<rparr>)
               else do {
                 q \<leftarrow> window_before s p (gu_windows s);
                 if q = 0 then Some s else gu_upd q (\<lambda>v. v\<lparr>wi_next := wi_next w\<rparr>) s });
        let s2 = (if gu_focused s1 = p then s1\<lparr>gu_focused := 0\<rparr> else s1);
        c \<leftarrow> int32 (gu_count s2 - 1);
        h \<leftarrow> kfree p (gu_heap s2);
        Some (s2\<lparr>gu_count := c, gu_heap := h, gu_win := (gu_win s2)(p := None)\<rparr>) })"

definition gui_focus_window :: "addr \<Rightarrow> gui \<Rightarrow> gui option" where
  "gui_focus_window p s =
     (if p = 0 then Some s
      else do {
        s1 \<leftarrow> (if gu_focused s \<noteq> 0 then gu_upd (gu_focused s) (\<lambda>w. w\<lparr>wi_focused := False\<rparr>) s else Some s);
        s2 \<leftarrow> gu_upd p (\<lambda>w. w\<lparr>wi_focused := True\<rparr>) (s1\<lparr>gu_focused := p\<rparr>);
        gui_draw_desktop s2 })"

definition gui_move_window :: "addr \<Rightarrow> int \<Rightarrow> int \<Rightarrow> gui \<Rightarrow> gui option" where
  "gui_move_window p new_x new_y s =
     (if p = 0 then Some s else do { s1 \<leftarrow> gu_upd p (\<lambda>w. w\<lparr>wi_x := new_x, wi_y := new_y\<rparr>) s; gui_draw_desktop s1 })"

definition gui_resize_window :: "addr \<Rightarrow> int \<Rightarrow> int \<Rightarrow> gui \<Rightarrow> gui option" where
  "gui_resize_window p new_width new_height s =
     (if p = 0 then Some s
      else do { s1 \<leftarrow> gu_upd p (\<lambda>w. w\<lparr>wi_width := new_width, wi_height := new_height\<rparr>) s; gui_draw_desktop s1 })"

subsection \<open>The desktop\<close>

definition gui_init :: "gui \<Rightarrow> gui option" where
  "gui_init s = do {
     s1 \<leftarrow> gu_say ''[GUI] Initializing GUI system'' s;
     gu_say ''[GUI] GUI system initialized (inactive)'' (s1\<lparr>gu_bg := 1, gu_windows := 0, gu_focused := 0, gu_count := 0,
       gu_next_id := 1, gu_active := False\<rparr>) }"

partial_function (option) free_windows :: "addr \<Rightarrow> gui \<Rightarrow> gui option" where
  "free_windows p s =
     (if p = 0 then Some s
      else do {
        w \<leftarrow> gu_win s p;
        h \<leftarrow> kfree p (gu_heap s);
        free_windows (wi_next w) (s\<lparr>gu_heap := h, gu_win := (gu_win s)(p := None)\<rparr>) })"

definition colour_window :: "addr \<Rightarrow> u8 \<Rightarrow> u8 \<Rightarrow> gui \<Rightarrow> gui option" where
  "colour_window p bg fg s = (if p = 0 then Some s else gu_upd p (\<lambda>w. w\<lparr>wi_bg := bg, wi_fg := fg\<rparr>) s)"

definition gui_create_sample_windows :: "gui \<Rightarrow> gui option" where
  "gui_create_sample_windows s = do {
     s1 \<leftarrow> free_windows (gu_windows s) s;
     let s2 = s1\<lparr>gu_windows := 0, gu_focused := 0, gu_count := 0, gu_next_id := 1\<rparr>;
     (w1, s3) \<leftarrow> gui_create_window 50 50 300 200 (asc ''RetaOS Terminal'') s2;
     s4 \<leftarrow> colour_window w1 0 10 s3;
     (w2, s5) \<leftarrow> gui_create_window 400 100 250 150 (asc ''File Manager'') s4;
     s6 \<leftarrow> colour_window w2 15 0 s5;
     (w3, s7) \<leftarrow> gui_create_window 150 300 350 180 (asc ''System Information'') s6;
     s8 \<leftarrow> colour_window w3 7 0 s7;
     if w1 \<noteq> 0 then gui_focus_window w1 s8 else Some s8 }"

definition gui_show :: "gui \<Rightarrow> gui option" where
  "gui_show s = do {
     s1 \<leftarrow> gu_say ''[GUI] Activating GUI system'' s;
     s2 \<leftarrow> gui_create_sample_windows (s1\<lparr>gu_active := True\<rparr>);
     s3 \<leftarrow> gui_draw_desktop s2;
     gu_say ''[GUI] GUI system activated'' s3 }"

definition gui_hide :: "gui \<Rightarrow> gui option" where
  "gui_hide s = do {
     s1 \<leftarrow> gu_say ''[GUI] Deactivating GUI system'' s;
     c \<leftarrow> console_clear (gu_con s1);
     gu_say ''[GUI] GUI system deactivated'' (s1\<lparr>gu_active := False, gu_con := c\<rparr>) }"

definition gui_handle_keypress :: "u8 \<Rightarrow> gui \<Rightarrow> gui option" where
  "gui_handle_keypress key s = (if \<not> gu_active s then Some s else if key = 27 then gui_hide s else Some s)"

definition gui_update :: "gui \<Rightarrow> gui option" where
  "gui_update s = (if \<not> gu_active s then Some s else gui_draw_desktop s)"

definition gui_is_active :: "gui \<Rightarrow> bool" where "gui_is_active s = gu_active s"

subsection \<open>Rectangles on the screen\<close>

text \<open>The pixels of a rectangle with signed corners.\<close>

definition in_rect :: "int \<Rightarrow> int \<Rightarrow> int \<Rightarrow> int \<Rightarrow> nat \<Rightarrow> nat \<Rightarrow> bool" where
  "in_rect x y w h px py \<longleftrightarrow> x \<le> int px \<and> int px < x + w \<and> y \<le> int py \<and> int py < y + h"

definition on_screen :: "video_mode \<Rightarrow> nat \<Rightarrow> nat \<Rightarrow> bool" where
  "on_screen m px py \<longleftrightarrow> px < unat (vm_width m) \<and> py < unat (vm_height m)"

lemma int32_Some: "- (2 ^ 31) \<le> i \<Longrightarrow> i < 2 ^ 31 \<Longrightarrow> int32 i = Some i"
  by (simp add: int32_def)

lemma unat_coord: "0 \<le> i \<Longrightarrow> i < 2 ^ 31 \<Longrightarrow> unat (word_of_int i :: u32) = nat i"
  by (simp add: unat_eq_nat_uint uint_word_of_int)

lemma draw_at_painted:
  assumes m: "mode_ok m fb" and x: "- (2 ^ 31) \<le> x" "x < 2 ^ 31" and y: "- (2 ^ 31) \<le> y" "y < 2 ^ 31"
  shows "\<exists>fb'. draw_at m x y c fb = Some fb'
    \<and> painted m (\<lambda>px py. int px = x \<and> int py = y \<and> on_screen m px py) (vga_to_rgb c) fb fb'"
proof (cases "x < 0 \<or> y < 0 \<or> vm_width m \<le> word_of_int x \<or> vm_height m \<le> word_of_int y")
  case True
  then have "draw_at m x y c fb = Some fb"
    using x y by (simp add: draw_at_def int32_Some gui_draw_pixel_def)
  moreover have "painted m (\<lambda>px py. int px = x \<and> int py = y \<and> on_screen m px py) (vga_to_rgb c) fb fb"
    using painted_none
  proof (rule painted_cong)
    fix px py show "False = (int px = x \<and> int py = y \<and> on_screen m px py)"
      using True x y by (auto simp: on_screen_def word_le_nat_alt unat_of_nat)
  qed
  ultimately show ?thesis by blast
next
  case False
  then have n: "nat x < unat (vm_width m)" "nat y < unat (vm_height m)" "0 \<le> x" "0 \<le> y"
    using x y by (auto simp: not_le word_less_nat_alt unat_coord)
  have w: "word_of_int x = (of_nat (nat x) :: u32)" "word_of_int y = (of_nat (nat y) :: u32)" using n by simp_all
  obtain fb' where f: "put_pixel_linear (vm_pitch m) (ucast (vm_bpp m)) (of_nat (nat x)) (of_nat (nat y)) (vga_to_rgb c) fb = Some fb'"
    "painted m (\<lambda>x' y'. x' = nat x \<and> y' = nat y) (vga_to_rgb c) fb fb'"
    using put_pixel_painted [OF m n(1,2)] by blast
  have "vm_addr m \<noteq> 0" using m by (simp add: mode_ok_def)
  then have "draw_at m x y c fb = Some fb'"
    using False x y f(1) unfolding draw_at_def gui_draw_pixel_def display_set_pixel_def by (simp add: int32_Some w del: of_nat_nat)
  moreover from f(2) have "painted m (\<lambda>px py. int px = x \<and> int py = y \<and> on_screen m px py) (vga_to_rgb c) fb fb'"
    by (rule painted_cong) (use n in \<open>auto simp: on_screen_def\<close>)
  ultimately show ?thesis by blast
qed

lemma for_paints:
  assumes m: "mode_ok m fb"
    and b: "\<And>k f. k < n \<Longrightarrow> mode_ok m f \<Longrightarrow> \<exists>f'. body k f = Some f' \<and> painted m (S k) rgb f f'"
  shows "\<exists>fb'. for_loop 0 n body fb = Some fb' \<and> painted m (\<lambda>x y. \<exists>k<n. S k x y) rgb fb fb'"
proof -
  let ?P = "\<lambda>j. painted m (\<lambda>x y. \<exists>k<j. S k x y) rgb fb"
  have "\<exists>fb'. for_loop 0 n body fb = Some fb' \<and> ?P (0 + n) fb'"
  proof (rule for_loop_rule [where P = ?P])
    show "?P 0 fb" using painted_none by (rule painted_cong) simp
    fix k f assume k: "k < 0 + n" and f: "?P k f"
    have "mode_ok m f" using m painted_mode [OF f] by simp
    then obtain f' where f': "body k f = Some f'" "painted m (S k) rgb f f'" using b [of k f] k by auto
    have "?P (Suc k) f'" by (rule painted_join [OF f f'(2)]) (auto simp: less_Suc_eq)
    with f'(1) show "\<exists>u. body k f = Some u \<and> ?P (Suc k) u" by blast
  qed
  then show ?thesis by simp
qed

lemma painted_unique:
  assumes "mode_ok m fb" and f: "painted m S rgb fb f" and g: "painted m S rgb fb g"
  shows "f = g"
proof (rule nth_equalityI)
  show "length f = length g" using f g by (simp add: painted_def)
  fix i assume i: "i < length f"
  let ?p = "unat (vm_pitch m)"
  have l: "i < unat (vm_height m) * ?p" using i f assms(1) by (simp add: painted_def mode_ok_def)
  then have "0 < ?p" by (cases "?p = 0") auto
  then have "i div ?p < unat (vm_height m)" "i mod ?p < ?p" using l by (simp_all add: less_mult_imp_div_less)
  then have "f ! (i div ?p * ?p + i mod ?p) = g ! (i div ?p * ?p + i mod ?p)" using f g by (simp only: painted_def)
  then show "f ! i = g ! i" by simp
qed

lemma rect_painted:
  assumes m: "mode_ok m fb" and x: "- (2 ^ 31) \<le> x" "x + w \<le> 2 ^ 31" and y: "- (2 ^ 31) \<le> y" "y + h \<le> 2 ^ 31"
  shows "\<exists>fb'. gui_draw_rect m x y w h c fb = Some fb'
    \<and> painted m (\<lambda>px py. in_rect x y w h px py \<and> on_screen m px py) (vga_to_rgb c) fb fb'"
proof -
  let ?S = "\<lambda>dy dx px py. int px = x + int dx \<and> int py = y + int dy \<and> on_screen m px py"
  have "\<exists>f'. for_loop 0 (nat w) (\<lambda>dx. draw_at m (x + int dx) (y + int dy) c) f = Some f'
      \<and> painted m (\<lambda>px py. \<exists>dx<nat w. ?S dy dx px py) (vga_to_rgb c) f f'" if "dy < nat h" "mode_ok m f" for dy f
    using that x y by (intro for_paints draw_at_painted) auto
  then obtain fb' where f: "gui_draw_rect m x y w h c fb = Some fb'"
    "painted m (\<lambda>px py. \<exists>dy<nat h. \<exists>dx<nat w. ?S dy dx px py) (vga_to_rgb c) fb fb'"
    using for_paints [OF m, of "nat h" "\<lambda>dy. for_loop 0 (nat w) (\<lambda>dx. draw_at m (x + int dx) (y + int dy) c)"
        "\<lambda>dy px py. \<exists>dx<nat w. ?S dy dx px py" "vga_to_rgb c"]
    unfolding gui_draw_rect_def by blast
  have "(\<exists>dy<nat h. \<exists>dx<nat w. ?S dy dx px py) = (in_rect x y w h px py \<and> on_screen m px py)" (is "?L px py = ?R px py") for px py
  proof
    assume a: "in_rect x y w h px py \<and> on_screen m px py"
    then have "nat (int py - y) < nat h \<and> nat (int px - x) < nat w \<and> ?S (nat (int py - y)) (nat (int px - x)) px py"
      by (auto simp: in_rect_def)
    then show "\<exists>dy<nat h. \<exists>dx<nat w. ?S dy dx px py" by blast
  qed (auto simp: in_rect_def)
  then have "painted m (\<lambda>px py. in_rect x y w h px py \<and> on_screen m px py) (vga_to_rgb c) fb fb'"
    by (rule painted_cong [OF f(2)])
  with f(1) show ?thesis by blast
qed

text \<open>\<^verbatim>\<open>gui_draw_rect\<close> with signed coordinates paints exactly the pixels of the rectangle that are on the screen, also
  where it begins left of or above it; for coordinates that are not negative it is \<^verbatim>\<open>display_fill_rect\<close> with the
  colour of the palette.
\<close>

theorem gui_draw_rect_fill:
  assumes "mode_ok m fb" and "- (2 ^ 31) \<le> x" and "x + w \<le> 2 ^ 31" and "- (2 ^ 31) \<le> y" and "y + h \<le> 2 ^ 31"
  shows "\<exists>fb'. gui_draw_rect m x y w h c fb = Some fb'
    \<and> painted m (\<lambda>px py. in_rect x y w h px py \<and> on_screen m px py) (vga_to_rgb c) fb fb'
    \<and> (0 \<le> x \<and> 0 \<le> y \<and> 0 \<le> w \<and> 0 \<le> h \<longrightarrow> display_fill_rect m (word_of_int x) (word_of_int y) (word_of_int w) (word_of_int h)
         (vga_to_rgb c) fb = Some fb')"
proof -
  obtain fb' where f: "gui_draw_rect m x y w h c fb = Some fb'"
    "painted m (\<lambda>px py. in_rect x y w h px py \<and> on_screen m px py) (vga_to_rgb c) fb fb'"
    using rect_painted [OF assms] by blast
  moreover have "display_fill_rect m (word_of_int x) (word_of_int y) (word_of_int w) (word_of_int h) (vga_to_rgb c) fb = Some fb'"
    if p: "0 \<le> x" "0 \<le> y" "0 \<le> w" "0 \<le> h"
  proof -
    have u: "unat (word_of_int i :: u32) = nat i" if "0 \<le> i" "i \<le> 2 ^ 31" for i
      using that by (simp add: unat_eq_nat_uint uint_word_of_int)
    have wh: "w \<le> 2 ^ 31" "h \<le> 2 ^ 31" "x \<le> 2 ^ 31" "y \<le> 2 ^ 31" using p assms(3,5) by simp_all
    have l: "nat x + unat (word_of_int w :: u32) = nat (x + w)" "nat y + unat (word_of_int h :: u32) = nat (y + h)"
      using p assms by (simp_all add: u [OF p(3) wh(1)] u [OF p(4) wh(2)] nat_add_distrib p)
    have lt: "nat (x + w) < 2 ^ 32" "nat (y + h) < 2 ^ 32" using assms(3,5) by simp_all
    obtain g where g: "display_fill_rect m (word_of_int x) (word_of_int y) (word_of_int w) (word_of_int h) (vga_to_rgb c) fb = Some g"
      "painted m (\<lambda>x' y'. nat x \<le> x' \<and> x' < min (nat (x + w)) (unat (vm_width m))
          \<and> nat y \<le> y' \<and> y' < min (nat (y + h)) (unat (vm_height m))) (vga_to_rgb c) fb g"
      using display_fill_rect_paints [OF assms(1), of "word_of_int x" "word_of_int w" "word_of_int y" "word_of_int h" "vga_to_rgb c"] lt
      unfolding u [OF p(1) wh(3)] u [OF p(2) wh(4)] l by blast
    have "painted m (\<lambda>px py. in_rect x y w h px py \<and> on_screen m px py) (vga_to_rgb c) fb g"
      using g(2) by (rule painted_cong) (use p in \<open>auto simp: in_rect_def on_screen_def\<close>)
    then show ?thesis using g(1) painted_unique [OF assms(1) f(2)] by simp
  qed
  ultimately show ?thesis by blast
qed

text \<open>A rectangle over the upper left corner of a screen of 2 by 2 pixels.\<close>

lemma gui_draw_rect_fill_witness:
  "\<exists>fb'. gui_draw_rect \<lparr>vm_width = 2, vm_height = 2, vm_pitch = 6, vm_bpp = 24, vm_addr = 0xFD000000\<rparr> (- 3) (- 1) 4 2 9
      (replicate 12 0) = Some fb' \<and> fb' ! 0 = 0xFF \<and> fb' ! 3 = 0 \<and> fb' ! 6 = 0"
proof -
  let ?m = "\<lparr>vm_width = 2, vm_height = 2, vm_pitch = 6, vm_bpp = 24, vm_addr = 0xFD000000\<rparr>"
  have m: "mode_ok ?m (replicate 12 0)" by (simp add: mode_ok_def bytes_pp_def)
  obtain fb' where f: "gui_draw_rect ?m (- 3) (- 1) 4 2 9 (replicate 12 0) = Some fb'"
      "painted ?m (\<lambda>px py. in_rect (- 3) (- 1) 4 2 px py \<and> on_screen ?m px py) (vga_to_rgb 9) (replicate 12 0) fb'"
    using gui_draw_rect_fill [OF m, of "- 3" 4 "- 1" 2 9] by auto
  have b: "fb' ! (r * 6 + j) = (if j div 3 = 0 \<and> r = 0 then pixel_bytes (vga_to_rgb 9) ! (j mod 3) else 0)" if "r < 2" "j < 6" for r j
    using f(2) that by (auto simp: painted_def bytes_pp_def in_rect_def on_screen_def)
  have "(9 AND 0x0F :: u8) = 9" by simp
  then have "fb' ! 0 = 0xFF" "fb' ! 3 = 0" "fb' ! 6 = 0"
    using b [of 0 0] b [of 0 3] b [of 1 0] by (simp_all add: pixel_bytes_def vga_to_rgb_def)
  with f(1) show ?thesis by blast
qed

subsection \<open>Drawing stays inside the framebuffer\<close>

definition safe_draw :: "video_mode \<Rightarrow> (u8 list \<Rightarrow> u8 list option) \<Rightarrow> bool" where
  "safe_draw m d \<longleftrightarrow> (\<forall>fb. mode_ok m fb \<longrightarrow> (\<exists>fb'. d fb = Some fb' \<and> length fb' = length fb))"

definition near :: "int \<Rightarrow> bool" where "near i \<longleftrightarrow> - (2 ^ 29) \<le> i \<and> i < 2 ^ 29"

lemma safe_Some [simp, intro]: "safe_draw m Some"
  by (simp add: safe_draw_def)

lemma safe_bind:
  assumes d: "safe_draw m d" and e: "safe_draw m e"
  shows "safe_draw m (\<lambda>fb. Option.bind (d fb) e)"
  unfolding safe_draw_def
proof (intro allI impI)
  fix fb assume fb: "mode_ok m fb"
  with d obtain f where f: "d fb = Some f" "length f = length fb" unfolding safe_draw_def by blast
  then have "mode_ok m f" using fb by (simp add: mode_ok_def)
  with e obtain g where "e f = Some g" "length g = length f" unfolding safe_draw_def by blast
  with f show "\<exists>fb'. Option.bind (d fb) e = Some fb' \<and> length fb' = length fb" by simp
qed

lemma safe_loop:
  "(\<And>k. i \<le> k \<Longrightarrow> k < i + n \<Longrightarrow> safe_draw m (body k)) \<Longrightarrow> safe_draw m (for_loop i n body)"
proof (induction n arbitrary: i)
  case (Suc n)
  have e: "for_loop i (Suc n) body = (\<lambda>fb. Option.bind (body i fb) (for_loop (Suc i) n body))"
    by (simp add: fun_eq_iff)
  show ?case unfolding e by (rule safe_bind) (use Suc in auto)
qed (auto simp: safe_draw_def)

lemma painted_safe:
  assumes "\<And>fb. mode_ok m fb \<Longrightarrow> \<exists>fb'. d fb = Some fb' \<and> painted m S rgb fb fb'"
  shows "safe_draw m d"
  unfolding safe_draw_def
proof (intro allI impI)
  fix fb assume "mode_ok m fb"
  then obtain fb' where f: "d fb = Some fb'" "painted m S rgb fb fb'" using assms by blast
  from f(2) have "length fb' = length fb" by (simp add: painted_def)
  with f(1) show "\<exists>fb'. d fb = Some fb' \<and> length fb' = length fb" by blast
qed

lemma safe_at: "- (2 ^ 31) \<le> x \<Longrightarrow> x < 2 ^ 31 \<Longrightarrow> - (2 ^ 31) \<le> y \<Longrightarrow> y < 2 ^ 31 \<Longrightarrow> safe_draw m (draw_at m x y c)"
  by (rule painted_safe) (rule draw_at_painted)

lemma safe_rect: "near x \<Longrightarrow> near y \<Longrightarrow> near w \<Longrightarrow> near h \<Longrightarrow> safe_draw m (gui_draw_rect m x y w h c)"
  by (rule painted_safe) (rule rect_painted, auto simp: near_def)

lemma safe_border: "near x \<Longrightarrow> near y \<Longrightarrow> near w \<Longrightarrow> near h \<Longrightarrow> safe_draw m (gui_draw_border m x y w h c)"
  unfolding gui_draw_border_def by (intro safe_bind safe_loop safe_at) (auto simp: near_def)

lemma safe_clear: "safe_draw m (gui_clear_screen m c)"
proof -
  have "safe_draw m (display_set_pixel m (of_nat x) (of_nat y) (vga_to_rgb c))"
    if "x < unat (vm_width m)" "y < unat (vm_height m)" for x y
  proof (rule painted_safe)
    fix fb assume m: "mode_ok m fb"
    have b: "x < 2 ^ 32" "y < 2 ^ 32"
      using that unsigned_less [of "vm_width m", where ?'a = nat] unsigned_less [of "vm_height m", where ?'a = nat] by simp_all
    then have "\<not> vm_width m \<le> of_nat x" "\<not> vm_height m \<le> of_nat y" using that by (simp_all add: word_le_nat_alt unat_of_nat)
    then show "\<exists>fb'. display_set_pixel m (of_nat x) (of_nat y) (vga_to_rgb c) fb = Some fb'
        \<and> painted m (\<lambda>x' y'. x' = x \<and> y' = y) (vga_to_rgb c) fb fb'"
      using put_pixel_painted [OF m that, of "vga_to_rgb c"] m by (simp add: display_set_pixel_def mode_ok_def)
  qed
  then show ?thesis unfolding gui_clear_screen_def by (intro safe_loop) auto
qed

lemma safe_chars:
  "- (2 ^ 30) \<le> x \<Longrightarrow> - (2 ^ 30) \<le> cx \<Longrightarrow> - (2 ^ 30) \<le> cy \<Longrightarrow> x + 8 * int (length cs) < 2 ^ 30
   \<Longrightarrow> cx + 8 * int (length cs) < 2 ^ 30 \<Longrightarrow> cy + 12 * int (length cs) < 2 ^ 30 \<Longrightarrow> safe_draw m (draw_chars m x cx cy cs c)"
proof (induction cs arbitrary: cx cy)
  case Nil
  then show ?case by (simp add: safe_draw_def)
next
  case (Cons a cs)
  note p = Cons.prems
  have i: "int32 (cx + 8) = Some (cx + 8)" "int32 (cy + 12) = Some (cy + 12)" using p by (simp_all add: int32_Some)
  show ?case
  proof (cases "a = 10")
    case True
    then have "draw_chars m x cx cy (a # cs) c = draw_chars m x x (cy + 12) cs c" using i by (simp add: fun_eq_iff)
    moreover have "safe_draw m (draw_chars m x x (cy + 12) cs c)" by (rule Cons.IH) (use p in auto)
    ultimately show ?thesis by simp
  next
    case False
    then have e: "draw_chars m x cx cy (a # cs) c = (\<lambda>fb. Option.bind (draw_at m cx cy c fb) (\<lambda>fb. Option.bind (draw_at m (cx + 1) cy c fb)
      (\<lambda>fb. Option.bind (draw_at m cx (cy + 1) c fb) (\<lambda>fb. Option.bind (draw_at m (cx + 1) (cy + 1) c fb)
        (draw_chars m x (cx + 8) cy cs c)))))" using i by (simp add: fun_eq_iff)
    have "safe_draw m (draw_chars m x (cx + 8) cy cs c)" by (rule Cons.IH) (use p in auto)
    then show ?thesis unfolding e by (intro safe_bind safe_at) (use p in auto)
  qed
qed

lemma safe_text:
  "near x \<Longrightarrow> near y \<Longrightarrow> length cs < 2 ^ 16 \<Longrightarrow> safe_draw m (gui_draw_text m x y cs c)"
  unfolding gui_draw_text_def by (rule safe_chars) (auto simp: near_def)

lemma half_word: "0 \<le> k \<Longrightarrow> k < 2 ^ 29 \<Longrightarrow> word_of_int k div 2 = (word_of_int (k div 2) :: u32)"
  by (simp add: word_uint_eq_iff uint_div uint_word_of_int)

lemma sint_int: "- (2 ^ 31) \<le> i \<Longrightarrow> i < 2 ^ 31 \<Longrightarrow> sint (word_of_int i :: u32) = i"
  by (simp add: sint_sbintrunc' signed_take_bit_int_eq_self)

lemma text_centred:
  assumes "near x" and "near w" and "8 * int n \<le> w"
  shows "sint (word_of_int x + (word_of_int w - of_nat n * 8) div 2 :: u32) = x + (w - 8 * int n) div 2"
proof -
  let ?k = "w - 8 * int n"
  have k: "0 \<le> ?k" "?k < 2 ^ 29" using assms by (auto simp: near_def)
  have "word_of_int w - of_nat n * 8 = (word_of_int ?k :: u32)" by simp
  moreover have "word_of_int ?k div 2 = (word_of_int (?k div 2) :: u32)"
    using k by (rule half_word)
  ultimately have "word_of_int x + (word_of_int w - of_nat n * 8) div 2 = (word_of_int (x + ?k div 2) :: u32)" by (simp only: of_int_add)
  moreover have "- (2 ^ 31) \<le> x + ?k div 2" "x + ?k div 2 < 2 ^ 31" using assms(1) k by (auto simp: near_def)
  ultimately show ?thesis by (simp only: sint_int)
qed

lemma safe_button:
  assumes n: "near x" "near y" "near w" "near h" and str: "8 * int (length str) \<le> w" "length str < 2 ^ 16"
    and b: "near (x + w)" "near (y + \<bar>h\<bar>)"  "12 \<le> h"
  shows "safe_draw m (gui_draw_button m x y w h str c d)"
proof -
  let ?tx = "x + (w - 8 * int (length str)) div 2" and ?ty = "y + sgn (h - 12) * (\<bar>h - 12\<bar> div 2)"
  have i: "int32 (h - 12) = Some (h - 12)" using n by (simp add: int32_Some near_def)
  have "near ?tx" using n str b by (auto simp: near_def)
  moreover have ty: "near ?ty" using n b by (cases "h = 12") (auto simp: near_def)
  moreover have "int32 ?ty = Some ?ty" using ty by (simp add: int32_Some near_def)
  moreover have "gui_draw_button m x y w h str c d = (\<lambda>fb. Option.bind (gui_draw_rect m x y w h c fb) (\<lambda>fb.
      Option.bind (gui_draw_border m x y w h 0 fb) (gui_draw_text m ?tx ?ty str d)))"
    using i calculation(3) text_centred [OF n(1,3) str(1)] by (simp add: gui_draw_button_def fun_eq_iff)
  ultimately show ?thesis using n str by (simp add: safe_bind safe_rect safe_border safe_text)
qed

definition screen_ok :: "video_mode \<Rightarrow> bool" where
  "screen_ok m \<longleftrightarrow> uint (vm_width m) < 2 ^ 28 \<and> uint (vm_height m) < 2 ^ 28"

lemma sint_minus:
  assumes "uint (v :: u32) < 2 ^ 28" and "0 \<le> k" and "k < 2 ^ 28"
  shows "sint (v - word_of_int k) = uint v - k"
proof -
  obtain u where u: "uint v = u" "0 \<le> u" using uint_ge_0 [of v] by blast
  have "- (2 ^ 31) \<le> uint v - k" "uint v - k < 2 ^ 31" using assms u by simp_all
  then have "sint (word_of_int (uint v - k) :: u32) = uint v - k" by (rule sint_int)
  then show ?thesis by simp
qed

lemma safe_taskbar:
  assumes "screen_ok m"
  shows "safe_draw m (gui_draw_taskbar m)"
proof -
  obtain w h where wh: "uint (vm_width m) = w" "uint (vm_height m) = h" "0 \<le> w" "0 \<le> h"
    using uint_ge_0 [of "vm_width m"] uint_ge_0 [of "vm_height m"] by blast
  have k: "w < 2 ^ 28" "h < 2 ^ 28" "0 \<le> w" "0 \<le> h" using assms wh by (simp_all add: screen_ok_def)
  have s: "sint (vm_height m - 30) = h - 30" "sint (vm_width m) = w" "sint (vm_width m - 70 - 100) = w - 170"
      "sint (vm_width m - 90) = w - 90"
    using sint_minus [of "vm_height m" 30] sint_minus [of "vm_width m" 0] sint_minus [of "vm_width m" 170] sint_minus [of "vm_width m" 90]
      assms by (simp_all add: screen_ok_def wh)
  have n: "near 0" "near 30" "near 20" "near 85" "near 5" "near 60" "near 70" "near (h - 30)" "near w" "near (w - 170)" "near (w - 90)"
      "near (h - 25)" using k by (auto simp: near_def)
  have ty: "int32 (h - 30 + 5) = Some (h - 25)" using k by (simp add: int32_Some)
  have b: "safe_draw m (gui_draw_button m 5 (h - 25) 60 20 (asc ''Start'') 9 0)"
    using k by (intro safe_button) (auto simp: near_def asc_def)
  have "gui_draw_taskbar m = (\<lambda>fb. Option.bind (gui_draw_rect m 0 (h - 30) w 30 7 fb) (\<lambda>fb. Option.bind (gui_draw_border m 0 (h - 30) w 30 0 fb)
      (\<lambda>fb. Option.bind (gui_draw_button m 5 (h - 25) 60 20 (asc ''Start'') 9 0 fb)
      (\<lambda>fb. Option.bind (if 0 < w - 170 then Option.bind (gui_draw_rect m 70 (h - 25) (w - 170) 20 15 fb) (gui_draw_border m 70 (h - 25) (w - 170) 20 8) else Some fb)
      (\<lambda>fb. Option.bind (gui_draw_rect m (w - 90) (h - 25) 85 20 15 fb) (gui_draw_border m (w - 90) (h - 25) 85 20 8))))))"
    unfolding gui_draw_taskbar_def Let_def s by (simp only: ty Option.bind_lunit)
  moreover have "safe_draw m (\<lambda>fb. if 0 < w - 170 then Option.bind (gui_draw_rect m 70 (h - 25) (w - 170) 20 15 fb)
      (gui_draw_border m 70 (h - 25) (w - 170) 20 8) else Some fb)"
    by (cases "0 < w - 170") (simp_all add: safe_bind safe_rect safe_border n del: diff_gt_0_iff_gt)
  ultimately show ?thesis by (simp only: safe_bind safe_rect safe_border n b)
qed

text \<open>A window the drawing functions can handle: its coordinates are moderate and its title is terminated.\<close>

definition drawable :: "gwin \<Rightarrow> bool" where
  "drawable w \<longleftrightarrow> \<bar>wi_x w\<bar> < 2 ^ 27 \<and> \<bar>wi_y w\<bar> < 2 ^ 27 \<and> \<bar>wi_width w\<bar> < 2 ^ 27 \<and> \<bar>wi_height w\<bar> < 2 ^ 27
     \<and> (\<exists>t. title_text w = Some t \<and> length t < 2 ^ 16)"

lemma safe_window:
  assumes "drawable w"
  shows "safe_draw m (draw_window w m)"
proof (cases "wi_visible w")
  case True
  have k: "\<bar>wi_x w\<bar> < 2 ^ 27" "\<bar>wi_y w\<bar> < 2 ^ 27" "\<bar>wi_width w\<bar> < 2 ^ 27" "\<bar>wi_height w\<bar> < 2 ^ 27"
    using assms by (simp_all add: drawable_def)
  have n: "near (wi_x w)" "near (wi_y w)" "near (wi_width w)" "near (wi_height w)" "near 25" "near (wi_x w + 5)" "near (wi_y w + 5)"
    using k by (auto simp: near_def)
  have i: "int32 (wi_x w + 5) = Some (wi_x w + 5)" "int32 (wi_y w + 5) = Some (wi_y w + 5)" "int32 (wi_y w + 2) = Some (wi_y w + 2)"
      "int32 (wi_x w + wi_width w - 25) = Some (wi_x w + wi_width w - 25)" using k by (auto intro!: int32_Some)
  obtain t where t: "title_text w = Some t" "length t < 2 ^ 16" using assms by (auto simp: drawable_def)
  have "draw_window w m = (\<lambda>fb. Option.bind (gui_draw_rect m (wi_x w) (wi_y w) (wi_width w) (wi_height w) (wi_bg w) fb)
      (\<lambda>fb. Option.bind (gui_draw_border m (wi_x w) (wi_y w) (wi_width w) (wi_height w) (wi_border w) fb)
      (\<lambda>fb. Option.bind (gui_draw_rect m (wi_x w) (wi_y w) (wi_width w) 25 9 fb)
      (\<lambda>fb. Option.bind (gui_draw_text m (wi_x w + 5) (wi_y w + 5) t 0 fb)
      (gui_draw_button m (wi_x w + wi_width w - 25) (wi_y w + 2) 20 20 (asc ''X'') 12 15)))))"
    using True by (simp add: draw_window_def fun_eq_iff t(1) i)
  moreover have "safe_draw m (gui_draw_button m (wi_x w + wi_width w - 25) (wi_y w + 2) 20 20 (asc ''X'') 12 15)"
    using k by (intro safe_button) (auto simp: near_def asc_def)
  ultimately show ?thesis by (simp only: safe_bind safe_rect safe_border safe_text n t(2))
next
  case False
  then have "draw_window w m = Some" by (simp add: draw_window_def fun_eq_iff)
  then show ?thesis by simp
qed

subsection \<open>The list of windows\<close>

fun win_path :: "(addr \<Rightarrow> gwin option) \<Rightarrow> addr \<Rightarrow> addr list \<Rightarrow> addr \<Rightarrow> bool" where
  "win_path W p [] q \<longleftrightarrow> p = q"
| "win_path W p (x # xs) q \<longleftrightarrow> p = x \<and> x \<noteq> 0 \<and> (\<exists>w. W x = Some w \<and> win_path W (wi_next w) xs q)"

lemma win_path_append: "win_path W p (xs @ ys) q \<longleftrightarrow> (\<exists>r. win_path W p xs r \<and> win_path W r ys q)"
  by (induction xs arbitrary: p) auto

lemma win_path_cong:
  "(\<And>x. x \<in> set xs \<Longrightarrow> map_option wi_next (W' x) = map_option wi_next (W x)) \<Longrightarrow> win_path W' p xs q = win_path W p xs q"
proof (induction xs arbitrary: p)
  case (Cons x xs)
  have "map_option wi_next (W' x) = map_option wi_next (W x)" using Cons.prems by simp
  then show ?case using Cons.IH [of "wi_next _"] Cons.prems by (cases "W x"; cases "W' x") auto
qed simp

lemma win_path_upd: "u \<notin> set xs \<Longrightarrow> win_path (W(u := z)) p xs q = win_path W p xs q"
  by (rule win_path_cong) auto

definition id_at :: "gui \<Rightarrow> addr \<Rightarrow> int" where
  "id_at s p = (case gu_win s p of None \<Rightarrow> 0 | Some w \<Rightarrow> wi_id w)"

definition gui_ok :: "gui \<Rightarrow> addr list \<Rightarrow> bool" where
  "gui_ok s xs \<longleftrightarrow> win_path (gu_win s) (gu_windows s) xs 0 \<and> distinct xs \<and> dom (gu_win s) = set xs
     \<and> kheap_inv (gu_heap s) \<and> set xs \<subseteq> live (gu_heap s) \<and> gu_count s = int (length xs)
     \<and> distinct (map (id_at s) xs) \<and> (\<forall>x\<in>set xs. 0 < id_at s x \<and> id_at s x < gu_next_id s) \<and> 1 \<le> gu_next_id s \<and> gu_next_id s < 2 ^ 31
     \<and> (gu_focused s = 0 \<or> gu_focused s \<in> set xs)
     \<and> (\<forall>x\<in>set xs. map_option wi_focused (gu_win s x) = Some (x = gu_focused s))"

lemma gui_ok_count: "gui_ok s xs \<Longrightarrow> int (length xs) < gu_next_id s"
proof -
  assume ok: "gui_ok s xs"
  have "set (map (id_at s) xs) \<subseteq> {0<..<gu_next_id s}" using ok by (auto simp: gui_ok_def)
  then have "card (set (map (id_at s) xs)) \<le> card {0<..<gu_next_id s}" by (rule card_mono [OF finite_greaterThanLessThan_int])
  then have "card (set (map (id_at s) xs)) \<le> nat (gu_next_id s - 1)" by simp
  moreover have "card (set (map (id_at s) xs)) = length xs" using ok distinct_card [of "map (id_at s) xs"] by (simp add: gui_ok_def)
  moreover have "1 \<le> gu_next_id s" using ok by (simp add: gui_ok_def)
  ultimately have "int (length xs) \<le> gu_next_id s - 1" by (simp only: le_nat_iff diff_ge_0_iff_ge)
  then show ?thesis by simp
qed

lemma window_before_last:
  "win_path (gu_win s) p (as @ [a]) q \<Longrightarrow> q \<notin> set (as @ [a]) \<Longrightarrow> window_before s q p = Some a"
proof (induction as arbitrary: p)
  case Nil
  then show ?case by (subst window_before.simps) auto
next
  case (Cons x as)
  then obtain w where w: "p = x" "x \<noteq> 0" "gu_win s x = Some w" "win_path (gu_win s) (wi_next w) (as @ [a]) q" by auto
  have "wi_next w \<in> set (as @ [a])" using w(4) by (cases as) auto
  then have "wi_next w \<noteq> q" using Cons.prems(2) by auto
  then show ?case using w Cons by (subst window_before.simps) auto
qed

lemma window_size_ok: "kmalloc_ok WINDOW_SIZE"
  by (simp add: kmalloc_ok_def WINDOW_SIZE_def)

definition but_link :: "gwin option \<Rightarrow> gwin option" where
  "but_link = map_option (\<lambda>w. w\<lparr>wi_next := 0\<rparr>)"

lemma but_link_upd: "W a = Some w \<Longrightarrow> but_link ((W(a \<mapsto> w\<lparr>wi_next := n\<rparr>)) x) = but_link (W x)"
  by (simp add: but_link_def)

lemma but_link_fields:
  assumes "but_link (W' x) = but_link (W x)"
  shows "map_option wi_focused (W' x) = map_option wi_focused (W x)" "(W' x = None) = (W x = None)"
    "map_option wi_id (W' x) = map_option wi_id (W x)"
proof -
  show "(W' x = None) = (W x = None)" using assms by (cases "W x"; cases "W' x") (simp_all add: but_link_def)
  have f: "map_option f (but_link w) = map_option f w" if "\<And>v n. f (v\<lparr>wi_next := n\<rparr>) = f v" for f :: "gwin \<Rightarrow> 'z" and w
    using that by (cases w) (simp_all add: but_link_def)
  show "map_option wi_focused (W' x) = map_option wi_focused (W x)" using f [of wi_focused] assms by (metis gwin.select_convs(12) gwin.surjective gwin.update_convs(13))
  show "map_option wi_id (W' x) = map_option wi_id (W x)" using f [of wi_id] assms by (metis gwin.select_convs(1) gwin.surjective gwin.update_convs(13))
qed

lemma id_at_map: "id_at s p = (case map_option wi_id (gu_win s p) of None \<Rightarrow> 0 | Some i \<Rightarrow> i)"
  by (simp add: id_at_def split: option.split)

text \<open>Taking \<open>q\<close> out of the chain.\<close>

lemma unlink_chain:
  assumes ok: "gui_ok s xs" and q: "q \<in> set xs" and w: "gu_win s q = Some w"
  shows "\<exists>W l. (if gu_windows s = q then Some (s\<lparr>gu_windows := wi_next w\<rparr>)
      else do { r \<leftarrow> window_before s q (gu_windows s); if r = 0 then Some s else gu_upd r (\<lambda>v. v\<lparr>wi_next := wi_next w\<rparr>) s })
      = Some (s\<lparr>gu_windows := l, gu_win := W\<rparr>)
    \<and> win_path (W(q := None)) l (remove1 q xs) 0 \<and> (\<forall>x. but_link (W x) = but_link (gu_win s x))"
proof -
  have ch: "win_path (gu_win s) (gu_windows s) xs 0" and d: "distinct xs" using ok by (simp_all add: gui_ok_def)
  obtain as bs where xs: "xs = as @ q # bs" using q by (auto simp: in_set_conv_decomp)
  have n: "q \<notin> set as" "q \<notin> set bs" "distinct as" "set as \<inter> set bs = {}" using d xs by auto
  have r: "remove1 q xs = as @ bs" using n xs by (simp add: remove1_append)
  show ?thesis
  proof (cases as rule: rev_cases)
    case Nil
    then have c: "gu_windows s = q" "win_path (gu_win s) (wi_next w) bs 0" using ch xs w by auto
    then have "win_path ((gu_win s)(q := None)) (wi_next w) (remove1 q xs) 0" using r Nil n(2) by (simp add: win_path_upd)
    then show ?thesis using c(1) by (intro exI [of _ "gu_win s"] exI [of _ "wi_next w"]) simp
  next
    case (snoc cs a)
    from ch have c: "win_path (gu_win s) (gu_windows s) (cs @ [a]) q" "win_path (gu_win s) (wi_next w) bs 0"
      using xs snoc w by (auto simp: win_path_append)
    have b: "window_before s q (gu_windows s) = Some a" using window_before_last [OF c(1)] n(1) snoc by simp
    obtain v where v: "win_path (gu_win s) (gu_windows s) cs a" "a \<noteq> 0" "gu_win s a = Some v" using c(1) by (auto simp: win_path_append)
    have g: "gu_windows s \<noteq> q" using c(1) n(1) snoc by (cases cs) auto
    let ?W = "(gu_win s)(a \<mapsto> v\<lparr>wi_next := wi_next w\<rparr>)"
    have an: "a \<notin> set cs" "a \<notin> set bs" "a \<noteq> q" using n snoc by auto
    have "win_path (?W(q := None)) (gu_windows s) (cs @ a # bs) 0"
      using v c(2) n an snoc by (simp add: win_path_append win_path_upd del: fun_upd_apply) (simp add: win_path_upd)
    then show ?thesis
      using b g v r snoc but_link_upd [of "gu_win s" a v]
      by (intro exI [of _ ?W] exI [of _ "gu_windows s"]) (simp add: gu_upd_def del: fun_upd_apply)
  qed
qed

lemma destroy_ok:
  assumes ok: "gui_ok s xs" and q: "q \<in> set xs"
  shows "\<exists>s'. gui_destroy_window q s = Some s' \<and> gui_ok s' (remove1 q xs) \<and> gu_next_id s' = gu_next_id s
    \<and> (\<forall>x\<in>set xs - {q}. but_link (gu_win s' x) = but_link (gu_win s x))"
proof -
  have dom: "dom (gu_win s) = set xs" and h: "kheap_inv (gu_heap s)" "set xs \<subseteq> live (gu_heap s)" and cnt: "gu_count s = int (length xs)"
    and d: "distinct xs" using ok by (simp_all add: gui_ok_def)
  obtain w where w: "gu_win s q = Some w" using dom q by auto
  have z: "q \<noteq> 0" using q h live_nonzero by blast
  obtain W l where W: "(if gu_windows s = q then Some (s\<lparr>gu_windows := wi_next w\<rparr>)
      else do { r \<leftarrow> window_before s q (gu_windows s); if r = 0 then Some s else gu_upd r (\<lambda>v. v\<lparr>wi_next := wi_next w\<rparr>) s })
      = Some (s\<lparr>gu_windows := l, gu_win := W\<rparr>)"
    "win_path (W(q := None)) l (remove1 q xs) 0" "\<And>x. but_link (W x) = but_link (gu_win s x)"
    using unlink_chain [OF ok q w] by blast
  obtain hp where k: "kfree q (gu_heap s) = Some hp" "kheap_inv hp" "live hp = live (gu_heap s) - {q}"
    using kh.free_alive [OF h(1), of q] q h(2) by blast
  let ?f = "if gu_focused s = q then 0 else gu_focused s"
  let ?s = "s\<lparr>gu_windows := l, gu_win := W(q := None), gu_focused := ?f, gu_count := gu_count s - 1, gu_heap := hp\<rparr>"
  obtain k where "length xs = Suc k" using length_pos_if_in_set [OF q] gr0_implies_Suc by blast
  then have len: "int (length (remove1 q xs)) = gu_count s - 1" using q cnt by (simp add: length_remove1)
  have "gui_destroy_window q s = Some ?s"
  proof -
    have "int32 (gu_count s - 1) = Some (gu_count s - 1)"
      using gui_ok_count [OF ok] ok cnt by (intro int32_Some) (auto simp: gui_ok_def)
    then show ?thesis using k(1) by (simp only: gui_destroy_window_def z if_False w Option.bind_lunit W(1)) (simp add: Let_def)
  qed
  moreover have "gui_ok ?s (remove1 q xs)"
  proof -
    have sub: "set (remove1 q xs) = set xs - {q}" using d by (rule set_remove1_eq)
    have i: "id_at ?s x = id_at s x" if "x \<in> set (remove1 q xs)" for x
      using that sub but_link_fields(3) [of W x "gu_win s", OF W(3)] by (simp add: id_at_map)
    have "dom W = dom (gu_win s)" using but_link_fields(2) [of W _ "gu_win s", OF W(3)] by (auto simp: dom_def)
    then have "dom (W(q := None)) = set (remove1 q xs)" using dom sub by auto
    moreover have m: "map (id_at ?s) (remove1 q xs) = map (id_at s) (remove1 q xs)" using i by simp
    moreover have "distinct (map (id_at s) (remove1 q xs))"
      using ok by (simp add: gui_ok_def distinct_map distinct_remove1 sub inj_on_diff)
    then have "distinct (map (id_at ?s) (remove1 q xs))" by (simp only: m)
    moreover have "map_option wi_focused (gu_win ?s x) = Some (x = gu_focused ?s)" if "x \<in> set (remove1 q xs)" for x
    proof -
      have x: "x \<in> set xs" "x \<noteq> q" using that sub by auto
      then have "x \<noteq> 0" using h live_nonzero by blast
      moreover have "map_option wi_focused (gu_win s x) = Some (x = gu_focused s)" using ok x(1) by (simp add: gui_ok_def)
      ultimately show ?thesis using x(2) but_link_fields(1) [of W x "gu_win s", OF W(3)] by auto
    qed
    ultimately show ?thesis
      using ok W(2) k len sub i unfolding gui_ok_def by (auto simp: distinct_remove1 simp del: fun_upd_apply)
  qed
  ultimately show ?thesis using W(3) by (intro exI [of _ ?s]) simp
qed

definition created :: "int \<Rightarrow> int \<Rightarrow> int \<Rightarrow> int \<Rightarrow> cstr \<Rightarrow> gui \<Rightarrow> gwin \<Rightarrow> bool" where
  "created x y width height title s w \<longleftrightarrow> wi_id w = gu_next_id s \<and> wi_x w = x \<and> wi_y w = y \<and> wi_width w = width
     \<and> wi_height w = height \<and> title_text w = Some title \<and> wi_visible w \<and> \<not> wi_focused w"

lemma title_kept:
  assumes "length title < 64" and "0 \<notin> set title"
  shows "\<exists>t. title_of title old = Some t \<and> (\<forall>w. wi_title w = t \<longrightarrow> title_text w = Some title)"
proof -
  have z: "\<forall>c\<in>set title. c \<noteq> 0" using assms(2) by auto
  obtain r where r: "take 64 (title @ [0] @ drop (length title + 1) old) = title @ 0 # r" using assms(1) by (cases "64 - length title") auto
  then have "title_text w = Some title" if "wi_title w = title @ 0 # r" for w
    using that z by (simp add: title_text_def takeWhile_append2)
  then show ?thesis using assms(1) r by (simp add: title_of_def)
qed

lemma create_ok:
  assumes ok: "gui_ok s xs" and t: "length title < 64" "0 \<notin> set title" and n: "gu_next_id s < 2 ^ 31 - 1"
    and k: "kmalloc WINDOW_SIZE (gu_heap s) = (p, h)" "p \<noteq> 0"
  shows "\<exists>s' w. gui_create_window x y width height title s = Some (p, s') \<and> gui_ok s' (p # xs) \<and> p \<notin> set xs
    \<and> gu_win s' = (gu_win s)(p \<mapsto> w) \<and> created x y width height title s w
    \<and> gu_next_id s' = gu_next_id s + 1 \<and> gui_destroy_window p s' = Some (s\<lparr>gu_next_id := gu_next_id s + 1\<rparr>)"
proof -
  have g: "kheap_inv (gu_heap s)" "set xs \<subseteq> live (gu_heap s)" "dom (gu_win s) = set xs" "gu_count s = int (length xs)"
    "win_path (gu_win s) (gu_windows s) xs 0" using ok by (simp_all add: gui_ok_def)
  have f: "kheap_inv h" "p \<notin> live (gu_heap s)" "live h = insert p (live (gu_heap s))"
    using kh.alloc_inv [OF g(1) window_size_ok] kh.alloc_fresh [OF g(1) window_size_ok] k by simp_all
  have px: "p \<notin> set xs" "gu_win s p = None" using f(2) g(2,3) by auto
  obtain b where b: "title_of title (replicate 64 0) = Some b" "\<And>w. wi_title w = b \<Longrightarrow> title_text w = Some title"
    using title_kept [OF t] by blast
  let ?w = "\<lparr>wi_id = gu_next_id s, wi_x = x, wi_y = y, wi_width = width, wi_height = height, wi_title = b, wi_bg = 15, wi_fg = 0,
    wi_border = 0, wi_state = 0, wi_visible = True, wi_focused = False, wi_next = gu_windows s\<rparr>"
  let ?s = "s\<lparr>gu_heap := h, gu_next_id := gu_next_id s + 1, gu_count := gu_count s + 1, gu_windows := p, gu_win := (gu_win s)(p \<mapsto> ?w)\<rparr>"
  have i: "int32 (gu_next_id s + 1) = Some (gu_next_id s + 1)" "int32 (gu_count s + 1) = Some (gu_count s + 1)"
    "int32 (gu_count s) = Some (gu_count s)"
    using n gui_ok_count [OF ok] ok g(4) by (auto intro!: int32_Some simp: gui_ok_def)
  have c: "gui_create_window x y width height title s = Some (p, ?s)"
    using k i(1,2) b(1) by (simp add: gui_create_window_def)
  have fp: "gu_focused s \<noteq> p" using ok px k(2) by (auto simp: gui_ok_def)
  have "gui_ok ?s (p # xs)"
  proof -
    have o: "id_at ?s q = id_at s q" if "q \<in> set xs" for q using that px by (auto simp: id_at_def)
    have pi: "id_at ?s p = gu_next_id s" by (simp add: id_at_def)
    have "win_path ((gu_win s)(p \<mapsto> ?w)) p (p # xs) 0" using k(2) g(5) px(1) by (simp add: win_path_upd)
    moreover have m: "map (id_at ?s) xs = map (id_at s) xs" using o by simp
    moreover have "distinct (map (id_at s) xs)" using ok by (simp add: gui_ok_def)
    moreover have "\<forall>q\<in>set xs. 0 < id_at s q \<and> id_at s q < gu_next_id s" "1 \<le> gu_next_id s" using ok by (simp_all add: gui_ok_def)
    moreover have "distinct (map (id_at ?s) (p # xs))"
      unfolding list.map m pi using calculation by auto
    moreover have "map_option wi_focused (gu_win ?s q) = Some (q = gu_focused ?s)" if "q \<in> set (p # xs)" for q
      using that ok fp px by (cases "q = p") (auto simp: gui_ok_def)
    ultimately show ?thesis
      using ok f px n o pi unfolding gui_ok_def by (auto simp del: win_path.simps fun_upd_apply)
  qed
  moreover have "created x y width height title s ?w" using b(2) by (simp add: created_def)
  moreover have "kfree p h = Some (gu_heap s)" using kmalloc_kfree_restore [OF g(1) window_size_ok] k by simp
  then have "gui_destroy_window p ?s = Some (s\<lparr>gu_next_id := gu_next_id s + 1\<rparr>)"
    using k(2) i(3) fp px(2) by (simp add: gui_destroy_window_def Let_def fun_upd_idem)
  ultimately show ?thesis using c px(1) by (intro exI [of _ ?s] exI [of _ ?w]) simp
qed

lemma created_frame: "gui_create_window x y width height title s = Some (p, s') \<Longrightarrow> gu_mode s' = gu_mode s \<and> gu_fb s' = gu_fb s"
  by (auto simp: gui_create_window_def Let_def split: bind_splits prod.splits if_splits)

subsection \<open>The desktop is drawn\<close>

definition can_draw :: "gui \<Rightarrow> addr list \<Rightarrow> bool" where
  "can_draw s xs \<longleftrightarrow> gui_ok s xs \<and> screen_ok (gu_mode s) \<and> mode_ok (gu_mode s) (gu_fb s)
     \<and> (\<forall>x\<in>set xs. \<forall>w. gu_win s x = Some w \<longrightarrow> drawable w)"

lemma paint_ok:
  assumes "safe_draw (gu_mode s) (f (gu_mode s))" and "mode_ok (gu_mode s) (gu_fb s)"
  shows "\<exists>fb. gu_paint f s = Some (s\<lparr>gu_fb := fb\<rparr>) \<and> length fb = length (gu_fb s)"
proof -
  obtain fb where "f (gu_mode s) (gu_fb s) = Some fb" "length fb = length (gu_fb s)" using assms unfolding safe_draw_def by blast
  then show ?thesis by (intro exI [of _ fb]) (simp add: gu_paint_def)
qed

lemma draw_windows_ok:
  "win_path (gu_win s) p xs 0 \<Longrightarrow> \<forall>x\<in>set xs. \<forall>w. gu_win s x = Some w \<longrightarrow> drawable w \<Longrightarrow> mode_ok (gu_mode s) (gu_fb s)
   \<Longrightarrow> \<exists>fb. draw_windows p s = Some (s\<lparr>gu_fb := fb\<rparr>) \<and> length fb = length (gu_fb s)"
proof (induction xs arbitrary: p s)
  case Nil
  then show ?case by (subst draw_windows.simps) (auto intro!: exI [of _ "gu_fb s"])
next
  case (Cons x xs)
  then obtain w where w: "p = x" "x \<noteq> 0" "gu_win s x = Some w" "win_path (gu_win s) (wi_next w) xs 0" "drawable w" by auto
  obtain f where f: "(if wi_visible w then gui_draw_window p s else Some s) = Some (s\<lparr>gu_fb := f\<rparr>)" "length f = length (gu_fb s)"
  proof (cases "wi_visible w")
    case True
    then show ?thesis using that paint_ok [of s "draw_window w"] safe_window [OF w(5)] Cons.prems(3) w by (auto simp: gui_draw_window_def)
  next
    case False
    then show ?thesis using that [of "gu_fb s"] by simp
  qed
  have "\<exists>fb. draw_windows (wi_next w) (s\<lparr>gu_fb := f\<rparr>) = Some (s\<lparr>gu_fb := f\<rparr>\<lparr>gu_fb := fb\<rparr>) \<and> length fb = length (gu_fb (s\<lparr>gu_fb := f\<rparr>))"
    by (rule Cons.IH) (use Cons.prems w f(2) in \<open>auto simp: mode_ok_def\<close>)
  then show ?case using w f by (subst draw_windows.simps) auto
qed

lemma desktop_ok:
  assumes "can_draw s xs"
  shows "\<exists>fb. gui_draw_desktop s = Some (s\<lparr>gu_fb := fb\<rparr>) \<and> length fb = length (gu_fb s)"
proof (cases "gu_active s")
  case True
  have a: "win_path (gu_win s) (gu_windows s) xs 0" "screen_ok (gu_mode s)" "mode_ok (gu_mode s) (gu_fb s)"
    "\<forall>x\<in>set xs. \<forall>w. gu_win s x = Some w \<longrightarrow> drawable w" using assms by (simp_all add: can_draw_def gui_ok_def)
  obtain f1 where f1: "gu_paint (\<lambda>m. gui_clear_screen m (gu_bg s)) s = Some (s\<lparr>gu_fb := f1\<rparr>)" "length f1 = length (gu_fb s)"
    using paint_ok [of s "\<lambda>m. gui_clear_screen m (gu_bg s)"] safe_clear a(3) by blast
  obtain f2 where f2: "gu_paint gui_draw_taskbar (s\<lparr>gu_fb := f1\<rparr>) = Some (s\<lparr>gu_fb := f2\<rparr>)" "length f2 = length (gu_fb s)"
    using paint_ok [of "s\<lparr>gu_fb := f1\<rparr>" gui_draw_taskbar] safe_taskbar [OF a(2)] a(3) f1(2) by (auto simp: mode_ok_def)
  obtain f3 where "draw_windows (gu_windows s) (s\<lparr>gu_fb := f2\<rparr>) = Some (s\<lparr>gu_fb := f3\<rparr>)" "length f3 = length (gu_fb s)"
    using draw_windows_ok [of "s\<lparr>gu_fb := f2\<rparr>" "gu_windows s" xs] a f2(2) by (auto simp: mode_ok_def)
  then show ?thesis using True f1(1) f2(1) by (intro exI [of _ f3]) (simp add: gui_draw_desktop_def)
next
  case False
  then show ?thesis by (intro exI [of _ "gu_fb s"]) (simp add: gui_draw_desktop_def)
qed

lemma can_draw_fb: "length fb = length (gu_fb s) \<Longrightarrow> can_draw (s\<lparr>gu_fb := fb\<rparr>) xs = can_draw s xs"
proof -
  assume l: "length fb = length (gu_fb s)"
  have "id_at (s\<lparr>gu_fb := fb\<rparr>) = id_at s" by (simp add: fun_eq_iff id_at_def)
  then show ?thesis using l by (simp add: can_draw_def gui_ok_def mode_ok_def)
qed

lemma focus_ok:
  assumes c: "can_draw s xs" and q: "q \<in> set xs"
  shows "\<exists>s'. gui_focus_window q s = Some s' \<and> can_draw s' xs \<and> gu_focused s' = q"
proof -
  have ok: "gui_ok s xs" using c by (simp add: can_draw_def)
  then have d: "dom (gu_win s) = set xs" "0 \<notin> set xs" using live_nonzero by (auto simp: gui_ok_def)
  let ?foc = "\<lambda>x. map_option (\<lambda>w. w\<lparr>wi_focused := (x = q)\<rparr>) (gu_win s x)"
  let ?s = "s\<lparr>gu_focused := q, gu_win := ?foc\<rparr>"
  have foc: "map_option wi_focused (gu_win s x) = Some (x = gu_focused s)" if "x \<in> set xs" for x
    using that ok by (simp add: gui_ok_def)
  have out: "w\<lparr>wi_focused := False\<rparr> = w" if "gu_win s x = Some w" "x \<noteq> gu_focused s" for x w
  proof -
    have "x \<in> set xs" using that(1) d(1) by auto
    then have "wi_focused w = False" using foc [of x] that by simp
    then show ?thesis by (cases w) simp
  qed
  obtain w where w: "gu_win s q = Some w" using d(1) q by auto
  have foc_q: "?foc = (gu_win s)(q \<mapsto> w\<lparr>wi_focused := True\<rparr>)" if "gu_focused s = 0"
  proof
    fix x show "?foc x = ((gu_win s)(q \<mapsto> w\<lparr>wi_focused := True\<rparr>)) x"
    proof (cases "x = q")
      case False
      have "gu_win s x = Some v \<Longrightarrow> x \<noteq> gu_focused s" for v using that d by auto
      then show ?thesis using False out [of x] by (cases "gu_win s x") auto
    qed (use w in simp)
  qed
  have e: "\<exists>s1. (if gu_focused s \<noteq> 0 then gu_upd (gu_focused s) (\<lambda>w. w\<lparr>wi_focused := False\<rparr>) s else Some s) = Some s1
      \<and> gu_upd q (\<lambda>w. w\<lparr>wi_focused := True\<rparr>) (s1\<lparr>gu_focused := q\<rparr>) = Some ?s"
  proof (cases "gu_focused s = 0")
    case True
    then show ?thesis using w foc_q by (simp add: gu_upd_def)
  next
    case False
    let ?f = "gu_focused s"
    have "?f \<in> set xs" using ok False by (simp add: gui_ok_def)
    then obtain v where v: "gu_win s ?f = Some v" using d(1) by auto
    let ?W = "(gu_win s)(?f \<mapsto> v\<lparr>wi_focused := False\<rparr>)"
    obtain u where u: "?W q = Some u" "u\<lparr>wi_focused := True\<rparr> = w\<lparr>wi_focused := True\<rparr>" using v w by (cases "?f = q") auto
    have "?foc x = (?W(q \<mapsto> u\<lparr>wi_focused := True\<rparr>)) x" for x
    proof -
      consider "x = q" | "x \<noteq> q" "x = ?f" | "x \<noteq> q" "x \<noteq> ?f" by blast
      then show ?thesis
      proof cases
        case 3
        then show ?thesis using out [of x] by (cases "gu_win s x") auto
      qed (use u w v in auto)
    qed
    then have "?foc = ?W(q \<mapsto> u\<lparr>wi_focused := True\<rparr>)" by (rule ext)
    then show ?thesis using False v u(1) by (simp add: gu_upd_def)
  qed
  have id: "id_at ?s = id_at s" by (simp add: fun_eq_iff id_at_def split: option.split)
  have "win_path ?foc (gu_windows s) xs 0 = win_path (gu_win s) (gu_windows s) xs 0"
    by (rule win_path_cong) (simp add: option.map_comp comp_def)
  moreover have "dom ?foc = set xs" using d(1) by (auto simp: dom_def)
  ultimately have "gui_ok ?s xs" using ok q d id by (auto simp: gui_ok_def)
  then have c': "can_draw ?s xs" using c by (auto simp: can_draw_def drawable_def title_text_def)
  obtain fb where fb: "gui_draw_desktop ?s = Some (?s\<lparr>gu_fb := fb\<rparr>)" "length fb = length (gu_fb s)"
    using desktop_ok [OF c'] by auto
  have "gui_focus_window q s = Some (?s\<lparr>gu_fb := fb\<rparr>)"
    using q d(2) e fb(1) unfolding gui_focus_window_def by (cases "q = 0") auto
  moreover have "can_draw (?s\<lparr>gu_fb := fb\<rparr>) xs" using c' can_draw_fb [of fb ?s] fb(2) by simp
  ultimately show ?thesis by auto
qed

text \<open>C34.  The windows are a list: a new window comes first and leaves the others alone, a window that cannot be
  allocated changes nothing, destroying any window takes exactly that one out of the list and the heap, and
  destroying the newest one gives back the state before it was created (but for the next number).
\<close>

theorem gui_window_list:
  assumes "gui_ok s xs" and "length title < 64" and "0 \<notin> set title" and "gu_next_id s < 2 ^ 31 - 1"
  shows "(let p = fst (kmalloc WINDOW_SIZE (gu_heap s)) in
      if p = 0 then gui_create_window x y width height title s = Some (0, s)
      else \<exists>s' w. gui_create_window x y width height title s = Some (p, s') \<and> gui_ok s' (p # xs)
        \<and> gu_win s' = (gu_win s)(p \<mapsto> w) \<and> created x y width height title s w
        \<and> gui_destroy_window p s' = Some (s\<lparr>gu_next_id := gu_next_id s + 1\<rparr>))
    \<and> (\<forall>q\<in>set xs. \<exists>s'. gui_destroy_window q s = Some s' \<and> gui_ok s' (remove1 q xs)
        \<and> (\<forall>r\<in>set xs - {q}. but_link (gu_win s' r) = but_link (gu_win s r)))"
proof
  obtain p h where k: "kmalloc WINDOW_SIZE (gu_heap s) = (p, h)" by fastforce
  have inv: "kheap_inv (gu_heap s)" using assms(1) by (simp add: gui_ok_def)
  show "let p = fst (kmalloc WINDOW_SIZE (gu_heap s)) in
      if p = 0 then gui_create_window x y width height title s = Some (0, s)
      else \<exists>s' w. gui_create_window x y width height title s = Some (p, s') \<and> gui_ok s' (p # xs)
        \<and> gu_win s' = (gu_win s)(p \<mapsto> w) \<and> created x y width height title s w
        \<and> gui_destroy_window p s' = Some (s\<lparr>gu_next_id := gu_next_id s + 1\<rparr>)"
  proof (cases "p = 0")
    case True
    then have "h = gu_heap s" using kmalloc_fail [OF inv window_size_ok] k by simp
    then show ?thesis using True k by (simp add: gui_create_window_def)
  next
    case False
    obtain s' w where c: "gui_create_window x y width height title s = Some (p, s')" "gui_ok s' (p # xs)"
      "gu_win s' = (gu_win s)(p \<mapsto> w)" "created x y width height title s w"
      "gui_destroy_window p s' = Some (s\<lparr>gu_next_id := gu_next_id s + 1\<rparr>)"
      using create_ok [OF assms k False] by blast
    then have "\<exists>s' w. gui_create_window x y width height title s = Some (p, s') \<and> gui_ok s' (p # xs)
        \<and> gu_win s' = (gu_win s)(p \<mapsto> w) \<and> created x y width height title s w
        \<and> gui_destroy_window p s' = Some (s\<lparr>gu_next_id := gu_next_id s + 1\<rparr>)" by blast
    then show ?thesis using False k by (simp only: Let_def fst_conv if_False)
  qed
  show "\<forall>q\<in>set xs. \<exists>s'. gui_destroy_window q s = Some s' \<and> gui_ok s' (remove1 q xs)
        \<and> (\<forall>r\<in>set xs - {q}. but_link (gu_win s' r) = but_link (gu_win s r))"
    using destroy_ok [OF assms(1)] by blast
qed

text \<open>An active desktop without windows on a screen of 2 by 2 pixels.\<close>

definition demo_gui :: gui where
  "demo_gui = \<lparr>gu_bg = 1, gu_windows = 0, gu_focused = 0, gu_count = 0, gu_next_id = 1, gu_active = True, gu_win = Map.empty,
     gu_heap = heap_area kheap_boot, gu_mode = \<lparr>vm_width = 2, vm_height = 2, vm_pitch = 6, vm_bpp = 24, vm_addr = 0xFD000000\<rparr>,
     gu_fb = replicate 12 0, gu_con = \<lparr>co_vga = replicate 2000 0, co_x = 0, co_y = 0, co_attr = 7\<rparr>, gu_log = \<lparr>se_ready = False, se_present = False, se_status = [], se_in = [], se_out = []\<rparr>\<rparr>"

lemma demo_gui_ok: "gui_ok demo_gui []" "screen_ok (gu_mode demo_gui)" "mode_ok (gu_mode demo_gui) (gu_fb demo_gui)"
  by (simp_all add: gui_ok_def demo_gui_def heap_area_inv screen_ok_def mode_ok_def bytes_pp_def)

lemma demo_gui_alloc: "fst (kmalloc WINDOW_SIZE (gu_heap demo_gui)) = 0xC000000C"
  by (simp add: demo_gui_def kmalloc_def heap_area_def kheap_boot_def heap_consts WINDOW_SIZE_def)

lemma gui_window_list_witness:
  "\<exists>s s'. gui_create_window 10 10 300 200 (asc ''RetaOS Terminal'') demo_gui = Some (0xC000000C, s) \<and> gui_ok s [0xC000000C]
    \<and> gui_destroy_window 0xC000000C s = Some s' \<and> gui_ok s' []"
proof -
  have t: "length (asc ''RetaOS Terminal'') < 64" "0 \<notin> set (asc ''RetaOS Terminal'')" by (simp_all add: asc_def)
  have n: "gu_next_id demo_gui < 2 ^ 31 - 1" and z: "(0xC000000C :: addr) \<noteq> 0" by (simp_all add: demo_gui_def)
  obtain s where s: "gui_create_window 10 10 300 200 (asc ''RetaOS Terminal'') demo_gui = Some (0xC000000C, s)" "gui_ok s [0xC000000C]"
    "gui_destroy_window 0xC000000C s = Some (demo_gui\<lparr>gu_next_id := gu_next_id demo_gui + 1\<rparr>)"
    using conjunct1 [OF gui_window_list [OF demo_gui_ok(1) t n, of 10 10 300 200]] unfolding demo_gui_alloc Let_def if_not_P [OF z] by blast
  moreover have "gui_ok (demo_gui\<lparr>gu_next_id := gu_next_id demo_gui + 1\<rparr>) []"
    by (simp add: gui_ok_def demo_gui_def heap_area_inv)
  ultimately show ?thesis by blast
qed

text \<open>C35.  Drawing the desktop always ends and never writes outside the framebuffer, wherever the windows are; focusing
  a window makes it the only one with the focus and draws the desktop again.
\<close>

theorem gui_desktop_safe:
  assumes "can_draw s xs"
  shows "(\<exists>fb. gui_draw_desktop s = Some (s\<lparr>gu_fb := fb\<rparr>) \<and> length fb = length (gu_fb s))
    \<and> (\<forall>q\<in>set xs. \<exists>s'. gui_focus_window q s = Some s' \<and> can_draw s' xs \<and> gu_focused s' = q
        \<and> (\<forall>r\<in>set xs. map_option wi_focused (gu_win s' r) = Some (r = q)))"
proof
  show "\<exists>fb. gui_draw_desktop s = Some (s\<lparr>gu_fb := fb\<rparr>) \<and> length fb = length (gu_fb s)" using desktop_ok [OF assms] .
  show "\<forall>q\<in>set xs. \<exists>s'. gui_focus_window q s = Some s' \<and> can_draw s' xs \<and> gu_focused s' = q
        \<and> (\<forall>r\<in>set xs. map_option wi_focused (gu_win s' r) = Some (r = q))"
  proof
    fix q assume "q \<in> set xs"
    then obtain s' where f: "gui_focus_window q s = Some s'" "can_draw s' xs" "gu_focused s' = q" using focus_ok [OF assms] by blast
    then have "\<forall>r\<in>set xs. map_option wi_focused (gu_win s' r) = Some (r = q)" by (simp add: can_draw_def gui_ok_def)
    with f show "\<exists>s'. gui_focus_window q s = Some s' \<and> can_draw s' xs \<and> gu_focused s' = q
        \<and> (\<forall>r\<in>set xs. map_option wi_focused (gu_win s' r) = Some (r = q))" by blast
  qed
qed

text \<open>The same with a window that lies far outside of the screen.\<close>

lemma gui_desktop_safe_witness:
  "\<exists>s s'. gui_create_window (- 500) 10 300 200 (asc ''A'') demo_gui = Some (0xC000000C, s)
    \<and> gui_focus_window 0xC000000C s = Some s' \<and> gu_focused s' = 0xC000000C"
proof -
  have t: "length (asc ''A'') < 64" "0 \<notin> set (asc ''A'')" by (simp_all add: asc_def)
  have n: "gu_next_id demo_gui < 2 ^ 31 - 1" and z: "(0xC000000C :: addr) \<noteq> 0" by (simp_all add: demo_gui_def)
  obtain h where k: "kmalloc WINDOW_SIZE (gu_heap demo_gui) = (0xC000000C, h)" using demo_gui_alloc by (metis prod.collapse)
  obtain s w where s: "gui_create_window (- 500) 10 300 200 (asc ''A'') demo_gui = Some (0xC000000C, s)" "gui_ok s [0xC000000C]"
    "gu_win s = (gu_win demo_gui)(0xC000000C \<mapsto> w)" "created (- 500) 10 300 200 (asc ''A'') demo_gui w"
    using create_ok [OF demo_gui_ok(1) t n k z, of "- 500" 10 300 200] by blast
  have m: "gu_mode s = gu_mode demo_gui" "gu_fb s = gu_fb demo_gui"
    using created_frame [OF s(1)] by simp_all
  have "can_draw s [0xC000000C]"
    using s(2,3,4) m demo_gui_ok(2,3) by (auto simp: can_draw_def created_def drawable_def asc_def)
  then show ?thesis using gui_desktop_safe [of s "[0xC000000C]"] s(1) by auto
qed

end
