(* ===== verification/Sched.thy ===== *)
theory Sched
  imports Process
begin

text \<open>
  The scheduler and the threads: \<^verbatim>\<open>kernel/sched.c\<close>, \<^verbatim>\<open>kernel/thread.c\<close> and \<^verbatim>\<open>kernel/thread.h\<close>.

  A \<^verbatim>\<open>thread_t\<close> is a heap object (\<open>sc_threads\<close>).  The ready queue of the scheduler and the list of all
  threads of \<^verbatim>\<open>thread.c\<close> are both linked through the member \<^verbatim>\<open>next\<close>, the sleeping list through
  \<^verbatim>\<open>next_sleeping\<close>.  Each of the two files has a variable \<^verbatim>\<open>current_thread\<close> of its own: \<open>sc_current\<close> and
  \<open>tc_current\<close>.

  The context switch itself is assembly: an operation that ends in it says \<open>Switch f t\<close>, where the
  thread \<open>f\<close> gives up the processor to \<open>t\<close>; what the C code does behind that call it does when \<open>f\<close> is
  switched to again.  Serial output, the port writes of \<^verbatim>\<open>timer_phase\<close> and the task state segment are
  left out.
\<close>

subsection \<open>State\<close>

datatype thread_state = THREAD_NEW | THREAD_READY | THREAD_RUNNING | THREAD_BLOCKED | THREAD_TERMINATED

record thread =
  th_tid :: int
  th_stack :: addr
  th_base :: addr
  th_size :: u32
  th_state :: thread_state
  th_entry :: addr
  th_arg :: addr
  th_retval :: addr
  th_process :: addr
  th_next :: addr
  th_next_sleeping :: addr
  th_wakeup :: u32
  th_slice :: int

definition THREAD_SIZE :: u32 where "THREAD_SIZE = 52"
definition DEFAULT_STACK_SIZE :: u32 where "DEFAULT_STACK_SIZE = 16 * 1024"
definition TICKS_PER_SEC :: u32 where "TICKS_PER_SEC = 100"

text \<open>A thread of zero bytes.\<close>

definition thread0 :: thread where
  "thread0 = \<lparr>th_tid = 0, th_stack = 0, th_base = 0, th_size = 0, th_state = THREAD_NEW, th_entry = 0, th_arg = 0,
     th_retval = 0, th_process = 0, th_next = 0, th_next_sleeping = 0, th_wakeup = 0, th_slice = 0\<rparr>"

record sstate =
  sc_ps :: psys
  sc_threads :: "addr \<rightharpoonup> thread"
  sc_stack_mem :: "addr \<Rightarrow> u32"
  \<comment> \<open>\<^verbatim>\<open>kernel/sched.c\<close>\<close>
  sc_ready :: addr
  sc_sleeping :: addr
  sc_current :: addr
  sc_plist :: addr
  sc_pcurrent :: addr
  sc_inited :: bool
  sc_preempt :: bool
  rr_quantum :: int
  \<comment> \<open>\<^verbatim>\<open>kernel/thread.c\<close>; \<open>tc_entry\<close> is the address of \<^verbatim>\<open>thread_entry\<close>\<close>
  tc_next_tid :: int
  tc_list :: addr
  tc_current :: addr
  tc_entry :: addr
  \<comment> \<open>the two tick counters, of \<^verbatim>\<open>kernel/timer.c\<close> and \<^verbatim>\<open>interrupts/isr.c\<close>\<close>
  timer_ticks :: u32
  isr_ticks :: u32

datatype switching = Stay | Switch addr addr

definition th_upd :: "addr \<Rightarrow> (thread \<Rightarrow> thread) \<Rightarrow> sstate \<Rightarrow> sstate option" where
  "th_upd p f s = map_option (\<lambda>x. s\<lparr>sc_threads := (sc_threads s)(p \<mapsto> f x)\<rparr>) (sc_threads s p)"

subsection \<open>The ready queue\<close>

definition sched_add_thread :: "addr \<Rightarrow> sstate \<Rightarrow> sstate option" where
  "sched_add_thread t s =
     (if t = 0 then Some s
      else do { s1 \<leftarrow> th_upd t (\<lambda>x. x\<lparr>th_next := sc_ready s\<rparr>) s; Some (s1\<lparr>sc_ready := t\<rparr>) })"

partial_function (option) remove_walk :: "addr \<Rightarrow> addr \<Rightarrow> sstate \<Rightarrow> sstate option" where
  "remove_walk t prev s = do {
     p \<leftarrow> sc_threads s prev;
     if th_next p \<noteq> 0 \<and> th_next p \<noteq> t then remove_walk t (th_next p) s
     else if th_next p = t then do {
       x \<leftarrow> sc_threads s t;
       th_upd prev (\<lambda>p. p\<lparr>th_next := th_next x\<rparr>) s }
     else Some s }"

definition sched_remove_thread :: "addr \<Rightarrow> sstate \<Rightarrow> sstate option" where
  "sched_remove_thread t s =
     (if t = 0 \<or> sc_ready s = 0 then Some s
      else if sc_ready s = t then do { x \<leftarrow> sc_threads s t; Some (s\<lparr>sc_ready := th_next x\<rparr>) }
      else remove_walk t (sc_ready s) s)"

definition pick_next_thread :: "sstate \<Rightarrow> (addr \<times> sstate) option" where
  "pick_next_thread s =
     (if sc_ready s = 0 then Some (0, s)
      else do {
        x \<leftarrow> sc_threads s (sc_ready s);
        s1 \<leftarrow> th_upd (sc_ready s) (\<lambda>x. x\<lparr>th_next := 0\<rparr>) (s\<lparr>sc_ready := th_next x\<rparr>);
        Some (sc_ready s, s1) })"

subsection \<open>Sleeping threads\<close>

definition sched_add_sleeping_thread :: "addr \<Rightarrow> sstate \<Rightarrow> sstate option" where
  "sched_add_sleeping_thread t s =
     (if t = 0 then Some s
      else do { s1 \<leftarrow> th_upd t (\<lambda>x. x\<lparr>th_next_sleeping := sc_sleeping s\<rparr>) s; Some (s1\<lparr>sc_sleeping := t\<rparr>) })"

text \<open>\<open>slot\<close> is \<^verbatim>\<open>ptr\<close>: the list head (0) or the \<^verbatim>\<open>next_sleeping\<close> member of a thread.\<close>

definition set_sleep_slot :: "addr \<Rightarrow> addr \<Rightarrow> sstate \<Rightarrow> sstate option" where
  "set_sleep_slot slot p s =
     (if slot = 0 then Some (s\<lparr>sc_sleeping := p\<rparr>) else th_upd slot (\<lambda>x. x\<lparr>th_next_sleeping := p\<rparr>) s)"

definition get_sleep_slot :: "addr \<Rightarrow> sstate \<Rightarrow> addr option" where
  "get_sleep_slot slot s = (if slot = 0 then Some (sc_sleeping s) else map_option th_next_sleeping (sc_threads s slot))"

partial_function (option) wake_loop :: "addr \<Rightarrow> addr \<Rightarrow> sstate \<Rightarrow> sstate option" where
  "wake_loop slot current s =
     (if current = 0 then Some s
      else do {
        x \<leftarrow> sc_threads s current;
        if th_wakeup x \<le> timer_ticks s then do {
          s1 \<leftarrow> set_sleep_slot slot (th_next_sleeping x) s;
          s2 \<leftarrow> th_upd current (\<lambda>x. x\<lparr>th_state := THREAD_READY\<rparr>) s1;
          s3 \<leftarrow> sched_add_thread current s2;
          nxt \<leftarrow> get_sleep_slot slot s3;
          wake_loop slot nxt s3 }
        else wake_loop current (th_next_sleeping x) s })"

definition check_sleeping_threads :: "sstate \<Rightarrow> sstate option" where
  "check_sleeping_threads s = wake_loop 0 (sc_sleeping s) s"

subsection \<open>Yielding and ticks\<close>

definition sched_yield :: "sstate \<Rightarrow> (switching \<times> sstate) option" where
  "sched_yield s =
     (if \<not> sc_inited s then Some (Stay, s)
      else do {
        (nxt, s1) \<leftarrow> pick_next_thread s;
        if nxt = 0 then Some (Stay, s1)
        else do {
          s2 \<leftarrow> (if sc_current s1 = 0 then Some s1
             else do {
               c \<leftarrow> sc_threads s1 (sc_current s1);
               if th_state c = THREAD_RUNNING then do {
                 t \<leftarrow> th_upd (sc_current s1) (\<lambda>x. x\<lparr>th_state := THREAD_READY\<rparr>) s1;
                 sched_add_thread (sc_current s1) t }
               else Some s1 });
          s3 \<leftarrow> th_upd nxt (\<lambda>x. x\<lparr>th_state := THREAD_RUNNING, th_slice := rr_quantum s2\<rparr>) s2;
          Some (if sc_current s1 = 0 then Stay else Switch (sc_current s1) nxt, s3\<lparr>sc_current := nxt\<rparr>) } })"

text \<open>When \<^verbatim>\<open>sched_yield\<close> switches, the check of the sleeping threads is still to come.\<close>

definition sched_tick :: "sstate \<Rightarrow> (switching \<times> sstate) option" where
  "sched_tick s =
     (if sc_current s = 0 then Some (Stay, s)
      else do {
        s1 \<leftarrow> th_upd (sc_current s) (\<lambda>x. x\<lparr>th_slice := th_slice x - 1\<rparr>) s;
        c \<leftarrow> sc_threads s1 (sc_current s);
        (sw, s2) \<leftarrow> (if th_slice c \<le> 0 then do {
             t \<leftarrow> th_upd (sc_current s) (\<lambda>x. x\<lparr>th_slice := rr_quantum s1\<rparr>) s1;
             if sc_preempt t then sched_yield t else Some (Stay, t) }
           else Some (Stay, s1));
        (case sw of
           Switch f t \<Rightarrow> Some (Switch f t, s2)
         | Stay \<Rightarrow> do { s3 \<leftarrow> check_sleeping_threads s2; Some (Stay, s3) }) })"

definition scheduler_on_timer_isr :: "sstate \<Rightarrow> (switching \<times> sstate) option" where
  "scheduler_on_timer_isr s = sched_tick s"

definition sched_init :: "sstate \<Rightarrow> sstate" where
  "sched_init s = s\<lparr>sc_ready := 0, sc_sleeping := 0, sc_plist := 0, sc_current := 0, sc_pcurrent := 0,
     sc_preempt := True, sc_inited := True\<rparr>"

text \<open>The first thread is entered through \<^verbatim>\<open>switch_to_thread\<close> from no thread.\<close>

definition sched_start :: "sstate \<Rightarrow> (switching \<times> sstate) option" where
  "sched_start s =
     (if sc_ready s = 0 then Some (Stay, s)
      else do {
        x \<leftarrow> sc_threads s (sc_ready s);
        s1 \<leftarrow> th_upd (sc_ready s) (\<lambda>x. x\<lparr>th_state := THREAD_RUNNING\<rparr>) (s\<lparr>sc_ready := th_next x\<rparr>);
        Some (Switch 0 (sc_ready s), s1\<lparr>sc_current := sc_ready s\<rparr>) })"

definition sched_switch :: "addr \<Rightarrow> sstate \<Rightarrow> (switching \<times> sstate) option" where
  "sched_switch nxt s =
     (if nxt = 0 then Some (Stay, s)
      else do {
        n \<leftarrow> sc_threads s nxt;
        if th_state n \<noteq> THREAD_READY then Some (Stay, s)
        else if sc_current s = nxt then Some (Stay, s)
        else do {
          s1 \<leftarrow> (if sc_current s = 0 then Some s
             else do {
               t \<leftarrow> th_upd (sc_current s) (\<lambda>x. x\<lparr>th_state := THREAD_READY\<rparr>) s;
               sched_add_thread (sc_current s) t });
          s2 \<leftarrow> th_upd nxt (\<lambda>x. x\<lparr>th_state := THREAD_RUNNING, th_slice := rr_quantum s1\<rparr>) s1;
          Some (Switch (sc_current s) nxt, s2\<lparr>sc_current := nxt\<rparr>) } })"

definition sched_current_thread :: "sstate \<Rightarrow> addr" where "sched_current_thread s = sc_current s"
definition sched_current_process :: "sstate \<Rightarrow> addr" where "sched_current_process s = sc_pcurrent s"

subsection \<open>Processes of the scheduler\<close>

definition pr_upd :: "addr \<Rightarrow> (process \<Rightarrow> process) \<Rightarrow> sstate \<Rightarrow> sstate option" where
  "pr_upd p f s = map_option (\<lambda>q. s\<lparr>sc_ps := q\<rparr>) (ps_upd p f (sc_ps s))"

definition sched_add_process :: "addr \<Rightarrow> sstate \<Rightarrow> sstate option" where
  "sched_add_process p s =
     (if p = 0 then Some s
      else do {
        s1 \<leftarrow> pr_upd p (\<lambda>x. x\<lparr>pr_next := sc_plist s\<rparr>) s;
        Some (s1\<lparr>sc_plist := p, sc_pcurrent := (if sc_pcurrent s = 0 then p else sc_pcurrent s)\<rparr>) })"

partial_function (option) remove_proc_walk :: "addr \<Rightarrow> addr \<Rightarrow> sstate \<Rightarrow> sstate option" where
  "remove_proc_walk p prev s = do {
     x \<leftarrow> ps_procs (sc_ps s) prev;
     if pr_next x \<noteq> 0 \<and> pr_next x \<noteq> p then remove_proc_walk p (pr_next x) s
     else if pr_next x = p then do {
       y \<leftarrow> ps_procs (sc_ps s) p;
       pr_upd prev (\<lambda>x. x\<lparr>pr_next := pr_next y\<rparr>) s }
     else Some s }"

definition sched_remove_process :: "addr \<Rightarrow> sstate \<Rightarrow> sstate option" where
  "sched_remove_process p s =
     (if p = 0 \<or> sc_plist s = 0 then Some s
      else if sc_plist s = p then do { x \<leftarrow> ps_procs (sc_ps s) p; Some (s\<lparr>sc_plist := pr_next x\<rparr>) }
      else do {
        s1 \<leftarrow> remove_proc_walk p (sc_plist s) s;
        Some (if sc_pcurrent s1 = p then s1\<lparr>sc_pcurrent := sc_plist s1\<rparr> else s1) })"

subsection \<open>Settings and diagnostics\<close>

definition scheduler_set_preempt :: "int \<Rightarrow> sstate \<Rightarrow> sstate" where
  "scheduler_set_preempt on s = s\<lparr>sc_preempt := (on \<noteq> 0)\<rparr>"
definition scheduler_get_preempt :: "sstate \<Rightarrow> int" where
  "scheduler_get_preempt s = (if sc_preempt s then 1 else 0)"
definition scheduler_get_quantum :: "sstate \<Rightarrow> int" where "scheduler_get_quantum s = rr_quantum s"
definition scheduler_set_quantum :: "int \<Rightarrow> sstate \<Rightarrow> sstate" where
  "scheduler_set_quantum n s = (if 0 < n then s\<lparr>rr_quantum := n\<rparr> else s)"

partial_function (option) count_walk :: "addr \<Rightarrow> int \<Rightarrow> sstate \<Rightarrow> int option" where
  "count_walk t n s = (if t = 0 then Some n else do { x \<leftarrow> sc_threads s t; count_walk (th_next x) (n + 1) s })"

definition scheduler_task_count :: "sstate \<Rightarrow> int option" where
  "scheduler_task_count s = count_walk (tc_list s) 0 s"

partial_function (option) index_walk :: "addr \<Rightarrow> int \<Rightarrow> sstate \<Rightarrow> int option" where
  "index_walk t i s =
     (if t = 0 then Some (-1)
      else if t = sc_current s then Some i
      else do { x \<leftarrow> sc_threads s t; index_walk (th_next x) (i + 1) s })"

definition scheduler_current_index :: "sstate \<Rightarrow> int option" where
  "scheduler_current_index s = index_walk (tc_list s) 0 s"

subsection \<open>Threads\<close>

text \<open>
  \<^verbatim>\<open>thread_yield\<close> raises the interrupt of the timer, whose handler (\<^verbatim>\<open>interrupts/isr.c\<close>) only counts: its
  call of the scheduler is commented out.
\<close>

definition timer_tick :: "sstate \<Rightarrow> sstate" where
  "timer_tick s = s\<lparr>isr_ticks := isr_ticks s + 1\<rparr>"

definition thread_yield :: "sstate \<Rightarrow> sstate" where
  "thread_yield s = timer_tick s"

definition sc_alloc :: "u32 \<Rightarrow> sstate \<Rightarrow> addr \<times> sstate" where
  "sc_alloc n s = (case ps_alloc n (sc_ps s) of (p, q) \<Rightarrow> (p, s\<lparr>sc_ps := q\<rparr>))"

definition sc_free :: "addr \<Rightarrow> sstate \<Rightarrow> sstate option" where
  "sc_free p s = do { q \<leftarrow> ps_free p (sc_ps s); Some (s\<lparr>sc_ps := q, sc_threads := (sc_threads s)(p := None)\<rparr>) }"

text \<open>The words pushed downwards from \<open>sp\<close>.\<close>

fun push_words :: "u32 list \<Rightarrow> addr \<Rightarrow> (addr \<Rightarrow> u32) \<Rightarrow> addr \<times> (addr \<Rightarrow> u32)" where
  "push_words [] sp m = (sp, m)"
| "push_words (w # ws) sp m = push_words ws (sp - 4) (m(sp - 4 := w))"

definition setup_thread_stack :: "addr \<Rightarrow> sstate \<Rightarrow> sstate option" where
  "setup_thread_stack t s = do {
     x \<leftarrow> sc_threads s t;
     let (sp, m) = push_words [tc_entry s, 0, 0, 0, 0] ((th_base x + th_size x) AND NOT 0xF) (sc_stack_mem s);
     th_upd t (\<lambda>x. x\<lparr>th_stack := sp\<rparr>) (s\<lparr>sc_stack_mem := m\<rparr>) }"

text \<open>\<open>raw\<close> is what the new block of the heap held before: three members are never set.\<close>

definition thread_create :: "thread \<Rightarrow> addr \<Rightarrow> addr \<Rightarrow> sstate \<Rightarrow> (int \<times> sstate) option" where
  "thread_create raw entry arg s =
     (if entry = 0 then Some (-1, s)
      else case sc_alloc THREAD_SIZE s of (t, s1) \<Rightarrow>
        if t = 0 then Some (-1, s1)
        else (case sc_alloc DEFAULT_STACK_SIZE s1 of (base, s2) \<Rightarrow>
          if base = 0 then do { s3 \<leftarrow> sc_free t s2; Some (-1, s3) }
          else do {
            let x = raw\<lparr>th_size := DEFAULT_STACK_SIZE, th_base := base, th_tid := tc_next_tid s2, th_state := THREAD_READY,
                  th_entry := entry, th_arg := arg, th_retval := 0, th_process := process_current (sc_ps s2)\<rparr>;
            s3 \<leftarrow> setup_thread_stack t (s2\<lparr>tc_next_tid := tc_next_tid s2 + 1, sc_threads := (sc_threads s2)(t \<mapsto> x)\<rparr>);
            s4 \<leftarrow> th_upd t (\<lambda>x. x\<lparr>th_next := tc_list s3\<rparr>) s3;
            s5 \<leftarrow> sched_add_thread t (s4\<lparr>tc_list := t\<rparr>);
            Some (th_tid x, s5) }))"

text \<open>The result tells whether the call returns; otherwise the caller is left in the loop around \<^verbatim>\<open>hlt\<close>.\<close>

definition thread_exit :: "addr \<Rightarrow> sstate \<Rightarrow> (bool \<times> sstate) option" where
  "thread_exit retval s =
     (if tc_current s = 0 then Some (True, s)
      else do {
        s1 \<leftarrow> th_upd (tc_current s) (\<lambda>x. x\<lparr>th_retval := retval, th_state := THREAD_TERMINATED\<rparr>) s;
        Some (False, thread_yield s1) })"

text \<open>The thread with the identifier and its predecessor in the list, both 0 when there is none.\<close>

partial_function (option) tid_walk :: "int \<Rightarrow> addr \<Rightarrow> addr \<Rightarrow> sstate \<Rightarrow> (addr \<times> addr) option" where
  "tid_walk tid prev t s =
     (if t = 0 then Some (prev, 0)
      else do { x \<leftarrow> sc_threads s t; if th_tid x = tid then Some (prev, t) else tid_walk tid t (th_next x) s })"

partial_function (option) join_wait :: "addr \<Rightarrow> sstate \<Rightarrow> sstate option" where
  "join_wait t s = do {
     x \<leftarrow> sc_threads s t;
     if th_state x = THREAD_TERMINATED then Some s else join_wait t (thread_yield s) }"

text \<open>The second component is what is stored at a non-null \<^verbatim>\<open>retval\<close>.\<close>

definition thread_join :: "int \<Rightarrow> sstate \<Rightarrow> (int \<times> addr \<times> sstate) option" where
  "thread_join tid s =
     (if tid \<le> 0 then Some (-1, 0, s)
      else do {
        (prev, t) \<leftarrow> tid_walk tid 0 (tc_list s) s;
        if t = 0 then Some (-1, 0, s)
        else if t = tc_current s then Some (-1, 0, s)
        else do {
          s1 \<leftarrow> join_wait t s;
          x \<leftarrow> sc_threads s1 t;
          s2 \<leftarrow> (if prev \<noteq> 0 then th_upd prev (\<lambda>p. p\<lparr>th_next := th_next x\<rparr>) s1 else Some (s1\<lparr>tc_list := th_next x\<rparr>));
          s3 \<leftarrow> sc_free (th_base x) s2;
          s4 \<leftarrow> sc_free t s3;
          Some (0, th_retval x, s4) } })"

definition thread_self :: "sstate \<Rightarrow> int option" where
  "thread_self s = (if tc_current s = 0 then Some 0 else map_option th_tid (sc_threads s (tc_current s)))"

definition thread_sleep :: "u32 \<Rightarrow> sstate \<Rightarrow> sstate option" where
  "thread_sleep ms s =
     (if ms = 0 then Some (thread_yield s)
      else do {
        let w = timer_ticks s + (ms * 1000) div TICKS_PER_SEC;
        s1 \<leftarrow> th_upd (tc_current s) (\<lambda>x. x\<lparr>th_state := THREAD_BLOCKED, th_wakeup := w\<rparr>) s;
        s2 \<leftarrow> sched_add_sleeping_thread (tc_current s) s1;
        Some (thread_yield s2) })"

text \<open>\<open>None\<close> in the result is the end in \<^verbatim>\<open>kernel_bsod\<close>.\<close>

definition threading_init :: "sstate \<Rightarrow> sstate option" where
  "threading_init s = (case sc_alloc THREAD_SIZE s of (t, s1) \<Rightarrow>
     if t = 0 then None
     else
       let x = thread0\<lparr>th_tid := tc_next_tid s1, th_state := THREAD_RUNNING, th_process := process_current (sc_ps s1),
             th_slice := rr_quantum s1, th_size := DEFAULT_STACK_SIZE\<rparr> in
       (case sc_alloc DEFAULT_STACK_SIZE s1 of (base, s2) \<Rightarrow>
         if base = 0 then None
         else Some (s2\<lparr>tc_next_tid := tc_next_tid s2 + 1, tc_current := t, tc_list := t,
           sc_threads := (sc_threads s2)(t \<mapsto> x\<lparr>th_base := base, th_stack := base + DEFAULT_STACK_SIZE - 16\<rparr>)\<rparr>)))"

definition thread_list_head :: "sstate \<Rightarrow> addr" where "thread_list_head s = tc_list s"

subsection \<open>The ready queue is a stack\<close>

fun th_chain :: "sstate \<Rightarrow> addr \<Rightarrow> addr list \<Rightarrow> bool" where
  "th_chain s p [] \<longleftrightarrow> p = 0"
| "th_chain s p (x # xs) \<longleftrightarrow> p = x \<and> x \<noteq> 0 \<and> (\<exists>t. sc_threads s x = Some t \<and> th_chain s (th_next t) xs)"

lemma th_chain_cong:
  "th_chain s p xs \<Longrightarrow> (\<And>x. x \<in> set xs \<Longrightarrow> map_option th_next (sc_threads s' x) = map_option th_next (sc_threads s x))
   \<Longrightarrow> th_chain s' p xs"
proof (induction xs arbitrary: p)
  case (Cons x xs)
  then obtain t where t: "p = x" "x \<noteq> 0" "sc_threads s x = Some t" "th_chain s (th_next t) xs" by auto
  then obtain t' where "sc_threads s' x = Some t'" "th_next t' = th_next t" using Cons.prems(2) [of x] by auto
  then show ?case using t Cons.IH [OF t(4)] Cons.prems(2) by simp
qed simp

definition ready_queue :: "sstate \<Rightarrow> addr list \<Rightarrow> bool" where
  "ready_queue s xs \<longleftrightarrow> th_chain s (sc_ready s) xs \<and> distinct xs"

lemma add_thread:
  assumes "ready_queue s xs" and "t \<notin> set xs" and "t \<noteq> 0" and "sc_threads s t = Some x"
  shows "sched_add_thread t s = Some (s\<lparr>sc_threads := (sc_threads s)(t \<mapsto> x\<lparr>th_next := sc_ready s\<rparr>), sc_ready := t\<rparr>)"
    and "ready_queue (s\<lparr>sc_threads := (sc_threads s)(t \<mapsto> x\<lparr>th_next := sc_ready s\<rparr>), sc_ready := t\<rparr>) (t # xs)"
proof -
  let ?s = "s\<lparr>sc_threads := (sc_threads s)(t \<mapsto> x\<lparr>th_next := sc_ready s\<rparr>), sc_ready := t\<rparr>"
  show "sched_add_thread t s = Some ?s" using assms(3,4) by (simp add: sched_add_thread_def th_upd_def)
  have "th_chain s (sc_ready s) xs" using assms(1) by (simp add: ready_queue_def)
  then have "th_chain ?s (sc_ready s) xs" by (rule th_chain_cong) (use assms(2) in auto)
  then show "ready_queue ?s (t # xs)" using assms by (simp add: ready_queue_def)
qed

lemma pick_thread:
  assumes "ready_queue s (b # xs)"
  obtains y where "sc_threads s b = Some y" "b \<noteq> 0" "b \<notin> set xs"
    "pick_next_thread s = Some (b, s\<lparr>sc_ready := th_next y, sc_threads := (sc_threads s)(b \<mapsto> y\<lparr>th_next := 0\<rparr>)\<rparr>)"
    "ready_queue (s\<lparr>sc_ready := th_next y, sc_threads := (sc_threads s)(b \<mapsto> y\<lparr>th_next := 0\<rparr>)\<rparr>) xs"
proof -
  obtain y where y: "sc_ready s = b" "b \<noteq> 0" "sc_threads s b = Some y" "th_chain s (th_next y) xs" "b \<notin> set xs" "distinct xs"
    using assms by (auto simp: ready_queue_def)
  let ?s = "s\<lparr>sc_ready := th_next y, sc_threads := (sc_threads s)(b \<mapsto> y\<lparr>th_next := 0\<rparr>)\<rparr>"
  have "th_chain ?s (th_next y) xs" using y(4) by (rule th_chain_cong) (use y(5) in auto)
  then show thesis using y by (intro that [of y]) (simp_all add: pick_next_thread_def th_upd_def ready_queue_def)
qed

text \<open>The walk that removes a thread from behind \<open>prev\<close>.\<close>

lemma remove_walk_chain:
  "th_chain s p (prev # xs) \<Longrightarrow> distinct (prev # xs) \<Longrightarrow> t \<noteq> 0 \<Longrightarrow> t \<noteq> prev \<Longrightarrow>
   \<exists>s'. remove_walk t prev s = Some s' \<and> th_chain s' p (prev # remove1 t xs) \<and> sc_ready s' = sc_ready s
     \<and> (\<forall>y. y \<notin> set (prev # xs) \<longrightarrow> sc_threads s' y = sc_threads s y)"
proof (induction xs arbitrary: p prev)
  case Nil
  then show ?case by (subst remove_walk.simps) auto
next
  case (Cons x xs)
  then obtain q where q: "p = prev" "prev \<noteq> 0" "sc_threads s prev = Some q" "th_next q = x" "x \<noteq> 0"
      "th_chain s x (x # xs)" by auto
  show ?case
  proof (cases "x = t")
    case True
    obtain z where z: "sc_threads s t = Some z" "th_chain s (th_next z) xs" using q(6) True by auto
    let ?s = "s\<lparr>sc_threads := (sc_threads s)(prev \<mapsto> q\<lparr>th_next := th_next z\<rparr>)\<rparr>"
    have "remove_walk t prev s = Some ?s"
      using q z True by (subst remove_walk.simps) (simp add: th_upd_def)
    moreover have "th_chain ?s (th_next z) xs" using z(2) by (rule th_chain_cong) (use Cons.prems(2) in auto)
    ultimately show ?thesis using q True Cons.prems(2) by (intro exI [of _ ?s]) auto
  next
    case False
    obtain s' where s': "remove_walk t x s = Some s'" "th_chain s' x (x # remove1 t xs)" "sc_ready s' = sc_ready s"
        "\<forall>y. y \<notin> set (x # xs) \<longrightarrow> sc_threads s' y = sc_threads s y"
      using Cons.IH [OF q(6)] Cons.prems(2,3) False by auto
    have "remove_walk t prev s = remove_walk t x s"
      using q False by (subst remove_walk.simps) simp
    moreover have "sc_threads s' prev = Some q" using s'(4) q(3) Cons.prems(2) by simp
    ultimately show ?thesis using s' q False by (intro exI [of _ s']) auto
  qed
qed

lemma remove_thread:
  assumes "ready_queue s xs" and "t \<noteq> 0"
  shows "\<exists>s'. sched_remove_thread t s = Some s' \<and> ready_queue s' (remove1 t xs)"
proof (cases xs)
  case Nil
  then show ?thesis using assms by (simp add: ready_queue_def sched_remove_thread_def)
next
  case (Cons x ys)
  then have c: "th_chain s (sc_ready s) (x # ys)" "distinct (x # ys)" using assms(1) by (simp_all add: ready_queue_def)
  show ?thesis
  proof (cases "x = t")
    case True
    obtain z where z: "sc_threads s x = Some z" "th_chain s (th_next z) ys" "sc_ready s = x" using c(1) by auto
    have "th_chain (s\<lparr>sc_ready := th_next z\<rparr>) (th_next z) ys" using z(2) by (rule th_chain_cong) simp
    moreover have "sc_ready s = t" "th_chain s (sc_ready s) (t # ys)" "t \<notin> set ys" "distinct ys" using c True z(3) by auto
    ultimately show ?thesis using z(1) assms(2) unfolding Cons True
      by (simp add: sched_remove_thread_def ready_queue_def)
  next
    case False
    from remove_walk_chain [OF c assms(2)] False obtain s' where
      "remove_walk t x s = Some s'" "th_chain s' (sc_ready s) (x # remove1 t ys)" "sc_ready s' = sc_ready s" by auto
    then show ?thesis using c False assms(2) Cons by (intro exI [of _ s']) (auto simp: sched_remove_thread_def ready_queue_def)
  qed
qed

subsection \<open>Yielding\<close>

text \<open>The scheduler at work: \<open>a\<close> runs, \<open>xs\<close> wait.\<close>

definition running :: "sstate \<Rightarrow> addr \<Rightarrow> addr list \<Rightarrow> bool" where
  "running s a xs \<longleftrightarrow> sc_inited s \<and> ready_queue s xs \<and> a \<notin> set xs \<and> a \<noteq> 0 \<and> sc_current s = a
     \<and> map_option th_state (sc_threads s a) = Some THREAD_RUNNING"

lemma yield_step_full:
  assumes "running s a (b # xs)"
  shows "\<exists>s'. sched_yield s = Some (Switch a b, s') \<and> running s' b (a # xs)
    \<and> map_option th_slice (sc_threads s' b) = Some (rr_quantum s) \<and> rr_quantum s' = rr_quantum s
    \<and> sc_stack_mem s' = sc_stack_mem s \<and> (\<forall>z. map_option th_stack (sc_threads s' z) = map_option th_stack (sc_threads s z))"
proof -
  have r: "sc_inited s" "ready_queue s (b # xs)" "a \<notin> set (b # xs)" "a \<noteq> 0" "sc_current s = a"
    using assms by (simp_all add: running_def)
  obtain x where x: "sc_threads s a = Some x" "th_state x = THREAD_RUNNING" using assms by (auto simp: running_def)
  obtain y where y: "sc_threads s b = Some y" "b \<noteq> 0" "b \<notin> set xs"
    "pick_next_thread s = Some (b, s\<lparr>sc_ready := th_next y, sc_threads := (sc_threads s)(b \<mapsto> y\<lparr>th_next := 0\<rparr>)\<rparr>)"
    "ready_queue (s\<lparr>sc_ready := th_next y, sc_threads := (sc_threads s)(b \<mapsto> y\<lparr>th_next := 0\<rparr>)\<rparr>) xs"
    by (rule pick_thread [OF r(2)])
  obtain s1 where s1: "s1 = s\<lparr>sc_ready := th_next y, sc_threads := (sc_threads s)(b \<mapsto> y\<lparr>th_next := 0\<rparr>, a \<mapsto> x\<lparr>th_state := THREAD_READY\<rparr>)\<rparr>"
    by blast
  have "th_chain (s\<lparr>sc_ready := th_next y, sc_threads := (sc_threads s)(b \<mapsto> y\<lparr>th_next := 0\<rparr>)\<rparr>) (th_next y) xs"
    using y(5) by (simp add: ready_queue_def)
  then have "th_chain s1 (th_next y) xs" by (rule th_chain_cong) (use r(3) in \<open>auto simp: s1\<close>)
  then have q1: "ready_queue s1 xs" using y(5) by (simp add: ready_queue_def s1)
  have ax: "sc_threads s1 a = Some (x\<lparr>th_state := THREAD_READY\<rparr>)" by (simp add: s1)
  obtain s2 where s2: "s2 = s1\<lparr>sc_threads := (sc_threads s1)(a \<mapsto> x\<lparr>th_state := THREAD_READY, th_next := sc_ready s1\<rparr>), sc_ready := a\<rparr>"
    by blast
  have add: "sched_add_thread a s1 = Some s2" "ready_queue s2 (a # xs)"
    using add_thread [OF q1 _ r(4) ax] r(3) by (simp_all add: s2)
  have b2: "sc_threads s2 b = Some (y\<lparr>th_next := 0\<rparr>)" using r(3) by (auto simp: s2 s1)
  let ?y = "y\<lparr>th_next := 0, th_state := THREAD_RUNNING, th_slice := rr_quantum s\<rparr>"
  let ?s = "s2\<lparr>sc_threads := (sc_threads s2)(b \<mapsto> ?y), sc_current := b\<rparr>"
  have "sched_yield s = Some (Switch a b, ?s)"
    using r(1,3-5) x y(2,4) add(1) b2 by (simp add: sched_yield_def th_upd_def) (simp add: s1 s2)
  moreover have "th_chain s2 (sc_ready s2) (a # xs)" using add(2) by (simp only: ready_queue_def)
  then have "th_chain ?s (sc_ready s2) (a # xs)" by (rule th_chain_cong) (use r(3) y(3) in auto)
  then have "running ?s b (a # xs)"
    using r(1,3,4) add(2) y(2,3) by (simp add: running_def ready_queue_def) (auto simp: s2 s1)
  moreover have "map_option th_stack (sc_threads ?s z) = map_option th_stack (sc_threads s z)" for z
    using x(1) y(1) by (auto simp: s2 s1)
  ultimately show ?thesis by (simp add: s2 s1)
qed

lemma yield_step:
  "running s a (b # xs) \<Longrightarrow> \<exists>s'. sched_yield s = Some (Switch a b, s') \<and> running s' b (a # xs)
    \<and> map_option th_slice (sc_threads s' b) = Some (rr_quantum s) \<and> rr_quantum s' = rr_quantum s"
  using yield_step_full [of s a b xs] by blast

text \<open>
  What every round of a scheduler with such a queue does, whatever the threads are: the thread that
  yields goes where the next one is taken from.
\<close>

locale last_in_first_out =
  fixes runs :: "'s \<Rightarrow> 'a \<Rightarrow> 'a list \<Rightarrow> bool" and yield_to :: "'s \<Rightarrow> 's option"
  assumes swap: "runs s a (b # xs) \<Longrightarrow> \<exists>s'. yield_to s = Some s' \<and> runs s' b (a # xs)"
begin

fun rounds :: "nat \<Rightarrow> 's \<Rightarrow> 's option" where
  "rounds 0 s = Some s"
| "rounds (Suc n) s = Option.bind (yield_to s) (rounds n)"

lemma alternates:
  "runs s a (b # xs) \<Longrightarrow> \<exists>s'. rounds n s = Some s' \<and> (if even n then runs s' a (b # xs) else runs s' b (a # xs))"
proof (induction n arbitrary: s a b)
  case (Suc n)
  obtain s1 where s1: "yield_to s = Some s1" "runs s1 b (a # xs)" using swap [OF Suc.prems] by blast
  from Suc.IH [OF s1(2)] s1(1) show ?case by auto
qed simp

end

text \<open>\<open>n\<close> yields, by whichever thread runs.\<close>

fun yields :: "nat \<Rightarrow> sstate \<Rightarrow> sstate option" where
  "yields 0 s = Some s"
| "yields (Suc n) s = Option.bind (map_option snd (sched_yield s)) (yields n)"

interpretation lifo: last_in_first_out running "\<lambda>s. map_option snd (sched_yield s)"
  using yield_step by unfold_locales fastforce

lemma rounds_yields: "lifo.rounds n s = yields n s"
proof (induction n arbitrary: s)
  case (Suc n)
  have "lifo.rounds n = yields n" by (rule ext) (rule Suc.IH)
  then show ?case by simp
qed simp

subsection \<open>Waking up\<close>

fun sl_chain :: "sstate \<Rightarrow> addr \<Rightarrow> addr list \<Rightarrow> bool" where
  "sl_chain s p [] \<longleftrightarrow> p = 0"
| "sl_chain s p (x # xs) \<longleftrightarrow> p = x \<and> x \<noteq> 0 \<and> (\<exists>t. sc_threads s x = Some t \<and> sl_chain s (th_next_sleeping t) xs)"

lemma sl_chain_cong:
  "sl_chain s p xs \<Longrightarrow> (\<And>x. x \<in> set xs \<Longrightarrow> map_option th_next_sleeping (sc_threads s' x) = map_option th_next_sleeping (sc_threads s x))
   \<Longrightarrow> sl_chain s' p xs"
proof (induction xs arbitrary: p)
  case (Cons x xs)
  then obtain t where t: "p = x" "x \<noteq> 0" "sc_threads s x = Some t" "sl_chain s (th_next_sleeping t) xs" by auto
  then obtain t' where "sc_threads s' x = Some t'" "th_next_sleeping t' = th_next_sleeping t" using Cons.prems(2) [of x] by auto
  then show ?case using t Cons.IH [OF t(4)] Cons.prems(2) by simp
qed simp

lemma sl_chain_nonzero: "sl_chain s p xs \<Longrightarrow> x \<in> set xs \<Longrightarrow> x \<noteq> 0"
  by (induction xs arbitrary: p) auto

definition due :: "sstate \<Rightarrow> addr \<Rightarrow> bool" where
  "due s p \<longleftrightarrow> (\<exists>w. map_option th_wakeup (sc_threads s p) = Some w \<and> w \<le> timer_ticks s)"

definition slot_ok :: "addr \<Rightarrow> sstate \<Rightarrow> bool" where
  "slot_ok slot s \<longleftrightarrow> slot = 0 \<or> sc_threads s slot \<noteq> None"

definition state_of :: "sstate \<Rightarrow> addr \<Rightarrow> thread_state option" where
  "state_of s p = map_option th_state (sc_threads s p)"

text \<open>The threads \<open>ss\<close> behind \<open>slot\<close>, the woken ones moved to the ready queue.\<close>

definition woken :: "addr \<Rightarrow> addr list \<Rightarrow> addr list \<Rightarrow> sstate \<Rightarrow> sstate \<Rightarrow> bool" where
  "woken slot ss rs s s' \<longleftrightarrow> ready_queue s' (rev (filter (due s) ss) @ rs)
     \<and> (\<exists>p. get_sleep_slot slot s' = Some p \<and> sl_chain s' p (filter (\<lambda>x. \<not> due s x) ss))
     \<and> (slot \<noteq> 0 \<longrightarrow> sc_sleeping s' = sc_sleeping s)
     \<and> (\<forall>x. x \<notin> insert slot (set ss) \<longrightarrow> sc_threads s' x = sc_threads s x)
     \<and> (\<forall>x. state_of s' x = (if x \<in> set (filter (due s) ss) then Some THREAD_READY else state_of s x))
     \<and> timer_ticks s' = timer_ticks s"

lemma set_slot:
  assumes "slot_ok slot s"
  obtains s1 where "set_sleep_slot slot p s = Some s1" "get_sleep_slot slot s1 = Some p"
    "\<And>y. y \<noteq> slot \<Longrightarrow> sc_threads s1 y = sc_threads s y" "slot_ok slot s1"
    "\<And>y. map_option th_next (sc_threads s1 y) = map_option th_next (sc_threads s y)"
    "\<And>y. map_option th_state (sc_threads s1 y) = map_option th_state (sc_threads s y)"
    "\<And>y. map_option th_wakeup (sc_threads s1 y) = map_option th_wakeup (sc_threads s y)"
    "slot \<noteq> 0 \<Longrightarrow> sc_sleeping s1 = sc_sleeping s" "sc_ready s1 = sc_ready s" "timer_ticks s1 = timer_ticks s"
proof (cases "slot = 0")
  case True
  then show thesis by (intro that [of "s\<lparr>sc_sleeping := p\<rparr>"]) (simp_all add: set_sleep_slot_def get_sleep_slot_def slot_ok_def)
next
  case False
  then obtain q where q: "sc_threads s slot = Some q" using assms by (auto simp: slot_ok_def)
  then show thesis using False
    by (intro that [of "s\<lparr>sc_threads := (sc_threads s)(slot \<mapsto> q\<lparr>th_next_sleeping := p\<rparr>)\<rparr>"])
      (simp_all add: set_sleep_slot_def get_sleep_slot_def slot_ok_def th_upd_def)
qed

lemma wake_loop_chain:
  assumes "sl_chain s p ss" and "get_sleep_slot slot s = Some p" and "ready_queue s rs"
    and "distinct ss" and "set ss \<inter> set rs = {}" and "slot \<notin> set ss" and "slot_ok slot s"
  shows "\<exists>s'. wake_loop slot p s = Some s' \<and> woken slot ss rs s s'"
  using assms
proof (induction ss arbitrary: p slot s rs)
  case Nil
  then show ?case by (subst wake_loop.simps) (simp add: woken_def)
next
  case (Cons x ss)
  obtain t where t: "p = x" "x \<noteq> 0" "sc_threads s x = Some t" "sl_chain s (th_next_sleeping t) ss"
    using Cons.prems(1) by auto
  have d: "x \<notin> set ss" "distinct ss" "slot \<noteq> x" "slot \<notin> set ss" "x \<notin> set rs" "set ss \<inter> set rs = {}"
    using Cons.prems by auto
  show ?case
  proof (cases "th_wakeup t \<le> timer_ticks s")
    case False
    then have nd: "\<not> due s x" using t(3) by (simp add: due_def)
    have "get_sleep_slot x s = Some (th_next_sleeping t)" "slot_ok x s" using t by (simp_all add: get_sleep_slot_def slot_ok_def)
    from Cons.IH [OF t(4) this(1) Cons.prems(3) d(2,6,1) this(2)]
    obtain s' where s': "wake_loop x (th_next_sleeping t) s = Some s'" "woken x ss rs s s'" by blast
    have "wake_loop slot p s = wake_loop x (th_next_sleeping t) s"
      using t False by (subst wake_loop.simps) simp
    moreover have "woken slot (x # ss) rs s s'"
    proof -
      have "sc_threads s' slot = sc_threads s slot" "sc_sleeping s' = sc_sleeping s"
        using s'(2) d t(2) by (auto simp: woken_def)
      then have g: "get_sleep_slot slot s' = Some x" using Cons.prems(2) t(1) by (auto simp: get_sleep_slot_def split: if_splits)
      have "sc_threads s' x \<noteq> None"
        using s'(2) t(2) by (auto simp: woken_def get_sleep_slot_def)
      then obtain t' where "sc_threads s' x = Some t'" by blast
      then have "sl_chain s' x (x # filter (\<lambda>x. \<not> due s x) ss)"
        using s'(2) t(2) by (auto simp: woken_def get_sleep_slot_def)
      then show ?thesis using s'(2) nd g \<open>sc_sleeping s' = sc_sleeping s\<close> by (auto simp: woken_def simp del: sl_chain.simps)
    qed
    ultimately show ?thesis using s'(1) by auto
  next
    case True
    then have du: "due s x" using t(3) by (simp add: due_def)
    obtain s1 where s1: "set_sleep_slot slot (th_next_sleeping t) s = Some s1" "get_sleep_slot slot s1 = Some (th_next_sleeping t)"
      "\<And>y. y \<noteq> slot \<Longrightarrow> sc_threads s1 y = sc_threads s y" "slot_ok slot s1"
      "\<And>y. map_option th_next (sc_threads s1 y) = map_option th_next (sc_threads s y)"
      "\<And>y. map_option th_state (sc_threads s1 y) = map_option th_state (sc_threads s y)"
      "\<And>y. map_option th_wakeup (sc_threads s1 y) = map_option th_wakeup (sc_threads s y)"
      "slot \<noteq> 0 \<Longrightarrow> sc_sleeping s1 = sc_sleeping s" "sc_ready s1 = sc_ready s" "timer_ticks s1 = timer_ticks s"
      using set_slot [OF Cons.prems(7), of "th_next_sleeping t"] by metis
    have x1: "sc_threads s1 x = Some t" using s1(3) d(3) t(3) by simp
    obtain s2 where s2: "s2 = s1\<lparr>sc_threads := (sc_threads s1)(x \<mapsto> t\<lparr>th_state := THREAD_READY\<rparr>)\<rparr>" by blast
    have "th_chain s (sc_ready s) rs" "distinct rs" using Cons.prems(3) by (simp_all add: ready_queue_def)
    then have "th_chain s2 (sc_ready s) rs" by (elim th_chain_cong) (use s1(5) d(5) in \<open>auto simp: s2\<close>)
    then have q2: "ready_queue s2 rs" using s1(9) \<open>distinct rs\<close> by (simp add: ready_queue_def s2)
    have x2: "sc_threads s2 x = Some (t\<lparr>th_state := THREAD_READY\<rparr>)" by (simp add: s2)
    obtain s3 where s3: "s3 = s2\<lparr>sc_threads := (sc_threads s2)(x \<mapsto> t\<lparr>th_state := THREAD_READY, th_next := sc_ready s2\<rparr>), sc_ready := x\<rparr>"
      by blast
    have add: "sched_add_thread x s2 = Some s3" "ready_queue s3 (x # rs)"
      using add_thread [OF q2 d(5) t(2) x2] by (simp_all add: s3)
    have o3: "\<And>y. y \<noteq> x \<Longrightarrow> sc_threads s3 y = sc_threads s1 y" "sc_sleeping s3 = sc_sleeping s1" "timer_ticks s3 = timer_ticks s"
      using s1(10) by (simp_all add: s3 s2)
    have g3: "get_sleep_slot slot s3 = Some (th_next_sleeping t)" "slot_ok slot s3"
      using s1(2,4) o3(1,2) d(3) by (auto simp: get_sleep_slot_def slot_ok_def split: if_splits)
    have "sl_chain s3 (th_next_sleeping t) ss"
      using t(4) by (rule sl_chain_cong) (use o3(1) s1(3) d(1,4) in metis)
    from Cons.IH [OF this g3(1) add(2) d(2) _ d(4) g3(2)] d(1,6)
    obtain s' where s': "wake_loop slot (th_next_sleeping t) s3 = Some s'" "woken slot ss (x # rs) s3 s'" by auto
    have "wake_loop slot p s = wake_loop slot (th_next_sleeping t) s3"
      using t True s1(1) x1 add(1) g3(1) by (subst wake_loop.simps) (simp add: th_upd_def s2 [symmetric])
    moreover have "woken slot (x # ss) rs s s'"
    proof -
      have due3: "due s3 y = due s y" for y
        using s1(7) [of y] t(3) o3(1) [of y] by (cases "y = x") (auto simp: due_def s3 s2 s1(10))
      have st3: "state_of s3 y = (if y = x then Some THREAD_READY else state_of s y)" for y
        using s1(6) [of y] o3(1) [of y] by (auto simp: state_of_def s3)
      have sl3: "slot \<noteq> 0 \<longrightarrow> sc_sleeping s3 = sc_sleeping s" using s1(8) o3(2) by simp
      have f: "due s3 = due s" using due3 by blast
      show ?thesis using s'(2) du st3 sl3 d(1) o3(1,3) s1(3) unfolding woken_def f by auto
    qed
    ultimately show ?thesis using s'(1) by auto
  qed
qed

subsection \<open>Creating, leaving and joining\<close>

definition sc_ok :: "sstate \<Rightarrow> bool" where
  "sc_ok s \<longleftrightarrow> fs_wf (ps_fs (sc_ps s)) \<and> dom (sc_threads s) \<subseteq> live (fs_heap (ps_fs (sc_ps s)))"

lemma sc_alloc_ok:
  assumes "sc_ok s" and "kmalloc_ok n" and "sc_alloc n s = (p, s1)" and "p \<noteq> 0"
  shows "\<exists>q. s1 = s\<lparr>sc_ps := q\<rparr> \<and> sc_ok s1 \<and> sc_threads s p = None \<and> ps_current q = ps_current (sc_ps s)
    \<and> p \<in> live (fs_heap (ps_fs q))"
proof -
  obtain h where k: "kmalloc n (fs_heap (ps_fs (sc_ps s))) = (p, h)"
    "s1 = s\<lparr>sc_ps := (sc_ps s)\<lparr>ps_fs := (ps_fs (sc_ps s))\<lparr>fs_heap := h\<rparr>\<rparr>\<rparr>"
    using assms(3) by (auto simp: sc_alloc_def ps_alloc_def fs_alloc_def split: prod.splits)
  have wf: "fs_wf (ps_fs (sc_ps s))" using assms(1) by (simp add: sc_ok_def)
  note a = fs_alloc_fresh [OF wf assms(2) k(1) assms(4)]
  have "p \<notin> live (fs_heap (ps_fs (sc_ps s)))"
    using kh.alloc_fresh [of "fs_heap (ps_fs (sc_ps s))" n] wf assms(2,4) k(1) by (simp add: fs_wf_def)
  then have "sc_threads s p = None" using assms(1) by (auto simp: sc_ok_def)
  moreover have "fs_wf ((ps_fs (sc_ps s))\<lparr>fs_heap := h\<rparr>)" using wf a(2,3) by (auto simp: fs_wf_def)
  then have "sc_ok s1" using assms(1) a(3) by (auto simp: sc_ok_def k(2))
  ultimately show ?thesis using a(3) unfolding k(2)
    by (intro exI [of _ "(sc_ps s)\<lparr>ps_fs := (ps_fs (sc_ps s))\<lparr>fs_heap := h\<rparr>\<rparr>"]) simp
qed

lemma th_chain_mem: "th_chain s p xs \<Longrightarrow> x \<in> set xs \<Longrightarrow> x \<noteq> 0 \<and> sc_threads s x \<noteq> None"
  by (induction xs arbitrary: p) auto

lemma count_chain: "th_chain s p xs \<Longrightarrow> count_walk p n s = Some (n + int (length xs))"
proof (induction xs arbitrary: p n)
  case (Cons x xs)
  then show ?case by (subst count_walk.simps) auto
qed (simp add: count_walk.simps)

definition tid_at :: "sstate \<Rightarrow> addr \<Rightarrow> int option" where
  "tid_at s p = map_option th_tid (sc_threads s p)"

lemma tid_walk_chain:
  "th_chain s p xs \<Longrightarrow> \<exists>q. tid_walk tid prev p s = Some (q, case find (\<lambda>x. tid_at s x = Some tid) xs of None \<Rightarrow> 0 | Some x \<Rightarrow> x)"
proof (induction xs arbitrary: p prev)
  case (Cons x xs)
  then obtain t where t: "p = x" "x \<noteq> 0" "sc_threads s x = Some t" "th_chain s (th_next t) xs" by auto
  then show ?case using Cons.IH [OF t(4), of x] by (subst tid_walk.simps) (auto simp: tid_at_def)
qed (simp add: tid_walk.simps)

text \<open>Nothing that happens while a thread waits in \<^verbatim>\<open>thread_join\<close> changes a thread.\<close>

lemma join_wait_spins: "state_of s t \<noteq> Some THREAD_TERMINATED \<Longrightarrow> join_wait t s = None"
proof -
  have "state_of s t = Some THREAD_TERMINATED" if "join_wait t s = Some r" for t s r
    using that
  proof (rule join_wait.raw_induct [of "\<lambda>t s r. state_of s t = Some THREAD_TERMINATED", rotated])
    fix join :: "addr \<Rightarrow> sstate \<Rightarrow> sstate option" and t s r
    assume IH: "\<And>t s r. join t s = Some r \<Longrightarrow> state_of s t = Some THREAD_TERMINATED"
      and r: "sc_threads s t \<bind> (\<lambda>x. if th_state x = THREAD_TERMINATED then Some s else join t (thread_yield s)) = Some r"
    then obtain x where x: "sc_threads s t = Some x" by (auto simp: bind_eq_Some_conv)
    show "state_of s t = Some THREAD_TERMINATED"
    proof (cases "th_state x = THREAD_TERMINATED")
      case False
      then have "state_of (thread_yield s) t = Some THREAD_TERMINATED" using r x IH by simp
      then show ?thesis by (simp add: state_of_def thread_yield_def timer_tick_def)
    qed (simp add: x state_of_def)
  qed
  then show "state_of s t \<noteq> Some THREAD_TERMINATED \<Longrightarrow> join_wait t s = None" by (cases "join_wait t s") auto
qed

lemma create_thread_full:
  assumes ok: "sc_ok s" and q: "ready_queue s rs" and e: "entry \<noteq> 0"
    and a1: "sc_alloc THREAD_SIZE s = (t, s1)" "t \<noteq> 0" and a2: "sc_alloc DEFAULT_STACK_SIZE s1 = (base, s2)" "base \<noteq> 0"
  shows "\<exists>s'. thread_create raw entry arg s = Some (tc_next_tid s, s') \<and> tc_list s' = t \<and> sc_ready s' = t
    \<and> ready_queue s' (t # rs) \<and> t \<notin> set rs \<and> (\<forall>y. y \<noteq> t \<longrightarrow> sc_threads s' y = sc_threads s y)
    \<and> tid_at s' t = Some (tc_next_tid s) \<and> state_of s' t = Some THREAD_READY
    \<and> (\<exists>x. sc_threads s' t = Some x \<and> th_entry x = entry \<and> th_arg x = arg \<and> th_state x = THREAD_READY
        \<and> (th_stack x, sc_stack_mem s') = push_words [tc_entry s, 0, 0, 0, 0] ((base + DEFAULT_STACK_SIZE) AND NOT 0xF) (sc_stack_mem s))"
proof -
  have n: "kmalloc_ok THREAD_SIZE" "kmalloc_ok DEFAULT_STACK_SIZE"
    by (simp_all add: kmalloc_ok_def THREAD_SIZE_def DEFAULT_STACK_SIZE_def)
  obtain q1 where q1: "s1 = s\<lparr>sc_ps := q1\<rparr>" "sc_ok s1" "sc_threads s t = None"
    using sc_alloc_ok [OF ok n(1) a1] by blast
  obtain q2 where q2: "s2 = s1\<lparr>sc_ps := q2\<rparr>" using sc_alloc_ok [OF q1(2) n(2) a2] by blast
  have ch: "th_chain s (sc_ready s) rs" "distinct rs" using q by (simp_all add: ready_queue_def)
  have tr: "t \<notin> set rs" using th_chain_mem [OF ch(1)] q1(3) by blast
  let ?x = "raw\<lparr>th_size := DEFAULT_STACK_SIZE, th_base := base, th_tid := tc_next_tid s2, th_state := THREAD_READY,
      th_entry := entry, th_arg := arg, th_retval := 0, th_process := process_current (sc_ps s2)\<rparr>"
  obtain sp m where pw: "push_words [tc_entry s2, 0, 0, 0, 0] ((base + DEFAULT_STACK_SIZE) AND NOT 0xF) (sc_stack_mem s2) = (sp, m)"
    by fastforce
  obtain s4 where s4: "s4 = s2\<lparr>tc_next_tid := tc_next_tid s2 + 1, sc_stack_mem := m,
      sc_threads := (sc_threads s2)(t \<mapsto> ?x\<lparr>th_stack := sp, th_next := tc_list s2\<rparr>), tc_list := t\<rparr>" by blast
  have "th_chain s4 (sc_ready s) rs" using ch(1) by (rule th_chain_cong) (use tr in \<open>auto simp: s4 q2 q1(1)\<close>)
  then have q4: "ready_queue s4 rs" using ch(2) by (simp add: ready_queue_def) (simp add: s4 q2 q1(1))
  have x4: "sc_threads s4 t = Some (?x\<lparr>th_stack := sp, th_next := tc_list s2\<rparr>)" by (simp add: s4)
  note add = add_thread [OF q4 tr a1(2) x4]
  have "thread_create raw entry arg s = Some (tc_next_tid s2,
      s4\<lparr>sc_threads := (sc_threads s4)(t \<mapsto> ?x\<lparr>th_stack := sp, th_next := sc_ready s4\<rparr>), sc_ready := t\<rparr>)"
    using e a1 a2 add(1) pw
    by (simp add: thread_create_def setup_thread_stack_def th_upd_def Let_def s4 [symmetric] del: push_words.simps)
  then show ?thesis using add(2) tr
    by (intro exI [of _ "s4\<lparr>sc_threads := (sc_threads s4)(t \<mapsto> ?x\<lparr>th_stack := sp, th_next := sc_ready s4\<rparr>), sc_ready := t\<rparr>"])
      (use pw in \<open>simp add: s4 q2 q1(1) tid_at_def state_of_def del: push_words.simps\<close>)
qed

lemma create_thread:
  assumes "sc_ok s" "ready_queue s rs" "entry \<noteq> 0"
    and "sc_alloc THREAD_SIZE s = (t, s1)" "t \<noteq> 0" "sc_alloc DEFAULT_STACK_SIZE s1 = (base, s2)" "base \<noteq> 0"
  shows "\<exists>s'. thread_create raw entry arg s = Some (tc_next_tid s, s') \<and> tc_list s' = t \<and> sc_ready s' = t
    \<and> ready_queue s' (t # rs) \<and> t \<notin> set rs \<and> (\<forall>y. y \<noteq> t \<longrightarrow> sc_threads s' y = sc_threads s y)
    \<and> tid_at s' t = Some (tc_next_tid s) \<and> state_of s' t = Some THREAD_READY"
  using create_thread_full [OF assms] by blast

subsection \<open>Properties\<close>

text \<open>C23.  While threads wait, the running thread and the one that was queued last yield to each other for
  ever: after any number of yields one of the two runs, and the threads behind them in the queue are
  where they were.  (A comment in the source calls this round-robin.)\<close>

theorem sched_yield_starves:
  assumes "running s a (b # xs)"
  shows "\<exists>s'. yields n s = Some s' \<and> (if even n then running s' a (b # xs) else running s' b (a # xs))"
  using lifo.alternates [OF assms, of n] unfolding rounds_yields .

definition demo_sched :: sstate where
  "demo_sched = \<lparr>sc_ps = demo_ps, sc_threads = [0x1000 \<mapsto> thread0\<lparr>th_tid := 1, th_state := THREAD_RUNNING\<rparr>,
       0x2000 \<mapsto> thread0\<lparr>th_tid := 2, th_state := THREAD_READY, th_next := 0x3000\<rparr>,
       0x3000 \<mapsto> thread0\<lparr>th_tid := 3, th_state := THREAD_READY\<rparr>,
       0x4000 \<mapsto> thread0\<lparr>th_tid := 4, th_state := THREAD_BLOCKED, th_wakeup := 30, th_next_sleeping := 0x5000\<rparr>,
       0x5000 \<mapsto> thread0\<lparr>th_tid := 5, th_state := THREAD_BLOCKED, th_wakeup := 20\<rparr>],
     sc_stack_mem = \<lambda>_. 0, sc_ready = 0x2000, sc_sleeping = 0x4000, sc_current = 0x1000, sc_plist = 0, sc_pcurrent = 0,
     sc_inited = True, sc_preempt = True, rr_quantum = 5, tc_next_tid = 6, tc_list = 0x2000, tc_current = 0x1000,
     tc_entry = 0x101000, timer_ticks = 25, isr_ticks = 0\<rparr>"

lemma demo_queue: "ready_queue demo_sched [0x2000, 0x3000]"
  by (simp add: ready_queue_def demo_sched_def thread0_def)

lemma sched_yield_starves_witness: "\<exists>s'. yields 1001 demo_sched = Some s' \<and> running s' 0x2000 [0x1000, 0x3000]"
proof -
  have "running demo_sched 0x1000 [0x2000, 0x3000]"
    using demo_queue by (simp add: running_def) (simp add: demo_sched_def)
  from sched_yield_starves [OF this, of 1001] show ?thesis by simp
qed

text \<open>C24.  \<^verbatim>\<open>check_sleeping_threads\<close> moves exactly the sleeping threads whose time has come to the front of
  the ready queue and marks them ready; the others stay asleep in their order.\<close>

theorem check_sleeping_wakes:
  assumes "sl_chain s (sc_sleeping s) ss" and "ready_queue s rs" and "distinct ss" and "set ss \<inter> set rs = {}"
  shows "\<exists>s'. check_sleeping_threads s = Some s' \<and> ready_queue s' (rev (filter (due s) ss) @ rs)
    \<and> sl_chain s' (sc_sleeping s') (filter (\<lambda>x. \<not> due s x) ss)
    \<and> (\<forall>x. state_of s' x = (if x \<in> set ss \<and> due s x then Some THREAD_READY else state_of s x))"
proof -
  have "0 \<notin> set ss" using sl_chain_nonzero [OF assms(1)] by blast
  then show ?thesis
    using wake_loop_chain [OF assms(1) _ assms(2-4), of 0]
    by (auto simp: get_sleep_slot_def slot_ok_def woken_def check_sleeping_threads_def)
qed

lemma check_sleeping_wakes_witness:
  "\<exists>s'. check_sleeping_threads demo_sched = Some s' \<and> ready_queue s' [0x5000, 0x2000, 0x3000]
    \<and> state_of s' 0x5000 = Some THREAD_READY \<and> state_of s' 0x4000 = Some THREAD_BLOCKED"
proof -
  have c: "sl_chain demo_sched (sc_sleeping demo_sched) [0x4000, 0x5000]"
    by (simp add: demo_sched_def thread0_def)
  have d: "\<not> due demo_sched 0x4000" "due demo_sched 0x5000" "state_of demo_sched 0x4000 = Some THREAD_BLOCKED"
    by (simp_all add: due_def demo_sched_def state_of_def)
  show ?thesis using check_sleeping_wakes [OF c demo_queue] d by auto
qed

text \<open>\<^verbatim>\<open>thread_create\<close> returns a fresh identifier and queues the new thread, but it links the list of all
  threads and the ready queue through the same member: afterwards the list is the queue, so the
  count of threads is that of the queue, and joining any thread that is not queued fails with -1.\<close>

theorem thread_create_forgets:
  assumes "sc_ok s" and "ready_queue s rs" and "entry \<noteq> 0"
    and "sc_alloc THREAD_SIZE s = (t, s1)" and "t \<noteq> 0" and "sc_alloc DEFAULT_STACK_SIZE s1 = (base, s2)" and "base \<noteq> 0"
  shows "\<exists>s'. thread_create raw entry arg s = Some (tc_next_tid s, s') \<and> ready_queue s' (t # rs)
    \<and> state_of s' t = Some THREAD_READY
    \<and> scheduler_task_count s' = Some (1 + int (length rs))
    \<and> (\<forall>tid. tid \<noteq> tc_next_tid s \<and> (\<forall>y\<in>set rs. tid_at s y \<noteq> Some tid) \<longrightarrow> thread_join tid s' = Some (-1, 0, s'))"
proof -
  obtain s' where s': "thread_create raw entry arg s = Some (tc_next_tid s, s')" "tc_list s' = t" "sc_ready s' = t"
      "ready_queue s' (t # rs)" "t \<notin> set rs" "\<forall>y. y \<noteq> t \<longrightarrow> sc_threads s' y = sc_threads s y"
      "tid_at s' t = Some (tc_next_tid s)" "state_of s' t = Some THREAD_READY"
    using create_thread [OF assms, of raw arg] by blast
  have ch: "th_chain s' (tc_list s') (t # rs)" using s'(2-4) by (simp add: ready_queue_def)
  have "thread_join tid s' = Some (-1, 0, s')" if "tid \<noteq> tc_next_tid s" "\<forall>y\<in>set rs. tid_at s y \<noteq> Some tid" for tid
  proof -
    have "tid_at s' y \<noteq> Some tid" if y: "y \<in> set rs" for y
    proof -
      have "y \<noteq> t" using y s'(5) by blast
      then show ?thesis using that y s'(6) \<open>\<forall>y\<in>set rs. tid_at s y \<noteq> Some tid\<close> by (simp add: tid_at_def)
    qed
    then have "find (\<lambda>x. tid_at s' x = Some tid) (t # rs) = None"
      using s'(7) that(1) by (auto simp: find_None_iff)
    then show ?thesis using tid_walk_chain [OF ch, of tid 0] by (auto simp: thread_join_def)
  qed
  then show ?thesis using s' count_chain [OF ch, of 0] by (auto simp: scheduler_task_count_def)
qed

text \<open>The state after \<^verbatim>\<open>process_init\<close>, \<^verbatim>\<open>threading_init\<close> and \<^verbatim>\<open>sched_init\<close>.\<close>

definition demo_booted :: sstate where
  "demo_booted = demo_sched\<lparr>
     sc_ps := demo_ps\<lparr>ps_fs := (ps_fs demo_ps)\<lparr>fs_heap := snd (kmalloc DEFAULT_STACK_SIZE (snd (kmalloc THREAD_SIZE
       (fs_heap (ps_fs demo_ps)))))\<rparr>\<rparr>,
     sc_threads := [0xC000005C \<mapsto> thread0\<lparr>th_tid := 1, th_state := THREAD_RUNNING\<rparr>],
     sc_ready := 0, sc_sleeping := 0, sc_current := 0, tc_next_tid := 2, tc_list := 0xC000005C, tc_current := 0xC000005C\<rparr>"

lemma demo_booted_ok: "sc_ok demo_booted" "ready_queue demo_booted []"
  "\<exists>t s1 base s2. sc_alloc THREAD_SIZE demo_booted = (t, s1) \<and> t \<noteq> 0 \<and> sc_alloc DEFAULT_STACK_SIZE s1 = (base, s2) \<and> base \<noteq> 0"
proof -
  have hp: "fs_heap (ps_fs demo_ps) = snd (kmalloc PROCESS_SIZE (heap_area kheap_boot))"
    by (cases "kmalloc PROCESS_SIZE (heap_area kheap_boot)") (simp add: demo_ps_def process_init_def process_boot_def ps_alloc_def fs_alloc_def)
  let ?h = "snd (kmalloc DEFAULT_STACK_SIZE (snd (kmalloc THREAD_SIZE (fs_heap (ps_fs demo_ps)))))"
  have i: "kheap_inv ?h" unfolding hp
    by (intro kmalloc_inv heap_area_inv) (simp_all add: kmalloc_ok_def PROCESS_SIZE_def THREAD_SIZE_def DEFAULT_STACK_SIZE_def)
  have l: "live ?h = {0xC000000C, 0xC000005C, 0xC000009C}" unfolding hp
    by (auto simp: extents_live kmalloc_def heap_area_def kheap_boot_def heap_consts PROCESS_SIZE_def THREAD_SIZE_def DEFAULT_STACK_SIZE_def)
  have "fs_wf (ps_fs demo_ps)" using demo_ps_ok(1) by (simp add: ps_ok_def)
  then have "fs_wf ((ps_fs demo_ps)\<lparr>fs_heap := ?h\<rparr>)"
    using i l by (cases "kmalloc PROCESS_SIZE (heap_area kheap_boot)", simp add: fs_wf_def)
      (simp add: demo_ps_def process_init_def process_boot_def ps_alloc_def fs_alloc_def demo_fs_def)
  then show "sc_ok demo_booted" using l by (simp add: sc_ok_def demo_booted_def)
  show "ready_queue demo_booted []" by (simp add: ready_queue_def demo_booted_def)
  have "fst (kmalloc THREAD_SIZE ?h) \<noteq> 0" "fst (kmalloc DEFAULT_STACK_SIZE (snd (kmalloc THREAD_SIZE ?h))) \<noteq> 0" unfolding hp
    by (simp_all add: kmalloc_def heap_area_def kheap_boot_def heap_consts PROCESS_SIZE_def THREAD_SIZE_def DEFAULT_STACK_SIZE_def)
  then show "\<exists>t s1 base s2. sc_alloc THREAD_SIZE demo_booted = (t, s1) \<and> t \<noteq> 0 \<and> sc_alloc DEFAULT_STACK_SIZE s1 = (base, s2) \<and> base \<noteq> 0"
    by (auto simp: sc_alloc_def ps_alloc_def fs_alloc_def demo_booted_def split: prod.splits)
qed

lemma thread_create_forgets_witness:
  "scheduler_task_count demo_booted = Some 1
    \<and> (\<exists>s'. thread_create thread0 0x101234 0 demo_booted = Some (2, s') \<and> scheduler_task_count s' = Some 1 \<and> thread_join 1 s' = Some (-1, 0, s'))"
proof
  have "th_chain demo_booted (tc_list demo_booted) [0xC000005C]" by (simp add: demo_booted_def thread0_def)
  then show "scheduler_task_count demo_booted = Some 1"
    using count_chain [of demo_booted "tc_list demo_booted" "[0xC000005C]" 0] by (simp add: scheduler_task_count_def)
  obtain t s1 base s2 where a: "sc_alloc THREAD_SIZE demo_booted = (t, s1)" "t \<noteq> 0" "sc_alloc DEFAULT_STACK_SIZE s1 = (base, s2)" "base \<noteq> 0"
    using demo_booted_ok(3) by blast
  have "tc_next_tid demo_booted = 2" by (simp add: demo_booted_def)
  with thread_create_forgets [OF demo_booted_ok(1,2) _ a, of "0x101234" thread0 0]
  show "\<exists>s'. thread_create thread0 0x101234 0 demo_booted = Some (2, s') \<and> scheduler_task_count s' = Some 1 \<and> thread_join 1 s' = Some (-1, 0, s')"
    by auto
qed

text \<open>C25.  \<^verbatim>\<open>thread_exit\<close> never ends the thread that calls it: it marks the thread of \<^verbatim>\<open>thread.c\<close>'s own
  \<^verbatim>\<open>current_thread\<close>, which is always the boot thread.  The caller is left halted and marked running,
  and \<^verbatim>\<open>thread_join\<close> of it never returns.\<close>

theorem exit_then_join_spins:
  assumes "tc_current s \<noteq> 0" and "sc_threads s (tc_current s) = Some m" and "w \<noteq> tc_current s"
    and "state_of s w = Some THREAD_RUNNING" and "th_chain s (tc_list s) xs"
    and "find (\<lambda>x. tid_at s x = Some tid) xs = Some w" and "0 < tid"
  shows "\<exists>s'. thread_exit retval s = Some (False, s') \<and> state_of s' (tc_current s) = Some THREAD_TERMINATED
    \<and> state_of s' w = Some THREAD_RUNNING \<and> thread_join tid s' = None"
proof -
  let ?s = "thread_yield (s\<lparr>sc_threads := (sc_threads s)(tc_current s \<mapsto> m\<lparr>th_retval := retval, th_state := THREAD_TERMINATED\<rparr>)\<rparr>)"
  have f: "sc_threads ?s y = (if y = tc_current s then Some (m\<lparr>th_retval := retval, th_state := THREAD_TERMINATED\<rparr>) else sc_threads s y)"
    "tc_list ?s = tc_list s" "tc_current ?s = tc_current s" for y
    by (simp_all add: thread_yield_def timer_tick_def)
  have e: "thread_exit retval s = Some (False, ?s)" using assms(1,2) by (simp add: thread_exit_def th_upd_def)
  have w: "state_of ?s w = Some THREAD_RUNNING" using assms(3,4) by (simp add: state_of_def f)
  have "tid_at ?s y = tid_at s y" for y using assms(2) by (simp add: tid_at_def f)
  then have fd: "find (\<lambda>x. tid_at ?s x = Some tid) xs = Some w" using assms(6) by simp
  have "th_chain ?s (tc_list s) xs" using assms(5) by (rule th_chain_cong) (use assms(2) f in simp)
  then obtain q where "tid_walk tid 0 (tc_list ?s) ?s = Some (q, w)"
    using tid_walk_chain [of ?s "tc_list s" xs tid 0] fd by (auto simp: f(2))
  moreover have "w \<noteq> 0" using th_chain_mem [OF assms(5)] assms(6) by (auto simp: find_Some_iff)
  moreover have "join_wait w ?s = None" using w by (intro join_wait_spins) simp
  ultimately have "thread_join tid ?s = None" using assms(3,7) by (simp add: thread_join_def f(3))
  then show ?thesis using e w by (auto simp: state_of_def f)
qed

lemma exit_then_join_spins_witness:
  "\<exists>s'. thread_exit 7 (demo_sched\<lparr>sc_threads := (sc_threads demo_sched)(0x2000 \<mapsto> thread0\<lparr>th_tid := 2, th_state := THREAD_RUNNING\<rparr>)\<rparr>)
      = Some (False, s') \<and> thread_join 2 s' = None"
proof -
  let ?s = "demo_sched\<lparr>sc_threads := (sc_threads demo_sched)(0x2000 \<mapsto> thread0\<lparr>th_tid := 2, th_state := THREAD_RUNNING\<rparr>)\<rparr>"
  have "tc_current ?s \<noteq> 0" "0x2000 \<noteq> tc_current ?s" "state_of ?s 0x2000 = Some THREAD_RUNNING"
    "th_chain ?s (tc_list ?s) [0x2000]" "find (\<lambda>x. tid_at ?s x = Some 2) [0x2000] = Some 0x2000"
    "sc_threads ?s (tc_current ?s) = Some (thread0\<lparr>th_tid := 1, th_state := THREAD_RUNNING\<rparr>)"
    by (simp_all add: demo_sched_def state_of_def tid_at_def thread0_def)
  from exit_then_join_spins [OF this(1,6,2-5), of 7] show ?thesis by auto
qed

end
