(* ===== verification/Switch.thy ===== *)
theory Switch
  imports Sched
begin

text \<open>
  The context switch: \<^verbatim>\<open>switch_threads\<close> of \<^verbatim>\<open>arch/x86/x86/switch.S\<close>, \<^verbatim>\<open>switch_to_thread\<close> of \<^verbatim>\<open>kernel/sched.c\<close>, which is inline assembly, and
  \<^verbatim>\<open>thread_entry\<close> of \<^verbatim>\<open>kernel/thread.c\<close>.  The stacks are words at the addresses the stack pointer takes.
\<close>

subsection \<open>Registers and stacks\<close>

record kregs =
  k_edi :: u32
  k_esi :: u32
  k_ebx :: u32
  k_ebp :: u32
  k_esp :: u32

text \<open>The four pops and \<^verbatim>\<open>ret\<close>, with the stack pointer at \<open>sp\<close>: where it goes on, and with which registers.\<close>

definition resume :: "addr \<Rightarrow> (addr \<Rightarrow> u32) \<Rightarrow> addr \<times> kregs" where
  "resume sp m = (m (sp + 16), \<lparr>k_edi = m sp, k_esi = m (sp + 4), k_ebx = m (sp + 8), k_ebp = m (sp + 12), k_esp = sp + 20\<rparr>)"

text \<open>\<open>k_esp\<close> is the stack pointer on entry, at which the return address is.  A null \<open>from\<close> or \<open>to\<close> is a bad access.\<close>

definition switch_threads :: "addr \<Rightarrow> addr \<Rightarrow> kregs \<Rightarrow> sstate \<Rightarrow> ((addr \<times> kregs) \<times> sstate) option" where
  "switch_threads from to r s = (case push_words [k_ebp r, k_ebx r, k_esi r, k_edi r] (k_esp r) (sc_stack_mem s) of (sp, m) \<Rightarrow> do {
     s1 \<leftarrow> th_upd from (\<lambda>x. x\<lparr>th_stack := sp\<rparr>) (s\<lparr>sc_stack_mem := m\<rparr>);
     t \<leftarrow> sc_threads s1 to;
     Some (resume (th_stack t) (sc_stack_mem s1), s1) })"

text \<open>\<open>None\<close> in the result: the function returns to its caller.\<close>

definition switch_to_thread :: "addr \<Rightarrow> sstate \<Rightarrow> (addr \<times> kregs) option option" where
  "switch_to_thread thread s =
     (if thread = 0 then Some None
      else do { t \<leftarrow> sc_threads s thread; Some (Some (resume (th_stack t) (sc_stack_mem s))) })"

text \<open>The call \<^verbatim>\<open>thread_entry\<close> makes: a function and its argument; \<^verbatim>\<open>thread_exit\<close> follows it.\<close>

definition thread_entry :: "sstate \<Rightarrow> (addr \<times> addr) option option" where
  "thread_entry s = (if sched_current_thread s = 0 then Some None
     else do { x \<leftarrow> sc_threads s (sched_current_thread s); Some (Some (th_entry x, th_arg x)) })"

text \<open>The context switch an operation of the scheduler ends in; the operation returned when there is none.\<close>

definition perform :: "switching \<Rightarrow> kregs \<Rightarrow> sstate \<Rightarrow> ((addr \<times> kregs) option \<times> sstate) option" where
  "perform w r s = (case w of
       Stay \<Rightarrow> Some (None, s)
     | Switch f t \<Rightarrow> if f = 0 then map_option (\<lambda>x. (x, s)) (switch_to_thread t s)
         else map_option (\<lambda>(x, s1). (Some x, s1)) (switch_threads f t r s))"

subsection \<open>Saving and restoring\<close>

text \<open>The words a thread that is not running has saved on its stack: its registers and where it goes on.\<close>

definition saved :: "addr \<Rightarrow> addr \<Rightarrow> kregs \<Rightarrow> sstate \<Rightarrow> bool" where
  "saved a pc r s \<longleftrightarrow> (\<exists>x. sc_threads s a = Some x \<and> resume (th_stack x) (sc_stack_mem s) = (pc, r))"

definition saved_words :: "addr \<Rightarrow> sstate \<Rightarrow> addr set" where
  "saved_words a s = (case sc_threads s a of None \<Rightarrow> {} | Some x \<Rightarrow> (\<lambda>i. th_stack x + i) ` {0, 4, 8, 12, 16})"

lemma down_words: "(e :: u32) - 16 + 4 = e - 12" "e - 16 + 8 = e - 8" "e - 16 + 12 = e - 4" "e - 16 + 16 = e" "e - 16 + 20 = e + 4"
    "e - 4 - 4 = e - 8" "e - 8 - 4 = e - 12" "e - 12 - 4 = e - 16"
  by (simp_all add: algebra_simps)

lemma down_distinct: "(e :: u32) - 4 \<noteq> e" "e - 8 \<noteq> e" "e - 12 \<noteq> e" "e - 16 \<noteq> e" "e - 4 \<noteq> e - 8" "e - 4 \<noteq> e - 12"
    "e - 4 \<noteq> e - 16" "e - 8 \<noteq> e - 12" "e - 8 \<noteq> e - 16" "e - 12 \<noteq> e - 16"
  by simp_all

definition below :: "addr \<Rightarrow> addr set" where "below e = {e - 4, e - 8, e - 12, e - 16}"

lemma push_resume:
  assumes "push_words [k_ebp r, k_ebx r, k_esi r, k_edi r] (k_esp r) m = (sp, m')"
  shows "sp = k_esp r - 16" "resume sp m' = (m (k_esp r), r\<lparr>k_esp := k_esp r + 4\<rparr>)"
    "x \<notin> below (k_esp r) \<Longrightarrow> m' x = m x"
proof -
  let ?e = "k_esp r"
  have p: "sp = ?e - 16" "m' = m(?e - 4 := k_ebp r, ?e - 8 := k_ebx r, ?e - 12 := k_esi r, ?e - 16 := k_edi r)"
    using assms by (auto simp: down_words)
  show "sp = k_esp r - 16" by (rule p(1))
  show "resume sp m' = (m ?e, r\<lparr>k_esp := ?e + 4\<rparr>)"
    unfolding resume_def p down_words by (simp add: down_distinct down_distinct [symmetric])
  show "x \<notin> below ?e \<Longrightarrow> m' x = m x" by (simp add: p(2) below_def)
qed

text \<open>The words of a frame that was saved from the stack pointer \<open>e\<close>, the return address first.\<close>

definition frame_at :: "addr \<Rightarrow> addr set" where "frame_at e = insert e (below e)"

lemma saved_words_resume:
  assumes "sc_threads s b = Some y" and "\<forall>p\<in>saved_words b s. m p = sc_stack_mem s p"
  shows "resume (th_stack y) m = resume (th_stack y) (sc_stack_mem s)"
  using assms by (simp add: saved_words_def resume_def)

lemma switch_threads_saves:
  assumes f: "sc_threads s a = Some x" and st: "saved b pc q s" "a \<noteq> b" and d: "saved_words b s \<inter> below (k_esp r) = {}"
  shows "\<exists>s'. switch_threads a b r s = Some ((pc, q), s') \<and> saved a (sc_stack_mem s (k_esp r)) (r\<lparr>k_esp := k_esp r + 4\<rparr>) s'
    \<and> saved_words a s' = frame_at (k_esp r) \<and> (\<exists>m. s' = s\<lparr>sc_stack_mem := m, sc_threads := (sc_threads s)(a \<mapsto> x\<lparr>th_stack := k_esp r - 16\<rparr>)\<rparr>)
    \<and> (\<forall>p. p \<notin> below (k_esp r) \<longrightarrow> sc_stack_mem s' p = sc_stack_mem s p)"
proof -
  obtain y where y: "sc_threads s b = Some y" "resume (th_stack y) (sc_stack_mem s) = (pc, q)" using st(1) by (auto simp: saved_def)
  obtain sp m where p: "push_words [k_ebp r, k_ebx r, k_esi r, k_edi r] (k_esp r) (sc_stack_mem s) = (sp, m)" by fastforce
  note pr = push_resume [OF p]
  let ?s = "s\<lparr>sc_stack_mem := m, sc_threads := (sc_threads s)(a \<mapsto> x\<lparr>th_stack := sp\<rparr>)\<rparr>"
  have u: "th_upd a (\<lambda>x. x\<lparr>th_stack := sp\<rparr>) (s\<lparr>sc_stack_mem := m\<rparr>) = Some ?s" using f by (simp add: th_upd_def)
  have "resume (th_stack y) m = (pc, q)" unfolding y(2) [symmetric]
    by (rule saved_words_resume [OF y(1)]) (use d pr(3) in blast)
  then have "switch_threads a b r s = Some ((pc, q), ?s)" using u y(1) st(2) unfolding switch_threads_def p by simp
  moreover have "saved a (sc_stack_mem s (k_esp r)) (r\<lparr>k_esp := k_esp r + 4\<rparr>) ?s" using pr(2) by (simp add: saved_def)
  moreover have "saved_words a ?s = frame_at (k_esp r)"
    unfolding saved_words_def frame_at_def below_def pr(1) by (auto simp: down_words)
  ultimately show ?thesis using pr(1,3) by auto
qed

text \<open>A thread that yields, in the scheduler and in the processor.\<close>

definition yield_switch :: "kregs \<Rightarrow> sstate \<Rightarrow> ((addr \<times> kregs) option \<times> sstate) option" where
  "yield_switch r s = do { (w, s1) \<leftarrow> sched_yield s; perform w r s1 }"

lemma saved_cong:
  assumes "saved b pc q s" and "\<forall>z. map_option th_stack (sc_threads u z) = map_option th_stack (sc_threads s z)"
    and "\<forall>p\<in>saved_words b s. sc_stack_mem u p = sc_stack_mem s p"
  shows "saved b pc q u" "saved_words b u = saved_words b s"
proof -
  obtain y where y: "sc_threads s b = Some y" "resume (th_stack y) (sc_stack_mem s) = (pc, q)" using assms(1) by (auto simp: saved_def)
  have "map_option th_stack (sc_threads u b) = Some (th_stack y)" using assms(2) y(1) by simp
  then obtain z where z: "sc_threads u b = Some z" "th_stack z = th_stack y" by blast
  show "saved_words b u = saved_words b s" using y(1) z by (simp add: saved_words_def)
  show "saved b pc q u" using y z saved_words_resume [OF y(1), of "sc_stack_mem u"] assms(3) by (simp add: saved_def)
qed

lemma yield_switches:
  assumes "running s a (b # xs)" and "saved b pc q s" and "saved_words b s \<inter> below (k_esp r) = {}"
  shows "\<exists>s'. yield_switch r s = Some (Some (pc, q), s') \<and> running s' b (a # xs)
    \<and> saved a (sc_stack_mem s (k_esp r)) (r\<lparr>k_esp := k_esp r + 4\<rparr>) s' \<and> saved_words a s' = frame_at (k_esp r)
    \<and> (\<forall>p. p \<notin> below (k_esp r) \<longrightarrow> sc_stack_mem s' p = sc_stack_mem s p)
    \<and> (\<forall>z. z \<noteq> a \<longrightarrow> map_option th_stack (sc_threads s' z) = map_option th_stack (sc_threads s z))"
proof -
  obtain t where t: "sched_yield s = Some (Switch a b, t)" "running t b (a # xs)" "sc_stack_mem t = sc_stack_mem s"
    "\<forall>z. map_option th_stack (sc_threads t z) = map_option th_stack (sc_threads s z)"
    using yield_step_full [OF assms(1)] by blast
  have ab: "a \<noteq> 0" "a \<noteq> b" using assms(1) by (auto simp: running_def)
  have "\<forall>p\<in>saved_words b s. sc_stack_mem t p = sc_stack_mem s p" by (simp add: t(3))
  note sv = saved_cong [OF assms(2) t(4) this]
  obtain y where y: "sc_threads t a = Some y"
    using assms(1) t(4) by (metis (no_types) running_def map_option_eq_Some not_None_eq option.map_disc_iff)
  obtain s' m where s': "switch_threads a b r t = Some ((pc, q), s')" "saved a (sc_stack_mem s (k_esp r)) (r\<lparr>k_esp := k_esp r + 4\<rparr>) s'"
    "saved_words a s' = frame_at (k_esp r)" "s' = t\<lparr>sc_stack_mem := m, sc_threads := (sc_threads t)(a \<mapsto> y\<lparr>th_stack := k_esp r - 16\<rparr>)\<rparr>"
    "\<forall>p. p \<notin> below (k_esp r) \<longrightarrow> sc_stack_mem s' p = sc_stack_mem s p"
    using switch_threads_saves [OF y sv(1) ab(2), of r] assms(3) sv(2) unfolding t(3) by auto
  have "yield_switch r s = Some (Some (pc, q), s')" using t(1) ab(1) s'(1) by (simp add: yield_switch_def perform_def)
  moreover have "running s' b (a # xs)"
  proof -
    have q: "th_chain t (sc_ready t) (a # xs)" "distinct (a # xs)" using t(2) by (auto simp only: running_def ready_queue_def)
    have "th_chain s' (sc_ready t) (a # xs)" by (rule th_chain_cong [OF q(1)]) (simp add: s'(4) y)
    moreover have "sc_ready s' = sc_ready t" by (simp add: s'(4))
    ultimately have "ready_queue s' (a # xs)" using q(2) by (simp only: ready_queue_def)
    then show ?thesis using t(2) ab(2) by (auto simp: running_def s'(4))
  qed
  moreover have "map_option th_stack (sc_threads s' z) = map_option th_stack (sc_threads s z)" if "z \<noteq> a" for z
    using t(4) that by (simp add: s'(4))
  ultimately show ?thesis using s'(2,3,5) by blast
qed

text \<open>C6.  Two threads that yield to each other continue where they left off.  When \<open>a\<close> yields, \<open>b\<close> goes on at the
  place and with the registers it had saved; whatever \<open>b\<close> then does to the memory outside of \<open>a\<close>'s frame, when it
  yields back \<open>a\<close> goes on behind its call with the registers it had, its stack pointer popped once.\<close>

theorem yield_and_resume:
  assumes "running s a (b # xs)" and "saved b pc q s" and "saved_words b s \<inter> below (k_esp r) = {}"
  shows "\<exists>s1. yield_switch r s = Some (Some (pc, q), s1) \<and> running s1 b (a # xs)
    \<and> (\<forall>m r1. (\<forall>p\<in>frame_at (k_esp r). m p = sc_stack_mem s1 p) \<and> frame_at (k_esp r) \<inter> below (k_esp r1) = {}
        \<longrightarrow> (\<exists>s2. yield_switch r1 (s1\<lparr>sc_stack_mem := m\<rparr>) = Some (Some (sc_stack_mem s (k_esp r), r\<lparr>k_esp := k_esp r + 4\<rparr>), s2)
              \<and> running s2 a (b # xs) \<and> saved b (m (k_esp r1)) (r1\<lparr>k_esp := k_esp r1 + 4\<rparr>) s2))"
proof -
  obtain s1 where s1: "yield_switch r s = Some (Some (pc, q), s1)" "running s1 b (a # xs)"
    "saved a (sc_stack_mem s (k_esp r)) (r\<lparr>k_esp := k_esp r + 4\<rparr>) s1" "saved_words a s1 = frame_at (k_esp r)"
    using yield_switches [OF assms] by blast
  have "\<exists>s2. yield_switch r1 (s1\<lparr>sc_stack_mem := m\<rparr>) = Some (Some (sc_stack_mem s (k_esp r), r\<lparr>k_esp := k_esp r + 4\<rparr>), s2)
      \<and> running s2 a (b # xs) \<and> saved b (m (k_esp r1)) (r1\<lparr>k_esp := k_esp r1 + 4\<rparr>) s2"
    if "\<forall>p\<in>frame_at (k_esp r). m p = sc_stack_mem s1 p" "frame_at (k_esp r) \<inter> below (k_esp r1) = {}" for m r1
  proof -
    let ?u = "s1\<lparr>sc_stack_mem := m\<rparr>"
    have "th_chain ?u p ys = th_chain s1 p ys" for p ys by (induction ys arbitrary: p) simp_all
    then have "running ?u b (a # xs)" using s1(2) by (simp add: running_def ready_queue_def)
    moreover have "\<forall>z. map_option th_stack (sc_threads ?u z) = map_option th_stack (sc_threads s1 z)"
      and "\<forall>p\<in>saved_words a s1. sc_stack_mem ?u p = sc_stack_mem s1 p" using that(1) s1(4) by simp_all
    note sv = saved_cong [OF s1(3) this]
    ultimately show ?thesis using yield_switches [OF _ sv(1), of b xs r1] that(2) s1(4) sv(2) by fastforce
  qed
  then show ?thesis using s1(1,2) by blast
qed

definition demo_switch :: sstate where
  "demo_switch = demo_sched\<lparr>sc_threads := (sc_threads demo_sched)(0x2000 \<mapsto> thread0\<lparr>th_tid := 2, th_state := THREAD_READY,
       th_next := 0x3000, th_stack := 0x8000\<rparr>), sc_stack_mem := (\<lambda>_. 0)(0x8010 := 0x101000, 0x9000 := 0x102000)\<rparr>"

lemma yield_and_resume_witness:
  "\<exists>s1 s2. yield_switch \<lparr>k_edi = 1, k_esi = 2, k_ebx = 3, k_ebp = 4, k_esp = 0x9000\<rparr> demo_switch
      = Some (Some (0x101000, \<lparr>k_edi = 0, k_esi = 0, k_ebx = 0, k_ebp = 0, k_esp = 0x8014\<rparr>), s1)
    \<and> yield_switch \<lparr>k_edi = 5, k_esi = 6, k_ebx = 7, k_ebp = 8, k_esp = 0x8800\<rparr> s1
      = Some (Some (0x102000, \<lparr>k_edi = 1, k_esi = 2, k_ebx = 3, k_ebp = 4, k_esp = 0x9004\<rparr>), s2)"
proof -
  let ?r = "\<lparr>k_edi = 1, k_esi = 2, k_ebx = 3, k_ebp = 4, k_esp = 0x9000\<rparr> :: kregs"
  let ?r1 = "\<lparr>k_edi = 5, k_esi = 6, k_ebx = 7, k_ebp = 8, k_esp = 0x8800\<rparr> :: kregs"
  let ?q = "\<lparr>k_edi = 0, k_esi = 0, k_ebx = 0, k_ebp = 0, k_esp = 0x8014\<rparr> :: kregs"
  have r: "running demo_switch 0x1000 [0x2000, 0x3000]"
    by (simp add: running_def ready_queue_def demo_switch_def demo_sched_def thread0_def)
  have s: "saved 0x2000 0x101000 ?q demo_switch" by (simp add: saved_def resume_def demo_switch_def)
  have d: "saved_words 0x2000 demo_switch \<inter> below (k_esp ?r) = {}" by (simp add: saved_words_def below_def demo_switch_def)
  obtain s1 where s1: "yield_switch ?r demo_switch = Some (Some (0x101000, ?q), s1)"
    "\<forall>m r1. (\<forall>p\<in>frame_at (k_esp ?r). m p = sc_stack_mem s1 p) \<and> frame_at (k_esp ?r) \<inter> below (k_esp r1) = {}
        \<longrightarrow> (\<exists>s2. yield_switch r1 (s1\<lparr>sc_stack_mem := m\<rparr>) = Some (Some (sc_stack_mem demo_switch (k_esp ?r), ?r\<lparr>k_esp := k_esp ?r + 4\<rparr>), s2)
              \<and> running s2 0x1000 [0x2000, 0x3000] \<and> saved 0x2000 (m (k_esp r1)) (r1\<lparr>k_esp := k_esp r1 + 4\<rparr>) s2)"
    using yield_and_resume [OF r s d] by blast
  have f: "frame_at (k_esp ?r) \<inter> below (k_esp ?r1) = {}" by (simp add: frame_at_def below_def)
  have "s1\<lparr>sc_stack_mem := sc_stack_mem s1\<rparr> = s1" by simp
  moreover have "sc_stack_mem demo_switch 0x9000 = 0x102000" by (simp add: demo_switch_def)
  ultimately obtain s2 where "yield_switch ?r1 s1 = Some (Some (0x102000, ?r\<lparr>k_esp := 0x9004\<rparr>), s2)"
    using s1(2) [rule_format, of "sc_stack_mem s1" ?r1] f by auto
  then show ?thesis using s1(1) by auto
qed

subsection \<open>A new thread\<close>

lemma first_thread_starts:
  assumes "sc_ok s" "ready_queue s []" "entry \<noteq> 0"
    and "sc_alloc THREAD_SIZE s = (t, s1)" "t \<noteq> 0" "sc_alloc DEFAULT_STACK_SIZE s1 = (base, s2)" "base \<noteq> 0"
  shows "\<exists>u v. thread_create raw entry arg s = Some (tc_next_tid s, u) \<and> sched_start u = Some (Switch 0 t, v)
    \<and> perform (Switch 0 t) r v = Some (Some (tc_entry s,
        \<lparr>k_edi = 0, k_esi = 0, k_ebx = 0, k_ebp = 0, k_esp = (base + DEFAULT_STACK_SIZE) AND NOT 0xF\<rparr>), v)
    \<and> thread_entry v = Some (Some (entry, arg)) \<and> sc_ready v = 0 \<and> sc_ps v = sc_ps u"
proof -
  obtain u x where u: "thread_create raw entry arg s = Some (tc_next_tid s, u)" "sc_ready u = t" "sc_threads u t = Some x"
    "th_entry x = entry" "th_arg x = arg" "ready_queue u [t]"
    "(th_stack x, sc_stack_mem u) = push_words [tc_entry s, 0, 0, 0, 0] ((base + DEFAULT_STACK_SIZE) AND NOT 0xF) (sc_stack_mem s)"
    using create_thread_full [OF assms, of raw arg] by blast
  let ?x = "x\<lparr>th_state := THREAD_RUNNING\<rparr>"
  let ?v = "u\<lparr>sc_ready := th_next x, sc_threads := (sc_threads u)(t \<mapsto> ?x), sc_current := t\<rparr>"
  have n: "th_next x = 0" using u(2,3,6) by (simp add: ready_queue_def)
  have st: "sched_start u = Some (Switch 0 t, ?v)" using u(2,3) assms(5) by (simp add: sched_start_def th_upd_def)
  obtain e where e: "e = (base + DEFAULT_STACK_SIZE) AND NOT 0xF" by blast
  have m: "th_stack x = e - 20" "sc_stack_mem u = (sc_stack_mem s)(e - 4 := tc_entry s, e - 8 := 0, e - 12 := 0, e - 16 := 0, e - 20 := 0)"
    using u(7) [folded e] by (auto simp: down_words)
  have a: "e - 20 + 4 = e - 16" "e - 20 + 8 = e - 12" "e - 20 + 12 = e - 8" "e - 20 + 16 = e - 4" "e - 20 + 20 = e"
    by (simp_all add: algebra_simps)
  have d: "e - 4 \<noteq> e - 20" by simp
  have "resume (th_stack x) (sc_stack_mem u) = (tc_entry s, \<lparr>k_edi = 0, k_esi = 0, k_ebx = 0, k_ebp = 0, k_esp = e\<rparr>)"
    unfolding resume_def m a by (simp add: down_distinct d)
  then have "perform (Switch 0 t) r ?v = Some (Some (tc_entry s, \<lparr>k_edi = 0, k_esi = 0, k_ebx = 0, k_ebp = 0, k_esp = e\<rparr>), ?v)"
    using assms(5) by (simp add: perform_def switch_to_thread_def)
  moreover have "thread_entry ?v = Some (Some (entry, arg))" using assms(5) u(4,5) by (simp add: thread_entry_def sched_current_thread_def)
  ultimately show ?thesis using u(1) st n e by auto
qed

end
