(* ===== verification/Launcher.thy ===== *)
theory Launcher
  imports Elf Interrupts Switch
begin

text \<open>
  The end of the boot, \<^verbatim>\<open>kernel_continue_after_splash\<close> and the thread \<^verbatim>\<open>user_init_launcher\<close> of \<^verbatim>\<open>kernel/kernel.c\<close>, which
  joins the parts: disk, archive, virtual file system, ELF loader, processes, threads, serial log and blue screen.

  The disk is at the level of its sectors, \<open>found\<close> tells whether \<^verbatim>\<open>ata_identify_drive\<close> finds a drive (theory \<open>AtaDisk\<close> has
  the driver on its ports).  What the file systems log themselves is not part of the state.
\<close>

subsection \<open>The thread\<close>

record bootsys =
  bo_sc :: sstate
  bo_is :: isys


definition bo_log :: "cstr \<Rightarrow> bootsys \<Rightarrow> bootsys option" where
  "bo_log t b = map_option (\<lambda>i. b\<lparr>bo_is := i\<rparr>) (is_log (serial_write (t @ [13, 10])) (bo_is b))"

definition ata_init_sectors :: "bool \<Rightarrow> fsys \<Rightarrow> fsys" where
  "ata_init_sectors found f = (if found then f\<lparr>fs_blk := snd (blk_register (Some disk_dev) (fs_blk f))\<rparr> else f)"







text \<open>\<open>entry\<close> is the address of the launcher.\<close>

definition scheduler_start :: "sstate \<Rightarrow> (switching \<times> sstate) option" where
  "scheduler_start s = sched_start s"

definition kernel_continue_after_splash :: "thread \<Rightarrow> addr \<Rightarrow> bootsys \<Rightarrow> (switching \<times> bootsys) option" where
  "kernel_continue_after_splash raw entry b = do {
     b1 \<leftarrow> bo_log (asc ''[KERNEL] ENTER pressed; starting scheduler and shell...'') b;
     (_, s1) \<leftarrow> thread_create raw entry 0 (bo_sc b1);
     (w, s2) \<leftarrow> scheduler_start s1;
     Some (w, b1\<lparr>bo_sc := s2\<rparr>) }"

subsection \<open>The archive on the disk\<close>



subsection \<open>What becomes of the boot\<close>







text \<open>Without a drive, or when it cannot be read, the root stays as it was.\<close>

lemma failed_read_unmounts:
  assumes wf: "fs_wf s" and r: "blk_read_byname (Some (asc ''hda'' @ [0])) 1 512 True (fs_blk s) (fs_disk s) = Some (rc, bs, fs_disk s)"
    "rc \<noteq> 0" "length bs \<le> 0x40000"
  shows "\<exists>e. initrd_mount_from_block (Some (asc ''hda'' @ [0])) 1 512 (512 * 1024) s = Some (e, s)"
proof -
  have ok: "kmalloc_ok 0x40000" by (simp add: kmalloc_ok_def)
  obtain p s1 where a: "alloc_data 0x40000 s = (p, s1)" by fastforce
  show ?thesis
  proof (cases "p = 0")
    case True
    then have "fst (kmalloc 0x40000 (fs_heap s)) = 0" using a by (auto simp: alloc_data_def fs_alloc_def split: prod.splits if_splits)
    then have "alloc_data 0x40000 s = (0, s)" by (rule alloc_data_null [OF wf ok])
    then show ?thesis by (simp add: initrd_mount_from_block_def)
  next
    case False
    note d = alloc_data_free [OF wf ok a False]
    let ?old = "replicate (unat (0x40000 :: u32)) (0 :: u8)"
    obtain h where s1: "s1 = s\<lparr>fs_heap := h, fs_datas := (fs_datas s)(p \<mapsto> ?old)\<rparr>" using d(3) by blast
    obtain new where w: "buf_write ?old 0 bs = Some new" using r(3) by (simp add: buf_write_def)
    have "fs_free p (s\<lparr>fs_heap := h, fs_datas := (fs_datas s)(p \<mapsto> new)\<rparr>) = Some s" using d(4) [of new] by (simp add: s1)
    then show ?thesis using a False r(1,2) w by (simp add: initrd_mount_from_block_def Let_def s1)
  qed
qed

lemma no_drive_unmounted:
  assumes "fs_wf s" and "fs_blk s = []"
  shows "\<exists>e. initrd_mount_from_block (Some (asc ''hda'' @ [0])) 1 512 (512 * 1024) (ata_init_sectors False s) = Some (e, s)"
  using failed_read_unmounts [OF assms(1), of "-1" "[]"] assms(2)
  by (simp add: ata_init_sectors_def blk_read_byname_def blk_find_def blk_read_def)



lemma bo_log_room:
  assumes "log_room (length t + 2 + n) (bo_is b)"
  obtains p where "bo_log t b = Some (b\<lparr>bo_is := (bo_is b)\<lparr>is_serial := p\<rparr>\<rparr>)"
    and "serial_putcs (t @ [13, 10]) (is_serial (bo_is b)) = Some p" and "log_room n ((bo_is b)\<lparr>is_serial := p\<rparr>)"
proof (cases "se_ready (is_serial (bo_is b))")
  case True
  then have "length (t @ [13, 10]) \<le> empties (is_serial (bo_is b))" using assms by (auto simp: log_room_def)
  from serial_putcs_enough [OF True this] obtain p where p: "serial_putcs (t @ [13, 10]) (is_serial (bo_is b)) = Some p"
    "empties p = empties (is_serial (bo_is b)) - length (t @ [13, 10])" by metis
  have "n \<le> empties p" using p(2) assms True by (auto simp: log_room_def)
  then show ?thesis using that [of p] p(1) by (simp add: bo_log_def is_log_def serial_write_putcs log_room_def)
next
  case False
  then show ?thesis using that [of "is_serial (bo_is b)"] by (simp add: bo_log_def is_log_def serial_not_ready log_room_def)
qed









text \<open>When the splash screen is left, the launcher is the only thread: the scheduler switches to it, and it enters
  \<^verbatim>\<open>thread_entry\<close> on its own stack with cleared registers, which calls the launcher with a null argument.\<close>

theorem boot_enters_launcher:
  assumes "sc_ok (bo_sc b)" and "ready_queue (bo_sc b) []" and "launcher \<noteq> 0" and "log_room 100 (bo_is b)"
    and "sc_alloc THREAD_SIZE (bo_sc b) = (t, s1)" and "t \<noteq> 0" and "sc_alloc DEFAULT_STACK_SIZE s1 = (base, s2)" and "base \<noteq> 0"
  shows "\<exists>b'. kernel_continue_after_splash raw launcher b = Some (Switch 0 t, b')
    \<and> perform (Switch 0 t) r (bo_sc b') = Some (Some (tc_entry (bo_sc b),
        \<lparr>k_edi = 0, k_esi = 0, k_ebx = 0, k_ebp = 0, k_esp = (base + DEFAULT_STACK_SIZE) AND NOT 0xF\<rparr>), bo_sc b')
    \<and> thread_entry (bo_sc b') = Some (Some (launcher, 0)) \<and> sc_ready (bo_sc b') = 0"
proof -
  let ?t = "asc ''[KERNEL] ENTER pressed; starting scheduler and shell...''"
  have "log_room (length ?t + 2 + 0) (bo_is b)" using assms(4) by (auto simp: asc_def log_room_def)
  from bo_log_room [OF this] obtain p where p: "bo_log ?t b = Some (b\<lparr>bo_is := (bo_is b)\<lparr>is_serial := p\<rparr>\<rparr>)" by blast
  obtain u v where u: "thread_create raw launcher 0 (bo_sc b) = Some (tc_next_tid (bo_sc b), u)" "sched_start u = Some (Switch 0 t, v)"
    "perform (Switch 0 t) r v = Some (Some (tc_entry (bo_sc b),
        \<lparr>k_edi = 0, k_esi = 0, k_ebx = 0, k_ebp = 0, k_esp = (base + DEFAULT_STACK_SIZE) AND NOT 0xF\<rparr>), v)"
    "thread_entry v = Some (Some (launcher, 0))" "sc_ready v = 0"
    using first_thread_starts [OF assms(1-3,5-8)] by blast
  have "kernel_continue_after_splash raw launcher b = Some (Switch 0 t, b\<lparr>bo_is := (bo_is b)\<lparr>is_serial := p\<rparr>, bo_sc := v\<rparr>)"
    using p u(1,2) by (simp add: kernel_continue_after_splash_def scheduler_start_def)
  then show ?thesis using u(3-5) by auto
qed

lemma boot_enters_launcher_witness:
  "\<exists>t b'. kernel_continue_after_splash thread0 0x103000 \<lparr>bo_sc = demo_booted, bo_is = demo_isys\<rparr> = Some (Switch 0 t, b')
    \<and> thread_entry (bo_sc b') = Some (Some (0x103000, 0))"
proof -
  let ?b = "\<lparr>bo_sc = demo_booted, bo_is = demo_isys\<rparr>"
  have k: "sc_ok (bo_sc ?b)" "ready_queue (bo_sc ?b) []" "(0x103000 :: u32) \<noteq> 0" "log_room 100 (bo_is ?b)"
    using demo_booted_ok by (simp_all add: demo_isys_def log_room_def)
  obtain t s1 base s2 where a: "sc_alloc THREAD_SIZE (bo_sc ?b) = (t, s1)" "t \<noteq> 0" "sc_alloc DEFAULT_STACK_SIZE s1 = (base, s2)" "base \<noteq> 0"
    using demo_booted_ok(3) by auto
  show ?thesis using boot_enters_launcher [OF k a, of thread0] by blast
qed

end
