(* ===== verification/Paging.thy ===== *)
theory Paging
  imports KHeap Serial Loops
begin

text \<open>
  Paging, \<^verbatim>\<open>arch/x86/x86/memory/paging.c\<close>.

  \<open>pg_ram\<close> is the physical memory by words; the three tables of the file are at addresses the linker
  chooses (\<open>pg_directory\<close>, \<open>pg_first\<close>, \<open>pg_heap_table\<close>).  The C code reads and writes through virtual addresses: with
  paging on every access is translated first (\<open>pg_load\<close>, \<open>pg_store\<close>), and one that is not mapped is \<open>None\<close>.
  The processor walks the tables at physical addresses.  Translations are not cached, since the code
  flushes what it changes.
\<close>

subsection \<open>The processor\<close>

definition PAGE_PRESENT :: u32 where "PAGE_PRESENT = 1"
definition PAGE_RW :: u32 where "PAGE_RW = 2"
definition PAGE_USER :: u32 where "PAGE_USER = 4"

record paging =
  pg_ram :: "addr \<Rightarrow> u32"
  pg_cr3 :: addr
  pg_on :: bool
  pg_directory :: addr
  pg_first :: addr
  pg_heap_table :: addr
  pg_heap :: kheap
  pg_log :: serial

text \<open>An entry names the frame in its upper 20 bits.\<close>

definition frame_of :: "u32 \<Rightarrow> addr" where "frame_of e = e AND NOT 0xFFF"

definition word_at :: "addr \<Rightarrow> nat \<Rightarrow> addr" where "word_at a i = a + 4 * of_nat i"

definition dir_index :: "addr \<Rightarrow> nat" where "dir_index v = unat (drop_bit 22 v AND 0x3FF)"
definition table_index :: "addr \<Rightarrow> nat" where "table_index v = unat (drop_bit 12 v AND 0x3FF)"

text \<open>The physical address and whether user mode may access it; \<open>None\<close> is a page fault.\<close>

definition walk :: "(addr \<Rightarrow> u32) \<Rightarrow> addr \<Rightarrow> addr \<Rightarrow> (addr \<times> bool) option" where
  "walk ram cr3 v =
     (let pde = ram (word_at (frame_of cr3) (dir_index v)) in
      if pde AND PAGE_PRESENT = 0 then None
      else let pte = ram (word_at (frame_of pde) (table_index v)) in
        if pte AND PAGE_PRESENT = 0 then None
        else Some (frame_of pte OR (v AND 0xFFF), pde AND PAGE_USER \<noteq> 0 \<and> pte AND PAGE_USER \<noteq> 0))"

definition translate :: "paging \<Rightarrow> addr \<Rightarrow> (addr \<times> bool) option" where
  "translate s v = (if pg_on s then walk (pg_ram s) (pg_cr3 s) v else Some (v, True))"

definition pg_load :: "addr \<Rightarrow> paging \<Rightarrow> u32 option" where
  "pg_load v s = map_option (\<lambda>(p, _). pg_ram s p) (translate s v)"

definition pg_store :: "addr \<Rightarrow> u32 \<Rightarrow> paging \<Rightarrow> paging option" where
  "pg_store v x s = map_option (\<lambda>(p, _). s\<lparr>pg_ram := (pg_ram s)(p := x)\<rparr>) (translate s v)"

subsection \<open>The code\<close>

definition paging_init :: "paging \<Rightarrow> paging option" where
  "paging_init s = do {
     s1 \<leftarrow> for_loop 0 1024 (\<lambda>i t. do {
       t' \<leftarrow> pg_store (word_at (pg_directory s) i) 0 t; pg_store (word_at (pg_first s) i) 0 t' }) s;
     s2 \<leftarrow> for_loop 0 1024 (\<lambda>i. pg_store (word_at (pg_first s) i) ((of_nat i * 0x1000) OR PAGE_PRESENT OR PAGE_RW OR PAGE_USER)) s1;
     s3 \<leftarrow> pg_store (word_at (pg_directory s) 0) (pg_first s OR PAGE_PRESENT OR PAGE_RW OR PAGE_USER) s2;
     s4 \<leftarrow> for_loop 0 256 (\<lambda>i. pg_store (word_at (pg_heap_table s) i)
       (((0x400000 + of_nat i * 0x1000) AND NOT 0xFFF) OR PAGE_PRESENT OR PAGE_RW)) s3;
     s5 \<leftarrow> for_loop 256 768 (\<lambda>i. pg_store (word_at (pg_heap_table s) i) 0) s4;
     s6 \<leftarrow> pg_store (word_at (pg_directory s) 0x300) (pg_heap_table s OR PAGE_PRESENT OR PAGE_RW) s5;
     let s7 = s6\<lparr>pg_cr3 := pg_directory s, pg_on := True\<rparr>;
     l \<leftarrow> serial_write (asc ''[Paging] Enabled with identity map (4MB) + heap at 0xC0000000 (1MB).'' @ [10]) (pg_log s7);
     Some (s7\<lparr>pg_log := l\<rparr>) }"

definition paging_map_page :: "addr \<Rightarrow> addr \<Rightarrow> paging \<Rightarrow> paging option" where
  "paging_map_page virt phys s = do {
     pde \<leftarrow> pg_load (word_at (pg_directory s) (dir_index virt)) s;
     (pt, s1) \<leftarrow>
       (if pde AND PAGE_PRESENT = 0 then
          (case kmalloc 4096 (pg_heap s) of (pt, h) \<Rightarrow> do {
             t1 \<leftarrow> for_loop 0 1024 (\<lambda>i. pg_store (word_at pt i) 0) (s\<lparr>pg_heap := h\<rparr>);
             t2 \<leftarrow> pg_store (word_at (pg_directory s) (dir_index virt)) (pt OR PAGE_PRESENT OR PAGE_RW) t1;
             Some (pt, t2\<lparr>pg_cr3 := pg_directory s\<rparr>) })
        else Some (pde AND NOT 0xFFF, s));
     pg_store (word_at pt (table_index virt)) ((phys AND NOT 0xFFF) OR PAGE_PRESENT OR PAGE_RW) s1 }"

subsection \<open>Addresses\<close>

lemma frame_of_unat: "unat (frame_of e) = unat e div 4096 * 4096"
proof -
  have "frame_of e = push_bit 12 (drop_bit 12 e)"
  proof (rule bit_word_eqI)
    fix n assume "n < LENGTH(32)"
    moreover have "(0xFFF :: u32) = mask 12" by (simp add: mask_eq_exp_minus_1)
    ultimately show "bit (frame_of e) n = bit (push_bit 12 (drop_bit 12 e)) n"
      unfolding frame_of_def by (auto simp only: bit_and_iff bit_not_iff bit_mask_iff bit_push_bit_iff bit_drop_bit_eq comp_apply le_add_diff_inverse not_less)
  qed
  moreover have "unat e < 2 ^ 32" using unsigned_less [of e, where ?'a = nat] by simp
  then have "unat e div 4096 * 4096 < 2 ^ 32" by simp
  ultimately show ?thesis
    by (simp add: drop_bit_eq_div push_bit_eq_mult unat_word_ariths unat_div)
qed

lemma unat_and_fff: "unat (v AND 0xFFF :: u32) = unat v mod 4096"
proof -
  have "v AND 0xFFF = take_bit 12 v" by (simp add: take_bit_eq_mask mask_eq_exp_minus_1)
  then show ?thesis by (simp add: take_bit_eq_mod unat_mod)
qed

lemma unat_and_3ff: "unat (v AND 0x3FF :: u32) = unat v mod 1024"
proof -
  have "v AND 0x3FF = take_bit 10 v" by (simp add: take_bit_eq_mask mask_eq_exp_minus_1)
  then show ?thesis by (simp add: take_bit_eq_mod unat_mod)
qed

lemma index_unat: "dir_index v = unat v div 4194304" "table_index v = unat v div 4096 mod 1024"
proof -
  have "unat v < 2 ^ 32" using unsigned_less [of v, where ?'a = nat] by simp
  then show "dir_index v = unat v div 4194304"
    by (simp add: dir_index_def unat_and_3ff unsigned_drop_bit_eq drop_bit_eq_div take_bit_eq_mod unat_div)
  show "table_index v = unat v div 4096 mod 1024"
    using \<open>unat v < 2 ^ 32\<close> by (simp add: table_index_def unat_and_3ff unsigned_drop_bit_eq drop_bit_eq_div take_bit_eq_mod unat_div)
qed

lemma index_bound [simp]: "dir_index v < 1024" "table_index v < 1024"
proof -
  have "unat v < 2 ^ 32" using unsigned_less [of v, where ?'a = nat] by simp
  then show "dir_index v < 1024" by (simp add: index_unat)
qed (simp add: index_unat)

definition aligned :: "addr \<Rightarrow> bool" where "aligned a \<longleftrightarrow> unat a mod 4096 = 0"

lemma aligned_frame: "aligned (frame_of e)" "aligned a \<Longrightarrow> frame_of a = a"
  by (simp_all add: aligned_def frame_of_unat word_unat_eq_iff) (metis div_mult_mod_eq add.right_neutral)

lemma aligned_mult:
  assumes "aligned a"
  obtains q where "unat a = 4096 * q" and "q < 1048576"
proof -
  from assms obtain q where "unat a = 4096 * q" by (auto simp: aligned_def dest: mod_0_imp_dvd)
  then show ?thesis using that unsigned_less [of a, where ?'a = nat] by simp
qed

text \<open>Below an aligned address there is room for twelve bits.\<close>

lemma aligned_or:
  assumes "aligned a" and "unat f < 4096"
  shows "unat (a OR f) = unat a + unat f" and "frame_of (a OR f) = a" and "(a OR f) AND 0xFFF = f"
proof -
  obtain q where q: "unat a = 4096 * q" "q < 1048576" using aligned_mult [OF assms(1)] .
  have m: "(0xFFF :: u32) = mask 12" by (simp add: mask_eq_exp_minus_1)
  have a: "\<not> bit a n" if "n < 12" for n
    using that aligned_frame(2) [OF assms(1)] m
    by (metis bit_and_iff bit_mask_iff bit_not_iff frame_of_def)
  have f: "f = take_bit 12 f" using assms(2) by (simp add: word_unat_eq_iff take_bit_eq_mod unat_mod)
  then have fb: "bit f n \<Longrightarrow> n < 12" for n by (metis bit_take_bit_iff)
  have "a OR f = a + f" by (rule disjunctive_add [symmetric]) (use a fb in blast)
  moreover have "unat a + unat f < 2 ^ 32" using q assms(2) by simp
  ultimately show u: "unat (a OR f) = unat a + unat f" by (simp add: unat_word_ariths)
  have "(unat a + unat f) div 4096 * 4096 = unat a" using q assms(2) by simp
  then show "frame_of (a OR f) = a" using u by (simp add: word_unat_eq_iff frame_of_unat)
  have "(unat a + unat f) mod 4096 = unat f" using q assms(2) by simp
  then show "(a OR f) AND 0xFFF = f" using u by (simp add: word_unat_eq_iff unat_and_fff)
qed

lemma word_at_unat:
  assumes "aligned a" and "i < 1024"
  shows "unat (word_at a i) = unat a + 4 * i"
proof -
  obtain q where "unat a = 4096 * q" "q < 1048576" using aligned_mult [OF assms(1)] .
  then have "unat a + 4 * i < 2 ^ 32" using assms(2) by simp
  moreover have "unat (4 * of_nat i :: u32) = 4 * i" using assms(2) by (simp add: unat_word_ariths unat_of_nat)
  ultimately show ?thesis by (simp add: word_at_def unat_word_ariths)
qed

lemma word_at_eq:
  assumes "aligned a" and "aligned b" and "i < 1024" and "j < 1024"
  shows "word_at a i = word_at b j \<longleftrightarrow> a = b \<and> i = j"
proof
  assume "word_at a i = word_at b j"
  then have e: "unat a + 4 * i = unat b + 4 * j" using word_at_unat assms by metis
  moreover obtain q r where "unat a = 4096 * q" "unat b = 4096 * r"
    using aligned_mult [OF assms(1)] aligned_mult [OF assms(2)] by metis
  ultimately have "1024 * q + i = 1024 * r + j" by simp
  then have "(1024 * q + i) mod 1024 = (1024 * r + j) mod 1024" by simp
  then have "i = j" using assms(3,4) by simp
  then show "a = b \<and> i = j" using e by (simp add: word_unat_eq_iff)
qed simp

lemma word_at_frame: "aligned a \<Longrightarrow> i < 1024 \<Longrightarrow> frame_of (word_at a i) = a \<and> word_at a i AND 0xFFF = 4 * of_nat i"
proof -
  assume a: "aligned a" "i < 1024"
  obtain q where q: "unat a = 4096 * q" "q < 1048576" using aligned_mult [OF a(1)] .
  have "frame_of (word_at a i) = a" using q a(2) by (simp add: word_unat_eq_iff frame_of_unat word_at_unat [OF a])
  moreover have "word_at a i AND 0xFFF = 4 * of_nat i"
    using q a(2) by (simp add: word_unat_eq_iff unat_and_fff word_at_unat [OF a] unat_word_ariths unat_of_nat)
  ultimately show ?thesis ..
qed

subsection \<open>Tables in memory\<close>

text \<open>Storing the entries \<open>f i\<close> of a table while the accesses go where \<open>tr\<close> says.\<close>

lemma store_table:
  assumes "\<And>j r. k \<le> j \<Longrightarrow> j < k + n \<Longrightarrow> r \<in> rams \<Longrightarrow> \<exists>b. translate (s\<lparr>pg_ram := r\<rparr>) (word_at v j) = Some (tr j, b)"
    and "\<And>j r x. k \<le> j \<Longrightarrow> j < k + n \<Longrightarrow> r \<in> rams \<Longrightarrow> r(tr j := x) \<in> rams"
    and "inj_on tr {k..<k + n}" and "pg_ram s \<in> rams"
  shows "\<exists>r. for_loop k n (\<lambda>j. pg_store (word_at v j) (f j)) s = Some (s\<lparr>pg_ram := r\<rparr>) \<and> r \<in> rams
    \<and> (\<forall>j. k \<le> j \<and> j < k + n \<longrightarrow> r (tr j) = f j) \<and> (\<forall>p. p \<notin> tr ` {k..<k + n} \<longrightarrow> r p = pg_ram s p)"
proof -
  let ?P = "\<lambda>m t. m \<le> k + n \<and> (\<exists>r. t = s\<lparr>pg_ram := r\<rparr> \<and> r \<in> rams \<and> (\<forall>j. k \<le> j \<and> j < m \<longrightarrow> r (tr j) = f j)
      \<and> (\<forall>p. p \<notin> tr ` {k..<m} \<longrightarrow> r p = pg_ram s p))"
  have "\<exists>t. for_loop k n (\<lambda>j. pg_store (word_at v j) (f j)) s = Some t \<and> ?P (k + n) t"
  proof (rule for_loop_rule [where P = ?P])
    show "?P k s" using assms(4) by (auto intro!: exI [of _ "pg_ram s"])
    fix m t assume m: "k \<le> m" "m < k + n" and "?P m t"
    then obtain r where r: "t = s\<lparr>pg_ram := r\<rparr>" "r \<in> rams" "\<And>j. k \<le> j \<Longrightarrow> j < m \<Longrightarrow> r (tr j) = f j"
        "\<And>p. p \<notin> tr ` {k..<m} \<Longrightarrow> r p = pg_ram s p" by auto
    let ?r = "r(tr m := f m)"
    obtain b where "translate t (word_at v m) = Some (tr m, b)" using assms(1) [OF m r(2)] r(1) by auto
    then have "pg_store (word_at v m) (f m) t = Some (s\<lparr>pg_ram := ?r\<rparr>)" using r(1) by (simp add: pg_store_def)
    moreover have "?r (tr j) = f j" if "k \<le> j" "j < Suc m" for j
      using that r(3) m inj_onD [OF assms(3), of j m] by (cases "j = m") auto
    moreover have "?r p = pg_ram s p" if "p \<notin> tr ` {k..<Suc m}" for p
    proof -
      have "p \<notin> tr ` {k..<m}" "p \<noteq> tr m" using that m(1) by (auto simp: image_iff)
      then show ?thesis using r(4) by simp
    qed
    ultimately show "\<exists>u. pg_store (word_at v m) (f m) t = Some u \<and> ?P (Suc m) u"
      using assms(2) [OF m r(2)] m by auto
  qed
  then show ?thesis by auto
qed

lemma store_off:
  assumes "\<not> pg_on s" and "aligned v" and "k + n \<le> 1024"
  shows "\<exists>r. for_loop k n (\<lambda>j. pg_store (word_at v j) (f j)) s = Some (s\<lparr>pg_ram := r\<rparr>)
    \<and> (\<forall>a i. aligned a \<and> i < 1024 \<longrightarrow> r (word_at a i) = (if a = v \<and> k \<le> i \<and> i < k + n then f i else pg_ram s (word_at a i)))
    \<and> (\<forall>p. frame_of p \<noteq> v \<longrightarrow> r p = pg_ram s p)"
proof -
  have inj: "inj_on (word_at v) {k..<k + n}" using assms(2,3) by (intro inj_onI) (simp add: word_at_eq)
  obtain r where r: "for_loop k n (\<lambda>j. pg_store (word_at v j) (f j)) s = Some (s\<lparr>pg_ram := r\<rparr>)"
      "\<And>j. k \<le> j \<Longrightarrow> j < k + n \<Longrightarrow> r (word_at v j) = f j" "\<And>p. p \<notin> word_at v ` {k..<k + n} \<Longrightarrow> r p = pg_ram s p"
    using store_table [of k n UNIV s v "word_at v" f] inj assms(1) by (auto simp: translate_def)
  have "r (word_at a i) = (if a = v \<and> k \<le> i \<and> i < k + n then f i else pg_ram s (word_at a i))" if "aligned a" "i < 1024" for a i
  proof (cases "a = v \<and> k \<le> i \<and> i < k + n")
    case False
    then have "word_at a i \<notin> word_at v ` {k..<k + n}" using that assms(2,3) by (auto simp: word_at_eq)
    then show ?thesis using r(3) False by auto
  qed (use r(2) in auto)
  moreover have "r p = pg_ram s p" if "frame_of p \<noteq> v" for p
  proof (rule r(3))
    show "p \<notin> word_at v ` {k..<k + n}" using that word_at_frame [OF assms(2)] assms(3) by auto
  qed
  ultimately show ?thesis using r(1) by blast
qed

subsection \<open>The address space \<^verbatim>\<open>paging_init\<close> sets up\<close>

text \<open>Where the linker may put the tables: three different pages in the first 4 MiB.\<close>

definition linked :: "paging \<Rightarrow> bool" where
  "linked s \<longleftrightarrow> aligned (pg_directory s) \<and> aligned (pg_first s) \<and> aligned (pg_heap_table s)
     \<and> distinct [pg_directory s, pg_first s, pg_heap_table s]
     \<and> pg_directory s < 0x400000 \<and> pg_first s < 0x400000 \<and> pg_heap_table s < 0x400000"

definition first_entry :: "nat \<Rightarrow> u32" where
  "first_entry i = (of_nat i * 0x1000) OR 7"

definition heap_entry :: "nat \<Rightarrow> u32" where
  "heap_entry i = (if i < 256 then (0x400000 + of_nat i * 0x1000) OR 3 else 0)"

definition dir_entry :: "paging \<Rightarrow> nat \<Rightarrow> u32" where
  "dir_entry s i = (if i = 0 then pg_first s OR 7 else if i = 0x300 then pg_heap_table s OR 3 else 0)"

text \<open>The memory after \<^verbatim>\<open>paging_init\<close>.\<close>

definition mapped :: "paging \<Rightarrow> paging \<Rightarrow> bool" where
  "mapped s t \<longleftrightarrow> pg_on t \<and> pg_cr3 t = pg_directory s \<and> pg_directory t = pg_directory s \<and> pg_first t = pg_first s
     \<and> pg_heap_table t = pg_heap_table s \<and> pg_heap t = pg_heap s
     \<and> (\<forall>i < 1024. pg_ram t (word_at (pg_directory s) i) = dir_entry s i)
     \<and> (\<forall>i < 1024. pg_ram t (word_at (pg_first s) i) = first_entry i)
     \<and> (\<forall>i < 1024. pg_ram t (word_at (pg_heap_table s) i) = heap_entry i)
     \<and> (\<forall>p. frame_of p \<notin> {pg_directory s, pg_first s, pg_heap_table s} \<longrightarrow> pg_ram t p = pg_ram s p)"

lemma flags: "PAGE_PRESENT OR PAGE_RW OR PAGE_USER = 7" "PAGE_PRESENT OR PAGE_RW = 3"
  by (simp_all add: PAGE_PRESENT_def PAGE_RW_def PAGE_USER_def)

lemma aligned_page: "aligned (of_nat i * 0x1000)" if "i < 1024"
  using that by (simp add: aligned_def unat_word_ariths unat_of_nat)

lemma aligned_heap_page: "aligned (0x400000 + of_nat i * 0x1000)" if "i < 256"
  using that by (simp add: aligned_def unat_word_ariths unat_of_nat)

lemma clear_tables:
  assumes "\<not> pg_on s" and "aligned d" and "aligned f"
  shows "\<exists>r. for_loop 0 1024 (\<lambda>i t. do { t' \<leftarrow> pg_store (word_at d i) 0 t; pg_store (word_at f i) 0 t' }) s = Some (s\<lparr>pg_ram := r\<rparr>)
    \<and> (\<forall>a i. aligned a \<and> i < 1024 \<longrightarrow> r (word_at a i) = (if a = d \<or> a = f then 0 else pg_ram s (word_at a i)))
    \<and> (\<forall>p. frame_of p \<noteq> d \<and> frame_of p \<noteq> f \<longrightarrow> r p = pg_ram s p)"
proof -
  let ?P = "\<lambda>m t. m \<le> 1024 \<and> (\<exists>r. t = s\<lparr>pg_ram := r\<rparr>
    \<and> (\<forall>a i. aligned a \<and> i < 1024 \<longrightarrow> r (word_at a i) = (if (a = d \<or> a = f) \<and> i < m then 0 else pg_ram s (word_at a i)))
    \<and> (\<forall>p. frame_of p \<noteq> d \<and> frame_of p \<noteq> f \<longrightarrow> r p = pg_ram s p))"
  have "\<exists>t. for_loop 0 1024 (\<lambda>i t. do { t' \<leftarrow> pg_store (word_at d i) 0 t; pg_store (word_at f i) 0 t' }) s = Some t \<and> ?P (0 + 1024) t"
  proof (rule for_loop_rule [where P = ?P])
    show "?P 0 s" by (auto intro!: exI [of _ "pg_ram s"])
    fix m t assume m: "m < 0 + 1024" and "?P m t"
    then obtain r where r: "t = s\<lparr>pg_ram := r\<rparr>"
        "\<And>a i. aligned a \<Longrightarrow> i < 1024 \<Longrightarrow> r (word_at a i) = (if (a = d \<or> a = f) \<and> i < m then 0 else pg_ram s (word_at a i))"
        "\<And>p. frame_of p \<noteq> d \<Longrightarrow> frame_of p \<noteq> f \<Longrightarrow> r p = pg_ram s p" by auto
    let ?r = "r(word_at d m := 0, word_at f m := 0)"
    have "(do { t' \<leftarrow> pg_store (word_at d m) 0 t; pg_store (word_at f m) 0 t' }) = Some (s\<lparr>pg_ram := ?r\<rparr>)"
      using assms(1) r(1) by (simp add: pg_store_def translate_def)
    moreover have "?r (word_at a i) = (if (a = d \<or> a = f) \<and> i < Suc m then 0 else pg_ram s (word_at a i))" if "aligned a" "i < 1024" for a i
      using that r(2) m assms(2,3) by (auto simp: word_at_eq less_Suc_eq)
    moreover have "?r p = pg_ram s p" if "frame_of p \<noteq> d" "frame_of p \<noteq> f" for p
      using that r(3) m assms(2,3) word_at_frame [of d m] word_at_frame [of f m] by auto
    ultimately show "\<exists>u. (do { t' \<leftarrow> pg_store (word_at d m) 0 t; pg_store (word_at f m) 0 t' }) = Some u \<and> ?P (Suc m) u"
      using m by auto
  qed
  then show ?thesis by auto
qed

lemma store_one:
  assumes "\<not> pg_on s" and "aligned v" and "j < 1024"
  shows "\<exists>r. pg_store (word_at v j) x s = Some (s\<lparr>pg_ram := r\<rparr>)
    \<and> (\<forall>a i. aligned a \<and> i < 1024 \<longrightarrow> r (word_at a i) = (if a = v \<and> i = j then x else pg_ram s (word_at a i)))
    \<and> (\<forall>p. frame_of p \<noteq> v \<longrightarrow> r p = pg_ram s p)"
  using assms word_at_frame [OF assms(2,3)]
  by (intro exI [of _ "(pg_ram s)(word_at v j := x)"]) (auto simp: pg_store_def translate_def word_at_eq)

lemma log_returns:
  assumes "\<not> se_ready l \<or> length cs \<le> empties l"
  shows "\<exists>l'. serial_write cs l = Some l'"
  using assms serial_putcs_enough [of l cs] by (cases "se_ready l") (auto simp: serial_write_def)

lemma paging_init_logs:
  assumes l: "linked s" and off: "\<not> pg_on s" and log: "\<not> se_ready (pg_log s) \<or> 70 \<le> empties (pg_log s)"
  shows "\<exists>t. paging_init s = Some t \<and> mapped s t
    \<and> serial_write (asc ''[Paging] Enabled with identity map (4MB) + heap at 0xC0000000 (1MB).'' @ [10]) (pg_log s) = Some (pg_log t)"
proof -
  let ?d = "pg_directory s" let ?f = "pg_first s" let ?h = "pg_heap_table s"
  have al: "aligned ?d" "aligned ?f" "aligned ?h" and ne: "?d \<noteq> ?f" "?d \<noteq> ?h" "?f \<noteq> ?h" using l by (auto simp: linked_def)
  obtain r1 where r1: "for_loop 0 1024 (\<lambda>i t. do { t' \<leftarrow> pg_store (word_at ?d i) 0 t; pg_store (word_at ?f i) 0 t' }) s = Some (s\<lparr>pg_ram := r1\<rparr>)"
    "\<And>a i. aligned a \<Longrightarrow> i < 1024 \<Longrightarrow> r1 (word_at a i) = (if a = ?d \<or> a = ?f then 0 else pg_ram s (word_at a i))"
    "\<And>p. frame_of p \<noteq> ?d \<Longrightarrow> frame_of p \<noteq> ?f \<Longrightarrow> r1 p = pg_ram s p" using clear_tables [OF off al(1,2)] by auto
  obtain r2 where r2: "for_loop 0 1024 (\<lambda>i. pg_store (word_at ?f i) ((of_nat i * 0x1000) OR PAGE_PRESENT OR PAGE_RW OR PAGE_USER))
      (s\<lparr>pg_ram := r1\<rparr>) = Some (s\<lparr>pg_ram := r2\<rparr>)"
    "\<And>a i. aligned a \<Longrightarrow> i < 1024 \<Longrightarrow> r2 (word_at a i) = (if a = ?f then first_entry i else r1 (word_at a i))"
    "\<And>p. frame_of p \<noteq> ?f \<Longrightarrow> r2 p = r1 p"
    using store_off [of "s\<lparr>pg_ram := r1\<rparr>" ?f 0 1024 first_entry] off al(2) by (auto simp: first_entry_def flags)
  obtain r3 where r3: "pg_store (word_at ?d 0) (?f OR PAGE_PRESENT OR PAGE_RW OR PAGE_USER) (s\<lparr>pg_ram := r2\<rparr>) = Some (s\<lparr>pg_ram := r3\<rparr>)"
    "\<And>a i. aligned a \<Longrightarrow> i < 1024 \<Longrightarrow> r3 (word_at a i) = (if a = ?d \<and> i = 0 then ?f OR 7 else r2 (word_at a i))"
    "\<And>p. frame_of p \<noteq> ?d \<Longrightarrow> r3 p = r2 p"
    using store_one [of "s\<lparr>pg_ram := r2\<rparr>" ?d 0 "?f OR 7"] off al(1) by (auto simp: flags)
  obtain r4 where r4: "for_loop 0 256 (\<lambda>i. pg_store (word_at ?h i) (((0x400000 + of_nat i * 0x1000) AND NOT 0xFFF) OR PAGE_PRESENT OR PAGE_RW))
      (s\<lparr>pg_ram := r3\<rparr>) = Some (s\<lparr>pg_ram := r4\<rparr>)"
    "\<And>a i. aligned a \<Longrightarrow> i < 1024 \<Longrightarrow> r4 (word_at a i) = (if a = ?h \<and> i < 256
        then (frame_of (0x400000 + of_nat i * 0x1000)) OR 3 else r3 (word_at a i))"
    "\<And>p. frame_of p \<noteq> ?h \<Longrightarrow> r4 p = r3 p"
    using store_off [of "s\<lparr>pg_ram := r3\<rparr>" ?h 0 256 "\<lambda>i. frame_of (0x400000 + of_nat i * 0x1000) OR 3"] off al(3)
    by (auto simp: frame_of_def flags)
  obtain r5 where r5: "for_loop 256 768 (\<lambda>i. pg_store (word_at ?h i) 0) (s\<lparr>pg_ram := r4\<rparr>) = Some (s\<lparr>pg_ram := r5\<rparr>)"
    "\<And>a i. aligned a \<Longrightarrow> i < 1024 \<Longrightarrow> r5 (word_at a i) = (if a = ?h \<and> 256 \<le> i then 0 else r4 (word_at a i))"
    "\<And>p. frame_of p \<noteq> ?h \<Longrightarrow> r5 p = r4 p"
    using store_off [of "s\<lparr>pg_ram := r4\<rparr>" ?h 256 768 "\<lambda>i. 0"] off al(3) by auto
  obtain r6 where r6: "pg_store (word_at ?d 0x300) (?h OR PAGE_PRESENT OR PAGE_RW) (s\<lparr>pg_ram := r5\<rparr>) = Some (s\<lparr>pg_ram := r6\<rparr>)"
    "\<And>a i. aligned a \<Longrightarrow> i < 1024 \<Longrightarrow> r6 (word_at a i) = (if a = ?d \<and> i = 0x300 then ?h OR 3 else r5 (word_at a i))"
    "\<And>p. frame_of p \<noteq> ?d \<Longrightarrow> r6 p = r5 p"
    using store_one [of "s\<lparr>pg_ram := r5\<rparr>" ?d "0x300" "?h OR 3"] off al(1) by (auto simp: flags)
  obtain lg where lg: "serial_write (asc ''[Paging] Enabled with identity map (4MB) + heap at 0xC0000000 (1MB).'' @ [10]) (pg_log s) = Some lg"
    using log_returns [of "pg_log s" "asc ''[Paging] Enabled with identity map (4MB) + heap at 0xC0000000 (1MB).'' @ [10]"] log
    by (auto simp: asc_def)
  let ?t = "s\<lparr>pg_ram := r6, pg_cr3 := ?d, pg_on := True, pg_log := lg\<rparr>"
  have "paging_init s = Some ?t"
    unfolding paging_init_def using r1(1) r2(1) r3(1) r4(1) r5(1) r6(1) lg by (simp only: Option.bind_lunit) simp
  moreover have "frame_of (0x400000 + of_nat i * 0x1000) = 0x400000 + of_nat i * 0x1000" if "i < 256" for i
    by (rule aligned_frame(2)) (rule aligned_heap_page [OF that])
  then have "mapped s ?t"
    using ne by (simp add: mapped_def al r6(2,3) r5(2,3) r4(2,3) r3(2,3) r2(2,3) r1(2,3) dir_entry_def heap_entry_def not_le)
  moreover have "pg_log ?t = lg" by simp
  ultimately show ?thesis using lg by metis
qed

lemma paging_init_mapped:
  "linked s \<Longrightarrow> \<not> pg_on s \<Longrightarrow> \<not> se_ready (pg_log s) \<or> 70 \<le> empties (pg_log s) \<Longrightarrow> \<exists>t. paging_init s = Some t \<and> mapped s t"
  using paging_init_logs by blast

lemma low_flag:
  assumes "aligned a" and "unat f < 4096" and "0xFFF AND k = k"
  shows "(a OR f) AND k = f AND k"
proof -
  have "(a OR f) AND k = ((a OR f) AND 0xFFF) AND k" using assms(3) by (simp only: and.assoc)
  then show ?thesis by (simp only: aligned_or(3) [OF assms(1,2)])
qed

lemma entry_flags:
  assumes "aligned a"
  shows "frame_of (a OR 7) = a" "frame_of (a OR 3) = a" "(a OR 7) AND 1 = 1" "(a OR 3) AND 1 = 1" "(a OR 7) AND 4 = 4" "(a OR 3) AND 4 = 0"
  using aligned_or(2) [OF assms] low_flag [OF assms] by simp_all

lemma page_of_index: "frame_of v = of_nat (unat v div 4096) * 0x1000"
proof -
  have "unat v div 4096 < 1048576" using unsigned_less [of v, where ?'a = nat] by simp
  then show ?thesis by (simp add: word_unat_eq_iff frame_of_unat unat_word_ariths unat_of_nat)
qed

lemma frame_plus_offset: "frame_of v OR (v AND 0xFFF) = v"
  using aligned_or(1) [OF aligned_frame(1), of "v AND 0xFFF" v]
  by (simp add: word_unat_eq_iff unat_and_fff frame_of_unat)

lemma walk_mapped:
  assumes l: "linked s" and m: "mapped s t"
  shows "translate t v = (if v < 0x400000 then Some (v, True)
    else if 0xC0000000 \<le> v \<and> v < 0xC0100000 then Some (v - 0xC0000000 + 0x400000, False) else None)"
proof -
  let ?d = "dir_index v" and ?i = "table_index v"
  have al: "aligned (pg_directory s)" "aligned (pg_first s)" "aligned (pg_heap_table s)" using l by (simp_all add: linked_def)
  have ram: "pg_ram t (word_at (pg_directory s) j) = dir_entry s j" "pg_ram t (word_at (pg_first s) j) = first_entry j"
    "pg_ram t (word_at (pg_heap_table s) j) = heap_entry j" if "j < 1024" for j
    using m that by (auto simp: mapped_def)
  have w: "translate t v = walk (pg_ram t) (pg_directory s) v" using m by (simp add: mapped_def translate_def)
  consider "?d = 0" | "?d = 0x300" | "?d \<noteq> 0" "?d \<noteq> 0x300" by blast
  then show ?thesis
  proof cases
    case 1
    then have v: "unat v < 4194304" by (simp add: index_unat)
    then have "of_nat ?i * 0x1000 = frame_of v" by (simp add: page_of_index index_unat)
    then have e: "first_entry ?i = frame_of v OR 7" by (simp add: first_entry_def)
    have "translate t v = Some (frame_of v OR (v AND 0xFFF), True)"
      using 1 by (simp add: w walk_def Let_def aligned_frame(2) al ram dir_entry_def e entry_flags al aligned_frame(1) PAGE_PRESENT_def PAGE_USER_def)
    then show ?thesis using v by (simp add: frame_plus_offset word_less_nat_alt)
  next
    case 2
    then have v: "3221225472 \<le> unat v" "unat v < 3225419776"
      by (simp_all add: index_unat)
    have "translate t v = (if ?i < 256 then Some ((0x400000 + of_nat ?i * 0x1000) OR (v AND 0xFFF), False) else None)"
      using 2 by (simp add: w walk_def Let_def aligned_frame(2) al ram dir_entry_def entry_flags heap_entry_def aligned_heap_page
          PAGE_PRESENT_def PAGE_USER_def)
    moreover obtain x where x: "unat v = 3221225472 + x" using v(1) by (auto simp: le_iff_add)
    moreover have i: "?i = x div 4096" "x < 4194304"
    proof -
      show "x < 4194304" using x v(2) by simp
      have "(3221225472 + x) div 4096 = 768 * 1024 + x div 4096" using div_mult_self3 [of 4096 786432 x] by simp
      then show "?i = x div 4096" using x \<open>x < 4194304\<close> mod_mult_self3 [of 768 1024 "x div 4096"] by (simp add: index_unat)
    qed
    moreover have "(0x400000 + of_nat ?i * 0x1000) OR (v AND 0xFFF) = v - 0xC0000000 + 0x400000" if "?i < 256"
    proof -
      have "unat (v - 0xBFC00000) = x + 4194304" using x by (simp add: unat_sub word_le_nat_alt)
      moreover have "unat (0x400000 + of_nat ?i * 0x1000 :: u32) = 4194304 + x div 4096 * 4096"
        using that i by (simp add: unat_word_ariths unat_of_nat)
      moreover have "unat (v AND 0xFFF) = x mod 4096" using x mod_mult_self3 [of 786432 4096 x] by (simp add: unat_and_fff)
      ultimately show ?thesis using aligned_or(1) [OF aligned_heap_page [OF that], of "v AND 0xFFF"]
        by (simp add: word_unat_eq_iff)
    qed
    ultimately show ?thesis using v by (auto simp: word_less_nat_alt word_le_nat_alt)
  next
    case 3
    then have "\<not> unat v < 4194304" "\<not> (3221225472 \<le> unat v \<and> unat v < 3225419776)"
      by (simp add: index_unat) (use 3 in \<open>auto simp: index_unat\<close>)
    moreover have "translate t v = None"
      using 3 by (simp add: w walk_def Let_def aligned_frame(2) al ram dir_entry_def)
    ultimately show ?thesis by (auto simp: word_less_nat_alt word_le_nat_alt)
  qed
qed

text \<open>C32.  The address space after \<^verbatim>\<open>paging_init\<close>: the first 4 MiB are mapped to themselves for the kernel and for user
  mode, the 1 MiB from 0xC0000000 is mapped to the physical addresses from 4 MiB for the kernel only, and
  every other address faults.
\<close>

theorem paging_init_space:
  assumes "linked s" and "\<not> pg_on s" and "\<not> se_ready (pg_log s) \<or> 70 \<le> empties (pg_log s)"
  shows "\<exists>t. paging_init s = Some t \<and> (\<forall>v. translate t v =
    (if v < 0x400000 then Some (v, True)
     else if 0xC0000000 \<le> v \<and> v < 0xC0100000 then Some (v - 0xC0000000 + 0x400000, False) else None))"
  using paging_init_mapped [OF assms] walk_mapped [OF assms(1)] by auto

definition demo_paging :: paging where
  "demo_paging = \<lparr>pg_ram = (\<lambda>_. 0xFFFFFFFF), pg_cr3 = 0, pg_on = False, pg_directory = 0x108000, pg_first = 0x109000,
     pg_heap_table = 0x10A000, pg_heap = kheap_boot,
     pg_log = \<lparr>se_ready = False, se_present = False, se_status = [], se_in = [], se_out = []\<rparr>\<rparr>"

lemma demo_linked: "linked demo_paging" "\<not> pg_on demo_paging" "\<not> se_ready (pg_log demo_paging)"
  by (simp_all add: demo_paging_def linked_def aligned_def)

text \<open>The stack and the program of \<^verbatim>\<open>init_first_process\<close> are not mapped.\<close>

lemma paging_init_space_witness:
  "\<exists>t. paging_init demo_paging = Some t \<and> translate t 0xC0000010 = Some (0x400010, False)
    \<and> translate t 0x08048000 = None \<and> translate t 0xDFFFFFFC = None"
  using paging_init_space [of demo_paging] demo_linked by auto

subsection \<open>Mapping more pages\<close>

text \<open>
  What keeps \<^verbatim>\<open>paging_map_page\<close> working: the tables are reachable where the code looks for them, at their
  physical addresses.
\<close>

definition paging_ok :: "paging \<Rightarrow> bool" where
  "paging_ok t \<longleftrightarrow> linked t \<and> pg_on t \<and> pg_cr3 t = pg_directory t
     \<and> (\<forall>i < 1024. pg_ram t (word_at (pg_directory t) i) = dir_entry t i)
     \<and> (\<forall>a \<in> {pg_directory t, pg_first t, pg_heap_table t}. \<exists>u. translate t a = Some (a, u))"

text \<open>The pages with an existing table, without those that hold the tables themselves.\<close>

definition mappable :: "paging \<Rightarrow> addr \<Rightarrow> bool" where
  "mappable t v \<longleftrightarrow> (v < 0x400000 \<or> 0xC0000000 \<le> v \<and> v < 0xC0400000)
     \<and> frame_of v \<notin> {pg_directory t, pg_first t, pg_heap_table t}"

lemma same_page:
  assumes "frame_of v = frame_of w"
  shows "dir_index v = dir_index w" "table_index v = table_index w"
proof -
  have "unat v div 4096 = unat w div 4096" using assms by (simp add: word_unat_eq_iff frame_of_unat)
  then show "table_index v = table_index w" by (simp add: index_unat)
  have "unat x div 4194304 = unat x div 4096 div 1024" for x :: u32 by (simp flip: div_mult2_eq)
  then show "dir_index v = dir_index w" using \<open>unat v div 4096 = unat w div 4096\<close> by (simp add: index_unat)
qed

lemma index_page: "dir_index v = dir_index w \<Longrightarrow> table_index v = table_index w \<Longrightarrow> frame_of v = frame_of w"
proof -
  assume a: "dir_index v = dir_index w" "table_index v = table_index w"
  have "unat x div 4096 = dir_index x * 1024 + table_index x" for x :: u32
  proof -
    have "unat x div 4194304 = unat x div 4096 div 1024" by (simp flip: div_mult2_eq)
    then show ?thesis by (simp add: index_unat)
  qed
  then show ?thesis using a by (simp add: word_unat_eq_iff frame_of_unat)
qed

text \<open>A table mapped to itself is mapped to itself word by word.\<close>

lemma translate_word:
  assumes "pg_on t" and "aligned a" and "i < 1024" and "translate t a = Some (a, u)"
  shows "translate t (word_at a i) = Some (word_at a i, u)"
proof -
  have f: "frame_of (word_at a i) = a" "word_at a i AND 0xFFF = 4 * of_nat i" using word_at_frame [OF assms(2,3)] by auto
  then have "frame_of (word_at a i) = frame_of a" using aligned_frame(2) [OF assms(2)] by simp
  note x = same_page [OF this]
  have z: "a AND 0xFFF = 0" using assms(2) by (simp add: word_unat_eq_iff unat_and_fff aligned_def)
  have "unat (4 * of_nat i :: u32) < 4096" using assms(3) by (simp add: unat_word_ariths unat_of_nat)
  from aligned_or(1) [OF assms(2) this] have "a OR 4 * of_nat i = word_at a i"
    using assms(3) by (simp add: word_unat_eq_iff word_at_unat [OF assms(2,3)] unat_word_ariths unat_of_nat)
  then show ?thesis using assms(1,4) by (auto simp: translate_def walk_def Let_def x f(2) z split: if_splits)
qed

lemma frame_and: "e AND - 4096 = frame_of e"
  by (simp add: frame_of_def)

lemma dir_entry_table:
  assumes "linked t" and "i < 1024" and "dir_entry t i AND PAGE_PRESENT \<noteq> 0"
  shows "i = 0 \<and> frame_of (dir_entry t i) = pg_first t \<or> i = 0x300 \<and> frame_of (dir_entry t i) = pg_heap_table t"
  using assms by (auto simp: dir_entry_def linked_def entry_flags split: if_splits)

lemma mappable_table:
  assumes "mappable t v" and "linked t"
  obtains pt where "dir_entry t (dir_index v) AND PAGE_PRESENT \<noteq> 0" "frame_of (dir_entry t (dir_index v)) = pt"
    "pt \<in> {pg_first t, pg_heap_table t}" "aligned pt" "pt \<noteq> pg_directory t"
    "\<And>i. i < 1024 \<Longrightarrow> dir_entry t i AND PAGE_PRESENT \<noteq> 0 \<Longrightarrow> frame_of (dir_entry t i) = pt \<Longrightarrow> i = dir_index v"
proof -
  have d: "dir_index v = 0 \<or> dir_index v = 0x300"
    using assms(1) by (auto simp: mappable_def index_unat word_less_nat_alt word_le_nat_alt)
  have al: "aligned (pg_first t)" "aligned (pg_heap_table t)" and ne: "pg_first t \<noteq> pg_heap_table t" "pg_first t \<noteq> pg_directory t"
    "pg_heap_table t \<noteq> pg_directory t" using assms(2) by (auto simp: linked_def)
  have p: "dir_entry t (dir_index v) AND PAGE_PRESENT \<noteq> 0"
    using d al by (auto simp: dir_entry_def entry_flags PAGE_PRESENT_def)
  note t = dir_entry_table [OF assms(2) index_bound(1) this]
  show ?thesis
  proof (rule that [OF p refl])
    show "i = dir_index v" if "i < 1024" "dir_entry t i AND PAGE_PRESENT \<noteq> 0" "frame_of (dir_entry t i) = frame_of (dir_entry t (dir_index v))" for i
      using dir_entry_table [OF assms(2) that(1,2)] that(3) t ne by auto
  qed (use t al ne in auto)
qed

lemma map_page_step:
  assumes ok: "paging_ok t" and m: "mappable t virt"
  shows "\<exists>u. paging_map_page virt phys t = Some u \<and> paging_ok u \<and> (\<forall>v. mappable u v = mappable t v)
    \<and> (\<forall>v. translate u v = (if frame_of v = frame_of virt then Some (frame_of phys OR (v AND 0xFFF), False) else translate t v))"
proof -
  have l: "linked t" and on: "pg_on t" "pg_cr3 t = pg_directory t" using ok by (simp_all add: paging_ok_def)
  have ad: "aligned (pg_directory t)" using l by (simp add: linked_def)
  obtain pt where pt: "dir_entry t (dir_index virt) AND PAGE_PRESENT \<noteq> 0" "frame_of (dir_entry t (dir_index virt)) = pt"
    "pt \<in> {pg_first t, pg_heap_table t}" "aligned pt" "pt \<noteq> pg_directory t"
    "\<And>i. i < 1024 \<Longrightarrow> dir_entry t i AND PAGE_PRESENT \<noteq> 0 \<Longrightarrow> frame_of (dir_entry t i) = pt \<Longrightarrow> i = dir_index virt"
    using mappable_table [OF m l] by blast
  have dr: "pg_ram t (word_at (pg_directory t) i) = dir_entry t i" if "i < 1024" for i using ok that by (simp add: paging_ok_def)
  obtain b1 where "translate t (pg_directory t) = Some (pg_directory t, b1)" using ok by (auto simp: paging_ok_def)
  from translate_word [OF on(1) ad index_bound(1) this]
  have ld: "pg_load (word_at (pg_directory t) (dir_index virt)) t = Some (dir_entry t (dir_index virt))"
    by (simp add: pg_load_def dr)
  obtain b2 where "translate t pt = Some (pt, b2)" using ok pt(3) by (auto simp: paging_ok_def)
  from translate_word [OF on(1) pt(4) index_bound(2) this]
  have st: "pg_store (word_at pt (table_index virt)) x t = Some (t\<lparr>pg_ram := (pg_ram t)(word_at pt (table_index virt) := x)\<rparr>)" for x
    by (simp add: pg_store_def)
  let ?x = "frame_of phys OR 3"
  let ?u = "t\<lparr>pg_ram := (pg_ram t)(word_at pt (table_index virt) := ?x)\<rparr>"
  have u: "paging_map_page virt phys t = Some ?u"
    using pt(1,2) by (simp add: paging_map_page_def ld frame_and st flags)
  have du: "dir_entry ?u i = dir_entry t i" for i by (simp add: dir_entry_def)
  have dru: "pg_ram ?u (word_at (pg_directory t) i) = dir_entry t i" if "i < 1024" for i
    using that dr ad pt(4,5) by (simp add: word_at_eq)
  have tr: "translate ?u v = (if frame_of v = frame_of virt then Some (frame_of phys OR (v AND 0xFFF), False) else translate t v)" for v
  proof (cases "frame_of v = frame_of virt")
    case True
    then show ?thesis using same_page [OF True] pt ad on dru entry_flags [OF aligned_frame(1), of phys]
      by (simp add: translate_def walk_def Let_def aligned_frame(2) PAGE_PRESENT_def PAGE_USER_def)
  next
    case False
    have "pg_ram ?u (word_at (frame_of (dir_entry t (dir_index v))) (table_index v))
        = pg_ram t (word_at (frame_of (dir_entry t (dir_index v))) (table_index v))" if "dir_entry t (dir_index v) AND PAGE_PRESENT \<noteq> 0"
    proof -
      have "\<not> (frame_of (dir_entry t (dir_index v)) = pt \<and> table_index v = table_index virt)"
        using pt(6) [OF index_bound(1) that] index_page [of v virt] False by auto
      then show ?thesis using pt(4) aligned_frame(1) by (auto simp: word_at_eq)
    qed
    then show ?thesis using False ad on dru dr
      by (simp add: translate_def walk_def Let_def aligned_frame(2) del: fun_upd_apply)
  qed
  have "linked ?u" using l by (simp add: linked_def)
  moreover have "\<exists>b. translate ?u a = Some (a, b)" if a: "a \<in> {pg_directory t, pg_first t, pg_heap_table t}" for a
  proof -
    have "aligned a" using a l by (auto simp: linked_def)
    then have "frame_of a = a" by (rule aligned_frame(2))
    then have "frame_of a \<noteq> frame_of virt" using a m unfolding mappable_def by metis
    then show ?thesis using tr ok a by (auto simp: paging_ok_def)
  qed
  ultimately have "paging_ok ?u" using on dru unfolding paging_ok_def by (simp add: du)
  then show ?thesis using u tr by (intro exI [of _ ?u]) (simp add: mappable_def)
qed

fun map_requests :: "(addr \<times> addr) list \<Rightarrow> paging \<Rightarrow> paging option" where
  "map_requests [] t = Some t"
| "map_requests ((virt, phys) # reqs) t = do { u \<leftarrow> paging_map_page virt phys t; map_requests reqs u }"

text \<open>The abstract space: the last request for a page decides where it is.\<close>

definition requested :: "(addr \<times> addr) list \<Rightarrow> addr \<Rightarrow> addr option" where
  "requested reqs v = map_of (rev (map (\<lambda>(w, p). (frame_of w, frame_of p)) reqs)) (frame_of v)"

lemma requested_simps:
  "requested [] v = None"
  "requested ((w, p) # reqs) v = (case requested reqs v of Some q \<Rightarrow> Some q | None \<Rightarrow> if frame_of v = frame_of w then Some (frame_of p) else None)"
  by (auto simp: requested_def map_add_def split: option.splits)

lemma mapped_ok:
  assumes "linked s" and "mapped s t"
  shows "paging_ok t"
proof -
  have l: "linked t" using assms by (simp add: linked_def mapped_def)
  have "\<exists>u. translate t a = Some (a, u)" if "a \<in> {pg_directory t, pg_first t, pg_heap_table t}" for a
    using that l walk_mapped [OF assms, of a] by (auto simp: linked_def)
  moreover have "dir_entry t = dir_entry s" using assms(2) by (simp add: fun_eq_iff dir_entry_def mapped_def)
  ultimately show ?thesis using assms(2) l unfolding paging_ok_def by (auto simp: mapped_def)
qed

lemma map_pages_space:
  assumes "paging_ok t" and "\<forall>(v, p) \<in> set reqs. mappable t v"
  shows "\<exists>u. map_requests reqs t = Some u \<and> paging_ok u
    \<and> (\<forall>v. translate u v = (case requested reqs v of Some p \<Rightarrow> Some (p OR (v AND 0xFFF), False) | None \<Rightarrow> translate t v))"
  using assms
proof (induction reqs arbitrary: t)
  case (Cons req reqs)
  obtain virt phys where r: "req = (virt, phys)" by (cases req)
  obtain t1 where t1: "paging_map_page virt phys t = Some t1" "paging_ok t1" "\<And>v. mappable t1 v = mappable t v"
    "\<And>v. translate t1 v = (if frame_of v = frame_of virt then Some (frame_of phys OR (v AND 0xFFF), False) else translate t v)"
    using map_page_step [OF Cons.prems(1), of virt phys] Cons.prems(2) r by auto
  have "\<forall>(v, p) \<in> set reqs. mappable t1 v" using Cons.prems(2) t1(3) by auto
  then obtain u where u: "map_requests reqs t1 = Some u" "paging_ok u"
    "\<And>v. translate u v = (case requested reqs v of Some p \<Rightarrow> Some (p OR (v AND 0xFFF), False) | None \<Rightarrow> translate t1 v)"
    using Cons.IH [OF t1(2)] by blast
  then show ?case by (intro exI [of _ u]) (simp add: r t1(1,4) requested_simps split: option.split)
qed (simp add: requested_simps)

text \<open>C33.  \<^verbatim>\<open>paging_map_page\<close> for pages of the first 4 MiB and of the 4 MiB from 0xC0000000, other than the pages of the
  tables themselves: however many are mapped after \<^verbatim>\<open>paging_init\<close>, an address translates as the last request
  for its page says, for the kernel only, and as before when there was none.
\<close>

theorem paging_map_refines:
  assumes "linked s" and "paging_init s = Some t" and "\<not> pg_on s" and "\<not> se_ready (pg_log s) \<or> 70 \<le> empties (pg_log s)"
    and "\<forall>(v, p) \<in> set reqs. mappable t v"
  shows "\<exists>u. map_requests reqs t = Some u
    \<and> (\<forall>v. translate u v = (case requested reqs v of Some p \<Rightarrow> Some (p OR (v AND 0xFFF), False) | None \<Rightarrow> translate t v))"
proof -
  have "mapped s t" using paging_init_mapped [OF assms(1,3,4)] assms(2) by auto
  from map_pages_space [OF mapped_ok [OF assms(1) this] assms(5)] show ?thesis by blast
qed

text \<open>The heap's window grown by a page, and a page of the first 4 MiB moved.\<close>

lemma paging_map_refines_witness:
  "\<exists>t u. paging_init demo_paging = Some t \<and> map_requests [(0xC0100000, 0x500000), (0x200000, 0x700123)] t = Some u
    \<and> translate u 0xC0100004 = Some (0x500004, False) \<and> translate u 0x200010 = Some (0x700010, False)
    \<and> translate u 0x201000 = translate t 0x201000"
proof -
  have log: "\<not> se_ready (pg_log demo_paging) \<or> 70 \<le> empties (pg_log demo_paging)" using demo_linked(3) by simp
  obtain t where t: "paging_init demo_paging = Some t" "mapped demo_paging t"
    using paging_init_mapped [OF demo_linked(1,2) log] by blast
  have "pg_directory t = 0x108000" "pg_first t = 0x109000" "pg_heap_table t = 0x10A000"
    using t(2) by (simp_all add: mapped_def demo_paging_def)
  then have m: "\<forall>(v, p) \<in> set [(0xC0100000, 0x500000), (0x200000, 0x700123 :: u32)]. mappable t v"
    by (simp add: mappable_def frame_of_def)
  obtain u where u: "map_requests [(0xC0100000, 0x500000), (0x200000, 0x700123)] t = Some u"
      "\<And>v. translate u v = (case requested [(0xC0100000, 0x500000), (0x200000, 0x700123)] v of
         Some p \<Rightarrow> Some (p OR (v AND 0xFFF), False) | None \<Rightarrow> translate t v)"
    using paging_map_refines [OF demo_linked(1) t(1) demo_linked(2) log m] by blast
  show ?thesis using t(1) u(1) by (auto simp: u(2) requested_def frame_of_def)
qed

subsection \<open>A page that needs a table of its own\<close>

text \<open>Only the three tables matter for the translation.\<close>

definition tables :: "paging \<Rightarrow> addr set" where
  "tables t = {pg_directory t, pg_first t, pg_heap_table t}"

lemma translate_except:
  assumes "paging_ok t" and "k < 1024" and "dir_index v \<noteq> k"
    and "\<And>p. frame_of p \<in> tables t \<Longrightarrow> p \<noteq> word_at (pg_directory t) k \<Longrightarrow> r p = pg_ram t p"
  shows "walk r (pg_directory t) v = translate t v"
proof -
  have l: "linked t" and on: "pg_on t" "pg_cr3 t = pg_directory t"
    and dr: "\<And>i. i < 1024 \<Longrightarrow> pg_ram t (word_at (pg_directory t) i) = dir_entry t i" using assms(1) by (simp_all add: paging_ok_def)
  have ad: "aligned (pg_directory t)" using l by (simp add: linked_def)
  have "word_at (pg_directory t) (dir_index v) \<noteq> word_at (pg_directory t) k" using assms(2,3) ad by (simp add: word_at_eq)
  then have d: "r (word_at (pg_directory t) (dir_index v)) = dir_entry t (dir_index v)"
    using assms(4) dr word_at_frame [OF ad index_bound(1)] by (simp add: tables_def)
  have "r (word_at (frame_of (dir_entry t (dir_index v))) (table_index v))
      = pg_ram t (word_at (frame_of (dir_entry t (dir_index v))) (table_index v))" if "dir_entry t (dir_index v) AND PAGE_PRESENT \<noteq> 0"
  proof (rule assms(4))
    have f: "frame_of (dir_entry t (dir_index v)) \<in> {pg_first t, pg_heap_table t}"
      using dir_entry_table [OF l index_bound(1) that] by auto
    then show "frame_of (word_at (frame_of (dir_entry t (dir_index v))) (table_index v)) \<in> tables t"
      using word_at_frame [OF aligned_frame(1) index_bound(2)] by (auto simp: tables_def)
    show "word_at (frame_of (dir_entry t (dir_index v))) (table_index v) \<noteq> word_at (pg_directory t) k"
      using f l assms(2) ad aligned_frame(1) by (auto simp: word_at_eq linked_def)
  qed
  then show ?thesis using on d dr by (simp add: translate_def walk_def Let_def aligned_frame(2) [OF ad])
qed

lemma translate_tables:
  assumes "paging_ok t" and "\<And>p. frame_of p \<in> tables t \<Longrightarrow> r p = pg_ram t p"
  shows "translate (t\<lparr>pg_ram := r\<rparr>) v = translate t v"
proof -
  obtain k where "k < (1024 :: nat)" "dir_index v \<noteq> k" by (metis one_less_numeral_iff semiring_norm(76) zero_less_numeral zero_neq_one)
  from translate_except [OF assms(1) this, of r] assms show ?thesis
    by (simp add: translate_def paging_ok_def)
qed

lemma new_table_address: "fst (kmalloc 4096 kheap_boot) = 0xC000000C"
  by code_simp

lemma word_at_index: "j < 1024 \<Longrightarrow> dir_index (word_at 0xC000000C j) = 0x300"
  by (simp add: index_unat word_at_def unat_word_ariths unat_of_nat)

text \<open>The first table \<^verbatim>\<open>kmalloc\<close> hands out, word by word.\<close>

lemma new_table_words:
  assumes "linked s" and "mapped s t" and "j < 1024"
  shows "translate t (word_at 0xC000000C j) = Some (word_at 0x40000C j, False)"
    and "unat (word_at 0x40000C j) = 4194316 + 4 * j" and "frame_of (word_at 0x40000C j) \<notin> tables t"
proof -
  have k: "unat (4 * of_nat j :: u32) = 4 * j" using assms(3) by (simp add: unat_word_ariths unat_of_nat)
  have v: "unat (word_at 0xC000000C j) = 3221225484 + 4 * j" using assms(3) k by (simp add: word_at_def unat_word_ariths)
  show p: "unat (word_at 0x40000C j) = 4194316 + 4 * j" using assms(3) k by (simp add: word_at_def unat_word_ariths)
  have "word_at 0xC000000C j - 0xC0000000 + 0x400000 = word_at 0x40000C j" by (simp add: word_at_def)
  then show "translate t (word_at 0xC000000C j) = Some (word_at 0x40000C j, False)"
    unfolding walk_mapped [OF assms(1,2)] using v assms(3) by (simp add: word_less_nat_alt word_le_nat_alt)
  have "4194304 \<le> unat (frame_of (word_at 0x40000C j))" using p assms(3) by (simp add: frame_of_unat)
  then show "frame_of (word_at 0x40000C j) \<notin> tables t"
    using assms(1,2) by (auto simp: tables_def linked_def mapped_def word_less_nat_alt)
qed

lemma new_table_cleared:
  assumes "linked s" and "mapped s t"
  shows "\<exists>r. for_loop 0 1024 (\<lambda>i. pg_store (word_at 0xC000000C i) 0) (t\<lparr>pg_heap := h\<rparr>) = Some (t\<lparr>pg_heap := h, pg_ram := r\<rparr>)
    \<and> (\<forall>p. frame_of p \<in> tables t \<longrightarrow> r p = pg_ram t p) \<and> (\<forall>p. p \<notin> word_at 0x40000C ` {0..<1024} \<longrightarrow> r p = pg_ram t p)"
proof -
  let ?t = "t\<lparr>pg_heap := h\<rparr>"
  let ?rams = "{r. \<forall>p. frame_of p \<in> tables t \<longrightarrow> r p = pg_ram t p}"
  note nw = new_table_words [OF assms] and ok = mapped_ok [OF assms]
  have tt: "translate (?t\<lparr>pg_ram := r\<rparr>) v = translate t v" if "r \<in> ?rams" for r v
    using translate_tables [OF ok, of r v] that ok by (simp add: translate_def paging_ok_def)
  have inj: "inj_on (word_at 0x40000C) {0..<0 + 1024}"
  proof (rule inj_onI)
    fix x y :: nat
    assume x: "x \<in> {0..<0 + 1024}" and y: "y \<in> {0..<0 + 1024}" and e: "word_at 0x40000C x = word_at 0x40000C y"
    have "4194316 + 4 * x = unat (word_at 0x40000C x)" by (rule nw(2) [symmetric]) (use x in simp)
    also have "\<dots> = unat (word_at 0x40000C y)" by (simp only: e)
    also have "\<dots> = 4194316 + 4 * y" by (rule nw(2)) (use y in simp)
    finally show "x = y" by simp
  qed
  have "\<exists>r. for_loop 0 1024 (\<lambda>i. pg_store (word_at 0xC000000C i) 0) ?t = Some (?t\<lparr>pg_ram := r\<rparr>) \<and> r \<in> ?rams
    \<and> (\<forall>j. 0 \<le> j \<and> j < 0 + 1024 \<longrightarrow> r (word_at 0x40000C j) = 0) \<and> (\<forall>p. p \<notin> word_at 0x40000C ` {0..<0 + 1024} \<longrightarrow> r p = pg_ram ?t p)"
    by (rule store_table [OF _ _ inj]) (use nw tt in auto)
  then show ?thesis by auto
qed

text \<open>The words the new table is looked up in are none of those the code writes.\<close>

lemma foreign_word:
  assumes "linked s" and "mapped s t" and "j < 1024"
  shows "frame_of (word_at 0xC0000000 j) = 0xC0000000" and "0xC0000000 \<notin> tables t"
    and "word_at 0xC0000000 j \<notin> word_at 0x40000C ` {0..<1024}"
proof -
  have al: "aligned 0xC0000000" by (simp add: aligned_def)
  show "frame_of (word_at 0xC0000000 j) = 0xC0000000" using word_at_frame [OF al assms(3)] by simp
  show "0xC0000000 \<notin> tables t" using assms(1,2) by (auto simp: linked_def mapped_def tables_def word_less_nat_alt)
  show "word_at 0xC0000000 j \<notin> word_at 0x40000C ` {0..<1024}"
  proof
    assume "word_at 0xC0000000 j \<in> word_at 0x40000C ` {0..<1024}"
    then obtain i where i: "i < 1024" "word_at 0xC0000000 j = word_at 0x40000C i" by (elim imageE) simp
    have "3221225472 + 4 * j = unat (word_at 0x40000C i)" using word_at_unat [OF al assms(3)] i(2) by simp
    then show False using new_table_words(2) [OF assms(1,2) i(1)] i(1) by simp
  qed
qed

text \<open>A page whose directory entry is empty: \<^verbatim>\<open>paging_map_page\<close> returns, but it takes the virtual address of the
  table it allocated for a physical one.  The whole 4 MiB are then translated by what happens to be in the
  physical memory from 0xC0000000 on, whichever frame was asked for, and are open to user mode.
\<close>

theorem paging_new_table_lost:
  assumes "linked s" and "paging_init s = Some t" and "\<not> pg_on s" and "\<not> se_ready (pg_log s) \<or> 70 \<le> empties (pg_log s)"
    and "pg_heap s = kheap_boot" and "dir_index virt \<notin> {0, 0x300}"
  shows "\<exists>u. paging_map_page virt phys t = Some u \<and> (\<forall>v. translate u v =
    (if dir_index v = dir_index virt then
       (let e = pg_ram s (word_at 0xC0000000 (table_index v)) in
        if e AND PAGE_PRESENT = 0 then None else Some (frame_of e OR (v AND 0xFFF), e AND PAGE_USER \<noteq> 0))
     else translate t v))"
proof -
  have m: "mapped s t" using paging_init_mapped [OF assms(1,3,4)] assms(2) by auto
  note ok = mapped_ok [OF assms(1) m]
  let ?d = "pg_directory t" let ?i = "dir_index virt" let ?j = "table_index virt"
  have ad: "aligned ?d" and l: "linked t" and on: "pg_on t" "pg_cr3 t = ?d" using ok by (simp_all add: paging_ok_def linked_def)
  have dr: "pg_ram t (word_at ?d i) = dir_entry t i" if "i < 1024" for i using ok that by (simp add: paging_ok_def)
  obtain b where b: "translate t ?d = Some (?d, b)" using ok by (auto simp: paging_ok_def)
  note dt = translate_word [OF on(1) ad _ b]
  have ld: "pg_load (word_at ?d ?i) t = Some 0" using assms(6) dt [of ?i] by (simp add: pg_load_def dr dir_entry_def)
  obtain h where h: "kmalloc 4096 (pg_heap t) = (0xC000000C, h)"
  proof -
    have "pg_heap t = kheap_boot" using m assms(5) by (simp add: mapped_def)
    then have "kmalloc 4096 (pg_heap t) = (0xC000000C, snd (kmalloc 4096 kheap_boot))"
      using new_table_address by (simp add: prod_eq_iff)
    then show ?thesis using that by blast
  qed
  let ?t = "t\<lparr>pg_heap := h\<rparr>"
  note nw = new_table_words [OF assms(1) m] and fw = foreign_word [OF assms(1) m index_bound(2)]
  obtain r where r: "for_loop 0 1024 (\<lambda>i. pg_store (word_at 0xC000000C i) 0) ?t = Some (?t\<lparr>pg_ram := r\<rparr>)"
      "\<And>p. frame_of p \<in> tables t \<Longrightarrow> r p = pg_ram t p" "\<And>p. p \<notin> word_at 0x40000C ` {0..<1024} \<Longrightarrow> r p = pg_ram t p"
    using new_table_cleared [OF assms(1) m, of h] by auto
  let ?r1 = "r(word_at ?d ?i := 0xC000000F)"
  have st: "pg_store (word_at ?d ?i) 0xC000000F (?t\<lparr>pg_ram := r\<rparr>) = Some (?t\<lparr>pg_ram := ?r1\<rparr>)"
    using translate_tables [OF ok, of r "word_at ?d ?i"] r(2) dt [of ?i] on by (simp add: pg_store_def translate_def)
  let ?t1 = "?t\<lparr>pg_ram := ?r1, pg_cr3 := ?d\<rparr>"
  have r1: "?r1 p = pg_ram t p" if "frame_of p \<in> tables t" "p \<noteq> word_at ?d ?i" for p using r(2) that by auto
  have "dir_index (word_at 0xC000000C ?j) = 0x300"
    using nw(1) [of ?j] word_at_index [of ?j] by simp
  then have "dir_index (word_at 0xC000000C ?j) \<noteq> ?i" using assms(6) by auto
  from translate_except [OF ok index_bound(1) this, of ?r1, OF r1] have "translate ?t1 (word_at 0xC000000C ?j) = Some (word_at 0x40000C ?j, False)"
    using nw(1) [of ?j] on by (simp add: translate_def)
  then have st2: "pg_store (word_at 0xC000000C ?j) x ?t1 = Some (?t1\<lparr>pg_ram := ?r1(word_at 0x40000C ?j := x)\<rparr>)" for x
    by (simp add: pg_store_def)
  let ?q = "?r1(word_at 0x40000C ?j := frame_of phys OR 3)"
  let ?u = "?t1\<lparr>pg_ram := ?q\<rparr>"
  have u: "paging_map_page virt phys t = Some ?u"
    using h r(1) st st2 by (simp add: paging_map_page_def ld frame_and flags)
  have qt: "?q p = pg_ram t p" if "frame_of p \<in> tables t" "p \<noteq> word_at ?d ?i" for p
    using r1 [OF that] nw(3) [of ?j] that by auto
  have "translate ?u v = (if dir_index v = ?i then
       (let e = pg_ram s (word_at 0xC0000000 (table_index v)) in
        if e AND PAGE_PRESENT = 0 then None else Some (frame_of e OR (v AND 0xFFF), e AND PAGE_USER \<noteq> 0))
     else translate t v)" for v
  proof (cases "dir_index v = ?i")
    case True
    have "word_at 0xC0000000 (table_index v) \<noteq> word_at 0x40000C ?j"
      using fw(3) [of v] index_bound(2) [of virt] by (metis atLeastLessThan_iff image_eqI zero_le)
    then have "?q (word_at 0xC0000000 (table_index v)) = pg_ram t (word_at 0xC0000000 (table_index v))"
      using r(3) [OF fw(3)] fw(1) [of v] fw(2) word_at_frame [OF ad index_bound(1) [of virt]] by (auto simp: tables_def)
    also have "\<dots> = pg_ram s (word_at 0xC0000000 (table_index v))"
      using m fw(1,2) by (auto simp: mapped_def tables_def)
    finally have e: "?q (word_at 0xC0000000 (table_index v)) = pg_ram s (word_at 0xC0000000 (table_index v))" .
    have pde: "?q (word_at ?d ?i) = 0xC000000F" "frame_of 0xC000000F = 0xC0000000"
      using nw(3) [of ?j] word_at_frame [OF ad index_bound(1) [of virt]] by (auto simp: tables_def frame_of_def)
    show ?thesis using on True pde e
      by (simp add: translate_def walk_def Let_def aligned_frame(2) [OF ad] PAGE_PRESENT_def PAGE_USER_def del: fun_upd_apply)
  next
    case False
    then show ?thesis using translate_except [OF ok index_bound(1) False, of ?q, OF qt] on by (simp add: translate_def)
  qed
  then show ?thesis using u by blast
qed

text \<open>A page for the first process at 0x08048000: wherever it is asked for, the entry read is whatever the memory held.\<close>

lemma paging_new_table_lost_witness:
  "\<exists>t u. paging_init demo_paging = Some t \<and> paging_map_page 0x08048000 0x600000 t = Some u
    \<and> translate u 0x08048010 = Some (0xFFFFF010, True) \<and> translate u 0xC0000010 = Some (0x400010, False)"
proof -
  have log: "\<not> se_ready (pg_log demo_paging) \<or> 70 \<le> empties (pg_log demo_paging)" using demo_linked(3) by simp
  obtain t where t: "paging_init demo_paging = Some t" "mapped demo_paging t"
    using paging_init_mapped [OF demo_linked(1,2) log] by blast
  have d: "dir_index 0x08048000 = 32" "dir_index 0x08048010 = 32" "dir_index 0xC0000010 = 0x300" by (simp_all add: index_unat)
  have r: "pg_ram demo_paging = (\<lambda>_. 0xFFFFFFFF)" "pg_heap demo_paging = kheap_boot" by (simp_all add: demo_paging_def)
  obtain u where u: "paging_map_page 0x08048000 0x600000 t = Some u" "\<And>v. translate u v =
    (if dir_index v = 32 then
       (let e = pg_ram demo_paging (word_at 0xC0000000 (table_index v)) in
        if e AND PAGE_PRESENT = 0 then None else Some (frame_of e OR (v AND 0xFFF), e AND PAGE_USER \<noteq> 0))
     else translate t v)"
    using paging_new_table_lost [OF demo_linked(1) t(1) demo_linked(2) log r(2), where virt = "0x08048000" and phys = "0x600000"]
    by (auto simp: d)
  show ?thesis using t(1) u(1) walk_mapped [OF demo_linked(1) t(2), of "0xC0000010"]
    by (simp add: u(2) d r Let_def PAGE_PRESENT_def PAGE_USER_def frame_of_def)
qed

end
