(* ===== verification/Splash.thy ===== *)
theory Splash
  imports Debug
begin

text \<open>
  The splash screen, \<^verbatim>\<open>kernel/splash.c\<close>.  It writes to the screen, the text memory at 0xB8000, without a cursor; its
  messages go through \<open>Debug\<close> to the text memory of the console, wherever that is.
\<close>

subsection \<open>Writing to the text memory\<close>

text \<open>The character is signed: one from 128 on sets all bits above it.\<close>

definition text_cell :: "u8 \<Rightarrow> u8 \<Rightarrow> u16" where
  "text_cell color c = ucast ((push_bit 8 (ucast color) OR scast c) :: u32)"

definition vga_text_putchar :: "int \<Rightarrow> int \<Rightarrow> u8 \<Rightarrow> u8 \<Rightarrow> u16 list \<Rightarrow> u16 list option" where
  "vga_text_putchar x y c color b =
     (if 0 \<le> x \<and> x < 80 \<and> 0 \<le> y \<and> y < 25 then set_cell (nat (y * 80 + x)) (text_cell color c) b else Some b)"

fun vga_text_putstr :: "int \<Rightarrow> int \<Rightarrow> cstr \<Rightarrow> u8 \<Rightarrow> u16 list \<Rightarrow> u16 list option" where
  "vga_text_putstr x y [] color b = Some b"
| "vga_text_putstr x y (c # cs) color b =
     (if x < 80 then do { b1 \<leftarrow> vga_text_putchar x y c color b; vga_text_putstr (x + 1) y cs color b1 } else Some b)"

definition vga_text_clear :: "u8 \<Rightarrow> u16 list \<Rightarrow> u16 list option" where
  "vga_text_clear color b = for_loop 0 (80 * 25) (\<lambda>i. set_cell i (text_cell color 32)) b"

record splash =
  sp_vga :: "u16 list"
  sp_dbg :: dbg

definition on_vga :: "(u16 list \<Rightarrow> u16 list option) \<Rightarrow> splash \<Rightarrow> splash option" where
  "on_vga f s = map_option (\<lambda>b. s\<lparr>sp_vga := b\<rparr>) (f (sp_vga s))"

definition splash_print :: "u32 \<Rightarrow> u32 \<Rightarrow> string \<Rightarrow> string \<Rightarrow> splash \<Rightarrow> splash option" where
  "splash_print level line func msg s =
     map_option (\<lambda>d. s\<lparr>sp_dbg := d\<rparr>) (debug_print level (asc ''splash.c'') line (asc func) (asc msg) [] (sp_dbg s))"

subsection \<open>The screen\<close>

text \<open>The texts of the screen in their order, with column, line and colour.\<close>

definition splash_texts :: "(int \<times> int \<times> cstr \<times> u8) list" where
  "splash_texts =
    [(25, 2, asc ''================================================='', 0x0F),
     (25, 3, asc ''                RETAOS v1.0'', 0x0E),
     (25, 4, asc ''================================================='', 0x0F),
     (25, 5, asc '''', 0x0F),
     (20, 7, asc ''RRRRR   EEEEE  TTTTT   AAAAA   OOOOO00   SSSSSSS'', 0x0C),
     (20, 8, asc ''R   R   E        T     A   A   O     O  S'', 0x0A),
     (20, 9, asc ''RRRRR   EEEE     T     AAAAA   O     O  SSSSS'', 0x0B),
     (20, 10, asc ''R   R   E        T     A   A   O     O      S'', 0x0D),
     (20, 11, asc ''R   R   EEEEE    T     A   A    OOOOO  SSSSS'', 0x0E),
     (25, 13, asc '''', 0x0F),
     (25, 14, asc ''        Operating System Kernel'', 0x0B),
     (25, 15, asc ''        Initializing...'', 0x0A),
     (25, 16, asc '''', 0x0F),
     (20, 18, asc ''Progress: ['', 0x0F),
     (65, 18, asc ''] 0%'', 0x0F)]"

fun put_texts :: "(int \<times> int \<times> cstr \<times> u8) list \<Rightarrow> u16 list \<Rightarrow> u16 list option" where
  "put_texts [] b = Some b"
| "put_texts ((x, y, t, col) # ts) b = do { b1 \<leftarrow> vga_text_putstr x y t col b; put_texts ts b1 }"

definition splash_show :: "splash \<Rightarrow> splash option" where
  "splash_show s = do {
     s1 \<leftarrow> splash_print DEBUG_LEVEL_INFO 69 ''splash_show'' ''=== Starting splash screen initialization ==='' s;
     s2 \<leftarrow> on_vga (vga_text_clear 0x0F) s1;
     s3 \<leftarrow> on_vga (put_texts splash_texts) s2;
     splash_print DEBUG_LEVEL_DEBUG 96 ''splash_show'' ''Splash screen displayed successfully'' s3 }"

text \<open>The digits of the percentage: last one first, then turned around in place.\<close>

fun percent_digits :: "nat \<Rightarrow> cstr" where
  "percent_digits temp = (if temp = 0 then [] else of_nat (48 + temp mod 10) # percent_digits (temp div 10))"

definition swap_ends :: "nat \<Rightarrow> cstr \<Rightarrow> cstr option" where
  "swap_ends i b = do {
     t \<leftarrow> get_cell i b;
     u \<leftarrow> get_cell (length b - 1 - i) b;
     b1 \<leftarrow> set_cell i u b;
     set_cell (length b - 1 - i) t b1 }"

definition percent_str :: "nat \<Rightarrow> cstr option" where
  "percent_str percent = do {
     let ds = (if percent = 0 then [48] else percent_digits percent);
     b \<leftarrow> for_loop 0 (length ds div 2) swap_ends ds;
     Some (b @ asc ''%'') }"

definition clamp_percent :: "int \<Rightarrow> nat" where
  "clamp_percent percent = nat (if percent < 0 then 0 else if 100 < percent then 100 else percent)"

definition splash_update_progress :: "int \<Rightarrow> u16 list \<Rightarrow> u16 list option" where
  "splash_update_progress percent0 b = (let percent = clamp_percent percent0; filled = percent * 30 div 100 in do {
     b1 \<leftarrow> for_loop 0 30 (\<lambda>i. if i < filled then vga_text_putchar (35 + int i) 18 0x23 0x0A else vga_text_putchar (35 + int i) 18 0x20 0x08) b;
     t \<leftarrow> percent_str percent;
     vga_text_putstr 65 18 t 0x0F b1 })"

definition splash_hide :: "splash \<Rightarrow> splash option" where
  "splash_hide s = on_vga (vga_text_clear 0x07) s"

subsection \<open>Waiting for a key\<close>

text \<open>
  \<open>ps\<close> are the results of the polls of the keyboard and the serial port, none when it ends; the serial port is asked only
  when the keyboard has no ENTER.  Ten million polls without one are the end of the wait.
\<close>

definition enter_poll :: "poll \<Rightarrow> bool" where
  "enter_poll p \<longleftrightarrow> fst p = 10 \<or> snd p = 13 \<or> snd p = 10"

definition wait_for_keypress :: "poll list \<Rightarrow> splash \<Rightarrow> splash option" where
  "wait_for_keypress ps s = do {
     s1 \<leftarrow> on_vga (vga_text_putstr 20 24 (asc ''Waiting for key press... Press ENTER!'') 0x0F) s;
     s2 \<leftarrow> (if list_ex enter_poll (take 10000000 ps) then Some s1
        else on_vga (vga_text_putstr 20 24 (asc ''No keypress; auto-continue...        '') 0x0E) s1);
     on_vga (vga_text_putstr 20 24 (asc ''Continuing boot...                     '') 0x0A) s2 }"

definition complete_texts :: "(int \<times> int \<times> cstr \<times> u8) list" where
  "complete_texts = [(20, 20, asc ''System initialized successfully!'', 0x0E), (20, 21, asc ''RetaOS is now running!'', 0x0A),
     (20, 22, asc ''Press ENTER to toggle GUI mode'', 0x0B), (20, 23, asc ''Press ENTER to continue...'', 0x0F)]"

text \<open>It ends with the call of \<^verbatim>\<open>kernel_continue_after_splash\<close>.\<close>

definition splash_show_complete :: "poll list \<Rightarrow> splash \<Rightarrow> splash option" where
  "splash_show_complete ps s = do {
     s1 \<leftarrow> on_vga (put_texts complete_texts) s;
     s2 \<leftarrow> splash_print DEBUG_LEVEL_INFO 155 ''splash_show_complete'' ''Boot completion message displayed'' s1;
     s3 \<leftarrow> wait_for_keypress ps s2;
     s4 \<leftarrow> splash_hide s3;
     splash_print DEBUG_LEVEL_INFO 167 ''splash_show_complete'' ''User pressed key, continuing to scheduler'' s4 }"

subsection \<open>Where the texts go\<close>

text \<open>The cells \<open>cs\<close> from position \<open>i\<close> on.\<close>

definition put_cells :: "nat \<Rightarrow> u16 list \<Rightarrow> u16 list \<Rightarrow> u16 list" where
  "put_cells i cs b = take i b @ cs @ drop (i + length cs) b"

lemma put_cells_length: "i + length cs \<le> length b \<Longrightarrow> length (put_cells i cs b) = length b"
  by (simp add: put_cells_def)

lemma putstr_cells:
  assumes "0 \<le> x" "0 \<le> y" "y < 25" "length b = 2000" "x + int (length t) \<le> 80"
  shows "vga_text_putstr x y t col b = Some (put_cells (nat (y * 80 + x)) (map (text_cell col) t) b)"
  using assms
proof (induction t arbitrary: x b)
  case (Cons c t)
  let ?i = "nat (y * 80 + x)"
  have x: "x < 80" using Cons.prems(5) by simp
  have i: "?i < 2000" using Cons.prems(1-3) x by simp
  have n: "nat (y * 80 + (x + 1)) = Suc ?i" using Cons.prems(1,2) by simp
  have "vga_text_putstr x y (c # t) col b = vga_text_putstr (x + 1) y t col (b[?i := text_cell col c])"
    using x i Cons.prems by (simp add: vga_text_putchar_def set_cell_def)
  also have "\<dots> = Some (put_cells (Suc ?i) (map (text_cell col) t) (b[?i := text_cell col c]))"
    unfolding n [symmetric] by (rule Cons.IH) (use Cons.prems in simp_all)
  also have "put_cells (Suc ?i) (map (text_cell col) t) (b[?i := text_cell col c]) = put_cells ?i (map (text_cell col) (c # t)) b"
    using i Cons.prems(4) by (simp add: put_cells_def take_Suc_conv_app_nth)
  finally show ?case .
qed (simp add: put_cells_def)

text \<open>A window of cells of the screen.\<close>

lemma window_other:
  assumes "length b = 2000" "i + length cs \<le> j \<or> j + n \<le> i" "i + length cs \<le> 2000"
  shows "take n (drop j (put_cells i cs b)) = take n (drop j b)"
proof (rule nth_equalityI)
  show "length (take n (drop j (put_cells i cs b))) = length (take n (drop j b))" using assms by (simp add: put_cells_length)
  fix k assume k: "k < length (take n (drop j (put_cells i cs b)))"
  then have "k < n \<and> k < 2000 - j" using assms by (simp add: put_cells_length)
  then have "k < n" "j + k < 2000" by linarith+
  then show "take n (drop j (put_cells i cs b)) ! k = take n (drop j b) ! k"
    using assms by (auto simp: put_cells_def nth_append)
qed

definition text_ok :: "int \<times> int \<times> cstr \<times> u8 \<Rightarrow> bool" where
  "text_ok t = (case t of (x, y, cs, col) \<Rightarrow> 0 \<le> x \<and> 0 \<le> y \<and> y < 25 \<and> x + int (length cs) \<le> 80)"

fun put_all :: "(int \<times> int \<times> cstr \<times> u8) list \<Rightarrow> u16 list \<Rightarrow> u16 list" where
  "put_all [] b = b"
| "put_all ((x, y, t, col) # ts) b = put_all ts (put_cells (nat (y * 80 + x)) (map (text_cell col) t) b)"

lemma put_texts_cells:
  "\<forall>t\<in>set ts. text_ok t \<Longrightarrow> length b = 2000 \<Longrightarrow> put_texts ts b = Some (put_all ts b) \<and> length (put_all ts b) = 2000"
proof (induction ts arbitrary: b)
  case (Cons t ts)
  obtain x y cs col where t: "t = (x, y, cs, col)" by (cases t) auto
  have ok: "0 \<le> x" "0 \<le> y" "y < 25" "x + int (length cs) \<le> 80" using Cons.prems(1) by (simp_all add: t text_ok_def)
  have "length (put_cells (nat (y * 80 + x)) (map (text_cell col) cs) b) = 2000"
    using ok Cons.prems(2) by (subst put_cells_length) simp_all
  then show ?case using Cons putstr_cells [OF ok(1-3) Cons.prems(2) ok(4)] by (simp add: t)
qed simp

lemma put_all_window:
  assumes "\<forall>t\<in>set ts. text_ok t \<and> fst (snd t) \<noteq> 18" "length b = 2000" "1440 \<le> j" "j + n \<le> 1520"
  shows "take n (drop j (put_all ts b)) = take n (drop j b)"
  using assms(1,2)
proof (induction ts arbitrary: b)
  case (Cons t ts)
  obtain x y cs col where t: "t = (x, y, cs, col)" by (cases t) auto
  have ok: "0 \<le> x" "0 \<le> y" "y < 25" "x + int (length cs) \<le> 80" "y \<noteq> 18" using Cons.prems(1) by (simp_all add: t text_ok_def)
  let ?b = "put_cells (nat (y * 80 + x)) (map (text_cell col) cs) b"
  have l: "length ?b = 2000" using ok Cons.prems(2) by (subst put_cells_length) simp_all
  obtain i where i: "int i = y * 80 + x" using ok(1,2) by (metis add_nonneg_nonneg mult_nonneg_nonneg nonneg_int_cases zero_le_numeral)
  have "i + length cs \<le> j \<or> j + n \<le> i"
  proof (cases "y < 18")
    case True
    then have "int i + int (length cs) \<le> 1440" using ok(4) i by linarith
    then show ?thesis using assms(3) by linarith
  next
    case False
    then have "1520 \<le> int i" using ok(1,5) i by linarith
    then show ?thesis using assms(4) by linarith
  qed
  then have "nat (y * 80 + x) + length (map (text_cell col) cs) \<le> j \<or> j + n \<le> nat (y * 80 + x)" unfolding i [symmetric] by simp
  then have "take n (drop j ?b) = take n (drop j b)" using ok Cons.prems(2) by (intro window_other) simp_all
  then show ?case using Cons.IH [OF _ l] Cons.prems(1) by (simp add: t)
qed simp

lemma clear_cells: "length b = 2000 \<Longrightarrow> vga_text_clear col b = Some (replicate 2000 (text_cell col 32))"
  using fill_cells [of 0 2000 b "\<lambda>_. text_cell col 32"] by (simp add: vga_text_clear_def map_replicate_const)

subsection \<open>The progress bar\<close>

definition percent_text :: "nat \<Rightarrow> cstr" where
  "percent_text p = (if p < 10 then [of_nat (48 + p)] else if p < 100 then [of_nat (48 + p div 10), of_nat (48 + p mod 10)]
     else asc ''100'') @ asc ''%''"

lemma percent_str_text: "p \<le> 100 \<Longrightarrow> percent_str p = Some (percent_text p)"
proof -
  assume p: "p \<le> 100"
  consider "p = 0" | (one) "0 < p" "p < 10" | (two) "10 \<le> p" "p < 100" | "p = 100" using p by linarith
  then show ?thesis
  proof cases
    case one
    then show ?thesis by (simp add: percent_str_def percent_text_def)
  next
    case two
    then have "p div 10 \<noteq> 0" "p div 10 div 10 = 0" "p div 10 mod 10 = p div 10" by simp_all
    then have "percent_digits p = [of_nat (48 + p mod 10), of_nat (48 + p div 10)]" using two by simp
    then show ?thesis using two by (simp add: percent_str_def percent_text_def swap_ends_def get_cell_def set_cell_def Let_def)
  qed (simp_all add: percent_str_def percent_text_def swap_ends_def get_cell_def set_cell_def asc_def Let_def)
qed

definition bar_cell :: "nat \<Rightarrow> nat \<Rightarrow> u16" where
  "bar_cell p i = (if i < p * 30 div 100 then text_cell 0x0A 0x23 else text_cell 0x08 0x20)"

lemma update_cells:
  assumes "length b = 2000"
  shows "splash_update_progress percent b = Some (put_cells 1505 (map (text_cell 0x0F) (percent_text (clamp_percent percent)))
    (put_cells 1475 (map (bar_cell (clamp_percent percent)) [0..<30]) b))"
proof -
  let ?p = "clamp_percent percent"
  have p: "?p \<le> 100" by (auto simp: clamp_percent_def nat_le_iff)
  have "(if i < ?p * 30 div 100 then vga_text_putchar (35 + int i) 18 0x23 0x0A else vga_text_putchar (35 + int i) 18 0x20 0x08) c
      = set_cell (1475 + i) (bar_cell ?p i) c" if "i < 30" for i c
  proof -
    have "nat (18 * 80 + (35 + int i)) = 1475 + i" by simp
    then show ?thesis using that by (simp add: vga_text_putchar_def bar_cell_def)
  qed
  then have "for_loop 0 30 (\<lambda>i. if i < ?p * 30 div 100 then vga_text_putchar (35 + int i) 18 0x23 0x0A else vga_text_putchar (35 + int i) 18 0x20 0x08) b
      = for_loop 0 30 (\<lambda>i. set_cell (1475 + i) (bar_cell ?p i)) b" by (intro for_loop_cong) simp_all
  also have "\<dots> = Some (put_cells 1475 (map (bar_cell ?p) [0..<30]) b)" using fill_cells [of 1475 30 b "bar_cell ?p"] assms by (simp add: put_cells_def)
  finally have l: "for_loop 0 30 (\<lambda>i. if i < ?p * 30 div 100 then vga_text_putchar (35 + int i) 18 0x23 0x0A else vga_text_putchar (35 + int i) 18 0x20 0x08) b
      = Some (put_cells 1475 (map (bar_cell ?p) [0..<30]) b)" .
  have len: "length (put_cells 1475 (map (bar_cell ?p) [0..<30]) b) = 2000" using assms by (simp add: put_cells_length)
  have "length (percent_text ?p) \<le> 4" by (simp add: percent_text_def asc_def)
  then have "vga_text_putstr 65 18 (percent_text ?p) 0x0F (put_cells 1475 (map (bar_cell ?p) [0..<30]) b)
      = Some (put_cells (nat (18 * 80 + 65)) (map (text_cell 0x0F) (percent_text ?p)) (put_cells 1475 (map (bar_cell ?p) [0..<30]) b))"
    using len by (intro putstr_cells) simp_all
  moreover have "nat (18 * 80 + 65) = 1505" by simp
  ultimately show ?thesis unfolding splash_update_progress_def Let_def l percent_str_text [OF p] Option.bind_lunit by (simp only:)
qed

text \<open>The line of the bar: its label, the bar, the percentage, and what the percentage leaves of the text behind it.\<close>

definition bar_line :: "nat \<Rightarrow> u16 list" where
  "bar_line p = map (text_cell 0x0F) (asc ''Progress: ['' @ asc ''    '') @ map (bar_cell p) [0..<30]
     @ map (text_cell 0x0F) (percent_text p @ drop (length (percent_text p)) (asc ''] 0%''))"

lemma window_put:
  "j \<le> i \<Longrightarrow> i + length cs \<le> j + n \<Longrightarrow> j + n \<le> length b \<Longrightarrow> take n (drop j (put_cells i cs b)) = put_cells (i - j) cs (take n (drop j b))"
proof -
  assume a: "j \<le> i" "i + length cs \<le> j + n" "j + n \<le> length b"
  obtain d where d: "i = j + d" using a(1) le_Suc_ex by blast
  obtain X where X: "X = drop j b" by blast
  have l: "n \<le> length X" "d + length cs \<le> n" using a by (simp_all add: X d)
  have "length (take (j + d) b) = j + d" using a(3) l by (simp add: d)
  then have "drop j (put_cells i cs b) = drop j (take (j + d) b) @ cs @ drop (j + d + length cs) b" by (simp add: put_cells_def d)
  also have "\<dots> = take d X @ cs @ drop (d + length cs) X" by (simp add: X drop_take add.commute add.left_commute)
  finally have "take n (drop j (put_cells i cs b)) = take d X @ cs @ take (n - (d + length cs)) (drop (d + length cs) X)" using l by simp
  moreover have "put_cells d cs (take n X) = take d X @ cs @ take (n - (d + length cs)) (drop (d + length cs) X)"
    using l by (simp add: put_cells_def min_def drop_take)
  ultimately show ?thesis by (simp add: X d)
qed

lemma put_all_append: "put_all (a @ b) x = put_all b (put_all a x)"
  by (induction a x rule: put_all.induct) simp_all

definition rows_above :: "(int \<times> int \<times> cstr \<times> u8) list" where "rows_above = take 13 splash_texts"

lemma splash_texts_split:
  "splash_texts = rows_above @ [(20, 18, asc ''Progress: ['', 0x0F), (65, 18, asc ''] 0%'', 0x0F)]"
  "\<forall>t\<in>set rows_above. text_ok t \<and> fst (snd t) \<noteq> 18" "\<forall>t\<in>set splash_texts. text_ok t"
  by (simp_all add: rows_above_def splash_texts_def text_ok_def asc_def)

text \<open>The messages leave the screen alone and come to an end wherever the cursor of the console is.\<close>

lemma splash_print_returns:
  assumes "console_ok (db_con d)" and "cstr_ok (asc func)" and "cstr_ok (asc msg)" and "0x25 \<notin> set (asc msg)" and "line < 0x80000000"
  obtains e where "\<And>v. splash_print level line func msg \<lparr>sp_vga = v, sp_dbg = d\<rparr> = Some \<lparr>sp_vga = v, sp_dbg = e\<rparr>"
    "db_level e = db_level d" "console_ok (db_con e)"
proof -
  have f: "cstr_ok (asc ''splash.c'')" by (simp add: cstr_ok_def asc_def)
  have "console_vprintf [0] [] = Some []" by simp
  then have "console_vprintf (asc msg @ [0]) [] = Some (asc msg @ [])"
    using assms(3,4) by (intro console_vprintf_literal) (auto simp: cstr_ok_def)
  then have m: "console_vprintf (asc msg @ [0]) [] = Some (asc msg)" by simp
  obtain c where c: "console_puts (debug_text level (asc ''splash.c'') line (asc func) (asc msg)) (db_con d) = Some c" "console_ok c"
    using console_puts_ok [OF assms(1)] by blast
  let ?e = "if level < db_level d then d else d\<lparr>db_con := c\<rparr>"
  have "splash_print level line func msg \<lparr>sp_vga = v, sp_dbg = d\<rparr> = Some \<lparr>sp_vga = v, sp_dbg = ?e\<rparr>" for v
    using c(1) by (simp add: splash_print_def debug_print_says [OF f assms(2,5) m] say_def)
  then show ?thesis using that [of ?e] c(2) assms(1) by simp
qed

lemma splash_show_cells:
  assumes "length v = 2000" and "console_ok (db_con d)"
  obtains e where "splash_show \<lparr>sp_vga = v, sp_dbg = d\<rparr> = Some \<lparr>sp_vga = put_all splash_texts (replicate 2000 (text_cell 0x0F 32)), sp_dbg = e\<rparr>"
    "db_level e = db_level d" "console_ok (db_con e)"
proof -
  have t: "cstr_ok (asc ''splash_show'')" "cstr_ok (asc ''=== Starting splash screen initialization ==='')"
    "0x25 \<notin> set (asc ''=== Starting splash screen initialization ==='')" "cstr_ok (asc ''Splash screen displayed successfully'')"
    "0x25 \<notin> set (asc ''Splash screen displayed successfully'')"
    by (simp_all add: cstr_ok_def asc_def)
  have n: "(69 :: u32) < 0x80000000" "(96 :: u32) < 0x80000000" by simp_all
  obtain d1 where d1: "\<And>v. splash_print DEBUG_LEVEL_INFO 69 ''splash_show'' ''=== Starting splash screen initialization ==='' \<lparr>sp_vga = v, sp_dbg = d\<rparr>
      = Some \<lparr>sp_vga = v, sp_dbg = d1\<rparr>" "db_level d1 = db_level d" "console_ok (db_con d1)"
    using splash_print_returns [OF assms(2) t(1-3) n(1), of DEBUG_LEVEL_INFO] by blast
  obtain e where e: "\<And>v. splash_print DEBUG_LEVEL_DEBUG 96 ''splash_show'' ''Splash screen displayed successfully'' \<lparr>sp_vga = v, sp_dbg = d1\<rparr>
      = Some \<lparr>sp_vga = v, sp_dbg = e\<rparr>" "db_level e = db_level d1" "console_ok (db_con e)"
    using splash_print_returns [OF d1(3) t(1,4,5) n(2), of DEBUG_LEVEL_DEBUG] by blast
  have "put_texts splash_texts (replicate 2000 (text_cell 0x0F 32)) = Some (put_all splash_texts (replicate 2000 (text_cell 0x0F 32)))"
    using put_texts_cells [OF splash_texts_split(3), of "replicate 2000 (text_cell 0x0F 32)"] by simp
  then show ?thesis using that [of e] d1 e clear_cells [OF assms(1), of "0x0F"] by (simp add: splash_show_def on_vga_def)
qed

text \<open>After the wait the screen is cleared, whichever way the wait ends.\<close>

lemma putstr_total:
  assumes "length b = 2000" and "0 \<le> x" and "x + int (length cs) \<le> 80" and "0 \<le> y" and "y < 25"
  obtains c where "vga_text_putstr x y cs col b = Some c" "length c = 2000"
proof -
  have "nat (y * 80 + x) + length (map (text_cell col) cs) \<le> length b" using assms by simp
  then show ?thesis using that putstr_cells [OF assms(2,4,5,1,3), of col] assms(1) by (simp add: put_cells_length)
qed

lemma wait_total:
  assumes "length v = 2000"
  obtains w where "wait_for_keypress ps \<lparr>sp_vga = v, sp_dbg = d\<rparr> = Some \<lparr>sp_vga = w, sp_dbg = d\<rparr>" "length w = 2000"
proof -
  let ?k = "list_ex enter_poll (take 10000000 ps)"
  obtain b where b: "vga_text_putstr 20 24 (asc ''Waiting for key press... Press ENTER!'') 0x0F v = Some b" "length b = 2000"
    by (rule putstr_total [OF assms, of 20 "asc ''Waiting for key press... Press ENTER!''" 24 "0x0F"]) (simp_all add: asc_def)
  obtain c where c: "vga_text_putstr 20 24 (asc ''No keypress; auto-continue...        '') 0x0E b = Some c" "length c = 2000"
    by (rule putstr_total [OF b(2), of 20 "asc ''No keypress; auto-continue...        ''" 24 "0x0E"]) (simp_all add: asc_def)
  have "length (if ?k then b else c) = 2000" using b(2) c(2) by simp
  then obtain w where w: "vga_text_putstr 20 24 (asc ''Continuing boot...                     '') 0x0A (if ?k then b else c) = Some w" "length w = 2000"
    by (rule putstr_total [of _ 20 "asc ''Continuing boot...                     ''" 24 "0x0A"]) (simp_all add: asc_def)
  show ?thesis by (rule that [of w]) (use b(1) c(1) w in \<open>cases ?k; simp add: wait_for_keypress_def on_vga_def\<close>)+
qed

lemma splash_complete_clears:
  assumes "length v = 2000" and "console_ok (db_con d)"
  obtains e where "splash_show_complete ps \<lparr>sp_vga = v, sp_dbg = d\<rparr> = Some \<lparr>sp_vga = replicate 2000 (text_cell 0x07 32), sp_dbg = e\<rparr>"
    "db_level e = db_level d" "console_ok (db_con e)"
proof -
  have t: "cstr_ok (asc ''splash_show_complete'')" "cstr_ok (asc ''Boot completion message displayed'')" "0x25 \<notin> set (asc ''Boot completion message displayed'')"
    "cstr_ok (asc ''User pressed key, continuing to scheduler'')" "0x25 \<notin> set (asc ''User pressed key, continuing to scheduler'')"
    by (simp_all add: cstr_ok_def asc_def)
  have n: "(155 :: u32) < 0x80000000" "(167 :: u32) < 0x80000000" by simp_all
  have "\<forall>t\<in>set complete_texts. text_ok t" by (simp add: complete_texts_def text_ok_def asc_def)
  then obtain b where b: "put_texts complete_texts v = Some b" "length b = 2000" using put_texts_cells assms(1) by blast
  obtain d1 where d1: "\<And>v. splash_print DEBUG_LEVEL_INFO 155 ''splash_show_complete'' ''Boot completion message displayed'' \<lparr>sp_vga = v, sp_dbg = d\<rparr>
      = Some \<lparr>sp_vga = v, sp_dbg = d1\<rparr>" "db_level d1 = db_level d" "console_ok (db_con d1)"
    using splash_print_returns [OF assms(2) t(1-3) n(1), of DEBUG_LEVEL_INFO] by blast
  obtain w where w: "wait_for_keypress ps \<lparr>sp_vga = b, sp_dbg = d1\<rparr> = Some \<lparr>sp_vga = w, sp_dbg = d1\<rparr>" "length w = 2000" using wait_total [OF b(2)] .
  obtain e where e: "\<And>v. splash_print DEBUG_LEVEL_INFO 167 ''splash_show_complete'' ''User pressed key, continuing to scheduler'' \<lparr>sp_vga = v, sp_dbg = d1\<rparr>
      = Some \<lparr>sp_vga = v, sp_dbg = e\<rparr>" "db_level e = db_level d1" "console_ok (db_con e)"
    using splash_print_returns [OF d1(3) t(1,4,5) n(2), of DEBUG_LEVEL_INFO] by blast
  have h: "splash_hide \<lparr>sp_vga = w, sp_dbg = d1\<rparr> = Some \<lparr>sp_vga = replicate 2000 (text_cell 0x07 32), sp_dbg = d1\<rparr>"
    using clear_cells [OF w(2), of "0x07"] by (simp add: splash_hide_def on_vga_def)
  have "on_vga (put_texts complete_texts) \<lparr>sp_vga = v, sp_dbg = d\<rparr> = Some \<lparr>sp_vga = b, sp_dbg = d\<rparr>" using b(1) by (simp add: on_vga_def)
  then show ?thesis using that [of e] d1 e w(1) h by (simp add: splash_show_complete_def)
qed

lemma bar_window:
  assumes W: "length lab = 11" "length lo = 4" "length bar = 30" "length t \<le> 4"
  shows "put_cells 45 t (put_cells 15 bar (put_cells 45 lo (put_cells 0 lab (replicate 49 v)))) = lab @ replicate 4 v @ bar @ t @ drop (length t) lo"
proof -
  have 1: "put_cells 0 lab (replicate 49 v) = lab @ replicate 38 v" using W by (simp add: put_cells_def)
  have 2: "put_cells 45 lo (lab @ replicate 38 v) = lab @ replicate 34 v @ lo" using W by (simp add: put_cells_def)
  have 3: "put_cells 15 bar (lab @ replicate 34 v @ lo) = lab @ replicate 4 v @ bar @ lo" using W by (simp add: put_cells_def)
  show ?thesis unfolding 1 2 3 using W by (simp add: put_cells_def)
qed

text \<open>C40.  Once the splash screen is shown a percentage draws its bar of 30 cells, a number below 0 or above 100 counting
  as 0 or 100, and nothing is written outside of the screen.  The percentage is written over the bracket that should
  close the bar, and what it does not cover of the first one stays: 5 percent reads \<^verbatim>\<open>5%0%\<close> and 42 percent \<^verbatim>\<open>42%%\<close>.\<close>

theorem splash_bar_line:
  assumes "length (sp_vga s) = 2000" and "console_ok (db_con (sp_dbg s))"
  shows "\<exists>s1 s2. splash_show s = Some s1 \<and> on_vga (splash_update_progress percent) s1 = Some s2
    \<and> length (sp_vga s2) = 2000 \<and> take 49 (drop (18 * 80 + 20) (sp_vga s2)) = bar_line (clamp_percent percent)"
proof -
  let ?v = "text_cell 0x0F 32" and ?p = "clamp_percent percent"
  let ?b = "put_all splash_texts (replicate 2000 ?v)" and ?lab = "map (text_cell 0x0F) (asc ''Progress: ['')" and ?lo = "map (text_cell 0x0F) (asc ''] 0%'')"
  obtain d where "splash_show \<lparr>sp_vga = sp_vga s, sp_dbg = sp_dbg s\<rparr> = Some \<lparr>sp_vga = ?b, sp_dbg = d\<rparr>" using splash_show_cells [OF assms] .
  then have shw: "splash_show s = Some \<lparr>sp_vga = ?b, sp_dbg = d\<rparr>" by - (cases s, simp)
  have b: "length ?b = 2000" using put_texts_cells [OF splash_texts_split(3), of "replicate 2000 ?v"] by simp
  let ?B = "put_all rows_above (replicate 2000 ?v)"
  have B: "length ?B = 2000" "take 49 (drop 1460 ?B) = replicate 49 ?v"
    using put_texts_cells [of rows_above "replicate 2000 ?v"] splash_texts_split(2) put_all_window [OF splash_texts_split(2), of "replicate 2000 ?v" 1460 49]
    by simp_all
  let ?t = "map (text_cell 0x0F) (percent_text ?p)" and ?bar = "map (bar_cell ?p) [0..<30]"
  have n: "length ?lab = 11" "length ?lo = 4" "length ?bar = 30" "length ?t \<le> 4" by (simp_all add: asc_def percent_text_def)
  have bb: "?b = put_cells 1505 ?lo (put_cells 1460 ?lab ?B)" unfolding splash_texts_split(1) put_all_append by simp
  let ?c = "put_cells 1505 ?t (put_cells 1475 ?bar ?b)"
  have l: "length (put_cells 1460 ?lab ?B) = 2000" "length (put_cells 1475 ?bar ?b) = 2000" "length ?c = 2000"
    using B(1) b n by (simp_all add: put_cells_length)
  have "take 49 (drop 1460 ?c) = put_cells 45 ?t (put_cells 15 ?bar (put_cells 45 ?lo (put_cells 0 ?lab (replicate 49 ?v))))"
    unfolding bb using B n l b by (simp add: window_put bb)
  also have "\<dots> = ?lab @ replicate 4 ?v @ ?bar @ ?t @ drop (length ?t) ?lo" by (rule bar_window [OF n])
  also have "\<dots> = bar_line ?p" by (simp add: bar_line_def drop_map) (simp add: asc_def numeral_eq_Suc)
  finally have "take 49 (drop 1460 ?c) = bar_line ?p" .
  moreover have "on_vga (splash_update_progress percent) \<lparr>sp_vga = ?b, sp_dbg = d\<rparr> = Some \<lparr>sp_vga = ?c, sp_dbg = d\<rparr>"
    using update_cells [OF b, of percent] by (simp add: on_vga_def)
  ultimately show ?thesis using shw l(3) by auto
qed

definition demo_splash :: splash where
  "demo_splash = \<lparr>sp_vga = replicate 2000 0x720, sp_dbg = demo_dbg\<rparr>"

lemma splash_bar_line_witness:
  "\<exists>s1 s2. splash_show demo_splash = Some s1 \<and> on_vga (splash_update_progress 42) s1 = Some s2
    \<and> take 4 (drop (18 * 80 + 65) (sp_vga s2)) = map (text_cell 0x0F) (asc ''42%%'')"
proof -
  have "length (sp_vga demo_splash) = 2000" "console_ok (db_con (sp_dbg demo_splash))" by (simp_all add: demo_splash_def demo_dbg_def console_ok_def)
  from splash_bar_line [OF this, of 42] obtain s1 s2 where s: "splash_show demo_splash = Some s1" "on_vga (splash_update_progress 42) s1 = Some s2"
    "take 49 (drop (18 * 80 + 20) (sp_vga s2)) = bar_line (clamp_percent 42)" by blast
  have "take 4 (drop (18 * 80 + 65) (sp_vga s2)) = drop 45 (take 49 (drop (18 * 80 + 20) (sp_vga s2)))" by (simp add: drop_take)
  also have "\<dots> = map (text_cell 0x0F) (asc ''42%%'')" unfolding s(3) by (simp add: bar_line_def clamp_percent_def percent_text_def asc_def)
  finally show ?thesis using s(1,2) by blast
qed

end
