(* ===== verification/Shell.thy ===== *)
theory Shell
  imports Console Serial Sched
begin

text \<open>
  The shell of the kernel, \<^verbatim>\<open>kernel/shell.c\<close>, on the terminal and the line input of \<open>Console\<close>.

  One round of its endless loop is a function of the state: it prompts, reads a line and answers it; \<open>None\<close>
  is a round that waits for input for ever.  The rounds a session goes through are the relation \<open>session\<close>.
\<close>

subsection \<open>State\<close>

definition LINE_MAX :: int where "LINE_MAX = 256"

record shell =
  sh_term :: terminal
  sh_log :: serial
  sh_polls :: "poll list"
  sh_line :: "u8 list"
  sh_sched :: sstate

definition sh_writes :: "cstr \<Rightarrow> shell \<Rightarrow> shell option" where
  "sh_writes t s = map_option (\<lambda>p. s\<lparr>sh_term := p\<rparr>) (writes t (sh_term s))"

definition sh_serial :: "cstr \<Rightarrow> shell \<Rightarrow> shell option" where
  "sh_serial t s = map_option (\<lambda>p. s\<lparr>sh_log := p\<rparr>) (serial_write t (sh_log s))"

definition kprintf :: "u8 list \<Rightarrow> farg list \<Rightarrow> shell \<Rightarrow> shell option" where
  "kprintf f args s = map_option (\<lambda>p. s\<lparr>sh_term := p\<rparr>) (kvprintf f args (sh_term s))"

text \<open>The characters are signed.\<close>

fun kstrcmp :: "cstr \<Rightarrow> cstr \<Rightarrow> int" where
  "kstrcmp [] [] = 0"
| "kstrcmp (a # as) [] = sint a"
| "kstrcmp [] (b # bs) = - sint b"
| "kstrcmp (a # as) (b # bs) = (if a = b then kstrcmp as bs else sint a - sint b)"

subsection \<open>The commands\<close>

definition state_name :: "thread_state \<Rightarrow> u8 list" where
  "state_name st = (case st of THREAD_NEW \<Rightarrow> asc ''NEW'' | THREAD_READY \<Rightarrow> asc ''READY'' | THREAD_RUNNING \<Rightarrow> asc ''RUNNING''
     | THREAD_BLOCKED \<Rightarrow> asc ''BLOCKED'' | THREAD_TERMINATED \<Rightarrow> asc ''TERM'') @ [0]"

partial_function (option) ps_threads :: "addr \<Rightarrow> shell \<Rightarrow> shell option" where
  "ps_threads t s =
     (if t = 0 then Some s
      else do {
        x \<leftarrow> sc_threads (sh_sched s) t;
        pid \<leftarrow> (if th_process x = 0 then Some 0 else map_option pr_pid (ps_procs (sc_ps (sh_sched s)) (th_process x)));
        s1 \<leftarrow> kprintf (asc ''%-5d %-5d %-9s %5d'' @ [10, 0]) [FInt (word_of_int (th_tid x)), FInt pid, FStr (state_name (th_state x)),
                FInt (word_of_int (th_slice x))] s;
        ps_threads (th_next x) s1 })"

definition shell_ps :: "shell \<Rightarrow> shell option" where
  "shell_ps s = do {
     cnt \<leftarrow> scheduler_task_count (sh_sched s);
     curi \<leftarrow> scheduler_current_index (sh_sched s);
     let q = scheduler_get_quantum (sh_sched s);
     let pre = scheduler_get_preempt (sh_sched s);
     s1 \<leftarrow> kprintf (asc ''tasks=%d current_index=%d quantum=%d preempt=%d'' @ [10, 0])
             [FInt (word_of_int cnt), FInt (word_of_int curi), FInt (word_of_int q), FInt (word_of_int pre)] s;
     s2 \<leftarrow> sh_writes (asc ''TID   PID   STATE      SLICE'' @ [10]) s1;
     s3 \<leftarrow> sh_writes (asc ''------------------------------'' @ [10]) s2;
     ps_threads (thread_list_head (sh_sched s)) s3 }"

definition shell_command :: "shell \<Rightarrow> shell option" where
  "shell_command s = (let line = cstr_at (sh_line s) in
     if kstrcmp line (asc ''help'') = 0 then do {
       s1 \<leftarrow> sh_writes (asc ''Available commands:'' @ [10]) s;
       s2 \<leftarrow> sh_writes (asc ''  help     - show this help'' @ [10]) s1;
       s3 \<leftarrow> sh_writes (asc ''  clear    - clear screen'' @ [10]) s2;
       s4 \<leftarrow> sh_writes (asc ''  version  - show kernel version'' @ [10]) s3;
       sh_writes (asc ''  ps       - show process status'' @ [10]) s4 }
     else if kstrcmp line (asc ''clear'') = 0 then map_option (\<lambda>p. s\<lparr>sh_term := p\<rparr>) (terminal_clear_screen (sh_term s))
     else if kstrcmp line (asc ''version'') = 0 then kprintf (asc ''RetaOS Kernel v1.0'' @ [10, 0]) [] s
     else if kstrcmp line (asc ''ps'') = 0 then shell_ps s
     else kprintf (asc ''Unknown command: %s'' @ [10, 0]) [FStr (sh_line s)] s)"

text \<open>One round of the loop: the prompt and the line typed after it, then the answer.\<close>

definition shell_prompt :: "shell \<Rightarrow> (int \<times> shell) option" where
  "shell_prompt s = do {
     s1 \<leftarrow> sh_writes (asc ''RetaOSKernel> '') s;
     s2 \<leftarrow> sh_serial (asc ''RetaOSKernel> '') s1;
     (n, line, polls, t) \<leftarrow> read_line (Some (sh_line s2)) LINE_MAX (sh_polls s2) (sh_term s2);
     Some (n, s2\<lparr>sh_line := line, sh_polls := polls, sh_term := t\<rparr>) }"

definition shell_round :: "shell \<Rightarrow> shell option" where
  "shell_round s = do {
     (n, t) \<leftarrow> shell_prompt s;
     if n \<le> 0 then Some t else shell_command t }"

text \<open>What the thread does before the loop.\<close>

definition shell_banner :: "shell \<Rightarrow> shell option" where
  "shell_banner s = do {
     s1 \<leftarrow> sh_serial (asc ''[DEBUG] Shell thread started!'' @ [13, 10]) s;
     s2 \<leftarrow> sh_writes ([10] @ asc ''RetaOS Kernel Shell - Type 'help' for commands'' @ [10, 10]) s1;
     s3 \<leftarrow> sh_serial (asc ''RetaOS Kernel Shell - Type 'help' for commands'' @ [13, 10, 13, 10]) s2;
     sh_serial (asc ''[DEBUG] Shell welcome message written'' @ [13, 10]) s3 }"

inductive session :: "shell \<Rightarrow> shell \<Rightarrow> bool" where
  session_start: "shell_banner s = Some t \<Longrightarrow> session s t"
| session_round: "session s t \<Longrightarrow> shell_round t = Some u \<Longrightarrow> session s u"

subsection \<open>Text on the terminal\<close>

lemma writes_append: "writes (a @ b) t = Option.bind (writes a t) (writes b)"
proof (induction a arbitrary: t)
  case (Cons c a)
  then show ?case by (cases "put c t") simp_all
qed simp

lemma writes_ok: "terminal_ok t \<Longrightarrow> \<exists>t'. writes cs t = Some t' \<and> terminal_ok t'"
proof (induction cs arbitrary: t)
  case (Cons c cs)
  obtain t1 where t1: "put c t = Some t1" "terminal_ok t1" using put_ok [OF Cons.prems] by blast
  then show ?case using Cons.IH [OF t1(2)] by simp
qed simp

text \<open>The format \<open>f\<close> with these arguments prints the text \<open>out\<close>.\<close>

definition prints :: "u8 list \<Rightarrow> farg list \<Rightarrow> cstr \<Rightarrow> bool" where
  "prints f args out \<longleftrightarrow> (\<forall>t. kvprintf f args t = writes out t)"

lemma prints_end: "prints (0 # f) args []"
  by (simp add: prints_def)

lemma prints_literal:
  assumes "\<forall>c\<in>set p. c \<noteq> 0 \<and> c \<noteq> 0x25" and "prints f args out"
  shows "prints (p @ f) args (p @ out)"
proof -
  have "kvprintf (p @ f) args t = Option.bind (writes p t) (kvprintf f args)" for t
    using assms(1)
  proof (induction p arbitrary: t)
    case (Cons c p)
    then show ?case by (cases "put c t") simp_all
  qed simp
  moreover have "kvprintf f args = writes out" using assms(2) by (auto simp: prints_def)
  ultimately show ?thesis by (simp add: prints_def writes_append)
qed

lemma prints_conv: "k \<noteq> 0 \<Longrightarrow> kv_conv k args = Some (as, o1) \<Longrightarrow> prints f as out \<Longrightarrow> prints (0x25 # k # f) args (o1 @ out)"
proof -
  assume k: "k \<noteq> 0" "kv_conv k args = Some (as, o1)" and f: "prints f as out"
  have "kvprintf f as = writes out" using f by (auto simp: prints_def)
  then show "prints (0x25 # k # f) args (o1 @ out)" using k by (simp add: prints_def writes_append)
qed

lemma kv_conv_rest: "k \<noteq> 0x73 \<Longrightarrow> k \<noteq> 0x64 \<Longrightarrow> k \<noteq> 0x78 \<Longrightarrow> k \<noteq> 0x63 \<Longrightarrow> k \<noteq> 0x25 \<Longrightarrow> kv_conv k args = Some (args, [0x25, k])"
  by (simp add: kv_conv_def)

definition decimal_text :: "int \<Rightarrow> cstr" where
  "decimal_text i = the (itoa_signed (word_of_int i))"

lemma kv_conv_int:
  assumes "- (2 ^ 31) < i" and "i < 2 ^ 31"
  shows "kv_conv 0x64 (FInt (word_of_int i) # as) = Some (as, decimal_text i)"
proof -
  have "sint (word_of_int i :: u32) = i" using assms by (intro sint_int32) simp_all
  then obtain r where "abs_int (word_of_int i) = Some r" using assms(1)
    by (cases "i < 0") (auto simp: abs_int_def Let_def)
  then show ?thesis by (simp add: kv_conv_def decimal_text_def itoa_signed_def split: prod.splits)
qed

lemma kv_conv_str: "cstring b \<Longrightarrow> kv_conv 0x73 (FStr b # as) = Some (as, cstr_at b)"
  by (simp add: kv_conv_def)

lemma sint_zero: "sint (c :: u8) = 0 \<Longrightarrow> c = 0"
  by (metis signed_0 signed_word_eqI)

lemma kstrcmp_zero:
  "(\<forall>c\<in>set a. c \<noteq> 0) \<Longrightarrow> (\<forall>c\<in>set b. c \<noteq> 0) \<Longrightarrow> kstrcmp a b = 0 \<longleftrightarrow> a = b"
proof (induction a b rule: kstrcmp.induct)
  case (4 a as b bs)
  then show ?case by (auto dest: signed_word_eqI)
qed (auto dest: sint_zero)

lemma kprintf_prints: "prints f args out \<Longrightarrow> kprintf f args s = sh_writes out s"
  by (simp add: kprintf_def prints_def sh_writes_def)

lemma sh_writes_append: "sh_writes (a @ b) s = Option.bind (sh_writes a s) (sh_writes b)"
proof (cases "writes a (sh_term s)")
  case (Some t)
  then show ?thesis by (cases "writes b t") (simp_all add: sh_writes_def writes_append)
qed (simp add: sh_writes_def writes_append)

lemma sh_writes_4: "sh_writes (a @ b @ c @ d) s = do { s1 \<leftarrow> sh_writes a s; s2 \<leftarrow> sh_writes b s1; s3 \<leftarrow> sh_writes c s2; sh_writes d s3 }"
proof -
  have "sh_writes (a @ b) = (\<lambda>s. Option.bind (sh_writes a s) (sh_writes b))" for a b by (rule ext) (rule sh_writes_append)
  then show ?thesis by (simp only: Option.bind_assoc)
qed

lemma sh_writes_5: "sh_writes (a @ b @ c @ d @ e) s
    = do { s1 \<leftarrow> sh_writes a s; s2 \<leftarrow> sh_writes b s1; s3 \<leftarrow> sh_writes c s2; s4 \<leftarrow> sh_writes d s3; sh_writes e s4 }"
proof -
  have "sh_writes (a @ b) = (\<lambda>s. Option.bind (sh_writes a s) (sh_writes b))" for a b by (rule ext) (rule sh_writes_append)
  then show ?thesis by (simp only: Option.bind_assoc)
qed

lemmas prints_rules = prints_conv [OF _ kv_conv_rest] prints_conv [OF _ kv_conv_int] prints_conv [OF _ kv_conv_str] prints_literal prints_end

subsection \<open>Clearing the screen\<close>

lemma clear_screen:
  assumes "terminal_ok t"
  shows "terminal_clear_screen t = Some (t\<lparr>te_r := 0, te_c := 0, te_buf := replicate 2000 (vga_entry 32 (te_col t))\<rparr>)"
proof -
  let ?g = "\<lambda>b. t\<lparr>te_buf := b\<rparr>" and ?v = "vga_entry 32 (te_col t)"
  have "putat 32 (te_col (?g b)) (of_nat cc) (of_nat rr) (?g b) = map_option ?g (set_cell (rr * 80 + cc) ?v b)"
    if "rr < 25" "cc < 80" for rr cc b
  proof -
    have "unat (of_nat rr * 80 + of_nat cc :: u32) = rr * 80 + cc" using that by (simp add: unat_word_ariths unat_of_nat)
    then show ?thesis using that by (simp add: putat_def word_less_nat_alt unat_of_nat set_cell_def)
  qed
  then have inner: "for_loop 0 80 (\<lambda>cc u. putat 32 (te_col u) (of_nat cc) (of_nat rr) u) (?g b)
      = map_option ?g (for_loop 0 80 (\<lambda>cc. set_cell (rr * 80 + cc) ?v) b)" if "rr < 25" for rr b
    by (rule for_loop_map) (use that in auto)
  have "for_loop 0 25 (\<lambda>rr. for_loop 0 80 (\<lambda>cc u. putat 32 (te_col u) (of_nat cc) (of_nat rr) u)) (?g (te_buf t))
      = map_option ?g (for_loop 0 25 (\<lambda>rr. for_loop 0 80 (\<lambda>cc. set_cell (rr * 80 + cc) ?v)) (te_buf t))"
    by (rule for_loop_map) (rule inner, simp)
  moreover have "?g (te_buf t) = t" by simp
  ultimately have "for_loop 0 25 (\<lambda>rr. for_loop 0 80 (\<lambda>cc u. putat 32 (te_col u) (of_nat cc) (of_nat rr) u)) t
      = Some (t\<lparr>te_buf := replicate 2000 ?v\<rparr>)"
    using clear_rows [of "te_buf t" ?v] assms by (simp add: terminal_ok_def)
  then show ?thesis by (simp add: terminal_clear_screen_def)
qed

subsection \<open>What a session shows\<close>

text \<open>The threads the list holds, each with a process that exists.\<close>

definition sched_ok :: "sstate \<Rightarrow> addr list \<Rightarrow> bool" where
  "sched_ok sc xs \<longleftrightarrow> th_chain sc (tc_list sc) xs \<and> length xs < 2 ^ 31 \<and> 0 \<le> rr_quantum sc \<and> rr_quantum sc < 2 ^ 31
     \<and> (\<forall>x\<in>set xs. \<forall>t. sc_threads sc x = Some t \<longrightarrow> th_process t = 0 \<or> ps_procs (sc_ps sc) (th_process t) \<noteq> None)"

definition shell_ok :: "shell \<Rightarrow> addr list \<Rightarrow> bool" where
  "shell_ok s xs \<longleftrightarrow> terminal_ok (sh_term s) \<and> length (sh_line s) = 256 \<and> \<not> se_ready (sh_log s) \<and> sched_ok (sh_sched s) xs"

definition index_of :: "addr \<Rightarrow> addr list \<Rightarrow> int" where
  "index_of x xs = (if x \<in> set xs then int (length (takeWhile (\<lambda>y. y \<noteq> x) xs)) else -1)"

text \<open>The formats of a thread's line have a width, which \<^verbatim>\<open>kvprintf\<close> does not know.\<close>

definition ps_text :: "sstate \<Rightarrow> addr list \<Rightarrow> cstr" where
  "ps_text sc xs = asc ''tasks='' @ decimal_text (int (length xs)) @ asc '' current_index='' @ decimal_text (index_of (sc_current sc) xs)
     @ asc '' quantum='' @ decimal_text (rr_quantum sc) @ asc '' preempt='' @ decimal_text (if sc_preempt sc then 1 else 0) @ [10]
     @ asc ''TID   PID   STATE      SLICE'' @ [10] @ asc ''------------------------------'' @ [10]
     @ concat (replicate (length xs) (asc ''%-5d %-5d %-9s %5d'' @ [10]))"

definition help_text :: cstr where
  "help_text = asc ''Available commands:'' @ [10] @ asc ''  help     - show this help'' @ [10] @ asc ''  clear    - clear screen'' @ [10]
     @ asc ''  version  - show kernel version'' @ [10] @ asc ''  ps       - show process status'' @ [10]"

definition answer :: "sstate \<Rightarrow> addr list \<Rightarrow> cstr \<Rightarrow> cstr" where
  "answer sc xs l =
     (if l = asc ''help'' then help_text
      else if l = asc ''version'' then asc ''RetaOS Kernel v1.0'' @ [10]
      else if l = asc ''ps'' then ps_text sc xs
      else asc ''Unknown command: '' @ l @ [10])"

lemma count_walk_chain: "th_chain sc p xs \<Longrightarrow> count_walk p n sc = Some (n + int (length xs))"
proof (induction xs arbitrary: p n)
  case (Cons x xs)
  then show ?case by (subst count_walk.simps) auto
qed (simp add: count_walk.simps)

lemma index_walk_chain: "th_chain sc p xs \<Longrightarrow> index_walk p n sc = Some (if sc_current sc \<in> set xs then n + index_of (sc_current sc) xs else -1)"
proof (induction xs arbitrary: p n)
  case (Cons x xs)
  then show ?case by (subst index_walk.simps) (auto simp: index_of_def)
qed (simp add: index_walk.simps)

lemma ps_format: "prints (asc ''%-5d %-5d %-9s %5d'' @ [10, 0]) args (asc ''%-5d %-5d %-9s %5d'' @ [10])"
proof -
  have "prints (0x25 # 0x2D # asc ''5d '' @ 0x25 # 0x2D # asc ''5d '' @ 0x25 # 0x2D # asc ''9s '' @ 0x25 # 0x35 # asc ''d'' @ [10] @ [0]) args
    ([0x25, 0x2D] @ asc ''5d '' @ [0x25, 0x2D] @ asc ''5d '' @ [0x25, 0x2D] @ asc ''9s '' @ [0x25, 0x35] @ asc ''d'' @ [10] @ [])"
    by (intro prints_rules) (simp_all add: asc_def)
  then show ?thesis by (simp add: asc_def)
qed

lemma ps_threads_text:
  assumes "th_chain (sh_sched s) p xs" and "terminal_ok (sh_term s)"
    and "\<forall>x\<in>set xs. \<forall>t. sc_threads (sh_sched s) x = Some t \<longrightarrow> th_process t = 0 \<or> ps_procs (sc_ps (sh_sched s)) (th_process t) \<noteq> None"
  shows "ps_threads p s = sh_writes (concat (replicate (length xs) (asc ''%-5d %-5d %-9s %5d'' @ [10]))) s"
  using assms
proof (induction xs arbitrary: p s)
  case Nil
  then show ?case by (subst ps_threads.simps) (simp add: sh_writes_def)
next
  case (Cons x xs)
  let ?f = "asc ''%-5d %-5d %-9s %5d'' @ [10]"
  obtain th where th: "p = x" "x \<noteq> 0" "sc_threads (sh_sched s) x = Some th" "th_chain (sh_sched s) (th_next th) xs" using Cons.prems(1) by auto
  have "th_process th = 0 \<or> ps_procs (sc_ps (sh_sched s)) (th_process th) \<noteq> None" using Cons.prems(3) th(3) by simp
  then obtain pid where pid: "(if th_process th = 0 then Some 0 else map_option pr_pid (ps_procs (sc_ps (sh_sched s)) (th_process th))) = Some pid"
    by (cases "th_process th = 0") auto
  obtain u where u: "writes ?f (sh_term s) = Some u" "terminal_ok u" using writes_ok [OF Cons.prems(2)] by blast
  have k: "kprintf (asc ''%-5d %-5d %-9s %5d'' @ [10, 0]) args s = sh_writes ?f s" for args using ps_format by (simp add: kprintf_def sh_writes_def prints_def)
  let ?s = "s\<lparr>sh_term := u\<rparr>"
  have "ps_threads (th_next th) ?s = sh_writes (concat (replicate (length xs) ?f)) ?s"
    by (rule Cons.IH) (use th(4) u(2) Cons.prems(3) in auto)
  moreover have "sh_writes ?f s = Some ?s" using u(1) by (simp add: sh_writes_def)
  moreover have "sh_writes (?f @ r) s = Option.bind (sh_writes ?f s) (sh_writes r)" for r
    by (rule sh_writes_append)
  ultimately show ?case using th(1,2,3) pid k by (subst ps_threads.simps) simp
qed

lemma version_format: "prints (asc ''RetaOS Kernel v1.0'' @ [10, 0]) args (asc ''RetaOS Kernel v1.0'' @ [10])"
proof -
  have "prints ((asc ''RetaOS Kernel v1.0'' @ [10]) @ [0]) args ((asc ''RetaOS Kernel v1.0'' @ [10]) @ [])"
    by (intro prints_rules) (simp add: asc_def)
  then show ?thesis by simp
qed

lemma unknown_format:
  assumes "cstring b"
  shows "prints (asc ''Unknown command: %s'' @ [10, 0]) [FStr b] (asc ''Unknown command: '' @ cstr_at b @ [10])"
proof -
  have "prints (asc ''Unknown command: '' @ 0x25 # 0x73 # [10] @ [0]) [FStr b] (asc ''Unknown command: '' @ cstr_at b @ [10] @ [])"
    by (intro prints_rules assms) (simp_all add: asc_def)
  then show ?thesis by (simp add: asc_def)
qed

lemma tasks_format:
  assumes "\<forall>i\<in>{a, b, c, d}. - (2 ^ 31) < i \<and> i < 2 ^ 31"
  shows "prints (asc ''tasks=%d current_index=%d quantum=%d preempt=%d'' @ [10, 0])
      [FInt (word_of_int a), FInt (word_of_int b), FInt (word_of_int c), FInt (word_of_int d)]
      (asc ''tasks='' @ decimal_text a @ asc '' current_index='' @ decimal_text b @ asc '' quantum='' @ decimal_text c @ asc '' preempt='' @ decimal_text d @ [10])"
proof -
  have "prints (asc ''tasks='' @ 0x25 # 0x64 # asc '' current_index='' @ 0x25 # 0x64 # asc '' quantum='' @ 0x25 # 0x64 # asc '' preempt='' @ 0x25 # 0x64 # [10] @ [0])
      [FInt (word_of_int a), FInt (word_of_int b), FInt (word_of_int c), FInt (word_of_int d)]
      (asc ''tasks='' @ decimal_text a @ asc '' current_index='' @ decimal_text b @ asc '' quantum='' @ decimal_text c @ asc '' preempt='' @ decimal_text d @ [10] @ [])"
    by (intro prints_rules) (use assms in \<open>simp_all add: asc_def\<close>)
  then show ?thesis by (simp add: asc_def)
qed

lemma shell_ps_text:
  assumes "sched_ok (sh_sched s) xs" and "terminal_ok (sh_term s)"
  shows "shell_ps s = sh_writes (ps_text (sh_sched s) xs) s"
proof -
  let ?sc = "sh_sched s"
  have ch: "th_chain ?sc (tc_list ?sc) xs" and l: "length xs < 2 ^ 31" and q: "0 \<le> rr_quantum ?sc" "rr_quantum ?sc < 2 ^ 31"
    using assms(1) by (simp_all add: sched_ok_def)
  let ?i = "index_of (sc_current ?sc) xs"
  have c: "scheduler_task_count ?sc = Some (int (length xs))" "scheduler_current_index ?sc = Some ?i"
    using count_walk_chain [OF ch, of 0] index_walk_chain [OF ch, of 0]
    by (simp_all add: scheduler_task_count_def scheduler_current_index_def index_of_def)
  have "-1 \<le> ?i" "?i \<le> int (length xs)" using length_takeWhile_le [of "\<lambda>y. y \<noteq> sc_current ?sc" xs] by (simp_all add: index_of_def)
  then have b: "\<forall>i\<in>{int (length xs), ?i, rr_quantum ?sc, if sc_preempt ?sc then 1 else 0}. - (2 ^ 31) < i \<and> i < 2 ^ 31"
    using l q by auto
  let ?a = "asc ''tasks='' @ decimal_text (int (length xs)) @ asc '' current_index='' @ decimal_text ?i @ asc '' quantum='' @ decimal_text (rr_quantum ?sc)
     @ asc '' preempt='' @ decimal_text (if sc_preempt ?sc then 1 else 0) @ [10]"
  let ?b = "asc ''TID   PID   STATE      SLICE'' @ [10]" and ?c = "asc ''------------------------------'' @ [10]"
  obtain t1 where t1: "writes ?a (sh_term s) = Some t1" "terminal_ok t1" using writes_ok [OF assms(2)] by blast
  obtain t2 where t2: "writes ?b t1 = Some t2" "terminal_ok t2" using writes_ok [OF t1(2)] by blast
  obtain t3 where t3: "writes ?c t2 = Some t3" "terminal_ok t3" using writes_ok [OF t2(2)] by blast
  have w: "sh_writes ?a s = Some (s\<lparr>sh_term := t1\<rparr>)" "sh_writes ?b (s\<lparr>sh_term := t1\<rparr>) = Some (s\<lparr>sh_term := t2\<rparr>)"
    "sh_writes ?c (s\<lparr>sh_term := t2\<rparr>) = Some (s\<lparr>sh_term := t3\<rparr>)" using t1(1) t2(1) t3(1) by (simp_all add: sh_writes_def)
  have k: "kprintf (asc ''tasks=%d current_index=%d quantum=%d preempt=%d'' @ [10, 0]) [FInt (word_of_int (int (length xs))), FInt (word_of_int ?i),
       FInt (word_of_int (rr_quantum ?sc)), FInt (word_of_int (if sc_preempt ?sc then 1 else 0))] s = sh_writes ?a s"
    by (rule kprintf_prints) (rule tasks_format [OF b])
  have p: "ps_threads (tc_list ?sc) (s\<lparr>sh_term := t3\<rparr>)
      = sh_writes (concat (replicate (length xs) (asc ''%-5d %-5d %-9s %5d'' @ [10]))) (s\<lparr>sh_term := t3\<rparr>)"
    by (rule ps_threads_text) (use ch t3(2) assms(1) in \<open>auto simp: sched_ok_def\<close>)
  have "ps_text ?sc xs = ?a @ ?b @ ?c @ concat (replicate (length xs) (asc ''%-5d %-5d %-9s %5d'' @ [10]))" by (simp add: ps_text_def)
  then have "sh_writes (ps_text ?sc xs) s = ps_threads (tc_list ?sc) (s\<lparr>sh_term := t3\<rparr>)"
    unfolding p by (simp only:) (subst sh_writes_4, simp only: w Option.bind_lunit)
  moreover have "shell_ps s = ps_threads (tc_list ?sc) (s\<lparr>sh_term := t3\<rparr>)"
    unfolding shell_ps_def c Option.bind_lunit Let_def scheduler_get_quantum_def scheduler_get_preempt_def k w thread_list_head_def ..
  ultimately show ?thesis by simp
qed

lemma edit_line_chars:
  "edit_line m ks tx = Some l \<Longrightarrow> \<forall>c\<in>set tx. 32 \<le> c \<and> c \<le> 126 \<Longrightarrow> \<forall>c\<in>set l. 32 \<le> c \<and> c \<le> 126"
proof (induction m ks tx rule: edit_line.induct)
  case (2 m c cs t)
  have b: "\<forall>c\<in>set (butlast t). 32 \<le> c \<and> c \<le> 126" using 2(5) by (auto dest: in_set_butlastD)
  show ?case
  proof (cases "m \<le> length t \<or> c = 10 \<and> c \<noteq> 8")
    case True
    then have "l = t" using 2(4) by (auto split: if_splits)
    then show ?thesis using 2(5) by simp
  next
    case False
    then consider "c = 8" | "c \<noteq> 8" "32 \<le> c \<and> c \<le> 126" | "c \<noteq> 8" "\<not> (32 \<le> c \<and> c \<le> 126)" by blast
    then show ?thesis
    proof cases
      case 1
      show ?thesis by (rule 2(1)) (use False 1 2(4) b in simp_all)
    next
      case char: 2
      show ?thesis by (rule 2(2)) (use False char 2(4,5) in simp_all)
    next
      case 3
      show ?thesis by (rule 2(3)) (use False 3 2(4,5) in \<open>simp_all split: if_splits\<close>)
    qed
  qed
qed (simp split: if_splits)

text \<open>\<open>u\<close> is the answer to the line \<open>l\<close> given in the state \<open>t\<close>.\<close>

definition answered :: "shell \<Rightarrow> addr list \<Rightarrow> cstr \<Rightarrow> shell \<Rightarrow> bool" where
  "answered t xs l u \<longleftrightarrow>
     (if l = [] then u = t
      else if l = asc ''clear''
      then u = t\<lparr>sh_term := (sh_term t)\<lparr>te_r := 0, te_c := 0, te_buf := replicate 2000 (vga_entry 32 (te_col (sh_term t)))\<rparr>\<rparr>
      else sh_writes (answer (sh_sched t) xs l) t = Some u)"

lemma sh_writes_ok: "shell_ok s xs \<Longrightarrow> \<exists>u. sh_writes out s = Some u \<and> shell_ok u xs \<and> sh_sched u = sh_sched s \<and> sh_line u = sh_line s
    \<and> sh_polls u = sh_polls s"
proof -
  assume ok: "shell_ok s xs"
  then obtain t where "writes out (sh_term s) = Some t" "terminal_ok t" using writes_ok [of "sh_term s" out] by (auto simp: shell_ok_def)
  then show ?thesis using ok by (simp add: sh_writes_def shell_ok_def)
qed

lemma shell_command_answers:
  assumes ok: "shell_ok s xs" and l: "cstr_at (sh_line s) = l" "cstring (sh_line s)" "l \<noteq> []" "\<forall>c\<in>set l. c \<noteq> 0"
  shows "\<exists>u. shell_command s = Some u \<and> answered s xs l u \<and> shell_ok u xs \<and> sh_sched u = sh_sched s"
proof -
  have w: "\<exists>u. sh_writes (answer (sh_sched s) xs l) s = Some u \<and> shell_ok u xs \<and> sh_sched u = sh_sched s" using sh_writes_ok [OF ok] by blast
  have k: "(kstrcmp l (asc c) = 0) = (l = asc c)" if "c \<in> {''help'', ''clear'', ''version'', ''ps''}" for c
    using l(4) that by (intro kstrcmp_zero) (auto simp: asc_def)
  have kk: "(kstrcmp l (asc ''help'') = 0) = (l = asc ''help'')" "(kstrcmp l (asc ''clear'') = 0) = (l = asc ''clear'')" "(kstrcmp l (asc ''version'') = 0) = (l = asc ''version'')" "(kstrcmp l (asc ''ps'') = 0) = (l = asc ''ps'')"
    by (rule k, simp)+
  have d: "asc ''help'' \<noteq> asc ''clear''" "asc ''clear'' \<noteq> asc ''version''" "asc ''clear'' \<noteq> asc ''ps''" by (simp_all add: asc_def)
  have ok': "sched_ok (sh_sched s) xs" "terminal_ok (sh_term s)" using ok by (simp_all add: shell_ok_def)
  consider (hlp) "l = asc ''help''" | (clr) "l = asc ''clear''" | (ver) "l = asc ''version''" "l \<noteq> asc ''help''"
    | (ps) "l = asc ''ps''" "l \<noteq> asc ''help''" "l \<noteq> asc ''version''"
    | (unk) "l \<noteq> asc ''help''" "l \<noteq> asc ''clear''" "l \<noteq> asc ''version''" "l \<noteq> asc ''ps''" by blast
  then show ?thesis
  proof cases
    case hlp
    have h: "help_text = (asc ''Available commands:'' @ [10]) @ (asc ''  help     - show this help'' @ [10])
      @ (asc ''  clear    - clear screen'' @ [10]) @ (asc ''  version  - show kernel version'' @ [10]) @ asc ''  ps       - show process status'' @ [10]"
      by (simp add: help_text_def)
    then have "shell_command s = sh_writes (answer (sh_sched s) xs l) s"
      using kk(1) hlp l(1) by (simp only: shell_command_def Let_def answer_def if_P simp_thms) (subst h, rule sh_writes_5 [symmetric])
    then show ?thesis using w hlp d(1) l(3) by (simp add: answered_def)
  next
    case clr
    then show ?thesis using kk d clear_screen [OF ok'(2)] l(1,3) ok
      by (simp add: shell_command_def answered_def shell_ok_def terminal_ok_def Let_def)
  next
    case ver
    then have "shell_command s = sh_writes (answer (sh_sched s) xs l) s"
      using kk d l(1) kprintf_prints [OF version_format] by (simp add: shell_command_def answer_def Let_def del: asc_def)
    then show ?thesis using w ver d l(3) by (simp add: answered_def)
  next
    case ps
    then have "shell_command s = sh_writes (answer (sh_sched s) xs l) s"
      using kk d l(1) shell_ps_text [OF ok'] by (simp add: shell_command_def answer_def Let_def del: asc_def)
    then show ?thesis using w ps d l(3) by (simp add: answered_def)
  next
    case unk
    then have "shell_command s = sh_writes (answer (sh_sched s) xs l) s"
      using kk l(1) kprintf_prints [OF unknown_format [OF l(2)]] by (simp add: shell_command_def answer_def Let_def del: asc_def)
    then show ?thesis using w unk l(3) by (simp add: answered_def)
  qed
qed

lemma shell_round_answers:
  assumes ok: "shell_ok s xs"
  shows "case edit_line 255 (keys_of (sh_polls s)) [] of
      None \<Rightarrow> shell_prompt s = None
    | Some l \<Rightarrow> \<exists>t u. shell_prompt s = Some (int (length l), t) \<and> shell_round s = Some u \<and> cstr_at (sh_line t) = l \<and> shell_ok t xs \<and> sh_sched t = sh_sched s \<and> answered t xs l u
        \<and> shell_ok u xs \<and> sh_sched u = sh_sched s"
proof -
  obtain s1 where s1: "sh_writes (asc ''RetaOSKernel> '') s = Some s1" "shell_ok s1 xs" "sh_sched s1 = sh_sched s" "sh_line s1 = sh_line s"
    "sh_polls s1 = sh_polls s" using sh_writes_ok [OF ok] by blast
  have q: "sh_serial c s1 = Some s1" for c using s1(2) by (simp add: sh_serial_def shell_ok_def serial_not_ready)
  have f: "terminal_ok (sh_term s1)" "length (sh_line s) = 256" using s1(2,4) by (simp_all add: shell_ok_def)
  have rd: "read_line (Some (sh_line s)) LINE_MAX (sh_polls s) (sh_term s1) = read_line_loop 256 (sh_polls s) 0 (sh_line s) (sh_term s1)"
    by (simp add: read_line_def LINE_MAX_def)
  note r = read_line_loop_edits [OF f(1), of 256 "sh_line s" "[]" "sh_polls s"]
  show ?thesis
  proof (cases "edit_line 255 (keys_of (sh_polls s)) []")
    case None
    then show ?thesis using r f(2) s1 q rd by (simp add: shell_prompt_def)
  next
    case (Some l)
    then obtain out' qs t' where o: "read_line_loop 256 (sh_polls s) 0 (sh_line s) (sh_term s1) = Some (int (length l), out', qs, t')"
      "take (Suc (length l)) out' = l @ [0]" "length out' = 256" "terminal_ok t'"
      using r f(2) by auto
    have l: "\<forall>c\<in>set l. c \<noteq> 0" using edit_line_chars [OF Some] by auto
    have e: "out' = l @ 0 # drop (Suc (length l)) out'" using o(2) append_take_drop_id [of "Suc (length l)" out'] by simp
    have c: "cstr_at out' = l" "cstring out'" using l by (subst e, simp add: cstr_at_def takeWhile_append2) (subst e, simp add: cstring_def)
    let ?t = "s1\<lparr>sh_line := out', sh_polls := qs, sh_term := t'\<rparr>"
    have ok': "shell_ok ?t xs" "sh_sched ?t = sh_sched s" using s1(2,3) o(3,4) by (simp_all add: shell_ok_def)
    have pr: "shell_prompt s = Some (int (length l), ?t)" using s1 q rd o(1) by (simp add: shell_prompt_def)
    then have rn: "shell_round s = (if l = [] then Some ?t else shell_command ?t)" by (simp add: shell_round_def)
    show ?thesis
    proof (cases "l = []")
      case True
      then show ?thesis using Some pr rn ok' c by (auto simp: answered_def intro!: exI [of _ ?t])
    next
      case False
      then obtain u where "shell_command ?t = Some u" "answered ?t xs l u" "shell_ok u xs" "sh_sched u = sh_sched ?t"
        using shell_command_answers [OF ok'(1), of l] c l by auto
      then show ?thesis using Some pr rn False ok' c by (auto intro!: exI [of _ ?t])
    qed
  qed
qed

lemma shell_banner_ok:
  assumes ok: "shell_ok s xs"
  shows "\<exists>u. shell_banner s = Some u \<and> shell_ok u xs \<and> sh_sched u = sh_sched s \<and> sh_polls u = sh_polls s"
proof -
  obtain u where u: "sh_writes ([10] @ asc ''RetaOS Kernel Shell - Type 'help' for commands'' @ [10, 10]) s = Some u" "shell_ok u xs"
    "sh_sched u = sh_sched s" "sh_polls u = sh_polls s" using sh_writes_ok [OF ok] by blast
  have "sh_serial c v = Some v" if "shell_ok v xs" for c v using that by (simp add: sh_serial_def shell_ok_def serial_not_ready)
  then have "shell_banner s = Some u" using u ok unfolding shell_banner_def by simp
  then show ?thesis using u by simp
qed

lemma session_ok: "session s t \<Longrightarrow> shell_ok s xs \<Longrightarrow> shell_ok t xs \<and> sh_sched t = sh_sched s"
proof (induction rule: session.induct)
  case (session_start s t)
  then show ?case using shell_banner_ok [OF session_start.prems] by auto
next
  case (session_round s t u)
  then show ?case using shell_round_answers [of t xs] by (auto simp: shell_round_def split: option.splits)
qed

text \<open>C37.  On a machine whose serial log is off (a part of \<open>shell_ok\<close>; with one a line may wait for the port for ever), however
  long a session of the shell lasts, the terminal is never written outside of its 80 by 25 cells and the
  scheduler is left alone.  A round waits for ever when the keys do not make a complete line; else it shows the answer to that
  line, which for \<^verbatim>\<open>ps\<close> contains the format of a thread's line verbatim, once for every thread.\<close>

theorem shell_session:
  assumes "session s0 s" and "shell_ok s0 xs"
  shows "shell_ok s xs \<and> sh_sched s = sh_sched s0
    \<and> (case edit_line 255 (keys_of (sh_polls s)) [] of
        None \<Rightarrow> shell_prompt s = None \<and> shell_round s = None
      | Some l \<Rightarrow> \<exists>t u. shell_prompt s = Some (int (length l), t) \<and> shell_round s = Some u \<and> cstr_at (sh_line t) = l \<and> shell_ok t xs \<and> sh_sched t = sh_sched s \<and> answered t xs l u)"
proof -
  have "shell_ok s xs" "sh_sched s = sh_sched s0" using session_ok [OF assms] by simp_all
  then show ?thesis using shell_round_answers [of s xs] by (auto simp: shell_round_def split: option.splits)
qed

definition demo_shell :: shell where
  "demo_shell = \<lparr>sh_term = \<lparr>te_r = 0, te_c = 0, te_col = 7, te_buf = replicate 2000 0\<rparr>,
     sh_log = \<lparr>se_ready = False, se_present = False, se_status = [], se_in = [], se_out = []\<rparr>,
     sh_polls = [(-1, -1), (112, -1), (120, -1), (8, -1), (115, 0), (-1, 13)], sh_line = replicate 256 0, sh_sched = demo_sched\<rparr>"

lemma shell_session_witness:
  "\<exists>s t u. session demo_shell s \<and> shell_round s = Some u \<and> sh_writes (ps_text demo_sched [0x2000, 0x3000]) t = Some u \<and> terminal_ok (sh_term t)"
proof -
  have ok: "shell_ok demo_shell [0x2000, 0x3000]"
    by (simp add: shell_ok_def sched_ok_def demo_shell_def demo_sched_def thread0_def terminal_ok_def)
  then obtain s where s: "shell_banner demo_shell = Some s" "sh_polls s = sh_polls demo_shell" using shell_banner_ok by blast
  then have r: "session demo_shell s" by (simp add: session_start)
  have e: "edit_line 255 (keys_of (sh_polls s)) [] = Some (asc ''ps'')" unfolding s by (simp add: demo_shell_def asc_def)
  have a: "asc ''ps'' \<noteq> []" "asc ''ps'' \<noteq> asc ''clear''" "asc ''ps'' \<noteq> asc ''help''" "asc ''ps'' \<noteq> asc ''version''"
    by (simp_all add: asc_def)
  obtain t u where "shell_round s = Some u" "sh_sched t = demo_sched" "answered t [0x2000, 0x3000] (asc ''ps'') u" "shell_ok t [0x2000, 0x3000]"
    using shell_session [OF r ok] unfolding e by (auto simp: demo_shell_def)
  then show ?thesis using r a by (auto simp: answered_def answer_def shell_ok_def)
qed

end
