(* ===== verification/KernelMain.thy ===== *)
theory KernelMain
  imports Launcher Boot Paging Gdt Splash FdTable Shell
begin

text \<open>
  \<^verbatim>\<open>_kernel_main\<close> of \<^verbatim>\<open>kernel/kernel.c\<close>: the whole boot, the initialisations of the components in their order on one
  machine.  The state of each component is a part of \<open>machine\<close>, and the parts that several of them share, the serial
  port, the text memory at 0xB8000 and the heap, are there once.

  The console has a text memory of its own: \<^verbatim>\<open>vga_buffer\<close> is set by \<^verbatim>\<open>console_init\<close>, which nothing in the kernel calls
  (only \<^verbatim>\<open>kernel_init\<close>, for the other boot code), so it is null and the console writes to the memory at address 0.

  The heap is initialised by the first \<^verbatim>\<open>kmalloc\<close>, in \<^verbatim>\<open>process_init\<close>, and with it, by the call without arguments of
  \<open>kheap_init\<close> (theory \<open>FrameBitmap\<close>), the frame allocator for a second time.

  No interrupt arrives during the boot; \<open>None\<close> is a fault or a wait for ever.
\<close>

subsection \<open>The machine\<close>

record machine =
  mc_is :: isys
  mc_screen :: "u16 list"
  mc_term :: terminal
  mc_level :: u32
  mc_gdt :: gdt_state
  mc_pmm :: pmm
  mc_mode :: video_mode
  mc_pg :: paging
  mc_fd :: fdstate
  mc_sc :: sstate

definition mc_log :: "string \<Rightarrow> machine \<Rightarrow> machine option" where
  "mc_log t m = map_option (\<lambda>i. m\<lparr>mc_is := i\<rparr>) (is_log (serial_write (asc t @ [13, 10])) (mc_is m))"

definition mc_progress :: "int \<Rightarrow> machine \<Rightarrow> machine option" where
  "mc_progress p m = map_option (\<lambda>b. m\<lparr>mc_screen := b\<rparr>) (splash_update_progress p (mc_screen m))"

definition mc_writes :: "cstr \<Rightarrow> machine \<Rightarrow> machine option" where
  "mc_writes t m = map_option (\<lambda>u. m\<lparr>mc_term := u, mc_screen := te_buf u\<rparr>) (writes t ((mc_term m)\<lparr>te_buf := mc_screen m\<rparr>))"

definition mc_term_init :: "machine \<Rightarrow> machine option" where
  "mc_term_init m = map_option (\<lambda>u. m\<lparr>mc_term := u, mc_screen := te_buf u,
     mc_is := fold (\<lambda>(p, v). is_outb p v) [(0x3D4, 0x0F), (0x3D5, 0), (0x3D4, 0x0E), (0x3D5, 0)] (mc_is m)\<rparr>) (term_init (mc_screen m))"

definition on_splash :: "(splash \<Rightarrow> splash option) \<Rightarrow> machine \<Rightarrow> machine option" where
  "on_splash f m = map_option (\<lambda>s. m\<lparr>mc_screen := sp_vga s, mc_level := db_level (sp_dbg s),
       mc_is := (mc_is m)\<lparr>is_console := db_con (sp_dbg s)\<rparr>\<rparr>)
     (f \<lparr>sp_vga = mc_screen m, sp_dbg = \<lparr>db_level = mc_level m, db_con = is_console (mc_is m)\<rparr>\<rparr>)"

definition boot_part :: "machine \<Rightarrow> boot" where
  "boot_part m = \<lparr>bo_serial = is_serial (mc_is m), bo_pmm = mc_pmm m, bo_mode = mc_mode m\<rparr>"

definition on_boot :: "(boot \<Rightarrow> boot option) \<Rightarrow> machine \<Rightarrow> machine option" where
  "on_boot f m = map_option (\<lambda>s. m\<lparr>mc_is := (mc_is m)\<lparr>is_serial := bo_serial s\<rparr>, mc_pmm := bo_pmm s, mc_mode := bo_mode s\<rparr>)
     (f (boot_part m))"

text \<open>\<^verbatim>\<open>paging_init\<close> allocates nothing: the heap in the state of \<open>Paging\<close> is not used.\<close>

definition mc_paging_init :: "machine \<Rightarrow> machine option" where
  "mc_paging_init m = map_option (\<lambda>s. m\<lparr>mc_pg := s, mc_is := (mc_is m)\<lparr>is_serial := pg_log s\<rparr>\<rparr>)
     (paging_init ((mc_pg m)\<lparr>pg_log := is_serial (mc_is m)\<rparr>))"

text \<open>
  The components know the heap only.  A step in which the heap becomes initialised has called \<^verbatim>\<open>kheap_init\<close>, whose other
  effect is on the frames.
\<close>

definition on_sched :: "stray \<Rightarrow> (sstate \<Rightarrow> sstate option) \<Rightarrow> machine \<Rightarrow> machine option" where
  "on_sched stack f m = do {
     s \<leftarrow> f (mc_sc m);
     let before = fs_heap (ps_fs (sc_ps (mc_sc m)));
     p \<leftarrow> (if kh_inited (fs_heap (ps_fs (sc_ps s))) then map_option snd (kheap_init stack (before, mc_pmm m)) else Some (mc_pmm m));
     Some (m\<lparr>mc_sc := s, mc_pmm := p\<rparr>) }"

subsection \<open>The boot\<close>

text \<open>The parts of \<^verbatim>\<open>_kernel_main\<close>: the text terminal; the processor's tables and the interrupts; the rest of the kernel.\<close>

definition start_text :: "machine \<Rightarrow> machine option" where
  "start_text m = do {
     m1 \<leftarrow> mc_log ''[DEBUG] Entered kernel_main!'' (m\<lparr>mc_is := (mc_is m)\<lparr>is_serial := serial_init (is_serial (mc_is m))\<rparr>\<rparr>);
     b \<leftarrow> for_loop 0 8 (\<lambda>i. set_cell i (0x1F00 OR ucast (asc ''KERNEL!!'' ! i))) (mc_screen m1);
     m2 \<leftarrow> mc_term_init (m1\<lparr>mc_screen := b\<rparr>);
     m3 \<leftarrow> mc_writes (asc ''RetaOS booting in CLI mode...'' @ [10]) m2;
     m4 \<leftarrow> mc_log ''RetaOS booting in CLI mode...'' m3;
     mc_progress 5 m4 }"

definition start_interrupts :: "(stub \<Rightarrow> u32) \<Rightarrow> machine \<Rightarrow> machine option" where
  "start_interrupts addr_of m = do {
     m1 \<leftarrow> mc_log ''[DEBUG] GDT initialized'' (m\<lparr>mc_gdt := gdt_init (mc_gdt m)\<rparr>);
     m2 \<leftarrow> mc_progress 15 m1;
     m3 \<leftarrow> mc_writes (asc ''IDT initialized'' @ [10]) (m2\<lparr>mc_is := idt_init addr_of (mc_is m2)\<rparr>);
     m4 \<leftarrow> mc_log ''[DEBUG] Initialize interrupt handling'' m3;
     m5 \<leftarrow> mc_progress 25 m4;
     m6 \<leftarrow> mc_writes (asc ''IRQ initialized'' @ [10]) (m5\<lparr>mc_is := irq_init_basic (mc_is m5)\<rparr>);
     m7 \<leftarrow> mc_log ''[DEBUG] Initialize IRQ handlers'' m6;
     m8 \<leftarrow> mc_progress 35 m7;
     m9 \<leftarrow> mc_log ''[DEBUG] Initialize keyboard'' (m8\<lparr>mc_is := (mc_is m8)\<lparr>is_kbd := keyboard_init (is_kbd (mc_is m8))\<rparr>\<rparr>);
     m10 \<leftarrow> mc_progress 45 m9;
     m11 \<leftarrow> mc_log ''[DEBUG] Interrupts enabled globally'' (m10\<lparr>mc_is := interrupts_enable (mc_is m10)\<rparr>);
     mc_progress 55 m11 }"

definition start_kernel :: "stray \<Rightarrow> u32 \<Rightarrow> u8 list \<Rightarrow> u32 \<Rightarrow> u32 \<Rightarrow> machine \<Rightarrow> machine option" where
  "start_kernel stack magic mb ks ke m = do {
     m1 \<leftarrow> on_boot (memory_init magic mb ks ke) m;
     m2 \<leftarrow> mc_paging_init m1;
     m3 \<leftarrow> mc_log ''[DEBUG] Initialize paging'' m2;
     m4 \<leftarrow> mc_progress 65 m3;
     m5 \<leftarrow> on_sched stack (\<lambda>s. Some (s\<lparr>sc_ps := process_init (sc_ps s)\<rparr>)) m4;
     m6 \<leftarrow> mc_log ''[DEBUG] Initialize process management'' m5;
     m7 \<leftarrow> mc_progress 75 m6;
     m8 \<leftarrow> on_sched stack threading_init m7;
     m9 \<leftarrow> mc_log ''[DEBUG] Initialize threading system'' m8;
     m10 \<leftarrow> mc_progress 85 m9;
     m11 \<leftarrow> mc_log ''[DEBUG] Initialize filesystem'' (m10\<lparr>mc_fd := fs_init (mc_fd m10)\<rparr>);
     m12 \<leftarrow> mc_progress 90 m11;
     m13 \<leftarrow> on_boot syscall_init m12;
     m14 \<leftarrow> mc_log ''[DEBUG] Initialize system calls'' m13;
     m15 \<leftarrow> mc_progress 95 m14;
     m16 \<leftarrow> on_boot mount_root m15;
     m17 \<leftarrow> mc_log ''[DEBUG] Mount root filesystem'' m16;
     m18 \<leftarrow> mc_progress 96 m17;
     m19 \<leftarrow> on_sched stack (\<lambda>s. Some (sched_init s)) m18;
     m20 \<leftarrow> mc_log ''[DEBUG] Initialize scheduler'' m19;
     m21 \<leftarrow> mc_progress 97 m20;
     m22 \<leftarrow> mc_progress 98 m21;
     m23 \<leftarrow> mc_log ''Initialization complete. Starting scheduler...'' m22;
     m24 \<leftarrow> mc_progress 99 m23;
     m25 \<leftarrow> mc_log ''[DEBUG] Creating user init launcher thread'' m24;
     mc_progress 100 m25 }"

text \<open>
  The boot ends in the scheduler, which \<^verbatim>\<open>splash_show_complete\<close> calls through \<^verbatim>\<open>kernel_continue_after_splash\<close>: the result is
  the switch it makes.  \<open>raw\<close> is what the heap holds where the launcher's thread is put, \<open>stack\<close> what the call of \<^verbatim>\<open>pmm_init\<close>
  without arguments finds.
\<close>

definition kernel_main :: "(stub \<Rightarrow> u32) \<Rightarrow> stray \<Rightarrow> u32 \<Rightarrow> u8 list \<Rightarrow> u32 \<Rightarrow> u32 \<Rightarrow> poll list \<Rightarrow> thread \<Rightarrow> addr \<Rightarrow> machine \<Rightarrow> (switching \<times> machine) option" where
  "kernel_main addr_of stack magic mb ks ke polls raw launcher m = do {
     m1 \<leftarrow> start_text m;
     m2 \<leftarrow> start_interrupts addr_of m1;
     m3 \<leftarrow> on_splash splash_show m2;
     m4 \<leftarrow> start_kernel stack magic mb ks ke m3;
     m5 \<leftarrow> on_splash (splash_show_complete polls) m4;
     (w, b) \<leftarrow> kernel_continue_after_splash raw launcher \<lparr>bo_sc = mc_sc m5, bo_is = mc_is m5\<rparr>;
     Some (w, m5\<lparr>mc_sc := bo_sc b, mc_is := bo_is b\<rparr>) }"

subsection \<open>The steps\<close>

text \<open>Without a serial port the messages to it do nothing.\<close>

lemma mc_log_quiet: "\<not> se_ready (is_serial (mc_is m)) \<Longrightarrow> mc_log t m = Some m"
  by (simp add: mc_log_def is_log_def serial_not_ready)

definition with_bar :: "int \<Rightarrow> u16 list \<Rightarrow> u16 list" where
  "with_bar p b = put_cells 1505 (map (text_cell 0x0F) (percent_text (clamp_percent p))) (put_cells 1475 (map (bar_cell (clamp_percent p)) [0..<30]) b)"

lemma with_bar_length [simp]: "length b = 2000 \<Longrightarrow> length (with_bar p b) = 2000"
proof -
  assume b: "length b = 2000"
  have "length (percent_text (clamp_percent p)) \<le> 4" by (simp add: percent_text_def asc_def)
  then show ?thesis using b by (simp add: with_bar_def put_cells_length)
qed

lemma mc_progress_quiet: "length (mc_screen m) = 2000 \<Longrightarrow> mc_progress p m = Some (m\<lparr>mc_screen := with_bar p (mc_screen m)\<rparr>)"
  using update_cells [of "mc_screen m" p] by (simp add: mc_progress_def with_bar_def)

definition cursor_ok :: "terminal \<Rightarrow> bool" where
  "cursor_ok t \<longleftrightarrow> te_r t < 25 \<and> te_c t < 80"

definition written :: "cstr \<Rightarrow> terminal \<Rightarrow> u16 list \<Rightarrow> terminal" where
  "written cs t b = the (writes cs (t\<lparr>te_buf := b\<rparr>))"

lemma written:
  assumes "cursor_ok t" and "length b = 2000"
  shows "writes cs (t\<lparr>te_buf := b\<rparr>) = Some (written cs t b)" "length (te_buf (written cs t b)) = 2000" "cursor_ok (written cs t b)"
proof -
  have "terminal_ok (t\<lparr>te_buf := b\<rparr>)" using assms by (simp add: terminal_ok_def cursor_ok_def)
  then obtain u where u: "writes cs (t\<lparr>te_buf := b\<rparr>) = Some u" "terminal_ok u" using writes_ok by blast
  then have "written cs t b = u" by (simp add: written_def)
  then show "writes cs (t\<lparr>te_buf := b\<rparr>) = Some (written cs t b)" "length (te_buf (written cs t b)) = 2000" "cursor_ok (written cs t b)"
    using u by (simp_all add: terminal_ok_def cursor_ok_def)
qed

lemma mc_writes_quiet:
  "cursor_ok (mc_term m) \<Longrightarrow> length (mc_screen m) = 2000 \<Longrightarrow>
   mc_writes cs m = Some (m\<lparr>mc_term := written cs (mc_term m) (mc_screen m), mc_screen := te_buf (written cs (mc_term m) (mc_screen m))\<rparr>)"
  by (simp add: mc_writes_def written(1))

lemmas quiet_steps = mc_log_quiet mc_progress_quiet mc_writes_quiet written(2,3)

lemma serial_absent: "\<not> se_present s \<Longrightarrow> se_ready (serial_init s) = se_ready s"
proof -
  have "se_ready (se_outbs xs t) = se_ready t \<and> se_present (se_outbs xs t) = se_present t" for xs t
    by (induction xs t rule: se_outbs.induct) (simp_all add: se_outb_def)
  then show "\<not> se_present s \<Longrightarrow> ?thesis" by (simp add: serial_init_def Let_def del: se_outbs.simps)
qed

lemma start_text_returns:
  assumes "\<not> se_ready (is_serial (mc_is m))" and "\<not> se_present (is_serial (mc_is m))" and "length (mc_screen m) = 2000"
  obtains u b w where "start_text m = Some (m\<lparr>mc_is := (mc_is m)\<lparr>is_serial := serial_init (is_serial (mc_is m)), is_ports := w\<rparr>,
      mc_term := u, mc_screen := b\<rparr>)" "length b = 2000" "cursor_ok u"
proof -
  let ?i = "(mc_is m)\<lparr>is_serial := serial_init (is_serial (mc_is m))\<rparr>"
  have q: "\<not> se_ready (is_serial ?i)" using assms(1,2) by (simp add: serial_absent)
  obtain b0 where b0: "for_loop 0 8 (\<lambda>i. set_cell i (0x1F00 OR ucast (asc ''KERNEL!!'' ! i))) (mc_screen m) = Some b0" "length b0 = 2000"
    using fill_cells [of 0 8 "mc_screen m" "\<lambda>i. 0x1F00 OR ucast (asc ''KERNEL!!'' ! i)"] assms(3) by (auto simp: asc_def)
  obtain t0 where t0: "term_init b0 = Some t0" "terminal_ok t0"
    using clear_rows [OF b0(2), of "vga_entry 32 (vga_entry_color 7 0)"] by (auto simp: term_init_def Let_def terminal_ok_def)
  define w where "w = is_ports ?i @ [(0x3D4, 0x0F), (0x3D5, 0), (0x3D4, 0x0E), (0x3D5, 0)]"
  have ti: "mc_term_init (m\<lparr>mc_is := ?i, mc_screen := b0\<rparr>) = Some (m\<lparr>mc_is := ?i\<lparr>is_ports := w\<rparr>, mc_screen := te_buf t0, mc_term := t0\<rparr>)"
    using t0(1) by (simp add: mc_term_init_def is_outb_def w_def)
  have c: "length (te_buf t0) = 2000" "cursor_ok t0" using t0(2) by (simp_all add: terminal_ok_def cursor_ok_def)
  let ?u = "written (asc ''RetaOS booting in CLI mode...'' @ [10]) t0 (te_buf t0)"
  have "start_text m = Some (m\<lparr>mc_is := ?i\<lparr>is_ports := w\<rparr>, mc_term := ?u, mc_screen := with_bar 5 (te_buf ?u)\<rparr>)"
    using q b0(1) ti c by (simp add: start_text_def quiet_steps del: asc_def)
  then show ?thesis using that [of "with_bar 5 (te_buf ?u)" ?u w] c by (simp add: quiet_steps del: asc_def)
qed

lemma fold_gates_others:
  "is_serial (fold (\<lambda>i. idt_set_gate (f i) (b i) sel fl) xs s) = is_serial s"
  "is_console (fold (\<lambda>i. idt_set_gate (f i) (b i) sel fl) xs s) = is_console s"
  by (induction xs arbitrary: s) (simp_all add: idt_set_gate_def)

lemma idt_init_others: "is_serial (idt_init a s) = is_serial s" "is_console (idt_init a s) = is_console s"
  by (simp_all add: idt_init_def Let_def fold_gates_others del: upt.simps)
    (simp_all add: idt_set_gate_def fold_gates_others pic_remap_def is_outb_def del: upt.simps)

lemma irq_basic_others: "is_serial (irq_init_basic s) = is_serial s" "is_console (irq_init_basic s) = is_console s"
  by (simp_all add: irq_init_basic_def irq_install_handler_def pic_unmask_timer_keyboard_def Let_def is_outb_def)

definition irqs_started :: "(stub \<Rightarrow> u32) \<Rightarrow> isys \<Rightarrow> isys" where
  "irqs_started a i = (let j = irq_init_basic (idt_init a i) in j\<lparr>is_kbd := keyboard_init (is_kbd j), is_enabled := True\<rparr>)"

lemma irqs_started_others: "is_serial (irqs_started a i) = is_serial i" "is_console (irqs_started a i) = is_console i"
  "is_enabled (irqs_started a i)" "is_idt (irqs_started a i) = is_idt (irq_init_basic (idt_init a i))"
  "is_handlers (irqs_started a i) = is_handlers (irq_init_basic (idt_init a i))"
  by (simp_all add: irqs_started_def Let_def irq_basic_others idt_init_others)

lemma start_interrupts_returns:
  assumes "\<not> se_ready (is_serial (mc_is m))" and "length (mc_screen m) = 2000" and "cursor_ok (mc_term m)"
  obtains u b where "start_interrupts a m = Some (m\<lparr>mc_gdt := gdt_init (mc_gdt m), mc_is := irqs_started a (mc_is m), mc_term := u, mc_screen := b\<rparr>)"
    "length b = 2000" "cursor_ok u"
proof -
  let ?l1 = "asc ''IDT initialized'' @ [10]" and ?l2 = "asc ''IRQ initialized'' @ [10]"
  let ?u1 = "written ?l1 (mc_term m) (with_bar 15 (mc_screen m))"
  let ?u2 = "written ?l2 ?u1 (with_bar 25 (te_buf ?u1))"
  let ?b = "with_bar 55 (with_bar 45 (with_bar 35 (te_buf ?u2)))"
  have u: "cursor_ok ?u1" "length (te_buf ?u1) = 2000" "cursor_ok ?u2" "length (te_buf ?u2) = 2000"
    using assms(2,3) by (simp_all add: written(2,3) del: asc_def)
  have "start_interrupts a m = Some (m\<lparr>mc_gdt := gdt_init (mc_gdt m), mc_is := irqs_started a (mc_is m), mc_term := ?u2, mc_screen := ?b\<rparr>)"
    using assms u by (simp add: start_interrupts_def mc_log_quiet mc_progress_quiet mc_writes_quiet idt_init_others irq_basic_others
      interrupts_enable_def irqs_started_def Let_def del: asc_def)
  then show ?thesis using that u(3,4) by simp
qed

subsection \<open>Memory, processes and threads\<close>

lemma on_pmm_Some: "on_pmm f s = Some t \<longleftrightarrow> (\<exists>p. f (bo_pmm s) = Some p \<and> t = s\<lparr>bo_pmm := p\<rparr>)"
  by (auto simp: on_pmm_def)

lemma memory_init_silent:
  assumes s: "silent s" and m: "memory_init magic mb ks ke s = Some t"
  shows "bo_serial t = bo_serial s"
proof (cases "magic = MULTIBOOT2_BOOTLOADER_MAGIC \<or> magic = 0x1BADB002")
  case True
  then obtain f t2 where b: "boot_tags mb 8 (0, None, 0) s = Some (f, t2)"
    using m s by (auto simp: memory_init_def split: bind_splits)
  then have "t2 = s" using boot_tags_silent [OF b s] by simp
  then obtain upper map_pos count where b: "boot_tags mb 8 (0, None, 0) s = Some ((upper, map_pos, count), s)" using b by (cases f) simp
  show "bo_serial t = bo_serial s"
  proof (cases "map_pos = None \<or> count = 0")
    case True
    then show ?thesis using m s b \<open>magic = _ \<or> _\<close>
      by (cases map_pos) (auto simp: memory_init_def on_pmm_Some bind_eq_Some_conv split: if_splits simp del: asc_def)
  next
    case False
    then show ?thesis using m s b \<open>magic = _ \<or> _\<close>
      by (auto simp: memory_init_def on_pmm_Some bind_eq_Some_conv split: if_splits simp del: asc_def)
  qed
next
  case False
  then show ?thesis using m s by (auto simp: memory_init_def on_pmm_Some bind_eq_Some_conv split: if_splits simp del: asc_def)
qed

text \<open>The scheduler's state with the static initialisers' values: an empty heap and nothing in it.\<close>

definition cold :: "sstate \<Rightarrow> bool" where
  "cold s \<longleftrightarrow> fs_heap (ps_fs (sc_ps s)) = kheap_boot \<and> fs_nodes (ps_fs (sc_ps s)) = Map.empty \<and> fs_privs (ps_fs (sc_ps s)) = Map.empty
     \<and> fs_metas (ps_fs (sc_ps s)) = Map.empty \<and> fs_datas (ps_fs (sc_ps s)) = Map.empty \<and> ps_procs (sc_ps s) = Map.empty
     \<and> sc_threads s = Map.empty"

text \<open>What is allocated, in this order: the first process, the boot thread and its stack, the launcher's thread and its stack.\<close>

lemma boot_addresses:
  obtains h1 h2 h3 h4 h5 where "kmalloc PROCESS_SIZE kheap_boot = (0xC000000C, h1)" "kmalloc THREAD_SIZE h1 = (0xC000005C, h2)"
    "kmalloc DEFAULT_STACK_SIZE h2 = (0xC000009C, h3)" "kmalloc THREAD_SIZE h3 = (0xC00040A8, h4)"
    "kmalloc DEFAULT_STACK_SIZE h4 = (0xC00040E8, h5)" "kheap_inv h3" "live h3 = {0xC000000C, 0xC000005C, 0xC000009C}"
proof -
  let ?h1 = "snd (kmalloc PROCESS_SIZE kheap_boot)"
  let ?h2 = "snd (kmalloc THREAD_SIZE ?h1)"
  let ?h3 = "snd (kmalloc DEFAULT_STACK_SIZE ?h2)"
  let ?h4 = "snd (kmalloc THREAD_SIZE ?h3)"
  have "kmalloc PROCESS_SIZE kheap_boot = kmalloc PROCESS_SIZE (heap_area kheap_boot)"
    by (simp add: kmalloc_def heap_area_def kheap_boot_def heap_consts PROCESS_SIZE_def)
  moreover have "kheap_inv (snd (kmalloc PROCESS_SIZE (heap_area kheap_boot)))"
    by (intro kmalloc_inv heap_area_inv) (simp_all add: kmalloc_ok_def PROCESS_SIZE_def)
  ultimately have "kheap_inv ?h1" by simp
  then have "kheap_inv ?h2" by (rule kmalloc_inv) (simp add: kmalloc_ok_def THREAD_SIZE_def)
  then have i: "kheap_inv ?h3" by (rule kmalloc_inv) (simp add: kmalloc_ok_def DEFAULT_STACK_SIZE_def)
  have a: "fst (kmalloc PROCESS_SIZE kheap_boot) = 0xC000000C" "fst (kmalloc THREAD_SIZE ?h1) = 0xC000005C"
    "fst (kmalloc DEFAULT_STACK_SIZE ?h2) = 0xC000009C" "fst (kmalloc THREAD_SIZE ?h3) = 0xC00040A8"
    "fst (kmalloc DEFAULT_STACK_SIZE ?h4) = 0xC00040E8" "live ?h3 = {0xC000000C, 0xC000005C, 0xC000009C}"
    by (auto simp: extents_live kmalloc_def heap_area_def kheap_boot_def heap_consts PROCESS_SIZE_def THREAD_SIZE_def DEFAULT_STACK_SIZE_def)
  show ?thesis
    by (rule that [of ?h1 ?h2 ?h3 ?h4 "snd (kmalloc DEFAULT_STACK_SIZE ?h4)"]) (use a i in \<open>simp_all add: prod_eq_iff\<close>)
qed

lemma boot_threads:
  assumes "cold s"
  obtains u s1 s2 where "\<not> kh_inited (fs_heap (ps_fs (sc_ps s)))" "kh_inited (fs_heap (ps_fs (process_init (sc_ps s))))"
    "threading_init (s\<lparr>sc_ps := process_init (sc_ps s)\<rparr>) = Some u" "kh_inited (fs_heap (ps_fs (sc_ps u)))" "sc_ok (sched_init u)" "ready_queue (sched_init u) []"
    "tc_entry u = tc_entry s" "ps_current (sc_ps u) = 0xC000000C" "map_option pr_pid (ps_procs (sc_ps u) 0xC000000C) = Some (ps_next_pid (sc_ps s))"
    "sc_alloc THREAD_SIZE (sched_init u) = (0xC00040A8, s1)" "sc_alloc DEFAULT_STACK_SIZE s1 = (0xC00040E8, s2)"
proof -
  obtain h1 h2 h3 h4 h5 where h: "kmalloc PROCESS_SIZE kheap_boot = (0xC000000C, h1)" "kmalloc THREAD_SIZE h1 = (0xC000005C, h2)"
    "kmalloc DEFAULT_STACK_SIZE h2 = (0xC000009C, h3)" "kmalloc THREAD_SIZE h3 = (0xC00040A8, h4)"
    "kmalloc DEFAULT_STACK_SIZE h4 = (0xC00040E8, h5)" "kheap_inv h3" "live h3 = {0xC000000C, 0xC000005C, 0xC000009C}"
    by (rule boot_addresses)
  let ?s = "s\<lparr>sc_ps := process_init (sc_ps s)\<rparr>"
  obtain u where u: "threading_init ?s = Some u" "fs_heap (ps_fs (sc_ps u)) = h3" "fs_nodes (ps_fs (sc_ps u)) = Map.empty"
    "fs_privs (ps_fs (sc_ps u)) = Map.empty" "fs_metas (ps_fs (sc_ps u)) = Map.empty" "fs_datas (ps_fs (sc_ps u)) = Map.empty"
    "dom (sc_threads u) = {0xC000005C}" "tc_entry u = tc_entry s" "ps_current (sc_ps u) = 0xC000000C"
    "map_option pr_pid (ps_procs (sc_ps u) 0xC000000C) = Some (ps_next_pid (sc_ps s))"
    using assms h(1-3) by (auto simp: cold_def threading_init_def process_init_def sc_alloc_def ps_alloc_def fs_alloc_def Let_def)
  have ok: "sc_ok (sched_init u)" using u h(6,7) by (simp add: sc_ok_def fs_wf_def sched_init_def)
  have q: "ready_queue (sched_init u) []" by (simp add: ready_queue_def sched_init_def)
  obtain s1 where s1: "sc_alloc THREAD_SIZE (sched_init u) = (0xC00040A8, s1)" "fs_heap (ps_fs (sc_ps s1)) = h4"
    using h(4) u(2) by (simp add: sc_alloc_def ps_alloc_def fs_alloc_def sched_init_def)
  obtain s2 where "sc_alloc DEFAULT_STACK_SIZE s1 = (0xC00040E8, s2)"
    using h(5) s1(2) by (simp add: sc_alloc_def ps_alloc_def fs_alloc_def)
  moreover have "\<not> kh_inited (fs_heap (ps_fs (sc_ps s)))" using assms by (simp add: cold_def kheap_boot_def)
  moreover have "kh_inited h1" "kh_inited h3"
    using kmalloc_inits [of PROCESS_SIZE kheap_boot] kmalloc_inits [of DEFAULT_STACK_SIZE h2] h(1,3) by simp_all
  then have "kh_inited (fs_heap (ps_fs (process_init (sc_ps s))))" "kh_inited (fs_heap (ps_fs (sc_ps u)))"
    using assms h(1) u(2) by (simp_all add: cold_def process_init_def ps_alloc_def fs_alloc_def Let_def)
  ultimately show ?thesis using that u(1,8-10) ok q s1(1) by blast
qed

lemma memory_and_paging:
  assumes q: "\<not> se_ready (is_serial (mc_is m))" and mem: "memory_init magic mb ks ke (boot_part m) = Some bt"
    and pg: "linked (mc_pg m)" "\<not> pg_on (mc_pg m)"
  obtains p where "on_boot (memory_init magic mb ks ke) m = Some (m\<lparr>mc_pmm := bo_pmm bt, mc_mode := bo_mode bt\<rparr>)"
    "\<forall>x y. mc_paging_init (m\<lparr>mc_pmm := x, mc_mode := y\<rparr>) = Some (m\<lparr>mc_pmm := x, mc_mode := y, mc_pg := p\<rparr>)"
    "mapped ((mc_pg m)\<lparr>pg_log := is_serial (mc_is m)\<rparr>) p"
proof -
  let ?p = "(mc_pg m)\<lparr>pg_log := is_serial (mc_is m)\<rparr>"
  have s: "silent (boot_part m)" using q by (simp add: silent_def boot_part_def)
  have sr: "bo_serial bt = is_serial (mc_is m)" using memory_init_silent [OF s mem] by (simp add: boot_part_def)
  have ln: "linked ?p" "\<not> pg_on ?p" "\<not> se_ready (pg_log ?p)" using pg q by (simp_all add: linked_def)
  obtain p cs where p: "paging_init ?p = Some p" "mapped ?p p" and w: "serial_write cs (pg_log ?p) = Some (pg_log p)"
    using paging_init_logs [OF ln(1,2)] ln(3) by blast
  have lg: "pg_log p = is_serial (mc_is m)" using w q by (simp add: serial_not_ready)
  show ?thesis by (rule that [of p]) (use mem sr p lg in \<open>simp_all add: on_boot_def mc_paging_init_def\<close>)
qed

text \<open>When the call of \<^verbatim>\<open>pmm_init\<close> without arguments has no result, neither has the boot.\<close>

lemma start_kernel_faults:
  assumes q: "\<not> se_ready (is_serial (mc_is m))" "length (mc_screen m) = 2000" and mem: "memory_init magic mb ks ke (boot_part m) = Some bt"
    and pg: "linked (mc_pg m)" "\<not> pg_on (mc_pg m)" and stray: "pmm_init w1 w2 w3 str (bo_pmm bt) = None"
    and hp: "\<not> kh_inited (fs_heap (ps_fs (sc_ps (mc_sc m))))" "kh_inited (fs_heap (ps_fs (process_init (sc_ps (mc_sc m)))))"
  shows "start_kernel (w1, w2, w3, str) magic mb ks ke m = None"
proof -
  obtain p where 1: "on_boot (memory_init magic mb ks ke) m = Some (m\<lparr>mc_pmm := bo_pmm bt, mc_mode := bo_mode bt\<rparr>)"
    and 2: "\<forall>x y. mc_paging_init (m\<lparr>mc_pmm := x, mc_mode := y\<rparr>) = Some (m\<lparr>mc_pmm := x, mc_mode := y, mc_pg := p\<rparr>)"
    by (rule memory_and_paging [OF q(1) mem pg])
  show ?thesis
    using q hp stray by (simp add: start_kernel_def 1 2 on_sched_def kheap_init_def mc_log_quiet mc_progress_quiet)
qed

lemma start_kernel_returns:
  assumes q: "\<not> se_ready (is_serial (mc_is m))" "length (mc_screen m) = 2000" and mem: "memory_init magic mb ks ke (boot_part m) = Some bt"
    and pg: "linked (mc_pg m)" "\<not> pg_on (mc_pg m)" and stray: "pmm_init w1 w2 w3 str (bo_pmm bt) = Some fr"
    and hp: "\<not> kh_inited (fs_heap (ps_fs (sc_ps (mc_sc m))))" "kh_inited (fs_heap (ps_fs (process_init (sc_ps (mc_sc m)))))"
      "kh_inited (fs_heap (ps_fs (sc_ps u)))"
    and th: "threading_init ((mc_sc m)\<lparr>sc_ps := process_init (sc_ps (mc_sc m))\<rparr>) = Some u"
  obtains b p where "start_kernel (w1, w2, w3, str) magic mb ks ke m = Some (m\<lparr>mc_pmm := fr, mc_mode := bo_mode bt, mc_pg := p,
      mc_fd := fs_init (mc_fd m), mc_sc := sched_init u, mc_screen := b\<rparr>)" "length b = 2000"
    "mapped ((mc_pg m)\<lparr>pg_log := is_serial (mc_is m)\<rparr>) p"
proof -
  obtain p where 1: "on_boot (memory_init magic mb ks ke) m = Some (m\<lparr>mc_pmm := bo_pmm bt, mc_mode := bo_mode bt\<rparr>)"
    and 2: "\<forall>x y. mc_paging_init (m\<lparr>mc_pmm := x, mc_mode := y\<rparr>) = Some (m\<lparr>mc_pmm := x, mc_mode := y, mc_pg := p\<rparr>)"
    and p: "mapped ((mc_pg m)\<lparr>pg_log := is_serial (mc_is m)\<rparr>) p"
    by (rule memory_and_paging [OF q(1) mem pg])
  have bs: "on_boot syscall_init n = Some n" "on_boot mount_root n = Some n" if "\<not> se_ready (is_serial (mc_is n))" for n
    using that by (simp_all add: on_boot_def syscall_init_def mount_root_def silent_def boot_part_def)
  have so: "on_sched (w1, w2, w3, str) f n = Some (n\<lparr>mc_sc := s\<rparr>)"
    if "f (mc_sc n) = Some s" "kh_inited (fs_heap (ps_fs (sc_ps (mc_sc n))))" for f n s
    using that by (simp add: on_sched_def kheap_init_def)
  have so1: "on_sched (w1, w2, w3, str) (\<lambda>s. Some (s\<lparr>sc_ps := process_init (sc_ps s)\<rparr>)) n
      = Some (n\<lparr>mc_sc := (mc_sc m)\<lparr>sc_ps := process_init (sc_ps (mc_sc m))\<rparr>, mc_pmm := fr\<rparr>)"
    if "mc_sc n = mc_sc m" "mc_pmm n = bo_pmm bt" for n
    using that hp(1,2) stray by (simp add: on_sched_def kheap_init_def)
  let ?b = "with_bar 100 (with_bar 99 (with_bar 98 (with_bar 97 (with_bar 96 (with_bar 95 (with_bar 90 (with_bar 85 (with_bar 75
    (with_bar 65 (mc_screen m))))))))))"
  have "start_kernel (w1, w2, w3, str) magic mb ks ke m = Some (m\<lparr>mc_pmm := fr, mc_mode := bo_mode bt, mc_pg := p,
      mc_fd := fs_init (mc_fd m), mc_sc := sched_init u, mc_screen := ?b\<rparr>)"
    using q hp(2,3) by (simp add: start_kernel_def 1 2 th so so1 mc_log_quiet mc_progress_quiet bs sched_init_def)
  then show ?thesis using that q(2) p by simp
qed

subsection \<open>The whole boot\<close>

text \<open>The machine as the loader leaves it: no serial port, the tables in the places and with the sizes the linker gives
  them, everything else with its static initial value.\<close>

definition power_on :: "machine \<Rightarrow> bool" where
  "power_on m \<longleftrightarrow> \<not> se_ready (is_serial (mc_is m)) \<and> \<not> se_present (is_serial (mc_is m)) \<and> length (mc_screen m) = 2000
     \<and> console_ok (is_console (mc_is m)) \<and> length (is_idt (mc_is m)) = 256 \<and> length (is_handlers (mc_is m)) = 16
     \<and> length (gs_table (mc_gdt m)) = 6 \<and> linked (mc_pg m) \<and> \<not> pg_on (mc_pg m) \<and> cold (mc_sc m)"

lemma bo_log_quiet: "\<not> se_ready (is_serial (bo_is b)) \<Longrightarrow> bo_log t b = Some b"
  by (simp add: bo_log_def is_log_def serial_not_ready)

lemma splash_on_machine:
  assumes "length (mc_screen m) = 2000" and "console_ok (is_console (mc_is m))"
  obtains v l c where "on_splash splash_show m = Some (m\<lparr>mc_screen := v, mc_level := l, mc_is := (mc_is m)\<lparr>is_console := c\<rparr>\<rparr>)"
      "length v = 2000" "console_ok c"
proof -
  have "console_ok (db_con \<lparr>db_level = mc_level m, db_con = is_console (mc_is m)\<rparr>)" using assms(2) by simp
  from splash_show_cells [OF assms(1) this] obtain e
    where "splash_show \<lparr>sp_vga = mc_screen m, sp_dbg = \<lparr>db_level = mc_level m, db_con = is_console (mc_is m)\<rparr>\<rparr>
      = Some \<lparr>sp_vga = put_all splash_texts (replicate 2000 (text_cell 0x0F 32)), sp_dbg = e\<rparr>" "console_ok (db_con e)" by blast
  then show ?thesis
    using that put_texts_cells [OF splash_texts_split(3), of "replicate 2000 (text_cell 0x0F 32)"] by (simp add: on_splash_def)
qed

lemma splash_left:
  assumes "length (mc_screen m) = 2000" and "console_ok (is_console (mc_is m))"
  obtains l c where "on_splash (splash_show_complete ps) m
    = Some (m\<lparr>mc_screen := replicate 2000 (text_cell 0x07 32), mc_level := l, mc_is := (mc_is m)\<lparr>is_console := c\<rparr>\<rparr>)"
proof -
  have "console_ok (db_con \<lparr>db_level = mc_level m, db_con = is_console (mc_is m)\<rparr>)" using assms(2) by simp
  from splash_complete_clears [OF assms(1) this, of ps] obtain e
    where "splash_show_complete ps \<lparr>sp_vga = mc_screen m, sp_dbg = \<lparr>db_level = mc_level m, db_con = is_console (mc_is m)\<rparr>\<rparr>
      = Some \<lparr>sp_vga = replicate 2000 (text_cell 0x07 32), sp_dbg = e\<rparr>" by blast
  then show ?thesis using that by (simp add: on_splash_def)
qed

lemma scheduler_entered:
  assumes "\<not> se_ready (is_serial i)" and "sc_ok s" and "ready_queue s []" and "launcher \<noteq> 0"
    and "sc_alloc THREAD_SIZE s = (t, s1)" and "t \<noteq> 0" and "sc_alloc DEFAULT_STACK_SIZE s1 = (base, s2)" and "base \<noteq> 0"
  obtains v where "kernel_continue_after_splash raw launcher \<lparr>bo_sc = s, bo_is = i\<rparr> = Some (Switch 0 t, \<lparr>bo_sc = v, bo_is = i\<rparr>)"
    "perform (Switch 0 t) r v = Some (Some (tc_entry s, \<lparr>k_edi = 0, k_esi = 0, k_ebx = 0, k_ebp = 0,
       k_esp = (base + DEFAULT_STACK_SIZE) AND NOT 0xF\<rparr>), v)" "thread_entry v = Some (Some (launcher, 0))"
proof -
  obtain u v where "thread_create raw launcher 0 s = Some (tc_next_tid s, u)" "sched_start u = Some (Switch 0 t, v)"
    "perform (Switch 0 t) r v = Some (Some (tc_entry s, \<lparr>k_edi = 0, k_esi = 0, k_ebx = 0, k_ebp = 0,
       k_esp = (base + DEFAULT_STACK_SIZE) AND NOT 0xF\<rparr>), v)" "thread_entry v = Some (Some (launcher, 0))"
    using first_thread_starts [OF assms(2-8)] by blast
  then show ?thesis using that assms(1) by (simp add: kernel_continue_after_splash_def bo_log_quiet scheduler_start_def)
qed

lemma irqs_started_gates:
  assumes "length (is_idt i) = 256" and "length (is_handlers i) = 16" and "v < 256"
  shows "gate_target (is_idt (irqs_started a i) ! v) = (if v < 20 then a (Ex_stub v) else if 32 \<le> v \<and> v < 48 then a (Irq_stub (v - 32))
      else if v = 0x80 then a Syscall80_stub else 0)"
proof -
  have "length (is_handlers (idt_init a i)) = 16" using assms(2) idt_init_gates(3) [OF assms(1,3), of a] by simp
  then show ?thesis using idt_init_gates(1) [OF assms(1,3), of a] basic_handlers(3) [of "idt_init a i"]
    by (simp add: irqs_started_others gate_of_simps)
qed

text \<open>Up to the splash screen.\<close>

lemma started_up:
  assumes "power_on m"
  obtains w u v l c where "do { m1 \<leftarrow> start_text m; m2 \<leftarrow> start_interrupts a m1; on_splash splash_show m2 }
      = Some (m\<lparr>mc_gdt := gdt_init (mc_gdt m), mc_is := (irqs_started a ((mc_is m)\<lparr>is_serial := serial_init (is_serial (mc_is m)), is_ports := w\<rparr>))\<lparr>is_console := c\<rparr>,
          mc_term := u, mc_screen := v, mc_level := l\<rparr>)"
    "length v = 2000" "console_ok c"
proof -
  have p: "\<not> se_ready (is_serial (mc_is m))" "\<not> se_present (is_serial (mc_is m))" "length (mc_screen m) = 2000" "console_ok (is_console (mc_is m))"
    using assms by (simp_all add: power_on_def)
  let ?sr = "serial_init (is_serial (mc_is m))"
  have sr: "\<not> se_ready ?sr" using p(1,2) by (simp add: serial_absent)
  obtain u b w where 1: "start_text m = Some (m\<lparr>mc_is := (mc_is m)\<lparr>is_serial := ?sr, is_ports := w\<rparr>, mc_term := u, mc_screen := b\<rparr>)"
    "length b = 2000" "cursor_ok u" by (rule start_text_returns [OF p(1-3)])
  let ?m1 = "m\<lparr>mc_is := (mc_is m)\<lparr>is_serial := ?sr, is_ports := w\<rparr>, mc_term := u, mc_screen := b\<rparr>"
  obtain u2 b2 where 2: "start_interrupts a ?m1 = Some (?m1\<lparr>mc_gdt := gdt_init (mc_gdt ?m1), mc_is := irqs_started a (mc_is ?m1), mc_term := u2, mc_screen := b2\<rparr>)"
    "length b2 = 2000" by (rule start_interrupts_returns [of ?m1 a]) (use 1 sr in simp_all)
  let ?m2 = "?m1\<lparr>mc_gdt := gdt_init (mc_gdt ?m1), mc_is := irqs_started a (mc_is ?m1), mc_term := u2, mc_screen := b2\<rparr>"
  obtain v l c where 3: "on_splash splash_show ?m2 = Some (?m2\<lparr>mc_screen := v, mc_level := l, mc_is := (mc_is ?m2)\<lparr>is_console := c\<rparr>\<rparr>)"
    "length v = 2000" "console_ok c" by (rule splash_on_machine [of ?m2]) (use 2(2) p(4) in \<open>simp_all add: irqs_started_others\<close>)
  show ?thesis by (rule that [of l v u2 c w]) (use 1(1) 2(1) 3 in simp_all)
qed

lemma kernel_main_parts:
  assumes "do { m1 \<leftarrow> start_text m; m2 \<leftarrow> start_interrupts a m1; on_splash splash_show m2 } = Some m3"
  shows "kernel_main a stack magic mb ks ke ps raw launcher m = do {
     m4 \<leftarrow> start_kernel stack magic mb ks ke m3;
     m5 \<leftarrow> on_splash (splash_show_complete ps) m4;
     (w, b) \<leftarrow> kernel_continue_after_splash raw launcher \<lparr>bo_sc = mc_sc m5, bo_is = mc_is m5\<rparr>;
     Some (w, m5\<lparr>mc_sc := bo_sc b, mc_is := bo_is b\<rparr>) }"
  using assms by (auto simp: kernel_main_def bind_eq_Some_conv)

lemma boot_faults:
  assumes on: "power_on m" and stray: "pmm_init w1 w2 w3 str (bo_pmm bt) = None"
    and mem: "memory_init magic mb ks ke \<lparr>bo_serial = serial_init (is_serial (mc_is m)), bo_pmm = mc_pmm m, bo_mode = mc_mode m\<rparr> = Some bt"
  shows "kernel_main a (w1, w2, w3, str) magic mb ks ke ps raw launcher m = None"
proof -
  have p: "\<not> se_ready (is_serial (mc_is m))" "\<not> se_present (is_serial (mc_is m))" "linked (mc_pg m)" "\<not> pg_on (mc_pg m)" "cold (mc_sc m)"
    using on by (simp_all add: power_on_def)
  obtain w u v l c where 3: "do { m1 \<leftarrow> start_text m; m2 \<leftarrow> start_interrupts a m1; on_splash splash_show m2 }
      = Some (m\<lparr>mc_gdt := gdt_init (mc_gdt m), mc_is := (irqs_started a ((mc_is m)\<lparr>is_serial := serial_init (is_serial (mc_is m)), is_ports := w\<rparr>))\<lparr>is_console := c\<rparr>,
          mc_term := u, mc_screen := v, mc_level := l\<rparr>)"
    "length v = 2000" by (rule started_up [OF on])
  let ?j = "irqs_started a ((mc_is m)\<lparr>is_serial := serial_init (is_serial (mc_is m)), is_ports := w\<rparr>)"
  have j: "is_serial ?j = serial_init (is_serial (mc_is m))" by (simp add: irqs_started_others)
  let ?m3 = "m\<lparr>mc_gdt := gdt_init (mc_gdt m), mc_is := ?j\<lparr>is_console := c\<rparr>, mc_term := u, mc_screen := v, mc_level := l\<rparr>"
  have q: "\<not> se_ready (is_serial (mc_is ?m3))" using p(1,2) by (simp add: j serial_absent)
  have mem3: "memory_init magic mb ks ke (boot_part ?m3) = Some bt" using mem j by (simp add: boot_part_def)
  have hp: "\<not> kh_inited (fs_heap (ps_fs (sc_ps (mc_sc m))))" "kh_inited (fs_heap (ps_fs (process_init (sc_ps (mc_sc m)))))"
    by (rule boot_threads [OF p(5)], assumption)+
  have "start_kernel (w1, w2, w3, str) magic mb ks ke ?m3 = None"
    by (rule start_kernel_faults [OF q _ mem3 _ _ stray]) (use 3(2) p(3,4) hp in simp_all)
  then show ?thesis by (simp add: kernel_main_parts [OF 3(1)])
qed

lemma boot_returns:
  assumes on: "power_on m" and l: "launcher \<noteq> 0" and stray: "pmm_init w1 w2 w3 str (bo_pmm bt) = Some fr"
    and mem: "memory_init magic mb ks ke \<lparr>bo_serial = serial_init (is_serial (mc_is m)), bo_pmm = mc_pmm m, bo_mode = mc_mode m\<rparr> = Some bt"
  shows "\<exists>n. kernel_main a (w1, w2, w3, str) magic mb ks ke ps raw launcher m = Some (Switch 0 0xC00040A8, n)
    \<and> perform (Switch 0 0xC00040A8) r (mc_sc n)
        = Some (Some (tc_entry (mc_sc m), \<lparr>k_edi = 0, k_esi = 0, k_ebx = 0, k_ebp = 0, k_esp = 0xC00080E0\<rparr>), mc_sc n)
    \<and> thread_entry (mc_sc n) = Some (Some (launcher, 0))
    \<and> is_enabled (mc_is n)
    \<and> (\<forall>v < 256. gate_target (is_idt (mc_is n) ! v) = (if v < 20 then a (Ex_stub v) else if 32 \<le> v \<and> v < 48 then a (Irq_stub (v - 32))
          else if v = 0x80 then a Syscall80_stub else 0))
    \<and> (\<forall>v. translate (mc_pg n) v = (if v < 0x400000 then Some (v, True)
          else if 0xC0000000 \<le> v \<and> v < 0xC0100000 then Some (v - 0xC0000000 + 0x400000, False) else None))
    \<and> (\<forall>fl e sp. user_loadable (mc_gdt n) (switch_to_usermode fl e sp))
    \<and> mc_pmm n = fr \<and> mc_mode n = bo_mode bt
    \<and> mc_screen n = replicate 2000 (text_cell 0x07 32)"
proof -
  have p: "\<not> se_ready (is_serial (mc_is m))" "\<not> se_present (is_serial (mc_is m))" "length (is_idt (mc_is m)) = 256" "length (is_handlers (mc_is m)) = 16"
    "length (gs_table (mc_gdt m)) = 6" "linked (mc_pg m)" "\<not> pg_on (mc_pg m)" "cold (mc_sc m)"
    using on by (simp_all add: power_on_def)
  obtain w u v3 l3 c3 where 3: "do { m1 \<leftarrow> start_text m; m2 \<leftarrow> start_interrupts a m1; on_splash splash_show m2 }
      = Some (m\<lparr>mc_gdt := gdt_init (mc_gdt m), mc_is := (irqs_started a ((mc_is m)\<lparr>is_serial := serial_init (is_serial (mc_is m)), is_ports := w\<rparr>))\<lparr>is_console := c3\<rparr>,
          mc_term := u, mc_screen := v3, mc_level := l3\<rparr>)"
    "length v3 = 2000" "console_ok c3" by (rule started_up [OF on])
  let ?i = "(mc_is m)\<lparr>is_serial := serial_init (is_serial (mc_is m)), is_ports := w\<rparr>"
  let ?j = "irqs_started a ?i"
  have j: "is_serial ?j = serial_init (is_serial (mc_is m))" by (simp add: irqs_started_others)
  have sr: "\<not> se_ready (is_serial ?j)" using p(1,2) by (simp add: j serial_absent)
  let ?m3 = "m\<lparr>mc_gdt := gdt_init (mc_gdt m), mc_is := ?j\<lparr>is_console := c3\<rparr>, mc_term := u, mc_screen := v3, mc_level := l3\<rparr>"
  obtain t s1 s2 where hp: "\<not> kh_inited (fs_heap (ps_fs (sc_ps (mc_sc m))))"
    "kh_inited (fs_heap (ps_fs (process_init (sc_ps (mc_sc m)))))" "kh_inited (fs_heap (ps_fs (sc_ps t)))"
    and t: "threading_init ((mc_sc m)\<lparr>sc_ps := process_init (sc_ps (mc_sc m))\<rparr>) = Some t" "sc_ok (sched_init t)"
    "ready_queue (sched_init t) []" "tc_entry t = tc_entry (mc_sc m)" "sc_alloc THREAD_SIZE (sched_init t) = (0xC00040A8, s1)"
    "sc_alloc DEFAULT_STACK_SIZE s1 = (0xC00040E8, s2)" by (rule boot_threads [OF p(8)])
  have mem3: "memory_init magic mb ks ke (boot_part ?m3) = Some bt" using mem j by (simp add: boot_part_def)
  obtain b4 g where 4: "start_kernel (w1, w2, w3, str) magic mb ks ke ?m3 = Some (?m3\<lparr>mc_pmm := fr, mc_mode := bo_mode bt, mc_pg := g,
      mc_fd := fs_init (mc_fd ?m3), mc_sc := sched_init t, mc_screen := b4\<rparr>)" "length b4 = 2000"
    "mapped ((mc_pg ?m3)\<lparr>pg_log := is_serial (mc_is ?m3)\<rparr>) g"
    by (rule start_kernel_returns [OF _ _ mem3 _ _ stray, of t]) (use 3(2) sr p(6,7) hp t(1) in simp_all)
  let ?m4 = "?m3\<lparr>mc_pmm := fr, mc_mode := bo_mode bt, mc_pg := g, mc_fd := fs_init (mc_fd ?m3), mc_sc := sched_init t, mc_screen := b4\<rparr>"
  obtain l5 c5 where 5: "on_splash (splash_show_complete ps) ?m4
      = Some (?m4\<lparr>mc_screen := replicate 2000 (text_cell 0x07 32), mc_level := l5, mc_is := (mc_is ?m4)\<lparr>is_console := c5\<rparr>\<rparr>)"
    by (rule splash_left [of ?m4]) (use 4(2) 3(3) in simp_all)
  let ?k = "?j\<lparr>is_console := c5\<rparr>"
  have k: "\<not> se_ready (is_serial ?k)" using sr by simp
  obtain x where x: "kernel_continue_after_splash raw launcher \<lparr>bo_sc = sched_init t, bo_is = ?k\<rparr> = Some (Switch 0 0xC00040A8, \<lparr>bo_sc = x, bo_is = ?k\<rparr>)"
    "perform (Switch 0 0xC00040A8) r x = Some (Some (tc_entry (sched_init t), \<lparr>k_edi = 0, k_esi = 0, k_ebx = 0, k_ebp = 0,
       k_esp = (0xC00040E8 + DEFAULT_STACK_SIZE) AND NOT 0xF\<rparr>), x)" "thread_entry x = Some (Some (launcher, 0))"
    by (rule scheduler_entered [OF k t(2,3) l t(5) _ t(6)]) simp_all
  let ?n = "?m4\<lparr>mc_screen := replicate 2000 (text_cell 0x07 32), mc_level := l5, mc_is := ?k, mc_sc := x\<rparr>"
  have "kernel_main a (w1, w2, w3, str) magic mb ks ke ps raw launcher m = Some (Switch 0 0xC00040A8, ?n)"
    using 4(1) 5 x(1) by (simp add: kernel_main_parts [OF 3(1)])
  moreover have "tc_entry (sched_init t) = tc_entry (mc_sc m)" "(0xC00040E8 + DEFAULT_STACK_SIZE) AND NOT 0xF = 0xC00080E0"
    using t(4) by (simp_all add: sched_init_def DEFAULT_STACK_SIZE_def)
  moreover have "gate_target (is_idt ?j ! v) = (if v < 20 then a (Ex_stub v) else if 32 \<le> v \<and> v < 48 then a (Irq_stub (v - 32))
      else if v = 0x80 then a Syscall80_stub else 0)" if "v < 256" for v
    using irqs_started_gates [of ?i v a] p(3,4) that by simp
  moreover have "translate g v = (if v < 0x400000 then Some (v, True)
      else if 0xC0000000 \<le> v \<and> v < 0xC0100000 then Some (v - 0xC0000000 + 0x400000, False) else None)" for v
    by (rule walk_mapped [OF _ 4(3)]) (use p(6) in \<open>simp add: linked_def\<close>)
  moreover have "user_loadable (gdt_init (mc_gdt m)) (switch_to_usermode fl e sp)" for fl e sp
    by (simp add: user_loadable_def switch_to_usermode_def user_segments [OF p(5)])
  ultimately show ?thesis using x(2,3) irqs_started_others(3) by (intro exI [of _ ?n]) simp
qed

text \<open>C2.  The whole boot, on a machine without a serial port (\<open>power_on\<close>) on which no interrupt arrives before the end,
  with any boot information that \<^verbatim>\<open>memory_init\<close> can read and whatever is typed.  The first \<^verbatim>\<open>kmalloc\<close> calls \<^verbatim>\<open>pmm_init\<close>
  without its arguments, on the words that are on the stack.  When that call has no
  defined result (it faults, writes behind the bitmap or does not end), neither has the boot; when it returns, \<^verbatim>\<open>_kernel_main\<close> gets to the end:
  the processor switches to the launcher's thread, which is on top of its own stack and calls the launcher.  By then
  interrupts are on and every vector leads to its stub, the first 4 MiB are mapped to themselves and the heap behind
  them, user programs find flat segments, the video mode is that of \<^verbatim>\<open>memory_init\<close>, the frame allocator is not, but what
  the second \<^verbatim>\<open>pmm_init\<close> left, and of everything that was printed nothing is left on the screen.\<close>

theorem kernel_main_boots:
  assumes on: "power_on m" and l: "launcher \<noteq> 0"
    and mem: "memory_init magic mb ks ke \<lparr>bo_serial = serial_init (is_serial (mc_is m)), bo_pmm = mc_pmm m, bo_mode = mc_mode m\<rparr> = Some bt"
  shows "case pmm_init w1 w2 w3 str (bo_pmm bt) of
      None \<Rightarrow> kernel_main a (w1, w2, w3, str) magic mb ks ke ps raw launcher m = None
    | Some fr \<Rightarrow> \<exists>n. kernel_main a (w1, w2, w3, str) magic mb ks ke ps raw launcher m = Some (Switch 0 0xC00040A8, n)
    \<and> perform (Switch 0 0xC00040A8) r (mc_sc n)
        = Some (Some (tc_entry (mc_sc m), \<lparr>k_edi = 0, k_esi = 0, k_ebx = 0, k_ebp = 0, k_esp = 0xC00080E0\<rparr>), mc_sc n)
    \<and> thread_entry (mc_sc n) = Some (Some (launcher, 0))
    \<and> is_enabled (mc_is n)
    \<and> (\<forall>v < 256. gate_target (is_idt (mc_is n) ! v) = (if v < 20 then a (Ex_stub v) else if 32 \<le> v \<and> v < 48 then a (Irq_stub (v - 32))
          else if v = 0x80 then a Syscall80_stub else 0))
    \<and> (\<forall>v. translate (mc_pg n) v = (if v < 0x400000 then Some (v, True)
          else if 0xC0000000 \<le> v \<and> v < 0xC0100000 then Some (v - 0xC0000000 + 0x400000, False) else None))
    \<and> (\<forall>fl e sp. user_loadable (mc_gdt n) (switch_to_usermode fl e sp))
    \<and> mc_pmm n = fr \<and> mc_mode n = bo_mode bt
    \<and> mc_screen n = replicate 2000 (text_cell 0x07 32)"
proof (cases "pmm_init w1 w2 w3 str (bo_pmm bt)")
  case None
  then show ?thesis using boot_faults [OF on _ mem] by simp
next
  case (Some fr)
  then show ?thesis using boot_returns [OF on l _ mem] by simp
qed

definition demo_cold :: sstate where
  "demo_cold = demo_sched\<lparr>sc_ps := process_boot (demo_fs\<lparr>fs_heap := kheap_boot, fs_datas := Map.empty\<rparr>) (\<lambda>_. 0), sc_threads := Map.empty\<rparr>"

definition demo_machine :: machine where
  "demo_machine = \<lparr>mc_is = demo_isys, mc_screen = replicate 2000 0x720, mc_term = \<lparr>te_r = 0, te_c = 0, te_col = 0, te_buf = []\<rparr>,
     mc_level = DEBUG_LEVEL_INFO, mc_gdt = demo_gdt, mc_pmm = pmm_boot, mc_mode = no_mode, mc_pg = demo_paging,
     mc_fd = \<lparr>fd_heap = kheap_boot, fd_files = Map.empty, fd_table = [], fd_types = Map.empty, fd_systems = 0\<rparr>, mc_sc = demo_cold\<rparr>"

lemma memory_init_unknown:
  assumes "silent s" and "pmm_init_default 64512 (bo_pmm s) = Some q" and "display_init 0x36D76289 mb = Some v"
  shows "memory_init 0x36D76289 mb ks ke s = Some (s\<lparr>bo_pmm := q, bo_mode := v\<rparr>)"
  using assms by (simp add: memory_init_def MULTIBOOT2_BOOTLOADER_MAGIC_def on_pmm_def)

text \<open>With the boot information of a Multiboot2 loader and a stack on which \<^verbatim>\<open>pmm_init\<close> happens to find the sizes of a memory
  and of a kernel, and zeros as its boot information; nobody presses a key.\<close>

lemma kernel_main_boots_witness:
  "\<exists>n. kernel_main demo_addr (0x1FC00, 0x100000, 0x180000, replicate 88 0) 0x36D76289 demo_mb 0x100000 0x120000 [] thread0 0x103000 demo_machine = Some (Switch 0 0xC00040A8, n)
    \<and> thread_entry (mc_sc n) = Some (Some (0x103000, 0)) \<and> gate_target (is_idt (mc_is n) ! 0x80) = 0x103000
    \<and> translate (mc_pg n) 0xC0000010 = Some (0x400010, False)"
proof -
  have on: "power_on demo_machine"
    using demo_linked by (simp add: power_on_def demo_machine_def demo_isys_def console_ok_def demo_gdt_def cold_def demo_cold_def process_boot_def demo_fs_def)
  have l: "(0x103000 :: u32) \<noteq> 0" by simp
  let ?b = "\<lparr>bo_serial = serial_init (is_serial (mc_is demo_machine)), bo_pmm = mc_pmm demo_machine, bo_mode = mc_mode demo_machine\<rparr>"
  have "silent ?b" "length (pm_bitmap (bo_pmm ?b)) = 1024"
    by (simp_all add: silent_def serial_absent demo_machine_def demo_isys_def pmm_boot_def)
  then obtain fs where mem: "memory_init 0x36D76289 demo_mb 0x100000 0x120000 ?b = Some (?b\<lparr>bo_pmm := fs, bo_mode := no_mode\<rparr>)"
    and fs: "length (pm_bitmap fs) = 1024"
    using default_frames [of "bo_pmm ?b"] memory_init_unknown [OF _ _ demo_tags(3), of ?b] by blast
  let ?bt = "?b\<lparr>bo_pmm := fs, bo_mode := no_mode\<rparr>"
  have "rd32 (replicate 88 0) 0 = Some 0" by (simp add: rd32_def le32_def byte_at_def)
  then obtain fr where fr: "pmm_init 0x1FC00 0x100000 0x180000 (replicate 88 0) (bo_pmm ?bt) = Some fr"
    using pmm_init_fallback [of "bo_pmm ?bt" "replicate 88 0" 0 "0x1FC00" "0x100000" "0x180000"] fs by auto
  obtain n where n: "kernel_main demo_addr (0x1FC00, 0x100000, 0x180000, replicate 88 0) 0x36D76289 demo_mb 0x100000 0x120000 [] thread0 0x103000 demo_machine = Some (Switch 0 0xC00040A8, n)"
    "thread_entry (mc_sc n) = Some (Some (0x103000, 0))" and g: "\<forall>v < 256. gate_target (is_idt (mc_is n) ! v) = (if v < 20 then demo_addr (Ex_stub v)
      else if 32 \<le> v \<and> v < 48 then demo_addr (Irq_stub (v - 32)) else if v = 0x80 then demo_addr Syscall80_stub else 0)"
    and t: "\<forall>v. translate (mc_pg n) v = (if v < 0x400000 then Some (v, True)
      else if 0xC0000000 \<le> v \<and> v < 0xC0100000 then Some (v - 0xC0000000 + 0x400000, False) else None)"
    using kernel_main_boots [OF on l mem, of demo_addr "0x1FC00" "0x100000" "0x180000" "replicate 88 0" "[]" thread0] fr
    unfolding fr option.case by blast
  have "gate_target (is_idt (mc_is n) ! 0x80) = 0x103000" using g [rule_format, of "0x80"] by (simp add: demo_addr_def)
  moreover have "translate (mc_pg n) 0xC0000010 = Some (0x400010, False)" using t by simp
  ultimately show ?thesis using n by blast
qed

end
