(* ===== verification/Spec2Isabelle.thy ===== *)
theory Spec2Isabelle
  imports RetaBase CStrings LibcFmt Serial KHeap FrameBitmap Acpi BlockDev AtaDisk Loops Display Boot Keyboard Console VfsTypes Fat32 Fat32Vfs Initrd Process Vfs VfsTree Elf Syscalls Interrupts Debug FdTable Gdt Gui Sched Switch Launcher Paging Splash Shell KernelMain
begin

text \<open>
  \<^bold>\<open>RetaOS, an i386 kernel with its own C library.\<close>

  This library models the C code of the kernel as functions of Isabelle/HOL, read off the sources file by
  file, and proves what the parts do: that the heap, the file systems, the scheduler and the drivers keep their
  invariants and refine simple abstract machines, and, where the code does not do what it means to, what it does
  instead.  Every theory opens with a note on what it models; this note says how they fit together.

  \<^bold>\<open>The program.\<close>  The boot loader enters \<^verbatim>\<open>_kernel_main\<close> (\<^verbatim>\<open>kernel/kernel.c\<close>), which starts the serial log, the segment
  descriptors, the interrupts, the keyboard, the memory managers, paging, processes, threads, the file table and the
  scheduler, in this order.  A first thread then reads an archive from the ATA disk, mounts it as the root directory of
  the virtual file system and tries to run \<^verbatim>\<open>/bin/init.elf\<close>.  Programs enter the kernel through \<^verbatim>\<open>int 0x80\<close>.  There are
  a text console, a framebuffer with a window manager, a shell, and a FAT32 driver beside the archive.

  \<^bold>\<open>Conventions.\<close>  Machine integers are words of their width (\<open>u8\<close>, \<open>u16\<close>, \<open>u32\<close>), \<^verbatim>\<open>int\<close> is \<^typ>\<open>int\<close> where the code
  stays within 32 bits and a word read by \<open>sint\<close> where it may leave them.  Static variables and structures are records,
  structures that are shared by pointers are maps from addresses to records, address 0 is NULL.  A function is a
  function on the state; \<open>None\<close> is undefined behaviour or an endless loop: a read or write outside an object, a NULL
  dereference, a loop that never ends, a wait for an event that never comes.  That an operation returns is therefore always
  a statement that the result is \<open>Some\<close>.  Loops on counters are \<open>for_loop\<close> (theory \<open>Loops\<close>) or structural recursion,
  loops along pointers and tags, which need not end, are \<open>partial_function (option)\<close>; no fuel is used.  Ports are
  functions of an arbitrary state of the hardware (\<open>AtaDisk\<close>) or lists of the values a device will return (\<open>Serial\<close>).
  Interrupts do not occur inside a function; where they matter they are explicit steps (\<open>Keyboard\<close>, \<open>Interrupts\<close>).

  \<^bold>\<open>The theories.\<close>

  \<^item> \<open>RetaBase\<close>: the types, error numbers and little-endian fields every theory uses; \<open>Loops\<close>: counted loops over arrays.

  \<^item> \<open>CStrings\<close>: \<^verbatim>\<open>kernel/string.c\<close>, \<^verbatim>\<open>libc/src/string.c\<close> and the string functions of other files.  The functions on buffers agree
  with functions on lists of characters; \<^verbatim>\<open>strtok_r\<close> yields the components of a path.

  \<^item> \<open>LibcFmt\<close>: \<^verbatim>\<open>libc/src/stdio.c\<close> and \<^verbatim>\<open>stdlib.c\<close> (formatted output, \<^verbatim>\<open>atoi\<close>, the allocator) and the formatting of
  \<^verbatim>\<open>kernel/console_utils.c\<close>.  \<^verbatim>\<open>vsnprintf\<close> stays within its buffer, \<^verbatim>\<open>vprintf\<close> does not; printing and parsing are inverse.

  \<^item> \<open>KHeap\<close>: \<^verbatim>\<open>kernel/kheap.c\<close>.  The blocks tile the heap; allocations are fresh and disjoint, freeing undoes them.  The locale
  \<open>allocator\<close> is what the other components know of it; it is interpreted on \<^verbatim>\<open>kmalloc\<close> and \<^verbatim>\<open>kfree\<close> as \<open>kh\<close>, and on the frames of
  \<^verbatim>\<open>memory/pmm.c\<close> as \<open>fa\<close>.  The components know the heap alone; that its initialisation also calls \<^verbatim>\<open>pmm_init\<close>, without the
  arguments this takes, is \<open>kheap_init\<close> in \<open>FrameBitmap\<close>, and a part of the boot in \<open>KernelMain\<close>.

  \<^item> \<open>FrameBitmap\<close>: \<^verbatim>\<open>memory/pmm.c\<close> and \<^verbatim>\<open>kernel/pmm.c\<close>.  The locale \<open>frame_bits\<close>, a bitmap as a set of frames, is interpreted on the
  bit operations of both (\<open>fb\<close>, \<open>kb\<close>); allocation returns the lowest free frame.  \<open>Boot\<close>: \<^verbatim>\<open>arch/x86/x86/kernel_init.c\<close>, which starts
  the managers.

  \<^item> \<open>Paging\<close>: \<^verbatim>\<open>arch/x86/x86/memory/paging.c\<close> over a model of the address translation of the processor: the initial address space,
  and what mapping a page changes in it.

  \<^item> \<open>Gdt\<close>, \<open>Interrupts\<close>, \<open>Serial\<close>, \<open>Keyboard\<close>, \<open>Acpi\<close>: the descriptor tables, interrupts with exceptions, timer and blue screen,
  the serial log, the keyboard with its ring buffer (the locale \<open>bounded_queue\<close>, interpreted as \<open>kq\<close>), which behaves as a list of at
  most 127 keys however interrupts and reads come, and the ACPI tables.  \<open>Gdt\<close> also has what the processor does with the selectors of
  an \<^verbatim>\<open>iret\<close> to user mode, \<open>landing\<close>: the frames of \<^verbatim>\<open>process_switch\<close> fault.  \<open>gdt_init\<close> has the descriptor table register loaded;
  \<^verbatim>\<open>gdt_flush.S\<close> reads the address from EAX, where unoptimised C leaves its argument.

  \<^item> \<open>BlockDev\<close>, \<open>AtaDisk\<close>: \<^verbatim>\<open>kernel/block.c\<close> and \<^verbatim>\<open>drivers/ata/ata.c\<close>.  \<open>ata_conforms\<close> states the ATA protocol of a PIO
  read over the ports, with its sector count, errors, device faults and an end of the disk; a simulated controller satisfies it.
  Over such ports the driver reads the sectors of an abstract disk, which the theories above it use.  The string comparisons of \<open>CStrings\<close> and \<open>BlockDev\<close> are
  interpretations of the locale \<open>string_eq\<close> (\<open>kstr\<close>, \<open>lcstr\<close>, \<open>bn\<close>).

  \<^item> \<open>Fat32\<close>, \<open>Fat32Vfs\<close>: \<^verbatim>\<open>fs/fat32.c\<close> and \<^verbatim>\<open>fs/fat32_vfs.c\<close>.  \<open>Initrd\<close>: \<^verbatim>\<open>kernel/initrd.c\<close>.  Every
  round of its mounting loop succeeds on a sound state (\<open>mount_safe\<close>), but there are headers it does not get past.  Reading a range of a file is the locale
  \<open>ranged_reader\<close>, interpreted on the readers of both (\<open>fatr\<close>, \<open>tarr\<close>).

  \<^item> \<open>VfsTypes\<close>, \<open>Vfs\<close>, \<open>VfsTree\<close>: \<^verbatim>\<open>kernel/vfs.c\<close> with its node operations dispatched to the two file systems, and what it promises
  on a tree of nodes, whose abstraction is the datatype \<open>ftree\<close>.  Files opened through a handler are the locale \<open>file_handler\<close>, an
  extension of \<open>ranged_reader\<close> (\<open>tarf\<close>, \<open>fatf\<close>); the table of open files is a \<open>slot_table\<close> (\<open>vfdt\<close>).

  \<^item> \<open>FdTable\<close>: \<^verbatim>\<open>kernel/fs.c\<close>, the second table of open files, another \<open>slot_table\<close> (\<open>fdt\<close>).  \<open>Process\<close>: \<^verbatim>\<open>kernel/process.c\<close>; its
  result \<open>Enter\<close> is the \<^verbatim>\<open>iret\<close>, of which \<open>Gdt\<close> says what becomes.
  \<open>Elf\<close>: \<^verbatim>\<open>kernel/elf.c\<close> and the \<^verbatim>\<open>exec\<close> of a process.

  \<^item> \<open>Sched\<close>, \<open>Switch\<close>: \<^verbatim>\<open>kernel/sched.c\<close>, \<^verbatim>\<open>kernel/thread.c\<close> and the context switch of \<^verbatim>\<open>switch.S\<close>.  The ready queue is a stack (the
  locale \<open>last_in_first_out\<close>, interpreted as \<open>lifo\<close>), so two threads can starve the rest; a thread that is switched to again
  has its registers and its stack.

  \<^item> \<open>Syscalls\<close>: \<^verbatim>\<open>kernel/syscalls.c\<close>, \<^verbatim>\<open>kernel/syscall.c\<close>, the gate in \<^verbatim>\<open>isr.S\<close> and the stubs of \<^verbatim>\<open>libc/src/unistd.c\<close>.

  \<^item> \<open>Console\<close>: \<^verbatim>\<open>kernel/console.c\<close> and the terminal and line input of \<^verbatim>\<open>kernel/kernel.c\<close>; the screen shows the last lines of a
  sheet of paper.  \<open>Display\<close>, \<open>Gui\<close>: \<^verbatim>\<open>kernel/display.c\<close> and \<^verbatim>\<open>kernel/gui.c\<close>, whose windows are a list.

  \<^item> \<open>Shell\<close>: \<^verbatim>\<open>kernel/shell.c\<close>, whose sessions are an inductive relation.  \<open>Debug\<close>: \<^verbatim>\<open>kernel/debug.c\<close>, on the memory
  of the console.  \<open>Splash\<close>: \<^verbatim>\<open>kernel/splash.c\<close>, on the screen.

  \<^item> \<open>KernelMain\<close>: \<^verbatim>\<open>_kernel_main\<close>, which joins the initialisations of all components on one machine without a serial
  port, and gets from power-on to the switch to the first thread, unless the stray call of \<^verbatim>\<open>pmm_init\<close> has no result.  \<open>Launcher\<close>: that thread, up to the first program.  It joins the models of threads, disk, archive,
  virtual file system, ELF loader, serial log and blue screen, and shows that the boot stops in the last whenever
  mounting the archive returns and leaves a tree of files (\<open>root_served\<close>).

  \<^bold>\<open>The lemmas.\<close>  Each theory has an invariant of its state (\<open>kheap_inv\<close>, \<open>fs_wf\<close>, \<open>fd_inv\<close>, \<open>ps_ok\<close>, \<open>sc_ok\<close>, \<open>gui_ok\<close>, \<open>kbd_inv\<close>,
  \<open>terminal_ok\<close>), lemmas that its operations return and keep it, and lemmas that relate the state to an abstract one: lists for chains of
  pointers (\<open>th_chain\<close>, \<open>fat_chain\<close>, \<open>dir_files\<close>), sets for bitmaps, trees for nodes, paper for screens.  The properties are stated
  over these, on the functions that model the code.  Where the code fails to do what it should, the property says what it does
  instead: a file that is created exists nowhere, two of three threads never run, the gate of the system calls reads the wrong
  registers, no program is ever started, a process that is switched to faults at its first instruction.

  \<^bold>\<open>Bounds.\<close>  Numbers in the statements are those of the code: 32 open files, paths of \<open>VFS_PATH_MAX\<close> characters, 80 by 25 cells,
  32768 frames.  Allocations are limited to \<open>0x3FEFEFF4\<close> bytes (\<open>kmalloc_ok\<close>), above which the test of \<^verbatim>\<open>kmalloc\<close> wraps.  A bound on the
  log (\<open>log_room\<close>) says how often the transmitter must become empty for a message to be sent; \<open>quiet\<close>, \<open>shell_ok\<close> and \<open>power_on\<close> have
  no serial port, so that nothing is sent.

  \<^bold>\<open>Not modelled.\<close>
  Interrupts during the boot, and the parallel of the text memory of the console and the screen after a \<^verbatim>\<open>console_init\<close> (the kernel that
  is built does not call it, nor \<^verbatim>\<open>kernel_init\<close>).  What the file systems, the scheduler and the disk driver write to the serial log, and the echo of typed
  characters on the serial port.  \<^verbatim>\<open>printf\<close>, \<^verbatim>\<open>puts\<close> and \<^verbatim>\<open>snprintf\<close> of the C library, which only forward to modelled functions.
  \<^verbatim>\<open>fs/fat32_impl.c\<close> and \<^verbatim>\<open>fs/fat32_new.c\<close>, which the Makefile excludes.  \<^verbatim>\<open>arch/x86/x86/multiboot2.c\<close> and \<^verbatim>\<open>kernel/multiboot.c\<close>, setters of
  variables that nothing reads.  The drivers for events, sound and network, \<^verbatim>\<open>memory/heap.c\<close> and two functions of \<^verbatim>\<open>kernel/gui.c\<close>, which
  have no body.  The programs under \<^verbatim>\<open>user\<close>, which never run.  Headers with constants and prototypes only, and the resource
  files an archiver left in the tree.
\<close>

end
